(* ===== verification/Js_Prelude.thy ===== *)
theory Js_Prelude
  imports Complex_Main "HOL-Library.List_Lexorder" "HOL-Library.Char_ord"
begin

text \<open>
  The JavaScript values the sources compute with, and the library lemmas the component
  theories share.

  \<^item> A string is a \<^typ>\<open>string\<close> that holds the UTF-8 bytes of the JavaScript string, so
    \<open>TextEncoder\<close> copies it; \<open>js_length\<close> counts the UTF-16 code units the source's
    \<open>.length\<close> counts. Strings with lone surrogates are outside the model.
  \<^item> A number is a \<open>jnum\<close>: an integer, a finite fraction (its exact rational value), NaN
    or an infinity. The sources compare numbers and add and subtract safe integers, where
    a double is exact; the rounding of other double arithmetic is not modelled.
  \<^item> An object is the association list of its own enumerable properties, in order.
  \<^item> \<open>String\<close> and \<open>Number\<close> are \<open>js_to_string\<close> and \<open>js_to_number\<close>. An object with a
    property \<open>toString\<close> of its own would make them throw; the model gives it the text
    of any other object.

  The collections: \<open>js_simps\<close> holds the unfolding of the accessors and shape tests,
  \<open>contract_simps\<close> the unfoldings a contract's round trip needs.
\<close>

named_theorems js_simps \<open>accessors and shape tests on JavaScript values\<close>
named_theorems contract_simps \<open>constants and parsers of the wire contracts\<close>

subsection \<open>Values\<close>

datatype jnum = NInt int | NFrac rat | NNaN | NInfinity bool

datatype jsval =
    JUndefined
  | JNull
  | JBool bool
  | JNum jnum
  | JStr string
  | JArr "jsval list"
  | JObj "(string \<times> jsval) list"

abbreviation JInt :: "int \<Rightarrow> jsval" where
  "JInt n \<equiv> JNum (NInt n)"

definition num_of_rat :: "rat \<Rightarrow> jnum" where
  "num_of_rat r = (if of_int \<lfloor>r\<rfloor> = r then NInt \<lfloor>r\<rfloor> else NFrac r)"

fun num_value :: "jnum \<Rightarrow> rat option" where
  "num_value (NInt n) = Some (of_int n)"
| "num_value (NFrac r) = Some r"
| "num_value _ = None"

text \<open>\<open>Number.MAX_SAFE_INTEGER\<close> is \<open>2\<^sup>5\<^sup>3 - 1\<close>.\<close>

definition MAX_SAFE_INTEGER :: int where
  "MAX_SAFE_INTEGER = 9007199254740991"

fun num_safe_integer :: "jnum \<Rightarrow> bool" where
  "num_safe_integer (NInt n) = (- MAX_SAFE_INTEGER \<le> n \<and> n \<le> MAX_SAFE_INTEGER)"
| "num_safe_integer _ = False"

fun js_is_safe_integer :: "jsval \<Rightarrow> bool" where
  "js_is_safe_integer (JNum x) = num_safe_integer x"
| "js_is_safe_integer _ = False"

fun num_finite :: "jnum \<Rightarrow> bool" where
  "num_finite (NInt _) = True"
| "num_finite (NFrac _) = True"
| "num_finite _ = False"

text \<open>The truth value a condition reads (\<open>!raw\<close>, \<open>raw || d\<close>).\<close>

fun js_truthy :: "jsval \<Rightarrow> bool" where
  "js_truthy JUndefined = False"
| "js_truthy JNull = False"
| "js_truthy (JBool b) = b"
| "js_truthy (JNum (NInt n)) = (n \<noteq> 0)"
| "js_truthy (JNum (NFrac r)) = (r \<noteq> 0)"
| "js_truthy (JNum NNaN) = False"
| "js_truthy (JNum (NInfinity _)) = True"
| "js_truthy (JStr s) = (s \<noteq> [])"
| "js_truthy (JArr _) = True"
| "js_truthy (JObj _) = True"

text \<open>Property access \<open>value[key]\<close> on an object, own properties only.\<close>

definition js_get :: "(string \<times> jsval) list \<Rightarrow> string \<Rightarrow> jsval" where
  "js_get kvs k = (case map_of kvs k of None \<Rightarrow> JUndefined | Some v \<Rightarrow> v)"

definition js_keys :: "(string \<times> jsval) list \<Rightarrow> string list" where
  "js_keys kvs = map fst kvs"

definition js_has :: "(string \<times> jsval) list \<Rightarrow> string \<Rightarrow> bool" where
  "js_has kvs k = (k \<in> set (js_keys kvs))"

text \<open>The shape test every contract starts with: a plain object with exactly these fields.\<close>

definition exact_fields :: "(string \<times> jsval) list \<Rightarrow> string list \<Rightarrow> bool" where
  "exact_fields kvs fields =
     (length (js_keys kvs) = length fields \<and> list_all (js_has kvs) fields)"

definition exact :: "jsval \<Rightarrow> string list \<Rightarrow> (string \<times> jsval) list option" where
  "exact v fields =
     (case v of JObj kvs \<Rightarrow> (if exact_fields kvs fields then Some kvs else None) | _ \<Rightarrow> None)"

text \<open>\<open>Object.keys(value).some((key) => !new Set(fields).has(key))\<close>, negated.\<close>

definition only_fields :: "(string \<times> jsval) list \<Rightarrow> string list \<Rightarrow> bool" where
  "only_fields kvs fields = list_all (\<lambda>k. k \<in> set fields) (js_keys kvs)"

fun js_integer :: "jsval \<Rightarrow> int \<Rightarrow> int \<Rightarrow> int option" where
  "js_integer (JNum (NInt n)) lo hi =
     (if num_safe_integer (NInt n) \<and> lo \<le> n \<and> n \<le> hi then Some n else None)"
| "js_integer _ lo hi = None"

fun js_string :: "jsval \<Rightarrow> string option" where
  "js_string (JStr s) = Some s"
| "js_string _ = None"

fun js_bool :: "jsval \<Rightarrow> bool option" where
  "js_bool (JBool b) = Some b"
| "js_bool _ = None"

fun js_array :: "jsval \<Rightarrow> jsval list option" where
  "js_array (JArr xs) = Some xs"
| "js_array _ = None"

fun js_object :: "jsval \<Rightarrow> (string \<times> jsval) list option" where
  "js_object (JObj kvs) = Some kvs"
| "js_object _ = None"

text \<open>A loop that parses every element and stops with \<open>null\<close> at the first bad one.\<close>

fun collect :: "('a \<Rightarrow> 'b option) \<Rightarrow> 'a list \<Rightarrow> 'b list option" where
  "collect f [] = Some []"
| "collect f (x # xs) =
     (case f x of None \<Rightarrow> None
      | Some y \<Rightarrow> (case collect f xs of None \<Rightarrow> None | Some ys \<Rightarrow> Some (y # ys)))"

subsection \<open>Characters and regular expressions\<close>

definition lower_hex :: "char \<Rightarrow> bool" where
  "lower_hex c = (c \<in> set ''0123456789abcdef'')"

lemma lower_hex_ascii: "lower_hex c \<Longrightarrow> (of_char c :: nat) < 128"
proof -
  have "list_all (\<lambda>c. (of_char c :: nat) < 128) ''0123456789abcdef''" by simp
  then show "lower_hex c \<Longrightarrow> (of_char c :: nat) < 128" unfolding lower_hex_def list_all_iff by blast
qed

definition base64url_char :: "char \<Rightarrow> bool" where
  "base64url_char c =
     (c \<in> set ''ABCDEFGHIJKLMNOPQRSTUVWXYZabcdefghijklmnopqrstuvwxyz0123456789_-'')"

text \<open>\<open>/^[class]{lo,hi}$/\<close> for a class of ASCII characters.\<close>

definition matches :: "(char \<Rightarrow> bool) \<Rightarrow> nat \<Rightarrow> nat \<Rightarrow> string \<Rightarrow> bool" where
  "matches cls lo hi s = (lo \<le> length s \<and> length s \<le> hi \<and> list_all cls s)"

definition PEER_ID :: "string \<Rightarrow> bool" where
  "PEER_ID = matches lower_hex 16 16"

definition OP_ID :: "string \<Rightarrow> bool" where
  "OP_ID = matches lower_hex 32 32"

text \<open>UTF-16 length of the string whose UTF-8 bytes are given: a continuation byte counts
  nothing, the lead of a four-byte sequence counts its two surrogates.\<close>

fun js_length :: "string \<Rightarrow> nat" where
  "js_length [] = 0"
| "js_length (c # cs) =
     (let b = of_char c :: nat in
      (if 128 \<le> b \<and> b < 192 then 0 else if 240 \<le> b then 2 else 1) + js_length cs)"

text \<open>The white space \<open>trim\<close> removes: the byte length of the white-space character a string
  starts with (0 when it starts with none). U+0009 to U+000D, space, U+00A0, U+1680,
  U+2000 to U+200A, U+2028, U+2029, U+202F, U+205F, U+3000 and U+FEFF.\<close>

definition ws1 :: "nat \<Rightarrow> bool" where
  "ws1 a = (9 \<le> a \<and> a \<le> 13 \<or> a = 32)"

definition ws2 :: "nat \<Rightarrow> nat \<Rightarrow> bool" where
  "ws2 a b = (a = 194 \<and> b = 160)"

definition ws3 :: "nat \<Rightarrow> nat \<Rightarrow> nat \<Rightarrow> bool" where
  "ws3 a b c =
     (a = 225 \<and> b = 154 \<and> c = 128
      \<or> a = 226 \<and> b = 128 \<and> (128 \<le> c \<and> c \<le> 138 \<or> c = 168 \<or> c = 169 \<or> c = 175)
      \<or> a = 226 \<and> b = 129 \<and> c = 159
      \<or> a = 227 \<and> b = 128 \<and> c = 128
      \<or> a = 239 \<and> b = 187 \<and> c = 191)"

fun ws_prefix :: "nat list \<Rightarrow> nat" where
  "ws_prefix [] = 0"
| "ws_prefix [a] = (if ws1 a then 1 else 0)"
| "ws_prefix [a, b] = (if ws1 a then 1 else if ws2 a b then 2 else 0)"
| "ws_prefix (a # b # c # _) =
     (if ws1 a then 1 else if ws2 a b then 2 else if ws3 a b c then 3 else 0)"

definition ws_at_start :: "string \<Rightarrow> nat" where
  "ws_at_start s = ws_prefix (map of_char s)"

text \<open>The same read from the end, over the reversed bytes: the length of the white-space
  character the string ends with.\<close>

definition ws_at_end :: "string \<Rightarrow> nat" where
  "ws_at_end s =
     (let n = length s;
          hit = (\<lambda>k. if k \<le> n \<and> ws_at_start (drop (n - k) s) = k then k else 0)
      in if hit 1 = 1 then 1 else if hit 2 = 2 then 2 else if hit 3 = 3 then 3 else 0)"

function trim_start :: "string \<Rightarrow> string" where
  "trim_start s = (if ws_at_start s = 0 \<or> s = [] then s else trim_start (drop (ws_at_start s) s))"
  by pat_completeness auto
termination
  by (relation "measure length") auto

function trim_end :: "string \<Rightarrow> string" where
  "trim_end s =
     (if ws_at_end s = 0 \<or> s = [] then s else trim_end (take (length s - ws_at_end s) s))"
  by pat_completeness auto
termination
  by (relation "measure length") auto

declare trim_start.simps [simp del] trim_end.simps [simp del]

definition js_trim :: "string \<Rightarrow> string" where
  "js_trim s = trim_end (trim_start s)"

definition control_char :: "char \<Rightarrow> bool" where
  "control_char c = ((of_char c :: nat) < 32 \<or> (of_char c :: nat) = 127)"


subsection \<open>Lemmas\<close>

lemma js_get_Cons [js_simps]:
  "js_get ((k, v) # kvs) k' = (if k = k' then v else js_get kvs k')"
  by (simp add: js_get_def)

lemma js_get_Nil [js_simps]: "js_get [] k = JUndefined"
  by (simp add: js_get_def)

lemma js_keys_simps [js_simps]:
  "js_keys [] = []" "js_keys ((k, v) # kvs) = k # js_keys kvs"
  by (simp_all add: js_keys_def)

lemma js_has_Cons [js_simps]: "js_has ((k, v) # kvs) k' = (k = k' \<or> js_has kvs k')"
  by (auto simp: js_has_def js_keys_def)

lemma js_has_Nil [js_simps]: "js_has [] k = False"
  by (simp add: js_has_def js_keys_def)

lemmas [js_simps] = exact_fields_def only_fields_def

lemma exact_JObj [js_simps]:
  "exact (JObj kvs) fields = (if exact_fields kvs fields then Some kvs else None)"
  by (simp add: exact_def)

lemma exact_Some_iff: "exact v fields = Some kvs \<longleftrightarrow> v = JObj kvs \<and> exact_fields kvs fields"
  by (cases v) (auto simp: exact_def)

lemma js_integer_Some_iff:
  "js_integer v lo hi = Some n \<longleftrightarrow>
     v = JInt n \<and> num_safe_integer (NInt n) \<and> lo \<le> n \<and> n \<le> hi"
  by (cases "(v, lo, hi)" rule: js_integer.cases) auto

lemma js_string_Some_iff [simp]: "js_string v = Some s \<longleftrightarrow> v = JStr s"
  by (cases v) auto

lemma js_bool_Some_iff [simp]: "js_bool v = Some b \<longleftrightarrow> v = JBool b"
  by (cases v) auto

lemma js_array_Some_iff [simp]: "js_array v = Some xs \<longleftrightarrow> v = JArr xs"
  by (cases v) auto

lemma js_object_Some_iff [simp]: "js_object v = Some kvs \<longleftrightarrow> v = JObj kvs"
  by (cases v) auto

text \<open>\<open>collect\<close> succeeds exactly when every element parses.\<close>

lemma collect_Some_iff: "collect f xs = Some ys \<longleftrightarrow> list_all2 (\<lambda>x y. f x = Some y) xs ys"
proof (induction xs arbitrary: ys)
  case (Cons x xs)
  then show ?case
    by (cases ys; cases "f x"; cases "collect f xs") (auto simp: Cons.IH [symmetric])
qed auto

lemma collect_length: "collect f xs = Some ys \<Longrightarrow> length ys = length xs"
  by (auto simp: collect_Some_iff dest: list_all2_lengthD)

lemma collect_map:
  assumes "\<And>x. x \<in> set xs \<Longrightarrow> f (g x) = Some (h x)"
  shows "collect f (map g xs) = Some (map h xs)"
  using assms by (induction xs) auto

lemma collect_map_id:
  assumes "\<And>x. x \<in> set xs \<Longrightarrow> f (g x) = Some x"
  shows "collect f (map g xs) = Some xs"
  using collect_map [of xs f g id] assms by simp

lemma collect_mem:
  assumes "collect f xs = Some ys" and "y \<in> set ys"
  shows "\<exists>x \<in> set xs. f x = Some y"
proof -
  from assms(1) have *: "list_all2 (\<lambda>x y. f x = Some y) xs ys"
    by (simp add: collect_Some_iff)
  from assms(2) obtain i where i: "i < length ys" "ys ! i = y"
    by (auto simp: in_set_conv_nth)
  with * have "i < length xs" "f (xs ! i) = Some y"
    by (auto simp: list_all2_conv_all_nth)
  then show ?thesis by auto
qed

subsubsection \<open>Trimming is idempotent\<close>

lemma ws_prefix_append: "ws_prefix xs \<noteq> 0 \<Longrightarrow> ws_prefix (xs @ ys) = ws_prefix xs"
proof (cases xs rule: ws_prefix.cases)
  case (2 a)
  assume "ws_prefix xs \<noteq> 0"
  with 2 show ?thesis by (cases "[a] @ ys" rule: ws_prefix.cases) (auto split: if_splits)
next
  case (3 a b)
  assume "ws_prefix xs \<noteq> 0"
  with 3 show ?thesis by (cases "[a, b] @ ys" rule: ws_prefix.cases) (auto split: if_splits)
qed auto

lemma ws_at_start_take: "ws_at_start s = 0 \<Longrightarrow> ws_at_start (take n s) = 0"
proof (rule ccontr)
  assume z: "ws_at_start s = 0" and nz: "ws_at_start (take n s) \<noteq> 0"
  from nz have "ws_at_start (take n s @ drop n s) = ws_at_start (take n s)"
    unfolding ws_at_start_def map_append by (rule ws_prefix_append)
  with z nz show False by simp
qed

lemma trim_start_no_ws: "ws_at_start (trim_start s) = 0 \<or> trim_start s = []"
proof (induction s rule: trim_start.induct)
  case (1 s)
  then show ?case by (cases "ws_at_start s = 0 \<or> s = []") (auto simp: trim_start.simps [of s])
qed

lemma trim_start_fixed: "ws_at_start s = 0 \<or> s = [] \<Longrightarrow> trim_start s = s"
  by (simp add: trim_start.simps [of s])

lemma trim_end_take: "\<exists>n. trim_end s = take n s"
proof (induction s rule: trim_end.induct)
  case (1 s)
  show ?case
  proof (cases "ws_at_end s = 0 \<or> s = []")
    case True
    then show ?thesis by (auto simp: trim_end.simps [of s] intro: exI [of _ "length s"])
  next
    case False
    with "1.IH" obtain n where
      "trim_end (take (length s - ws_at_end s) s) = take n (take (length s - ws_at_end s) s)"
      by auto
    with False show ?thesis by (auto simp: trim_end.simps [of s] take_take)
  qed
qed

lemma trim_end_idem [simp]: "trim_end (trim_end s) = trim_end s"
proof (induction s rule: trim_end.induct)
  case (1 s)
  show ?case
  proof (cases "ws_at_end s = 0 \<or> s = []")
    case True
    then show ?thesis by (auto simp: trim_end.simps [of s])
  next
    case False
    with 1 show ?thesis by (simp add: trim_end.simps [of s])
  qed
qed

lemma js_trim_idem [simp]: "js_trim (js_trim s) = js_trim s"
proof -
  from trim_end_take obtain n where n: "trim_end (trim_start s) = take n (trim_start s)" ..
  have "ws_at_start (take n (trim_start s)) = 0 \<or> take n (trim_start s) = []"
    using trim_start_no_ws [of s] ws_at_start_take by auto
  then have "trim_start (js_trim s) = js_trim s"
    unfolding js_trim_def n by (rule trim_start_fixed)
  then show ?thesis by (simp add: js_trim_def)
qed

lemma trim_start_drop: "\<exists>n. trim_start s = drop n s"
proof (induction s rule: trim_start.induct)
  case (1 s)
  show ?case
  proof (cases "ws_at_start s = 0 \<or> s = []")
    case True
    then show ?thesis by (auto simp: trim_start.simps [of s] intro: exI [of _ 0])
  next
    case False
    with 1 show ?thesis by (auto simp: trim_start.simps [of s])
  qed
qed

lemma js_trim_sub: "set (js_trim s) \<subseteq> set s" "length (js_trim s) \<le> length s"
proof -
  obtain n m where "js_trim s = take m (drop n s)"
    using trim_start_drop [of s] trim_end_take [of "trim_start s"] by (auto simp: js_trim_def)
  then show "set (js_trim s) \<subseteq> set s" "length (js_trim s) \<le> length s"
    by (auto dest: in_set_takeD in_set_dropD)
qed

subsection \<open>Waiting calls\<close>

text \<open>The calls that wait after number \<open>i\<close> of them is resumed.\<close>

fun drop_nth :: "nat \<Rightarrow> 'a list \<Rightarrow> 'a list" where
  "drop_nth i xs = take i xs @ drop (Suc i) xs"

lemma set_drop_nth: "set (drop_nth i xs) \<subseteq> set xs"
  using set_take_subset [of i xs] set_drop_subset [of "Suc i" xs] by simp

lemma drop_nth_split:
  assumes "i < length xs" obtains ys zs where "xs = ys @ xs ! i # zs" "drop_nth i xs = ys @ zs"
  using that [of "take i xs" "drop (Suc i) xs"] assms by (simp add: id_take_nth_drop)

end
