(* ===== verification/Js_Number.thy ===== *)
theory Js_Number
  imports Js_Prelude
begin

text \<open>
  Numbers as text: decimal numerals, number literals of JSON and of \<open>Number(string)\<close>, and
  the coercions \<open>String(v)\<close> and \<open>Number(v)\<close> of the standard library. The text of a number
  is exact for safe integers and for decimals of at most fifteen significant digits.
\<close>

subsection \<open>Decimal numerals\<close>

definition digit_char :: "nat \<Rightarrow> char" where
  "digit_char d = ''0123456789'' ! d"

definition is_digit :: "char \<Rightarrow> bool" where
  "is_digit c = (48 \<le> (of_char c :: nat) \<and> (of_char c :: nat) \<le> 57)"

definition digit_value :: "char \<Rightarrow> nat" where
  "digit_value c = of_char c - 48"

fun nat_str :: "nat \<Rightarrow> string" where
  "nat_str n = (if n < 10 then [digit_char n] else nat_str (n div 10) @ [digit_char (n mod 10)])"

declare nat_str.simps [simp del]

definition int_str :: "int \<Rightarrow> string" where
  "int_str n = (if n < 0 then ''-'' @ nat_str (nat (- n)) else nat_str (nat n))"

fun digits_value :: "nat \<Rightarrow> string \<Rightarrow> nat" where
  "digits_value acc [] = acc"
| "digits_value acc (c # cs) = digits_value (acc * 10 + digit_value c) cs"

text \<open>\<open>Number::toString\<close> writes the digits of \<open>m \<times> 10\<^sup>e\<close> (\<open>m\<close> not a multiple of ten)
  positionally, or with an exponent when the decimal point is far away. \<open>decimal_of\<close>
  finds \<open>m\<close> and \<open>e\<close>; its fuel is the number of decimal places it looks at.\<close>

fun strip_zeros :: "nat \<Rightarrow> nat \<Rightarrow> int \<Rightarrow> nat \<times> int" where
  "strip_zeros 0 m e = (m, e)"
| "strip_zeros (Suc fuel) m e =
     (if m \<noteq> 0 \<and> m mod 10 = 0 then strip_zeros fuel (m div 10) (e + 1) else (m, e))"

fun decimal_of :: "nat \<Rightarrow> rat \<Rightarrow> int \<Rightarrow> nat \<times> int" where
  "decimal_of 0 r e = (nat \<lfloor>r\<rfloor>, e)"
| "decimal_of (Suc fuel) r e =
     (if of_int \<lfloor>r\<rfloor> = r then strip_zeros 400 (nat \<lfloor>r\<rfloor>) e else decimal_of fuel (10 * r) (e - 1))"

definition rat_digits_str :: "nat \<Rightarrow> int \<Rightarrow> string" where
  "rat_digits_str m e =
     (let ds = nat_str m; k = int (length ds); n = k + e in
      if k \<le> n \<and> n \<le> 21 then ds @ replicate (nat (n - k)) (CHR ''0'')
      else if 0 < n \<and> n \<le> 21 then take (nat n) ds @ ''.'' @ drop (nat n) ds
      else if -6 < n \<and> n \<le> 0 then ''0.'' @ replicate (nat (- n)) (CHR ''0'') @ ds
      else (let x = n - 1; mant = (if k = 1 then ds else take 1 ds @ ''.'' @ drop 1 ds)
            in mant @ ''e'' @ (if x < 0 then ''-'' else ''+'') @ nat_str (nat \<bar>x\<bar>)))"

definition rat_str :: "rat \<Rightarrow> string" where
  "rat_str r =
     (let (m, e) = decimal_of 400 \<bar>r\<bar> 0 in (if r < 0 then ''-'' else []) @ rat_digits_str m e)"

fun num_str :: "jnum \<Rightarrow> string" where
  "num_str (NInt n) = (if \<bar>n\<bar> < 10 ^ 21 then int_str n else rat_str (of_int n))"
| "num_str (NFrac r) = rat_str r"
| "num_str NNaN = ''NaN''"
| "num_str (NInfinity neg) = (if neg then ''-Infinity'' else ''Infinity'')"

subsection \<open>Number literals\<close>

text \<open>An optional exponent, and a literal \<open>digits [. digits] [exponent]\<close>; the value and
  what follows it. \<open>strict\<close> is JSON's grammar (an integer part without leading zeros,
  digits after a point), otherwise \<open>Number(string)\<close>'s.\<close>

definition read_exponent :: "string \<Rightarrow> int \<times> string" where
  "read_exponent s =
     (case s of
        [] \<Rightarrow> (0, s)
      | c # cs \<Rightarrow>
          (if c = CHR ''e'' \<or> c = CHR ''E'' then
             (let (sgn, rest) = (case cs of [] \<Rightarrow> (1, cs)
                | x # xs \<Rightarrow> (if x = CHR ''-'' then (-1, xs) else if x = CHR ''+'' then (1, xs) else (1, cs)));
                  ds = takeWhile is_digit rest
              in if ds = [] then (0, s) else (sgn * int (digits_value 0 ds), dropWhile is_digit rest))
           else (0, s)))"

definition pow10 :: "int \<Rightarrow> rat" where
  "pow10 e = (if 0 \<le> e then 10 ^ nat e else 1 / 10 ^ nat (- e))"

definition read_decimal :: "bool \<Rightarrow> string \<Rightarrow> (rat \<times> string) option" where
  "read_decimal strict s =
     (let ip = takeWhile is_digit s; r = dropWhile is_digit s;
          (fp, r') = (case r of [] \<Rightarrow> ([], r)
             | c # cs \<Rightarrow> if c = CHR ''.'' \<and> (\<not> strict \<or> takeWhile is_digit cs \<noteq> [])
                 then (takeWhile is_digit cs, dropWhile is_digit cs) else ([], r));
          (e, r'') = read_exponent r'
      in if ip = [] \<and> (strict \<or> fp = []) then None
         else if strict \<and> 1 < length ip \<and> hd ip = CHR ''0'' then None
         else Some (of_nat (digits_value 0 (ip @ fp)) * pow10 (e - int (length fp)), r''))"

definition read_json_number :: "string \<Rightarrow> (jsval \<times> string) option" where
  "read_json_number s =
     (let neg = (case s of [] \<Rightarrow> False | c # _ \<Rightarrow> c = CHR ''-'') in
      case read_decimal True (if neg then tl s else s) of
        None \<Rightarrow> None
      | Some (r, rest) \<Rightarrow> Some (JNum (num_of_rat (if neg then - r else r)), rest))"

subsection \<open>Coercions\<close>

fun hex_value :: "char \<Rightarrow> nat option" where
  "hex_value c =
     (if is_digit c then Some (digit_value c)
      else if c \<in> set ''abcdef'' then Some (of_char c - 87)
      else if c \<in> set ''ABCDEF'' then Some (of_char c - 55)
      else None)"

fun radix_value :: "nat \<Rightarrow> nat \<Rightarrow> string \<Rightarrow> nat option" where
  "radix_value radix acc [] = Some acc"
| "radix_value radix acc (c # cs) =
     (case hex_value c of
        None \<Rightarrow> None
      | Some d \<Rightarrow> if d < radix then radix_value radix (acc * radix + d) cs else None)"

definition radix_literal :: "string \<Rightarrow> (nat \<times> string) option" where
  "radix_literal s =
     (case s of
        z # x # ds \<Rightarrow>
          (if z = CHR ''0'' \<and> ds \<noteq> [] then
             (if x \<in> set ''xX'' then Some (16, ds) else if x \<in> set ''oO'' then Some (8, ds)
              else if x \<in> set ''bB'' then Some (2, ds) else None)
           else None)
      | _ \<Rightarrow> None)"

definition number_of_string :: "string \<Rightarrow> jnum" where
  "number_of_string s =
     (let t = js_trim s in
      if t = [] then NInt 0
      else case radix_literal t of
        Some (radix, ds) \<Rightarrow>
          (case radix_value radix 0 ds of None \<Rightarrow> NNaN | Some n \<Rightarrow> NInt (int n))
      | None \<Rightarrow>
          (let signed = hd t \<in> set ''+-''; neg = (hd t = CHR ''-'');
               u = (if signed then tl t else t)
           in if u = ''Infinity'' then NInfinity neg
              else case read_decimal False u of
                Some (r, []) \<Rightarrow> num_of_rat (if neg then - r else r)
              | _ \<Rightarrow> NNaN))"

fun join :: "string \<Rightarrow> string list \<Rightarrow> string" where
  "join sep [] = []"
| "join sep [x] = x"
| "join sep (x # y # ys) = x @ sep @ join sep (y # ys)"

text \<open>An array's text joins its elements' texts with commas; \<open>null\<close> and \<open>undefined\<close>
  elements are empty.\<close>

fun js_to_string :: "jsval \<Rightarrow> string" and js_elem_strings :: "jsval list \<Rightarrow> string list" where
  "js_to_string JUndefined = ''undefined''"
| "js_to_string JNull = ''null''"
| "js_to_string (JBool b) = (if b then ''true'' else ''false'')"
| "js_to_string (JNum n) = num_str n"
| "js_to_string (JStr s) = s"
| "js_to_string (JArr vs) = join '','' (js_elem_strings vs)"
| "js_to_string (JObj kvs) = ''[object Object]''"
| "js_elem_strings [] = []"
| "js_elem_strings (v # vs) =
     (if v = JUndefined \<or> v = JNull then [] else js_to_string v) # js_elem_strings vs"

fun js_to_number :: "jsval \<Rightarrow> jnum" where
  "js_to_number JUndefined = NNaN"
| "js_to_number JNull = NInt 0"
| "js_to_number (JBool b) = NInt (if b then 1 else 0)"
| "js_to_number (JNum n) = n"
| "js_to_number (JStr s) = number_of_string s"
| "js_to_number (JArr vs) = number_of_string (js_to_string (JArr vs))"
| "js_to_number (JObj kvs) = NNaN"

text \<open>\<open>Number(v)\<close> where only safe integers go on, and \<open>String(v || "")\<close>.\<close>

definition safe_number :: "jsval \<Rightarrow> int option" where
  "safe_number v =
     (case js_to_number v of NInt n \<Rightarrow> (if num_safe_integer (NInt n) then Some n else None) | _ \<Rightarrow> None)"

definition string_or_empty :: "jsval \<Rightarrow> string" where
  "string_or_empty v = (if js_truthy v then js_to_string v else [])"

lemma string_or_empty_JStr [simp]: "string_or_empty (JStr s) = s"
  by (simp add: string_or_empty_def)

lemma safe_number_JInt [simp]:
  "safe_number (JInt n) = (if - MAX_SAFE_INTEGER \<le> n \<and> n \<le> MAX_SAFE_INTEGER then Some n else None)"
  by (simp add: safe_number_def)

lemma safe_number_bounds:
  "safe_number v = Some n \<Longrightarrow> - MAX_SAFE_INTEGER \<le> n \<and> n \<le> MAX_SAFE_INTEGER"
  by (auto simp: safe_number_def split: jnum.splits if_splits)

end
