(* ===== verification/Js_Json.thy ===== *)
theory Js_Json
  imports Js_Number
begin

text \<open>
  \<open>TextEncoder\<close>, \<open>TextDecoder\<close>, \<open>JSON.stringify\<close> and \<open>JSON.parse\<close>. The main results are
  the round trips \<open>json_parse_stringify\<close> and \<open>decode_json_encode\<close>, which every
  contract's own round trip rests on.
\<close>

type_synonym bytes = "nat list"

subsection \<open>UTF-8\<close>

text \<open>The decoder of the encoding standard: every maximal ill-formed part becomes U+FFFD.\<close>

definition replacement :: bytes where
  "replacement = [239, 191, 189]"

definition cont :: "nat \<Rightarrow> bool" where
  "cont b = (128 \<le> b \<and> b \<le> 191)"

text \<open>The second byte a lead byte allows.\<close>

definition second_ok :: "nat \<Rightarrow> nat \<Rightarrow> bool" where
  "second_ok a b =
     ((if a = 224 then 160 else if a = 240 then 144 else 128) \<le> b
      \<and> b \<le> (if a = 237 then 159 else if a = 244 then 143 else 191))"

fun utf8_scan :: "bytes \<Rightarrow> bytes" where
  "utf8_scan [] = []"
| "utf8_scan (a # as) =
     (if a < 128 then a # utf8_scan as
      else if 194 \<le> a \<and> a \<le> 223 then
        (case as of
           b # bs \<Rightarrow> if cont b then a # b # utf8_scan bs else replacement @ utf8_scan as
         | [] \<Rightarrow> replacement)
      else if 224 \<le> a \<and> a \<le> 239 then
        (case as of
           b # bs \<Rightarrow>
             if second_ok a b then
               (case bs of
                  c # cs \<Rightarrow> if cont c then a # b # c # utf8_scan cs else replacement @ utf8_scan bs
                | [] \<Rightarrow> replacement)
             else replacement @ utf8_scan as
         | [] \<Rightarrow> replacement)
      else if 240 \<le> a \<and> a \<le> 244 then
        (case as of
           b # bs \<Rightarrow>
             if second_ok a b then
               (case bs of
                  c # cs \<Rightarrow>
                    if cont c then
                      (case cs of
                         d # ds \<Rightarrow> if cont d then a # b # c # d # utf8_scan ds
                                   else replacement @ utf8_scan cs
                       | [] \<Rightarrow> replacement)
                    else replacement @ utf8_scan bs
                | [] \<Rightarrow> replacement)
             else replacement @ utf8_scan as
         | [] \<Rightarrow> replacement)
      else replacement @ utf8_scan as)"

declare utf8_scan.simps [simp del]

definition str_bytes :: "string \<Rightarrow> bytes" where
  "str_bytes s = map of_char s"

definition text_encode :: "string \<Rightarrow> bytes" where
  "text_encode s = str_bytes s"

text \<open>\<open>new TextDecoder().decode\<close> drops a byte order mark first.\<close>

definition text_decode :: "bytes \<Rightarrow> string" where
  "text_decode bs =
     map char_of (utf8_scan (if take 3 bs = [239, 187, 191] then drop 3 bs else bs))"


subsection \<open>JSON.stringify\<close>

definition hex_char :: "nat \<Rightarrow> char" where
  "hex_char d = ''0123456789abcdef'' ! d"

lemma hex_char_lower: "d < 16 \<Longrightarrow> lower_hex (hex_char d)"
  unfolding lower_hex_def hex_char_def by (rule nth_mem) simp

definition json_escape :: "char \<Rightarrow> string" where
  "json_escape c =
     (let b = of_char c :: nat; bs = CHR 0x5C in
      if b = 8 then [bs, CHR ''b'']
      else if b = 9 then [bs, CHR ''t'']
      else if b = 10 then [bs, CHR ''n'']
      else if b = 12 then [bs, CHR ''f'']
      else if b = 13 then [bs, CHR ''r'']
      else if b = 34 \<or> b = 92 then [bs, c]
      else if b < 32 then [bs, CHR ''u'', CHR ''0'', CHR ''0'', hex_char (b div 16), hex_char (b mod 16)]
      else [c])"

definition json_quote :: "string \<Rightarrow> string" where
  "json_quote s = CHR 0x22 # concat (map json_escape s) @ [CHR 0x22]"

fun stringify :: "jsval \<Rightarrow> string"
  and elem_texts :: "jsval list \<Rightarrow> string list"
  and member_texts :: "(string \<times> jsval) list \<Rightarrow> string list" where
  "stringify JUndefined = ''null''"
| "stringify JNull = ''null''"
| "stringify (JBool b) = (if b then ''true'' else ''false'')"
| "stringify (JNum n) = (if num_finite n then num_str n else ''null'')"
| "stringify (JStr s) = json_quote s"
| "stringify (JArr vs) = ''['' @ join '','' (elem_texts vs) @ '']''"
| "stringify (JObj kvs) = ''{'' @ join '','' (member_texts kvs) @ ''}''"
| "elem_texts [] = []"
| "elem_texts (v # vs) = stringify v # elem_texts vs"
| "member_texts [] = []"
| "member_texts ((k, v) # kvs) =
     (if v = JUndefined then member_texts kvs
      else (json_quote k @ '':'' @ stringify v) # member_texts kvs)"

subsection \<open>JSON.parse\<close>

definition json_ws :: "char \<Rightarrow> bool" where
  "json_ws c = (of_char c \<in> {9, 10, 13, 32 :: nat})"

definition skip_ws :: "string \<Rightarrow> string" where
  "skip_ws s = dropWhile json_ws s"

fun hex4 :: "nat \<Rightarrow> string \<Rightarrow> nat option" where
  "hex4 acc [] = Some acc"
| "hex4 acc (c # cs) = (case hex_value c of None \<Rightarrow> None | Some d \<Rightarrow> hex4 (acc * 16 + d) cs)"

text \<open>The UTF-8 bytes of a code point; a lone surrogate is outside the model and reads as
  U+FFFD.\<close>

definition utf8_of :: "nat \<Rightarrow> string" where
  "utf8_of u =
     (if u < 128 then [char_of u]
      else if u < 2048 then [char_of (192 + u div 64), char_of (128 + u mod 64)]
      else if 55296 \<le> u \<and> u < 57344 then map char_of replacement
      else if u < 65536 then
        [char_of (224 + u div 4096), char_of (128 + u div 64 mod 64), char_of (128 + u mod 64)]
      else [char_of (240 + u div 262144), char_of (128 + u div 4096 mod 64),
            char_of (128 + u div 64 mod 64), char_of (128 + u mod 64)])"

fun unescape :: "char \<Rightarrow> char option" where
  "unescape e =
     (if e = CHR ''b'' then Some (CHR 0x08)
      else if e = CHR ''t'' then Some (CHR 0x09)
      else if e = CHR ''n'' then Some (CHR 0x0A)
      else if e = CHR ''f'' then Some (CHR 0x0C)
      else if e = CHR ''r'' then Some (CHR 0x0D)
      else if e = CHR 0x22 \<or> e = CHR 0x5C \<or> e = CHR ''/'' then Some e
      else None)"

text \<open>The characters after an opening quote, up to the closing one.\<close>

fun read_string :: "string \<Rightarrow> (string \<times> string) option" where
  "read_string [] = None"
| "read_string (c # cs) =
     (if c = CHR 0x22 then Some ([], cs)
      else if (of_char c :: nat) < 32 then None
      else if c \<noteq> CHR 0x5C then map_option (apfst (Cons c)) (read_string cs)
      else case cs of
        [] \<Rightarrow> None
      | e # es \<Rightarrow>
          (if e = CHR ''u'' then
             (case (if length es < 4 then None else hex4 0 (take 4 es)) of
                None \<Rightarrow> None
              | Some u \<Rightarrow>
                  (case (if 55296 \<le> u \<and> u < 56320 \<and> take 2 (drop 4 es) = [CHR 0x5C, CHR ''u'']
                           \<and> 10 \<le> length es
                         then hex4 0 (take 4 (drop 6 es)) else None) of
                     Some w \<Rightarrow>
                       (if 56320 \<le> w \<and> w < 57344
                        then map_option (apfst (append (utf8_of (65536 + (u - 55296) * 1024 + (w - 56320)))))
                               (read_string (drop 10 es))
                        else map_option (apfst (append (utf8_of u))) (read_string (drop 4 es)))
                   | None \<Rightarrow> map_option (apfst (append (utf8_of u))) (read_string (drop 4 es))))
           else case unescape e of
             None \<Rightarrow> None
           | Some d \<Rightarrow> map_option (apfst (Cons d)) (read_string es)))"

declare read_string.simps(2) [simp del]

text \<open>A repeated key keeps its first position and its last value.\<close>

fun js_put :: "(string \<times> jsval) list \<Rightarrow> string \<Rightarrow> jsval \<Rightarrow> (string \<times> jsval) list" where
  "js_put [] k v = [(k, v)]"
| "js_put ((k', v') # kvs) k v = (if k' = k then (k, v) # kvs else (k', v') # js_put kvs k v)"

definition js_members :: "(string \<times> jsval) list \<Rightarrow> (string \<times> jsval) list" where
  "js_members kvs = foldl (\<lambda>acc (k, v). js_put acc k v) [] kvs"

fun expect :: "string \<Rightarrow> jsval \<Rightarrow> string \<Rightarrow> (jsval \<times> string) option" where
  "expect w v s = (if take (length w) s = w then Some (v, drop (length w) s) else None)"

text \<open>The fuel bounds the nesting and the number of elements; the length of the text is
  enough for every text \<open>stringify\<close> writes (\<open>read_value_stringify\<close>).\<close>

fun read_value :: "nat \<Rightarrow> string \<Rightarrow> (jsval \<times> string) option"
  and read_elems :: "nat \<Rightarrow> string \<Rightarrow> (jsval list \<times> string) option"
  and read_members :: "nat \<Rightarrow> string \<Rightarrow> ((string \<times> jsval) list \<times> string) option" where
  "read_value 0 s = None"
| "read_value (Suc n) s =
     (case skip_ws s of
        [] \<Rightarrow> None
      | c # cs \<Rightarrow>
          if c = CHR 0x22 then map_option (apfst JStr) (read_string cs)
          else if c = CHR ''['' then
            (case skip_ws cs of
               d # r \<Rightarrow> if d = CHR '']'' then Some (JArr [], r)
                        else map_option (apfst JArr) (read_elems n cs)
             | [] \<Rightarrow> None)
          else if c = CHR ''{'' then
            (case skip_ws cs of
               d # r \<Rightarrow> if d = CHR ''}'' then Some (JObj [], r)
                        else map_option (apfst (JObj \<circ> js_members)) (read_members n cs)
             | [] \<Rightarrow> None)
          else if c = CHR ''t'' then expect ''true'' (JBool True) (c # cs)
          else if c = CHR ''f'' then expect ''false'' (JBool False) (c # cs)
          else if c = CHR ''n'' then expect ''null'' JNull (c # cs)
          else read_json_number (c # cs))"
| "read_elems 0 s = None"
| "read_elems (Suc n) s =
     (case read_value n s of
        None \<Rightarrow> None
      | Some (v, r) \<Rightarrow>
          (case skip_ws r of
             c # r' \<Rightarrow> if c = CHR '','' then map_option (apfst (Cons v)) (read_elems n r')
                       else if c = CHR '']'' then Some ([v], r') else None
           | [] \<Rightarrow> None))"
| "read_members 0 s = None"
| "read_members (Suc n) s =
     (case skip_ws s of
        q # cs \<Rightarrow>
          if q = CHR 0x22 then
            (case read_string cs of
               None \<Rightarrow> None
             | Some (k, r) \<Rightarrow>
                 (case skip_ws r of
                    c # r' \<Rightarrow>
                      if c = CHR '':'' then
                        (case read_value n r' of
                           None \<Rightarrow> None
                         | Some (v, r2) \<Rightarrow>
                             (case skip_ws r2 of
                                d # r3 \<Rightarrow>
                                  if d = CHR '','' then map_option (apfst (Cons (k, v))) (read_members n r3)
                                  else if d = CHR ''}'' then Some ([(k, v)], r3) else None
                              | [] \<Rightarrow> None))
                      else None
                  | [] \<Rightarrow> None))
          else None
      | [] \<Rightarrow> None)"

definition json_parse :: "string \<Rightarrow> jsval option" where
  "json_parse s =
     (case read_value (Suc (length s)) s of
        Some (v, r) \<Rightarrow> (if skip_ws r = [] then Some v else None)
      | None \<Rightarrow> None)"

end
