(* ===== verification/Js_Json_Laws.thy ===== *)
theory Js_Json_Laws
  imports Js_Json
begin

text \<open>
  The laws of the JSON and UTF-8 models. \<open>json_parse_stringify\<close>: parsing undoes
  \<open>stringify\<close> on every \<open>json_clean\<close> value (the fuel \<open>json_parse\<close> gives is enough).
  \<open>decode_json_encode\<close>: the same through \<open>TextEncoder\<close> and \<open>TextDecoder\<close>, for values
  whose strings are well-formed UTF-8.
\<close>

subsection \<open>Numbers\<close>

lemma less_10_cases:
  fixes d :: nat
  assumes "d < 10"
  obtains "d = 0" | "d = 1" | "d = 2" | "d = 3" | "d = 4" | "d = 5" | "d = 6" | "d = 7" | "d = 8" | "d = 9"
proof -
  have "d = 0 \<or> d = 1 \<or> d = 2 \<or> d = 3 \<or> d = 4 \<or> d = 5 \<or> d = 6 \<or> d = 7 \<or> d = 8 \<or> d = 9"
    using assms by presburger
  then show thesis using that by blast
qed

lemma is_digit_digit_char [simp]: "d < 10 \<Longrightarrow> is_digit (digit_char d)"
  by (erule less_10_cases) (simp_all add: is_digit_def digit_char_def)

lemma digit_value_digit_char [simp]: "d < 10 \<Longrightarrow> digit_value (digit_char d) = d"
  by (erule less_10_cases) (simp_all add: digit_value_def digit_char_def)

lemma digits_value_append [simp]:
  "digits_value acc (xs @ ys) = digits_value (digits_value acc xs) ys"
  by (induction xs arbitrary: acc) auto

lemma digits_value_nat_str: "digits_value 0 (nat_str n) = n"
proof (induction n rule: nat_str.induct)
  case (1 n)
  then show ?case by (cases "n < 10") (simp_all add: nat_str.simps [of n])
qed

lemma nat_str_digits: "\<forall>c \<in> set (nat_str n). is_digit c"
proof (induction n rule: nat_str.induct)
  case (1 n)
  then show ?case by (cases "n < 10") (auto simp: nat_str.simps [of n])
qed

lemma nat_str_nonempty [simp]: "nat_str n \<noteq> []"
  by (subst nat_str.simps) simp

lemma nat_str_hd_zero: "hd (nat_str n) = CHR ''0'' \<Longrightarrow> n = 0"
proof (induction n rule: nat_str.induct)
  case (1 n)
  show ?case
  proof (cases "n < 10")
    case True
    with "1.prems" have "digit_value (digit_char n) = digit_value (CHR ''0'')"
      by (simp add: nat_str.simps [of n])
    moreover have "digit_value (CHR ''0'') = 0" by (simp add: digit_value_def)
    ultimately show ?thesis using True by simp
  next
    case False
    with "1.prems" have "hd (nat_str (n div 10)) = CHR ''0''"
      by (simp add: nat_str.simps [of n])
    with "1.IH" False have "n div 10 = 0" by simp
    with False show ?thesis by simp
  qed
qed

text \<open>What may follow a number in a JSON text without being read as part of it.\<close>

definition ends_number :: "string \<Rightarrow> bool" where
  "ends_number s = (case s of [] \<Rightarrow> True | c # _ \<Rightarrow> \<not> is_digit c \<and> c \<notin> set ''.eE'')"

lemma read_exponent_none: "ends_number s \<Longrightarrow> read_exponent s = (0, s)"
  by (cases s) (auto simp: ends_number_def read_exponent_def)

lemma scan_digits:
  assumes "ends_number rest"
  shows "takeWhile is_digit (nat_str n @ rest) = nat_str n"
    and "dropWhile is_digit (nat_str n @ rest) = rest"
  using assms nat_str_digits [of n]
  by (cases rest; auto simp: ends_number_def takeWhile_append dropWhile_append)+

lemma read_decimal_nat_str:
  assumes "ends_number rest"
  shows "read_decimal True (nat_str n @ rest) = Some (of_nat n, rest)"
proof -
  have "\<not> (1 < length (nat_str n) \<and> hd (nat_str n) = CHR ''0'')"
    using nat_str_hd_zero [of n] by (auto simp: nat_str.simps [of 0])
  moreover have "(case rest of [] \<Rightarrow> ([], rest)
      | c # cs \<Rightarrow> if c = CHR ''.'' \<and> (\<not> True \<or> takeWhile is_digit cs \<noteq> [])
          then (takeWhile is_digit cs, dropWhile is_digit cs) else ([], rest)) = ([], rest)"
    using assms by (auto simp: ends_number_def split: list.splits)
  ultimately show ?thesis
    using assms unfolding read_decimal_def
    by (simp add: scan_digits read_exponent_none digits_value_nat_str pow10_def Let_def)
qed

lemma nat_str_not_minus: "hd (nat_str n @ rest) \<noteq> CHR ''-''"
proof -
  have "is_digit (hd (nat_str n))"
    using nat_str_digits [of n] hd_in_set [OF nat_str_nonempty] by blast
  then show ?thesis by (auto simp: is_digit_def)
qed

lemma num_of_rat_of_int [simp]: "num_of_rat (of_int n) = NInt n"
  by (simp add: num_of_rat_def)

lemma read_json_number_int:
  assumes "ends_number rest"
  shows "read_json_number (int_str n @ rest) = Some (JInt n, rest)"
proof (cases "n < 0")
  case True
  have "- (of_nat (nat (- n)) :: rat) = of_int n"
    using True by (simp add: of_nat_nat)
  with True assms show ?thesis
    by (simp add: read_json_number_def int_str_def read_decimal_nat_str)
next
  case False
  obtain c cs where c: "nat_str (nat n) @ rest = c # cs" "c \<noteq> CHR ''-''"
    using nat_str_not_minus [of "nat n" rest] by (cases "nat_str (nat n) @ rest") auto
  have "(of_nat (nat n) :: rat) = of_int n"
    using False by (simp add: of_nat_nat)
  with False assms c read_decimal_nat_str [OF assms, of "nat n"] show ?thesis
    by (simp add: read_json_number_def int_str_def)
qed

subsubsection \<open>Strings\<close>

lemma hex_value_hex_char: "d < 16 \<Longrightarrow> hex_value (hex_char d) = Some d"
proof (cases "d < 10")
  case True
  then show ?thesis
    by (rule less_10_cases) (simp_all add: hex_char_def is_digit_def digit_value_def)
next
  case False
  assume "d < 16"
  with False consider "d = 10" | "d = 11" | "d = 12" | "d = 13" | "d = 14" | "d = 15" by linarith
  then show ?thesis by cases (simp_all add: hex_char_def is_digit_def)
qed

lemma read_string_control:
  assumes "(of_char c :: nat) < 32" and "json_escape c = [CHR 0x5C, CHR ''u'', CHR ''0'', CHR ''0'', hex_char (of_char c div 16), hex_char (of_char c mod 16)]"
  shows "read_string (json_escape c @ t) = map_option (apfst (Cons c)) (read_string t)"
proof -
  let ?b = "of_char c :: nat"
  have "hex4 0 [CHR ''0'', CHR ''0'', hex_char (?b div 16), hex_char (?b mod 16)] = Some ?b"
    using assms(1) hex_value_hex_char [of "?b div 16"] hex_value_hex_char [of "?b mod 16"]
    by (simp add: is_digit_def digit_value_def del: hex_value.simps) (simp add: hex_value.simps is_digit_def digit_value_def)
  moreover have "utf8_of ?b = [c]"
    using assms(1) by (simp add: utf8_of_def)
  moreover have "apfst (append [c]) = (apfst (Cons c) :: string \<times> string \<Rightarrow> _)"
    by (simp add: fun_eq_iff)
  ultimately show ?thesis
    using assms unfolding assms(2) by (simp add: read_string.simps(2))
qed

lemma read_string_plain:
  assumes "32 \<le> (of_char c :: nat)" "c \<noteq> CHR 0x22" "c \<noteq> CHR 0x5C"
  shows "read_string (c # t) = map_option (apfst (Cons c)) (read_string t)"
  using assms by (simp add: read_string.simps(2))

lemma read_string_short:
  assumes "e \<noteq> CHR ''u''" and "unescape e = Some c"
  shows "read_string (CHR 0x5C # e # t) = map_option (apfst (Cons c)) (read_string t)"
  using assms by (simp add: read_string.simps(2) del: unescape.simps)

lemma read_string_escape:
  "read_string (json_escape c @ t) = map_option (apfst (Cons c)) (read_string t)"
proof -
  let ?b = "of_char c :: nat"
  have c: "?b = of_char d \<Longrightarrow> c = d" for d by simp
  consider "?b = 8" | "?b = 9" | "?b = 10" | "?b = 12" | "?b = 13" | "?b = 34" | "?b = 92"
    | "?b < 32" "?b \<notin> {8, 9, 10, 12, 13}" | "32 \<le> ?b" "?b \<noteq> 34" "?b \<noteq> 92"
    by fastforce
  then show ?thesis
  proof cases
    case 8
    then show ?thesis by (intro read_string_control) (auto simp: json_escape_def Let_def)
  next
    case 9
    then have "c \<noteq> CHR 0x22" "c \<noteq> CHR 0x5C" by auto
    with 9 show ?thesis by (simp add: json_escape_def Let_def read_string_plain)
  next
    case 1
    then show ?thesis by (simp add: json_escape_def Let_def read_string_short c [of "CHR 0x08"])
  next
    case 2
    then show ?thesis by (simp add: json_escape_def Let_def read_string_short c [of "CHR 0x09"])
  next
    case 3
    then show ?thesis by (simp add: json_escape_def Let_def read_string_short c [of "CHR 0x0A"])
  next
    case 4
    then show ?thesis by (simp add: json_escape_def Let_def read_string_short c [of "CHR 0x0C"])
  next
    case 5
    then show ?thesis by (simp add: json_escape_def Let_def read_string_short c [of "CHR 0x0D"])
  next
    case 6
    then show ?thesis by (simp add: json_escape_def Let_def read_string_short c [of "CHR 0x22"])
  next
    case 7
    then show ?thesis by (simp add: json_escape_def Let_def read_string_short c [of "CHR 0x5C"])
  qed
qed

lemma read_string_quote:
  "read_string (concat (map json_escape s) @ CHR 0x22 # rest) = Some (s, rest)"
  by (induction s) (simp_all add: read_string_escape read_string.simps(2) [of "CHR 0x22"])

subsubsection \<open>Values\<close>

text \<open>The values \<open>stringify\<close> writes and \<open>json_parse\<close> reads back unchanged: no \<open>undefined\<close>,
  safe integers as the only numbers, distinct keys.\<close>

fun json_clean :: "jsval \<Rightarrow> bool" where
  "json_clean JUndefined = False"
| "json_clean JNull = True"
| "json_clean (JBool b) = True"
| "json_clean (JNum n) = num_safe_integer n"
| "json_clean (JStr s) = True"
| "json_clean (JArr vs) = (\<forall>v \<in> set vs. json_clean v)"
| "json_clean (JObj kvs) = (distinct (map fst kvs) \<and> (\<forall>kv \<in> set kvs. json_clean (snd kv)))"

lemma skip_ws_Cons [simp]: "\<not> json_ws c \<Longrightarrow> skip_ws (c # cs) = c # cs"
  by (simp add: skip_ws_def)

lemma js_put_new: "k \<notin> fst ` set kvs \<Longrightarrow> js_put kvs k v = kvs @ [(k, v)]"
  by (induction kvs) auto

lemma foldl_js_put:
  "distinct (map fst (acc @ kvs)) \<Longrightarrow> foldl (\<lambda>acc (k, v). js_put acc k v) acc kvs = acc @ kvs"
proof (induction kvs arbitrary: acc)
  case (Cons kv kvs)
  obtain k v where kv: "kv = (k, v)" by force
  with Cons.prems have "js_put acc k v = acc @ [(k, v)]"
    by (intro js_put_new) auto
  with Cons kv show ?case by simp
qed simp

lemma js_members_distinct: "distinct (map fst kvs) \<Longrightarrow> js_members kvs = kvs"
  unfolding js_members_def using foldl_js_put [of "[]" kvs] by simp

text \<open>The first character of a written value is no white space and does not close a list.\<close>

lemma num_str_first:
  assumes "num_safe_integer n"
  obtains c cs where "num_str n = c # cs" "is_digit c \<or> c = CHR ''-''"
proof -
  from assms obtain i where n: "n = NInt i" and b: "\<bar>i\<bar> < 10 ^ 21"
    by (cases n) (auto simp: MAX_SAFE_INTEGER_def)
  have "\<exists>c cs. nat_str m = c # cs \<and> is_digit c" for m
    using nat_str_nonempty [of m] nat_str_digits [of m] by (cases "nat_str m") auto
  then obtain c cs where c: "nat_str (nat i) = c # cs" "is_digit c" by blast
  show thesis
  proof (cases "i < 0")
    case True
    with n b show thesis by (intro that [of "CHR ''-''" "nat_str (nat (- i))"]) (simp_all add: int_str_def)
  next
    case False
    with n b c show thesis by (intro that [of c cs]) (simp_all add: int_str_def)
  qed
qed

definition starts_value :: "char \<Rightarrow> bool" where
  "starts_value c = (is_digit c \<or> c \<in> {CHR ''-'', CHR ''['', CHR ''{'', CHR ''t'', CHR ''f'', CHR ''n'', CHR 0x22})"

lemma starts_value_not_ws: "starts_value c \<Longrightarrow> \<not> json_ws c"
  by (auto simp: starts_value_def json_ws_def is_digit_def)

lemma starts_value_not_close: "starts_value c \<Longrightarrow> c \<noteq> CHR '']''"
  by (auto simp: starts_value_def is_digit_def)

lemma stringify_first:
  assumes "json_clean v"
  obtains c cs where "stringify v = c # cs" "starts_value c"
proof (cases v)
  case (JNum n)
  with assms have n: "num_safe_integer n" by simp
  then have "num_finite n" by (cases n) auto
  moreover from n obtain c cs where "num_str n = c # cs" "is_digit c \<or> c = CHR ''-''"
    by (rule num_str_first)
  ultimately show thesis
    using JNum by (intro that [of c cs]) (auto simp: starts_value_def)
next
  case (JBool b)
  then show thesis using that by (cases b) (auto simp: starts_value_def)
qed (use assms that in \<open>auto simp: json_quote_def starts_value_def\<close>)

lemma read_value_num:
  assumes "num_safe_integer n" and "ends_number rest" and "0 < m"
  shows "read_value m (num_str n @ rest) = Some (JNum n, rest)"
proof -
  from assms(1) obtain i where n: "n = NInt i" and b: "\<bar>i\<bar> < 10 ^ 21"
    by (cases n) (auto simp: MAX_SAFE_INTEGER_def)
  from assms(1) obtain c cs where c: "num_str n = c # cs" "is_digit c \<or> c = CHR ''-''"
    by (rule num_str_first)
  then have ne: "\<not> json_ws c" "c \<noteq> CHR 0x22" "c \<noteq> CHR ''[''" "c \<noteq> CHR ''{''"
    "c \<noteq> CHR ''t''" "c \<noteq> CHR ''f''" "c \<noteq> CHR ''n''"
    by (auto simp: json_ws_def is_digit_def)
  obtain m' where "m = Suc m'" using assms(3) by (cases m) auto
  moreover have "read_json_number (num_str n @ rest) = Some (JNum n, rest)"
    using read_json_number_int [OF assms(2)] n b by simp
  ultimately show ?thesis using c ne by simp
qed

lemma join_Cons: "ys \<noteq> [] \<Longrightarrow> join sep (y # ys) = y @ sep @ join sep ys"
  by (cases ys) auto

lemma ends_number_delims: "ends_number (CHR '','' # r)" "ends_number (CHR '']'' # r)" "ends_number (CHR ''}'' # r)"
  by (simp_all add: ends_number_def is_digit_def)

definition reads_back :: "jsval \<Rightarrow> bool" where
  "reads_back v = (\<forall>n rest. length (stringify v) \<le> n \<longrightarrow> ends_number rest \<longrightarrow>
     read_value n (stringify v @ rest) = Some (v, rest))"

lemma read_elems_stringify:
  assumes "vs \<noteq> []" and "\<And>v. v \<in> set vs \<Longrightarrow> reads_back v"
    and "length (join '','' (elem_texts vs)) < n"
  shows "read_elems n (join '','' (elem_texts vs) @ CHR '']'' # rest) = Some (vs, rest)"
  using assms
proof (induction vs arbitrary: n)
  case (Cons v vs)
  obtain m where n: "n = Suc m" using Cons.prems(3) by (cases n) auto
  have v: "reads_back v" using Cons.prems(2) by simp
  show ?case
  proof (cases "vs = []")
    case True
    with n v Cons.prems(3) show ?thesis
      by (simp add: reads_back_def ends_number_delims json_ws_def)
  next
    case False
    then have ne: "elem_texts vs \<noteq> []" by (cases vs) auto
    have len: "length (stringify v) \<le> m" "length (join '','' (elem_texts vs)) < m"
      using Cons.prems(3) n by (simp_all add: join_Cons [OF ne])
    have "read_elems m (join '','' (elem_texts vs) @ CHR '']'' # rest) = Some (vs, rest)"
      using Cons.IH [OF False _ len(2)] Cons.prems(2) by simp
    with n v len(1) show ?thesis
      by (simp add: join_Cons [OF ne] reads_back_def ends_number_delims json_ws_def)
  qed
qed simp

lemma read_members_stringify:
  assumes "kvs \<noteq> []" and "\<And>kv. kv \<in> set kvs \<Longrightarrow> reads_back (snd kv) \<and> snd kv \<noteq> JUndefined"
    and "length (join '','' (member_texts kvs)) < n"
  shows "read_members n (join '','' (member_texts kvs) @ CHR ''}'' # rest) = Some (kvs, rest)"
  using assms
proof (induction kvs arbitrary: n)
  case (Cons kv kvs)
  obtain k v where kv: "kv = (k, v)" by force
  obtain m where n: "n = Suc m" using Cons.prems(3) by (cases n) auto
  have v: "reads_back v" "v \<noteq> JUndefined" using Cons.prems(2) [of kv] kv by simp_all
  note read_key = read_string_quote [of k]
  show ?case
  proof (cases "kvs = []")
    case True
    with n v kv Cons.prems(3) show ?thesis
      by (simp add: reads_back_def ends_number_delims json_ws_def json_quote_def read_key)
  next
    case False
    then have ne: "member_texts kvs \<noteq> []"
      using Cons.prems(2) [of "hd kvs"] by (cases kvs) (auto split: prod.splits)
    have len: "length (stringify v) \<le> m" "length (join '','' (member_texts kvs)) < m"
      using Cons.prems(3) n kv v(2) by (simp_all add: join_Cons [OF ne])
    have "read_members m (join '','' (member_texts kvs) @ CHR ''}'' # rest) = Some (kvs, rest)"
      using Cons.IH [OF False _ len(2)] Cons.prems(2) by simp
    with n v kv len(1) show ?thesis
      by (simp add: join_Cons [OF ne] reads_back_def ends_number_delims json_ws_def json_quote_def
          read_key)
  qed
qed simp

lemma stringify_JArr_first:
  assumes "vs \<noteq> []" and "json_clean (hd vs)"
  obtains c cs where "join '','' (elem_texts vs) = c # cs" "starts_value c"
proof -
  obtain v vs' where vs: "vs = v # vs'" using assms(1) by (cases vs) auto
  with assms(2) obtain c cs where c: "stringify v = c # cs" "starts_value c"
    by (auto elim: stringify_first)
  have "\<exists>t. join '','' (elem_texts vs) = c # t"
    using vs c(1) by (cases vs') auto
  with c(2) that show thesis by blast
qed

lemma member_texts_first:
  assumes "kvs \<noteq> []" and "snd (hd kvs) \<noteq> JUndefined"
  obtains cs where "join '','' (member_texts kvs) = CHR 0x22 # cs"
proof -
  obtain k v kvs' where kvs: "kvs = (k, v) # kvs'" using assms(1) by (cases kvs) auto
  have "\<exists>t. join '','' (member_texts kvs) = CHR 0x22 # t"
    using kvs assms(2) by (cases "member_texts kvs'") (auto simp: json_quote_def)
  with that show thesis by blast
qed

lemma reads_back_clean: "json_clean v \<Longrightarrow> reads_back v"
proof (induction v)
  case (JNum n)
  then have "num_safe_integer n" "num_finite n" by (auto, cases n, auto)
  moreover then have "0 < length (num_str n)" by (auto elim: num_str_first)
  ultimately show ?case
    unfolding reads_back_def by (auto intro!: read_value_num gr0I)
next
  case (JStr s)
  show ?case
    unfolding reads_back_def
  proof (intro allI impI)
    fix n rest
    assume "length (stringify (JStr s)) \<le> n"
    then obtain m where "n = Suc m" by (cases n) (auto simp: json_quote_def)
    then show "read_value n (stringify (JStr s) @ rest) = Some (JStr s, rest)"
      by (simp add: json_quote_def json_ws_def read_string_quote)
  qed
next
  case (JArr vs)
  show ?case
    unfolding reads_back_def
  proof (intro allI impI)
    fix n rest
    assume len: "length (stringify (JArr vs)) \<le> n"
    then obtain m where n: "n = Suc m" by (cases n) auto
    show "read_value n (stringify (JArr vs) @ rest) = Some (JArr vs, rest)"
    proof (cases "vs = []")
      case True
      with n show ?thesis by (simp add: json_ws_def)
    next
      case False
      with JArr.prems have "json_clean (hd vs)" by simp
      with False obtain c cs where c: "join '','' (elem_texts vs) = c # cs" "starts_value c"
        by (rule stringify_JArr_first)
      have "read_elems m (join '','' (elem_texts vs) @ CHR '']'' # rest) = Some (vs, rest)"
        using False JArr n len by (intro read_elems_stringify) auto
      with n c show ?thesis
        using starts_value_not_ws [of c] starts_value_not_close [of c] by (simp add: json_ws_def)
    qed
  qed
next
  case (JObj kvs)
  show ?case
    unfolding reads_back_def
  proof (intro allI impI)
    fix n rest
    assume len: "length (stringify (JObj kvs)) \<le> n"
    then obtain m where n: "n = Suc m" by (cases n) auto
    have ok: "reads_back (snd kv) \<and> snd kv \<noteq> JUndefined" if "kv \<in> set kvs" for kv
    proof -
      have "json_clean (snd kv)" using JObj.prems that by auto
      moreover have "reads_back (snd kv)"
        using JObj.IH [of kv "snd kv"] that calculation by (cases kv) auto
      ultimately show ?thesis by auto
    qed
    show "read_value n (stringify (JObj kvs) @ rest) = Some (JObj kvs, rest)"
    proof (cases "kvs = []")
      case True
      with n show ?thesis by (simp add: json_ws_def)
    next
      case False
      with ok obtain cs where c: "join '','' (member_texts kvs) = CHR 0x22 # cs"
        by (metis member_texts_first hd_in_set)
      have "read_members m (join '','' (member_texts kvs) @ CHR ''}'' # rest) = Some (kvs, rest)"
        using False ok n len by (intro read_members_stringify) auto
      with n c JObj.prems show ?thesis by (simp add: json_ws_def js_members_distinct)
    qed
  qed
next
  case (JBool b)
  show ?case
    unfolding reads_back_def
  proof (intro allI impI)
    fix n rest
    assume "length (stringify (JBool b)) \<le> n"
    then obtain m where "n = Suc m" by (cases n) (auto split: if_splits)
    then show "read_value n (stringify (JBool b) @ rest) = Some (JBool b, rest)"
      by (cases b) (simp_all add: json_ws_def)
  qed
next
  case JNull
  show ?case
    unfolding reads_back_def
  proof (intro allI impI)
    fix n rest
    assume "length (stringify JNull) \<le> n"
    then obtain m where "n = Suc m" by (cases n) auto
    then show "read_value n (stringify JNull @ rest) = Some (JNull, rest)"
      by (simp add: json_ws_def)
  qed
qed simp

lemma json_parse_stringify:
  assumes "json_clean v"
  shows "json_parse (stringify v) = Some v"
proof -
  have "read_value (Suc (length (stringify v))) (stringify v @ []) = Some (v, [])"
    using reads_back_clean [OF assms] unfolding reads_back_def
    by (simp add: ends_number_def del: read_value.simps append_Nil2)
  then show ?thesis unfolding json_parse_def by (simp add: skip_ws_def del: read_value.simps)
qed

subsubsection \<open>Bytes\<close>

text \<open>Well-formed UTF-8, and that the scanner passes it through.\<close>

inductive utf8_wf :: "bytes \<Rightarrow> bool" where
  utf8_nil: "utf8_wf []"
| utf8_one: "a < 128 \<Longrightarrow> utf8_wf bs \<Longrightarrow> utf8_wf (a # bs)"
| utf8_two: "194 \<le> a \<Longrightarrow> a \<le> 223 \<Longrightarrow> cont b \<Longrightarrow> utf8_wf bs \<Longrightarrow> utf8_wf (a # b # bs)"
| utf8_three: "224 \<le> a \<Longrightarrow> a \<le> 239 \<Longrightarrow> second_ok a b \<Longrightarrow> cont c \<Longrightarrow> utf8_wf bs \<Longrightarrow>
    utf8_wf (a # b # c # bs)"
| utf8_four: "240 \<le> a \<Longrightarrow> a \<le> 244 \<Longrightarrow> second_ok a b \<Longrightarrow> cont c \<Longrightarrow> cont d \<Longrightarrow> utf8_wf bs \<Longrightarrow>
    utf8_wf (a # b # c # d # bs)"

definition utf8_ok :: "string \<Rightarrow> bool" where
  "utf8_ok s = utf8_wf (str_bytes s)"

lemma utf8_wf_append: "utf8_wf xs \<Longrightarrow> utf8_wf ys \<Longrightarrow> utf8_wf (xs @ ys)"
  by (induction rule: utf8_wf.induct) (auto intro: utf8_wf.intros)

lemma utf8_scan_wf: "utf8_wf bs \<Longrightarrow> utf8_scan bs = bs"
  by (induction rule: utf8_wf.induct) (simp_all add: utf8_scan.simps)

lemma utf8_wf_ascii: "\<forall>b \<in> set bs. b < 128 \<Longrightarrow> utf8_wf bs"
  by (induction bs) (auto intro: utf8_wf.intros)

lemma str_bytes_append [simp]: "str_bytes (s @ t) = str_bytes s @ str_bytes t"
  by (simp add: str_bytes_def)

lemma str_bytes_Cons [simp]: "str_bytes (c # s) = of_char c # str_bytes s"
  by (simp add: str_bytes_def)

lemma str_bytes_Nil [simp]: "str_bytes [] = []"
  by (simp add: str_bytes_def)

lemma utf8_ok_append [intro]: "utf8_ok s \<Longrightarrow> utf8_ok t \<Longrightarrow> utf8_ok (s @ t)"
  by (simp add: utf8_ok_def utf8_wf_append)

lemma utf8_ok_Nil [simp]: "utf8_ok []"
  by (simp add: utf8_ok_def utf8_nil)

lemma utf8_ok_Cons [intro]: "(of_char c :: nat) < 128 \<Longrightarrow> utf8_ok s \<Longrightarrow> utf8_ok (c # s)"
  by (simp add: utf8_ok_def utf8_one)

definition ascii :: "string \<Rightarrow> bool" where
  "ascii s = (\<forall>c \<in> set s. (of_char c :: nat) < 128)"

lemma ascii_utf8_ok [intro]: "ascii s \<Longrightarrow> utf8_ok s"
  unfolding utf8_ok_def by (intro utf8_wf_ascii) (auto simp: ascii_def str_bytes_def)

lemma hex_char_ascii: "d < 16 \<Longrightarrow> (of_char (hex_char d) :: nat) < 128"
proof -
  assume "d < 16"
  then have "hex_char d \<in> set ''0123456789abcdef''"
    unfolding hex_char_def by (intro nth_mem) simp
  then show ?thesis by auto
qed

lemma json_escape_ascii: "(of_char c :: nat) < 128 \<Longrightarrow> ascii (json_escape c)"
proof -
  assume "(of_char c :: nat) < 128"
  moreover then have "(of_char c :: nat) div 16 < 16" "(of_char c :: nat) mod 16 < 16" by simp_all
  ultimately show ?thesis
    using hex_char_ascii by (auto simp: json_escape_def ascii_def Let_def)
qed

lemma json_escape_high: "128 \<le> (of_char c :: nat) \<Longrightarrow> json_escape c = [c]"
  by (simp add: json_escape_def)

lemma json_escape_utf8:
  "utf8_wf bs \<Longrightarrow> bs = str_bytes s \<Longrightarrow> utf8_ok (concat (map json_escape s))"
proof (induction arbitrary: s rule: utf8_wf.induct)
  case utf8_nil
  then show ?case by (auto simp: str_bytes_def utf8_ok_def intro: utf8_wf.intros)
next
  case (utf8_one a bs)
  then obtain c t where s: "s = c # t" "a = of_char c" "bs = str_bytes t"
    by (cases s) auto
  with utf8_one show ?case by (auto intro: json_escape_ascii)
next
  case (utf8_two a b bs)
  then obtain c d t where s: "s = c # d # t" "a = of_char c" "b = of_char d" "bs = str_bytes t"
    by (auto simp: str_bytes_def)
  with utf8_two show ?case
    by (auto simp: json_escape_high cont_def utf8_ok_def intro: utf8_wf.intros)
next
  case (utf8_three a b c bs)
  then obtain c1 c2 c3 t where s: "s = c1 # c2 # c3 # t" "a = of_char c1" "b = of_char c2"
      "c = of_char c3" "bs = str_bytes t"
    by (auto simp: str_bytes_def)
  with utf8_three have "128 \<le> (of_char c2 :: nat)"
    by (auto simp: second_ok_def split: if_splits)
  with s utf8_three show ?case
    by (auto simp: json_escape_high cont_def utf8_ok_def intro: utf8_wf.intros)
next
  case (utf8_four a b c d bs)
  then obtain c1 c2 c3 c4 t where s: "s = c1 # c2 # c3 # c4 # t" "a = of_char c1" "b = of_char c2"
      "c = of_char c3" "d = of_char c4" "bs = str_bytes t"
    by (auto simp: str_bytes_def)
  with utf8_four have "128 \<le> (of_char c2 :: nat)"
    by (auto simp: second_ok_def split: if_splits)
  with s utf8_four show ?case
    by (auto simp: json_escape_high cont_def utf8_ok_def intro: utf8_wf.intros)
qed

lemma json_quote_utf8: "utf8_ok s \<Longrightarrow> utf8_ok (json_quote s)"
proof -
  assume "utf8_ok s"
  then have "utf8_ok (concat (map json_escape s))"
    using json_escape_utf8 by (auto simp: utf8_ok_def)
  then show ?thesis unfolding json_quote_def by (intro utf8_ok_Cons utf8_ok_append) auto
qed

text \<open>Every string of a value is well formed.\<close>

fun js_utf8 :: "jsval \<Rightarrow> bool" where
  "js_utf8 (JStr s) = utf8_ok s"
| "js_utf8 (JArr vs) = (\<forall>v \<in> set vs. js_utf8 v)"
| "js_utf8 (JObj kvs) = (\<forall>kv \<in> set kvs. utf8_ok (fst kv) \<and> js_utf8 (snd kv))"
| "js_utf8 _ = True"

lemma num_str_utf8: "num_safe_integer n \<Longrightarrow> utf8_ok (num_str n)"
proof -
  assume "num_safe_integer n"
  then obtain i where n: "n = NInt i" and b: "\<bar>i\<bar> < 10 ^ 21"
    by (cases n) (auto simp: MAX_SAFE_INTEGER_def)
  have "ascii (nat_str m)" for m
    using nat_str_digits [of m] by (fastforce simp: ascii_def is_digit_def)
  then have "ascii (int_str i)" by (auto simp: int_str_def ascii_def)
  with n b show ?thesis by auto
qed

lemma join_utf8: "\<forall>t \<in> set ts. utf8_ok t \<Longrightarrow> utf8_ok (join '','' ts)"
proof (induction "'',''" ts rule: join.induct)
  case (3 x y ys)
  then show ?case by (auto intro!: utf8_ok_append utf8_ok_Cons)
qed auto

lemma stringify_utf8:
  "json_clean v \<Longrightarrow> js_utf8 v \<Longrightarrow> utf8_ok (stringify v)"
  "\<forall>v \<in> set vs. json_clean v \<and> js_utf8 v \<Longrightarrow> \<forall>t \<in> set (elem_texts vs). utf8_ok t"
  "\<forall>kv \<in> set kvs. json_clean (snd kv) \<and> utf8_ok (fst kv) \<and> js_utf8 (snd kv) \<Longrightarrow>
     \<forall>t \<in> set (member_texts kvs). utf8_ok t"
proof (induction v and vs and kvs rule: stringify_elem_texts_member_texts.induct)
  case (4 n)
  then show ?case by (cases n) (simp_all add: num_str_utf8 del: num_str.simps)
next
  case (6 vs)
  then have "utf8_ok (join '','' (elem_texts vs))" by (intro join_utf8) auto
  then show ?case by (auto intro!: utf8_ok_append utf8_ok_Cons)
next
  case (7 kvs)
  then have "utf8_ok (join '','' (member_texts kvs))" by (intro join_utf8) auto
  then show ?case by (auto intro!: utf8_ok_append utf8_ok_Cons)
next
  case (11 k v kvs)
  then show ?case by (auto intro!: utf8_ok_append utf8_ok_Cons json_quote_utf8)
qed (auto simp: json_quote_utf8 intro!: utf8_ok_Cons)

lemma text_decode_object:
  assumes "utf8_ok (stringify (JObj kvs))"
  shows "text_decode (text_encode (stringify (JObj kvs))) = stringify (JObj kvs)"
proof -
  have "take 3 (str_bytes (stringify (JObj kvs))) \<noteq> [239, 187, 191]"
    by (simp add: numeral_eq_Suc)
  then have "text_decode (text_encode (stringify (JObj kvs))) =
      map char_of (str_bytes (stringify (JObj kvs)))"
    using assms unfolding text_decode_def text_encode_def utf8_ok_def
    by (simp only: if_False utf8_scan_wf)
  also have "\<dots> = stringify (JObj kvs)"
    unfolding str_bytes_def map_map by (rule map_idI) simp
  finally show ?thesis .
qed

text \<open>What a peer encodes with \<open>TextEncoder\<close> and \<open>JSON.stringify\<close>, the receiver reads back
  with \<open>TextDecoder\<close> and \<open>JSON.parse\<close>.\<close>

lemma decode_json_encode:
  assumes "v = JObj kvs" and "json_clean v" and "js_utf8 v"
  shows "json_parse (text_decode (text_encode (stringify v))) = Some v"
  using assms text_decode_object [of kvs] stringify_utf8(1) [of v] json_parse_stringify [of v]
  by simp

end
