(* ===== verification/Sframe_Codec.thy ===== *)
theory Sframe_Codec
  imports Js_Json_Laws
begin

text \<open>
  The functions of \<^verbatim>\<open>webrtc/sframe-codec.ts\<close>: the SFrame header codec, key derivation, encryption and
  decryption of one frame. (Its classes are in \<open>Sframe_Replay\<close> and \<open>Sframe_Contexts\<close>.) A byte array is a
  list of naturals below 256, a \<open>bigint\<close> is an \<open>int\<close>. WebCrypto is the argument \<open>C :: sframe_crypto\<close>
  of the definitions.
\<close>

unbundle bit_operations_syntax

datatype sframe_error = SFrameError string

type_synonym 'a sframe_result = "sframe_error + 'a"

definition SFRAME_CIPHER_SUITE :: int where "SFRAME_CIPHER_SUITE = 4"
definition SFRAME_BASE_KEY_BYTES :: nat where "SFRAME_BASE_KEY_BYTES = 16"
definition SFRAME_TAG_BYTES :: nat where "SFRAME_TAG_BYTES = 16"
definition SFRAME_REPLAY_WINDOW :: int where "SFRAME_REPLAY_WINDOW = 128"
definition MAX_UINT64 :: int where "MAX_UINT64 = push_bit 64 1 - 1"
definition KEY_LABEL :: bytes where "KEY_LABEL = text_encode ''SFrame 1.0 Secret key ''"
definition SALT_LABEL :: bytes where "SALT_LABEL = text_encode ''SFrame 1.0 Secret salt ''"

record sframe_header =
  hdr_kid :: int
  hdr_counter :: int
  hdr_bytes :: bytes
  hdr_length :: nat

record derived_key =
  dk_key :: bytes
  dk_salt :: bytes

definition assertUint64 :: "int \<Rightarrow> string \<Rightarrow> unit sframe_result" where
  "assertUint64 value name =
     (if value < 0 \<or> value > MAX_UINT64 then Inl (SFrameError (name @ ''_out_of_range'')) else Inr ())"

subsection \<open>Integers as bytes\<close>

fun integer_bytes_loop :: "nat \<Rightarrow> int \<Rightarrow> bytes \<Rightarrow> bytes \<times> int" where
  "integer_bytes_loop 0 remaining acc = (acc, remaining)"
| "integer_bytes_loop (Suc n) remaining acc =
     integer_bytes_loop n (drop_bit 8 remaining) (nat (remaining AND 255) # acc)"

definition integerBytes :: "int \<Rightarrow> nat \<Rightarrow> bytes sframe_result" where
  "integerBytes value width =
     (let (result, remaining) = integer_bytes_loop width value [] in
      if remaining \<noteq> 0 then Inl (SFrameError ''integer_overflow'') else Inr result)"

function minimal_width :: "int \<Rightarrow> nat \<Rightarrow> nat" where
  "minimal_width value width =
     (if value \<ge> push_bit (width * 8) 1 then minimal_width value (width + 1) else width)"
  by pat_completeness auto
termination
proof (relation "measure (\<lambda>(v, w). nat v - w)", goal_cases)
  case (2 v w)
  have "int w < 2 ^ (w * 8)"
  proof -
    have "w < 2 ^ w" by (rule less_exp)
    also have "(2 :: nat) ^ w \<le> 2 ^ (w * 8)" by (rule power_increasing) auto
    finally show ?thesis by (metis of_nat_less_iff of_nat_numeral of_nat_power)
  qed
  also have "\<dots> \<le> v" using 2 by (simp add: push_bit_eq_mult)
  finally have "int w < v" .
  then have "w < nat v" by (simp add: zless_nat_eq_int_zless)
  then show ?case by simp
qed simp

declare minimal_width.simps [simp del]

definition minimalIntegerBytes :: "int \<Rightarrow> bytes sframe_result" where
  "minimalIntegerBytes value = integerBytes value (minimal_width value 1)"

definition readInteger :: "bytes \<Rightarrow> int" where
  "readInteger bs = foldl (\<lambda>value byte. push_bit 8 value OR int byte) 0 bs"

subsection \<open>The header\<close>

definition encodeSFrameHeader :: "int \<Rightarrow> int \<Rightarrow> bytes sframe_result" where
  "encodeSFrameHeader kid counter =
     (case assertUint64 kid ''kid'' of Inl e \<Rightarrow> Inl e | Inr _ \<Rightarrow>
      case assertUint64 counter ''counter'' of Inl e \<Rightarrow> Inl e | Inr _ \<Rightarrow>
      (let extendedKid = kid > 7; extendedCounter = counter > 7 in
       case (if extendedKid then minimalIntegerBytes kid else Inr []) of Inl e \<Rightarrow> Inl e | Inr kidBytes \<Rightarrow>
       case (if extendedCounter then minimalIntegerBytes counter else Inr []) of Inl e \<Rightarrow> Inl e
       | Inr counterBytes \<Rightarrow>
         (let config = (if extendedKid then 128 OR push_bit 4 (length kidBytes - 1) else push_bit 4 (nat kid))
                OR (if extendedCounter then 8 OR (length counterBytes - 1) else nat counter)
          in Inr ([take_bit 8 config] @ kidBytes @ counterBytes))))"

definition decodeSFrameHeader :: "bytes \<Rightarrow> sframe_header sframe_result" where
  "decodeSFrameHeader value =
     (if length value < 1 then Inl (SFrameError ''header_missing'') else
      let config = value ! 0;
          extendedKid = config AND 128 \<noteq> 0;
          extendedCounter = config AND 8 \<noteq> 0;
          kidWidth = (if extendedKid then (drop_bit 4 config AND 7) + 1 else 0);
          counterWidth = (if extendedCounter then (config AND 7) + 1 else 0);
          len = 1 + kidWidth + counterWidth
      in if length value < len then Inl (SFrameError ''header_truncated'') else
      let kid = (if extendedKid then readInteger (take kidWidth (drop 1 value))
                 else int (drop_bit 4 config AND 7));
          counter = (if extendedCounter then readInteger (take counterWidth (drop (1 + kidWidth) value))
                     else int (config AND 7))
      in if (extendedKid \<and> (kid \<le> 7 \<or> (kidWidth > 1 \<and> value ! 1 = 0)))
            \<or> (extendedCounter \<and> (counter \<le> 7 \<or> (counterWidth > 1 \<and> value ! (1 + kidWidth) = 0)))
         then Inl (SFrameError ''header_non_canonical'')
         else Inr \<lparr>hdr_kid = kid, hdr_counter = counter, hdr_bytes = take len value, hdr_length = len\<rparr>)"

subsection \<open>One frame\<close>

text \<open>WebCrypto: HKDF (material, info, bytes wanted) and AES-GCM with a 128-bit tag (key, nonce,
  additional data, text); decryption rejects with \<open>None\<close>.\<close>

record sframe_crypto =
  hkdf :: "bytes \<Rightarrow> bytes \<Rightarrow> nat \<Rightarrow> bytes"
  gcm_encrypt :: "bytes \<Rightarrow> bytes \<Rightarrow> bytes \<Rightarrow> bytes \<Rightarrow> bytes"
  gcm_decrypt :: "bytes \<Rightarrow> bytes \<Rightarrow> bytes \<Rightarrow> bytes \<Rightarrow> bytes option"

definition deriveKey :: "sframe_crypto \<Rightarrow> bytes \<Rightarrow> int \<Rightarrow> derived_key sframe_result" where
  "deriveKey C baseKey kid =
     (if length baseKey \<noteq> SFRAME_BASE_KEY_BYTES then Inl (SFrameError ''base_key_length'') else
      case assertUint64 kid ''kid'' of Inl e \<Rightarrow> Inl e | Inr _ \<Rightarrow>
      case integerBytes kid 8 of Inl e \<Rightarrow> Inl e | Inr kidBytes \<Rightarrow>
      case integerBytes SFRAME_CIPHER_SUITE 2 of Inl e \<Rightarrow> Inl e | Inr suite \<Rightarrow>
      Inr \<lparr>dk_key = hkdf C baseKey (KEY_LABEL @ kidBytes @ suite) 16,
           dk_salt = hkdf C baseKey (SALT_LABEL @ kidBytes @ suite) 12\<rparr>)"

definition nonceFor :: "bytes \<Rightarrow> int \<Rightarrow> bytes sframe_result" where
  "nonceFor salt counter =
     (case integerBytes counter (length salt) of Inl e \<Rightarrow> Inl e
      | Inr nonce \<Rightarrow> Inr (map2 (\<lambda>a b. a XOR b) nonce salt))"

definition encryptWithDerivedKey ::
  "sframe_crypto \<Rightarrow> derived_key \<Rightarrow> int \<Rightarrow> int \<Rightarrow> bytes \<Rightarrow> bytes \<Rightarrow> bytes sframe_result" where
  "encryptWithDerivedKey C derived kid counter plaintext metadata =
     (case encodeSFrameHeader kid counter of Inl e \<Rightarrow> Inl e | Inr header \<Rightarrow>
      case nonceFor (dk_salt derived) counter of Inl e \<Rightarrow> Inl e | Inr iv \<Rightarrow>
      Inr (header @ gcm_encrypt C (dk_key derived) iv (header @ metadata) plaintext))"

definition decryptWithDerivedKey ::
  "sframe_crypto \<Rightarrow> derived_key \<Rightarrow> sframe_header \<Rightarrow> bytes \<Rightarrow> bytes \<Rightarrow> bytes sframe_result" where
  "decryptWithDerivedKey C derived header ciphertext metadata =
     (if length ciphertext < hdr_length header + SFRAME_TAG_BYTES
      then Inl (SFrameError ''ciphertext_truncated'') else
      case nonceFor (dk_salt derived) (hdr_counter header) of
        Inl e \<Rightarrow> Inl (SFrameError ''authentication_failed'')
      | Inr iv \<Rightarrow>
        (case gcm_decrypt C (dk_key derived) iv (hdr_bytes header @ metadata)
                (drop (hdr_length header) ciphertext) of
           None \<Rightarrow> Inl (SFrameError ''authentication_failed'')
         | Some plaintext \<Rightarrow> Inr plaintext))"

definition encryptSFrame ::
  "sframe_crypto \<Rightarrow> bytes \<Rightarrow> int \<Rightarrow> int \<Rightarrow> bytes \<Rightarrow> bytes \<Rightarrow> bytes sframe_result" where
  "encryptSFrame C baseKey kid counter plaintext metadata =
     (case deriveKey C baseKey kid of Inl e \<Rightarrow> Inl e
      | Inr derived \<Rightarrow> encryptWithDerivedKey C derived kid counter plaintext metadata)"

definition decryptSFrame ::
  "sframe_crypto \<Rightarrow> bytes \<Rightarrow> bytes \<Rightarrow> bytes \<Rightarrow> (bytes \<times> int \<times> int) sframe_result" where
  "decryptSFrame C baseKey ciphertext metadata =
     (case decodeSFrameHeader ciphertext of Inl e \<Rightarrow> Inl e | Inr header \<Rightarrow>
      case deriveKey C baseKey (hdr_kid header) of Inl e \<Rightarrow> Inl e | Inr derived \<Rightarrow>
      case decryptWithDerivedKey C derived header ciphertext metadata of Inl e \<Rightarrow> Inl e
      | Inr plaintext \<Rightarrow> Inr (plaintext, hdr_kid header, hdr_counter header))"

end
