(* ===== verification/Sframe_Header.thy ===== *)
theory Sframe_Header
  imports Sframe_Codec
begin

text \<open>
  The laws of the SFrame header codec: what \<open>integerBytes\<close>, \<open>minimalIntegerBytes\<close> and
  \<open>readInteger\<close> compute, that encoding and decoding a header are inverse to each other, and
  that a frame encrypted with a key decrypts to its plaintext.
\<close>

unbundle bit_operations_syntax

subsection \<open>Integers and bytes\<close>

definition byte_list :: "bytes \<Rightarrow> bool" where
  "byte_list bs = (\<forall>b \<in> set bs. b < 256)"

abbreviation be_step :: "int \<Rightarrow> nat \<Rightarrow> int" where
  "be_step value byte \<equiv> value * 256 + int byte"

lemma or_low_byte: "b < 256 \<Longrightarrow> push_bit 8 value OR int b = be_step value b"
proof -
  assume b: "b < 256"
  have "push_bit 8 value AND int b = 0"
  proof (rule bit_eqI)
    fix n
    have "\<not> bit (int b) n" if "8 \<le> n"
    proof -
      have "take_bit 8 (int b) = int b" using b by (simp add: take_bit_eq_mod)
      then show ?thesis using that by (metis bit_take_bit_iff not_le)
    qed
    then show "bit (push_bit 8 value AND int b) n \<longleftrightarrow> bit 0 n"
      by (auto simp: bit_and_iff bit_push_bit_iff)
  qed
  then have "push_bit 8 value OR int b = push_bit 8 value + int b"
    by (simp add: disjunctive_add_eq_or)
  then show ?thesis by (simp add: push_bit_eq_mult)
qed

lemma readInteger_be: "byte_list bs \<Longrightarrow> readInteger bs = foldl be_step 0 bs"
proof -
  have "byte_list bs \<Longrightarrow> foldl (\<lambda>value byte. push_bit 8 value OR int byte) v bs = foldl be_step v bs" for v
    by (induction bs arbitrary: v) (simp_all add: byte_list_def or_low_byte)
  then show "byte_list bs \<Longrightarrow> ?thesis" by (simp add: readInteger_def)
qed

lemma integer_bytes_loop_value:
  "fst (integer_bytes_loop n r acc) = bs \<Longrightarrow> foldl be_step 0 bs = foldl be_step (r mod 256 ^ n) acc"
proof (induction n arbitrary: r acc)
  case (Suc n)
  have low: "int (nat (r AND 255)) = r mod 256"
    using take_bit_eq_mask [of 8 r] by (simp add: take_bit_eq_mod mask_eq_exp_minus_1)
  have "fst (integer_bytes_loop n (r div 256) (nat (r AND 255) # acc)) = bs"
    using Suc.prems by (simp add: drop_bit_eq_div)
  from Suc.IH [OF this]
  have "foldl be_step 0 bs = foldl be_step ((r div 256 mod 256 ^ n) * 256 + r mod 256) acc"
    using low by simp
  also have "(r div 256 mod 256 ^ n) * 256 + r mod 256 = r mod 256 ^ Suc n"
    using mod_mult2_eq' [of r 256 "256 ^ n"] zmod_zmult2_eq [of "256 ^ n" r 256]
    by (simp add: mult.commute)
  finally show ?case .
qed simp

lemma integer_bytes_loop_rest: "snd (integer_bytes_loop n r acc) = r div 256 ^ n"
proof (induction n arbitrary: r acc)
  case (Suc n)
  then show ?case by (simp add: drop_bit_eq_div zdiv_zmult2_eq)
qed simp

lemma integer_bytes_loop_shape:
  "byte_list acc \<Longrightarrow> byte_list (fst (integer_bytes_loop n r acc)) \<and>
     length (fst (integer_bytes_loop n r acc)) = n + length acc"
proof (induction n arbitrary: r acc)
  case (Suc n)
  have "nat (r AND 255) < 256"
    using take_bit_eq_mask [of 8 r] by (simp add: take_bit_eq_mod mask_eq_exp_minus_1)
  with Suc.prems have "byte_list (nat (r AND 255) # acc)" by (simp add: byte_list_def)
  from Suc.IH [OF this, of "drop_bit 8 r"] show ?case by simp
qed simp

lemma integerBytes_ok:
  assumes "0 \<le> v" and "v < 256 ^ w"
  obtains bs where "integerBytes v w = Inr bs" "byte_list bs" "length bs = w" "foldl be_step 0 bs = v"
proof -
  obtain bs r where l: "integer_bytes_loop w v [] = (bs, r)" by force
  have "r = 0" using integer_bytes_loop_rest [of w v "[]"] l assms by simp
  moreover have "byte_list bs" "length bs = w"
    using integer_bytes_loop_shape [of "[]" w v] l by (simp_all add: byte_list_def)
  moreover have "foldl be_step 0 bs = v"
    using integer_bytes_loop_value [of w v "[]" bs] l assms by simp
  ultimately show thesis using that l by (simp add: integerBytes_def)
qed

lemma be_fold_shift: "foldl be_step v bs = v * 256 ^ length bs + foldl be_step 0 bs"
proof (induction bs arbitrary: v)
  case (Cons b bs)
  have "foldl be_step v (b # bs) = (v * 256 + int b) * 256 ^ length bs + foldl be_step 0 bs"
    using Cons [of "v * 256 + int b"] by simp
  moreover have "foldl be_step 0 (b # bs) = int b * 256 ^ length bs + foldl be_step 0 bs"
    using Cons [of "int b"] by simp
  ultimately show ?case by (simp add: algebra_simps)
qed simp

lemma be_bounds: "byte_list bs \<Longrightarrow> 0 \<le> foldl be_step 0 bs \<and> foldl be_step 0 bs < 256 ^ length bs"
proof (induction bs rule: rev_induct)
  case (snoc b bs)
  then have "b < 256" "0 \<le> foldl be_step 0 bs" "foldl be_step 0 bs + 1 \<le> 256 ^ length bs"
    by (auto simp: byte_list_def)
  moreover then have "(foldl be_step 0 bs + 1) * 256 \<le> 256 ^ length bs * 256" by simp
  ultimately show ?case by (simp add: algebra_simps)
qed simp

lemma be_step_inj: "be_step u x = be_step v y \<Longrightarrow> x < 256 \<Longrightarrow> y < 256 \<Longrightarrow> u = v \<and> x = y"
proof -
  assume eq: "be_step u x = be_step v y" and b: "x < 256" "y < 256"
  have "int x = be_step u x mod 256" "int y = be_step v y mod 256" using b by simp_all
  with eq have "int x = int y" by simp
  with eq show ?thesis by simp
qed

lemma be_inj:
  assumes "length xs = length ys" "byte_list xs" "byte_list ys" "foldl be_step 0 xs = foldl be_step 0 ys"
  shows "xs = ys"
  using assms
proof (induction xs arbitrary: ys rule: rev_induct)
  case (snoc x xs)
  then obtain y ys' where ys: "ys = ys' @ [y]" by (cases ys rule: rev_cases) auto
  with snoc.prems have "foldl be_step 0 xs = foldl be_step 0 ys' \<and> x = y"
    by (intro be_step_inj) (auto simp: byte_list_def)
  with snoc ys show ?case by (auto simp: byte_list_def)
qed simp

text \<open>The first byte of a number in as few bytes as possible is not zero, and conversely.\<close>

lemma be_first_byte:
  assumes "byte_list (b # bs)"
  shows "256 ^ length bs \<le> foldl be_step 0 (b # bs) \<longleftrightarrow> b \<noteq> 0"
proof -
  have "foldl be_step 0 (b # bs) = int b * 256 ^ length bs + foldl be_step 0 bs"
    using be_fold_shift [of "int b" bs] by simp
  moreover have "0 \<le> foldl be_step 0 bs" "foldl be_step 0 bs < 256 ^ length bs"
    using be_bounds [of bs] assms by (auto simp: byte_list_def)
  moreover have "1 * 256 ^ length bs \<le> int b * 256 ^ length bs" if "b \<noteq> 0"
    using that by (intro mult_right_mono) auto
  ultimately show ?thesis by (cases "b = 0") (simp, linarith)
qed

lemma minimal_width_bounds:
  "w \<le> minimal_width v w \<and> v < 256 ^ minimal_width v w
   \<and> (w < minimal_width v w \<longrightarrow> 256 ^ (minimal_width v w - 1) \<le> v)"
proof (induction v w rule: minimal_width.induct)
  case (1 v w)
  have pow: "push_bit (k * 8) 1 = (256 :: int) ^ k" for k
    by (simp add: push_bit_eq_mult power_mult [of 2 8] mult.commute [of k 8])
  show ?case
  proof (cases "v \<ge> push_bit (w * 8) 1")
    case True
    with 1 have IH: "w + 1 \<le> minimal_width v (w + 1)" "v < 256 ^ minimal_width v (w + 1)"
      "w + 1 < minimal_width v (w + 1) \<longrightarrow> 256 ^ (minimal_width v (w + 1) - 1) \<le> v"
      by auto
    have eq: "minimal_width v w = minimal_width v (w + 1)"
      using True by (simp add: minimal_width.simps [of v w])
    have "256 ^ (minimal_width v (w + 1) - 1) \<le> v"
      using IH True pow [of w] by (cases "w + 1 < minimal_width v (w + 1)") (auto simp: le_antisym)
    with IH eq show ?thesis by simp
  next
    case False
    then show ?thesis using pow [of w] by (simp add: minimal_width.simps [of v w])
  qed
qed

lemma minimal_width_unique:
  assumes "v < 256 ^ k" and "0 < k" and "1 < k \<longrightarrow> 256 ^ (k - 1) \<le> v"
  shows "minimal_width v 1 = k"
proof -
  let ?m = "minimal_width v 1"
  note m = minimal_width_bounds [of 1 v]
  have "\<not> k < ?m"
  proof
    assume "k < ?m"
    with assms(2) m have "256 ^ (?m - 1) \<le> v" by auto
    moreover have "(256 :: int) ^ k \<le> 256 ^ (?m - 1)"
      using \<open>k < ?m\<close> by (intro power_increasing) auto
    ultimately show False using assms(1) by linarith
  qed
  moreover have "\<not> ?m < k"
  proof
    assume "?m < k"
    with m have "256 ^ (k - 1) \<le> v" using assms(3) by auto
    moreover have "(256 :: int) ^ ?m \<le> 256 ^ (k - 1)"
      using \<open>?m < k\<close> by (intro power_increasing) auto
    ultimately show False using m by linarith
  qed
  ultimately show ?thesis by simp
qed

lemma minimalIntegerBytes_ok:
  assumes "7 < v" and "v \<le> MAX_UINT64"
  obtains bs where "minimalIntegerBytes v = Inr bs" "byte_list bs" "0 < length bs" "length bs \<le> 8"
    "readInteger bs = v" "1 < length bs \<longrightarrow> hd bs \<noteq> 0"
proof -
  let ?w = "minimal_width v 1"
  note w = minimal_width_bounds [of 1 v]
  obtain bs where bs: "integerBytes v ?w = Inr bs" "byte_list bs" "length bs = ?w" "foldl be_step 0 bs = v"
    using integerBytes_ok [of v ?w] assms(1) w by auto
  have "?w \<le> 8"
  proof (rule ccontr)
    assume "\<not> ?w \<le> 8"
    then have "256 ^ (?w - 1) \<le> v" using w by auto
    moreover have "(256 :: int) ^ 8 \<le> 256 ^ (?w - 1)"
      using \<open>\<not> ?w \<le> 8\<close> by (intro power_increasing) auto
    ultimately show False using assms(2) by (simp add: MAX_UINT64_def)
  qed
  moreover have "1 < length bs \<longrightarrow> hd bs \<noteq> 0"
  proof
    assume "1 < length bs"
    then obtain b bs' where b: "bs = b # bs'" by (cases bs) auto
    have "?w = Suc (length bs')" "1 < ?w" using bs(3) b \<open>1 < length bs\<close> by simp_all
    with w have "256 ^ length bs' \<le> v" by (metis diff_Suc_1)
    then have "256 ^ length bs' \<le> foldl be_step 0 bs" using bs(4) by simp
    then show "hd bs \<noteq> 0" using be_first_byte [of b bs'] bs(2) b by simp
  qed
  ultimately show thesis
    using that [of bs] bs w readInteger_be [of bs] by (auto simp: minimalIntegerBytes_def)
qed

lemma minimalIntegerBytes_canonical:
  assumes "byte_list bs" and "0 < length bs" and "1 < length bs \<longrightarrow> hd bs \<noteq> 0"
  shows "minimalIntegerBytes (readInteger bs) = Inr bs"
proof -
  have v: "readInteger bs = foldl be_step 0 bs" using assms(1) by (rule readInteger_be)
  note b = be_bounds [OF assms(1)]
  obtain b0 bs' where bs: "bs = b0 # bs'" using assms(2) by (cases bs) auto
  have "1 < length bs \<longrightarrow> 256 ^ (length bs - 1) \<le> readInteger bs"
    using be_first_byte [of b0 bs'] assms bs v by auto
  then have w: "minimal_width (readInteger bs) 1 = length bs"
    using b v assms(2) by (intro minimal_width_unique) auto
  obtain cs where cs: "integerBytes (readInteger bs) (length bs) = Inr cs" "byte_list cs"
      "length cs = length bs" "foldl be_step 0 cs = readInteger bs"
    using integerBytes_ok [of "readInteger bs" "length bs"] b v by auto
  then have "cs = bs" using be_inj [of cs bs] assms(1) v by simp
  with cs w show ?thesis by (simp add: minimalIntegerBytes_def)
qed

subsection \<open>The header codec\<close>

text \<open>The configuration byte: a flag and a three-bit field in each half.\<close>

lemma push_or_low:
  assumes "l < (2 :: nat) ^ n"
  shows "push_bit n h OR l = h * 2 ^ n + l"
proof -
  have "push_bit n h AND l = 0"
  proof (rule bit_eqI)
    fix k
    have "take_bit n l = l" using assms by (simp add: take_bit_eq_mod)
    then have "\<not> bit l k" if "n \<le> k" using that by (metis bit_take_bit_iff not_le)
    then show "bit (push_bit n h AND l) k \<longleftrightarrow> bit 0 k"
      by (auto simp: bit_and_iff bit_push_bit_iff)
  qed
  then show ?thesis by (simp add: push_bit_eq_mult disjunctive_add_eq_or [symmetric])
qed

lemma nibble_or: "l < (16 :: nat) \<Longrightarrow> push_bit 4 h OR l = 16 * h + l"
  using push_or_low [of l 4 h] by simp

lemma flag_or: "k < 8 \<Longrightarrow> 8 OR k = 8 + (k :: nat)"
  using push_or_low [of k 3 1] by (simp add: push_bit_eq_mult)

lemma high_flag_or: "k < 8 \<Longrightarrow> 128 OR push_bit 4 k = push_bit 4 (8 + k :: nat)"
proof -
  assume "k < 8"
  have "(128 :: nat) = push_bit 4 8" by (simp add: push_bit_eq_mult)
  then have "128 OR push_bit 4 k = push_bit 4 (8 OR k)" by (simp only: push_bit_or)
  with \<open>k < 8\<close> show ?thesis by (simp add: flag_or)
qed

lemma nibble_fields:
  assumes "h < 16" and "l < (16 :: nat)"
  shows "(16 * h + l) AND 128 \<noteq> 0 \<longleftrightarrow> 8 \<le> h"
    and "(16 * h + l) AND 8 \<noteq> 0 \<longleftrightarrow> 8 \<le> l"
    and "drop_bit 4 (16 * h + l) AND 7 = h mod 8"
    and "(16 * h + l) AND 7 = l mod 8"
proof -
  have low: "x AND 7 = x mod 8" for x :: nat
    using take_bit_eq_mask [of 3 x] by (simp add: take_bit_eq_mod mask_eq_exp_minus_1)
  have half: "odd (x div 8) \<longleftrightarrow> 8 \<le> x" if "x < 16" for x :: nat
  proof (cases "x < 8")
    case False
    then have "x div 8 = 1" using that by (intro div_nat_eqI) auto
    then show ?thesis using False by simp
  qed simp
  have flag: "x AND 2 ^ n \<noteq> 0 \<longleftrightarrow> odd (x div 2 ^ n)" for x n :: nat
    by (metis and_exp_eq_0_iff_not_bit bit_iff_odd)
  have "(16 * h + l) AND 2 ^ 7 \<noteq> 0 \<longleftrightarrow> odd ((16 * h + l) div 2 ^ 7)"
    by (rule flag)
  also have "(16 * h + l) div 2 ^ 7 = h div 8" using assms by simp
  also have "odd (h div 8) \<longleftrightarrow> 8 \<le> h" using assms(1) by (rule half)
  finally show "(16 * h + l) AND 128 \<noteq> 0 \<longleftrightarrow> 8 \<le> h" by simp
  have "(16 * h + l) AND 2 ^ 3 \<noteq> 0 \<longleftrightarrow> odd ((16 * h + l) div 2 ^ 3)"
    by (rule flag)
  also have "(16 * h + l) div 2 ^ 3 = 2 * h + l div 8" by simp
  also have "odd (2 * h + l div 8) \<longleftrightarrow> 8 \<le> l" using half [OF assms(2)] by simp
  finally show "(16 * h + l) AND 8 \<noteq> 0 \<longleftrightarrow> 8 \<le> l" by simp
  show "drop_bit 4 (16 * h + l) AND 7 = h mod 8"
    using assms by (simp add: low drop_bit_eq_div)
  have "(16 * h + l) mod 8 = (l + 2 * h * 8) mod 8" by (simp add: algebra_simps)
  then show "(16 * h + l) AND 7 = l mod 8"
    unfolding low by (simp only: mod_mult_self1)
qed

text \<open>The four bits and the bytes one value of the header takes.\<close>

definition header_field :: "int \<Rightarrow> nat \<times> bytes" where
  "header_field v =
     (if v > 7 then (case minimalIntegerBytes v of Inr bs \<Rightarrow> (8 + (length bs - 1), bs) | Inl _ \<Rightarrow> (0, []))
      else (nat v, []))"

lemma header_field_cases:
  assumes "0 \<le> v" and "v \<le> MAX_UINT64"
  obtains (short) "v \<le> 7" "header_field v = (nat v, [])"
  | (long) bs where "7 < v" "minimalIntegerBytes v = Inr bs" "header_field v = (8 + (length bs - 1), bs)"
      "byte_list bs" "0 < length bs" "length bs \<le> 8" "readInteger bs = v" "1 < length bs \<longrightarrow> hd bs \<noteq> 0"
proof (cases "7 < v")
  case True
  then obtain bs where "minimalIntegerBytes v = Inr bs" "byte_list bs" "0 < length bs" "length bs \<le> 8"
    "readInteger bs = v" "1 < length bs \<longrightarrow> hd bs \<noteq> 0"
    using minimalIntegerBytes_ok assms(2) by blast
  with True show thesis by (intro long) (simp_all add: header_field_def)
next
  case False
  then show thesis by (intro short) (simp_all add: header_field_def)
qed

lemma header_field_less: "0 \<le> v \<Longrightarrow> v \<le> MAX_UINT64 \<Longrightarrow> fst (header_field v) < 16"
  by (erule (1) header_field_cases) auto

lemma header_field_width: "0 \<le> v \<Longrightarrow> v \<le> MAX_UINT64 \<Longrightarrow> length (snd (header_field v)) \<le> 8"
  by (erule (1) header_field_cases) auto

lemma encode_field:
  assumes "0 \<le> v" and "v \<le> MAX_UINT64"
  obtains bs where "(if v > 7 then minimalIntegerBytes v else Inr []) = Inr bs"
    "snd (header_field v) = bs"
    "(if v > 7 then 128 OR push_bit 4 (length bs - 1) else push_bit 4 (nat v)) = push_bit 4 (fst (header_field v))"
    "(if v > 7 then 8 OR (length bs - 1) else nat v) = fst (header_field v)"
  using assms
proof (cases rule: header_field_cases)
  case short
  then show thesis by (intro that [of "[]"]) simp_all
next
  case (long bs)
  then obtain m where "length bs = Suc m" "m < 8" by (cases "length bs") auto
  with long show thesis by (intro that [of bs]) (simp_all add: high_flag_or flag_or)
qed

lemma encodeSFrameHeader_eq:
  assumes "0 \<le> kid" "kid \<le> MAX_UINT64" "0 \<le> counter" "counter \<le> MAX_UINT64"
  shows "encodeSFrameHeader kid counter =
    Inr ((16 * fst (header_field kid) + fst (header_field counter))
         # snd (header_field kid) @ snd (header_field counter))"
proof -
  obtain kb where kb: "(if kid > 7 then minimalIntegerBytes kid else Inr []) = Inr kb"
    "snd (header_field kid) = kb"
    "(if kid > 7 then 128 OR push_bit 4 (length kb - 1) else push_bit 4 (nat kid)) = push_bit 4 (fst (header_field kid))"
    using encode_field [OF assms(1,2)] by metis
  obtain cb where cb: "(if counter > 7 then minimalIntegerBytes counter else Inr []) = Inr cb"
    "snd (header_field counter) = cb"
    "(if counter > 7 then 8 OR (length cb - 1) else nat counter) = fst (header_field counter)"
    using encode_field [OF assms(3,4)] by metis
  have less: "fst (header_field kid) < 16" "fst (header_field counter) < 16"
    using assms header_field_less by auto
  then have "take_bit 8 (16 * fst (header_field kid) + fst (header_field counter))
      = 16 * fst (header_field kid) + fst (header_field counter)"
    by (simp add: take_bit_eq_mod)
  with kb cb less assms show ?thesis
    unfolding encodeSFrameHeader_def assertUint64_def Let_def by (simp add: nibble_or del: push_bit_of_nat)
qed

text \<open>Reading a field back from its four bits and the bytes that follow.\<close>

lemma field_roundtrip:
  assumes "0 \<le> v" "v \<le> MAX_UINT64" "header_field v = (f, bs)"
  shows "length bs = (if 8 \<le> f then f mod 8 + 1 else 0) \<and>
    v = (if 8 \<le> f then readInteger bs else int (f mod 8)) \<and>
    (8 \<le> f \<longrightarrow> 7 < v \<and> \<not> (1 < length bs \<and> bs ! 0 = 0))"
  using assms(1,2)
proof (cases rule: header_field_cases)
  case short
  then have "f = nat v" "bs = []" "nat v < 8" using assms by auto
  then show ?thesis using assms by auto
next
  case (long cs)
  then have bs: "f = 8 + (length bs - 1)" "cs = bs" using assms by auto
  then obtain m where m: "length bs = Suc m" "m < 8" using long by (cases "length bs") auto
  then have "f mod 8 = m" "8 \<le> f" using bs by simp_all
  moreover have "hd bs = bs ! 0" using m by (cases bs) auto
  ultimately show ?thesis using long bs m by auto
qed

lemma decode_encode_header:
  assumes "0 \<le> kid" "kid \<le> MAX_UINT64" "0 \<le> counter" "counter \<le> MAX_UINT64"
  obtains hdr where "encodeSFrameHeader kid counter = Inr hdr"
    "decodeSFrameHeader (hdr @ rest) =
       Inr \<lparr>hdr_kid = kid, hdr_counter = counter, hdr_bytes = hdr, hdr_length = length hdr\<rparr>"
proof -
  obtain kf kb where k: "header_field kid = (kf, kb)" by force
  obtain cf cb where c: "header_field counter = (cf, cb)" by force
  let ?config = "16 * kf + cf"
  let ?hdr = "?config # kb @ cb"
  have less: "kf < 16" "cf < 16" using assms k c header_field_less by (metis fst_conv)+
  note fields = nibble_fields [OF less]
  note kr = field_roundtrip [OF assms(1,2) k] and cr = field_roundtrip [OF assms(3,4) c]
  have kw: "(if ?config AND 128 \<noteq> 0 then (drop_bit 4 ?config AND 7) + 1 else 0) = length kb"
    using fields kr by simp
  have cw: "(if ?config AND 8 \<noteq> 0 then (?config AND 7) + 1 else 0) = length cb"
    using fields cr by simp
  have kid: "(if ?config AND 128 \<noteq> 0 then readInteger (take (length kb) (drop 1 (?hdr @ rest)))
      else int (drop_bit 4 ?config AND 7)) = kid"
    using fields kr by simp
  have counter: "(if ?config AND 8 \<noteq> 0
      then readInteger (take (length cb) (drop (1 + length kb) (?hdr @ rest)))
      else int (?config AND 7)) = counter"
    using fields cr by simp
  have k0: "?config AND 128 \<noteq> 0 \<longrightarrow> \<not> (kid \<le> 7 \<or> (1 < length kb \<and> (?hdr @ rest) ! 1 = 0))"
    using fields kr by (auto simp: nth_append)
  have c0: "?config AND 8 \<noteq> 0 \<longrightarrow>
      \<not> (counter \<le> 7 \<or> (1 < length cb \<and> (?hdr @ rest) ! (1 + length kb) = 0))"
    using fields cr by (auto simp: nth_append)
  have first: "(?hdr @ rest) ! 0 = ?config" by simp
  have "decodeSFrameHeader (?hdr @ rest) =
      Inr \<lparr>hdr_kid = kid, hdr_counter = counter, hdr_bytes = ?hdr, hdr_length = length ?hdr\<rparr>"
    unfolding decodeSFrameHeader_def Let_def first kw cw kid counter
    using k0 c0 by auto
  moreover have "encodeSFrameHeader kid counter = Inr ?hdr"
    using encodeSFrameHeader_eq [OF assms] k c by simp
  ultimately show thesis using that by blast
qed

text \<open>Conversely, a field that passes the decoder's checks is the one the encoder writes.\<close>

lemma field_canonical:
  assumes "f < 16" "byte_list bs" "length bs = (if 8 \<le> f then f mod 8 + 1 else 0)"
    "v = (if 8 \<le> f then readInteger bs else int (f mod 8))"
    "8 \<le> f \<longrightarrow> \<not> (v \<le> 7 \<or> (1 < length bs \<and> bs ! 0 = 0))"
  shows "header_field v = (f, bs) \<and> 0 \<le> v \<and> v \<le> MAX_UINT64"
proof (cases "8 \<le> f")
    case True
    then have len: "length bs = f - 8 + 1" "0 < length bs" "length bs \<le> 8"
      using assms(1,3) by (auto simp: le_mod_geq)
    have "hd bs = bs ! 0" using len by (cases bs) auto
    then have min: "minimalIntegerBytes v = Inr bs"
      using minimalIntegerBytes_canonical [of bs] assms True len by auto
    have "v = foldl be_step 0 bs" using assms True by (simp add: readInteger_be)
    moreover have "(256 :: int) ^ length bs \<le> 256 ^ 8"
      using len by (intro power_increasing) auto
    ultimately have "0 \<le> v" "v \<le> MAX_UINT64"
      using be_bounds [OF assms(2)] by (auto simp: MAX_UINT64_def)
    with min True assms(5) len show ?thesis by (simp add: header_field_def)
  next
    case False
    with assms have "bs = []" "v = int f" "f \<le> 7" by auto
    then show ?thesis by (simp add: header_field_def MAX_UINT64_def)
  qed

lemma byte_list_sub: "byte_list bs \<Longrightarrow> byte_list (take n (drop m bs))"
  by (auto simp: byte_list_def dest: in_set_takeD in_set_dropD)

lemma decodeSFrameHeader_fields:
  assumes "kf < 16" "cf < 16"
  shows "decodeSFrameHeader ((16 * kf + cf) # xs) =
    (let kw = (if 8 \<le> kf then kf mod 8 + 1 else 0); cw = (if 8 \<le> cf then cf mod 8 + 1 else 0);
         kb = take kw xs; cb = take cw (drop kw xs);
         kid = (if 8 \<le> kf then readInteger kb else int (kf mod 8));
         counter = (if 8 \<le> cf then readInteger cb else int (cf mod 8)) in
     if length xs < kw + cw then Inl (SFrameError ''header_truncated'')
     else if (8 \<le> kf \<and> (kid \<le> 7 \<or> (kw > 1 \<and> xs ! 0 = 0)))
           \<or> (8 \<le> cf \<and> (counter \<le> 7 \<or> (cw > 1 \<and> xs ! kw = 0)))
     then Inl (SFrameError ''header_non_canonical'')
     else Inr \<lparr>hdr_kid = kid, hdr_counter = counter,
               hdr_bytes = (16 * kf + cf) # take (kw + cw) xs, hdr_length = 1 + kw + cw\<rparr>)"
proof -
  note fields = nibble_fields [OF assms]
  have "((16 * kf + cf) # xs) ! 0 = 16 * kf + cf" "(length ((16 * kf + cf) # xs) < 1) = False"
    "\<And>n. (length ((16 * kf + cf) # xs) < 1 + n + m) = (length xs < n + m)" for m
    by auto
  note heads = this
  show ?thesis
    unfolding decodeSFrameHeader_def Let_def heads fields if_False
    by (simp only: add_Suc plus_1_eq_Suc nth_Cons_Suc nth_Cons_0 drop_Suc_Cons take_Suc_Cons drop_0 One_nat_def add_0)
qed

lemma decoded_header_canonical:
  assumes "byte_list value" and "decodeSFrameHeader value = Inr h"
  shows "encodeSFrameHeader (hdr_kid h) (hdr_counter h) = Inr (hdr_bytes h) \<and>
    hdr_bytes h = take (hdr_length h) value \<and> hdr_length h = length (hdr_bytes h) \<and>
    0 \<le> hdr_kid h \<and> hdr_kid h \<le> MAX_UINT64 \<and> 0 \<le> hdr_counter h \<and> hdr_counter h \<le> MAX_UINT64"
proof -
  obtain c xs where val: "value = c # xs" using assms(2) by (cases "value") (auto simp: decodeSFrameHeader_def)
  then have c: "c < 256" and xs: "byte_list xs" using assms(1) by (auto simp: byte_list_def)
  obtain kf cf where split: "c = 16 * kf + cf" and less: "kf < 16" "cf < 16"
    using that [of "c div 16" "c mod 16"] c by auto
  define kw cw where "kw = (if 8 \<le> kf then kf mod 8 + 1 else 0)"
    and "cw = (if 8 \<le> cf then cf mod 8 + 1 else 0)"
  define kb cb where "kb = take kw xs" and "cb = take cw (drop kw xs)"
  define kid counter where "kid = (if 8 \<le> kf then readInteger kb else int (kf mod 8))"
    and "counter = (if 8 \<le> cf then readInteger cb else int (cf mod 8))"
  from assms(2) have len: "kw + cw \<le> length xs"
    and chk: "8 \<le> kf \<longrightarrow> \<not> (kid \<le> 7 \<or> (kw > 1 \<and> xs ! 0 = 0))"
      "8 \<le> cf \<longrightarrow> \<not> (counter \<le> 7 \<or> (cw > 1 \<and> xs ! kw = 0))"
    and h: "h = \<lparr>hdr_kid = kid, hdr_counter = counter, hdr_bytes = c # take (kw + cw) xs,
                 hdr_length = 1 + kw + cw\<rparr>"
    unfolding val split decodeSFrameHeader_fields [OF less] Let_def
      kid_def [symmetric] counter_def [symmetric] kb_def [symmetric] cb_def [symmetric]
      kw_def [symmetric] cw_def [symmetric]
    by (auto split: if_splits)
  have lens: "length kb = kw" "length cb = cw" using len by (simp_all add: kb_def cb_def)
  have nths: "kw > 1 \<longrightarrow> kb ! 0 = xs ! 0" "cw > 1 \<longrightarrow> cb ! 0 = xs ! kw"
    using len by (simp_all add: kb_def cb_def)
  have bl: "byte_list kb" "byte_list cb"
    using byte_list_sub [OF xs, of _ 0] byte_list_sub [OF xs] by (simp_all add: kb_def cb_def)
  have kf: "header_field kid = (kf, kb) \<and> 0 \<le> kid \<and> kid \<le> MAX_UINT64"
    by (rule field_canonical [OF less(1) bl(1) lens(1) [unfolded kw_def] kid_def]) (use chk nths lens in auto)
  have cf: "header_field counter = (cf, cb) \<and> 0 \<le> counter \<and> counter \<le> MAX_UINT64"
    by (rule field_canonical [OF less(2) bl(2) lens(2) [unfolded cw_def] counter_def]) (use chk nths lens in auto)
  have bytes: "take (kw + cw) xs = kb @ cb" by (simp add: kb_def cb_def take_add)
  have enc: "encodeSFrameHeader kid counter = Inr (c # kb @ cb)"
    using encodeSFrameHeader_eq kf cf split by simp
  show ?thesis
    unfolding h sframe_header.simps bytes using kf cf enc lens bytes val len by simp
qed

subsection \<open>The codec as a whole\<close>

text \<open>C1. The SFrame header codec is a bijection between pairs of 64-bit numbers and the byte strings it
  accepts. Every key id and counter in range encode to a header of 1 to 17 bytes which, whatever follows
  it, decodes to them and to exactly its own bytes and length; and a byte string that the decoder
  accepts starts with the very header the encoder writes for the numbers it returns.\<close>

theorem sframe_header_bijection:
  assumes "0 \<le> kid" and "kid \<le> MAX_UINT64" and "0 \<le> counter" and "counter \<le> MAX_UINT64"
    and "byte_list value" and "decodeSFrameHeader value = Inr h"
  shows "(\<exists>hdr. encodeSFrameHeader kid counter = Inr hdr \<and> 1 \<le> length hdr \<and> length hdr \<le> 17 \<and>
      decodeSFrameHeader (hdr @ rest) =
        Inr \<lparr>hdr_kid = kid, hdr_counter = counter, hdr_bytes = hdr, hdr_length = length hdr\<rparr>) \<and>
    encodeSFrameHeader (hdr_kid h) (hdr_counter h) = Inr (take (hdr_length h) value) \<and>
    hdr_bytes h = take (hdr_length h) value \<and> length (hdr_bytes h) = hdr_length h"
proof -
  obtain hdr where hdr: "encodeSFrameHeader kid counter = Inr hdr"
    "decodeSFrameHeader (hdr @ rest) =
       Inr \<lparr>hdr_kid = kid, hdr_counter = counter, hdr_bytes = hdr, hdr_length = length hdr\<rparr>"
    using decode_encode_header [OF assms(1-4)] by blast
  moreover have "1 \<le> length hdr" "length hdr \<le> 17"
    using encodeSFrameHeader_eq [OF assms(1-4)] hdr(1) header_field_width [OF assms(1,2)]
      header_field_width [OF assms(3,4)] by auto
  moreover have "encodeSFrameHeader (hdr_kid h) (hdr_counter h) = Inr (take (hdr_length h) value)"
    "hdr_bytes h = take (hdr_length h) value" "length (hdr_bytes h) = hdr_length h"
    using decoded_header_canonical [OF assms(5,6)] by metis+
  ultimately show ?thesis by blast
qed

theorem sframe_header_bijection_witness:
  "(\<exists>hdr. encodeSFrameHeader 300 5 = Inr hdr \<and> 1 \<le> length hdr \<and> length hdr \<le> 17 \<and>
      decodeSFrameHeader (hdr @ [42]) =
        Inr \<lparr>hdr_kid = 300, hdr_counter = 5, hdr_bytes = hdr, hdr_length = length hdr\<rparr>) \<and>
    encodeSFrameHeader 3 200 = Inr (take 2 [56, 200, 1])"
proof -
  have dec: "decodeSFrameHeader [56, 200, 1] =
      Inr \<lparr>hdr_kid = 3, hdr_counter = 200, hdr_bytes = [56, 200], hdr_length = 2\<rparr>"
    by (simp add: decodeSFrameHeader_def Let_def readInteger_def)
  have "byte_list [56, 200, 1]" "300 \<le> MAX_UINT64" "5 \<le> MAX_UINT64"
    by (simp_all add: MAX_UINT64_def byte_list_def)
  then show ?thesis
    using sframe_header_bijection [of 300 5 "[56, 200, 1]" _ "[42]", OF _ _ _ _ _ dec]
    by (simp only: sframe_header.simps zero_le_numeral)
qed

end
