(* ===== verification/Sframe_Replay.thy ===== *)
theory Sframe_Replay
  imports Sframe_Header
begin

text \<open>
  \<^verbatim>\<open>SFrameReplayWindow\<close> of \<^verbatim>\<open>webrtc/sframe-codec.ts\<close>: the highest counter accepted so far
  and a bit set of the 128 counters below it, and its refinement of the ideal filter that remembers
  every counter it accepted.
\<close>

unbundle bit_operations_syntax

record replay_window =
  rw_highest :: int
  rw_seen :: int

definition new_window :: replay_window where
  "new_window = \<lparr>rw_highest = -1, rw_seen = 0\<rparr>"

definition canAccept :: "replay_window \<Rightarrow> int \<Rightarrow> bool sframe_result" where
  "canAccept w counter =
     (case assertUint64 counter ''counter'' of Inl e \<Rightarrow> Inl e | Inr _ \<Rightarrow>
      if rw_highest w < 0 \<or> counter > rw_highest w then Inr True
      else let distance = rw_highest w - counter in
        Inr (distance < SFRAME_REPLAY_WINDOW \<and> drop_bit (nat distance) (rw_seen w) AND 1 = 0))"

definition accept :: "replay_window \<Rightarrow> int \<Rightarrow> (bool \<times> replay_window) sframe_result" where
  "accept w counter =
     (case canAccept w counter of Inl e \<Rightarrow> Inl e
      | Inr False \<Rightarrow> Inr (False, w)
      | Inr True \<Rightarrow>
        if rw_highest w < 0 then Inr (True, \<lparr>rw_highest = counter, rw_seen = 1\<rparr>)
        else if counter > rw_highest w then
          let distance = counter - rw_highest w;
              seen = (if distance \<ge> SFRAME_REPLAY_WINDOW then 1
                      else (push_bit (nat distance) (rw_seen w) OR 1)
                           AND (push_bit (nat SFRAME_REPLAY_WINDOW) 1 - 1))
          in Inr (True, \<lparr>rw_highest = counter, rw_seen = seen\<rparr>)
        else Inr (True, w\<lparr>rw_seen := rw_seen w OR push_bit (nat (rw_highest w - counter)) 1\<rparr>))"

definition clear_window :: "replay_window \<Rightarrow> replay_window" where
  "clear_window w = w\<lparr>rw_highest := -1, rw_seen := 0\<rparr>"

subsection \<open>The ideal filter\<close>

text \<open>The filter that keeps the set \<open>A\<close> of accepted counters: a counter is fresh when it was not
  accepted before and is less than 128 below the highest one.\<close>

definition ideal_fresh :: "int set \<Rightarrow> int \<Rightarrow> bool" where
  "ideal_fresh A c \<longleftrightarrow> c \<notin> A \<and> (\<forall>a \<in> A. a - c < SFRAME_REPLAY_WINDOW)"

definition window_rel :: "replay_window \<Rightarrow> int set \<Rightarrow> bool" where
  "window_rel w A \<longleftrightarrow>
     (if A = {} then w = new_window
      else rw_highest w \<in> A \<and> (\<forall>a \<in> A. 0 \<le> a \<and> a \<le> rw_highest w) \<and>
        (\<forall>d. bit (rw_seen w) d \<longleftrightarrow> int d < SFRAME_REPLAY_WINDOW \<and> rw_highest w - int d \<in> A))"

lemma window_rel_new [simp]: "window_rel new_window {}"
  by (simp add: window_rel_def)

lemma window_rel_clear: "window_rel (clear_window w) {}"
  by (simp add: window_rel_def clear_window_def new_window_def)

lemma window_rel_fresh:
  assumes "window_rel w A" "A \<noteq> {}"
  shows "ideal_fresh A c \<longleftrightarrow> c > rw_highest w \<or>
    (rw_highest w - c < SFRAME_REPLAY_WINDOW \<and> \<not> bit (rw_seen w) (nat (rw_highest w - c)))"
proof (cases "c > rw_highest w")
  case True
  have "a < c" if "a \<in> A" for a using that True assms by (auto simp: window_rel_def)
  then have "ideal_fresh A c" by (force simp: ideal_fresh_def SFRAME_REPLAY_WINDOW_def)
  with True show ?thesis by simp
next
  case False
  have w: "rw_highest w \<in> A" "\<And>a. a \<in> A \<Longrightarrow> a \<le> rw_highest w"
    "\<And>d. bit (rw_seen w) d \<longleftrightarrow> int d < SFRAME_REPLAY_WINDOW \<and> rw_highest w - int d \<in> A"
    using assms by (auto simp: window_rel_def)
  have "(\<forall>a \<in> A. a - c < SFRAME_REPLAY_WINDOW) \<longleftrightarrow> rw_highest w - c < SFRAME_REPLAY_WINDOW"
    using w(1,2) by (meson diff_right_mono order_le_less_trans)
  moreover have "bit (rw_seen w) (nat (rw_highest w - c)) \<longleftrightarrow> rw_highest w - c < SFRAME_REPLAY_WINDOW \<and> c \<in> A"
    using w(3) [of "nat (rw_highest w - c)"] False by simp
  ultimately show ?thesis using False by (auto simp: ideal_fresh_def)
qed

lemma canAccept_ideal:
  assumes "window_rel w A" "0 \<le> c" "c \<le> MAX_UINT64"
  shows "canAccept w c = Inr (ideal_fresh A c)"
proof (cases "A = {}")
  case True
  then show ?thesis using assms
    by (simp add: canAccept_def window_rel_def new_window_def assertUint64_def ideal_fresh_def)
next
  case False
  then have "0 \<le> rw_highest w" using assms by (auto simp: window_rel_def)
  then show ?thesis
    using assms window_rel_fresh [OF assms(1) False, of c]
    by (auto simp: canAccept_def assertUint64_def Let_def and_one_eq odd_iff_mod_2_eq_one
        bit_iff_odd_drop_bit even_iff_mod_2_eq_zero)
qed

text \<open>Accepting a counter keeps the relation, with the counter added.\<close>

lemma window_rel_ahead:
  assumes rel: "window_rel w A" "A \<noteq> {}" and c: "c > rw_highest w"
    and seen: "seen = (if c - rw_highest w \<ge> SFRAME_REPLAY_WINDOW then 1
      else (push_bit (nat (c - rw_highest w)) (rw_seen w) OR 1) AND (push_bit (nat SFRAME_REPLAY_WINDOW) 1 - 1))"
  shows "window_rel \<lparr>rw_highest = c, rw_seen = seen\<rparr> (insert c A)"
proof -
  have w: "rw_highest w \<in> A" "\<And>a. a \<in> A \<Longrightarrow> 0 \<le> a \<and> a \<le> rw_highest w"
    "\<And>d. bit (rw_seen w) d \<longleftrightarrow> int d < SFRAME_REPLAY_WINDOW \<and> rw_highest w - int d \<in> A"
    using rel by (auto simp: window_rel_def)
  have mask: "push_bit (nat SFRAME_REPLAY_WINDOW) 1 - 1 = (mask (nat SFRAME_REPLAY_WINDOW) :: int)"
    by (simp add: mask_eq_exp_minus_1 push_bit_eq_mult)
  have "bit seen d \<longleftrightarrow> int d < SFRAME_REPLAY_WINDOW \<and> c - int d \<in> insert c A" for d
  proof (cases "c - rw_highest w \<ge> SFRAME_REPLAY_WINDOW")
    case True
    have "c - int d \<notin> A" if "int d < SFRAME_REPLAY_WINDOW" using w(2) [of "c - int d"] True that by auto
    then show ?thesis using True seen by (auto simp: bit_1_iff SFRAME_REPLAY_WINDOW_def)
  next
    case False
    let ?n = "nat (c - rw_highest w)"
    have "bit seen d \<longleftrightarrow> int d < SFRAME_REPLAY_WINDOW \<and> (d = 0 \<or> ?n \<le> d \<and> bit (rw_seen w) (d - ?n))"
      using False unfolding seen mask
      by (auto simp: bit_and_iff bit_or_iff bit_push_bit_iff bit_1_iff bit_mask_iff SFRAME_REPLAY_WINDOW_def)
    moreover have "?n \<le> d \<and> bit (rw_seen w) (d - ?n) \<longleftrightarrow> c - int d \<in> A" if "int d < SFRAME_REPLAY_WINDOW"
    proof (cases "?n \<le> d")
      case True
      then have "rw_highest w - int (d - ?n) = c - int d" using c by (simp add: of_nat_diff)
      then show ?thesis using w(3) [of "d - ?n"] True that c by (simp add: of_nat_diff)
    next
      case nd: False
      then have "c - int d > rw_highest w" using c by linarith
      then show ?thesis using nd w(2) [of "c - int d"] by auto
    qed
    ultimately show ?thesis by auto
  qed
  then show ?thesis using w(2) c w(1) by (force simp: window_rel_def)
qed

lemma window_rel_behind:
  assumes rel: "window_rel w A" "A \<noteq> {}" and c: "0 \<le> c" "c \<le> rw_highest w"
    "rw_highest w - c < SFRAME_REPLAY_WINDOW"
  shows "window_rel (w\<lparr>rw_seen := rw_seen w OR push_bit (nat (rw_highest w - c)) 1\<rparr>) (insert c A)"
proof -
  have w: "rw_highest w \<in> A" "\<And>a. a \<in> A \<Longrightarrow> 0 \<le> a \<and> a \<le> rw_highest w"
    "\<And>d. bit (rw_seen w) d \<longleftrightarrow> int d < SFRAME_REPLAY_WINDOW \<and> rw_highest w - int d \<in> A"
    using rel by (auto simp: window_rel_def)
  have "bit (rw_seen w OR push_bit (nat (rw_highest w - c)) 1) d \<longleftrightarrow>
      int d < SFRAME_REPLAY_WINDOW \<and> rw_highest w - int d \<in> insert c A" for d
    using w(3) [of d] c by (auto simp: bit_or_iff bit_exp_iff)
  with w c show ?thesis by (auto simp: window_rel_def)
qed

lemma accept_ideal:
  assumes "window_rel w A" "0 \<le> c" "c \<le> MAX_UINT64"
  obtains w' where "accept w c = Inr (ideal_fresh A c, w')"
    "window_rel w' (if ideal_fresh A c then insert c A else A)"
proof (cases "ideal_fresh A c")
  case False
  then show thesis using that [of w] assms canAccept_ideal [OF assms] by (simp add: accept_def)
next
  case fresh: True
  show thesis
  proof (cases "A = {}")
    case True
    then have "accept w c = Inr (True, \<lparr>rw_highest = c, rw_seen = 1\<rparr>)"
      using assms fresh canAccept_ideal [OF assms] by (simp add: accept_def window_rel_def new_window_def)
    moreover have "window_rel \<lparr>rw_highest = c, rw_seen = 1\<rparr> {c}"
      using assms by (auto simp: window_rel_def bit_1_iff SFRAME_REPLAY_WINDOW_def)
    ultimately show thesis using that fresh True by simp
  next
    case False
    then have h: "0 \<le> rw_highest w" using assms(1) by (auto simp: window_rel_def)
    have can: "canAccept w c = Inr True" using canAccept_ideal [OF assms] fresh by simp
    show thesis
    proof (cases "c > rw_highest w")
      case True
      then show thesis
        using that window_rel_ahead [OF assms(1) False True refl] can h fresh
        by (simp add: accept_def Let_def)
    next
      case nc: False
      then have "rw_highest w - c < SFRAME_REPLAY_WINDOW"
        using window_rel_fresh [OF assms(1) False, of c] fresh by auto
      then show thesis
        using that window_rel_behind [OF assms(1) False assms(2)] nc can h fresh
        by (simp add: accept_def)
    qed
  qed
qed

text \<open>A run of \<open>accept\<close> calls on one window, with what each returns, and the ideal one.\<close>

fun accept_all :: "replay_window \<Rightarrow> int list \<Rightarrow> bool sframe_result list" where
  "accept_all w [] = []"
| "accept_all w (c # cs) =
     (case accept w c of Inl e \<Rightarrow> Inl e # accept_all w cs | Inr (ok, w') \<Rightarrow> Inr ok # accept_all w' cs)"

fun ideal_all :: "int set \<Rightarrow> int list \<Rightarrow> bool sframe_result list" where
  "ideal_all A [] = []"
| "ideal_all A (c # cs) =
     (if c < 0 \<or> c > MAX_UINT64 then Inl (SFrameError ''counter_out_of_range'') # ideal_all A cs
      else Inr (ideal_fresh A c) # ideal_all (if ideal_fresh A c then insert c A else A) cs)"

lemma accept_all_ideal: "window_rel w A \<Longrightarrow> accept_all w cs = ideal_all A cs"
proof (induction cs arbitrary: w A)
  case (Cons c cs)
  show ?case
  proof (cases "c < 0 \<or> c > MAX_UINT64")
    case True
    then have "accept w c = Inl (SFrameError ''counter_out_of_range'')"
      by (simp add: accept_def canAccept_def assertUint64_def)
    with True Cons show ?thesis by simp
  next
    case False
    then obtain w' where "accept w c = Inr (ideal_fresh A c, w')"
      "window_rel w' (if ideal_fresh A c then insert c A else A)"
      using accept_ideal [OF Cons.prems, of c] by force
    with False Cons.IH show ?thesis by auto
  qed
qed simp

text \<open>C2. The replay window is the ideal filter: on every sequence of counters, the answers of a new
  \<open>SFrameReplayWindow\<close> are those of the filter that remembers the whole set of accepted counters and
  accepts a counter exactly when it is in range, was never accepted before and lies less than 128
  below the highest accepted one. The 128-bit set forgets nothing that matters.\<close>

theorem replay_window_refines_ideal: "accept_all new_window cs = ideal_all {} cs"
  by (intro accept_all_ideal window_rel_new)

end
