(* ===== verification/Sframe_Contexts.thy ===== *)
theory Sframe_Contexts
  imports Sframe_Replay
begin

text \<open>
  Frames and the two contexts of \<^verbatim>\<open>webrtc/sframe-codec.ts\<close>: the laws of encryption and decryption of
  one frame, \<open>SFrameEncryptContext\<close>, which owns the sending counter, and \<open>SFrameDecryptContext\<close>, which
  owns the receiving keys and their replay windows. An \<open>async\<close> method is split at its \<open>await\<close> into
  a begin and a finish step; every interleaving of calls is a sequence of such steps. A promise is the
  result it settles with. The derived key a call awaits is the one of the entry it looked up: the
  continuation of the call was registered before the one that wipes the salt, so it runs first.
  An object's identity is a number (\<open>de_id\<close>); a \<open>Map\<close> keyed by \<open>kid.toString()\<close> is a map from \<open>kid\<close>.
\<close>

unbundle bit_operations_syntax

subsection \<open>One frame\<close>

text \<open>What the documentation of WebCrypto promises of HKDF and AES-GCM: the number of bytes asked for,
  a tag of 16 bytes, and that decryption with the same key, nonce and additional data inverts encryption.\<close>

definition crypto_ok :: "sframe_crypto \<Rightarrow> bool" where
  "crypto_ok C \<longleftrightarrow> (\<forall>m i n. length (hkdf C m i n) = n) \<and>
     (\<forall>k iv ad p. length (gcm_encrypt C k iv ad p) = length p + SFRAME_TAG_BYTES \<and>
        gcm_decrypt C k iv ad (gcm_encrypt C k iv ad p) = Some p)"

lemma integerBytes_small: "integerBytes SFRAME_CIPHER_SUITE 2 = Inr [0, 4]"
proof -
  have "integerBytes 4 (Suc (Suc 0)) = Inr [0, 4]" unfolding integerBytes_def by simp
  then show ?thesis unfolding SFRAME_CIPHER_SUITE_def numeral_2_eq_2 .
qed

lemma uint64_bound: "v \<le> MAX_UINT64 \<Longrightarrow> 8 \<le> w \<Longrightarrow> v < 256 ^ w"
proof -
  assume v: "v \<le> MAX_UINT64" and "8 \<le> w"
  then have "(256 :: int) ^ 8 \<le> 256 ^ w" by (intro power_increasing) auto
  with v show ?thesis by (simp add: MAX_UINT64_def)
qed

lemma deriveKey_ok:
  assumes "crypto_ok C" "length baseKey = SFRAME_BASE_KEY_BYTES" "0 \<le> kid" "kid \<le> MAX_UINT64"
  obtains d where "deriveKey C baseKey kid = Inr d" "length (dk_salt d) = 12"
proof -
  obtain kb where "integerBytes kid 8 = Inr kb"
    using integerBytes_ok [of kid 8] assms uint64_bound [of kid 8] by auto
  then show thesis
    using assms that by (simp add: deriveKey_def assertUint64_def integerBytes_small crypto_ok_def)
qed

lemma nonceFor_ok:
  assumes "length salt = 12" "0 \<le> n" "n \<le> MAX_UINT64"
  obtains bs where "integerBytes n 12 = Inr bs" "byte_list bs" "length bs = 12" "foldl be_step 0 bs = n"
    "nonceFor salt n = Inr (map2 (\<lambda>a b. a XOR b) bs salt)"
  using integerBytes_ok [of n 12] assms uint64_bound [of n 12] by (auto simp: nonceFor_def)

lemma xor_right_cancel: "(a :: nat) XOR b = c XOR b \<Longrightarrow> a = c"
  by (metis xor.assoc xor.right_neutral xor_self_eq)

lemma map2_xor_inj:
  "length xs = length ys \<Longrightarrow> length ys = length zs \<Longrightarrow>
   map2 (\<lambda>a b. a XOR b) xs zs = map2 (\<lambda>a b. a XOR b) ys zs \<Longrightarrow> xs = (ys :: nat list)"
proof (induction xs ys zs rule: list_induct3)
  case (Cons x xs y ys z zs)
  then show ?case using xor_right_cancel [of x z y] by simp
qed simp

lemma nonceFor_inj:
  assumes "length salt = 12" "0 \<le> n" "n \<le> MAX_UINT64" "0 \<le> k" "k \<le> MAX_UINT64"
    "nonceFor salt n = nonceFor salt k"
  shows "n = k"
proof -
  obtain xs where xs: "length xs = 12" "foldl be_step 0 xs = n"
      "nonceFor salt n = Inr (map2 (\<lambda>a b. a XOR b) xs salt)"
    using nonceFor_ok [OF assms(1,2,3)] by blast
  obtain ys where ys: "length ys = 12" "foldl be_step 0 ys = k"
      "nonceFor salt k = Inr (map2 (\<lambda>a b. a XOR b) ys salt)"
    using nonceFor_ok [OF assms(1,4,5)] by blast
  have "xs = ys" using xs ys assms(1,6) by (intro map2_xor_inj [of xs ys salt]) simp_all
  with xs ys show ?thesis by simp
qed

lemma encryptWithDerivedKey_ok:
  assumes "crypto_ok C" "length (dk_salt d) = 12" "0 \<le> kid" "kid \<le> MAX_UINT64" "0 \<le> n" "n \<le> MAX_UINT64"
  obtains c h where "encryptWithDerivedKey C d kid n p m = Inr c" "decodeSFrameHeader c = Inr h"
    "hdr_kid h = kid" "hdr_counter h = n" "decryptWithDerivedKey C d h c m = Inr p"
proof -
  obtain iv where iv: "nonceFor (dk_salt d) n = Inr iv" using nonceFor_ok [OF assms(2,5,6)] by blast
  obtain hd where hd: "encodeSFrameHeader kid n = Inr hd"
    "\<And>rest. decodeSFrameHeader (hd @ rest) =
       Inr \<lparr>hdr_kid = kid, hdr_counter = n, hdr_bytes = hd, hdr_length = length hd\<rparr>"
    using decode_encode_header [OF assms(3-6)] by (metis Inr_inject)
  show thesis
    using that [of "hd @ gcm_encrypt C (dk_key d) iv (hd @ m) p"] hd iv assms(1)
    by (simp add: encryptWithDerivedKey_def decryptWithDerivedKey_def crypto_ok_def)
qed

text \<open>A frame encrypted with a 16-byte base key, a key id and a counter in the 64-bit range always
  gives a ciphertext, and decrypting it with the same base key and metadata returns the plaintext with
  the key id and the counter read back from its header.\<close>

theorem sframe_roundtrip:
  assumes "crypto_ok C" and "length baseKey = SFRAME_BASE_KEY_BYTES"
    and "0 \<le> kid" and "kid \<le> MAX_UINT64" and "0 \<le> counter" and "counter \<le> MAX_UINT64"
  shows "\<exists>ciphertext. encryptSFrame C baseKey kid counter plaintext metadata = Inr ciphertext \<and>
    decryptSFrame C baseKey ciphertext metadata = Inr (plaintext, kid, counter)"
proof -
  obtain d where d: "deriveKey C baseKey kid = Inr d" "length (dk_salt d) = 12"
    using deriveKey_ok [OF assms(1-4)] by blast
  obtain c h where "encryptWithDerivedKey C d kid counter plaintext metadata = Inr c"
    "decodeSFrameHeader c = Inr h" "hdr_kid h = kid" "hdr_counter h = counter"
    "decryptWithDerivedKey C d h c metadata = Inr plaintext"
    using encryptWithDerivedKey_ok [OF assms(1) d(2) assms(3-6)] by blast
  with d show ?thesis by (auto simp: encryptSFrame_def decryptSFrame_def)
qed

text \<open>A cipher without secrecy that keeps the promises: the tag is 16 zero bytes.\<close>

definition plain_crypto :: sframe_crypto where
  "plain_crypto = \<lparr>hkdf = (\<lambda>m i n. replicate n 0),
     gcm_encrypt = (\<lambda>k iv ad p. p @ replicate SFRAME_TAG_BYTES 0),
     gcm_decrypt = (\<lambda>k iv ad c. Some (take (length c - SFRAME_TAG_BYTES) c))\<rparr>"

lemma plain_crypto_ok: "crypto_ok plain_crypto"
  by (simp add: crypto_ok_def plain_crypto_def)

theorem sframe_roundtrip_witness:
  "\<exists>ciphertext. encryptSFrame plain_crypto (replicate 16 7) 300 5 [1, 2, 3] [9] = Inr ciphertext \<and>
    decryptSFrame plain_crypto (replicate 16 7) ciphertext [9] = Inr ([1, 2, 3], 300, 5)"
  by (rule sframe_roundtrip) (simp_all add: plain_crypto_ok SFRAME_BASE_KEY_BYTES_def MAX_UINT64_def)

subsection \<open>The sending context\<close>

record encrypt_context =
  ec_kid :: int
  ec_key :: bytes
  ec_derived :: "derived_key sframe_result"
  ec_counter :: int
  ec_destroyed :: bool

definition new_encrypt_context ::
  "sframe_crypto \<Rightarrow> int \<Rightarrow> bytes \<Rightarrow> int \<Rightarrow> encrypt_context sframe_result" where
  "new_encrypt_context C kid baseKey initialCounter =
     (case assertUint64 initialCounter ''counter'' of Inl e \<Rightarrow> Inl e | Inr _ \<Rightarrow>
      if length baseKey \<noteq> SFRAME_BASE_KEY_BYTES then Inl (SFrameError ''base_key_length'')
      else Inr \<lparr>ec_kid = kid, ec_key = baseKey, ec_derived = deriveKey C baseKey kid,
                ec_counter = initialCounter, ec_destroyed = False\<rparr>)"

definition encrypt_begin :: "encrypt_context \<Rightarrow> (int \<times> encrypt_context) sframe_result" where
  "encrypt_begin ctx =
     (if ec_destroyed ctx then Inl (SFrameError ''context_destroyed'')
      else if ec_counter ctx > MAX_UINT64 then Inl (SFrameError ''counter_exhausted'')
      else let current = ec_counter ctx in Inr (current, ctx\<lparr>ec_counter := current + 1\<rparr>))"

definition encrypt_finish ::
  "sframe_crypto \<Rightarrow> encrypt_context \<Rightarrow> int \<Rightarrow> bytes \<Rightarrow> bytes \<Rightarrow> bytes sframe_result" where
  "encrypt_finish C ctx current plaintext metadata =
     (case ec_derived ctx of Inl e \<Rightarrow> Inl e | Inr derived \<Rightarrow>
      case encryptWithDerivedKey C derived (ec_kid ctx) current plaintext metadata of Inl e \<Rightarrow> Inl e
      | Inr ciphertext \<Rightarrow>
        if ec_destroyed ctx then Inl (SFrameError ''context_destroyed'') else Inr ciphertext)"

definition encrypt_destroy :: "encrypt_context \<Rightarrow> encrypt_context" where
  "encrypt_destroy ctx =
     ctx\<lparr>ec_destroyed := True, ec_key := replicate (length (ec_key ctx)) 0, ec_counter := MAX_UINT64 + 1\<rparr>"

text \<open>A sending context with the calls of \<open>encrypt\<close> that wait and the frames returned so far, and what
  can happen to it next: a call, the completion of the waiting call number \<open>i\<close>, or \<open>destroy\<close>.\<close>

record enc_system =
  es_ctx :: encrypt_context
  es_pending :: "(int \<times> bytes \<times> bytes) list"
  es_sent :: "(int \<times> bytes) list"

datatype enc_event = Enc_Call bytes bytes | Enc_Resume nat | Enc_Destroy

fun enc_step :: "sframe_crypto \<Rightarrow> enc_system \<Rightarrow> enc_event \<Rightarrow> enc_system" where
  "enc_step C s (Enc_Call plaintext metadata) =
     (case encrypt_begin (es_ctx s) of Inl _ \<Rightarrow> s
      | Inr (n, ctx) \<Rightarrow> s\<lparr>es_ctx := ctx, es_pending := es_pending s @ [(n, plaintext, metadata)]\<rparr>)"
| "enc_step C s (Enc_Resume i) =
     (if i < length (es_pending s) then
        (case es_pending s ! i of (n, plaintext, metadata) \<Rightarrow>
           let s' = s\<lparr>es_pending := drop_nth i (es_pending s)\<rparr> in
           case encrypt_finish C (es_ctx s) n plaintext metadata of Inl _ \<Rightarrow> s'
           | Inr c \<Rightarrow> s'\<lparr>es_sent := es_sent s @ [(n, c)]\<rparr>)
      else s)"
| "enc_step C s Enc_Destroy = s\<lparr>es_ctx := encrypt_destroy (es_ctx s)\<rparr>"

definition enc_start :: "encrypt_context \<Rightarrow> enc_system" where
  "enc_start ctx = \<lparr>es_ctx = ctx, es_pending = [], es_sent = []\<rparr>"

abbreviation enc_run :: "sframe_crypto \<Rightarrow> enc_system \<Rightarrow> enc_event list \<Rightarrow> enc_system" where
  "enc_run C \<equiv> foldl (enc_step C)"

text \<open>The counters reserved so far, by waiting calls and by frames returned.\<close>

abbreviation reserved :: "enc_system \<Rightarrow> int list" where
  "reserved s \<equiv> map fst (es_pending s) @ map fst (es_sent s)"

definition counters_ok :: "int \<Rightarrow> int list \<Rightarrow> bool" where
  "counters_ok bound ns \<longleftrightarrow> distinct ns \<and> (\<forall>n \<in> set ns. 0 \<le> n \<and> n \<le> MAX_UINT64 \<and> n < bound)"

lemma counters_ok_reserve:
  "counters_ok n (xs @ ys) \<Longrightarrow> 0 \<le> n \<Longrightarrow> n \<le> MAX_UINT64 \<Longrightarrow> counters_ok (n + 1) ((xs @ [n]) @ ys)"
  by (auto simp: counters_ok_def intro: less_imp_le)

lemma counters_ok_moved: "counters_ok b ((xs @ n # ys) @ zs) \<Longrightarrow> counters_ok b ((xs @ ys) @ zs @ [n])"
  by (auto simp: counters_ok_def)

lemma counters_ok_dropped: "counters_ok b ((xs @ n # ys) @ zs) \<Longrightarrow> counters_ok b ((xs @ ys) @ zs)"
  by (auto simp: counters_ok_def)

lemma counters_ok_weaken: "counters_ok b ns \<Longrightarrow> counters_ok (MAX_UINT64 + 1) ns"
  by (auto simp: counters_ok_def)

definition enc_inv :: "sframe_crypto \<Rightarrow> int \<Rightarrow> bytes \<Rightarrow> enc_system \<Rightarrow> bool" where
  "enc_inv C kid baseKey s \<longleftrightarrow>
     ec_kid (es_ctx s) = kid \<and> ec_derived (es_ctx s) = deriveKey C baseKey kid \<and>
     0 \<le> ec_counter (es_ctx s) \<and> counters_ok (ec_counter (es_ctx s)) (reserved s) \<and>
     (\<forall>(n, c) \<in> set (es_sent s). \<exists>d p m. deriveKey C baseKey kid = Inr d \<and>
        encryptWithDerivedKey C d kid n p m = Inr c)"

lemma enc_inv_call:
  assumes inv: "enc_inv C kid baseKey s" and beg: "encrypt_begin (es_ctx s) = Inr (n, ctx)"
  shows "enc_inv C kid baseKey (s\<lparr>es_ctx := ctx, es_pending := es_pending s @ [(n, p, m)]\<rparr>)"
proof -
  have n: "n = ec_counter (es_ctx s)" "n \<le> MAX_UINT64" "ctx = (es_ctx s)\<lparr>ec_counter := n + 1\<rparr>"
    using beg by (auto simp: encrypt_begin_def Let_def split: if_splits)
  then have "counters_ok (n + 1) ((map fst (es_pending s) @ [n]) @ map fst (es_sent s))"
    using inv by (intro counters_ok_reserve) (auto simp: enc_inv_def)
  with inv n show ?thesis by (auto simp: enc_inv_def)
qed

lemma enc_inv_resume:
  assumes inv: "enc_inv C kid baseKey s" and pending: "es_pending s = ys @ (n, p, m) # zs"
  shows "enc_inv C kid baseKey (s\<lparr>es_pending := ys @ zs\<rparr>)"
    and "encrypt_finish C (es_ctx s) n p m = Inr c \<Longrightarrow>
      enc_inv C kid baseKey (s\<lparr>es_pending := ys @ zs, es_sent := es_sent s @ [(n, c)]\<rparr>)"
proof -
  have ok: "counters_ok (ec_counter (es_ctx s)) ((map fst ys @ n # map fst zs) @ map fst (es_sent s))"
    using inv by (simp add: enc_inv_def pending)
  show "enc_inv C kid baseKey (s\<lparr>es_pending := ys @ zs\<rparr>)"
    using inv counters_ok_dropped [OF ok] by (simp add: enc_inv_def)
  assume "encrypt_finish C (es_ctx s) n p m = Inr c"
  then obtain d where "deriveKey C baseKey kid = Inr d" "encryptWithDerivedKey C d kid n p m = Inr c"
    using inv by (auto simp: encrypt_finish_def enc_inv_def split: sum.splits if_splits)
  then show "enc_inv C kid baseKey (s\<lparr>es_pending := ys @ zs, es_sent := es_sent s @ [(n, c)]\<rparr>)"
    using inv counters_ok_moved [OF ok] by (auto simp: enc_inv_def)
qed

lemma enc_inv_step:
  assumes inv: "enc_inv C kid baseKey s" shows "enc_inv C kid baseKey (enc_step C s e)"
proof (cases e)
  case (Enc_Call p m)
  then show ?thesis using inv enc_inv_call [OF inv] by (auto split: sum.split)
next
  case (Enc_Resume i)
  show ?thesis
  proof (cases "i < length (es_pending s)")
    case True
    obtain n p m where x: "es_pending s ! i = (n, p, m)" by (cases "es_pending s ! i")
    with True obtain ys zs where split: "es_pending s = ys @ (n, p, m) # zs"
      "drop_nth i (es_pending s) = ys @ zs" by (metis drop_nth_split)
    note r = enc_inv_resume [OF inv split(1)]
    show ?thesis
      using r True x split(2)
      by (auto simp: Enc_Resume Let_def simp del: drop_nth.simps split: sum.split)
  qed (use inv Enc_Resume in simp)
next
  case Enc_Destroy
  then show ?thesis
    using inv counters_ok_weaken [of "ec_counter (es_ctx s)" "reserved s"]
    by (auto simp: enc_inv_def encrypt_destroy_def MAX_UINT64_def)
qed

lemma enc_inv_run: "enc_inv C kid baseKey s \<Longrightarrow> enc_inv C kid baseKey (enc_run C s es)"
  by (induction es arbitrary: s) (simp_all add: enc_inv_step)

lemma enc_inv_start:
  "new_encrypt_context C kid baseKey n = Inr ctx \<Longrightarrow> enc_inv C kid baseKey (enc_start ctx)"
  by (auto simp: new_encrypt_context_def enc_inv_def enc_start_def assertUint64_def counters_ok_def split: sum.splits if_splits)

lemma enc_sent_after_destroy:
  "ec_destroyed (es_ctx s) \<Longrightarrow> es_sent (enc_run C s es) = es_sent s"
proof (induction es arbitrary: s)
  case (Cons e es)
  have "ec_destroyed (es_ctx (enc_step C s e)) \<and> es_sent (enc_step C s e) = es_sent s"
    using Cons.prems
    by (cases e) (auto simp: encrypt_begin_def encrypt_finish_def encrypt_destroy_def Let_def
        split: sum.splits if_splits prod.splits)
  with Cons.IH show ?case by simp
qed simp

lemma distinct_nonces:
  assumes "length salt = 12" "distinct ns" "\<forall>n \<in> set ns. 0 \<le> n \<and> n \<le> MAX_UINT64"
  shows "distinct (map (nonceFor salt) ns)"
  using assms nonceFor_inj [OF assms(1)] by (auto simp: distinct_map inj_on_def)

text \<open>C3. \<open>SFrameEncryptContext\<close> never reuses a nonce. For every interleaving of calls of \<open>encrypt\<close>, their
  completions and \<open>destroy\<close>, the frames that were returned carry pairwise different counters and were
  encrypted under pairwise different nonces of the one derived key; each returned frame is the encryption
  with that key under its own counter and its header decodes to the context's key id and that counter;
  and once the context is destroyed no further frame is returned.\<close>

theorem encrypt_context_never_reuses_nonce:
  assumes "crypto_ok C" and "0 \<le> kid" and "kid \<le> MAX_UINT64"
    and "new_encrypt_context C kid baseKey n0 = Inr ctx" and "deriveKey C baseKey kid = Inr d"
  shows "let s = enc_run C (enc_start ctx) events in
    distinct (map fst (es_sent s)) \<and>
    distinct (map (\<lambda>(n, c). nonceFor (dk_salt d) n) (es_sent s)) \<and>
    (\<forall>(n, c) \<in> set (es_sent s). (\<exists>p m. encryptWithDerivedKey C d kid n p m = Inr c) \<and>
       (\<exists>h. decodeSFrameHeader c = Inr h \<and> hdr_kid h = kid \<and> hdr_counter h = n)) \<and>
    es_sent (enc_run C (enc_step C s Enc_Destroy) later) = es_sent s"
proof -
  define s where "s = enc_run C (enc_start ctx) events"
  have inv: "enc_inv C kid baseKey s" unfolding s_def by (intro enc_inv_run enc_inv_start [OF assms(4)])
  have "length baseKey = SFRAME_BASE_KEY_BYTES"
    using assms(4) by (auto simp: new_encrypt_context_def split: sum.splits if_splits)
  then have salt: "length (dk_salt d) = 12" using deriveKey_ok [OF assms(1) _ assms(2,3)] assms(5) by force
  have ns: "distinct (map fst (es_sent s))" "\<forall>n \<in> set (map fst (es_sent s)). 0 \<le> n \<and> n \<le> MAX_UINT64"
    using inv by (auto simp: enc_inv_def counters_ok_def)
  have "distinct (map (nonceFor (dk_salt d)) (map fst (es_sent s)))" by (rule distinct_nonces [OF salt ns])
  then have "distinct (map (\<lambda>(n, c). nonceFor (dk_salt d) n) (es_sent s))" by (simp add: case_prod_unfold comp_def)
  moreover have "\<forall>(n, c) \<in> set (es_sent s). (\<exists>p m. encryptWithDerivedKey C d kid n p m = Inr c) \<and>
       (\<exists>h. decodeSFrameHeader c = Inr h \<and> hdr_kid h = kid \<and> hdr_counter h = n)"
  proof clarify
    fix n c assume mem: "(n, c) \<in> set (es_sent s)"
    then obtain p m where enc: "encryptWithDerivedKey C d kid n p m = Inr c"
      using inv assms(5) by (fastforce simp: enc_inv_def)
    have "0 \<le> n" "n \<le> MAX_UINT64" using ns(2) mem by force+
    then show "(\<exists>p m. encryptWithDerivedKey C d kid n p m = Inr c) \<and>
       (\<exists>h. decodeSFrameHeader c = Inr h \<and> hdr_kid h = kid \<and> hdr_counter h = n)"
      using encryptWithDerivedKey_ok [OF assms(1) salt assms(2,3), of n p m] enc by (metis Inr_inject)
  qed
  moreover have "es_sent (enc_run C (enc_step C s Enc_Destroy) later) = es_sent s"
    using enc_sent_after_destroy [of "enc_step C s Enc_Destroy" C later] by (simp add: encrypt_destroy_def)
  ultimately show ?thesis unfolding Let_def s_def [symmetric] using ns(1) by blast
qed

theorem encrypt_context_never_reuses_nonce_witness:
  "\<exists>ctx d. new_encrypt_context plain_crypto 300 (replicate 16 7) 5 = Inr ctx \<and>
     deriveKey plain_crypto (replicate 16 7) 300 = Inr d \<and>
     distinct (map (\<lambda>(n, c). nonceFor (dk_salt d) n) (es_sent (enc_run plain_crypto (enc_start ctx)
       [Enc_Call [1] [], Enc_Call [2] [], Enc_Resume 1, Enc_Resume 0])))"
proof -
  have len: "length (replicate 16 7 :: nat list) = SFRAME_BASE_KEY_BYTES"
    by (simp add: SFRAME_BASE_KEY_BYTES_def)
  obtain ctx where ctx: "new_encrypt_context plain_crypto 300 (replicate 16 7) 5 = Inr ctx"
    using len by (auto simp: new_encrypt_context_def assertUint64_def MAX_UINT64_def)
  have r: "0 \<le> (300 :: int)" "300 \<le> MAX_UINT64" by (simp_all add: MAX_UINT64_def)
  obtain d where d: "deriveKey plain_crypto (replicate 16 7) 300 = Inr d"
    using deriveKey_ok [OF plain_crypto_ok len r] by blast
  show ?thesis
    using encrypt_context_never_reuses_nonce [OF plain_crypto_ok r ctx d,
        of "[Enc_Call [1] [], Enc_Call [2] [], Enc_Resume 1, Enc_Resume 0]" "[]"] ctx d
    unfolding Let_def by blast
qed

subsection \<open>The receiving context\<close>

record decrypt_entry =
  de_id :: nat
  de_baseKey :: bytes
  de_derived :: "derived_key sframe_result"
  de_replay :: replay_window

record decrypt_context =
  dc_keys :: "int \<rightharpoonup> decrypt_entry"
  dc_destroyed :: bool
  dc_next :: nat

definition new_decrypt_context :: decrypt_context where
  "new_decrypt_context = \<lparr>dc_keys = Map.empty, dc_destroyed = False, dc_next = 0\<rparr>"

definition removeKey :: "decrypt_context \<Rightarrow> int \<Rightarrow> decrypt_context" where
  "removeKey ctx kid = ctx\<lparr>dc_keys := (dc_keys ctx)(kid := None)\<rparr>"

definition setKey :: "sframe_crypto \<Rightarrow> decrypt_context \<Rightarrow> int \<Rightarrow> bytes \<Rightarrow> decrypt_context sframe_result" where
  "setKey C ctx kid baseKey =
     (if dc_destroyed ctx then Inl (SFrameError ''context_destroyed'') else
      case assertUint64 kid ''kid'' of Inl e \<Rightarrow> Inl e | Inr _ \<Rightarrow>
      if length baseKey \<noteq> SFRAME_BASE_KEY_BYTES then Inl (SFrameError ''base_key_length'') else
      let ctx' = removeKey ctx kid;
          entry = \<lparr>de_id = dc_next ctx', de_baseKey = baseKey, de_derived = deriveKey C baseKey kid,
                   de_replay = new_window\<rparr>
      in Inr (ctx'\<lparr>dc_keys := (dc_keys ctx')(kid \<mapsto> entry), dc_next := Suc (dc_next ctx')\<rparr>))"

definition decrypt_begin ::
  "decrypt_context \<Rightarrow> bytes \<Rightarrow> (sframe_header \<times> decrypt_entry) sframe_result" where
  "decrypt_begin ctx ciphertext =
     (if dc_destroyed ctx then Inl (SFrameError ''context_destroyed'') else
      case decodeSFrameHeader ciphertext of Inl e \<Rightarrow> Inl e | Inr header \<Rightarrow>
      case dc_keys ctx (hdr_kid header) of None \<Rightarrow> Inl (SFrameError ''unknown_kid'')
      | Some entry \<Rightarrow>
        (case canAccept (de_replay entry) (hdr_counter header) of Inl e \<Rightarrow> Inl e
         | Inr False \<Rightarrow> Inl (SFrameError ''replay_rejected'')
         | Inr True \<Rightarrow> Inr (header, entry)))"

definition decrypt_finish ::
  "sframe_crypto \<Rightarrow> decrypt_context \<Rightarrow> sframe_header \<Rightarrow> decrypt_entry \<Rightarrow> bytes \<Rightarrow> bytes
   \<Rightarrow> bytes sframe_result \<times> decrypt_context" where
  "decrypt_finish C ctx header entry ciphertext metadata =
     (case de_derived entry of Inl e \<Rightarrow> (Inl e, ctx) | Inr derived \<Rightarrow>
      case decryptWithDerivedKey C derived header ciphertext metadata of Inl e \<Rightarrow> (Inl e, ctx)
      | Inr plaintext \<Rightarrow>
        (case dc_keys ctx (hdr_kid header) of
           None \<Rightarrow> (Inl (SFrameError ''context_destroyed''), ctx)
         | Some current \<Rightarrow>
           if dc_destroyed ctx \<or> de_id current \<noteq> de_id entry
           then (Inl (SFrameError ''context_destroyed''), ctx)
           else (case accept (de_replay current) (hdr_counter header) of
               Inl e \<Rightarrow> (Inl e, ctx)
             | Inr (False, w) \<Rightarrow> (Inl (SFrameError ''replay_rejected''), ctx)
             | Inr (True, w) \<Rightarrow>
               (Inr plaintext,
                ctx\<lparr>dc_keys := (dc_keys ctx)(hdr_kid header \<mapsto> current\<lparr>de_replay := w\<rparr>)\<rparr>))))"

definition decrypt_destroy :: "decrypt_context \<Rightarrow> decrypt_context" where
  "decrypt_destroy ctx = ctx\<lparr>dc_destroyed := True, dc_keys := Map.empty\<rparr>"

text \<open>A receiving context with the calls of \<open>decrypt\<close> that wait and what was delivered: the identity of
  the key entry, the counter and the plaintext.\<close>

record dec_system =
  ds_ctx :: decrypt_context
  ds_pending :: "(sframe_header \<times> decrypt_entry \<times> bytes \<times> bytes) list"
  ds_delivered :: "(nat \<times> int \<times> bytes) list"

definition dec_start :: dec_system where
  "dec_start = \<lparr>ds_ctx = new_decrypt_context, ds_pending = [], ds_delivered = []\<rparr>"

inductive dec_step :: "sframe_crypto \<Rightarrow> dec_system \<Rightarrow> dec_system \<Rightarrow> bool" for C where
  install: "setKey C (ds_ctx s) kid baseKey = Inr ctx \<Longrightarrow> dec_step C s (s\<lparr>ds_ctx := ctx\<rparr>)"
| remove: "dec_step C s (s\<lparr>ds_ctx := removeKey (ds_ctx s) kid\<rparr>)"
| call: "byte_list c \<Longrightarrow> decrypt_begin (ds_ctx s) c = Inr (h, e) \<Longrightarrow>
    dec_step C s (s\<lparr>ds_pending := ds_pending s @ [(h, e, c, m)]\<rparr>)"
| deliver: "ds_pending s = ys @ (h, e, c, m) # zs \<Longrightarrow>
    decrypt_finish C (ds_ctx s) h e c m = (Inr p, ctx) \<Longrightarrow>
    dec_step C s (s\<lparr>ds_ctx := ctx, ds_pending := ys @ zs,
                    ds_delivered := ds_delivered s @ [(de_id e, hdr_counter h, p)]\<rparr>)"
| reject: "ds_pending s = ys @ (h, e, c, m) # zs \<Longrightarrow>
    decrypt_finish C (ds_ctx s) h e c m = (Inl err, ctx) \<Longrightarrow>
    dec_step C s (s\<lparr>ds_ctx := ctx, ds_pending := ys @ zs\<rparr>)"
| destroy: "dec_step C s (s\<lparr>ds_ctx := decrypt_destroy (ds_ctx s)\<rparr>)"

abbreviation delivered_of :: "dec_system \<Rightarrow> nat \<Rightarrow> int set" where
  "delivered_of s i \<equiv> {n. \<exists>p. (i, n, p) \<in> set (ds_delivered s)}"

definition keys_ok :: "sframe_crypto \<Rightarrow> dec_system \<Rightarrow> bool" where
  "keys_ok C s \<longleftrightarrow>
     (\<forall>kid e. dc_keys (ds_ctx s) kid = Some e \<longrightarrow> de_id e < dc_next (ds_ctx s) \<and>
        window_rel (de_replay e) (delivered_of s (de_id e))) \<and>
     (\<forall>kid kid' e e'. dc_keys (ds_ctx s) kid = Some e \<longrightarrow> dc_keys (ds_ctx s) kid' = Some e' \<longrightarrow>
        de_id e = de_id e' \<longrightarrow> kid = kid')"

definition dec_inv :: "sframe_crypto \<Rightarrow> dec_system \<Rightarrow> bool" where
  "dec_inv C s \<longleftrightarrow> keys_ok C s \<and>
     (\<forall>(i, n, p) \<in> set (ds_delivered s). i < dc_next (ds_ctx s)) \<and>
     distinct (map (\<lambda>(i, n, p). (i, n)) (ds_delivered s)) \<and>
     (\<forall>(h, e, c, m) \<in> set (ds_pending s). 0 \<le> hdr_counter h \<and> hdr_counter h \<le> MAX_UINT64)"

lemma decrypt_finish_rejects: "decrypt_finish C ctx h e c m = (Inl err, ctx') \<Longrightarrow> ctx' = ctx"
  by (auto simp: decrypt_finish_def split: sum.splits option.splits if_splits bool.splits)

lemma decrypt_finish_delivers:
  assumes "decrypt_finish C ctx h e c m = (Inr p, ctx')"
  obtains d cur w where "de_derived e = Inr d" "decryptWithDerivedKey C d h c m = Inr p"
    "dc_keys ctx (hdr_kid h) = Some cur" "\<not> dc_destroyed ctx" "de_id cur = de_id e"
    "accept (de_replay cur) (hdr_counter h) = Inr (True, w)"
    "ctx' = ctx\<lparr>dc_keys := (dc_keys ctx)(hdr_kid h \<mapsto> cur\<lparr>de_replay := w\<rparr>)\<rparr>"
  using assms
  by (auto simp: decrypt_finish_def split: sum.splits option.splits if_splits bool.splits)

lemma dec_inv_install:
  assumes inv: "dec_inv C s" and set: "setKey C (ds_ctx s) kid baseKey = Inr ctx"
  shows "dec_inv C (s\<lparr>ds_ctx := ctx\<rparr>)"
proof -
  let ?i = "dc_next (ds_ctx s)"
  have ctx: "dc_keys ctx = (dc_keys (ds_ctx s))(kid \<mapsto> \<lparr>de_id = ?i, de_baseKey = baseKey,
      de_derived = deriveKey C baseKey kid, de_replay = new_window\<rparr>)" "dc_next ctx = Suc ?i"
    using set by (auto simp: setKey_def removeKey_def Let_def split: sum.splits if_splits)
  have new: "delivered_of s ?i = {}" using inv by (fastforce simp: dec_inv_def)
  have old: "de_id e < ?i" if "dc_keys (ds_ctx s) k = Some e" for k e
    using inv that by (auto simp: dec_inv_def keys_ok_def)
  have "keys_ok C (s\<lparr>ds_ctx := ctx\<rparr>)"
    unfolding keys_ok_def
  proof (intro conjI allI impI)
    fix k e assume e: "dc_keys (ds_ctx (s\<lparr>ds_ctx := ctx\<rparr>)) k = Some e"
    then show "de_id e < dc_next (ds_ctx (s\<lparr>ds_ctx := ctx\<rparr>))"
      using old [of k e] by (auto simp: ctx split: if_splits)
    show "window_rel (de_replay e) (delivered_of (s\<lparr>ds_ctx := ctx\<rparr>) (de_id e))"
      using e new inv by (auto simp: ctx dec_inv_def keys_ok_def split: if_splits)
  next
    fix k k' e e'
    assume "dc_keys (ds_ctx (s\<lparr>ds_ctx := ctx\<rparr>)) k = Some e"
      "dc_keys (ds_ctx (s\<lparr>ds_ctx := ctx\<rparr>)) k' = Some e'" "de_id e = de_id e'"
    then show "k = k'"
      using inv by (auto simp: ctx dec_inv_def keys_ok_def split: if_splits dest: old)
  qed
  then show ?thesis using inv by (fastforce simp: dec_inv_def ctx less_Suc_eq)
qed

lemma keys_okD:
  assumes "keys_ok C s" "dc_keys (ds_ctx s) kid = Some e"
  shows "de_id e < dc_next (ds_ctx s)" "window_rel (de_replay e) (delivered_of s (de_id e))"
    "dc_keys (ds_ctx s) kid' = Some e' \<Longrightarrow> de_id e' = de_id e \<Longrightarrow> kid' = kid"
  using assms unfolding keys_ok_def by metis+

lemma dec_inv_deliver:
  assumes inv: "dec_inv C s" and pending: "ds_pending s = ys @ (h, e, c, m) # zs"
    and fin: "decrypt_finish C (ds_ctx s) h e c m = (Inr p, ctx)"
  shows "dec_inv C (s\<lparr>ds_ctx := ctx, ds_pending := ys @ zs,
    ds_delivered := ds_delivered s @ [(de_id e, hdr_counter h, p)]\<rparr>)" (is "dec_inv C ?s'")
proof -
  let ?n = "hdr_counter h" and ?k = "hdr_kid h"
  obtain cur w where cur: "dc_keys (ds_ctx s) ?k = Some cur" "de_id cur = de_id e"
    and acc: "accept (de_replay cur) ?n = Inr (True, w)"
    and ctx: "ctx = (ds_ctx s)\<lparr>dc_keys := (dc_keys (ds_ctx s))(?k \<mapsto> cur\<lparr>de_replay := w\<rparr>)\<rparr>"
    using fin by (rule decrypt_finish_delivers)
  let ?A = "delivered_of s (de_id e)"
  have keys: "keys_ok C s" and range: "0 \<le> ?n" "?n \<le> MAX_UINT64"
    using inv pending by (auto simp: dec_inv_def)
  then have "window_rel (de_replay cur) ?A" and id: "de_id e < dc_next (ds_ctx s)"
    using keys_okD(1,2) [OF keys cur(1)] by (simp_all only: cur(2))
  then have fresh: "?n \<notin> ?A" and w: "window_rel w (insert ?n ?A)"
    using accept_ideal [OF _ range, of "de_replay cur" ?A] acc by (auto simp: ideal_fresh_def)
  have other: "de_id x \<noteq> de_id e" if "dc_keys (ds_ctx s) k = Some x" "k \<noteq> ?k" for k x
    using keys_okD(3) [OF keys cur(1) that(1)] that(2) cur(2) by metis
  have new: "delivered_of ?s' (de_id e) = insert ?n ?A"
    "\<And>j. j \<noteq> de_id e \<Longrightarrow> delivered_of ?s' j = delivered_of s j" by auto
  have "keys_ok C ?s'"
    unfolding keys_ok_def
  proof (intro conjI allI impI)
    fix k x assume x: "dc_keys (ds_ctx ?s') k = Some x"
    show "de_id x < dc_next (ds_ctx ?s')"
      using x keys_okD(1) [OF keys, of k x] id cur by (auto simp: ctx split: if_splits)
    show "window_rel (de_replay x) (delivered_of ?s' (de_id x))"
    proof (cases "k = ?k")
      case True
      then show ?thesis using x w cur(2) new(1) by (auto simp: ctx)
    next
      case False
      then have x: "dc_keys (ds_ctx s) k = Some x" using x by (simp add: ctx)
      show ?thesis unfolding new(2) [OF other [OF x False]] by (rule keys_okD(2) [OF keys x])
    qed
  next
    fix k k' x x'
    assume "dc_keys (ds_ctx ?s') k = Some x" "dc_keys (ds_ctx ?s') k' = Some x'" "de_id x = de_id x'"
    then show "k = k'" using keys_okD(3) [OF keys] other cur by (auto simp: ctx split: if_splits)
  qed
  moreover have "(de_id e, ?n) \<notin> set (map (\<lambda>(i, n, p). (i, n)) (ds_delivered s))" using fresh by force
  moreover have "dc_next (ds_ctx ?s') = dc_next (ds_ctx s)" by (simp add: ctx)
  ultimately show ?thesis using inv id unfolding dec_inv_def pending by simp
qed

lemma dec_inv_step: "dec_step C s s' \<Longrightarrow> dec_inv C s \<Longrightarrow> dec_inv C s'"
proof (induction rule: dec_step.induct)
  case (install s kid baseKey ctx)
  then show ?case using dec_inv_install by blast
next
  case (call c s h e m)
  then have "decodeSFrameHeader c = Inr h"
    by (auto simp: decrypt_begin_def split: sum.splits option.splits if_splits bool.splits)
  then have "0 \<le> hdr_counter h \<and> hdr_counter h \<le> MAX_UINT64"
    using decoded_header_canonical [OF call.hyps(1)] by blast
  then show ?case using call.prems by (auto simp: dec_inv_def keys_ok_def)
next
  case (deliver s ys h e c m zs p ctx)
  then show ?case using dec_inv_deliver by blast
next
  case (reject s ys h e c m zs err ctx)
  then have "ctx = ds_ctx s" using decrypt_finish_rejects by blast
  with reject show ?case by (auto simp: dec_inv_def keys_ok_def)
qed (auto simp: dec_inv_def keys_ok_def removeKey_def decrypt_destroy_def split: if_splits)

lemma dec_inv_reachable: "(dec_step C)\<^sup>*\<^sup>* dec_start s \<Longrightarrow> dec_inv C s"
  by (induction rule: rtranclp_induct)
    (auto simp: dec_inv_step, simp add: dec_inv_def keys_ok_def dec_start_def new_decrypt_context_def)

lemma dec_destroyed_step:
  "dec_step C s s' \<Longrightarrow> dc_destroyed (ds_ctx s) \<Longrightarrow>
   dc_destroyed (ds_ctx s') \<and> ds_delivered s' = ds_delivered s"
proof (induction rule: dec_step.induct)
  case (deliver s ys h e c m zs p ctx)
  then show ?case by (auto elim: decrypt_finish_delivers)
next
  case (reject s ys h e c m zs err ctx)
  then have "ctx = ds_ctx s" using decrypt_finish_rejects by blast
  with reject show ?case by simp
qed (auto simp: setKey_def removeKey_def decrypt_destroy_def Let_def split: sum.splits if_splits)

lemma dec_destroyed_forever:
  "(dec_step C)\<^sup>*\<^sup>* s s' \<Longrightarrow> dc_destroyed (ds_ctx s) \<Longrightarrow> ds_delivered s' = ds_delivered s"
proof -
  assume "(dec_step C)\<^sup>*\<^sup>* s s'" "dc_destroyed (ds_ctx s)"
  then have "dc_destroyed (ds_ctx s') \<and> ds_delivered s' = ds_delivered s"
    by (induction rule: rtranclp_induct) (auto dest: dec_destroyed_step)
  then show ?thesis by simp
qed

text \<open>C4. \<open>SFrameDecryptContext\<close> delivers no frame twice. In every state that any interleaving of \<open>setKey\<close>,
  \<open>removeKey\<close>, calls of \<open>decrypt\<close>, their completions and \<open>destroy\<close> reaches, no key entry has delivered two
  plaintexts for one counter (also when several copies were being decrypted at once), the window of
  every installed key holds exactly the counters it delivered, and a destroyed context never delivers
  again.\<close>

theorem decrypt_context_no_replay:
  assumes "(dec_step C)\<^sup>*\<^sup>* dec_start s"
  shows "distinct (map (\<lambda>(i, n, p). (i, n)) (ds_delivered s)) \<and>
    (\<forall>kid e n. dc_keys (ds_ctx s) kid = Some e \<longrightarrow> 0 \<le> n \<longrightarrow> n \<le> MAX_UINT64 \<longrightarrow>
       canAccept (de_replay e) n = Inr (ideal_fresh (delivered_of s (de_id e)) n)) \<and>
    (\<forall>s'. (dec_step C)\<^sup>*\<^sup>* (s\<lparr>ds_ctx := decrypt_destroy (ds_ctx s)\<rparr>) s' \<longrightarrow>
       ds_delivered s' = ds_delivered s)"
proof -
  have inv: "dec_inv C s" using assms by (rule dec_inv_reachable)
  have "canAccept (de_replay e) n = Inr (ideal_fresh (delivered_of s (de_id e)) n)"
    if "dc_keys (ds_ctx s) kid = Some e" "0 \<le> n" "n \<le> MAX_UINT64" for kid e n
    using inv that by (intro canAccept_ideal) (auto simp: dec_inv_def keys_ok_def)
  moreover have "ds_delivered s' = ds_delivered s"
    if "(dec_step C)\<^sup>*\<^sup>* (s\<lparr>ds_ctx := decrypt_destroy (ds_ctx s)\<rparr>) s'" for s'
    using dec_destroyed_forever [OF that] by (simp add: decrypt_destroy_def)
  ultimately show ?thesis using inv unfolding dec_inv_def by blast
qed

text \<open>What \<open>encrypt\<close> sends, \<open>decrypt\<close> delivers: a frame that a sending context returns for a plaintext
  passes both steps of \<open>decrypt\<close> at a receiving context that holds the same base key for that key id and
  whose replay window accepts the counter, it is delivered as that plaintext, and a second copy of it is
  then rejected as a replay at the first step.\<close>

lemma contexts_deliver_lemma:
  assumes "crypto_ok C" and "0 \<le> kid" and "kid \<le> MAX_UINT64" and "length baseKey = SFRAME_BASE_KEY_BYTES"
    and "new_encrypt_context C kid baseKey n0 = Inr ctx" and "encrypt_begin ctx = Inr (n, ctx')"
    and "encrypt_finish C ctx' n plaintext metadata = Inr frame"
    and "dc_keys receiver kid = Some entry" and "de_derived entry = deriveKey C baseKey kid"
    and "\<not> dc_destroyed receiver" and "window_rel (de_replay entry) A" and "ideal_fresh A n"
  shows "\<exists>h w receiver'. decrypt_begin receiver frame = Inr (h, entry) \<and>
    decrypt_finish C receiver h entry frame metadata = (Inr plaintext, receiver') \<and>
    decrypt_begin receiver' frame = Inl (SFrameError ''replay_rejected'') \<and>
    receiver' = receiver\<lparr>dc_keys := (dc_keys receiver)(kid \<mapsto> entry\<lparr>de_replay := w\<rparr>)\<rparr> \<and> window_rel w (insert n A)"
proof -
  have n: "n = n0" "0 \<le> n" "n \<le> MAX_UINT64" "ec_derived ctx' = deriveKey C baseKey kid" "ec_kid ctx' = kid"
    using assms(5,6) by (auto simp: new_encrypt_context_def encrypt_begin_def assertUint64_def Let_def
        split: sum.splits if_splits)
  obtain d where d: "deriveKey C baseKey kid = Inr d" "length (dk_salt d) = 12"
    using deriveKey_ok [OF assms(1,4,2,3)] by blast
  then have enc: "encryptWithDerivedKey C d kid n plaintext metadata = Inr frame"
    using assms(7) n by (auto simp: encrypt_finish_def split: sum.splits if_splits)
  then obtain h where h: "decodeSFrameHeader frame = Inr h" "hdr_kid h = kid" "hdr_counter h = n"
      "decryptWithDerivedKey C d h frame metadata = Inr plaintext"
    using encryptWithDerivedKey_ok [OF assms(1) d(2) assms(2,3) n(2,3), of plaintext metadata] by auto
  obtain w where w: "accept (de_replay entry) n = Inr (True, w)" "window_rel w (insert n A)"
    using accept_ideal [OF assms(11) n(2,3)] assms(12) by auto
  have beg: "decrypt_begin receiver frame = Inr (h, entry)"
    using h assms(8,10,12) canAccept_ideal [OF assms(11) n(2,3)] by (simp add: decrypt_begin_def)
  have finish: "decrypt_finish C receiver h entry frame metadata =
      (Inr plaintext, receiver\<lparr>dc_keys := (dc_keys receiver)(kid \<mapsto> entry\<lparr>de_replay := w\<rparr>)\<rparr>)"
    using h d assms(8,9,10) w by (simp add: decrypt_finish_def)
  have "canAccept w n = Inr False" using canAccept_ideal [OF w(2) n(2,3)] by (simp add: ideal_fresh_def)
  then have "decrypt_begin (receiver\<lparr>dc_keys := (dc_keys receiver)(kid \<mapsto> entry\<lparr>de_replay := w\<rparr>)\<rparr>) frame
      = Inl (SFrameError ''replay_rejected'')"
    using h assms(10) by (simp add: decrypt_begin_def)
  with beg finish w(2) show ?thesis by blast
qed

text \<open>A concrete run: one key under the toy cipher.\<close>

lemma toy_key: "length (replicate 16 7 :: nat list) = SFRAME_BASE_KEY_BYTES" "(300 :: int) \<le> MAX_UINT64"
  by (simp_all add: SFRAME_BASE_KEY_BYTES_def MAX_UINT64_def)

lemma toy_receiver:
  "setKey plain_crypto new_decrypt_context 300 (replicate 16 7) = Inr
     \<lparr>dc_keys = [300 \<mapsto> \<lparr>de_id = 0, de_baseKey = replicate 16 7,
        de_derived = deriveKey plain_crypto (replicate 16 7) 300, de_replay = new_window\<rparr>],
      dc_destroyed = False, dc_next = Suc 0\<rparr>"
  using toy_key by (simp add: setKey_def removeKey_def new_decrypt_context_def assertUint64_def Let_def)

theorem decrypt_context_no_replay_witness:
  "\<exists>ctx. setKey plain_crypto new_decrypt_context 300 (replicate 16 7) = Inr ctx \<and>
     (\<forall>s'. (dec_step plain_crypto)\<^sup>*\<^sup>* (dec_start\<lparr>ds_ctx := decrypt_destroy ctx\<rparr>) s' \<longrightarrow>
        ds_delivered s' = [])"
proof -
  obtain ctx where ctx: "setKey plain_crypto new_decrypt_context 300 (replicate 16 7) = Inr ctx"
    using toy_receiver by blast
  have "dec_step plain_crypto dec_start (dec_start\<lparr>ds_ctx := ctx\<rparr>)"
    by (rule dec_step.install [of _ _ 300 "replicate 16 7"]) (simp add: dec_start_def ctx)
  then have "(dec_step plain_crypto)\<^sup>*\<^sup>* dec_start (dec_start\<lparr>ds_ctx := ctx\<rparr>)" by blast
  from decrypt_context_no_replay [OF this] ctx show ?thesis by (auto simp: dec_start_def)
qed

end
