(* ===== verification/Sframe_Envelope.thy ===== *)
theory Sframe_Envelope
  imports Sframe_Contexts
begin

text \<open>
  \<^verbatim>\<open>webrtc/sframe-media-envelope.ts\<close>: an encrypted media frame keeps the bytes of its codec header
  readable in front of a versioned envelope and the SFrame ciphertext, and authenticates them. The two
  asynchronous functions are split at the \<open>await\<close>, as the contexts they call are.
\<close>

definition ENVELOPE_MAGIC :: bytes where "ENVELOPE_MAGIC = [83, 70, 1]"
definition CODEC_VP8 :: nat where "CODEC_VP8 = 1"
definition CODEC_OPUS :: nat where "CODEC_OPUS = 2"

record media_frame =
  mf_data :: bytes
  mf_type :: "string option"
  mf_mimeType :: string

record codec_layout =
  cl_codecId :: nat
  cl_prefixBytes :: nat

definition char_lower :: "char \<Rightarrow> char" where
  "char_lower c = (if CHR ''A'' \<le> c \<and> c \<le> CHR ''Z'' then char_of (of_char c + 32 :: nat) else c)"

definition codecLayout :: "media_frame \<Rightarrow> codec_layout sframe_result" where
  "codecLayout frame =
     (let mimeType = map char_lower (mf_mimeType frame);
          typed = mf_type frame = Some ''key'' \<or> mf_type frame = Some ''delta''
      in if mimeType = ''video/vp8'' \<or> (mimeType = [] \<and> typed) then
           if \<not> typed then Inl (SFrameError ''media_frame_type'')
           else Inr \<lparr>cl_codecId = CODEC_VP8, cl_prefixBytes = (if mf_type frame = Some ''key'' then 10 else 3)\<rparr>
         else if mimeType = ''audio/opus'' \<or> (mimeType = [] \<and> mf_type frame = None) then
           Inr \<lparr>cl_codecId = CODEC_OPUS, cl_prefixBytes = 1\<rparr>
         else Inl (SFrameError ''media_codec_unsupported''))"

definition envelopeHeader :: "nat \<Rightarrow> bytes" where
  "envelopeHeader codecId = ENVELOPE_MAGIC @ [codecId]"

record split_frame =
  sp_prefix :: bytes
  sp_payload :: bytes
  sp_header :: bytes
  sp_metadata :: bytes

definition splitPrefix :: "bytes \<Rightarrow> codec_layout \<Rightarrow> split_frame sframe_result" where
  "splitPrefix data layout =
     (if length data < cl_prefixBytes layout then Inl (SFrameError ''media_frame_too_short'') else
      let prefix = take (cl_prefixBytes layout) data;
          header = envelopeHeader (cl_codecId layout)
      in Inr \<lparr>sp_prefix = prefix, sp_payload = drop (cl_prefixBytes layout) data, sp_header = header,
              sp_metadata = header @ prefix\<rparr>)"

text \<open>A call of \<open>encryptMediaFrame\<close> that waits: the counter it reserved and the parts of the frame.\<close>

definition encryptMediaFrame_begin ::
  "encrypt_context \<Rightarrow> media_frame \<Rightarrow> (int \<times> split_frame \<times> encrypt_context) sframe_result" where
  "encryptMediaFrame_begin context frame =
     (case codecLayout frame of Inl e \<Rightarrow> Inl e | Inr layout \<Rightarrow>
      case splitPrefix (mf_data frame) layout of Inl e \<Rightarrow> Inl e | Inr parts \<Rightarrow>
      case encrypt_begin context of Inl e \<Rightarrow> Inl e | Inr (n, context') \<Rightarrow> Inr (n, parts, context'))"

definition encryptMediaFrame_finish ::
  "sframe_crypto \<Rightarrow> encrypt_context \<Rightarrow> int \<Rightarrow> split_frame \<Rightarrow> bytes sframe_result" where
  "encryptMediaFrame_finish C context n parts =
     (case encrypt_finish C context n (sp_payload parts) (sp_metadata parts) of Inl e \<Rightarrow> Inl e
      | Inr ciphertext \<Rightarrow> Inr (sp_prefix parts @ sp_header parts @ ciphertext))"

text \<open>A call of \<open>decryptMediaFrame\<close> that waits: the prefix, the SFrame ciphertext, the additional data,
  the decoded header and the key entry looked up.\<close>

record waiting_frame =
  wf_prefix :: bytes
  wf_ciphertext :: bytes
  wf_metadata :: bytes
  wf_header :: sframe_header
  wf_entry :: decrypt_entry

definition decryptMediaFrame_begin :: "decrypt_context \<Rightarrow> media_frame \<Rightarrow> waiting_frame sframe_result" where
  "decryptMediaFrame_begin context frame =
     (case codecLayout frame of Inl e \<Rightarrow> Inl e | Inr layout \<Rightarrow>
      let data = mf_data frame;
          headerOffset = cl_prefixBytes layout;
          ciphertextOffset = headerOffset + length ENVELOPE_MAGIC + 1
      in if length data \<le> ciphertextOffset then Inl (SFrameError ''media_frame_too_short'') else
      let prefix = take headerOffset data;
          header = take (ciphertextOffset - headerOffset) (drop headerOffset data);
          expectedHeader = envelopeHeader (cl_codecId layout)
      in if \<not> list_all2 (=) header expectedHeader then Inl (SFrameError ''media_envelope_version'') else
      let ciphertext = drop ciphertextOffset data
      in case decrypt_begin context ciphertext of Inl e \<Rightarrow> Inl e
      | Inr (h, entry) \<Rightarrow>
        Inr \<lparr>wf_prefix = prefix, wf_ciphertext = ciphertext, wf_metadata = header @ prefix,
             wf_header = h, wf_entry = entry\<rparr>)"

definition decryptMediaFrame_finish ::
  "sframe_crypto \<Rightarrow> decrypt_context \<Rightarrow> waiting_frame \<Rightarrow> bytes sframe_result \<times> decrypt_context" where
  "decryptMediaFrame_finish C context w =
     (case decrypt_finish C context (wf_header w) (wf_entry w) (wf_ciphertext w) (wf_metadata w) of
        (Inl e, context') \<Rightarrow> (Inl e, context')
      | (Inr plaintext, context') \<Rightarrow> (Inr (wf_prefix w @ plaintext), context'))"

lemma codecLayout_data [simp]: "codecLayout (frame\<lparr>mf_data := data\<rparr>) = codecLayout frame"
  by (simp add: codecLayout_def Let_def)

lemma splitPrefix_ok:
  assumes "splitPrefix data layout = Inr parts"
  shows "sp_prefix parts @ sp_payload parts = data" "length (sp_prefix parts) = cl_prefixBytes layout"
    "sp_header parts = envelopeHeader (cl_codecId layout)" "sp_metadata parts = sp_header parts @ sp_prefix parts"
  using assms by (auto simp: splitPrefix_def Let_def split: if_splits)

lemma envelopeHeader_length [simp]: "length (envelopeHeader c) = 4"
  by (simp add: envelopeHeader_def ENVELOPE_MAGIC_def)

lemma ENVELOPE_MAGIC_length [simp]: "length ENVELOPE_MAGIC = 3"
  by (simp add: ENVELOPE_MAGIC_def)

lemma encrypt_finish_nonempty:
  "encrypt_finish C ctx n p m = Inr c \<Longrightarrow> c \<noteq> []"
  by (auto simp: encrypt_finish_def encryptWithDerivedKey_def encodeSFrameHeader_def Let_def
      split: sum.splits if_splits)

lemma media_frame_passes:
  assumes "crypto_ok C" and "0 \<le> kid" and "kid \<le> MAX_UINT64" and "length baseKey = SFRAME_BASE_KEY_BYTES"
    and "new_encrypt_context C kid baseKey n0 = Inr ctx"
    and "encryptMediaFrame_begin ctx frame = Inr (n, parts, ctx')"
    and "encryptMediaFrame_finish C ctx' n parts = Inr outp"
    and "dc_keys receiver kid = Some entry" and "de_derived entry = deriveKey C baseKey kid"
    and "\<not> dc_destroyed receiver" and "window_rel (de_replay entry) A" and "ideal_fresh A n"
  shows "\<exists>layout w receiver' win. codecLayout frame = Inr layout \<and>
    take (cl_prefixBytes layout) outp = take (cl_prefixBytes layout) (mf_data frame) \<and>
    decryptMediaFrame_begin receiver (frame\<lparr>mf_data := outp\<rparr>) = Inr w \<and>
    decryptMediaFrame_finish C receiver w = (Inr (mf_data frame), receiver') \<and>
    receiver' = receiver\<lparr>dc_keys := (dc_keys receiver)(kid \<mapsto> entry\<lparr>de_replay := win\<rparr>)\<rparr> \<and> window_rel win (insert n A)"
proof -
  obtain layout where layout: "codecLayout frame = Inr layout"
    and parts: "splitPrefix (mf_data frame) layout = Inr parts" and beg: "encrypt_begin ctx = Inr (n, ctx')"
    using assms(6) by (auto simp: encryptMediaFrame_begin_def split: sum.splits)
  note p = splitPrefix_ok [OF parts]
  obtain c where c: "encrypt_finish C ctx' n (sp_payload parts) (sp_metadata parts) = Inr c"
    and out: "outp = sp_prefix parts @ sp_header parts @ c"
    using assms(7) by (auto simp: encryptMediaFrame_finish_def split: sum.splits)
  obtain h receiver' win where d: "decrypt_begin receiver c = Inr (h, entry)"
      "decrypt_finish C receiver h entry c (sp_metadata parts) = (Inr (sp_payload parts), receiver')"
      "receiver' = receiver\<lparr>dc_keys := (dc_keys receiver)(kid \<mapsto> entry\<lparr>de_replay := win\<rparr>)\<rparr>" "window_rel win (insert n A)"
    using contexts_deliver_lemma [OF assms(1-5) beg c assms(8-12)] by blast
  have "decryptMediaFrame_begin receiver (frame\<lparr>mf_data := outp\<rparr>) =
      Inr \<lparr>wf_prefix = sp_prefix parts, wf_ciphertext = c, wf_metadata = sp_metadata parts,
           wf_header = h, wf_entry = entry\<rparr>"
    using encrypt_finish_nonempty [OF c] d(1) p
    by (simp add: decryptMediaFrame_begin_def layout out Let_def list.rel_eq)
  moreover have "take (cl_prefixBytes layout) outp = take (cl_prefixBytes layout) (mf_data frame)"
    using p(2) by (simp add: out p(1) [symmetric])
  ultimately show ?thesis
    using layout d(2-4) p(1) by (auto simp: decryptMediaFrame_finish_def)
qed

text \<open>C5. A media frame survives the encrypted path. When a sending context turns the frame into an
  enveloped one, the codec prefix is still in front of it in the clear; a receiver that sees the same
  frame type and codec, holds the base key under that key id and whose window accepts the counter passes
  both steps of \<open>decryptMediaFrame\<close> and gets the original bytes back.\<close>

theorem media_frame_roundtrip:
  assumes "crypto_ok C" and "0 \<le> kid" and "kid \<le> MAX_UINT64" and "length baseKey = SFRAME_BASE_KEY_BYTES"
    and "new_encrypt_context C kid baseKey n0 = Inr ctx"
    and "encryptMediaFrame_begin ctx frame = Inr (n, parts, ctx')"
    and "encryptMediaFrame_finish C ctx' n parts = Inr outp"
    and "dc_keys receiver kid = Some entry" and "de_derived entry = deriveKey C baseKey kid"
    and "\<not> dc_destroyed receiver" and "window_rel (de_replay entry) A" and "ideal_fresh A n"
  shows "\<exists>layout w receiver'. codecLayout frame = Inr layout \<and>
    take (cl_prefixBytes layout) outp = take (cl_prefixBytes layout) (mf_data frame) \<and>
    decryptMediaFrame_begin receiver (frame\<lparr>mf_data := outp\<rparr>) = Inr w \<and>
    decryptMediaFrame_finish C receiver w = (Inr (mf_data frame), receiver')"
  using media_frame_passes [OF assms] by blast

theorem media_frame_roundtrip_witness:
  "\<exists>ctx ctx' parts outp receiver layout w receiver'.
     new_encrypt_context plain_crypto 300 (replicate 16 7) 5 = Inr ctx \<and>
     encryptMediaFrame_begin ctx \<lparr>mf_data = [9, 1, 2], mf_type = None, mf_mimeType = []\<rparr> = Inr (5, parts, ctx') \<and>
     encryptMediaFrame_finish plain_crypto ctx' 5 parts = Inr outp \<and>
     setKey plain_crypto new_decrypt_context 300 (replicate 16 7) = Inr receiver \<and>
     decryptMediaFrame_begin receiver \<lparr>mf_data = outp, mf_type = None, mf_mimeType = []\<rparr> = Inr w \<and>
     decryptMediaFrame_finish plain_crypto receiver w = (Inr [9, 1, 2], receiver')"
proof -
  let ?frame = "\<lparr>mf_data = [9, 1, 2], mf_type = None, mf_mimeType = []\<rparr>"
  let ?ctx = "\<lparr>ec_kid = 300, ec_key = replicate 16 7, ec_derived = deriveKey plain_crypto (replicate 16 7) 300,
    ec_counter = 5, ec_destroyed = False\<rparr>"
  let ?ctx' = "?ctx\<lparr>ec_counter := 6\<rparr>"
  let ?entry = "\<lparr>de_id = 0, de_baseKey = replicate 16 7,
    de_derived = deriveKey plain_crypto (replicate 16 7) 300, de_replay = new_window\<rparr>"
  let ?receiver = "\<lparr>dc_keys = [300 \<mapsto> ?entry], dc_destroyed = False, dc_next = Suc 0\<rparr>"
  have r: "0 \<le> (300 :: int)" "0 \<le> (5 :: int)" "5 \<le> MAX_UINT64" by (simp_all add: MAX_UINT64_def)
  have ctx: "new_encrypt_context plain_crypto 300 (replicate 16 7) 5 = Inr ?ctx"
    using toy_key r by (simp add: new_encrypt_context_def assertUint64_def)
  obtain parts where parts: "encryptMediaFrame_begin ?ctx ?frame = Inr (5, parts, ?ctx')"
    using r by (auto simp: encryptMediaFrame_begin_def encrypt_begin_def codecLayout_def splitPrefix_def Let_def)
  obtain d where d: "deriveKey plain_crypto (replicate 16 7) 300 = Inr d" "length (dk_salt d) = 12"
    using deriveKey_ok [OF plain_crypto_ok toy_key(1) r(1) toy_key(2)] by blast
  obtain c where "encryptWithDerivedKey plain_crypto d 300 5 (sp_payload parts) (sp_metadata parts) = Inr c"
    using encryptWithDerivedKey_ok [OF plain_crypto_ok d(2) r(1) toy_key(2) r(2,3)] by blast
  with d obtain outp where fin: "encryptMediaFrame_finish plain_crypto ?ctx' 5 parts = Inr outp"
    by (auto simp: encryptMediaFrame_finish_def encrypt_finish_def)
  have "\<exists>layout w receiver'. codecLayout ?frame = Inr layout \<and>
      take (cl_prefixBytes layout) outp = take (cl_prefixBytes layout) (mf_data ?frame) \<and>
      decryptMediaFrame_begin ?receiver (?frame\<lparr>mf_data := outp\<rparr>) = Inr w \<and>
      decryptMediaFrame_finish plain_crypto ?receiver w = (Inr (mf_data ?frame), receiver')"
    by (rule media_frame_roundtrip [OF plain_crypto_ok r(1) toy_key(2) toy_key(1) ctx parts fin, where A = "{}" and entry = ?entry])
      (simp_all add: ideal_fresh_def)
  then obtain w receiver' where "decryptMediaFrame_begin ?receiver (?frame\<lparr>mf_data := outp\<rparr>) = Inr w"
      "decryptMediaFrame_finish plain_crypto ?receiver w = (Inr [9, 1, 2], receiver')" by auto
  then show ?thesis
    using ctx parts fin toy_receiver unfolding media_frame.simps by blast
qed

subsection \<open>Streams of frames\<close>

text \<open>The frames a context encrypts one after the other, and those a receiver decrypts in the order they arrive in.\<close>

fun seal_frames :: "sframe_crypto \<Rightarrow> encrypt_context \<Rightarrow> media_frame list \<Rightarrow> (bytes list \<times> encrypt_context) option" where
  "seal_frames C ctx [] = Some ([], ctx)"
| "seal_frames C ctx (frame # frames) =
     (case encryptMediaFrame_begin ctx frame of Inl e \<Rightarrow> None
      | Inr (n, parts, ctx') \<Rightarrow>
        (case encryptMediaFrame_finish C ctx' n parts of Inl e \<Rightarrow> None
         | Inr outp \<Rightarrow> map_option (\<lambda>(outps, ctx''). (outp # outps, ctx'')) (seal_frames C ctx' frames)))"

fun open_frames :: "sframe_crypto \<Rightarrow> decrypt_context \<Rightarrow> media_frame list \<Rightarrow> (bytes list \<times> decrypt_context) option" where
  "open_frames C receiver [] = Some ([], receiver)"
| "open_frames C receiver (frame # frames) =
     (case decryptMediaFrame_begin receiver frame of Inl e \<Rightarrow> None
      | Inr w \<Rightarrow>
        (case decryptMediaFrame_finish C receiver w of (Inl e, receiver') \<Rightarrow> None
         | (Inr plain, receiver') \<Rightarrow> map_option (\<lambda>(plains, receiver''). (plain # plains, receiver'')) (open_frames C receiver' frames)))"

text \<open>A frame of a supported codec that has its prefix.\<close>

definition encryptable :: "media_frame \<Rightarrow> bool" where
  "encryptable frame = (case codecLayout frame of Inl e \<Rightarrow> False | Inr layout \<Rightarrow> cl_prefixBytes layout \<le> length (mf_data frame))"

lemma seal_frames_total:
  assumes "crypto_ok C" "0 \<le> ec_kid ctx" "ec_kid ctx \<le> MAX_UINT64" "\<not> ec_destroyed ctx" "ec_derived ctx = Inr d" "length (dk_salt d) = 12"
    and "list_all encryptable frames" "0 \<le> ec_counter ctx" "ec_counter ctx + int (length frames) \<le> MAX_UINT64 + 1"
  shows "\<exists>outps ctx'. seal_frames C ctx frames = Some (outps, ctx')"
  using assms(2-)
proof (induction frames arbitrary: ctx)
  case (Cons frame frames)
  from Cons.prems obtain layout where layout: "codecLayout frame = Inr layout" "cl_prefixBytes layout \<le> length (mf_data frame)"
    by (auto simp: encryptable_def split: sum.splits)
  then obtain parts where "splitPrefix (mf_data frame) layout = Inr parts" by (auto simp: splitPrefix_def Let_def)
  then have beg: "encryptMediaFrame_begin ctx frame = Inr (ec_counter ctx, parts, ctx\<lparr>ec_counter := ec_counter ctx + 1\<rparr>)"
    using Cons.prems layout(1) by (simp add: encryptMediaFrame_begin_def encrypt_begin_def Let_def)
  have "ec_counter ctx \<le> MAX_UINT64" using Cons.prems by simp
  then obtain c where "encryptWithDerivedKey C d (ec_kid ctx) (ec_counter ctx) (sp_payload parts) (sp_metadata parts) = Inr c"
    using encryptWithDerivedKey_ok [OF assms(1) Cons.prems(5,1,2,7)] by blast
  then have "\<exists>outp. encryptMediaFrame_finish C (ctx\<lparr>ec_counter := ec_counter ctx + 1\<rparr>) (ec_counter ctx) parts = Inr outp"
    using Cons.prems by (simp add: encryptMediaFrame_finish_def encrypt_finish_def)
  moreover obtain outps ctx' where "seal_frames C (ctx\<lparr>ec_counter := ec_counter ctx + 1\<rparr>) frames = Some (outps, ctx')"
    using Cons.IH [of "ctx\<lparr>ec_counter := ec_counter ctx + 1\<rparr>"] Cons.prems by auto
  ultimately show ?case using beg by auto
qed simp

text \<open>The frames number \<open>order\<close> of \<open>n\<close> sent ones arrive: some are lost, none is repeated, and none is overtaken by one
  that was sent as much as a replay window later.\<close>

definition arrival :: "nat \<Rightarrow> nat list \<Rightarrow> bool" where
  "arrival n order \<longleftrightarrow> distinct order \<and> list_all (\<lambda>i. i < n) order \<and> sorted_wrt (\<lambda>i j. int i - int j < SFRAME_REPLAY_WINDOW) order"

lemma encrypt_media_begin:
  "encryptMediaFrame_begin ctx frame = Inr (n, parts, ctx') \<Longrightarrow>
     n = ec_counter ctx \<and> ctx' = ctx\<lparr>ec_counter := ec_counter ctx + 1\<rparr> \<and> ec_counter ctx \<le> MAX_UINT64"
  by (auto simp: encryptMediaFrame_begin_def encrypt_begin_def Let_def split: sum.splits prod.splits if_splits)

lemma seal_frames_nth:
  assumes "seal_frames C (ctx\<lparr>ec_counter := n\<rparr>) frames = Some (outps, ctx')"
  shows "length outps = length frames \<and> (\<forall>i < length frames. n + int i \<le> MAX_UINT64 \<and>
    (\<exists>parts. encryptMediaFrame_begin (ctx\<lparr>ec_counter := n + int i\<rparr>) (frames ! i) = Inr (n + int i, parts, ctx\<lparr>ec_counter := n + int i + 1\<rparr>)
       \<and> encryptMediaFrame_finish C (ctx\<lparr>ec_counter := n + int i + 1\<rparr>) (n + int i) parts = Inr (outps ! i)))"
  using assms
proof (induction frames arbitrary: n outps)
  case (Cons frame frames)
  from Cons.prems obtain parts outp rest where
    beg: "encryptMediaFrame_begin (ctx\<lparr>ec_counter := n\<rparr>) frame = Inr (n, parts, ctx\<lparr>ec_counter := n + 1\<rparr>)" "n \<le> MAX_UINT64"
    and fin: "encryptMediaFrame_finish C (ctx\<lparr>ec_counter := n + 1\<rparr>) n parts = Inr outp"
    and rest: "seal_frames C (ctx\<lparr>ec_counter := n + 1\<rparr>) frames = Some (rest, ctx')" "outps = outp # rest"
    by (auto split: sum.splits prod.splits dest: encrypt_media_begin)
  note IH = Cons.IH [OF rest(1)]
  show ?case
  proof (intro conjI allI impI)
    show "length outps = length (frame # frames)" using IH rest(2) by simp
  next
    fix i assume "i < length (frame # frames)"
    then show "n + int i \<le> MAX_UINT64" using IH beg(2) by (cases i) (auto simp: add_ac)
  next
    fix i assume i: "i < length (frame # frames)"
    show "\<exists>parts. encryptMediaFrame_begin (ctx\<lparr>ec_counter := n + int i\<rparr>) ((frame # frames) ! i) = Inr (n + int i, parts, ctx\<lparr>ec_counter := n + int i + 1\<rparr>)
       \<and> encryptMediaFrame_finish C (ctx\<lparr>ec_counter := n + int i + 1\<rparr>) (n + int i) parts = Inr (outps ! i)"
    proof (cases i)
      case (Suc j)
      then show ?thesis using IH i rest(2) by (auto simp: algebra_simps)
    qed (use beg fin rest(2) in auto)
  qed
qed simp

lemma frames_arrive:
  assumes key: "crypto_ok C" "0 \<le> kid" "kid \<le> MAX_UINT64" "length baseKey = SFRAME_BASE_KEY_BYTES" "new_encrypt_context C kid baseKey 0 = Inr ctx"
    and sealed: "seal_frames C ctx frames = Some (outps, ctx')"
    and order: "arrival (length frames) order"
    and entry: "dc_keys receiver kid = Some entry" "de_derived entry = deriveKey C baseKey kid" "\<not> dc_destroyed receiver"
    and window: "window_rel (de_replay entry) A" "\<forall>i \<in> set order. ideal_fresh A (int i)"
  shows "\<exists>receiver'. open_frames C receiver (map (\<lambda>i. (frames ! i)\<lparr>mf_data := outps ! i\<rparr>) order) = Some (map (\<lambda>i. mf_data (frames ! i)) order, receiver')"
  using order entry window
proof (induction order arbitrary: receiver entry A)
  case (Cons i order)
  have zero: "ctx\<lparr>ec_counter := 0\<rparr> = ctx" using key(5) by (auto simp: new_encrypt_context_def split: sum.splits if_splits)
  have i: "i < length frames" using Cons.prems(1) by (simp add: arrival_def)
  then obtain parts where n: "int i \<le> MAX_UINT64"
    and beg: "encryptMediaFrame_begin (ctx\<lparr>ec_counter := int i\<rparr>) (frames ! i) = Inr (int i, parts, ctx\<lparr>ec_counter := int i + 1\<rparr>)"
    and fin: "encryptMediaFrame_finish C (ctx\<lparr>ec_counter := int i + 1\<rparr>) (int i) parts = Inr (outps ! i)"
    using seal_frames_nth [where C = C and ctx = ctx and n = 0 and frames = frames] sealed by (auto simp: zero)
  have new: "new_encrypt_context C kid baseKey (int i) = Inr (ctx\<lparr>ec_counter := int i\<rparr>)"
    using key(5) n by (auto simp: new_encrypt_context_def assertUint64_def split: if_splits)
  obtain w win where w: "decryptMediaFrame_begin receiver ((frames ! i)\<lparr>mf_data := outps ! i\<rparr>) = Inr w"
      "decryptMediaFrame_finish C receiver w = (Inr (mf_data (frames ! i)), receiver\<lparr>dc_keys := (dc_keys receiver)(kid \<mapsto> entry\<lparr>de_replay := win\<rparr>)\<rparr>)"
      "window_rel win (insert (int i) A)"
    using media_frame_passes [OF key(1-4) new beg fin Cons.prems(2-5)] Cons.prems(6) by auto
  have "\<forall>j \<in> set order. ideal_fresh (insert (int i) A) (int j)"
    using Cons.prems(1,6) by (auto simp: arrival_def ideal_fresh_def)
  then have "\<exists>receiver'. open_frames C (receiver\<lparr>dc_keys := (dc_keys receiver)(kid \<mapsto> entry\<lparr>de_replay := win\<rparr>)\<rparr>)
      (map (\<lambda>i. (frames ! i)\<lparr>mf_data := outps ! i\<rparr>) order) = Some (map (\<lambda>i. mf_data (frames ! i)) order, receiver')"
    using Cons.prems(1,3,4) w(3) by (intro Cons.IH [where entry = "entry\<lparr>de_replay := win\<rparr>" and A = "insert (int i) A"]) (simp_all add: arrival_def)
  then show ?case using w(1,2) by auto
qed simp

end
