(* ===== verification/Js_Collections.thy ===== *)
theory Js_Collections
  imports Js_Number "HOL-Library.AList"
begin

text \<open>
  The two keyed collections of the language, with their insertion order: a \<open>Map\<close> is an association
  list (\<open>AList.update\<close> overwrites in place or appends, \<open>AList.delete\<close> removes), a \<open>Set\<close> is a
  list without repetitions.
\<close>

definition set_add :: "'a \<Rightarrow> 'a list \<Rightarrow> 'a list" where
  "set_add x xs = (if x \<in> set xs then xs else xs @ [x])"

abbreviation map_set :: "'k \<Rightarrow> 'v \<Rightarrow> ('k \<times> 'v) list \<Rightarrow> ('k \<times> 'v) list" where
  "map_set \<equiv> AList.update"

abbreviation map_delete :: "'k \<Rightarrow> ('k \<times> 'v) list \<Rightarrow> ('k \<times> 'v) list" where
  "map_delete \<equiv> AList.delete"

abbreviation map_keys :: "('k \<times> 'v) list \<Rightarrow> 'k list" where
  "map_keys \<equiv> map fst"

lemma set_set_add [simp]: "set (set_add x xs) = insert x (set xs)"
  by (auto simp: set_add_def)

lemma distinct_set_add [simp]: "distinct (set_add x xs) \<longleftrightarrow> distinct xs"
  by (auto simp: set_add_def)

lemma length_set_add: "length (set_add x xs) = (if x \<in> set xs then length xs else Suc (length xs))"
  by (simp add: set_add_def)

lemma map_of_map_set [simp]: "map_of (map_set k v m) = (map_of m)(k \<mapsto> v)"
  by (rule update_conv')

lemma map_of_map_delete [simp]: "map_of (map_delete k m) = (map_of m)(k := None)"
  by (rule delete_conv')

lemma map_keys_map_set [simp]: "map_keys (map_set k v m) = (if k \<in> set (map_keys m) then map_keys m else map_keys m @ [k])"
  by (induction m) auto

lemma map_set_new: "k \<notin> set (map_keys m) \<Longrightarrow> map_set k v m = m @ [(k, v)]"
  by (induction m) auto

lemma length_map_set: "length (map_set k v m) = (if k \<in> set (map_keys m) then length m else Suc (length m))"
  by (induction m) auto

lemma distinct_map_set [simp]: "distinct (map_keys m) \<Longrightarrow> distinct (map_keys (map_set k v m))"
  by simp

lemma map_delete_filter: "map_delete k m = filter (\<lambda>kv. fst kv \<noteq> k) m"
  by (induction m) auto

lemma map_keys_map_delete [simp]: "map_keys (map_delete k m) = filter (\<lambda>x. x \<noteq> k) (map_keys m)"
  by (induction m) auto

lemma length_map_delete: "length (map_delete k m) \<le> length m"
  by (simp add: map_delete_filter)

lemma length_map_delete_less: "k \<in> set (map_keys m) \<Longrightarrow> length (map_delete k m) < length m"
proof -
  assume "k \<in> set (map_keys m)"
  then obtain v where "(k, v) \<in> set m" by auto
  then show ?thesis
    unfolding map_delete_filter by (intro length_filter_less [of "(k, v)"]) auto
qed

lemma map_of_None_keys: "map_of m k = None \<longleftrightarrow> k \<notin> set (map_keys m)"
  by (simp add: map_of_eq_None_iff)

end
