(* ===== verification/Sframe_Worker.thy ===== *)
theory Sframe_Worker
  imports Sframe_Envelope Js_Collections
begin

text \<open>
  \<^verbatim>\<open>webrtc/sframe.worker.ts\<close>: the worker that owns the SFrame contexts of a page. Its module variables
  are the record \<open>sframe_worker\<close>. Contexts are objects shared between the maps and the frames being
  transformed, so they live in stores (\<open>wk_encs\<close>, \<open>wk_decs\<close>) and are named by their index. The
  \<open>message\<close> handler is synchronous; \<open>transform\<close> is split at its \<open>await\<close> into \<open>frame_begin\<close> and \<open>frame_finish\<close>.
\<close>

datatype direction = Encrypt | Decrypt

fun direction_str :: "direction \<Rightarrow> string" where
  "direction_str Encrypt = ''encrypt''"
| "direction_str Decrypt = ''decrypt''"

fun read_direction :: "string \<Rightarrow> direction option" where
  "read_direction s = (if s = ''encrypt'' then Some Encrypt else if s = ''decrypt'' then Some Decrypt else None)"

record media_transform =
  mt_contextId :: string
  mt_direction :: direction
  mt_halted :: bool

text \<open>A frame that waits for its context: an error already raised, or the store index and the parts.\<close>

datatype pending_frame =
  Pend_Error sframe_error
| Pend_Encrypt nat int split_frame
| Pend_Decrypt nat waiting_frame

record sframe_worker =
  wk_encs :: "encrypt_context list"
  wk_decs :: "decrypt_context list"
  wk_encryptors :: "(string \<times> nat) list"
  wk_decryptors :: "(string \<times> nat) list"
  wk_decryptorKeyIds :: "(string \<times> string list) list"
  wk_seenKeyIds :: "(string \<times> string list) list"
  wk_reported :: "string list"
  wk_failed :: "string list"
  wk_posted :: "(string \<times> direction \<times> string) list"
  wk_transforms :: "media_transform list"
  wk_pending :: "(nat \<times> pending_frame) list"
  wk_enqueued :: "(string \<times> bytes) list"

definition new_worker :: sframe_worker where
  "new_worker = \<lparr>wk_encs = [], wk_decs = [], wk_encryptors = [], wk_decryptors = [], wk_decryptorKeyIds = [],
     wk_seenKeyIds = [], wk_reported = [], wk_failed = [], wk_posted = [], wk_transforms = [],
     wk_pending = [], wk_enqueued = []\<rparr>"

definition MAX_CONTEXT_KEYS :: nat where "MAX_CONTEXT_KEYS = 512"

definition context_char :: "char \<Rightarrow> bool" where
  "context_char c = (c \<in> set ''ABCDEFGHIJKLMNOPQRSTUVWXYZabcdefghijklmnopqrstuvwxyz0123456789:_={}-'')"

definition CONTEXT_ID :: "string \<Rightarrow> bool" where "CONTEXT_ID = matches context_char 1 196"
definition KEY_ID :: "string \<Rightarrow> bool" where "KEY_ID = matches lower_hex 16 16"

definition TRANSFORM_FAILURES :: "string list" where
  "TRANSFORM_FAILURES = [''media_frame_type'', ''media_codec_unsupported'', ''media_frame_too_short'',
     ''media_envelope_version'', ''media_key_budget_exhausted'']"

definition reportTransformFailure ::
  "sframe_worker \<Rightarrow> string \<Rightarrow> direction \<Rightarrow> string \<Rightarrow> bool \<times> sframe_worker" where
  "reportTransformFailure w contextId direction code =
     (if code \<notin> set TRANSFORM_FAILURES then (False, w) else
      let key = contextId @ [CHR 0x00] @ direction_str direction @ [CHR 0x00] @ code in
      if key \<in> set (wk_reported w) then (True, w)
      else (True, w\<lparr>wk_reported := set_add key (wk_reported w),
                   wk_posted := wk_posted w @ [(contextId, direction, code)]\<rparr>))"

subsection \<open>Contexts\<close>

definition destroy_encryptor :: "sframe_worker \<Rightarrow> string \<Rightarrow> sframe_worker" where
  "destroy_encryptor w contextId =
     (case map_of (wk_encryptors w) contextId of None \<Rightarrow> w
      | Some r \<Rightarrow> w\<lparr>wk_encs := (wk_encs w)[r := encrypt_destroy (wk_encs w ! r)]\<rparr>)"

definition destroy_decryptor :: "sframe_worker \<Rightarrow> string \<Rightarrow> sframe_worker" where
  "destroy_decryptor w contextId =
     (case map_of (wk_decryptors w) contextId of None \<Rightarrow> w
      | Some r \<Rightarrow> w\<lparr>wk_decs := (wk_decs w)[r := decrypt_destroy (wk_decs w ! r)]\<rparr>)"

definition historyId :: "direction \<Rightarrow> string \<Rightarrow> string" where
  "historyId direction contextId = direction_str direction @ '':'' @ contextId"

definition starts_with :: "string \<Rightarrow> string \<Rightarrow> bool" where
  "starts_with s p = (take (length p) s = p)"

definition drop_contexts :: "sframe_worker \<Rightarrow> string \<Rightarrow> sframe_worker" where
  "drop_contexts w contextId =
     (let w1 = destroy_decryptor (destroy_encryptor w contextId) contextId
      in w1\<lparr>wk_encryptors := map_delete contextId (wk_encryptors w1),
            wk_decryptors := map_delete contextId (wk_decryptors w1),
            wk_decryptorKeyIds := map_delete contextId (wk_decryptorKeyIds w1)\<rparr>)"

definition destroyContext :: "sframe_worker \<Rightarrow> string \<Rightarrow> bool \<Rightarrow> sframe_worker" where
  "destroyContext w contextId resetFailure =
     (let w1 = drop_contexts w contextId;
          w2 = w1\<lparr>wk_seenKeyIds := map_delete (historyId Decrypt contextId)
                     (map_delete (historyId Encrypt contextId) (wk_seenKeyIds w1))\<rparr>
      in if resetFailure
         then w2\<lparr>wk_failed := filter (\<lambda>c. c \<noteq> contextId) (wk_failed w2),
                wk_reported := filter (\<lambda>k. \<not> starts_with k (contextId @ [CHR 0x00])) (wk_reported w2)\<rparr>
         else w2)"

definition clearAll :: "sframe_worker \<Rightarrow> sframe_worker" where
  "clearAll w =
     (let w1 = fold (\<lambda>c w. destroy_encryptor w c) (map_keys (wk_encryptors w)) w;
          w2 = fold (\<lambda>c w. destroy_decryptor w c) (map_keys (wk_decryptors w1)) w1
      in w2\<lparr>wk_encryptors := [], wk_decryptors := [], wk_decryptorKeyIds := [], wk_seenKeyIds := [],
            wk_reported := [], wk_failed := []\<rparr>)"

subsection \<open>Messages\<close>

record worker_command =
  cmd_version :: int
  cmd_type :: string
  cmd_direction :: "string option"
  cmd_contextId :: "string option"
  cmd_keyId :: "string option"
  cmd_baseKey :: "bytes option"

definition key_number :: "string \<Rightarrow> int" where
  "key_number keyId = (case radix_value 16 0 keyId of None \<Rightarrow> 0 | Some n \<Rightarrow> int n)"

fun retire_keys :: "decrypt_context \<Rightarrow> string list \<Rightarrow> decrypt_context \<times> string list" where
  "retire_keys context [] = (context, [])"
| "retire_keys context (oldest # keyIds) =
     (if length (oldest # keyIds) > 8 then retire_keys (removeKey context (key_number oldest)) keyIds
      else (context, oldest # keyIds))"

definition install_encryptor :: "sframe_crypto \<Rightarrow> sframe_worker \<Rightarrow> string \<Rightarrow> string \<Rightarrow> bytes \<Rightarrow> sframe_worker" where
  "install_encryptor C w contextId keyId key =
     (let w1 = destroy_encryptor w contextId in
      case new_encrypt_context C (key_number keyId) key 0 of Inl _ \<Rightarrow> w1
      | Inr context \<Rightarrow>
        w1\<lparr>wk_encs := wk_encs w1 @ [context],
           wk_encryptors := map_set contextId (length (wk_encs w1)) (wk_encryptors w1)\<rparr>)"

definition open_decryptor :: "sframe_worker \<Rightarrow> string \<Rightarrow> sframe_worker \<times> nat \<times> string list" where
  "open_decryptor w contextId =
     (case (map_of (wk_decryptors w) contextId, map_of (wk_decryptorKeyIds w) contextId) of
        (Some r, Some keyIds) \<Rightarrow> (w, r, keyIds)
      | _ \<Rightarrow> (w\<lparr>wk_decs := wk_decs w @ [new_decrypt_context],
               wk_decryptors := map_set contextId (length (wk_decs w)) (wk_decryptors w),
               wk_decryptorKeyIds := map_set contextId [] (wk_decryptorKeyIds w)\<rparr>,
             length (wk_decs w), []))"

definition install_decryptor :: "sframe_crypto \<Rightarrow> sframe_worker \<Rightarrow> string \<Rightarrow> string \<Rightarrow> bytes \<Rightarrow> sframe_worker" where
  "install_decryptor C w contextId keyId key =
     (case open_decryptor w contextId of (w1, r, keyIds) \<Rightarrow>
      if keyId \<in> set keyIds then w1 else
      case setKey C (wk_decs w1 ! r) (key_number keyId) key of Inl _ \<Rightarrow> w1
      | Inr context \<Rightarrow>
        (case retire_keys context (set_add keyId keyIds) of (context', keyIds') \<Rightarrow>
           w1\<lparr>wk_decs := (wk_decs w1)[r := context'],
              wk_decryptorKeyIds := map_set contextId keyIds' (wk_decryptorKeyIds w1)\<rparr>))"

definition seen_keys :: "sframe_worker \<Rightarrow> direction \<Rightarrow> string \<Rightarrow> string list" where
  "seen_keys w direction contextId =
     (case map_of (wk_seenKeyIds w) (historyId direction contextId) of None \<Rightarrow> [] | Some s \<Rightarrow> s)"

definition set_key :: "sframe_crypto \<Rightarrow> sframe_worker \<Rightarrow> direction \<Rightarrow> string \<Rightarrow> string \<Rightarrow> bytes \<Rightarrow> sframe_worker" where
  "set_key C w direction contextId keyId key =
     (if contextId \<in> set (wk_failed w) then w else
      let seen = seen_keys w direction contextId;
          w1 = w\<lparr>wk_seenKeyIds := map_set (historyId direction contextId) seen (wk_seenKeyIds w)\<rparr>
      in if keyId \<in> set seen then w1
         else if length seen \<ge> MAX_CONTEXT_KEYS then
           snd (reportTransformFailure (drop_contexts w1 contextId) contextId direction ''media_key_budget_exhausted'')
         else
           let w2 = w1\<lparr>wk_seenKeyIds := map_set (historyId direction contextId) (set_add keyId seen) (wk_seenKeyIds w1)\<rparr>
           in case direction of
                Encrypt \<Rightarrow> install_encryptor C w2 contextId keyId key
              | Decrypt \<Rightarrow> install_decryptor C w2 contextId keyId key)"

definition worker_message :: "sframe_crypto \<Rightarrow> sframe_worker \<Rightarrow> worker_command \<Rightarrow> sframe_worker" where
  "worker_message C w cmd =
     (if cmd_version cmd \<noteq> 1 then w
      else if cmd_type cmd = ''clear-all'' then clearAll w
      else case cmd_contextId cmd of None \<Rightarrow> w | Some contextId \<Rightarrow>
      if \<not> CONTEXT_ID contextId then w
      else if cmd_type cmd = ''clear-context'' then destroyContext w contextId True
      else if cmd_type cmd \<noteq> ''set-key'' then w
      else case (cmd_direction cmd, cmd_keyId cmd, cmd_baseKey cmd) of
        (Some d, Some keyId, Some key) \<Rightarrow>
          (case read_direction d of None \<Rightarrow> w | Some direction \<Rightarrow>
           if \<not> KEY_ID keyId \<or> length key \<noteq> 16 then w
           else set_key C w direction contextId keyId key)
      | _ \<Rightarrow> w)"

subsection \<open>Transforms\<close>

definition SFRAME_MEDIA_ENVELOPE :: string where "SFRAME_MEDIA_ENVELOPE = ''codec-prefix-v1''"

definition rtctransform :: "sframe_worker \<Rightarrow> (string \<times> jsval) list \<Rightarrow> sframe_worker" where
  "rtctransform w options =
     (let contextId = string_or_empty (js_get options ''contextId'') in
      if js_get options ''version'' \<noteq> JInt 1 \<or> js_get options ''frameEnvelope'' \<noteq> JStr SFRAME_MEDIA_ENVELOPE
         \<or> \<not> CONTEXT_ID contextId then w
      else case js_string (js_get options ''direction'') of None \<Rightarrow> w | Some d \<Rightarrow>
      case read_direction d of None \<Rightarrow> w | Some direction \<Rightarrow>
      w\<lparr>wk_transforms := wk_transforms w @
          [\<lparr>mt_contextId = contextId, mt_direction = direction, mt_halted = False\<rparr>]\<rparr>)"

definition halt :: "sframe_worker \<Rightarrow> nat \<Rightarrow> sframe_worker" where
  "halt w i = w\<lparr>wk_transforms := (wk_transforms w)[i := (wk_transforms w ! i)\<lparr>mt_halted := True\<rparr>]\<rparr>"

definition frame_failed :: "sframe_worker \<Rightarrow> nat \<Rightarrow> sframe_error \<Rightarrow> sframe_worker" where
  "frame_failed w i e =
     (case e of SFrameError code \<Rightarrow>
      let t = wk_transforms w ! i in
      case reportTransformFailure w (mt_contextId t) (mt_direction t) code of
        (False, w1) \<Rightarrow> w1
      | (True, w1) \<Rightarrow>
        let w2 = destroyContext (halt w1 i) (mt_contextId t) False
        in w2\<lparr>wk_failed := set_add (mt_contextId t) (wk_failed w2)\<rparr>)"

definition frame_begin :: "sframe_worker \<Rightarrow> nat \<Rightarrow> media_frame \<Rightarrow> sframe_worker" where
  "frame_begin w i frame =
     (let t = wk_transforms w ! i in
      if mt_halted t \<or> mt_contextId t \<in> set (wk_failed w) then halt w i
      else if mf_data frame = [] then w
      else case mt_direction t of
        Encrypt \<Rightarrow>
          (case map_of (wk_encryptors w) (mt_contextId t) of None \<Rightarrow> w
           | Some r \<Rightarrow>
             (case encryptMediaFrame_begin (wk_encs w ! r) frame of
                Inl e \<Rightarrow> w\<lparr>wk_pending := wk_pending w @ [(i, Pend_Error e)]\<rparr>
              | Inr (n, parts, context) \<Rightarrow>
                w\<lparr>wk_encs := (wk_encs w)[r := context],
                  wk_pending := wk_pending w @ [(i, Pend_Encrypt r n parts)]\<rparr>))
      | Decrypt \<Rightarrow>
          (case map_of (wk_decryptors w) (mt_contextId t) of None \<Rightarrow> w
           | Some r \<Rightarrow>
             (case decryptMediaFrame_begin (wk_decs w ! r) frame of
                Inl e \<Rightarrow> w\<lparr>wk_pending := wk_pending w @ [(i, Pend_Error e)]\<rparr>
              | Inr waiting \<Rightarrow> w\<lparr>wk_pending := wk_pending w @ [(i, Pend_Decrypt r waiting)]\<rparr>)))"

definition enqueue_frame :: "sframe_worker \<Rightarrow> nat \<Rightarrow> bytes \<Rightarrow> sframe_worker" where
  "enqueue_frame w i outp =
     w\<lparr>wk_enqueued := wk_enqueued w @ [(mt_contextId (wk_transforms w ! i), outp)]\<rparr>"

definition frame_finish :: "sframe_crypto \<Rightarrow> sframe_worker \<Rightarrow> nat \<Rightarrow> pending_frame \<Rightarrow> sframe_worker" where
  "frame_finish C w i p =
     (case p of
        Pend_Error e \<Rightarrow> frame_failed w i e
      | Pend_Encrypt r n parts \<Rightarrow>
          (case encryptMediaFrame_finish C (wk_encs w ! r) n parts of
             Inl e \<Rightarrow> frame_failed w i e | Inr outp \<Rightarrow> enqueue_frame w i outp)
      | Pend_Decrypt r waiting \<Rightarrow>
          (case decryptMediaFrame_finish C (wk_decs w ! r) waiting of
             (Inl e, context) \<Rightarrow> frame_failed (w\<lparr>wk_decs := (wk_decs w)[r := context]\<rparr>) i e
           | (Inr outp, context) \<Rightarrow> enqueue_frame (w\<lparr>wk_decs := (wk_decs w)[r := context]\<rparr>) i outp))"

text \<open>Everything that can happen to the worker.\<close>

datatype worker_event =
  Wk_Message worker_command
| Wk_Transform "(string \<times> jsval) list"
| Wk_Frame nat media_frame
| Wk_Resume nat

fun worker_step :: "sframe_crypto \<Rightarrow> sframe_worker \<Rightarrow> worker_event \<Rightarrow> sframe_worker" where
  "worker_step C w (Wk_Message cmd) = worker_message C w cmd"
| "worker_step C w (Wk_Transform options) = rtctransform w options"
| "worker_step C w (Wk_Frame i frame) = (if i < length (wk_transforms w) then frame_begin w i frame else w)"
| "worker_step C w (Wk_Resume j) =
     (if j < length (wk_pending w) then
        (case wk_pending w ! j of (i, p) \<Rightarrow> frame_finish C (w\<lparr>wk_pending := drop_nth j (wk_pending w)\<rparr>) i p)
      else w)"

abbreviation worker_run :: "sframe_crypto \<Rightarrow> sframe_worker \<Rightarrow> worker_event list \<Rightarrow> sframe_worker" where
  "worker_run C \<equiv> foldl (worker_step C)"

end
