(* ===== verification/Sframe_Fence.thy ===== *)
theory Sframe_Fence
  imports Sframe_Worker
begin

text \<open>
  The guarantees of the SFrame worker over every sequence of events: a key id is installed at most once
  per context and direction until the context is torn down, so that neither a sending counter nor a
  replay window is ever reset; a context whose transform failed emits nothing until it is torn down; and
  the key material it keeps is bounded.
\<close>

subsection \<open>What the operations leave alone\<close>

lemma destroy_encryptor_fields [simp]:
  "wk_decs (destroy_encryptor w c) = wk_decs w" "wk_encryptors (destroy_encryptor w c) = wk_encryptors w"
  "wk_decryptors (destroy_encryptor w c) = wk_decryptors w"
  "wk_decryptorKeyIds (destroy_encryptor w c) = wk_decryptorKeyIds w"
  "wk_seenKeyIds (destroy_encryptor w c) = wk_seenKeyIds w" "wk_failed (destroy_encryptor w c) = wk_failed w"
  "wk_transforms (destroy_encryptor w c) = wk_transforms w" "wk_pending (destroy_encryptor w c) = wk_pending w"
  "wk_enqueued (destroy_encryptor w c) = wk_enqueued w"
  "length (wk_encs (destroy_encryptor w c)) = length (wk_encs w)"
  by (simp_all add: destroy_encryptor_def split: option.split)

lemma destroy_decryptor_fields [simp]:
  "wk_encs (destroy_decryptor w c) = wk_encs w" "wk_encryptors (destroy_decryptor w c) = wk_encryptors w"
  "wk_decryptors (destroy_decryptor w c) = wk_decryptors w"
  "wk_decryptorKeyIds (destroy_decryptor w c) = wk_decryptorKeyIds w"
  "wk_seenKeyIds (destroy_decryptor w c) = wk_seenKeyIds w" "wk_failed (destroy_decryptor w c) = wk_failed w"
  "wk_transforms (destroy_decryptor w c) = wk_transforms w" "wk_pending (destroy_decryptor w c) = wk_pending w"
  "wk_enqueued (destroy_decryptor w c) = wk_enqueued w"
  "length (wk_decs (destroy_decryptor w c)) = length (wk_decs w)"
  by (simp_all add: destroy_decryptor_def split: option.split)

lemma drop_contexts_fields [simp]:
  "wk_encryptors (drop_contexts w c) = map_delete c (wk_encryptors w)"
  "wk_decryptors (drop_contexts w c) = map_delete c (wk_decryptors w)"
  "wk_decryptorKeyIds (drop_contexts w c) = map_delete c (wk_decryptorKeyIds w)"
  "wk_seenKeyIds (drop_contexts w c) = wk_seenKeyIds w" "wk_failed (drop_contexts w c) = wk_failed w"
  "wk_transforms (drop_contexts w c) = wk_transforms w" "wk_pending (drop_contexts w c) = wk_pending w"
  "wk_enqueued (drop_contexts w c) = wk_enqueued w"
  "wk_encs (drop_contexts w c) = wk_encs (destroy_encryptor w c)"
  "wk_decs (drop_contexts w c) = wk_decs (destroy_decryptor w c)"
  by (simp_all add: drop_contexts_def Let_def destroy_decryptor_def destroy_encryptor_def split: option.split)

lemma report_fields [simp]:
  "wk_encs (snd (reportTransformFailure w c d e)) = wk_encs w"
  "wk_decs (snd (reportTransformFailure w c d e)) = wk_decs w"
  "wk_encryptors (snd (reportTransformFailure w c d e)) = wk_encryptors w"
  "wk_decryptors (snd (reportTransformFailure w c d e)) = wk_decryptors w"
  "wk_decryptorKeyIds (snd (reportTransformFailure w c d e)) = wk_decryptorKeyIds w"
  "wk_seenKeyIds (snd (reportTransformFailure w c d e)) = wk_seenKeyIds w"
  "wk_failed (snd (reportTransformFailure w c d e)) = wk_failed w"
  "wk_transforms (snd (reportTransformFailure w c d e)) = wk_transforms w"
  "wk_pending (snd (reportTransformFailure w c d e)) = wk_pending w"
  "wk_enqueued (snd (reportTransformFailure w c d e)) = wk_enqueued w"
  by (simp_all add: reportTransformFailure_def Let_def)

lemma install_encryptor_fields [simp]:
  "wk_decs (install_encryptor C w c k b) = wk_decs w"
  "wk_decryptors (install_encryptor C w c k b) = wk_decryptors w"
  "wk_decryptorKeyIds (install_encryptor C w c k b) = wk_decryptorKeyIds w"
  "wk_seenKeyIds (install_encryptor C w c k b) = wk_seenKeyIds w"
  "wk_failed (install_encryptor C w c k b) = wk_failed w"
  "wk_transforms (install_encryptor C w c k b) = wk_transforms w"
  "wk_pending (install_encryptor C w c k b) = wk_pending w"
  "wk_enqueued (install_encryptor C w c k b) = wk_enqueued w"
  by (simp_all add: install_encryptor_def Let_def split: sum.split)

lemma install_decryptor_fields [simp]:
  "wk_encs (install_decryptor C w c k b) = wk_encs w"
  "wk_encryptors (install_decryptor C w c k b) = wk_encryptors w"
  "wk_seenKeyIds (install_decryptor C w c k b) = wk_seenKeyIds w"
  "wk_failed (install_decryptor C w c k b) = wk_failed w"
  "wk_transforms (install_decryptor C w c k b) = wk_transforms w"
  "wk_pending (install_decryptor C w c k b) = wk_pending w"
  "wk_enqueued (install_decryptor C w c k b) = wk_enqueued w"
  by (simp_all add: install_decryptor_def open_decryptor_def split: sum.split option.split prod.split)

lemma historyId_eq [simp]: "historyId d c = historyId d' c' \<longleftrightarrow> d = d' \<and> c = c'"
  by (cases d; cases d') (auto simp: historyId_def)

lemma seen_keys_cong: "wk_seenKeyIds w = wk_seenKeyIds w' \<Longrightarrow> seen_keys w = seen_keys w'"
  by (simp add: seen_keys_def fun_eq_iff)

subsection \<open>The key fence\<close>

text \<open>The events that tear down a context: an explicit \<open>clear-context\<close> or \<open>clear-all\<close>.\<close>

fun teardown :: "string \<Rightarrow> worker_event \<Rightarrow> bool" where
  "teardown c (Wk_Message cmd) =
     (cmd_version cmd = 1 \<and> (cmd_type cmd = ''clear-all'' \<or> cmd_type cmd = ''clear-context'' \<and> cmd_contextId cmd = Some c))"
| "teardown c _ = False"

definition fenced :: "sframe_worker \<Rightarrow> direction \<Rightarrow> string \<Rightarrow> string \<Rightarrow> bool" where
  "fenced w d c k \<longleftrightarrow>
     c \<in> set (wk_failed w) \<or> k \<in> set (seen_keys w d c) \<or> MAX_CONTEXT_KEYS \<le> length (seen_keys w d c)"

lemma set_key_failed [simp]: "wk_failed (set_key C w d c k b) = wk_failed w"
  by (simp add: set_key_def Let_def split: direction.split)

lemma set_key_seen:
  "seen_keys (set_key C w d c k b) d' c' =
     (if d' = d \<and> c' = c \<and> c \<notin> set (wk_failed w) \<and> length (seen_keys w d c) < MAX_CONTEXT_KEYS
      then set_add k (seen_keys w d c) else seen_keys w d' c')"
  by (auto simp: set_key_def Let_def seen_keys_def set_add_def split: direction.split option.split)

lemma set_key_keeps_fence: "fenced w d c k \<Longrightarrow> fenced (set_key C w d' c' k' b) d c k"
  by (auto simp: fenced_def set_key_seen set_add_def)

lemma set_key_fences: "fenced (set_key C w d c k b) d c k"
  by (auto simp: fenced_def set_key_seen)

lemma destroyContext_keeps_fence: "fenced w d c k \<Longrightarrow> c' \<noteq> c \<Longrightarrow> fenced (destroyContext w c' r) d c k"
  by (auto simp: fenced_def destroyContext_def Let_def seen_keys_def)

lemma fenced_cong:
  "wk_failed w' = wk_failed w \<Longrightarrow> wk_seenKeyIds w' = wk_seenKeyIds w \<Longrightarrow> fenced w' d c k = fenced w d c k"
  by (simp add: fenced_def seen_keys_def)

lemma halt_fields [simp]:
  "wk_failed (halt w i) = wk_failed w" "wk_seenKeyIds (halt w i) = wk_seenKeyIds w"
  "wk_encs (halt w i) = wk_encs w" "wk_decs (halt w i) = wk_decs w"
  "wk_encryptors (halt w i) = wk_encryptors w" "wk_decryptors (halt w i) = wk_decryptors w"
  "wk_decryptorKeyIds (halt w i) = wk_decryptorKeyIds w"
  "wk_pending (halt w i) = wk_pending w" "wk_enqueued (halt w i) = wk_enqueued w"
  "length (wk_transforms (halt w i)) = length (wk_transforms w)"
  by (simp_all add: halt_def)

lemma frame_failed_cases:
  fixes w i defines "c \<equiv> mt_contextId (wk_transforms w ! i)"
  obtains (ignored) "frame_failed w i e = w"
  | (fatal) r p w2 where "w2 = destroyContext (halt (w\<lparr>wk_reported := r, wk_posted := p\<rparr>) i) c False"
      "frame_failed w i e = w2\<lparr>wk_failed := set_add c (wk_failed w2)\<rparr>"
proof (cases e)
  case (SFrameError code)
  let ?key = "c @ [CHR 0x00] @ direction_str (mt_direction (wk_transforms w ! i)) @ [CHR 0x00] @ code"
  consider "code \<notin> set TRANSFORM_FAILURES" | "code \<in> set TRANSFORM_FAILURES" "?key \<in> set (wk_reported w)"
    | "code \<in> set TRANSFORM_FAILURES" "?key \<notin> set (wk_reported w)" by blast
  then show thesis
  proof cases
    case 1
    then show thesis
      by (intro ignored) (simp add: frame_failed_def SFrameError reportTransformFailure_def Let_def)
  next
    case 2
    then show thesis
      by (intro fatal [OF refl, where r = "wk_reported w" and p = "wk_posted w"])
        (simp add: frame_failed_def SFrameError reportTransformFailure_def Let_def c_def)
  next
    case 3
    then show thesis
      by (intro fatal [OF refl, where r = "set_add ?key (wk_reported w)" and p = "wk_posted w @ [(c, mt_direction (wk_transforms w ! i), code)]"])
        (simp add: frame_failed_def SFrameError reportTransformFailure_def Let_def c_def)
  qed
qed

lemma frame_failed_keeps_fence:
  assumes f: "fenced w d c k" shows "fenced (frame_failed w i e) d c k"
proof (cases rule: frame_failed_cases [of w i e])
  case ignored
  with f show ?thesis by simp
next
  case (fatal r p w2)
  let ?c = "mt_contextId (wk_transforms w ! i)"
  have "fenced w2 d c k" if "?c \<noteq> c"
    unfolding fatal(1) using f that
    by (intro destroyContext_keeps_fence) (simp_all add: fenced_def seen_keys_def)
  then show ?thesis unfolding fatal(2) by (cases "?c = c") (auto simp: fenced_def seen_keys_def)
qed

lemma frame_begin_fields [simp]:
  "wk_failed (frame_begin w i f) = wk_failed w" "wk_seenKeyIds (frame_begin w i f) = wk_seenKeyIds w"
  "wk_encryptors (frame_begin w i f) = wk_encryptors w" "wk_decryptors (frame_begin w i f) = wk_decryptors w"
  "wk_decryptorKeyIds (frame_begin w i f) = wk_decryptorKeyIds w" "wk_decs (frame_begin w i f) = wk_decs w"
  "wk_enqueued (frame_begin w i f) = wk_enqueued w"
  by (simp_all add: frame_begin_def Let_def split: option.split sum.split prod.split direction.split)

lemma frame_finish_keeps_fence: "fenced w d c k \<Longrightarrow> fenced (frame_finish C w i p) d c k"
proof -
  assume f: "fenced w d c k"
  have e: "fenced (enqueue_frame (w\<lparr>wk_decs := x\<rparr>) i y) d c k" "fenced (enqueue_frame w i y) d c k"
    "fenced (w\<lparr>wk_decs := x\<rparr>) d c k" for x y
    using f by (simp_all add: fenced_def seen_keys_def enqueue_frame_def)
  then show ?thesis using f
    by (auto simp: frame_finish_def frame_failed_keeps_fence split: pending_frame.split sum.split prod.split)
qed

lemma worker_message_keeps_fence:
  assumes "fenced w d c k" and "\<not> teardown c (Wk_Message cmd)"
  shows "fenced (worker_message C w cmd) d c k"
  using assms unfolding worker_message_def
  by (auto simp: set_key_keeps_fence destroyContext_keeps_fence split: option.split)

lemma worker_step_keeps_fence:
  assumes f: "fenced w d c k" and "\<not> teardown c ev"
  shows "fenced (worker_step C w ev) d c k"
proof (cases ev)
  case (Wk_Message cmd)
  then show ?thesis using assms worker_message_keeps_fence by simp
next
  case (Wk_Transform options)
  have "wk_failed (rtctransform w options) = wk_failed w" "wk_seenKeyIds (rtctransform w options) = wk_seenKeyIds w"
    by (simp_all add: rtctransform_def Let_def split: option.split)
  then show ?thesis using f Wk_Transform by (simp cong: fenced_cong)
next
  case (Wk_Frame i frame)
  then show ?thesis using f by (simp cong: fenced_cong)
next
  case (Wk_Resume j)
  have "fenced (w\<lparr>wk_pending := x\<rparr>) d c k" for x using f by (simp add: fenced_def seen_keys_def)
  then show ?thesis using f Wk_Resume
    by (auto simp: frame_finish_keeps_fence simp del: drop_nth.simps split: prod.split)
qed

lemma worker_run_keeps_fence:
  "fenced w d c k \<Longrightarrow> list_all (\<lambda>ev. \<not> teardown c ev) evs \<Longrightarrow> fenced (worker_run C w evs) d c k"
  by (induction evs arbitrary: w) (simp_all add: worker_step_keeps_fence)

text \<open>A fenced key is not installed: no sending context is created and no receiving context is created
  or given a key.\<close>

lemma map_update_same: "f y = f (xs ! r) \<Longrightarrow> map f (xs[r := y]) = map f xs"
  by (cases "r < length xs") (auto simp: map_update list_update_beyond intro: list_update_same_conv [THEN iffD2])

lemma destroy_decryptor_next [simp]: "map dc_next (wk_decs (destroy_decryptor w c)) = map dc_next (wk_decs w)"
  by (auto simp: destroy_decryptor_def decrypt_destroy_def intro!: map_update_same split: option.split)

lemma fenced_set_key:
  assumes "fenced w d c k"
  shows "length (wk_encs (set_key C w d c k b)) = length (wk_encs w) \<and>
    map dc_next (wk_decs (set_key C w d c k b)) = map dc_next (wk_decs w)"
  using assms by (auto simp: set_key_def Let_def fenced_def)


abbreviation set_key_command :: "direction \<Rightarrow> string \<Rightarrow> string \<Rightarrow> bytes \<Rightarrow> worker_command" where
  "set_key_command d c k b \<equiv> \<lparr>cmd_version = 1, cmd_type = ''set-key'', cmd_direction = Some (direction_str d),
     cmd_contextId = Some c, cmd_keyId = Some k, cmd_baseKey = Some b\<rparr>"

lemma read_direction_str [simp]: "read_direction (direction_str d) = Some d"
  by (cases d) simp_all

lemma worker_message_set_key:
  "worker_message C w (set_key_command d c k b) =
     (if CONTEXT_ID c \<and> KEY_ID k \<and> length b = 16 then set_key C w d c k b else w)"
  by (simp add: worker_message_def del: read_direction.simps)

text \<open>C6. A media key is installed at most once. After the worker has processed a well-formed \<open>set-key\<close>
  for a context, a direction and a key id, no later \<open>set-key\<close> for the same three, with whatever key
  bytes, however often and in whatever order with frames, other keys, failures and exhausted key budgets,
  creates a sending context (which would restart its counter and reuse nonces) or installs a receiving
  key (which would empty its replay window), until that context is explicitly cleared.\<close>

theorem media_key_installed_once:
  assumes "CONTEXT_ID c" and "KEY_ID k" and "length b = 16"
    and "list_all (\<lambda>ev. \<not> teardown c ev) events"
  shows "let w1 = worker_run C (worker_message C w (set_key_command d c k b)) events;
             w2 = worker_message C w1 (set_key_command d c k b')
         in length (wk_encs w2) = length (wk_encs w1) \<and> map dc_next (wk_decs w2) = map dc_next (wk_decs w1)"
proof -
  have "fenced (worker_message C w (set_key_command d c k b)) d c k"
    using assms(1-3) set_key_fences by (simp add: worker_message_set_key)
  then have "fenced (worker_run C (worker_message C w (set_key_command d c k b)) events) d c k"
    using assms(4) by (rule worker_run_keeps_fence)
  then show ?thesis unfolding Let_def worker_message_set_key [of C _ d c k b'] by (auto dest: fenced_set_key)
qed

theorem media_key_installed_once_witness:
  "let cmd = set_key_command Encrypt ''c'' ''0123456789abcdef'' (replicate 16 7);
       w1 = worker_run plain_crypto (worker_message plain_crypto new_worker cmd)
              [Wk_Message (set_key_command Encrypt ''c'' ''fedcba9876543210'' (replicate 16 9))];
       w2 = worker_message plain_crypto w1 cmd
   in length (wk_encs w2) = length (wk_encs w1)"
proof -
  have "CONTEXT_ID ''c''" "KEY_ID ''0123456789abcdef''"
    by (simp_all add: CONTEXT_ID_def KEY_ID_def matches_def context_char_def lower_hex_def)
  then show ?thesis
    using media_key_installed_once [of "''c''" "''0123456789abcdef''" "replicate 16 7"
        "[Wk_Message (set_key_command Encrypt ''c'' ''fedcba9876543210'' (replicate 16 9))]"
        plain_crypto new_worker Encrypt "replicate 16 7"]
    by (simp add: Let_def)
qed

subsection \<open>Failing closed\<close>

text \<open>A context object that a waiting frame uses is destroyed or still the one its context id names.\<close>

definition live_enc :: "sframe_worker \<Rightarrow> string \<Rightarrow> nat \<Rightarrow> bool" where
  "live_enc w c r \<longleftrightarrow> r < length (wk_encs w) \<and>
     (ec_destroyed (wk_encs w ! r) \<or> map_of (wk_encryptors w) c = Some r)"

definition live_dec :: "sframe_worker \<Rightarrow> string \<Rightarrow> nat \<Rightarrow> bool" where
  "live_dec w c r \<longleftrightarrow> r < length (wk_decs w) \<and>
     (dc_destroyed (wk_decs w ! r) \<or> map_of (wk_decryptors w) c = Some r)"

fun pending_ok :: "sframe_worker \<Rightarrow> nat \<times> pending_frame \<Rightarrow> bool" where
  "pending_ok w (i, Pend_Error e) = (i < length (wk_transforms w))"
| "pending_ok w (i, Pend_Encrypt r n parts) =
     (i < length (wk_transforms w) \<and> live_enc w (mt_contextId (wk_transforms w ! i)) r)"
| "pending_ok w (i, Pend_Decrypt r waiting) =
     (i < length (wk_transforms w) \<and> live_dec w (mt_contextId (wk_transforms w ! i)) r)"

definition refs_ok :: "sframe_worker \<Rightarrow> bool" where
  "refs_ok w \<longleftrightarrow> (\<forall>c r. map_of (wk_encryptors w) c = Some r \<longrightarrow> r < length (wk_encs w)) \<and>
     (\<forall>c r. map_of (wk_decryptors w) c = Some r \<longrightarrow> r < length (wk_decs w)) \<and>
     (\<forall>c. map_of (wk_decryptors w) c = None \<longleftrightarrow> map_of (wk_decryptorKeyIds w) c = None)"

definition failed_ok :: "sframe_worker \<Rightarrow> bool" where
  "failed_ok w \<longleftrightarrow>
     (\<forall>c \<in> set (wk_failed w). map_of (wk_encryptors w) c = None \<and> map_of (wk_decryptors w) c = None)"

definition worker_inv :: "sframe_worker \<Rightarrow> bool" where
  "worker_inv w \<longleftrightarrow> list_all (pending_ok w) (wk_pending w) \<and> refs_ok w \<and> failed_ok w"

text \<open>A later state of the worker keeps what a waiting frame relies on.\<close>

definition keeps_live :: "sframe_worker \<Rightarrow> sframe_worker \<Rightarrow> bool" where
  "keeps_live w w' \<longleftrightarrow> (\<forall>c r. live_enc w c r \<longrightarrow> live_enc w' c r) \<and> (\<forall>c r. live_dec w c r \<longrightarrow> live_dec w' c r) \<and>
     map mt_contextId (wk_transforms w) = take (length (wk_transforms w)) (map mt_contextId (wk_transforms w'))"

lemma keeps_live_refl [simp]: "keeps_live w w"
  by (simp add: keeps_live_def)

lemma keeps_live_trans: "keeps_live w w' \<Longrightarrow> keeps_live w' w'' \<Longrightarrow> keeps_live w w''"
  unfolding keeps_live_def by (metis length_map length_take min.absorb1 min.cobounded1 take_take)

lemma keeps_live_context:
  assumes "keeps_live w w'" "i < length (wk_transforms w)"
  shows "i < length (wk_transforms w')" "mt_contextId (wk_transforms w' ! i) = mt_contextId (wk_transforms w ! i)"
proof -
  have eq: "map mt_contextId (wk_transforms w) = take (length (wk_transforms w)) (map mt_contextId (wk_transforms w'))"
    using assms(1) by (simp add: keeps_live_def)
  then have "length (wk_transforms w) \<le> length (wk_transforms w')"
    by (metis length_map length_take min.cobounded1 min_def)
  then show i: "i < length (wk_transforms w')" using assms(2) by simp
  have "map mt_contextId (wk_transforms w) ! i = map mt_contextId (wk_transforms w') ! i"
    using eq assms(2) by (metis nth_take)
  then show "mt_contextId (wk_transforms w' ! i) = mt_contextId (wk_transforms w ! i)"
    using assms(2) i by simp
qed

lemma keeps_live_pending: "keeps_live w w' \<Longrightarrow> pending_ok w x \<Longrightarrow> pending_ok w' x"
  using keeps_live_context [of w w']
  by (cases "(w, x)" rule: pending_ok.cases) (auto simp: keeps_live_def)

lemma keeps_live_all: "keeps_live w w' \<Longrightarrow> list_all (pending_ok w) xs \<Longrightarrow> list_all (pending_ok w') xs"
  by (auto simp: list_all_iff keeps_live_pending)


text \<open>An operation is safe when it keeps what waiting frames rely on and the maps consistent.\<close>

definition safe_step :: "sframe_worker \<Rightarrow> sframe_worker \<Rightarrow> bool" where
  "safe_step w w' \<longleftrightarrow> (refs_ok w \<and> failed_ok w \<longrightarrow> keeps_live w w' \<and> refs_ok w' \<and> failed_ok w')"

lemma safe_step_refl [simp]: "safe_step w w"
  by (simp add: safe_step_def)

lemma safe_step_trans: "safe_step w w' \<Longrightarrow> safe_step w' w'' \<Longrightarrow> safe_step w w''"
  unfolding safe_step_def using keeps_live_trans by blast

lemma safe_destroy_encryptor: "safe_step w (destroy_encryptor w c)"
  by (auto simp: safe_step_def keeps_live_def live_enc_def live_dec_def refs_ok_def failed_ok_def
      destroy_encryptor_def encrypt_destroy_def nth_list_update split: option.split)

lemma safe_destroy_decryptor: "safe_step w (destroy_decryptor w c)"
  by (auto simp: safe_step_def keeps_live_def live_enc_def live_dec_def refs_ok_def failed_ok_def
      destroy_decryptor_def decrypt_destroy_def nth_list_update split: option.split)

lemma destroy_encryptor_destroys:
  "map_of (wk_encryptors w) c = Some r \<Longrightarrow> r < length (wk_encs w) \<Longrightarrow> ec_destroyed (wk_encs (destroy_encryptor w c) ! r)"
  by (simp add: destroy_encryptor_def encrypt_destroy_def)

lemma destroy_decryptor_destroys:
  "map_of (wk_decryptors w) c = Some r \<Longrightarrow> r < length (wk_decs w) \<Longrightarrow> dc_destroyed (wk_decs (destroy_decryptor w c) ! r)"
  by (simp add: destroy_decryptor_def decrypt_destroy_def)

lemma list_update_pred: "P (xs ! r) \<Longrightarrow> P y \<Longrightarrow> r < length xs \<Longrightarrow> P (xs[i := y] ! r)"
  by (cases "i = r") simp_all

lemma live_enc_destroy: "live_enc w c r \<Longrightarrow> live_enc (destroy_encryptor w c') c r"
  by (auto simp: live_enc_def destroy_encryptor_def encrypt_destroy_def intro: list_update_pred split: option.split)

lemma live_dec_destroy: "live_dec w c r \<Longrightarrow> live_dec (destroy_decryptor w c') c r"
  by (auto simp: live_dec_def destroy_decryptor_def decrypt_destroy_def intro: list_update_pred split: option.split)

lemma safe_drop_contexts: "safe_step w (drop_contexts w c)"
proof -
  have "live_enc (drop_contexts w c) c' r" if "live_enc w c' r" for c' r
    using live_enc_destroy [OF that, of c] that destroy_encryptor_destroys [of w c r]
    by (auto simp: live_enc_def)
  moreover have "live_dec (drop_contexts w c) c' r" if "live_dec w c' r" for c' r
    using live_dec_destroy [OF that, of c] that destroy_decryptor_destroys [of w c r]
    by (auto simp: live_dec_def)
  ultimately show ?thesis
    by (auto simp: safe_step_def keeps_live_def refs_ok_def failed_ok_def)
qed

lemma safe_cong:
  assumes "wk_encs w' = wk_encs w" "wk_decs w' = wk_decs w" "wk_encryptors w' = wk_encryptors w"
    "wk_decryptors w' = wk_decryptors w" "wk_decryptorKeyIds w' = wk_decryptorKeyIds w"
    "map mt_contextId (wk_transforms w') = map mt_contextId (wk_transforms w)"
    "\<And>c. c \<in> set (wk_failed w') \<Longrightarrow> c \<in> set (wk_failed w) \<or>
       map_of (wk_encryptors w) c = None \<and> map_of (wk_decryptors w) c = None"
  shows "safe_step w w'"
proof -
  have "take (length (wk_transforms w)) (map mt_contextId (wk_transforms w)) = map mt_contextId (wk_transforms w)"
    by simp
  then have "keeps_live w w'" using assms(1-6) by (simp add: keeps_live_def live_enc_def live_dec_def)
  moreover have "refs_ok w \<Longrightarrow> refs_ok w'" using assms(1-5) by (simp add: refs_ok_def)
  moreover have "failed_ok w \<Longrightarrow> failed_ok w'" unfolding failed_ok_def assms(3,4) using assms(7) by blast
  ultimately show ?thesis by (simp add: safe_step_def)
qed

lemma safe_destroyContext: "safe_step w (destroyContext w c b)"
  by (rule safe_step_trans [OF safe_drop_contexts [of w c]], rule safe_cong)
    (auto simp: destroyContext_def Let_def split: if_splits)

lemma halt_contexts [simp]: "map mt_contextId (wk_transforms (halt w i)) = map mt_contextId (wk_transforms w)"
  unfolding halt_def by (simp add: map_update_same)

lemma safe_frame_failed: "safe_step w (frame_failed w i e)"
proof (cases rule: frame_failed_cases [of w i e])
  case (fatal r p w2)
  let ?c = "mt_contextId (wk_transforms w ! i)"
  have "safe_step w w2"
    unfolding fatal(1)
    by (rule safe_step_trans [OF _ safe_destroyContext], rule safe_cong) simp_all
  moreover have "safe_step w2 (w2\<lparr>wk_failed := set_add ?c (wk_failed w2)\<rparr>)"
    by (rule safe_cong) (auto simp: fatal(1) destroyContext_def Let_def)
  ultimately show ?thesis unfolding fatal(2) by (rule safe_step_trans)
qed simp

lemma safe_install_encryptor:
  assumes "c \<notin> set (wk_failed w)" shows "safe_step w (install_encryptor C w c k b)"
proof -
  let ?w = "install_encryptor C w c k b"
  have "live_enc ?w c' r" if "live_enc w c' r" for c' r
    using live_enc_destroy [OF that, of c] that destroy_encryptor_destroys [of w c r]
    by (auto simp: live_enc_def install_encryptor_def Let_def nth_append split: sum.split)
  moreover have "live_dec ?w c' r" if "live_dec w c' r" for c' r
    using that by (simp add: live_dec_def)
  moreover have "refs_ok ?w" if "refs_ok w"
    using that by (auto simp: refs_ok_def install_encryptor_def Let_def less_Suc_eq split: sum.split)
  moreover have "failed_ok ?w" if "failed_ok w"
    using that assms by (auto simp: failed_ok_def install_encryptor_def Let_def split: sum.split)
  ultimately show ?thesis by (simp add: safe_step_def keeps_live_def)
qed

lemma retire_keys_destroyed [simp]: "dc_destroyed (fst (retire_keys ctx ks)) = dc_destroyed ctx"
  by (induction ctx ks rule: retire_keys.induct) (simp_all add: removeKey_def)

lemma setKey_destroyed: "setKey C context kid b = Inr context' \<Longrightarrow> \<not> dc_destroyed context \<and> \<not> dc_destroyed context'"
  by (auto simp: setKey_def removeKey_def Let_def split: sum.splits if_splits)

lemma safe_open_decryptor:
  assumes "c \<notin> set (wk_failed w)" shows "safe_step w (fst (open_decryptor w c))"
  using assms
  by (auto simp: open_decryptor_def safe_step_def keeps_live_def live_enc_def live_dec_def refs_ok_def
      failed_ok_def nth_append less_Suc_eq split: option.split) (metis option.distinct(1))+


lemma safe_update_dec:
  assumes "dc_destroyed ctx = dc_destroyed (wk_decs w ! r)" "map_of (wk_decryptors w) c = Some r"
  shows "safe_step w (w\<lparr>wk_decs := (wk_decs w)[r := ctx], wk_decryptorKeyIds := map_set c k (wk_decryptorKeyIds w)\<rparr>)"
    (is "safe_step w ?w")
proof -
  have "dc_destroyed ((wk_decs w)[r := ctx] ! i) = dc_destroyed (wk_decs w ! i)" for i
    using assms(1) by (cases "i = r \<and> r < length (wk_decs w)") (auto simp: list_update_beyond)
  then have "keeps_live w ?w" by (simp add: keeps_live_def live_enc_def live_dec_def)
  moreover have "refs_ok ?w" if "refs_ok w"
  proof -
    have "map_of (wk_decryptors w) c' = None \<longleftrightarrow> map_of (map_set c k (wk_decryptorKeyIds w)) c' = None" for c'
      using that assms(2) by (cases "c' = c") (simp_all add: refs_ok_def)
    then show ?thesis using that by (simp add: refs_ok_def)
  qed
  ultimately show ?thesis by (simp add: safe_step_def failed_ok_def)
qed

lemma safe_install_decryptor:
  assumes "c \<notin> set (wk_failed w)" shows "safe_step w (install_decryptor C w c k b)"
proof -
  obtain w1 r keyIds where o: "open_decryptor w c = (w1, r, keyIds)" by (cases "open_decryptor w c")
  have s: "safe_step w w1" using safe_open_decryptor [OF assms] o by (metis fst_conv)
  have r: "map_of (wk_decryptors w1) c = Some r" using o by (auto simp: open_decryptor_def split: option.splits)
  have up: "safe_step w1 (w1\<lparr>wk_decs := (wk_decs w1)[r := x], wk_decryptorKeyIds := map_set c y (wk_decryptorKeyIds w1)\<rparr>)"
    if "dc_destroyed x = dc_destroyed (wk_decs w1 ! r)" for x y
    using that r by (rule safe_update_dec)
  show ?thesis
  proof (cases "setKey C (wk_decs w1 ! r) (key_number k) b")
    case (Inl e)
    then show ?thesis using s by (simp add: install_decryptor_def o)
  next
    case (Inr ctx)
    obtain ctx' ks where rk: "retire_keys ctx (set_add k keyIds) = (ctx', ks)" by force
    have "dc_destroyed ctx' = dc_destroyed (wk_decs w1 ! r)"
      using setKey_destroyed [OF Inr] retire_keys_destroyed [of ctx "set_add k keyIds"] rk by simp
    from safe_step_trans [OF s up [OF this]] show ?thesis
      using s Inr rk by (simp add: install_decryptor_def o)
  qed
qed

lemma safe_fold_destroy:
  "safe_step w (fold (\<lambda>c w. destroy_encryptor w c) cs w)" "safe_step w (fold (\<lambda>c w. destroy_decryptor w c) cs w)"
  using safe_destroy_encryptor safe_destroy_decryptor safe_step_trans
  by (induction cs arbitrary: w) (simp_all, blast+)

lemma fold_destroy_fields:
  "wk_encryptors (fold (\<lambda>c w. destroy_encryptor w c) cs w) = wk_encryptors w"
  "length (wk_encs (fold (\<lambda>c w. destroy_encryptor w c) cs w)) = length (wk_encs w)"
  "wk_decryptors (fold (\<lambda>c w. destroy_encryptor w c) cs w) = wk_decryptors w"
  "wk_decs (fold (\<lambda>c w. destroy_encryptor w c) cs w) = wk_decs w"
  "wk_transforms (fold (\<lambda>c w. destroy_encryptor w c) cs w) = wk_transforms w"
  "wk_pending (fold (\<lambda>c w. destroy_encryptor w c) cs w) = wk_pending w"
  "wk_enqueued (fold (\<lambda>c w. destroy_encryptor w c) cs w) = wk_enqueued w"
  by (induction cs arbitrary: w) simp_all

lemma fold_destroy_dec_fields:
  "wk_decryptors (fold (\<lambda>c w. destroy_decryptor w c) cs w) = wk_decryptors w"
  "length (wk_decs (fold (\<lambda>c w. destroy_decryptor w c) cs w)) = length (wk_decs w)"
  "wk_encryptors (fold (\<lambda>c w. destroy_decryptor w c) cs w) = wk_encryptors w"
  "wk_encs (fold (\<lambda>c w. destroy_decryptor w c) cs w) = wk_encs w"
  "wk_transforms (fold (\<lambda>c w. destroy_decryptor w c) cs w) = wk_transforms w"
  "wk_pending (fold (\<lambda>c w. destroy_decryptor w c) cs w) = wk_pending w"
  "wk_enqueued (fold (\<lambda>c w. destroy_decryptor w c) cs w) = wk_enqueued w"
  by (induction cs arbitrary: w) simp_all

lemma destroyed_stays:
  "r < length (wk_encs w) \<Longrightarrow> ec_destroyed (wk_encs w ! r) \<Longrightarrow>
     ec_destroyed (wk_encs (fold (\<lambda>c w. destroy_encryptor w c) cs w) ! r)"
  "r < length (wk_decs w) \<Longrightarrow> dc_destroyed (wk_decs w ! r) \<Longrightarrow>
     dc_destroyed (wk_decs (fold (\<lambda>c w. destroy_decryptor w c) cs w) ! r)"
proof (induction cs arbitrary: w)
  case (Cons c cs)
  { case 1
    then have "ec_destroyed (wk_encs (destroy_encryptor w c) ! r)"
      by (auto simp: destroy_encryptor_def encrypt_destroy_def intro: list_update_pred split: option.split)
    then show ?case using Cons(1) [of "destroy_encryptor w c"] 1 by simp }
  { case 2
    then have "dc_destroyed (wk_decs (destroy_decryptor w c) ! r)"
      by (auto simp: destroy_decryptor_def decrypt_destroy_def intro: list_update_pred split: option.split)
    then show ?case using Cons(2) [of "destroy_decryptor w c"] 2 by simp }
qed simp_all

lemma fold_destroys:
  "c \<in> set cs \<Longrightarrow> map_of (wk_encryptors w) c = Some r \<Longrightarrow> r < length (wk_encs w) \<Longrightarrow>
     ec_destroyed (wk_encs (fold (\<lambda>c w. destroy_encryptor w c) cs w) ! r)"
  "c \<in> set cs \<Longrightarrow> map_of (wk_decryptors w) c = Some r \<Longrightarrow> r < length (wk_decs w) \<Longrightarrow>
     dc_destroyed (wk_decs (fold (\<lambda>c w. destroy_decryptor w c) cs w) ! r)"
proof (induction cs arbitrary: w)
  case (Cons x xs)
  { case 1
    then show ?case
      using Cons(1) [of "destroy_encryptor w x"] destroyed_stays(1) [of r "destroy_encryptor w x" xs]
        destroy_encryptor_destroys [of w x r] by (cases "c = x") auto }
  { case 2
    then show ?case
      using Cons(2) [of "destroy_decryptor w x"] destroyed_stays(2) [of r "destroy_decryptor w x" xs]
        destroy_decryptor_destroys [of w x r] by (cases "c = x") auto }
qed simp_all

lemma safe_clearAll: "safe_step w (clearAll w)"
proof -
  let ?e = "fold (\<lambda>c w. destroy_encryptor w c) (map_keys (wk_encryptors w)) w"
  let ?d = "fold (\<lambda>c w. destroy_decryptor w c) (map_keys (wk_decryptors ?e)) ?e"
  have fields: "wk_encs (clearAll w) = wk_encs ?e" "wk_decs (clearAll w) = wk_decs ?d"
    "wk_transforms (clearAll w) = wk_transforms w" "wk_encryptors (clearAll w) = []"
    "wk_decryptors (clearAll w) = []" "wk_decryptorKeyIds (clearAll w) = []" "wk_failed (clearAll w) = []"
    by (simp_all add: clearAll_def Let_def fold_destroy_fields fold_destroy_dec_fields)
  have key: "map_of m c = Some r \<Longrightarrow> c \<in> fst ` set m" for c m and r :: nat
    by (metis map_of_None_keys option.distinct(1) set_map)
  have "live_enc (clearAll w) c r" if "live_enc w c r" for c r
    using that fold_destroys(1) [of c "map_keys (wk_encryptors w)" w r] key [of "wk_encryptors w" c r]
      destroyed_stays(1) [of r w "map_keys (wk_encryptors w)"]
    by (auto simp: live_enc_def fields fold_destroy_fields)
  moreover have "live_dec (clearAll w) c r" if "live_dec w c r" for c r
    using that fold_destroys(2) [of c "map_keys (wk_decryptors ?e)" ?e r] key [of "wk_decryptors w" c r]
      destroyed_stays(2) [of r ?e "map_keys (wk_decryptors ?e)"]
    by (auto simp: live_dec_def fields fold_destroy_fields fold_destroy_dec_fields)
  ultimately show ?thesis
    by (simp add: safe_step_def keeps_live_def refs_ok_def failed_ok_def fields)
qed

lemma safe_set_key: "safe_step w (set_key C w d c k b)"
proof (cases "c \<in> set (wk_failed w)")
  case False
  let ?seen = "\<lambda>s. w\<lparr>wk_seenKeyIds := s\<rparr>"
  have s: "safe_step w (?seen s)" for s by (rule safe_cong) auto
  have drop: "safe_step w (snd (reportTransformFailure (drop_contexts (?seen s) c) c d e))" for s e
    by (rule safe_step_trans [OF s safe_step_trans [OF safe_drop_contexts safe_cong]]) auto
  have ins: "safe_step w (install_encryptor C (?seen s) c k b)" "safe_step w (install_decryptor C (?seen s) c k b)" for s
    using False safe_step_trans [OF s [of s]] safe_install_encryptor [of c "?seen s"]
      safe_install_decryptor [of c "?seen s"] by auto
  show ?thesis using False s drop ins
    by (auto simp: set_key_def Let_def split: direction.split)
qed (simp add: set_key_def)

lemma safe_worker_message: "safe_step w (worker_message C w cmd)"
  by (auto simp: worker_message_def safe_clearAll safe_destroyContext safe_set_key split: option.split)


lemma worker_inv_safe:
  assumes "safe_step w w'" "worker_inv w"
    and "\<And>x. x \<in> set (wk_pending w') \<Longrightarrow> x \<in> set (wk_pending w) \<or> pending_ok w' x"
  shows "worker_inv w'"
proof -
  have "keeps_live w w'" "refs_ok w'" "failed_ok w'" using assms(1,2) by (auto simp: safe_step_def worker_inv_def)
  moreover have "pending_ok w' x" if "x \<in> set (wk_pending w')" for x
    using assms(2) assms(3) [OF that] keeps_live_pending [OF calculation(1), of x] unfolding worker_inv_def list_all_iff by blast
  ultimately show ?thesis by (simp add: worker_inv_def list_all_iff)
qed

lemma message_log_fields [simp]:
  "wk_pending (worker_message C w cmd) = wk_pending w" "wk_enqueued (worker_message C w cmd) = wk_enqueued w"
proof -
  have "wk_pending (set_key C w d c k b) = wk_pending w" "wk_enqueued (set_key C w d c k b) = wk_enqueued w" for d c k b
    by (simp_all add: set_key_def Let_def split: direction.split)
  then show "wk_pending (worker_message C w cmd) = wk_pending w" "wk_enqueued (worker_message C w cmd) = wk_enqueued w"
    by (simp_all add: worker_message_def clearAll_def destroyContext_def Let_def fold_destroy_fields
        fold_destroy_dec_fields split: option.split)
qed

lemma frame_failed_log_fields [simp]:
  "wk_pending (frame_failed w i e) = wk_pending w" "wk_enqueued (frame_failed w i e) = wk_enqueued w"
  by (cases rule: frame_failed_cases [of w i e]; simp add: destroyContext_def Let_def)+

lemma safe_transform: "safe_step w (w\<lparr>wk_transforms := wk_transforms w @ ts\<rparr>)"
  by (simp add: safe_step_def keeps_live_def live_enc_def live_dec_def refs_ok_def failed_ok_def)

lemma safe_update_enc:
  assumes "ec_destroyed ctx = ec_destroyed (wk_encs w ! r)"
  shows "safe_step w (w\<lparr>wk_encs := (wk_encs w)[r := ctx]\<rparr>)"
proof -
  have "ec_destroyed ((wk_encs w)[r := ctx] ! i) = ec_destroyed (wk_encs w ! i)" for i
    using assms by (cases "i = r \<and> r < length (wk_encs w)") (auto simp: list_update_beyond)
  then show ?thesis by (simp add: safe_step_def keeps_live_def live_enc_def live_dec_def refs_ok_def failed_ok_def)
qed

lemma encryptMediaFrame_begin_destroyed:
  "encryptMediaFrame_begin ctx f = Inr (n, parts, ctx') \<Longrightarrow> ec_destroyed ctx' = ec_destroyed ctx"
  by (auto simp: encryptMediaFrame_begin_def encrypt_begin_def Let_def split: sum.splits if_splits)

lemma safe_pending: "safe_step w w' \<Longrightarrow> safe_step w (w'\<lparr>wk_pending := x\<rparr>)"
  by (rule safe_step_trans, assumption, rule safe_cong) auto

lemma worker_inv_frame_begin:
  assumes inv: "worker_inv w" and i: "i < length (wk_transforms w)"
  shows "worker_inv (frame_begin w i f)"
proof -
  let ?t = "wk_transforms w ! i" and ?c = "mt_contextId (wk_transforms w ! i)"
  have refs: "refs_ok w" using inv by (simp add: worker_inv_def)
  have halt: "worker_inv (halt w i)" by (rule worker_inv_safe [OF safe_cong inv]) auto
  have err: "worker_inv (w\<lparr>wk_pending := wk_pending w @ [(i, Pend_Error e)]\<rparr>)" for e
    by (rule worker_inv_safe [OF safe_pending inv]) (use i in auto)
  have enc: "worker_inv (w\<lparr>wk_encs := (wk_encs w)[r := ctx], wk_pending := wk_pending w @ [(i, Pend_Encrypt r n parts)]\<rparr>)"
    if "map_of (wk_encryptors w) ?c = Some r" "encryptMediaFrame_begin (wk_encs w ! r) f = Inr (n, parts, ctx)" for r n parts ctx
    by (rule worker_inv_safe [OF safe_pending [OF safe_update_enc [OF encryptMediaFrame_begin_destroyed [OF that(2)]]] inv])
      (use i that(1) refs in \<open>auto simp: live_enc_def refs_ok_def\<close>)
  have dec: "worker_inv (w\<lparr>wk_pending := wk_pending w @ [(i, Pend_Decrypt r waiting)]\<rparr>)"
    if "map_of (wk_decryptors w) ?c = Some r" for r waiting
    by (rule worker_inv_safe [OF safe_pending inv])
      (use i that refs in \<open>auto simp: live_dec_def refs_ok_def\<close>)
  show ?thesis
    using inv halt err enc dec
    by (auto simp: frame_begin_def Let_def split: direction.split option.split sum.split prod.split)
qed

lemma decryptMediaFrame_finish_destroyed:
  assumes "decryptMediaFrame_finish C ctx fr = (r, ctx')"
  shows "dc_destroyed ctx' = dc_destroyed ctx" and "dc_destroyed ctx \<Longrightarrow> \<exists>e. r = Inl e"
  using assms
  by (auto simp: decryptMediaFrame_finish_def decrypt_finish_def split: sum.splits option.splits if_splits bool.splits)
    metis

lemma encryptMediaFrame_finish_destroyed:
  "ec_destroyed ctx \<Longrightarrow> \<exists>e. encryptMediaFrame_finish C ctx n parts = Inl e"
  by (auto simp: encryptMediaFrame_finish_def encrypt_finish_def split: sum.splits)

lemma safe_update_dec_only:
  assumes "dc_destroyed ctx = dc_destroyed (wk_decs w ! r)"
  shows "safe_step w (w\<lparr>wk_decs := (wk_decs w)[r := ctx]\<rparr>)"
proof -
  have "dc_destroyed ((wk_decs w)[r := ctx] ! i) = dc_destroyed (wk_decs w ! i)" for i
    using assms by (cases "i = r \<and> r < length (wk_decs w)") (auto simp: list_update_beyond)
  then show ?thesis by (simp add: safe_step_def keeps_live_def live_enc_def live_dec_def refs_ok_def failed_ok_def)
qed

lemma safe_enqueue: "safe_step w w' \<Longrightarrow> safe_step w (enqueue_frame w' i outp)"
  by (rule safe_step_trans, assumption, rule safe_cong) (auto simp: enqueue_frame_def)

lemma safe_frame_finish: "safe_step w (frame_finish C w i p)"
proof (cases p)
  case (Pend_Decrypt r fr)
  obtain res ctx where fin: "decryptMediaFrame_finish C (wk_decs w ! r) fr = (res, ctx)" by force
  note s = safe_update_dec_only [OF decryptMediaFrame_finish_destroyed(1) [OF fin]]
  then show ?thesis using fin safe_enqueue [OF s] safe_step_trans [OF s safe_frame_failed]
    by (auto simp: frame_finish_def Pend_Decrypt split: sum.split)
qed (auto simp: frame_finish_def safe_frame_failed intro: safe_enqueue split: sum.split)

lemma frame_finish_pending [simp]: "wk_pending (frame_finish C w i p) = wk_pending w"
  by (simp add: frame_finish_def enqueue_frame_def split: pending_frame.split sum.split prod.split)

lemma worker_inv_step: "worker_inv w \<Longrightarrow> worker_inv (worker_step C w ev)"
proof (cases ev)
  case (Wk_Message cmd)
  assume "worker_inv w"
  with Wk_Message show ?thesis using worker_inv_safe [OF safe_worker_message] by simp
next
  case (Wk_Transform options)
  assume inv: "worker_inv w"
  have "worker_inv (w\<lparr>wk_transforms := wk_transforms w @ ts\<rparr>)" for ts
    by (rule worker_inv_safe [OF safe_transform inv]) simp
  with Wk_Transform inv show ?thesis by (simp add: rtctransform_def Let_def split: option.split)
next
  case (Wk_Frame i f)
  assume "worker_inv w"
  with Wk_Frame show ?thesis using worker_inv_frame_begin by simp
next
  case (Wk_Resume j)
  assume inv: "worker_inv w"
  have "worker_inv (frame_finish C (w\<lparr>wk_pending := drop_nth j (wk_pending w)\<rparr>) i p)" for i p
    by (rule worker_inv_safe [OF safe_step_trans [OF safe_pending [OF safe_step_refl] safe_frame_finish] inv])
      (use set_drop_nth [of j "wk_pending w"] in \<open>auto simp del: drop_nth.simps\<close>)
  with Wk_Resume inv show ?thesis by (auto simp del: drop_nth.simps split: prod.split)
qed

lemma worker_inv_run: "worker_inv w \<Longrightarrow> worker_inv (worker_run C w evs)"
  by (induction evs arbitrary: w) (simp_all add: worker_inv_step)

lemma worker_inv_new: "worker_inv new_worker"
  by (simp add: worker_inv_def new_worker_def refs_ok_def failed_ok_def)


lemma failed_context_silent:
  assumes inv: "worker_inv w" and c: "c \<in> set (wk_failed w)" and ev: "\<not> teardown c ev"
  shows "c \<in> set (wk_failed (worker_step C w ev)) \<and>
    filter (\<lambda>x. fst x = c) (wk_enqueued (worker_step C w ev)) = filter (\<lambda>x. fst x = c) (wk_enqueued w)"
proof (cases ev)
  case (Wk_Message cmd)
  have "c \<in> set (wk_failed (worker_message C w cmd))"
    using c ev Wk_Message by (auto simp: worker_message_def destroyContext_def Let_def split: option.split)
  then show ?thesis by (simp add: Wk_Message)
next
  case (Wk_Transform options)
  then show ?thesis using c by (simp add: rtctransform_def Let_def split: option.split)
next
  case (Wk_Frame i f)
  then show ?thesis using c by simp
next
  case (Wk_Resume j)
  show ?thesis
  proof (cases "j < length (wk_pending w)")
    case True
    let ?w = "w\<lparr>wk_pending := drop_nth j (wk_pending w)\<rparr>"
    obtain i p where x: "wk_pending w ! j = (i, p)" by force
    have ok: "pending_ok w (i, p)" using inv True x by (auto simp: worker_inv_def list_all_iff dest: nth_mem)
    have none: "map_of (wk_encryptors w) c = None" "map_of (wk_decryptors w) c = None"
      using inv c by (auto simp: worker_inv_def failed_ok_def)
    have "c \<in> set (wk_failed (frame_failed w' i e))" if "wk_failed w' = wk_failed w" for w' e
      using c that by (cases rule: frame_failed_cases [of w' i e]) (auto simp: destroyContext_def Let_def)
    then have "c \<in> set (wk_failed (frame_finish C ?w i p))"
      using c by (auto simp: frame_finish_def enqueue_frame_def split: pending_frame.split sum.split prod.split)
    moreover have "filter (\<lambda>x. fst x = c) (wk_enqueued (frame_finish C ?w i p)) = filter (\<lambda>x. fst x = c) (wk_enqueued w)"
    proof (cases p)
      case (Pend_Encrypt r n parts)
      then show ?thesis using ok none encryptMediaFrame_finish_destroyed [of "wk_encs w ! r" C n parts]
        by (cases "mt_contextId (wk_transforms w ! i) = c")
          (auto simp: frame_finish_def enqueue_frame_def live_enc_def split: sum.split)
    next
      case (Pend_Decrypt r fr)
      obtain res ctx where fin: "decryptMediaFrame_finish C (wk_decs w ! r) fr = (res, ctx)" by force
      show ?thesis using ok none decryptMediaFrame_finish_destroyed(2) [OF fin] Pend_Decrypt fin
        by (cases "mt_contextId (wk_transforms w ! i) = c")
          (auto simp: frame_finish_def enqueue_frame_def live_dec_def split: sum.split)
    qed (simp add: frame_finish_def)
    ultimately show ?thesis using True x by (simp add: Wk_Resume del: drop_nth.simps)
  qed (use c Wk_Resume in simp)
qed

text \<open>C7. A failed context fails closed. Take any state the worker reaches from its start in which a
  transform of a context has failed on its codec or envelope. Whatever follows, new keys, new transforms,
  more frames, and completions of frames that were already being encrypted or decrypted when it failed,
  no further frame of that context is emitted until the context is explicitly cleared, and the context
  stays marked as failed.\<close>

theorem failed_context_emits_nothing:
  assumes "c \<in> set (wk_failed (worker_run C new_worker before))"
    and "list_all (\<lambda>ev. \<not> teardown c ev) events"
  shows "let w = worker_run C new_worker before; w' = worker_run C w events in
    c \<in> set (wk_failed w') \<and> filter (\<lambda>x. fst x = c) (wk_enqueued w') = filter (\<lambda>x. fst x = c) (wk_enqueued w)"
proof -
  have "worker_inv w \<Longrightarrow> c \<in> set (wk_failed w) \<Longrightarrow> list_all (\<lambda>ev. \<not> teardown c ev) events \<Longrightarrow>
    c \<in> set (wk_failed (worker_run C w events)) \<and>
    filter (\<lambda>x. fst x = c) (wk_enqueued (worker_run C w events)) = filter (\<lambda>x. fst x = c) (wk_enqueued w)" for w
  proof (induction events arbitrary: w)
    case (Cons ev events)
    then show ?case using failed_context_silent [of w c ev C] worker_inv_step [of w C ev] by simp
  qed simp
  then show ?thesis using assms worker_inv_run [OF worker_inv_new] unfolding Let_def by blast
qed


text \<open>A run that fails: a sending key, a transform, and a frame of an unsupported codec.\<close>

definition failing_run :: "worker_event list" where
  "failing_run = [Wk_Message (set_key_command Encrypt ''c'' ''0123456789abcdef'' (replicate 16 7)),
     Wk_Transform [(''version'', JInt 1), (''frameEnvelope'', JStr ''codec-prefix-v1''),
       (''contextId'', JStr ''c''), (''direction'', JStr ''encrypt'')],
     Wk_Frame 0 \<lparr>mf_data = [2], mf_type = None, mf_mimeType = ''video/h264''\<rparr>, Wk_Resume 0]"

lemma toy_ids: "CONTEXT_ID ''c''" "KEY_ID ''0123456789abcdef''"
  by (simp_all add: CONTEXT_ID_def KEY_ID_def matches_def context_char_def lower_hex_def)

lemma failing_run_fails: "''c'' \<in> set (wk_failed (worker_run plain_crypto new_worker failing_run))"
proof -
  let ?ctx = "\<lparr>ec_kid = key_number ''0123456789abcdef'', ec_key = replicate 16 7,
    ec_derived = deriveKey plain_crypto (replicate 16 7) (key_number ''0123456789abcdef''),
    ec_counter = 0, ec_destroyed = False\<rparr>"
  have new: "new_encrypt_context plain_crypto (key_number ''0123456789abcdef'') (replicate 16 7) 0 = Inr ?ctx"
    by (simp add: new_encrypt_context_def assertUint64_def MAX_UINT64_def SFRAME_BASE_KEY_BYTES_def)
  have codec: "codecLayout \<lparr>mf_data = [2], mf_type = None, mf_mimeType = ''video/h264''\<rparr>
      = Inl (SFrameError ''media_codec_unsupported'')"
    by (simp add: codecLayout_def Let_def char_lower_def less_eq_char_def)
  have w1: "worker_message plain_crypto new_worker (set_key_command Encrypt ''c'' ''0123456789abcdef'' (replicate 16 7))
      = new_worker\<lparr>wk_encs := [?ctx], wk_encryptors := [(''c'', 0)],
          wk_seenKeyIds := [(''encrypt:c'', [''0123456789abcdef''])]\<rparr>"
    unfolding worker_message_set_key using toy_ids
    by (simp add: set_key_def new_worker_def seen_keys_def MAX_CONTEXT_KEYS_def install_encryptor_def
        destroy_encryptor_def new historyId_def set_add_def Let_def)
  show ?thesis
    unfolding failing_run_def foldl.simps worker_step.simps w1
    using toy_ids
    by (simp add: rtctransform_def SFRAME_MEDIA_ENVELOPE_def js_simps new_worker_def frame_begin_def
        encryptMediaFrame_begin_def codec frame_finish_def frame_failed_def reportTransformFailure_def
        TRANSFORM_FAILURES_def Let_def)
qed

theorem failed_context_emits_nothing_witness:
  "let w = worker_run plain_crypto new_worker failing_run;
       w' = worker_run plain_crypto w [Wk_Frame 0 \<lparr>mf_data = [1], mf_type = None, mf_mimeType = ''audio/opus''\<rparr>, Wk_Resume 0]
   in ''c'' \<in> set (wk_failed w') \<and>
      filter (\<lambda>x. fst x = ''c'') (wk_enqueued w') = filter (\<lambda>x. fst x = ''c'') (wk_enqueued w)"
  by (rule failed_context_emits_nothing [OF failing_run_fails]) simp

subsection \<open>Bounded key material\<close>

definition seen_ok :: "sframe_worker \<Rightarrow> bool" where
  "seen_ok w \<longleftrightarrow> (\<forall>h s. map_of (wk_seenKeyIds w) h = Some s \<longrightarrow> distinct s \<and> length s \<le> MAX_CONTEXT_KEYS)"

definition recv_ok :: "sframe_worker \<Rightarrow> bool" where
  "recv_ok w \<longleftrightarrow> inj_on (map_of (wk_decryptors w)) (dom (map_of (wk_decryptors w))) \<and>
     (\<forall>c r ks. map_of (wk_decryptors w) c = Some r \<longrightarrow> map_of (wk_decryptorKeyIds w) c = Some ks \<longrightarrow>
        length ks \<le> 8 \<and> dom (dc_keys (wk_decs w ! r)) \<subseteq> key_number ` set ks)"

lemma recv_ok_shrink:
  assumes "recv_ok w" "refs_ok w"
    and "map_of (wk_decryptors w') \<subseteq>\<^sub>m map_of (wk_decryptors w)"
    and "map_of (wk_decryptorKeyIds w') \<subseteq>\<^sub>m map_of (wk_decryptorKeyIds w)"
    and "\<And>r. r < length (wk_decs w) \<Longrightarrow> dom (dc_keys (wk_decs w' ! r)) \<subseteq> dom (dc_keys (wk_decs w ! r))"
  shows "recv_ok w'"
proof -
  have sub: "map_of (wk_decryptors w') c = Some r \<Longrightarrow> map_of (wk_decryptors w) c = Some r"
    "map_of (wk_decryptorKeyIds w') c = Some ks \<Longrightarrow> map_of (wk_decryptorKeyIds w) c = Some ks" for c r ks
    using assms(3,4) by (auto simp: map_le_def dom_def)
  have inj: "map_of (wk_decryptors w) c = Some r \<Longrightarrow> map_of (wk_decryptors w) c' = Some r \<Longrightarrow> c = c'" for c c' r
    using assms(1) by (auto simp: recv_ok_def inj_on_def dom_def)
  show ?thesis
    unfolding recv_ok_def
  proof (intro conjI allI impI)
    show "inj_on (map_of (wk_decryptors w')) (dom (map_of (wk_decryptors w')))"
      using inj sub(1) by (auto simp: inj_on_def)
  next
    fix c r ks assume c: "map_of (wk_decryptors w') c = Some r" "map_of (wk_decryptorKeyIds w') c = Some ks"
    show "length ks \<le> 8" using sub(1) [OF c(1)] sub(2) [OF c(2)] assms(1) by (auto simp: recv_ok_def)
    show "dom (dc_keys (wk_decs w' ! r)) \<subseteq> key_number ` set ks"
      using assms(5) [of r] sub(1) [OF c(1)] sub(2) [OF c(2)] assms(1,2) by (fastforce simp: recv_ok_def refs_ok_def)
  qed
qed

lemma retire_keys_bounds:
  assumes "retire_keys ctx ks = (ctx', ks')" "dom (dc_keys ctx) \<subseteq> key_number ` set ks"
  shows "length ks' \<le> 8" "dom (dc_keys ctx') \<subseteq> key_number ` set ks'"
proof -
  have "length ks' \<le> 8 \<and> dom (dc_keys ctx') \<subseteq> key_number ` set ks'"
    using assms
    by (induction ctx ks arbitrary: ctx' ks' rule: retire_keys.induct)
      (auto simp: removeKey_def split: if_splits)
  then show "length ks' \<le> 8" "dom (dc_keys ctx') \<subseteq> key_number ` set ks'" by auto
qed


lemma map_le_delete [simp]: "m(c := None) \<subseteq>\<^sub>m m"
  by (simp add: map_le_def)

lemma nth_list_update_read: "r < length xs \<Longrightarrow> xs[i := y] ! r = (if i = r then y else xs ! r)"
  by simp

lemma destroy_decryptor_dom: "r < length (wk_decs w) \<Longrightarrow>
  dom (dc_keys (wk_decs (destroy_decryptor w c) ! r)) \<subseteq> dom (dc_keys (wk_decs w ! r))"
  by (simp add: destroy_decryptor_def decrypt_destroy_def nth_list_update_read split: option.split)

lemma recv_ok_drop_contexts: "recv_ok w \<Longrightarrow> refs_ok w \<Longrightarrow> recv_ok (drop_contexts w c)"
  by (erule (1) recv_ok_shrink) (simp_all add: destroy_decryptor_dom)

lemma recv_ok_cong:
  assumes "wk_decs w' = wk_decs w" "wk_decryptors w' = wk_decryptors w" "wk_decryptorKeyIds w' = wk_decryptorKeyIds w"
  shows "recv_ok w' = recv_ok w"
  using assms by (simp add: recv_ok_def)

lemma recv_ok_destroyContext: "recv_ok w \<Longrightarrow> refs_ok w \<Longrightarrow> recv_ok (destroyContext w c b)"
  using recv_ok_drop_contexts [of w c]
  by (subst recv_ok_cong [of _ "drop_contexts w c"]) (simp_all add: destroyContext_def Let_def)

lemma recv_ok_open:
  assumes "recv_ok w" "refs_ok w" "open_decryptor w c = (w1, r, ks)"
  shows "recv_ok w1" "map_of (wk_decryptors w1) c = Some r" "map_of (wk_decryptorKeyIds w1) c = Some ks"
    "r < length (wk_decs w1)"
proof -
  show "map_of (wk_decryptors w1) c = Some r" "map_of (wk_decryptorKeyIds w1) c = Some ks" "r < length (wk_decs w1)"
    using assms(2,3) by (auto simp: open_decryptor_def refs_ok_def split: option.splits)
  show "recv_ok w1"
  proof (cases "w1 = w")
    case False
    have old: "map_of (wk_decryptors w) c' = Some r' \<Longrightarrow> r' < length (wk_decs w)" for c' r'
      using assms(2) by (simp add: refs_ok_def)
    have w1: "wk_decs w1 = wk_decs w @ [new_decrypt_context]"
      "map_of (wk_decryptors w1) = (map_of (wk_decryptors w))(c \<mapsto> length (wk_decs w))"
      "map_of (wk_decryptorKeyIds w1) = (map_of (wk_decryptorKeyIds w))(c \<mapsto> [])"
      using assms(3) False by (auto simp: open_decryptor_def split: option.splits)
    have "inj_on (map_of (wk_decryptors w1)) (dom (map_of (wk_decryptors w1)))"
      using assms(1) old unfolding w1 recv_ok_def inj_on_def dom_def by auto (metis less_irrefl)+
    moreover have "length ks' \<le> 8 \<and> dom (dc_keys (wk_decs w1 ! r')) \<subseteq> key_number ` set ks'"
      if "map_of (wk_decryptors w1) c' = Some r'" "map_of (wk_decryptorKeyIds w1) c' = Some ks'" for c' r' ks'
    proof (cases "c' = c")
      case True
      then show ?thesis using that by (auto simp: w1 new_decrypt_context_def)
    next
      case False
      then have "map_of (wk_decryptors w) c' = Some r'" "map_of (wk_decryptorKeyIds w) c' = Some ks'"
        using that by (simp_all add: w1)
      then show ?thesis using assms(1) old [of c' r'] unfolding recv_ok_def w1 by (simp add: nth_append)
    qed
    ultimately show ?thesis by (simp add: recv_ok_def)
  qed (use assms(1) in simp)
qed

lemma setKey_dom: "setKey C ctx kid b = Inr ctx' \<Longrightarrow> dom (dc_keys ctx') = insert kid (dom (dc_keys ctx))"
  by (auto simp: setKey_def removeKey_def Let_def split: sum.splits if_splits)

lemma recv_ok_install:
  assumes "recv_ok w" "refs_ok w" shows "recv_ok (install_decryptor C w c k b)"
proof -
  obtain w1 r ks where o: "open_decryptor w c = (w1, r, ks)" by (cases "open_decryptor w c")
  note w1 = recv_ok_open [OF assms o]
  show ?thesis
  proof (cases "setKey C (wk_decs w1 ! r) (key_number k) b")
    case (Inl e)
    then show ?thesis using w1(1) by (simp add: install_decryptor_def o)
  next
    case (Inr ctx)
    obtain ctx' ks' where rk: "retire_keys ctx (set_add k ks) = (ctx', ks')" by force
    have "dom (dc_keys (wk_decs w1 ! r)) \<subseteq> key_number ` set ks" using w1(1-3) by (auto simp: recv_ok_def)
    then have "dom (dc_keys ctx) \<subseteq> key_number ` set (set_add k ks)" using setKey_dom [OF Inr] by auto
    note new = retire_keys_bounds [OF rk this]
    let ?w = "w1\<lparr>wk_decs := (wk_decs w1)[r := ctx'], wk_decryptorKeyIds := map_set c ks' (wk_decryptorKeyIds w1)\<rparr>"
    have "length ks2 \<le> 8 \<and> dom (dc_keys (wk_decs ?w ! r2)) \<subseteq> key_number ` set ks2"
      if "map_of (wk_decryptors ?w) c2 = Some r2" "map_of (wk_decryptorKeyIds ?w) c2 = Some ks2" for c2 r2 ks2
    proof (cases "c2 = c")
      case True
      then show ?thesis using that new w1(2,4) by auto
    next
      case False
      then have "map_of (wk_decryptors w1) c2 = Some r2" "map_of (wk_decryptorKeyIds w1) c2 = Some ks2" "r2 \<noteq> r"
        using that w1(1,2) by (auto simp: recv_ok_def inj_on_def dom_def) 
      then show ?thesis using w1(1) unfolding recv_ok_def by simp
    qed
    then have "recv_ok ?w" using w1(1) by (simp add: recv_ok_def)
    then show ?thesis using w1(1) Inr rk by (simp add: install_decryptor_def o)
  qed
qed


lemma seen_ok_le: "seen_ok w \<Longrightarrow> map_of (wk_seenKeyIds w') \<subseteq>\<^sub>m map_of (wk_seenKeyIds w) \<Longrightarrow> seen_ok w'"
  unfolding seen_ok_def map_le_def by (metis domI)

lemma seen_ok_update:
  assumes "seen_ok w" "wk_seenKeyIds w' = map_set h s (wk_seenKeyIds w)" "distinct s" "length s \<le> MAX_CONTEXT_KEYS"
  shows "seen_ok w'"
  unfolding seen_ok_def
proof (intro allI impI)
  fix h' s' assume m: "map_of (wk_seenKeyIds w') h' = Some s'"
  show "distinct s' \<and> length s' \<le> MAX_CONTEXT_KEYS"
  proof (cases "h' = h")
    case True
    then show ?thesis using m assms(2-4) by simp
  next
    case False
    then have "map_of (wk_seenKeyIds w) h' = Some s'" using m assms(2) by simp
    then show ?thesis using assms(1) unfolding seen_ok_def by blast
  qed
qed

lemma set_key_history:
  "wk_seenKeyIds (set_key C w d c k b) =
     (if c \<in> set (wk_failed w) then wk_seenKeyIds w
      else if k \<in> set (seen_keys w d c) \<or> MAX_CONTEXT_KEYS \<le> length (seen_keys w d c)
      then map_set (historyId d c) (seen_keys w d c) (wk_seenKeyIds w)
      else map_set (historyId d c) (set_add k (seen_keys w d c))
             (map_set (historyId d c) (seen_keys w d c) (wk_seenKeyIds w)))"
  by (simp add: set_key_def Let_def split: direction.split)

lemma seen_ok_set_key: "seen_ok w \<Longrightarrow> seen_ok (set_key C w d c k b)"
proof -
  assume s: "seen_ok w"
  have d: "distinct (seen_keys w d c)" "length (seen_keys w d c) \<le> MAX_CONTEXT_KEYS"
    using s by (cases "map_of (wk_seenKeyIds w) (historyId d c)"; simp add: seen_keys_def; (unfold seen_ok_def, blast)?)+
  let ?w = "w\<lparr>wk_seenKeyIds := map_set (historyId d c) (seen_keys w d c) (wk_seenKeyIds w)\<rparr>"
  have w: "seen_ok ?w" by (rule seen_ok_update [OF s _ d]) simp
  consider (failed) "c \<in> set (wk_failed w)"
    | (old) "c \<notin> set (wk_failed w)" "k \<in> set (seen_keys w d c) \<or> MAX_CONTEXT_KEYS \<le> length (seen_keys w d c)"
    | (new) "c \<notin> set (wk_failed w)" "k \<notin> set (seen_keys w d c)" "length (seen_keys w d c) < MAX_CONTEXT_KEYS"
    by fastforce
  then show ?thesis
  proof cases
    case failed
    then show ?thesis using s by (simp add: set_key_def)
  next
    case old
    then show ?thesis by (intro seen_ok_update [OF s _ d]) (simp add: set_key_history)
  next
    case new
    then show ?thesis
      by (intro seen_ok_update [OF w, of _ "historyId d c" "set_add k (seen_keys w d c)"])
        (simp_all add: set_key_history d length_set_add)
  qed
qed

lemma seen_ok_cong: "wk_seenKeyIds w' = wk_seenKeyIds w \<Longrightarrow> seen_ok w' = seen_ok w"
  by (simp add: seen_ok_def)

lemma seen_ok_delete: "seen_ok w \<Longrightarrow> wk_seenKeyIds w' = map_delete h (map_delete h' (wk_seenKeyIds w)) \<Longrightarrow> seen_ok w'"
  by (erule seen_ok_le) (simp add: map_le_def)

lemma destroyContext_seen: "wk_seenKeyIds (destroyContext w c b) =
    map_delete (historyId Decrypt c) (map_delete (historyId Encrypt c) (wk_seenKeyIds w))"
  by (simp add: destroyContext_def Let_def)

definition bounded_inv :: "sframe_worker \<Rightarrow> bool" where
  "bounded_inv w \<longleftrightarrow> worker_inv w \<and> seen_ok w \<and> recv_ok w"

lemma recv_ok_set_key: "recv_ok w \<Longrightarrow> refs_ok w \<Longrightarrow> recv_ok (set_key C w d c k b)"
proof -
  assume w: "recv_ok w" "refs_ok w"
  let ?s = "\<lambda>s. w\<lparr>wk_seenKeyIds := s\<rparr>"
  have s: "recv_ok (?s s)" "refs_ok (?s s)" for s using w by (simp_all add: recv_ok_def refs_ok_def)
  have "recv_ok (snd (reportTransformFailure (drop_contexts (?s s) c) c d e))" for s e
    using recv_ok_drop_contexts [OF s, of s c] by (subst recv_ok_cong [of _ "drop_contexts (?s s) c"]) simp_all
  moreover have "recv_ok (install_encryptor C (?s s) c k b)" for s
    using s(1) [of s] by (subst recv_ok_cong [of _ "?s s"]) simp_all
  ultimately show ?thesis using w s recv_ok_install [OF s]
    by (simp add: set_key_def Let_def split: direction.split)
qed

lemma bounded_message:
  assumes "bounded_inv w" shows "bounded_inv (worker_message C w cmd)"
proof -
  have w: "worker_inv w" "seen_ok w" "recv_ok w" "refs_ok w" using assms by (auto simp: bounded_inv_def worker_inv_def)
  have clear: "seen_ok (clearAll w)" "recv_ok (clearAll w)"
    by (simp_all add: clearAll_def Let_def seen_ok_def recv_ok_def)
  have "seen_ok (worker_message C w cmd)"
    using w clear seen_ok_set_key [OF w(2)] seen_ok_delete [OF w(2) destroyContext_seen]
    by (simp add: worker_message_def split: option.split)
  moreover have "recv_ok (worker_message C w cmd)"
    using w clear recv_ok_set_key [OF w(3,4)] recv_ok_destroyContext [OF w(3,4)]
    by (simp add: worker_message_def split: option.split)
  moreover have "worker_inv (worker_message C w cmd)"
    using worker_inv_step [OF w(1), of C "Wk_Message cmd"] by simp
  ultimately show ?thesis by (simp add: bounded_inv_def)
qed

lemma decryptMediaFrame_finish_dom:
  "decryptMediaFrame_finish C ctx fr = (r, ctx') \<Longrightarrow> dom (dc_keys ctx') = dom (dc_keys ctx)"
  by (auto simp: decryptMediaFrame_finish_def decrypt_finish_def split: sum.splits option.splits if_splits bool.splits)

lemma recv_ok_frame_failed: "recv_ok w \<Longrightarrow> refs_ok w \<Longrightarrow> recv_ok (frame_failed w i e)"
proof (cases rule: frame_failed_cases [of w i e])
  case (fatal r p w2)
  assume w: "recv_ok w" "refs_ok w"
  let ?h = "halt (w\<lparr>wk_reported := r, wk_posted := p\<rparr>) i"
  have "recv_ok ?h" "refs_ok ?h" using w by (simp_all add: recv_ok_def refs_ok_def)
  then have "recv_ok w2" unfolding fatal(1) by (rule recv_ok_destroyContext)
  then show ?thesis unfolding fatal(2) by (simp add: recv_ok_def)
qed simp

lemma seen_ok_frame_failed: "seen_ok w \<Longrightarrow> seen_ok (frame_failed w i e)"
proof (cases rule: frame_failed_cases [of w i e])
  case (fatal r p w2)
  assume "seen_ok w"
  then show ?thesis unfolding fatal(2) fatal(1)
    by (rule seen_ok_delete) (simp add: destroyContext_seen)
qed simp

lemma enqueue_frame_bounded: "recv_ok (enqueue_frame w i y) = recv_ok w" "seen_ok (enqueue_frame w i y) = seen_ok w"
  by (rule recv_ok_cong seen_ok_cong; simp add: enqueue_frame_def)+

lemma bounded_finish:
  assumes "seen_ok w" "recv_ok w" "refs_ok w"
  shows "seen_ok (frame_finish C w i p) \<and> recv_ok (frame_finish C w i p)"
proof (cases p)
  case (Pend_Decrypt r fr)
  obtain res ctx where fin: "decryptMediaFrame_finish C (wk_decs w ! r) fr = (res, ctx)" by force
  let ?w = "w\<lparr>wk_decs := (wk_decs w)[r := ctx]\<rparr>"
  have "recv_ok ?w"
    by (rule recv_ok_shrink [OF assms(2,3)]) (simp_all add: nth_list_update_read decryptMediaFrame_finish_dom [OF fin])
  moreover have "refs_ok ?w" using assms(3) by (simp add: refs_ok_def)
  moreover have "seen_ok ?w" using assms(1) by (simp add: seen_ok_cong [of ?w w])
  ultimately show ?thesis
    using fin by (simp add: frame_finish_def Pend_Decrypt enqueue_frame_bounded recv_ok_frame_failed seen_ok_frame_failed split: sum.split)
next
  case (Pend_Encrypt r n parts)
  show ?thesis using assms
    by (simp add: frame_finish_def Pend_Encrypt enqueue_frame_bounded recv_ok_frame_failed seen_ok_frame_failed split: sum.split)
qed (use assms in \<open>simp add: frame_finish_def recv_ok_frame_failed seen_ok_frame_failed\<close>)

lemma bounded_step:
  assumes b: "bounded_inv w" shows "bounded_inv (worker_step C w ev)"
proof -
  have inv: "worker_inv (worker_step C w ev)" using worker_inv_step b by (simp add: bounded_inv_def)
  have w: "seen_ok w" "recv_ok w" "refs_ok w" using b by (simp_all add: bounded_inv_def worker_inv_def)
  have same: "bounded_inv (worker_step C w ev)"
    if "wk_seenKeyIds (worker_step C w ev) = wk_seenKeyIds w" "wk_decs (worker_step C w ev) = wk_decs w"
      "wk_decryptors (worker_step C w ev) = wk_decryptors w"
      "wk_decryptorKeyIds (worker_step C w ev) = wk_decryptorKeyIds w"
    unfolding bounded_inv_def recv_ok_cong [OF that(2-4)] seen_ok_cong [OF that(1)] using inv w by simp
  show ?thesis
  proof (cases ev)
    case (Wk_Message cmd)
    then show ?thesis using bounded_message [OF b] by simp
  next
    case (Wk_Transform options)
    show ?thesis by (rule same) (simp_all add: Wk_Transform rtctransform_def Let_def split: option.split)
  next
    case (Wk_Frame i f)
    show ?thesis by (rule same) (simp_all add: Wk_Frame)
  next
    case (Wk_Resume j)
    let ?w = "w\<lparr>wk_pending := drop_nth j (wk_pending w)\<rparr>"
    have "seen_ok ?w" "recv_ok ?w" "refs_ok ?w"
      using w recv_ok_cong [of ?w w] seen_ok_cong [of ?w w] by (simp_all add: refs_ok_def del: drop_nth.simps)
    note fin = bounded_finish [OF this]
    show ?thesis
    proof (cases "j < length (wk_pending w)")
      case True
      obtain i p where "wk_pending w ! j = (i, p)" by force
      then show ?thesis using inv fin [of C i p] True by (simp add: Wk_Resume bounded_inv_def del: drop_nth.simps)
    qed (use b Wk_Resume in simp)
  qed
qed

text \<open>C8. The worker keeps a bounded amount of key material. In every state it reaches, the history of
  key ids of a context and direction has no repetitions and at most 512 entries, and a receiving context
  that a context id names holds at most eight keys.\<close>

theorem worker_keys_bounded:
  "let w = worker_run C new_worker events in
     (\<forall>h s. map_of (wk_seenKeyIds w) h = Some s \<longrightarrow> distinct s \<and> length s \<le> 512) \<and>
     (\<forall>c r. map_of (wk_decryptors w) c = Some r \<longrightarrow>
        finite (dom (dc_keys (wk_decs w ! r))) \<and> card (dom (dc_keys (wk_decs w ! r))) \<le> 8)"
proof -
  define w where "w = worker_run C new_worker events"
  have "bounded_inv new_worker"
    using worker_inv_new by (simp add: bounded_inv_def new_worker_def seen_ok_def recv_ok_def)
  then have b: "bounded_inv w"
    unfolding w_def by (induction events rule: rev_induct) (simp_all add: bounded_step)
  have "finite (dom (dc_keys (wk_decs w ! r))) \<and> card (dom (dc_keys (wk_decs w ! r))) \<le> 8"
    if cr: "map_of (wk_decryptors w) c = Some r" for c r
  proof -
    have "refs_ok w" using b by (simp add: bounded_inv_def worker_inv_def)
    then have "map_of (wk_decryptorKeyIds w) c \<noteq> None"
      using cr unfolding refs_ok_def by (metis option.distinct(1))
    then obtain ks where ks: "length ks \<le> 8" "dom (dc_keys (wk_decs w ! r)) \<subseteq> key_number ` set ks"
      using b cr unfolding bounded_inv_def recv_ok_def by blast
    have "card (key_number ` set ks) \<le> length ks" by (metis card_image_le card_length finite_set le_trans)
    then show ?thesis using ks finite_subset [OF ks(2)] card_mono [OF _ ks(2)] by auto
  qed
  moreover have "distinct s \<and> length s \<le> 512" if "map_of (wk_seenKeyIds w) h = Some s" for h s
    using b that unfolding bounded_inv_def seen_ok_def MAX_CONTEXT_KEYS_def by blast
  ultimately show ?thesis unfolding Let_def w_def [symmetric] by blast
qed

theorem worker_keys_bounded_witness:
  "let w = worker_run plain_crypto new_worker failing_run in
     \<forall>h s. map_of (wk_seenKeyIds w) h = Some s \<longrightarrow> distinct s \<and> length s \<le> 512"
  using worker_keys_bounded [of plain_crypto failing_run] unfolding Let_def by blast

end
