(* ===== verification/Overlay_Queue.thy ===== *)
theory Overlay_Queue
  imports Js_Collections
begin

text \<open>
  \<^verbatim>\<open>webrtc/bounded-overlay-queue.ts\<close>: the send queue of a data channel, one list of payloads per traffic
  class, with limits per class. \<open>send\<close> is the callback of the channel; it may change the channel's state,
  which is threaded through. The length of a payload is the one JavaScript sees (UTF-16 units).
\<close>

datatype traffic_class = Control | Rekey | Event | Bulk

definition TRAFFIC_CLASSES :: "traffic_class list" where
  "TRAFFIC_CLASSES = [Control, Rekey, Event, Bulk]"

record queue_limit =
  ql_messages :: nat
  ql_bytes :: nat

fun QUEUE_LIMITS :: "traffic_class \<Rightarrow> queue_limit" where
  "QUEUE_LIMITS Control = \<lparr>ql_messages = 32, ql_bytes = 128 * 1024\<rparr>"
| "QUEUE_LIMITS Rekey = \<lparr>ql_messages = 32, ql_bytes = 128 * 1024\<rparr>"
| "QUEUE_LIMITS Event = \<lparr>ql_messages = 64, ql_bytes = 512 * 1024\<rparr>"
| "QUEUE_LIMITS Bulk = \<lparr>ql_messages = 96, ql_bytes = 1024 * 1024\<rparr>"

type_synonym overlay_queue = "traffic_class \<Rightarrow> string list"

definition new_queue :: overlay_queue where
  "new_queue = (\<lambda>_. [])"

abbreviation queued_bytes :: "string list \<Rightarrow> nat" where
  "queued_bytes xs \<equiv> sum_list (map js_length xs)"

definition enqueue :: "overlay_queue \<Rightarrow> traffic_class \<Rightarrow> string \<Rightarrow> bool \<times> overlay_queue" where
  "enqueue q trafficClass payload =
     (let queue = q trafficClass; limit = QUEUE_LIMITS trafficClass; bytes = queued_bytes queue in
      if length queue \<ge> ql_messages limit \<or> bytes + js_length payload > ql_bytes limit then
        if trafficClass = Bulk then (False, q)
        else (True, q(trafficClass := drop 1 queue @ [payload]))
      else (True, q(trafficClass := queue @ [payload])))"

fun drain :: "('s \<Rightarrow> string \<Rightarrow> bool \<times> 's) \<Rightarrow> 's \<Rightarrow> string list \<Rightarrow> string list \<times> 's" where
  "drain send s [] = ([], s)"
| "drain send s (x # xs) =
     (case send s x of (True, s') \<Rightarrow> drain send s' xs | (False, s') \<Rightarrow> (x # xs, s'))"

fun flush_classes ::
  "('s \<Rightarrow> string \<Rightarrow> bool \<times> 's) \<Rightarrow> 's \<Rightarrow> overlay_queue \<Rightarrow> traffic_class list \<Rightarrow> overlay_queue \<times> 's" where
  "flush_classes send s q [] = (q, s)"
| "flush_classes send s q (c # cs) =
     (case drain send s (q c) of (rest, s') \<Rightarrow> flush_classes send s' (q(c := rest)) cs)"

definition flush :: "('s \<Rightarrow> string \<Rightarrow> bool \<times> 's) \<Rightarrow> 's \<Rightarrow> overlay_queue \<Rightarrow> overlay_queue \<times> 's" where
  "flush send s q = flush_classes send s q TRAFFIC_CLASSES"

definition clear_queue :: "overlay_queue \<Rightarrow> overlay_queue" where
  "clear_queue q = (\<lambda>_. [])"

subsection \<open>Limits\<close>

definition queue_ok :: "overlay_queue \<Rightarrow> bool" where
  "queue_ok q \<longleftrightarrow> (\<forall>c. length (q c) \<le> ql_messages (QUEUE_LIMITS c)) \<and>
     queued_bytes (q Bulk) \<le> ql_bytes (QUEUE_LIMITS Bulk)"

lemma queue_ok_enqueue: "queue_ok q \<Longrightarrow> queue_ok (snd (enqueue q c p))"
proof -
  assume q: "queue_ok q"
  have pos: "0 < ql_messages (QUEUE_LIMITS c)" by (cases c) simp_all
  have "length (snd (enqueue q c p) d) \<le> ql_messages (QUEUE_LIMITS d)" for d
  proof (cases "d = c")
    case True
    have "length (q c) \<le> ql_messages (QUEUE_LIMITS c)" using q by (simp add: queue_ok_def)
    then show ?thesis using True pos by (auto simp: enqueue_def Let_def not_le)
  next
    case False
    then show ?thesis using q by (auto simp: enqueue_def Let_def queue_ok_def)
  qed
  moreover have "queued_bytes (snd (enqueue q c p) Bulk) \<le> ql_bytes (QUEUE_LIMITS Bulk)"
    using q by (cases "c = Bulk") (auto simp: enqueue_def Let_def queue_ok_def)
  ultimately show ?thesis by (simp add: queue_ok_def)
qed

lemma drain_suffix:
  assumes "drain send s xs = (rest, s')" shows "\<exists>sent. xs = sent @ rest"
  using assms
proof (induction send s xs rule: drain.induct)
  case (2 send s x xs)
  obtain b s1 where s: "send s x = (b, s1)" by force
  show ?case
  proof (cases b)
    case True
    with 2 s obtain sent where "xs = sent @ rest" by fastforce
    then show ?thesis by (intro exI [of _ "x # sent"]) simp
  next
    case False
    with 2 s show ?thesis by simp
  qed
qed simp

lemma flush_classes_suffix:
  "flush_classes send s q cs = (q', s') \<Longrightarrow> \<exists>sent. q c = sent @ q' c"
proof (induction cs arbitrary: s q)
  case (Cons d cs)
  obtain rest s1 where d: "drain send s (q d) = (rest, s1)" by (cases "drain send s (q d)")
  from drain_suffix [OF this] obtain sent where sent: "q d = sent @ rest" by (rule exE)
  have "flush_classes send s1 (q(d := rest)) cs = (q', s')" using Cons.prems d by simp
  from Cons.IH [OF this] obtain sent' where sent': "(q(d := rest)) c = sent' @ q' c" by blast
  show ?case
  proof (cases "c = d")
    case True
    then show ?thesis using sent sent' by (intro exI [of _ "sent @ sent'"]) simp
  next
    case False
    then show ?thesis using sent' by (intro exI [of _ sent']) simp
  qed
qed simp

lemma queue_ok_flush: "queue_ok q \<Longrightarrow> queue_ok (fst (flush send s q))"
proof -
  assume q: "queue_ok q"
  obtain q' s' where f: "flush send s q = (q', s')" by force
  then have suf: "\<exists>sent. q c = sent @ q' c" for c unfolding flush_def by (rule flush_classes_suffix)
  have "length (q' c) \<le> ql_messages (QUEUE_LIMITS c)" for c
  proof -
    obtain sent where "q c = sent @ q' c" using suf by blast
    then have "length (q' c) \<le> length (q c)" by simp
    also have "\<dots> \<le> ql_messages (QUEUE_LIMITS c)" using q unfolding queue_ok_def by blast
    finally show ?thesis .
  qed
  moreover obtain sent where "q Bulk = sent @ q' Bulk" using suf by blast
  then have "queued_bytes (q' Bulk) \<le> queued_bytes (q Bulk)" by simp
  then have "queued_bytes (q' Bulk) \<le> ql_bytes (QUEUE_LIMITS Bulk)" using q unfolding queue_ok_def by linarith
  ultimately show ?thesis unfolding f by (simp add: queue_ok_def)
qed

text \<open>Everything a client does with a queue.\<close>

datatype 's queue_call = Q_Enqueue traffic_class string | Q_Flush "'s \<Rightarrow> string \<Rightarrow> bool \<times> 's" 's | Q_Clear

fun run_call :: "overlay_queue \<Rightarrow> 's queue_call \<Rightarrow> overlay_queue" where
  "run_call q (Q_Enqueue c p) = snd (enqueue q c p)"
| "run_call q (Q_Flush send s) = fst (flush send s q)"
| "run_call q Q_Clear = clear_queue q"

text \<open>C20. The overlay send queue is bounded: whatever sequence of \<open>enqueue\<close>, \<open>flush\<close> (with any behaviour
  of the channel) and \<open>clear\<close> is run on a new queue, every class holds at most its number of messages, and
  the bulk class also at most its number of bytes.\<close>

theorem overlay_queue_bounded:
  "let q = foldl run_call new_queue calls in
     (\<forall>c. length (q c) \<le> ql_messages (QUEUE_LIMITS c)) \<and> queued_bytes (q Bulk) \<le> ql_bytes (QUEUE_LIMITS Bulk)"
proof -
  have "queue_ok (foldl run_call new_queue calls)"
  proof (induction calls rule: rev_induct)
    case Nil
    then show ?case by (simp add: queue_ok_def new_queue_def)
  next
    case (snoc x xs)
    then show ?case by (cases x) (simp_all add: queue_ok_enqueue queue_ok_flush, simp add: queue_ok_def clear_queue_def)
  qed
  then show ?thesis by (simp add: queue_ok_def Let_def)
qed

subsection \<open>Order\<close>

text \<open>A channel that records what it was asked to send, and refuses from the \<open>n\<close>-th payload on.\<close>

definition recording :: "nat \<Rightarrow> string list \<Rightarrow> string \<Rightarrow> bool \<times> string list" where
  "recording n lg x = (if length lg < n then (True, lg @ [x]) else (False, lg))"

lemma drain_recording:
  "drain (recording n) lg xs = (drop (n - length lg) xs, lg @ take (n - length lg) xs)"
proof (induction xs arbitrary: lg)
  case (Cons x xs)
  show ?case
  proof (cases "length lg < n")
    case True
    then have "n - length lg = Suc (n - Suc (length lg))" by simp
    with True Cons show ?thesis by (simp add: recording_def)
  qed (simp add: recording_def)
qed simp

lemma flush_classes_recording:
  assumes "distinct cs" "length lg \<le> n"
  shows "\<exists>q'. flush_classes (recording n) lg q cs =
    (q', lg @ take (n - length lg) (concat (map q cs))) \<and>
    concat (map q' cs) = drop (n - length lg) (concat (map q cs)) \<and> (\<forall>c. c \<notin> set cs \<longrightarrow> q' c = q c)"
  using assms
proof (induction cs arbitrary: lg q)
  case (Cons c cs)
  let ?k = "n - length lg"
  let ?lg = "lg @ take ?k (q c)" and ?q = "q(c := drop ?k (q c))"
  have k: "n - length ?lg = ?k - length (q c)" using Cons.prems(2) by auto
  have "length ?lg \<le> n" using Cons.prems(2) by simp
  then obtain q' where q': "flush_classes (recording n) ?lg ?q cs =
      (q', ?lg @ take (n - length ?lg) (concat (map ?q cs)))"
    "concat (map q' cs) = drop (n - length ?lg) (concat (map ?q cs))" "\<forall>c. c \<notin> set cs \<longrightarrow> q' c = ?q c"
    using Cons.IH [of ?lg ?q] Cons.prems(1) by (meson distinct.simps(2))
  have same: "map ?q cs = map q cs" using Cons.prems(1) by auto
  have qc: "q' c = drop ?k (q c)" using q'(3) Cons.prems(1) by simp
  show ?case
  proof (intro exI conjI allI impI)
    show "flush_classes (recording n) lg q (c # cs) = (q', lg @ take ?k (concat (map q (c # cs))))"
      using q'(1) unfolding same k by (simp add: drain_recording)
    show "concat (map q' (c # cs)) = drop ?k (concat (map q (c # cs)))"
      using q'(2) unfolding same k by (simp add: qc)
  next
    fix d assume "d \<notin> set (c # cs)"
    then show "q' d = q d" using q'(3) by simp
  qed
qed simp

text \<open>\<open>flush\<close> keeps the priorities and the order. When the channel takes \<open>n\<close> payloads and then refuses,
  the payloads sent are the first \<open>n\<close> of all queued ones, control first, then rekey, event and bulk, each
  class in the order it was queued, each payload once, and exactly the others stay queued, in that order.\<close>

theorem flush_priority_order:
  "\<exists>q'. flush (recording n) [] q = (q', take n (q Control @ q Rekey @ q Event @ q Bulk)) \<and>
     q' Control @ q' Rekey @ q' Event @ q' Bulk = drop n (q Control @ q Rekey @ q Event @ q Bulk)"
  using flush_classes_recording [of TRAFFIC_CLASSES "[]" n q] by (auto simp: flush_def TRAFFIC_CLASSES_def)

text \<open>The byte limit of the other classes is not kept: a payload that exceeds it is queued all the same,
  after one older payload is dropped.\<close>

lemma control_queue_over_byte_limit:
  "ql_bytes (QUEUE_LIMITS Control) < js_length p \<Longrightarrow>
   enqueue new_queue Control p = (True, new_queue(Control := [p]))"
  by (simp add: enqueue_def new_queue_def Let_def fun_eq_iff)

end
