(* ===== verification/Topology.thy ===== *)
theory Topology
  imports Js_Collections
begin

text \<open>
  \<^verbatim>\<open>webrtc/topology-contract.ts\<close>: the check of a topology message of the signalling server. Every early
  \<open>return null\<close> is \<open>None\<close>. The two readings of the clock are the arguments \<open>now1\<close> and \<open>now2\<close>. The sort of
  the members is by code point, which is the order of the language for peer ids (they are ASCII).
\<close>

record topology_edge =
  te_leaseId :: string
  te_parent :: string
  te_backup :: "string option"
  te_child :: string
  te_depth :: int
  te_expiresAt :: int

datatype topology_mode = Adaptive_Mesh | Trusted_Peer_Relay

record topology_route =
  tr_root :: string
  tr_scope :: string
  tr_mode :: topology_mode
  tr_edges :: "topology_edge list"

record topology_state =
  ts_membershipEpoch :: int
  ts_routeEpoch :: int
  ts_topologyEpoch :: int
  ts_leaseExpiresAt :: int
  ts_peers :: "string list"
  ts_routes :: "topology_route list"

record topology_limits =
  tl_maxChildren :: int
  tl_maxHops :: int

definition js_set :: "'a list \<Rightarrow> 'a list" where
  "js_set xs = foldl (\<lambda>s x. set_add x s) [] xs"

definition LEASE_ID :: "string \<Rightarrow> bool" where
  "LEASE_ID = matches base64url_char 22 22"

definition count_of :: "(string \<times> int) list \<Rightarrow> string \<Rightarrow> int" where
  "count_of counts p = (case map_of counts p of None \<Rightarrow> 0 | Some n \<Rightarrow> n)"

text \<open>The state of the loop over the edges of one route.\<close>

record edge_scan =
  es_parents :: "(string \<times> string) list"
  es_counts :: "(string \<times> int) list"
  es_edges :: "topology_edge list"

definition read_edge :: "jsval \<Rightarrow> topology_edge option" where
  "read_edge rawEdge =
     (case rawEdge of
        JObj edge \<Rightarrow>
          if \<not> only_fields edge [''leaseId'', ''parentPeerId'', ''backupParentPeerId'', ''childPeerId'', ''depth'', ''expiresAt'']
          then None
          else (case (safe_number (js_get edge ''depth''), safe_number (js_get edge ''expiresAt'')) of
            (Some depth, Some expiresAt) \<Rightarrow>
              Some \<lparr>te_leaseId = string_or_empty (js_get edge ''leaseId''),
                    te_parent = string_or_empty (js_get edge ''parentPeerId''),
                    te_backup = (if js_get edge ''backupParentPeerId'' = JNull then None
                                 else Some (string_or_empty (js_get edge ''backupParentPeerId''))),
                    te_child = string_or_empty (js_get edge ''childPeerId''),
                    te_depth = depth, te_expiresAt = expiresAt\<rparr>
          | _ \<Rightarrow> None)
      | _ \<Rightarrow> None)"

definition edge_ok :: "string list \<Rightarrow> topology_limits \<Rightarrow> int \<Rightarrow> edge_scan \<Rightarrow> topology_edge \<Rightarrow> bool" where
  "edge_ok members limits leaseExpiresAt s e \<longleftrightarrow>
     te_parent e \<in> set members \<and> te_child e \<in> set members \<and> te_parent e \<noteq> te_child e \<and>
     1 \<le> te_depth e \<and> te_depth e \<le> tl_maxHops limits \<and>
     te_child e \<notin> set (map_keys (es_parents s)) \<and> LEASE_ID (te_leaseId e) \<and> te_expiresAt e = leaseExpiresAt \<and>
     (case te_backup e of None \<Rightarrow> True
      | Some b \<Rightarrow> b \<in> set members \<and> b \<noteq> te_parent e \<and> b \<noteq> te_child e)"

definition scan_edge :: "string list \<Rightarrow> topology_limits \<Rightarrow> int \<Rightarrow> edge_scan \<Rightarrow> jsval \<Rightarrow> edge_scan option" where
  "scan_edge members limits leaseExpiresAt s rawEdge =
     (case read_edge rawEdge of None \<Rightarrow> None | Some e \<Rightarrow>
      if \<not> edge_ok members limits leaseExpiresAt s e then None else
      let counts = map_set (te_parent e) (count_of (es_counts s) (te_parent e) + 1) (es_counts s) in
      if count_of counts (te_parent e) > tl_maxChildren limits then None
      else Some \<lparr>es_parents = map_set (te_child e) (te_parent e) (es_parents s), es_counts = counts,
                es_edges = es_edges s @ [e]\<rparr>)"

fun scan_edges :: "string list \<Rightarrow> topology_limits \<Rightarrow> int \<Rightarrow> edge_scan \<Rightarrow> jsval list \<Rightarrow> edge_scan option" where
  "scan_edges members limits lease s [] = Some s"
| "scan_edges members limits lease s (raw # raws) =
     (case scan_edge members limits lease s raw of None \<Rightarrow> None | Some s' \<Rightarrow> scan_edges members limits lease s' raws)"

text \<open>The walk from a member to the root, with the peers visited so far.\<close>

definition parent_of :: "(string \<times> string) list \<Rightarrow> string \<Rightarrow> string" where
  "parent_of parents p = (case map_of parents p of None \<Rightarrow> [] | Some q \<Rightarrow> q)"

function reaches_root :: "(string \<times> string) list \<Rightarrow> string \<Rightarrow> string list \<Rightarrow> string \<Rightarrow> bool" where
  "reaches_root parents rootId visited current =
     (if current = rootId then True else
      let up = parent_of parents current in
      if up = [] \<or> up \<in> set visited then False
      else reaches_root parents rootId (set_add up visited) up)"
  by pat_completeness auto
termination
proof (relation "measure (\<lambda>(parents, rootId, visited, current). card (set (map snd parents) - set visited))", goal_cases)
  case (2 parents rootId visited current up)
  then have "map_of parents current = Some up"
    by (cases "map_of parents current") (auto simp: parent_of_def)
  then have "up \<in> set (map snd parents)" by (force dest: map_of_SomeD)
  with 2 have "card (set (map snd parents) - insert up (set visited)) < card (set (map snd parents) - set visited)"
    by (intro psubset_card_mono) auto
  then show ?case by simp
qed simp

declare reaches_root.simps [simp del]

definition tree_ok :: "string list \<Rightarrow> string \<Rightarrow> (string \<times> string) list \<Rightarrow> bool" where
  "tree_ok members rootId parents \<longleftrightarrow>
     length parents = length members - 1 \<and> rootId \<notin> set (map_keys parents) \<and>
     list_all (\<lambda>m. m = rootId \<or> reaches_root parents rootId [m] m) members"

fun read_mode :: "string \<Rightarrow> topology_mode option" where
  "read_mode s = (if s = ''adaptive_mesh'' then Some Adaptive_Mesh
     else if s = ''trusted_peer_relay'' then Some Trusted_Peer_Relay else None)"

definition scan_route ::
  "string list \<Rightarrow> topology_limits \<Rightarrow> int \<Rightarrow> string list \<times> topology_route list \<Rightarrow> jsval
   \<Rightarrow> (string list \<times> topology_route list) option" where
  "scan_route members limits lease acc rawRoute =
     (case (acc, rawRoute) of
        ((roots, routes), JObj value) \<Rightarrow>
          if \<not> only_fields value [''rootPeerId'', ''scopeId'', ''mode'', ''edges''] then None else
          let rootId = string_or_empty (js_get value ''rootPeerId'');
              scope = string_or_empty (js_get value ''scopeId'') in
          (case (read_mode (string_or_empty (js_get value ''mode'')), js_array (js_get value ''edges'')) of
             (Some mode, Some rawEdges) \<Rightarrow>
               if rootId \<notin> set members \<or> rootId \<in> set roots \<or> scope \<noteq> ''video:'' @ rootId
                  \<or> length rawEdges > length members - 1 then None
               else (case scan_edges members limits lease \<lparr>es_parents = [], es_counts = [], es_edges = []\<rparr> rawEdges of
                 None \<Rightarrow> None
               | Some s \<Rightarrow>
                 if (mode = Adaptive_Mesh \<and> es_edges s \<noteq> [])
                    \<or> (mode = Trusted_Peer_Relay \<and> \<not> tree_ok members rootId (es_parents s)) then None
                 else Some (set_add rootId roots,
                        routes @ [\<lparr>tr_root = rootId, tr_scope = scope, tr_mode = mode, tr_edges = es_edges s\<rparr>]))
           | _ \<Rightarrow> None)
      | _ \<Rightarrow> None)"

fun scan_routes ::
  "string list \<Rightarrow> topology_limits \<Rightarrow> int \<Rightarrow> string list \<times> topology_route list \<Rightarrow> jsval list
   \<Rightarrow> (string list \<times> topology_route list) option" where
  "scan_routes members limits lease acc [] = Some acc"
| "scan_routes members limits lease acc (raw # raws) =
     (case scan_route members limits lease acc raw of None \<Rightarrow> None
      | Some acc' \<Rightarrow> scan_routes members limits lease acc' raws)"

definition member_name :: "string list \<Rightarrow> jsval \<Rightarrow> bool" where
  "member_name members v = (case v of JStr s \<Rightarrow> s \<in> set members | _ \<Rightarrow> False)"

definition validateTopologyState ::
  "int \<Rightarrow> int \<Rightarrow> (string \<times> jsval) list \<Rightarrow> string list \<Rightarrow> int \<Rightarrow> topology_limits \<Rightarrow> int \<Rightarrow> int \<Rightarrow> topology_state option" where
  "validateTopologyState now1 now2 raw peerIds lastEpoch limits lastMembershipEpoch lastRouteEpoch =
     (if \<not> only_fields raw [''version'', ''type'', ''membershipEpoch'', ''routeEpoch'', ''topologyEpoch'',
           ''leaseExpiresAt'', ''peers'', ''routes''] then None
      else if js_get raw ''version'' \<noteq> JInt 1 \<or> js_get raw ''type'' \<noteq> JStr ''topology-state'' then None
      else case (safe_number (js_get raw ''membershipEpoch''), safe_number (js_get raw ''routeEpoch''),
                 safe_number (js_get raw ''topologyEpoch''), safe_number (js_get raw ''leaseExpiresAt'')) of
        (Some membershipEpoch, Some routeEpoch, Some topologyEpoch, Some leaseExpiresAt) \<Rightarrow>
          if membershipEpoch < 1 \<or> routeEpoch < 1 \<or> topologyEpoch < 1
             \<or> membershipEpoch < lastMembershipEpoch \<or> routeEpoch \<le> lastRouteEpoch \<or> topologyEpoch \<le> lastEpoch
             \<or> leaseExpiresAt \<le> now1 \<or> leaseExpiresAt > now2 + 5 * 60000 then None else
          let members = js_set peerIds in
          (case (js_array (js_get raw ''peers''), js_array (js_get raw ''routes'')) of
             (Some peers, Some rawRoutes) \<Rightarrow>
               if length peers \<noteq> length members \<or> \<not> list_all (member_name members) peers
                  \<or> length rawRoutes \<noteq> length members then None
               else (case scan_routes members limits leaseExpiresAt ([], []) rawRoutes of None \<Rightarrow> None
                 | Some (roots, routes) \<Rightarrow>
                   if length roots \<noteq> length members then None
                   else Some \<lparr>ts_membershipEpoch = membershipEpoch, ts_routeEpoch = routeEpoch,
                          ts_topologyEpoch = topologyEpoch, ts_leaseExpiresAt = leaseExpiresAt,
                          ts_peers = sort members, ts_routes = routes\<rparr>)
           | _ \<Rightarrow> None)
      | _ \<Rightarrow> None)"

end
