(* ===== verification/Topology_Laws.thy ===== *)
theory Topology_Laws
  imports Topology
begin

text \<open>
  What a validated topology is: one route per member, and every trusted relay route a spanning tree of
  the members that is rooted at its sender.
\<close>

lemma js_set_fold: "set (foldl (\<lambda>s x. set_add x s) acc xs) = set acc \<union> set xs"
  by (induction xs arbitrary: acc) auto

lemma distinct_js_set_fold: "distinct acc \<Longrightarrow> distinct (foldl (\<lambda>s x. set_add x s) acc xs)"
  by (induction xs arbitrary: acc) auto

lemma set_js_set [simp]: "set (js_set xs) = set xs"
  by (simp add: js_set_def js_set_fold)

lemma distinct_js_set [simp]: "distinct (js_set xs)"
  by (simp add: js_set_def distinct_js_set_fold)

subsection \<open>Edges\<close>

definition edge_fields_ok :: "string list \<Rightarrow> topology_limits \<Rightarrow> int \<Rightarrow> topology_edge \<Rightarrow> bool" where
  "edge_fields_ok members limits lease e \<longleftrightarrow>
     te_parent e \<in> set members \<and> te_child e \<in> set members \<and> te_parent e \<noteq> te_child e \<and>
     1 \<le> te_depth e \<and> te_depth e \<le> tl_maxHops limits \<and> LEASE_ID (te_leaseId e) \<and> te_expiresAt e = lease \<and>
     (\<forall>b. te_backup e = Some b \<longrightarrow> b \<in> set members \<and> b \<noteq> te_parent e \<and> b \<noteq> te_child e)"

abbreviation children_of :: "topology_edge list \<Rightarrow> string \<Rightarrow> topology_edge list" where
  "children_of es p \<equiv> filter (\<lambda>e. te_parent e = p) es"

definition scan_inv :: "string list \<Rightarrow> topology_limits \<Rightarrow> int \<Rightarrow> edge_scan \<Rightarrow> bool" where
  "scan_inv members limits lease s \<longleftrightarrow>
     es_parents s = map (\<lambda>e. (te_child e, te_parent e)) (es_edges s) \<and> distinct (map te_child (es_edges s)) \<and>
     (\<forall>p. count_of (es_counts s) p = int (length (children_of (es_edges s) p))) \<and>
     (\<forall>p. children_of (es_edges s) p \<noteq> [] \<longrightarrow> int (length (children_of (es_edges s) p)) \<le> tl_maxChildren limits) \<and>
     (\<forall>e \<in> set (es_edges s). edge_fields_ok members limits lease e)"

lemma scan_edge_inv:
  assumes inv: "scan_inv members limits lease s" and step: "scan_edge members limits lease s raw = Some s'"
  shows "scan_inv members limits lease s' \<and> length (es_edges s') = Suc (length (es_edges s))"
proof -
  let ?n = "\<lambda>p. length (children_of (es_edges s) p)"
  obtain e where e: "edge_ok members limits lease s e"
    and s': "es_parents s' = map_set (te_child e) (te_parent e) (es_parents s)"
      "es_counts s' = map_set (te_parent e) (count_of (es_counts s) (te_parent e) + 1) (es_counts s)"
      "es_edges s' = es_edges s @ [e]"
    and lim: "count_of (es_counts s') (te_parent e) \<le> tl_maxChildren limits"
    using step by (auto simp: scan_edge_def Let_def split: option.splits if_splits)
  have keys: "map_keys (es_parents s) = map te_child (es_edges s)" using inv by (simp add: scan_inv_def)
  then have new: "te_child e \<notin> set (map te_child (es_edges s))" using e by (auto simp: edge_ok_def)
  have cnt: "count_of (es_counts s) p = int (?n p)" for p using inv by (simp add: scan_inv_def)
  then have cnt': "count_of (es_counts s') p = int (length (children_of (es_edges s') p))" for p
    by (simp add: s' count_of_def)
  have "es_parents s' = map (\<lambda>e. (te_child e, te_parent e)) (es_edges s')"
    using inv new keys unfolding s' by (subst map_set_new) (auto simp: scan_inv_def)
  moreover have "distinct (map te_child (es_edges s'))" using inv new by (auto simp: scan_inv_def s')
  moreover have "int (length (children_of (es_edges s') p)) \<le> tl_maxChildren limits"
    if "children_of (es_edges s') p \<noteq> []" for p
    using inv lim that cnt' [of "te_parent e"] by (cases "p = te_parent e") (auto simp: scan_inv_def s')
  moreover have "edge_fields_ok members limits lease e"
    using e by (auto simp: edge_ok_def edge_fields_ok_def split: option.splits)
  ultimately show ?thesis using inv cnt' by (auto simp: scan_inv_def s')
qed

lemma scan_edges_inv:
  "scan_edges members limits lease s raws = Some s' \<Longrightarrow> scan_inv members limits lease s \<Longrightarrow>
   scan_inv members limits lease s'"
proof (induction raws arbitrary: s)
  case (Cons raw raws)
  then obtain s1 where "scan_edge members limits lease s raw = Some s1" "scan_edges members limits lease s1 raws = Some s'"
    by (auto split: option.splits)
  with Cons show ?case using scan_edge_inv by blast
qed simp

lemma scan_inv_empty: "scan_inv members limits lease \<lparr>es_parents = [], es_counts = [], es_edges = []\<rparr>"
  by (simp add: scan_inv_def count_of_def)

subsection \<open>The walk to the root\<close>

definition parent_step :: "topology_edge list \<Rightarrow> string \<Rightarrow> string \<Rightarrow> bool" where
  "parent_step es c p \<longleftrightarrow> (\<exists>e \<in> set es. te_child e = c \<and> te_parent e = p)"

lemma map_of_parents:
  "distinct (map te_child es) \<Longrightarrow>
   map_of (map (\<lambda>e. (te_child e, te_parent e)) es) c = Some p \<longleftrightarrow> parent_step es c p"
  by (subst map_of_eq_Some_iff) (auto simp: parent_step_def comp_def)

lemma reaches_root_star:
  assumes "distinct (map te_child es)" "reaches_root (map (\<lambda>e. (te_child e, te_parent e)) es) rootId visited current"
  shows "(parent_step es)\<^sup>*\<^sup>* current rootId"
  using assms(2)
proof (induction "map (\<lambda>e. (te_child e, te_parent e)) es" rootId visited current rule: reaches_root.induct)
  case (1 rootId visited current)
  let ?ps = "map (\<lambda>e. (te_child e, te_parent e)) es"
  show ?case
  proof (cases "current = rootId")
    case False
    then have r: "parent_of ?ps current \<noteq> []" "parent_of ?ps current \<notin> set visited"
        "reaches_root ?ps rootId (set_add (parent_of ?ps current) visited) (parent_of ?ps current)"
      using "1.prems" by (auto simp: reaches_root.simps [of ?ps rootId visited current] Let_def split: if_splits)
    then have "(parent_step es)\<^sup>*\<^sup>* (parent_of ?ps current) rootId" using 1(1) False by blast
    moreover have "map_of ?ps current = Some (parent_of ?ps current)"
      using r(1) by (cases "map_of ?ps current") (auto simp: parent_of_def)
    then have "parent_step es current (parent_of ?ps current)" using map_of_parents [OF assms(1)] by blast
    ultimately show ?thesis by (rule converse_rtranclp_into_rtranclp [rotated])
  qed simp
qed

subsection \<open>Routes\<close>

text \<open>The specification of a validated route: edges between members with unexpired fields, at most
  \<open>maxChildren\<close> children per parent; and when the route relays, every member but the root is the child of
  exactly one edge and its chain of parents ends at the root.\<close>

definition route_ok :: "string list \<Rightarrow> topology_limits \<Rightarrow> int \<Rightarrow> topology_route \<Rightarrow> bool" where
  "route_ok members limits lease r \<longleftrightarrow>
     tr_root r \<in> set members \<and> tr_scope r = ''video:'' @ tr_root r \<and>
     (\<forall>e \<in> set (tr_edges r). edge_fields_ok members limits lease e) \<and> distinct (map te_child (tr_edges r)) \<and>
     (\<forall>p. children_of (tr_edges r) p \<noteq> [] \<longrightarrow> int (length (children_of (tr_edges r) p)) \<le> tl_maxChildren limits) \<and>
     (case tr_mode r of
        Adaptive_Mesh \<Rightarrow> tr_edges r = []
      | Trusted_Peer_Relay \<Rightarrow> set (map te_child (tr_edges r)) = set members - {tr_root r} \<and>
          (\<forall>m \<in> set members. (parent_step (tr_edges r))\<^sup>*\<^sup>* m (tr_root r)))"

text \<open>The check of the tree, kept for the controller that walks it again.\<close>

definition route_walks :: "string list \<Rightarrow> topology_route \<Rightarrow> bool" where
  "route_walks members r \<longleftrightarrow> (tr_mode r = Trusted_Peer_Relay \<longrightarrow>
     list_all (\<lambda>m. m = tr_root r \<or> reaches_root (map (\<lambda>e. (te_child e, te_parent e)) (tr_edges r)) (tr_root r) [m] m) members)"

lemma tree_ok_route:
  assumes inv: "scan_inv members limits lease s" and tree: "tree_ok members rootId (es_parents s)"
    and members: "distinct members" "rootId \<in> set members"
  shows "set (map te_child (es_edges s)) = set members - {rootId} \<and>
    (\<forall>m \<in> set members. (parent_step (es_edges s))\<^sup>*\<^sup>* m rootId)"
proof
  have ps: "es_parents s = map (\<lambda>e. (te_child e, te_parent e)) (es_edges s)" and d: "distinct (map te_child (es_edges s))"
    using inv by (auto simp: scan_inv_def)
  have sub: "set (map te_child (es_edges s)) \<subseteq> set members - {rootId}"
    using inv tree by (auto simp: scan_inv_def tree_ok_def edge_fields_ok_def comp_def)
  have "card (set (map te_child (es_edges s))) = length members - 1"
    using distinct_card [OF d] tree ps by (simp add: tree_ok_def)
  also have "\<dots> = card (set members - {rootId})" using members by (simp add: distinct_card)
  finally show "set (map te_child (es_edges s)) = set members - {rootId}" by (intro card_subset_eq sub) simp_all
  show "\<forall>m \<in> set members. (parent_step (es_edges s))\<^sup>*\<^sup>* m rootId"
    using tree reaches_root_star [OF d] by (auto simp: tree_ok_def list_all_iff ps)
qed

lemma scan_route_ok:
  assumes "scan_route members limits lease (roots, routes) raw = Some (roots', routes')" "distinct members"
  obtains r where "routes' = routes @ [r]" "roots' = roots @ [tr_root r]" "tr_root r \<notin> set roots"
    "route_ok members limits lease r" "route_walks members r"
proof -
  from assms(1) obtain value' rootId mode rawEdges s where
    r: "rootId \<in> set members" "rootId \<notin> set roots"
    and s: "scan_edges members limits lease \<lparr>es_parents = [], es_counts = [], es_edges = []\<rparr> rawEdges = Some s"
    and m: "mode = Adaptive_Mesh \<Longrightarrow> es_edges s = []" "mode = Trusted_Peer_Relay \<Longrightarrow> tree_ok members rootId (es_parents s)"
    and out: "roots' = set_add rootId roots"
      "routes' = routes @ [\<lparr>tr_root = rootId, tr_scope = ''video:'' @ rootId, tr_mode = mode, tr_edges = es_edges s\<rparr>]"
    by (auto simp: scan_route_def Let_def split: jsval.splits if_splits option.splits)
  note inv = scan_edges_inv [OF s scan_inv_empty]
  have ps: "es_parents s = map (\<lambda>e. (te_child e, te_parent e)) (es_edges s)" using inv by (simp add: scan_inv_def)
  let ?r = "\<lparr>tr_root = rootId, tr_scope = ''video:'' @ rootId, tr_mode = mode, tr_edges = es_edges s\<rparr>"
  have "route_ok members limits lease ?r"
    using inv m tree_ok_route [OF inv _ assms(2) r(1)] r(1)
    by (cases mode) (auto simp: route_ok_def scan_inv_def)
  moreover have "route_walks members ?r"
    using m(2) by (auto simp: route_walks_def tree_ok_def ps)
  ultimately show thesis using that [of ?r] out r(2) by (simp add: set_add_def)
qed

lemma scan_routes_ok:
  assumes "scan_routes members limits lease (roots, routes) raws = Some (roots', routes')" "distinct members"
    "roots = map tr_root routes" "distinct roots" "\<forall>r \<in> set routes. route_ok members limits lease r \<and> route_walks members r"
  shows "roots' = map tr_root routes' \<and> distinct roots' \<and>
    (\<forall>r \<in> set routes'. route_ok members limits lease r \<and> route_walks members r)"
  using assms(1,3-)
proof (induction raws arbitrary: roots routes)
  case (Cons raw raws)
  obtain roots1 routes1 where one: "scan_route members limits lease (roots, routes) raw = Some (roots1, routes1)"
    and more: "scan_routes members limits lease (roots1, routes1) raws = Some (roots', routes')"
    using Cons.prems(1) by (auto split: option.splits)
  obtain r where "routes1 = routes @ [r]" "roots1 = roots @ [tr_root r]" "tr_root r \<notin> set roots"
    "route_ok members limits lease r" "route_walks members r"
    using scan_route_ok [OF one assms(2)] by blast
  then show ?case using Cons.prems(2-) by (intro Cons.IH [OF more]) auto
qed auto

lemma validate_cases:
  assumes "validateTopologyState now1 now2 raw peerIds lastEpoch limits lastMembership lastRoute = Some st"
  obtains roots where "lastMembership \<le> ts_membershipEpoch st" "lastRoute < ts_routeEpoch st" "lastEpoch < ts_topologyEpoch st"
    "1 \<le> ts_membershipEpoch st" "1 \<le> ts_routeEpoch st" "1 \<le> ts_topologyEpoch st"
    "now1 < ts_leaseExpiresAt st" "ts_leaseExpiresAt st \<le> now2 + 300000" "ts_peers st = sort (js_set peerIds)"
    "roots = map tr_root (ts_routes st)" "distinct roots" "length roots = length (js_set peerIds)"
    "\<forall>r \<in> set (ts_routes st). route_ok (js_set peerIds) limits (ts_leaseExpiresAt st) r \<and> route_walks (js_set peerIds) r"
proof -
  from assms obtain rawRoutes roots where
    "scan_routes (js_set peerIds) limits (ts_leaseExpiresAt st) ([], []) rawRoutes = Some (roots, ts_routes st)"
    "length roots = length (js_set peerIds)"
    "lastMembership \<le> ts_membershipEpoch st" "lastRoute < ts_routeEpoch st" "lastEpoch < ts_topologyEpoch st"
    "1 \<le> ts_membershipEpoch st" "1 \<le> ts_routeEpoch st" "1 \<le> ts_topologyEpoch st"
    "now1 < ts_leaseExpiresAt st" "ts_leaseExpiresAt st \<le> now2 + 300000" "ts_peers st = sort (js_set peerIds)"
    by (auto simp: validateTopologyState_def Let_def split: if_splits option.splits)
  moreover from scan_routes_ok [OF this(1) distinct_js_set, simplified] have
    "roots = map tr_root (ts_routes st) \<and> distinct roots \<and>
     (\<forall>r \<in> set (ts_routes st). route_ok (js_set peerIds) limits (ts_leaseExpiresAt st) r \<and> route_walks (js_set peerIds) r)"
    by blast
  ultimately show thesis using that by blast
qed


text \<open>C17. A topology message the client accepts describes a valid overlay. Its epochs do not go back (route
  and topology epoch strictly advance), its lease ends within five minutes, it has exactly one route for
  every member, and in every relaying route each member but the root is the child of exactly one edge
  between members, no parent has more than the allowed children, and following parents leads from
  every member to the root: the edges form a spanning tree, so no cycle or orphan is ever installed.\<close>

theorem validated_topology_is_forest_of_trees:
  assumes "validateTopologyState now1 now2 raw peerIds lastEpoch limits lastMembership lastRoute = Some st"
  shows "lastMembership \<le> ts_membershipEpoch st \<and> lastRoute < ts_routeEpoch st \<and> lastEpoch < ts_topologyEpoch st \<and>
    now1 < ts_leaseExpiresAt st \<and> ts_leaseExpiresAt st \<le> now2 + 300000 \<and>
    distinct (ts_peers st) \<and> sorted (ts_peers st) \<and> set (ts_peers st) = set peerIds \<and>
    distinct (map tr_root (ts_routes st)) \<and> set (map tr_root (ts_routes st)) = set peerIds \<and>
    (\<forall>r \<in> set (ts_routes st). route_ok (js_set peerIds) limits (ts_leaseExpiresAt st) r)"
proof -
  obtain roots where c: "lastMembership \<le> ts_membershipEpoch st" "lastRoute < ts_routeEpoch st" "lastEpoch < ts_topologyEpoch st"
    "now1 < ts_leaseExpiresAt st" "ts_leaseExpiresAt st \<le> now2 + 300000" "ts_peers st = sort (js_set peerIds)"
    "roots = map tr_root (ts_routes st)" "distinct roots" "length roots = length (js_set peerIds)"
    "\<forall>r \<in> set (ts_routes st). route_ok (js_set peerIds) limits (ts_leaseExpiresAt st) r \<and> route_walks (js_set peerIds) r"
    using assms by (rule validate_cases)
  have "set roots \<subseteq> set (js_set peerIds)" using c(7,10) by (auto simp: route_ok_def)
  moreover have "card (set roots) = card (set (js_set peerIds))"
    using c(8,9) distinct_js_set [of peerIds] by (simp add: distinct_card del: set_js_set)
  ultimately have "set roots = set peerIds" using card_subset_eq [of "set (js_set peerIds)" "set roots"] by simp
  then show ?thesis using c by auto
qed

text \<open>A message for two members that relays from one to the other.\<close>

definition two_peer_message :: "(string \<times> jsval) list" where
  "two_peer_message = [(''version'', JInt 1), (''type'', JStr ''topology-state''), (''membershipEpoch'', JInt 1),
     (''routeEpoch'', JInt 1), (''topologyEpoch'', JInt 1), (''leaseExpiresAt'', JInt 1000),
     (''peers'', JArr [JStr ''a'', JStr ''b'']),
     (''routes'', JArr [
        JObj [(''rootPeerId'', JStr ''a''), (''scopeId'', JStr ''video:a''), (''mode'', JStr ''trusted_peer_relay''),
          (''edges'', JArr [JObj [(''leaseId'', JStr ''AAAAAAAAAAAAAAAAAAAAAA''), (''parentPeerId'', JStr ''a''),
             (''backupParentPeerId'', JNull), (''childPeerId'', JStr ''b''), (''depth'', JInt 1), (''expiresAt'', JInt 1000)]])],
        JObj [(''rootPeerId'', JStr ''b''), (''scopeId'', JStr ''video:b''), (''mode'', JStr ''adaptive_mesh''), (''edges'', JArr [])]])]"

lemma two_peer_valid:
  "\<exists>st. validateTopologyState 0 0 two_peer_message [''a'', ''b''] 0 \<lparr>tl_maxChildren = 2, tl_maxHops = 3\<rparr> 0 0 = Some st"
  by (simp add: validateTopologyState_def two_peer_message_def js_simps js_set_def set_add_def member_name_def
      scan_route_def scan_edge_def read_edge_def edge_ok_def LEASE_ID_def matches_def base64url_char_def
      count_of_def tree_ok_def reaches_root.simps parent_of_def MAX_SAFE_INTEGER_def Let_def)

theorem validated_topology_is_forest_of_trees_witness:
  "\<exists>st. validateTopologyState 0 0 two_peer_message [''a'', ''b''] 0 \<lparr>tl_maxChildren = 2, tl_maxHops = 3\<rparr> 0 0 = Some st \<and>
     set (map tr_root (ts_routes st)) = set [''a'', ''b'']"
  using two_peer_valid validated_topology_is_forest_of_trees by blast

end
