(* ===== verification/Topology_Controller.thy ===== *)
theory Topology_Controller
  imports Topology_Laws
begin

text \<open>
  \<^verbatim>\<open>webrtc/peer-topology-controller.ts\<close>: the controller that keeps the last valid topology as children
  sets and paths per root. The loop that climbs from a destination to the root may run forever on a
  cyclic parent map, so it is a partial function; that it returns on every accepted message is proved. The
  lease timer is the time at which it fires.
\<close>

record materialized_route =
  mr_mode :: topology_mode
  mr_children :: "(string \<times> string list) list"
  mr_paths :: "(string \<times> string list) list"

record topology_controller =
  tc_routes :: "(string \<times> materialized_route) list"
  tc_membershipEpoch :: int
  tc_routeEpoch :: int
  tc_topologyEpoch :: int
  tc_leaseAt :: "int option"

definition new_controller :: topology_controller where
  "new_controller = \<lparr>tc_routes = [], tc_membershipEpoch = 0, tc_routeEpoch = 0, tc_topologyEpoch = 0, tc_leaseAt = None\<rparr>"

definition route_children :: "topology_edge list \<Rightarrow> (string \<times> string list) list" where
  "route_children es = foldl (\<lambda>children e.
     map_set (te_parent e)
       (set_add (te_child e) (case map_of children (te_parent e) of None \<Rightarrow> [] | Some s \<Rightarrow> s)) children) [] es"

definition route_parents :: "topology_edge list \<Rightarrow> (string \<times> string) list" where
  "route_parents es = foldl (\<lambda>parents e. map_set (te_child e) (te_parent e) parents) [] es"

partial_function (option) climb ::
  "(string \<times> string) list \<Rightarrow> string \<Rightarrow> string \<Rightarrow> string list \<Rightarrow> (string \<times> string list) option" where
  "climb parents rootId current reverse =
     (if current = rootId then Some (current, reverse)
      else case map_of parents current of
        None \<Rightarrow> Some (current, reverse)
      | Some up \<Rightarrow> climb parents rootId up (reverse @ [up]))"

fun route_paths ::
  "(string \<times> string) list \<Rightarrow> string \<Rightarrow> string list \<Rightarrow> (string \<times> string list) list \<Rightarrow> (string \<times> string list) list option" where
  "route_paths parents rootId [] paths = Some paths"
| "route_paths parents rootId (destination # peers) paths =
     (if destination = rootId then route_paths parents rootId peers paths
      else case climb parents rootId destination [destination] of None \<Rightarrow> None
      | Some (current, reverse) \<Rightarrow>
        route_paths parents rootId peers
          (if current = rootId then map_set destination (rev reverse) paths else paths))"

definition materialize :: "string list \<Rightarrow> topology_route \<Rightarrow> materialized_route option" where
  "materialize peers route =
     (case route_paths (route_parents (tr_edges route)) (tr_root route) peers [] of None \<Rightarrow> None
      | Some paths \<Rightarrow>
        Some \<lparr>mr_mode = tr_mode route, mr_children = route_children (tr_edges route), mr_paths = paths\<rparr>)"

fun materialize_all ::
  "string list \<Rightarrow> topology_route list \<Rightarrow> (string \<times> materialized_route) list \<Rightarrow> (string \<times> materialized_route) list option" where
  "materialize_all peers [] routes = Some routes"
| "materialize_all peers (r # rs) routes =
     (case materialize peers r of None \<Rightarrow> None
      | Some m \<Rightarrow> materialize_all peers rs (map_set (tr_root r) m routes))"

text \<open>\<open>None\<close> would be a call that does not return; the inner option is the value it returns.\<close>

definition apply_topology ::
  "int \<Rightarrow> int \<Rightarrow> topology_controller \<Rightarrow> (string \<times> jsval) list \<Rightarrow> string list \<Rightarrow> topology_limits
   \<Rightarrow> (topology_state option \<times> topology_controller) option" where
  "apply_topology now1 now2 c message peerIds limits =
     (case validateTopologyState now1 now2 message peerIds (tc_topologyEpoch c) limits (tc_membershipEpoch c) (tc_routeEpoch c) of
        None \<Rightarrow> Some (None, c)
      | Some st \<Rightarrow>
        (case materialize_all (ts_peers st) (ts_routes st) [] of None \<Rightarrow> None
         | Some routes \<Rightarrow>
           Some (Some st, \<lparr>tc_routes = routes, tc_membershipEpoch = ts_membershipEpoch st,
             tc_routeEpoch = ts_routeEpoch st, tc_topologyEpoch = ts_topologyEpoch st,
             tc_leaseAt = Some (ts_leaseExpiresAt st)\<rparr>)))"

definition lease_expired :: "topology_controller \<Rightarrow> topology_controller" where
  "lease_expired c = c\<lparr>tc_routes := []\<rparr>"

definition topology_mode_of :: "topology_controller \<Rightarrow> string \<Rightarrow> topology_mode" where
  "topology_mode_of c rootPeerId =
     (case map_of (tc_routes c) rootPeerId of None \<Rightarrow> Adaptive_Mesh | Some r \<Rightarrow> mr_mode r)"

definition topology_children :: "topology_controller \<Rightarrow> string \<Rightarrow> string \<Rightarrow> string list" where
  "topology_children c rootPeerId parentPeerId =
     (case map_of (tc_routes c) rootPeerId of None \<Rightarrow> []
      | Some r \<Rightarrow> (case map_of (mr_children r) parentPeerId of None \<Rightarrow> [] | Some s \<Rightarrow> s))"

definition topology_path :: "topology_controller \<Rightarrow> string \<Rightarrow> string \<Rightarrow> string list option" where
  "topology_path c rootPeerId destinationPeerId =
     (case map_of (tc_routes c) rootPeerId of None \<Rightarrow> None | Some r \<Rightarrow> map_of (mr_paths r) destinationPeerId)"

text \<open>The edges for diagnostics; \<open>order\<close> is the sort by \<open>localeCompare\<close>, which is not part of the program.\<close>

definition analysisEdges ::
  "((string \<times> string \<times> string) list \<Rightarrow> (string \<times> string \<times> string) list) \<Rightarrow> topology_controller
   \<Rightarrow> (string \<times> string \<times> string) list" where
  "analysisEdges order c =
     order (concat (map (\<lambda>(rootId, r).
       if mr_mode r \<noteq> Trusted_Peer_Relay then []
       else concat (map (\<lambda>(parent, children). map (\<lambda>child. (rootId, parent, child)) children) (mr_children r)))
       (tc_routes c)))"

definition clear_topology :: "topology_controller \<Rightarrow> topology_controller" where
  "clear_topology c = new_controller"

subsection \<open>The paths\<close>

lemma route_parents_eq:
  assumes "distinct (map te_child es)"
  shows "route_parents es = map (\<lambda>e. (te_child e, te_parent e)) es"
proof -
  have "distinct (map te_child (es0 @ es)) \<Longrightarrow>
    foldl (\<lambda>parents e. map_set (te_child e) (te_parent e) parents) (map (\<lambda>e. (te_child e, te_parent e)) es0) es =
      map (\<lambda>e. (te_child e, te_parent e)) (es0 @ es)" for es0
  proof (induction es arbitrary: es0)
    case (Cons e es)
    have "te_child e \<notin> set (map_keys (map (\<lambda>e. (te_child e, te_parent e)) es0))"
      using Cons.prems by (auto simp: comp_def)
    then show ?case using Cons.IH [of "es0 @ [e]"] Cons.prems by (simp add: map_set_new)
  qed simp
  from this [of "[]"] assms show ?thesis by (simp add: route_parents_def)
qed

lemma climb_reaches:
  assumes "reaches_root parents rootId visited current"
  shows "\<exists>ps. climb parents rootId current reverse = Some (rootId, reverse @ ps) \<and>
    last (current # ps) = rootId \<and> distinct ps \<and> set ps \<inter> set visited = {} \<and>
    successively (\<lambda>c p. map_of parents c = Some p) (current # ps)"
  using assms
proof (induction parents rootId visited current arbitrary: reverse rule: reaches_root.induct)
  case (1 parents rootId visited current)
  show ?case
  proof (cases "current = rootId")
    case True
    then show ?thesis by (simp add: climb.simps)
  next
    case False
    let ?up = "parent_of parents current"
    have r: "?up \<noteq> []" "?up \<notin> set visited" "reaches_root parents rootId (set_add ?up visited) ?up"
      using "1.prems" False by (auto simp: reaches_root.simps [of parents rootId visited current] Let_def split: if_splits)
    have up: "map_of parents current = Some ?up"
      using r(1) by (cases "map_of parents current") (auto simp: parent_of_def)
    obtain ps where ps: "climb parents rootId ?up (reverse @ [?up]) = Some (rootId, (reverse @ [?up]) @ ps)"
      "last (?up # ps) = rootId" "distinct ps" "set ps \<inter> set (set_add ?up visited) = {}"
      "successively (\<lambda>c p. map_of parents c = Some p) (?up # ps)"
      using "1.IH" [OF False refl _ r(3)] r(1,2) by blast
    show ?thesis
      by (rule exI [of _ "?up # ps"])
        (use ps r(2) up False in \<open>auto simp: climb.simps [of parents rootId current reverse]\<close>)
  qed
qed

text \<open>A path of a route: from the root down to the destination along the edges, without repetition.\<close>

definition path_ok :: "topology_edge list \<Rightarrow> string \<Rightarrow> string \<Rightarrow> string list \<Rightarrow> bool" where
  "path_ok es rootId destination p \<longleftrightarrow> p \<noteq> [] \<and> hd p = rootId \<and> last p = destination \<and> distinct p \<and>
     successively (\<lambda>a b. parent_step es b a) p"

lemma climb_path:
  assumes d: "distinct (map te_child es)"
    and "reaches_root (map (\<lambda>e. (te_child e, te_parent e)) es) rootId [destination] destination"
  shows "\<exists>reverse. climb (map (\<lambda>e. (te_child e, te_parent e)) es) rootId destination [destination] = Some (rootId, reverse) \<and>
    path_ok es rootId destination (rev reverse)"
proof -
  let ?ps = "map (\<lambda>e. (te_child e, te_parent e)) es"
  obtain ps where ps: "climb ?ps rootId destination [destination] = Some (rootId, destination # ps)"
    "last (destination # ps) = rootId" "distinct ps" "set ps \<inter> {destination} = {}"
    "successively (\<lambda>c p. map_of ?ps c = Some p) (destination # ps)"
    using climb_reaches [OF assms(2), of "[destination]"] by auto
  have "successively (\<lambda>c p. parent_step es c p) (destination # ps)"
    using ps(5) by (simp add: map_of_parents [OF d])
  then have "successively (\<lambda>a b. parent_step es b a) (rev (destination # ps))"
    by (simp only: successively_rev)
  then have "path_ok es rootId destination (rev (destination # ps))"
    using ps(2-4) by (simp add: path_ok_def hd_rev last_rev del: rev.simps)
  with ps(1) show ?thesis by blast
qed

lemma route_paths_walks:
  assumes d: "distinct (map te_child es)"
    and walks: "\<forall>m \<in> set peers. m = rootId \<or> reaches_root (map (\<lambda>e. (te_child e, te_parent e)) es) rootId [m] m"
  shows "\<exists>paths. route_paths (map (\<lambda>e. (te_child e, te_parent e)) es) rootId peers acc = Some paths \<and>
    (\<forall>x. x \<in> set peers \<and> x \<noteq> rootId \<longrightarrow> (\<exists>p. map_of paths x = Some p \<and> path_ok es rootId x p)) \<and>
    (\<forall>x. x \<notin> set peers \<or> x = rootId \<longrightarrow> map_of paths x = map_of acc x)"
  using walks
proof (induction peers arbitrary: acc)
  case (Cons m peers)
  let ?ps = "map (\<lambda>e. (te_child e, te_parent e)) es"
  show ?case
  proof (cases "m = rootId")
    case True
    then show ?thesis using Cons.IH [of acc] Cons.prems by auto
  next
    case False
    obtain reverse where r: "climb ?ps rootId m [m] = Some (rootId, reverse)" "path_ok es rootId m (rev reverse)"
      using climb_path [OF d, of rootId m] Cons.prems False by auto
    obtain paths where p: "route_paths ?ps rootId peers (map_set m (rev reverse) acc) = Some paths"
      "\<forall>x. x \<in> set peers \<and> x \<noteq> rootId \<longrightarrow> (\<exists>p. map_of paths x = Some p \<and> path_ok es rootId x p)"
      "\<forall>x. x \<notin> set peers \<or> x = rootId \<longrightarrow> map_of paths x = map_of (map_set m (rev reverse) acc) x"
      using Cons.IH [of "map_set m (rev reverse) acc"] Cons.prems by auto
    have "\<exists>p. map_of paths x = Some p \<and> path_ok es rootId x p" if "x \<in> set (m # peers)" "x \<noteq> rootId" for x
      using that p(2,3) r(2) by (cases "x \<in> set peers") auto
    moreover have "map_of paths x = map_of acc x" if "x \<notin> set (m # peers) \<or> x = rootId" for x
      using that p(3) False by auto
    ultimately show ?thesis using p(1) r(1) False by (intro exI [of _ paths]) simp
  qed
qed simp

lemma route_paths_mesh: "route_paths [] rootId peers acc = Some acc"
  by (induction peers arbitrary: acc) (simp_all add: climb.simps)

lemma materialize_ok:
  assumes "route_ok members limits lease r" "route_walks members r" "set peers = set members"
  shows "\<exists>m. materialize peers r = Some m \<and> mr_mode m = tr_mode r \<and> mr_children m = route_children (tr_edges r) \<and>
    (tr_mode r = Trusted_Peer_Relay \<longrightarrow>
       (\<forall>x \<in> set members - {tr_root r}. \<exists>p. map_of (mr_paths m) x = Some p \<and> path_ok (tr_edges r) (tr_root r) x p))"
proof (cases "tr_mode r")
  case Adaptive_Mesh
  then have "tr_edges r = []" using assms(1) by (simp add: route_ok_def)
  then show ?thesis using Adaptive_Mesh by (simp add: materialize_def route_parents_def route_paths_mesh)
next
  case Trusted_Peer_Relay
  have d: "distinct (map te_child (tr_edges r))" using assms(1) by (simp add: route_ok_def)
  have "\<forall>m \<in> set peers. m = tr_root r \<or> reaches_root (map (\<lambda>e. (te_child e, te_parent e)) (tr_edges r)) (tr_root r) [m] m"
    using assms(2,3) Trusted_Peer_Relay by (simp add: route_walks_def list_all_iff)
  from route_paths_walks [OF d this, of "[]"] show ?thesis
    using assms(3) by (auto simp: materialize_def route_parents_eq [OF d])
qed

lemma materialize_all_ok:
  assumes "\<forall>r \<in> set rs. route_ok members limits lease r \<and> route_walks members r" "set peers = set members"
    "distinct (map tr_root rs)"
  shows "\<exists>routes. materialize_all peers rs acc = Some routes \<and>
    (\<forall>r \<in> set rs. \<exists>m. map_of routes (tr_root r) = Some m \<and> materialize peers r = Some m) \<and>
    (\<forall>x. x \<notin> tr_root ` set rs \<longrightarrow> map_of routes x = map_of acc x)"
  using assms(1,3)
proof (induction rs arbitrary: acc)
  case (Cons r rs)
  obtain m where m: "materialize peers r = Some m" using materialize_ok [OF _ _ assms(2)] Cons.prems(1) by fastforce
  obtain routes where "materialize_all peers rs (map_set (tr_root r) m acc) = Some routes"
    "\<forall>r \<in> set rs. \<exists>m. map_of routes (tr_root r) = Some m \<and> materialize peers r = Some m"
    "\<forall>x. x \<notin> tr_root ` set rs \<longrightarrow> map_of routes x = map_of (map_set (tr_root r) m acc) x"
    using Cons.IH [of "map_set (tr_root r) m acc"] Cons.prems by auto
  then show ?case using m Cons.prems(2) by (intro exI [of _ routes]) auto
qed simp


text \<open>C18. Applying a topology message always returns, whatever the message, although the code climbs parent
  links in an unbounded loop; and when it accepts the message, then for every relaying route and every other
  member the controller has a path that starts at the root, ends at that member, visits no peer twice
  and follows the edges of the route, and the mode of every member's route is the one of the message.\<close>

theorem topology_apply_returns_paths:
  "\<exists>result c'. apply_topology now1 now2 c message peerIds limits = Some (result, c') \<and>
     (\<forall>st. result = Some st \<longrightarrow>
        (\<forall>r \<in> set (ts_routes st). topology_mode_of c' (tr_root r) = tr_mode r \<and>
           (tr_mode r = Trusted_Peer_Relay \<longrightarrow> (\<forall>x \<in> set peerIds - {tr_root r}.
              \<exists>p. topology_path c' (tr_root r) x = Some p \<and> path_ok (tr_edges r) (tr_root r) x p))))"
proof (cases "validateTopologyState now1 now2 message peerIds (tc_topologyEpoch c) limits (tc_membershipEpoch c) (tc_routeEpoch c)")
  case None
  then show ?thesis by (simp add: apply_topology_def)
next
  case (Some st)
  obtain roots where v: "ts_peers st = sort (js_set peerIds)" "roots = map tr_root (ts_routes st)" "distinct roots"
    "\<forall>r \<in> set (ts_routes st). route_ok (js_set peerIds) limits (ts_leaseExpiresAt st) r \<and> route_walks (js_set peerIds) r"
    using Some by (rule validate_cases)
  have peers: "set (ts_peers st) = set (js_set peerIds)" by (simp add: v(1))
  obtain routes where m: "materialize_all (ts_peers st) (ts_routes st) [] = Some routes"
    "\<forall>r \<in> set (ts_routes st). \<exists>m. map_of routes (tr_root r) = Some m \<and> materialize (ts_peers st) r = Some m"
    using materialize_all_ok [OF v(4) peers, of "[]"] v(2,3) by blast
  let ?c = "\<lparr>tc_routes = routes, tc_membershipEpoch = ts_membershipEpoch st, tc_routeEpoch = ts_routeEpoch st,
    tc_topologyEpoch = ts_topologyEpoch st, tc_leaseAt = Some (ts_leaseExpiresAt st)\<rparr>"
  have "topology_mode_of ?c (tr_root r) = tr_mode r \<and> (tr_mode r = Trusted_Peer_Relay \<longrightarrow>
      (\<forall>x \<in> set peerIds - {tr_root r}. \<exists>p. topology_path ?c (tr_root r) x = Some p \<and> path_ok (tr_edges r) (tr_root r) x p))"
    if r: "r \<in> set (ts_routes st)" for r
  proof -
    obtain m where "map_of routes (tr_root r) = Some m" "materialize (ts_peers st) r = Some m" using m(2) r by blast
    with materialize_ok [OF _ _ peers, of limits "ts_leaseExpiresAt st" r] v(4) r show ?thesis
      by (auto simp: topology_mode_of_def topology_path_def)
  qed
  then show ?thesis using Some m(1) by (simp add: apply_topology_def)
qed

theorem topology_apply_returns_paths_witness:
  "\<exists>st c'. apply_topology 0 0 new_controller two_peer_message [''a'', ''b''] \<lparr>tl_maxChildren = 2, tl_maxHops = 3\<rparr> = Some (Some st, c') \<and>
     (\<forall>r \<in> set (ts_routes st). topology_mode_of c' (tr_root r) = tr_mode r)"
proof -
  obtain st where "validateTopologyState 0 0 two_peer_message [''a'', ''b''] 0 \<lparr>tl_maxChildren = 2, tl_maxHops = 3\<rparr> 0 0 = Some st"
    using two_peer_valid by blast
  with topology_apply_returns_paths [of 0 0 new_controller two_peer_message "[''a'', ''b'']" "\<lparr>tl_maxChildren = 2, tl_maxHops = 3\<rparr>"]
  show ?thesis by (auto simp: apply_topology_def new_controller_def split: option.splits)
qed

subsection \<open>Epochs\<close>

text \<open>What happens to a controller: messages, the end of a lease, and \<open>clear\<close>. The topologies accepted since the last
  \<open>clear\<close> are collected.\<close>

datatype topology_event =
  Topology_Message int int "(string \<times> jsval) list" "string list" topology_limits
| Lease_Expired
| Topology_Clear

fun topology_step :: "topology_controller \<times> topology_state list \<Rightarrow> topology_event \<Rightarrow> topology_controller \<times> topology_state list" where
  "topology_step (c, accepted) (Topology_Message now1 now2 message peerIds limits) =
     (case apply_topology now1 now2 c message peerIds limits of
        Some (Some st, c') \<Rightarrow> (c', accepted @ [st])
      | _ \<Rightarrow> (c, accepted))"
| "topology_step (c, accepted) Lease_Expired = (lease_expired c, accepted)"
| "topology_step (c, accepted) Topology_Clear = (clear_topology c, [])"

definition newer :: "topology_state \<Rightarrow> topology_state \<Rightarrow> bool" where
  "newer a b \<longleftrightarrow> ts_topologyEpoch a < ts_topologyEpoch b \<and> ts_routeEpoch a < ts_routeEpoch b \<and> ts_membershipEpoch a \<le> ts_membershipEpoch b"

definition epochs_of :: "topology_state list \<Rightarrow> int \<times> int \<times> int" where
  "epochs_of accepted = (if accepted = [] then (0, 0, 0)
     else (ts_topologyEpoch (last accepted), ts_routeEpoch (last accepted), ts_membershipEpoch (last accepted)))"

lemma newer_trans: "newer a b \<Longrightarrow> newer b c \<Longrightarrow> newer a c"
  by (simp add: newer_def)

lemma newer_snoc:
  assumes "sorted_wrt newer accepted" "accepted \<noteq> [] \<Longrightarrow> newer (last accepted) st"
  shows "sorted_wrt newer (accepted @ [st])"
proof (cases accepted rule: rev_exhaust)
  case (snoc xs x)
  then have "newer x st" "\<forall>y \<in> set xs. newer y x" using assms by (auto simp: sorted_wrt_append)
  then have "\<forall>y \<in> set accepted. newer y st" using snoc newer_trans by auto
  then show ?thesis using assms(1) by (simp add: sorted_wrt_append)
qed simp

lemma applied_epochs:
  assumes "apply_topology now1 now2 c message peerIds limits = Some (Some st, c')"
  shows "tc_topologyEpoch c < ts_topologyEpoch st" "tc_routeEpoch c < ts_routeEpoch st" "tc_membershipEpoch c \<le> ts_membershipEpoch st"
    "(tc_topologyEpoch c', tc_routeEpoch c', tc_membershipEpoch c') = (ts_topologyEpoch st, ts_routeEpoch st, ts_membershipEpoch st)"
  using assms by (auto simp: apply_topology_def elim!: validate_cases split: option.splits)

text \<open>C19. A stale or replayed topology message is never applied. Over any sequence of messages, lease expiries and calls of
  \<open>clear\<close>, the topologies a controller accepts between two calls of \<open>clear\<close> (which forgets the epochs, for the next
  room) have strictly increasing topology and route epochs and membership epochs that never decrease; the epochs of the
  controller, below which it refuses a message, are those of the last one it accepted since \<open>clear\<close>, also after the lease has
  expired, and zero if there is none.\<close>

theorem topology_epochs_increase:
  "let (c, accepted) = foldl topology_step (new_controller, []) events in
     sorted_wrt newer accepted \<and> (tc_topologyEpoch c, tc_routeEpoch c, tc_membershipEpoch c) = epochs_of accepted"
proof (induction events rule: rev_induct)
  case (snoc ev events)
  obtain c accepted where f: "foldl topology_step (new_controller, []) events = (c, accepted)" by force
  with snoc have IH: "sorted_wrt newer accepted" "(tc_topologyEpoch c, tc_routeEpoch c, tc_membershipEpoch c) = epochs_of accepted" by auto
  show ?case
  proof (cases ev)
    case (Topology_Message now1 now2 message peerIds limits)
    show ?thesis
    proof (cases "\<exists>st c'. apply_topology now1 now2 c message peerIds limits = Some (Some st, c')")
      case True
      then obtain st c' where a: "apply_topology now1 now2 c message peerIds limits = Some (Some st, c')" by blast
      have "newer (last accepted) st" if "accepted \<noteq> []" using applied_epochs(1-3) [OF a] IH(2) that by (simp add: newer_def epochs_of_def)
      then have "sorted_wrt newer (accepted @ [st])" by (rule newer_snoc [OF IH(1)])
      then show ?thesis using applied_epochs(4) [OF a] a Topology_Message f by (simp add: epochs_of_def)
    next
      case False
      then have "topology_step (c, accepted) ev = (c, accepted)"
        by (auto simp: Topology_Message split: option.split)
      then show ?thesis using IH f by simp
    qed
  next
    case Lease_Expired
    then show ?thesis using IH f by (simp add: lease_expired_def)
  next
    case Topology_Clear
    then show ?thesis using f by (simp add: clear_topology_def new_controller_def epochs_of_def)
  qed
qed (simp add: new_controller_def epochs_of_def)

definition one_peer_message :: "int \<Rightarrow> topology_event" where
  "one_peer_message epoch = Topology_Message 0 0 [(''version'', JInt 1), (''type'', JStr ''topology-state''), (''membershipEpoch'', JInt 1),
     (''routeEpoch'', JInt epoch), (''topologyEpoch'', JInt epoch), (''leaseExpiresAt'', JInt 1000), (''peers'', JArr [JStr ''a'']),
     (''routes'', JArr [JObj [(''rootPeerId'', JStr ''a''), (''scopeId'', JStr ''video:a''), (''mode'', JStr ''adaptive_mesh''), (''edges'', JArr [])]])]
     [''a''] \<lparr>tl_maxChildren = 2, tl_maxHops = 3\<rparr>"

text \<open>Of five messages two are accepted, the replayed and the stale ones are refused; after \<open>clear\<close> the first is accepted again.\<close>

theorem topology_epochs_increase_witness:
  "(\<exists>c accepted. foldl topology_step (new_controller, [])
       [one_peer_message 1, one_peer_message 1, one_peer_message 2, Lease_Expired, one_peer_message 1, one_peer_message 2] = (c, accepted)
     \<and> map ts_topologyEpoch accepted = [1, 2] \<and> tc_topologyEpoch c = 2)
   \<and> map ts_topologyEpoch (snd (foldl topology_step (new_controller, [])
       [one_peer_message 1, one_peer_message 2, Topology_Clear, one_peer_message 1])) = [1]"
proof -
  let ?es = "[one_peer_message 1, one_peer_message 1, one_peer_message 2, Lease_Expired, one_peer_message 1, one_peer_message 2]"
  obtain c accepted where run: "foldl topology_step (new_controller, []) ?es = (c, accepted)" by force
  have "map ts_topologyEpoch (snd (foldl topology_step (new_controller, []) ?es)) = [1, 2]" by code_simp
  then have two: "map ts_topologyEpoch accepted = [1, 2]" by (simp only: run snd_conv)
  then have "accepted \<noteq> []" "ts_topologyEpoch (last accepted) = 2" using last_map [of accepted ts_topologyEpoch] by auto
  then have "tc_topologyEpoch c = 2" using topology_epochs_increase [of ?es] unfolding run by (simp add: epochs_of_def)
  moreover have "map ts_topologyEpoch (snd (foldl topology_step (new_controller, [])
       [one_peer_message 1, one_peer_message 2, Topology_Clear, one_peer_message 1])) = [1]" by code_simp
  ultimately show ?thesis using run two by (intro conjI exI [of _ c] exI [of _ accepted])
qed

subsection \<open>The hop limit\<close>

text \<open>A chain of three hops whose edges all state depth 1.\<close>

definition chain_edge :: "string \<Rightarrow> string \<Rightarrow> jsval" where
  "chain_edge parent child = JObj [(''leaseId'', JStr ''AAAAAAAAAAAAAAAAAAAAAA''), (''parentPeerId'', JStr parent),
     (''backupParentPeerId'', JNull), (''childPeerId'', JStr child), (''depth'', JInt 1), (''expiresAt'', JInt 1000)]"

definition chain_route :: "string \<Rightarrow> string \<Rightarrow> jsval list \<Rightarrow> jsval" where
  "chain_route rootId mode es = JObj [(''rootPeerId'', JStr rootId), (''scopeId'', JStr (''video:'' @ rootId)),
     (''mode'', JStr mode), (''edges'', JArr es)]"

definition chain_message :: "(string \<times> jsval) list" where
  "chain_message = [(''version'', JInt 1), (''type'', JStr ''topology-state''), (''membershipEpoch'', JInt 1),
     (''routeEpoch'', JInt 1), (''topologyEpoch'', JInt 1), (''leaseExpiresAt'', JInt 1000),
     (''peers'', JArr [JStr ''a'', JStr ''b'', JStr ''c'', JStr ''d'']),
     (''routes'', JArr [
        chain_route ''a'' ''trusted_peer_relay'' [chain_edge ''a'' ''b'', chain_edge ''b'' ''c'', chain_edge ''c'' ''d''],
        chain_route ''b'' ''adaptive_mesh'' [], chain_route ''c'' ''adaptive_mesh'' [], chain_route ''d'' ''adaptive_mesh'' []])]"

lemma hop_limit_not_enforced:
  "\<exists>st. validateTopologyState 0 0 chain_message [''a'', ''b'', ''c'', ''d''] 0 \<lparr>tl_maxChildren = 1, tl_maxHops = 1\<rparr> 0 0 = Some st"
  by (simp add: validateTopologyState_def chain_message_def chain_route_def chain_edge_def js_simps js_set_def set_add_def
      member_name_def scan_route_def scan_edge_def read_edge_def edge_ok_def LEASE_ID_def matches_def base64url_char_def
      count_of_def tree_ok_def reaches_root.simps parent_of_def MAX_SAFE_INTEGER_def Let_def)

end
