(* ===== verification/Moderation.thy ===== *)
theory Moderation
  imports Js_Collections "HOL-Library.Multiset"
begin

text \<open>
  \<^verbatim>\<open>webrtc/room-moderation.service.ts\<close>: what a client knows of roles, raised hands, presenter and drawing
  policies. The server's \<open>moderation-state\<close> messages replace the whole state, after validation; the
  commands of the user go back to the server as messages.

  The peer ids compared by \<open>localeCompare\<close> are 16 lower-case hexadecimal digits, for which the
  collation order is the order of the characters. \<open>MediaPublicationService.stop\<close> is outside the model:
  the sources it is called with are returned.
\<close>

subsection \<open>Data\<close>

datatype room_role = Owner | Participant

datatype hand_state = Hand_None | Hand_Raised

datatype media_source = Microphone | Camera | Screen

datatype draw_policy = Open_Policy | Presenter_Only

datatype moderation_action =
    Hand_Raise | Hand_Lower | Hand_Clear | Peer_Remove | Peer_Remove_Cancel
  | Publication_Stop | Presenter_Assign | Whiteboard_Policy_Set | Diagram_Policy_Set

datatype audit_source = No_Source | Media_Source media_source | Policy_Source draw_policy

record participant =
  pt_peerId :: string
  pt_role :: room_role
  pt_hand :: hand_state
  pt_raisedAt :: int

record audit_entry =
  ae_sequence :: int
  ae_at :: int
  ae_actorPeerId :: string
  ae_action :: moderation_action
  ae_targetPeerId :: string
  ae_source :: audit_source

record pending_remove =
  pr_targetPeerId :: string
  pr_expiresAt :: int

record moderation =
  md_membershipEpoch :: int
  md_participants :: "participant list"
  md_queue :: "string list"
  md_audit :: "audit_entry list"
  md_presenterPeerId :: string
  md_pendingRemove :: "pending_remove option"
  md_whiteboardPolicy :: draw_policy
  md_diagramPolicy :: draw_policy
  md_ownPeerId :: string

definition new_moderation :: moderation where
  "new_moderation =
     \<lparr>md_membershipEpoch = 0, md_participants = [], md_queue = [], md_audit = [], md_presenterPeerId = '''',
      md_pendingRemove = None, md_whiteboardPolicy = Open_Policy, md_diagramPolicy = Open_Policy,
      md_ownPeerId = ''''\<rparr>"

subsection \<open>Parsing the server's messages\<close>

definition ACTIONS :: "(string \<times> moderation_action) list" where
  "ACTIONS =
     [(''hand-raise'', Hand_Raise), (''hand-lower'', Hand_Lower), (''hand-clear'', Hand_Clear),
      (''peer-remove'', Peer_Remove), (''peer-remove-cancel'', Peer_Remove_Cancel),
      (''publication-stop'', Publication_Stop), (''presenter-assign'', Presenter_Assign),
      (''whiteboard-policy-set'', Whiteboard_Policy_Set), (''diagram-policy-set'', Diagram_Policy_Set)]"

definition SOURCES :: "(string \<times> media_source) list" where
  "SOURCES = [(''microphone'', Microphone), (''camera'', Camera), (''screen'', Screen)]"

definition POLICIES :: "(string \<times> draw_policy) list" where
  "POLICIES = [(''open'', Open_Policy), (''presenter-only'', Presenter_Only)]"

text \<open>A string field whose value is in a table of names.\<close>

definition named :: "(string \<times> 'a) list \<Rightarrow> jsval \<Rightarrow> 'a option" where
  "named table v = (case js_string v of None \<Rightarrow> None | Some s \<Rightarrow> map_of table s)"

definition peer_field :: "jsval \<Rightarrow> string option" where
  "peer_field v = (case js_string v of None \<Rightarrow> None | Some s \<Rightarrow> if PEER_ID s then Some s else None)"

fun parse_source :: "moderation_action \<Rightarrow> jsval \<Rightarrow> audit_source option" where
  "parse_source Publication_Stop v = map_option Media_Source (named SOURCES v)"
| "parse_source Whiteboard_Policy_Set v = map_option Policy_Source (named POLICIES v)"
| "parse_source Diagram_Policy_Set v = map_option Policy_Source (named POLICIES v)"
| "parse_source _ v = (if v = JStr '''' then Some No_Source else None)"

definition parse_audit_row :: "int \<Rightarrow> jsval \<Rightarrow> audit_entry option" where
  "parse_audit_row prev item =
     (case js_object item of None \<Rightarrow> None
      | Some row \<Rightarrow>
        if \<not> only_fields row [''sequence'', ''at'', ''actorPeerId'', ''action'', ''targetPeerId'', ''source''] then None
        else case js_integer (js_get row ''sequence'') (prev + 1) MAX_SAFE_INTEGER of None \<Rightarrow> None
        | Some sq \<Rightarrow> (case js_integer (js_get row ''at'') 0 MAX_SAFE_INTEGER of None \<Rightarrow> None
        | Some t \<Rightarrow> (case peer_field (js_get row ''actorPeerId'') of None \<Rightarrow> None
        | Some actor \<Rightarrow> (case peer_field (js_get row ''targetPeerId'') of None \<Rightarrow> None
        | Some target \<Rightarrow> (case named ACTIONS (js_get row ''action'') of None \<Rightarrow> None
        | Some action \<Rightarrow> (case parse_source action (js_get row ''source'') of None \<Rightarrow> None
        | Some src \<Rightarrow>
            Some \<lparr>ae_sequence = sq, ae_at = t, ae_actorPeerId = actor, ae_action = action,
                  ae_targetPeerId = target, ae_source = src\<rparr>))))))"

fun parse_audit_rows :: "int \<Rightarrow> jsval list \<Rightarrow> audit_entry list option" where
  "parse_audit_rows prev [] = Some []"
| "parse_audit_rows prev (item # items) =
     (case parse_audit_row prev item of None \<Rightarrow> None
      | Some e \<Rightarrow> map_option ((#) e) (parse_audit_rows (ae_sequence e) items))"

definition parseAudit :: "jsval \<Rightarrow> audit_entry list option" where
  "parseAudit v =
     (case js_array v of None \<Rightarrow> None
      | Some items \<Rightarrow> if 256 < length items then None else parse_audit_rows 0 items)"

text \<open>\<open>undefined\<close> is \<open>Some None\<close>, the failure \<open>null\<close> is \<open>None\<close>.\<close>

definition parsePendingRemove :: "jsval \<Rightarrow> string list \<Rightarrow> pending_remove option option" where
  "parsePendingRemove v participantIds =
     (if v = JUndefined then Some None
      else case js_object v of None \<Rightarrow> None
      | Some row \<Rightarrow>
        if \<not> only_fields row [''targetPeerId'', ''expiresAt''] then None
        else case peer_field (js_get row ''targetPeerId'') of None \<Rightarrow> None
        | Some target \<Rightarrow>
          if target \<notin> set participantIds then None
          else case js_integer (js_get row ''expiresAt'') 1 MAX_SAFE_INTEGER of None \<Rightarrow> None
          | Some t \<Rightarrow> Some (Some \<lparr>pr_targetPeerId = target, pr_expiresAt = t\<rparr>))"

definition parse_participant :: "string list \<Rightarrow> jsval \<Rightarrow> participant option" where
  "parse_participant seen item =
     (case js_object item of None \<Rightarrow> None
      | Some row \<Rightarrow> (case peer_field (js_get row ''peerId'') of None \<Rightarrow> None
        | Some pid \<Rightarrow>
          if pid \<in> set seen then None
          else case named [(''owner'', Owner), (''participant'', Participant)] (js_get row ''role'') of None \<Rightarrow> None
          | Some role \<Rightarrow>
            (case named [(''none'', Hand_None), (''raised'', Hand_Raised)] (js_get row ''hand'') of None \<Rightarrow> None
             | Some hand \<Rightarrow>
               (case js_integer (js_get row ''raisedAt'') 0 MAX_SAFE_INTEGER of None \<Rightarrow> None
                | Some t \<Rightarrow>
                  if hand = Hand_None \<and> t \<noteq> 0 then None
                  else if hand = Hand_Raised \<and> t < 1 then None
                  else if \<not> only_fields row [''peerId'', ''role'', ''hand'', ''raisedAt''] then None
                  else Some \<lparr>pt_peerId = pid, pt_role = role, pt_hand = hand, pt_raisedAt = t\<rparr>))))"

fun parse_participants :: "string list \<Rightarrow> jsval list \<Rightarrow> participant list option" where
  "parse_participants seen [] = Some []"
| "parse_participants seen (item # items) =
     (case parse_participant seen item of None \<Rightarrow> None
      | Some p \<Rightarrow> map_option ((#) p) (parse_participants (pt_peerId p # seen) items))"

definition raised_hands :: "participant list \<Rightarrow> participant list" where
  "raised_hands ps = filter (\<lambda>p. pt_hand p = Hand_Raised) ps"

text \<open>The loop over the queue: peer ids of raised hands, none twice.\<close>

fun parse_queue :: "string list \<Rightarrow> string list \<Rightarrow> jsval list \<Rightarrow> string list option" where
  "parse_queue raised queued [] = Some []"
| "parse_queue raised queued (item # items) =
     (case peer_field item of None \<Rightarrow> None
      | Some pid \<Rightarrow>
        if pid \<notin> set raised \<or> pid \<in> set queued then None
        else map_option ((#) pid) (parse_queue raised (pid # queued) items))"

text \<open>The order of hands: by the time they were raised, then by peer id (two stable sorts).\<close>

definition hand_order :: "participant list \<Rightarrow> string list" where
  "hand_order ps = map pt_peerId (sort_key pt_raisedAt (sort_key pt_peerId (raised_hands ps)))"

definition parse_presenter :: "(string \<times> jsval) list \<Rightarrow> string list \<Rightarrow> string option" where
  "parse_presenter message participantIds =
     (if js_has message ''presenterPeerId'' then
        case js_string (js_get message ''presenterPeerId'') of None \<Rightarrow> None
        | Some s \<Rightarrow> if s \<noteq> '''' \<and> (\<not> PEER_ID s \<or> s \<notin> set participantIds) then None else Some s
      else Some '''')"

definition parse_policy :: "(string \<times> jsval) list \<Rightarrow> string \<Rightarrow> draw_policy option" where
  "parse_policy message field =
     (if js_has message field then named POLICIES (js_get message field) else Some Open_Policy)"

definition parseSnapshot :: "(string \<times> jsval) list \<Rightarrow> (string \<Rightarrow> moderation) option" where
  "parseSnapshot message =
     (if js_get message ''type'' \<noteq> JStr ''moderation-state'' then None
      else case js_integer (js_get message ''membershipEpoch'') 1 MAX_SAFE_INTEGER of None \<Rightarrow> None
      | Some epoch \<Rightarrow> (case (js_array (js_get message ''participants''), js_array (js_get message ''queue'')) of
        (Some items, Some queue) \<Rightarrow>
        if \<not> only_fields message [''version'', ''type'', ''membershipEpoch'', ''participants'', ''queue'', ''audit'',
            ''presenterPeerId'', ''pendingRemove'', ''whiteboardPolicy'', ''diagramPolicy''] then None
        else case parse_participants [] items of None \<Rightarrow> None
        | Some ps \<Rightarrow>
          if length queue \<noteq> length (raised_hands ps) then None
          else case parse_queue (map pt_peerId (raised_hands ps)) [] queue of None \<Rightarrow> None
          | Some q \<Rightarrow>
            if q \<noteq> hand_order ps then None
            else case (if js_has message ''audit'' then parseAudit (js_get message ''audit'') else Some []) of None \<Rightarrow> None
            | Some au \<Rightarrow>
              (let ids = map pt_peerId ps in
               case parse_presenter message ids of None \<Rightarrow> None
               | Some presenter \<Rightarrow> (case parsePendingRemove (js_get message ''pendingRemove'') ids of None \<Rightarrow> None
               | Some pending \<Rightarrow> (case parse_policy message ''whiteboardPolicy'' of None \<Rightarrow> None
               | Some wp \<Rightarrow> (case parse_policy message ''diagramPolicy'' of None \<Rightarrow> None
               | Some dp \<Rightarrow>
                 Some (\<lambda>own. \<lparr>md_membershipEpoch = epoch, md_participants = ps, md_queue = q, md_audit = au,
                   md_presenterPeerId = presenter, md_pendingRemove = pending, md_whiteboardPolicy = wp,
                   md_diagramPolicy = dp, md_ownPeerId = own\<rparr>)))))
        | _ \<Rightarrow> None))"

record stop_request =
  st_membershipEpoch :: int
  st_targetPeerId :: string
  st_source :: media_source

definition parseStopRequest :: "(string \<times> jsval) list \<Rightarrow> stop_request option" where
  "parseStopRequest message =
     (if js_get message ''type'' \<noteq> JStr ''publication-stop-request'' then None
      else if \<not> only_fields message [''version'', ''type'', ''membershipEpoch'', ''targetPeerId'', ''source''] then None
      else case js_integer (js_get message ''membershipEpoch'') 1 MAX_SAFE_INTEGER of None \<Rightarrow> None
      | Some epoch \<Rightarrow> (case peer_field (js_get message ''targetPeerId'') of None \<Rightarrow> None
      | Some target \<Rightarrow> (case named SOURCES (js_get message ''source'') of None \<Rightarrow> None
      | Some src \<Rightarrow> Some \<lparr>st_membershipEpoch = epoch, st_targetPeerId = target, st_source = src\<rparr>)))"

subsection \<open>The service\<close>

definition find_own :: "moderation \<Rightarrow> participant option" where
  "find_own m = find (\<lambda>p. pt_peerId p = md_ownPeerId m) (md_participants m)"

definition ownPresenter :: "moderation \<Rightarrow> bool" where
  "ownPresenter m \<longleftrightarrow> md_presenterPeerId m \<noteq> '''' \<and> md_presenterPeerId m = md_ownPeerId m"

definition ownHand :: "moderation \<Rightarrow> bool" where
  "ownHand m = (case find_own m of None \<Rightarrow> False | Some p \<Rightarrow> pt_hand p = Hand_Raised)"

definition ownRole :: "moderation \<Rightarrow> room_role" where
  "ownRole m = (case find_own m of None \<Rightarrow> Participant | Some p \<Rightarrow> pt_role p)"

definition canControl :: "moderation \<Rightarrow> bool" where
  "canControl m \<longleftrightarrow> ownRole m = Owner \<or> ownPresenter m"

fun index_of :: "'a \<Rightarrow> 'a list \<Rightarrow> nat option" where
  "index_of x [] = None"
| "index_of x (y # ys) = (if x = y then Some 0 else map_option Suc (index_of x ys))"

definition queuePosition :: "moderation \<Rightarrow> nat" where
  "queuePosition m = (case index_of (md_ownPeerId m) (md_queue m) of None \<Rightarrow> 0 | Some i \<Rightarrow> i + 1)"

text \<open>\<open>apply\<close>: the new state and the media sources to stop.\<close>

definition apply_moderation :: "moderation \<Rightarrow> (string \<times> jsval) list \<Rightarrow> moderation \<times> media_source list" where
  "apply_moderation m message =
     (case parseStopRequest message of
        Some stop \<Rightarrow> (m, if st_targetPeerId stop = md_ownPeerId m then [st_source stop] else [])
      | None \<Rightarrow> (case parseSnapshot message of
          None \<Rightarrow> (m, [])
        | Some snapshot \<Rightarrow> (snapshot (md_ownPeerId m), [])))"

definition bind_peer :: "moderation \<Rightarrow> string \<Rightarrow> moderation" where
  "bind_peer m peerId = m\<lparr>md_ownPeerId := peerId\<rparr>"

definition reset_moderation :: "moderation \<Rightarrow> moderation" where
  "reset_moderation m = new_moderation"

datatype moderation_command =
    Raise
  | Clear string
  | Remove string
  | Request_Stop string media_source
  | Assign_Presenter string
  | Cancel_Remove
  | Set_Whiteboard_Policy draw_policy
  | Set_Diagram_Policy draw_policy

definition source_name :: "media_source \<Rightarrow> string" where
  "source_name s = (case s of Microphone \<Rightarrow> ''microphone'' | Camera \<Rightarrow> ''camera'' | Screen \<Rightarrow> ''screen'')"

definition policy_name :: "draw_policy \<Rightarrow> string" where
  "policy_name p = (case p of Open_Policy \<Rightarrow> ''open'' | Presenter_Only \<Rightarrow> ''presenter-only'')"

fun run_command :: "moderation \<Rightarrow> moderation_command \<Rightarrow> jsval option" where
  "run_command m Raise =
     Some (JObj [(''type'', JStr (if ownHand m then ''hand-lower'' else ''hand-raise''))])"
| "run_command m (Clear target) =
     (if ownRole m \<noteq> Owner then None
      else Some (JObj [(''type'', JStr ''hand-clear''), (''targetPeerId'', JStr target)]))"
| "run_command m (Remove target) =
     (if ownRole m \<noteq> Owner \<or> target = md_ownPeerId m then None
      else Some (JObj [(''type'', JStr ''peer-remove''), (''targetPeerId'', JStr target)]))"
| "run_command m (Request_Stop target src) =
     (if ownRole m \<noteq> Owner \<or> target = md_ownPeerId m then None
      else Some (JObj [(''type'', JStr ''publication-stop''), (''targetPeerId'', JStr target),
                       (''source'', JStr (source_name src))]))"
| "run_command m (Assign_Presenter target) =
     (if ownRole m \<noteq> Owner then None
      else Some (JObj [(''type'', JStr ''presenter-assign''), (''targetPeerId'', JStr target)]))"
| "run_command m Cancel_Remove =
     (if ownRole m \<noteq> Owner \<or> md_pendingRemove m = None then None
      else Some (JObj [(''type'', JStr ''peer-remove-cancel'')]))"
| "run_command m (Set_Whiteboard_Policy policy) =
     (if \<not> canControl m then None
      else Some (JObj [(''type'', JStr ''whiteboard-policy-set''), (''policy'', JStr (policy_name policy))]))"
| "run_command m (Set_Diagram_Policy policy) =
     (if \<not> canControl m then None
      else Some (JObj [(''type'', JStr ''diagram-policy-set''), (''policy'', JStr (policy_name policy))]))"

subsection \<open>What an accepted snapshot guarantees\<close>

definition hand_before :: "participant \<Rightarrow> participant \<Rightarrow> bool" where
  "hand_before a b \<longleftrightarrow>
     pt_raisedAt a < pt_raisedAt b \<or> pt_raisedAt a = pt_raisedAt b \<and> pt_peerId a \<le> pt_peerId b"

definition moderation_ok :: "moderation \<Rightarrow> bool" where
  "moderation_ok m \<longleftrightarrow>
     distinct (map pt_peerId (md_participants m))
     \<and> (\<exists>hs. mset hs = mset (raised_hands (md_participants m)) \<and> sorted_wrt hand_before hs
              \<and> md_queue m = map pt_peerId hs)
     \<and> (md_presenterPeerId m = '''' \<or> md_presenterPeerId m \<in> pt_peerId ` set (md_participants m))
     \<and> pr_targetPeerId ` set_option (md_pendingRemove m) \<subseteq> pt_peerId ` set (md_participants m)
     \<and> sorted_wrt (<) (map ae_sequence (md_audit m))"

lemma parse_participant_id: "parse_participant seen v = Some p \<Longrightarrow> pt_peerId p \<notin> set seen"
  by (auto simp: parse_participant_def split: option.splits if_splits)

lemma parse_participants_distinct:
  "parse_participants seen items = Some ps \<Longrightarrow>
     distinct (map pt_peerId ps) \<and> set (map pt_peerId ps) \<inter> set seen = {}"
proof (induction items arbitrary: seen ps)
  case (Cons item items)
  from Cons.prems obtain p qs where p: "parse_participant seen item = Some p"
    and qs: "parse_participants (pt_peerId p # seen) items = Some qs" "ps = p # qs"
    by (auto split: option.splits)
  show ?case using Cons.IH [OF qs(1)] parse_participant_id [OF p] qs(2) by auto
qed simp

lemma parse_audit_row_after: "parse_audit_row prev v = Some e \<Longrightarrow> prev < ae_sequence e"
  by (auto simp: parse_audit_row_def js_integer_Some_iff split: option.splits if_splits)

lemma parse_audit_rows_sorted:
  "parse_audit_rows prev items = Some es \<Longrightarrow>
     sorted_wrt (<) (map ae_sequence es) \<and> (\<forall>e \<in> set es. prev < ae_sequence e)"
proof (induction items arbitrary: prev es)
  case (Cons item items)
  from Cons.prems obtain e fs where e: "parse_audit_row prev item = Some e"
    and fs: "parse_audit_rows (ae_sequence e) items = Some fs" "es = e # fs"
    by (auto split: option.splits)
  show ?case using Cons.IH [OF fs(1)] parse_audit_row_after [OF e] fs(2) by force
qed simp

text \<open>A stable sort keeps the order of an earlier sort among equal keys.\<close>

lemma sorted_wrt_insort_key:
  fixes f :: "'a \<Rightarrow> 'b :: linorder"
  assumes "sorted_wrt (\<lambda>a b. f a < f b \<or> f a = f b \<and> R a b) xs" and "\<And>y. y \<in> set xs \<Longrightarrow> R x y"
  shows "sorted_wrt (\<lambda>a b. f a < f b \<or> f a = f b \<and> R a b) (insort_key f x xs)"
  using assms by (induction xs) (auto simp: set_insort_key intro: le_neq_trans)

lemma sorted_wrt_sort_key:
  fixes f :: "'a \<Rightarrow> 'b :: linorder"
  assumes "sorted_wrt R xs"
  shows "sorted_wrt (\<lambda>a b. f a < f b \<or> f a = f b \<and> R a b) (sort_key f xs)"
  using assms
proof (induction xs)
  case (Cons x xs)
  then have "sorted_wrt (\<lambda>a b. f a < f b \<or> f a = f b \<and> R a b) (insort_key f x (sort_key f xs))"
    by (intro sorted_wrt_insort_key) auto
  then show ?case by simp
qed simp

lemma hand_order_sorted:
  "\<exists>hs. mset hs = mset (raised_hands ps) \<and> sorted_wrt hand_before hs \<and> hand_order ps = map pt_peerId hs"
proof (intro exI conjI)
  have "sorted (map pt_peerId (sort_key pt_peerId (raised_hands ps)))" by simp
  then have "sorted_wrt (\<lambda>a b. pt_peerId a \<le> pt_peerId b) (sort_key pt_peerId (raised_hands ps))"
    by (simp add: sorted_wrt_map)
  then show "sorted_wrt hand_before (sort_key pt_raisedAt (sort_key pt_peerId (raised_hands ps)))"
    unfolding hand_before_def by (rule sorted_wrt_sort_key)
qed (simp_all add: hand_order_def)

lemma parsePendingRemove_target:
  "parsePendingRemove v ids = Some (Some r) \<Longrightarrow> pr_targetPeerId r \<in> set ids"
  by (auto simp: parsePendingRemove_def split: option.splits if_splits)

lemma parse_presenter_member: "parse_presenter msg ids = Some s \<Longrightarrow> s = '''' \<or> s \<in> set ids"
  by (auto simp: parse_presenter_def split: option.splits if_splits)

lemma parseSnapshot_ok: "parseSnapshot message = Some snapshot \<Longrightarrow> moderation_ok (snapshot own)"
proof -
  assume "parseSnapshot message = Some snapshot"
  then obtain epoch items ps au presenter pending wp dp where
      ps: "parse_participants [] items = Some ps"
    and au: "(if js_has message ''audit'' then parseAudit (js_get message ''audit'') else Some []) = Some au"
    and pr: "parse_presenter message (map pt_peerId ps) = Some presenter"
    and pe: "parsePendingRemove (js_get message ''pendingRemove'') (map pt_peerId ps) = Some pending"
    and s: "snapshot = (\<lambda>own. \<lparr>md_membershipEpoch = epoch, md_participants = ps, md_queue = hand_order ps,
        md_audit = au, md_presenterPeerId = presenter, md_pendingRemove = pending, md_whiteboardPolicy = wp,
        md_diagramPolicy = dp, md_ownPeerId = own\<rparr>)"
    unfolding parseSnapshot_def by (auto simp: Let_def split: option.splits if_splits)
  have "sorted_wrt (<) (map ae_sequence au)"
    using au parse_audit_rows_sorted by (auto simp: parseAudit_def split: option.splits if_splits)
  moreover have "pr_targetPeerId ` set_option pending \<subseteq> pt_peerId ` set ps"
    using pe parsePendingRemove_target by (cases pending) fastforce+
  ultimately show ?thesis
    using parse_participants_distinct [OF ps] parse_presenter_member [OF pr] hand_order_sorted [of ps]
    by (auto simp: moderation_ok_def s)
qed

lemma moderation_ok_new: "moderation_ok new_moderation"
  by (simp add: moderation_ok_def new_moderation_def raised_hands_def)

datatype moderation_event = Server_Message "(string \<times> jsval) list" | Bind string | Reset

fun moderation_step :: "moderation \<Rightarrow> moderation_event \<Rightarrow> moderation" where
  "moderation_step m (Server_Message message) = fst (apply_moderation m message)"
| "moderation_step m (Bind peerId) = bind_peer m peerId"
| "moderation_step m Reset = reset_moderation m"

text \<open>C21. Whatever messages arrive, the client's moderation state is consistent: no peer is listed
  twice; the queue of hands is the list of the participants with a raised hand, ordered by the time
  they raised it and then by peer id; the presenter and the peer pending removal are participants; the
  audit log is strictly ordered by its sequence numbers.\<close>

theorem moderation_view_consistent:
  "moderation_ok (foldl moderation_step new_moderation events)"
proof -
  have step: "moderation_ok (moderation_step m e)" if "moderation_ok m" for m e
  proof (cases e)
    case (Server_Message message)
    then show ?thesis using that parseSnapshot_ok by (auto simp: apply_moderation_def split: option.split)
  qed (use that in \<open>simp_all add: moderation_ok_new reset_moderation_def bind_peer_def, simp add: moderation_ok_def\<close>)
  have "moderation_ok m \<Longrightarrow> moderation_ok (foldl moderation_step m events)" for m
    by (induction events arbitrary: m) (auto intro: step)
  then show ?thesis using moderation_ok_new .
qed

end
