(* ===== verification/Collab_Contract.thy ===== *)
theory Collab_Contract
  imports Js_Json_Laws Overlay_Queue Moderation
begin

text \<open>
  What the collaboration tools (polls, notes, diagrams, whiteboard, slides) share: the envelope of an
  operation and its wire form, the admission of a delivery, the room a service looks at, the messages it
  sends, and random operation ids.

  Two interfaces are stated as locales. A \<open>json_contract\<close> is a parser with its printer; its lemmas are
  the round trip of the encoded bytes and the totality of the encoder. A \<open>payload_contract\<close> is the part a
  tool adds to the common envelope; it yields the contract of the whole operation.
\<close>

subsection \<open>Operations and their wire form\<close>

record 'p operation =
  op_id :: string
  op_epoch :: int
  op_author :: string
  op_payload :: 'p

definition OP_FIELDS :: "string list" where
  "OP_FIELDS = [''version'', ''type'', ''opId'', ''membershipEpoch'', ''authorPeerId'', ''kind'', ''payload'']"

text \<open>The object literal a service hands to its parser.\<close>

definition op_object :: "string \<Rightarrow> string \<Rightarrow> int \<Rightarrow> string \<Rightarrow> string \<Rightarrow> jsval \<Rightarrow> jsval" where
  "op_object tag oid epoch author kind payload =
     JObj [(''version'', JInt 1), (''type'', JStr tag), (''opId'', JStr oid), (''membershipEpoch'', JInt epoch),
           (''authorPeerId'', JStr author), (''kind'', JStr kind), (''payload'', payload)]"

definition op_json :: "string \<Rightarrow> ('p \<Rightarrow> string) \<Rightarrow> ('p \<Rightarrow> jsval) \<Rightarrow> 'p operation \<Rightarrow> jsval" where
  "op_json tag kind payload_json op =
     op_object tag (op_id op) (op_epoch op) (op_author op) (kind (op_payload op)) (payload_json (op_payload op))"

definition parse_op :: "string \<Rightarrow> (string \<Rightarrow> jsval \<Rightarrow> 'p option) \<Rightarrow> jsval \<Rightarrow> 'p operation option" where
  "parse_op tag parse_payload v =
     (case exact v OP_FIELDS of None \<Rightarrow> None
      | Some kvs \<Rightarrow>
        if js_get kvs ''version'' \<noteq> JInt 1 \<or> js_get kvs ''type'' \<noteq> JStr tag then None
        else case js_string (js_get kvs ''opId'') of None \<Rightarrow> None
        | Some oid \<Rightarrow>
          if \<not> OP_ID oid then None
          else case js_integer (js_get kvs ''membershipEpoch'') 1 MAX_SAFE_INTEGER of None \<Rightarrow> None
          | Some epoch \<Rightarrow> (case peer_field (js_get kvs ''authorPeerId'') of None \<Rightarrow> None
          | Some author \<Rightarrow> (case js_string (js_get kvs ''kind'') of None \<Rightarrow> None
          | Some kind \<Rightarrow> (case parse_payload kind (js_get kvs ''payload'') of None \<Rightarrow> None
          | Some p \<Rightarrow> Some \<lparr>op_id = oid, op_epoch = epoch, op_author = author, op_payload = p\<rparr>))))"

text \<open>\<open>try { parse(JSON.parse(new TextDecoder().decode(data))) } catch { null }\<close>, and the encoder that
  validates what it is given.\<close>

definition decode_with :: "(jsval \<Rightarrow> 'a option) \<Rightarrow> bytes \<Rightarrow> 'a option" where
  "decode_with parse data = Option.bind (json_parse (text_decode data)) parse"

definition encode_with :: "string \<Rightarrow> (jsval \<Rightarrow> 'a option) \<Rightarrow> ('a \<Rightarrow> jsval) \<Rightarrow> 'a \<Rightarrow> string + bytes" where
  "encode_with err parse to_json op =
     (case parse (to_json op) of None \<Rightarrow> Inl err | Some p \<Rightarrow> Inr (text_encode (stringify (to_json p))))"

subsection \<open>Contracts\<close>

locale json_contract =
  fixes parse :: "jsval \<Rightarrow> 'a option" and to_json :: "'a \<Rightarrow> jsval"
  assumes parse_to_json: "parse v = Some a \<Longrightarrow> parse (to_json a) = Some a"
    and to_json_object: "\<exists>kvs. to_json a = JObj kvs"
    and to_json_clean: "parse v = Some a \<Longrightarrow> json_clean (to_json a)"
begin

lemma encode_accepted:
  "parse v = Some a \<Longrightarrow> encode_with err parse to_json a = Inr (text_encode (stringify (to_json a)))"
  by (simp add: encode_with_def parse_to_json)

lemma decode_encode:
  assumes "encode_with err parse to_json a = Inr bs" and "js_utf8 (to_json a)"
    and "parse (to_json a) = Some a"
  shows "decode_with parse bs = Some a"
proof -
  obtain kvs where kvs: "to_json a = JObj kvs" using to_json_object by blast
  have "json_parse (text_decode (text_encode (stringify (to_json a)))) = Some (to_json a)"
    by (rule decode_json_encode [OF kvs to_json_clean [OF assms(3)] assms(2)])
  then show ?thesis using assms(1,3) by (auto simp: encode_with_def decode_with_def)
qed

lemma accepted_roundtrip:
  assumes "parse v = Some a" and "js_utf8 (to_json a)"
  shows "\<exists>bs. encode_with err parse to_json a = Inr bs \<and> decode_with parse bs = Some a"
  using decode_encode [OF encode_accepted [OF assms(1)] assms(2) parse_to_json [OF assms(1)]]
    encode_accepted [OF assms(1)] by blast

end

locale payload_contract =
  fixes tag :: string and kind :: "'p \<Rightarrow> string" and payload_json :: "'p \<Rightarrow> jsval"
    and parse_payload :: "string \<Rightarrow> jsval \<Rightarrow> 'p option"
  assumes payload_kind: "parse_payload k v = Some p \<Longrightarrow> kind p = k"
    and payload_reparse: "parse_payload k v = Some p \<Longrightarrow> parse_payload k (payload_json p) = Some p"
    and payload_clean: "parse_payload k v = Some p \<Longrightarrow> json_clean (payload_json p)"
begin

lemma parse_op_Some:
  assumes "parse_op tag parse_payload v = Some op"
  shows "OP_ID (op_id op)" and "1 \<le> op_epoch op" and "op_epoch op \<le> MAX_SAFE_INTEGER"
    and "PEER_ID (op_author op)" and "\<exists>w. parse_payload (kind (op_payload op)) w = Some (op_payload op)"
  using assms payload_kind
  by (auto simp: parse_op_def peer_field_def js_integer_Some_iff split: option.splits if_splits)

lemma parse_op_object:
  assumes "OP_ID oid" and "1 \<le> epoch" and "epoch \<le> MAX_SAFE_INTEGER" and "PEER_ID author"
  shows "parse_op tag parse_payload (op_object tag oid epoch author k w) =
    map_option (\<lambda>p. \<lparr>op_id = oid, op_epoch = epoch, op_author = author, op_payload = p\<rparr>) (parse_payload k w)"
  using assms
  by (simp add: parse_op_def op_object_def OP_FIELDS_def peer_field_def js_simps MAX_SAFE_INTEGER_def
      split: option.split)

lemma parse_op_json:
  assumes "parse_op tag parse_payload v = Some op"
  shows "parse_op tag parse_payload (op_json tag kind payload_json op) = Some op"
proof -
  note h = parse_op_Some [OF assms]
  obtain w where "parse_payload (kind (op_payload op)) w = Some (op_payload op)" using h(5) ..
  then have "parse_payload (kind (op_payload op)) (payload_json (op_payload op)) = Some (op_payload op)"
    by (rule payload_reparse)
  then show ?thesis by (simp add: op_json_def parse_op_object [OF h(1-4)])
qed

lemma op_json_clean:
  assumes "parse_op tag parse_payload v = Some op"
  shows "json_clean (op_json tag kind payload_json op)"
  using parse_op_Some [OF assms] payload_clean
  by (fastforce simp: op_json_def op_object_def MAX_SAFE_INTEGER_def)

end

sublocale payload_contract \<subseteq> op: json_contract "parse_op tag parse_payload" "op_json tag kind payload_json"
proof unfold_locales
  show "\<exists>kvs. op_json tag kind payload_json a = JObj kvs" for a
    by (simp add: op_json_def op_object_def)
qed (fact parse_op_json op_json_clean)+

subsection \<open>Random operation ids\<close>

definition to_string16 :: "nat \<Rightarrow> string" where
  "to_string16 b = (if b < 16 then [hex_char b] else [hex_char (b div 16), hex_char (b mod 16)])"

definition pad_start :: "nat \<Rightarrow> char \<Rightarrow> string \<Rightarrow> string" where
  "pad_start n c s = replicate (n - length s) c @ s"

text \<open>\<open>opId()\<close>, on the 16 random bytes.\<close>

definition opId :: "bytes \<Rightarrow> string" where
  "opId bs = concat (map (\<lambda>b. pad_start 2 (CHR ''0'') (to_string16 b)) bs)"

definition random16 :: "bytes \<Rightarrow> bool" where
  "random16 bs \<longleftrightarrow> length bs = 16 \<and> (\<forall>b \<in> set bs. b < 256)"

lemma lower_hex_zero: "lower_hex (CHR ''0'')"
  by (simp add: lower_hex_def)

lemma byte_hex:
  assumes "b < 256"
  shows "length (pad_start 2 (CHR ''0'') (to_string16 b)) = 2"
    and "list_all lower_hex (pad_start 2 (CHR ''0'') (to_string16 b))"
  using assms by (auto simp: pad_start_def to_string16_def hex_char_lower lower_hex_zero)

lemma OP_ID_opId: "random16 bs \<Longrightarrow> OP_ID (opId bs)"
proof -
  assume r: "random16 bs"
  have "length (concat (map (\<lambda>b. pad_start 2 (CHR ''0'') (to_string16 b)) xs)) = 2 * length xs"
    if "\<forall>b \<in> set xs. b < 256" for xs
    using that by (induction xs) (auto simp: byte_hex)
  moreover have "list_all lower_hex (concat (map (\<lambda>b. pad_start 2 (CHR ''0'') (to_string16 b)) xs))"
    if "\<forall>b \<in> set xs. b < 256" for xs
    using that by (induction xs) (auto simp: byte_hex)
  ultimately show ?thesis using r by (simp add: OP_ID_def matches_def opId_def random16_def)
qed

subsection \<open>The room and the overlay\<close>

record delivery =
  dl_id :: int
  dl_origin :: string
  dl_class :: traffic_class
  dl_data :: bytes

text \<open>What a service reads of the session, the mesh and the moderation service. The peer choices are
  given by their ids; \<open>rm_machines\<close> are the peers that are machine receivers.\<close>

record room =
  rm_joined :: bool
  rm_peerId :: string
  rm_epoch :: int
  rm_peers :: "string list"
  rm_machines :: "string list"
  rm_moderation :: moderation

type_synonym outgoing = "string \<times> bytes \<times> traffic_class"

definition known_peers :: "room \<Rightarrow> string list" where
  "known_peers r = rm_peerId r # rm_peers r"

definition broadcast :: "room \<Rightarrow> bytes \<Rightarrow> traffic_class \<Rightarrow> outgoing list" where
  "broadcast r bs cls = map (\<lambda>p. (p, bs, cls)) (filter (\<lambda>p. p \<notin> set (rm_machines r)) (rm_peers r))"

text \<open>The checks every service makes on a decoded operation: the current epoch, an author that is the
  sender and known, an operation id not seen before.\<close>

definition admit :: "int \<Rightarrow> string list \<Rightarrow> string list \<Rightarrow> string \<Rightarrow> 'p operation \<Rightarrow> 'p operation option" where
  "admit epoch known seen origin op =
     (if op_epoch op \<noteq> epoch then None
      else if op_author op \<noteq> origin then None
      else if op_author op \<notin> set known then None
      else if op_id op \<in> set seen then None
      else Some op)"

lemma admit_Some_iff:
  "admit epoch known seen origin op = Some op' \<longleftrightarrow>
     op' = op \<and> op_epoch op = epoch \<and> op_author op = origin \<and> origin \<in> set known \<and> op_id op \<notin> set seen"
  by (auto simp: admit_def)

text \<open>What a handler does: its return value (or the message of an exception), the new state, the
  messages it sent.\<close>

type_synonym 's outcome = "(string + bool) \<times> 's \<times> outgoing list"

subsection \<open>Repeated operations\<close>

text \<open>\<open>carries\<close> is the operation in a delivery, \<open>handle\<close> the state after it, and \<open>drops\<close> says that the service refuses it and
  changes and sends nothing. Once a delivery was not dropped, every later delivery of an operation with the same id is,
  whatever arrives in between.\<close>

definition repeats_dropped ::
  "('e \<Rightarrow> 's \<Rightarrow> 's) \<Rightarrow> ('e \<Rightarrow> 's \<Rightarrow> bool) \<Rightarrow> ('e \<Rightarrow> 'p operation option) \<Rightarrow> ('p operation \<Rightarrow> bool) \<Rightarrow> bool" where
  "repeats_dropped handle drops carries recorded \<longleftrightarrow>
     (\<forall>s e es e' op op'. \<not> drops e s \<and> carries e = Some op \<and> recorded op \<and> carries e' = Some op' \<and> op_id op' = op_id op
        \<longrightarrow> drops e' (fold handle es (handle e s)))"

text \<open>A service that remembers the ids of the operations it has processed.\<close>

locale replay_guard =
  fixes seen :: "'s \<Rightarrow> string list" and handle :: "'e \<Rightarrow> 's \<Rightarrow> 's" and drops :: "'e \<Rightarrow> 's \<Rightarrow> bool"
    and carries :: "'e \<Rightarrow> 'p operation option" and recorded :: "'p operation \<Rightarrow> bool"
  assumes processed_seen: "\<not> drops e s \<Longrightarrow> carries e = Some op \<Longrightarrow> recorded op \<Longrightarrow> op_id op \<in> set (seen (handle e s))"
    and seen_grows: "set (seen s) \<subseteq> set (seen (handle e s))"
    and seen_dropped: "carries e = Some op \<Longrightarrow> op_id op \<in> set (seen s) \<Longrightarrow> drops e s"
begin

lemma seen_run: "set (seen s) \<subseteq> set (seen (fold handle es s))"
proof (induction es arbitrary: s)
  case (Cons e es)
  then show ?case using seen_grows [of s e] by (metis fold_simps(2) order_trans)
qed simp

lemma seen_dropped_later: "x \<in> set (seen s) \<Longrightarrow> carries e = Some op \<Longrightarrow> op_id op = x \<Longrightarrow> drops e (fold handle es s)"
  using seen_run [of s es] by (intro seen_dropped) auto

lemma repeats_dropped: "repeats_dropped handle drops carries recorded"
  unfolding repeats_dropped_def using processed_seen seen_dropped_later by blast

end

end
