(* ===== verification/Poll_Contract.thy ===== *)
theory Poll_Contract
  imports Collab_Contract
begin

text \<open>
  \<^verbatim>\<open>webrtc/poll-contract.ts\<close>: the operations of a poll and their wire form. The kind of an operation is
  the constructor of its payload.
\<close>

datatype poll_status = Status_None | Status_Active | Status_Published | Status_Closed

record poll_definition =
  pd_pollId :: string
  pd_creatorPeerId :: string
  pd_question :: string
  pd_options :: "string list"
  pd_anonymous :: bool

datatype poll_payload =
    Poll_Create string string "string list" bool
  | Poll_Vote string int
  | Poll_Publish string "int list" int
  | Poll_Close string "int list" int
  | Poll_Sync_Request
  | Poll_Snapshot poll_status "poll_definition option" "int list" int

type_synonym poll_operation = "poll_payload operation"

definition MAX_QUESTION_LENGTH :: nat where
  [contract_simps]: "MAX_QUESTION_LENGTH = 120"

definition MIN_OPTIONS :: nat where
  [contract_simps]: "MIN_OPTIONS = 2"

definition MAX_OPTIONS :: nat where
  [contract_simps]: "MAX_OPTIONS = 6"

definition MAX_OPTION_LENGTH :: nat where
  [contract_simps]: "MAX_OPTION_LENGTH = 60"

text \<open>\<open>validText\<close>, with the trimmed text its callers take from it.\<close>

definition validText :: "nat \<Rightarrow> jsval \<Rightarrow> string option" where
  "validText maxLength v =
     (case js_string v of None \<Rightarrow> None
      | Some s \<Rightarrow>
        (let trimmed = js_trim s in
         if js_length trimmed > 0 \<and> js_length trimmed \<le> maxLength \<and> \<not> list_ex control_char trimmed
         then Some trimmed else None))"

definition poll_id :: "jsval \<Rightarrow> string option" where
  "poll_id v = (case js_string v of None \<Rightarrow> None | Some s \<Rightarrow> if OP_ID s then Some s else None)"

definition parse_options :: "jsval \<Rightarrow> string list option" where
  "parse_options v =
     (case js_array v of None \<Rightarrow> None
      | Some xs \<Rightarrow>
        if length xs < MIN_OPTIONS \<or> MAX_OPTIONS < length xs then None
        else collect (validText MAX_OPTION_LENGTH) xs)"

definition parse_count :: "jsval \<Rightarrow> int option" where
  "parse_count v = js_integer v 0 1000"

definition parse_create :: "jsval \<Rightarrow> poll_payload option" where
  "parse_create v =
     (case exact v [''pollId'', ''question'', ''options'', ''anonymous''] of None \<Rightarrow> None
      | Some kvs \<Rightarrow> (case poll_id (js_get kvs ''pollId'') of None \<Rightarrow> None
      | Some pid \<Rightarrow> (case js_bool (js_get kvs ''anonymous'') of None \<Rightarrow> None
      | Some anonymous \<Rightarrow> (case validText MAX_QUESTION_LENGTH (js_get kvs ''question'') of None \<Rightarrow> None
      | Some question \<Rightarrow> (case parse_options (js_get kvs ''options'') of None \<Rightarrow> None
      | Some options \<Rightarrow> Some (Poll_Create pid question options anonymous))))))"

definition parse_vote :: "jsval \<Rightarrow> poll_payload option" where
  "parse_vote v =
     (case exact v [''pollId'', ''optionIndex''] of None \<Rightarrow> None
      | Some kvs \<Rightarrow> (case poll_id (js_get kvs ''pollId'') of None \<Rightarrow> None
      | Some pid \<Rightarrow> map_option (Poll_Vote pid) (js_integer (js_get kvs ''optionIndex'') 0 (int MAX_OPTIONS - 1))))"

definition parse_results :: "(string \<Rightarrow> int list \<Rightarrow> int \<Rightarrow> poll_payload) \<Rightarrow> jsval \<Rightarrow> poll_payload option" where
  "parse_results mk v =
     (case exact v [''pollId'', ''counts'', ''totalVotes''] of None \<Rightarrow> None
      | Some kvs \<Rightarrow> (case poll_id (js_get kvs ''pollId'') of None \<Rightarrow> None
      | Some pid \<Rightarrow> (case js_array (js_get kvs ''counts'') of None \<Rightarrow> None
      | Some xs \<Rightarrow>
        if length xs < MIN_OPTIONS \<or> MAX_OPTIONS < length xs then None
        else case collect parse_count xs of None \<Rightarrow> None
        | Some counts \<Rightarrow> map_option (mk pid counts) (parse_count (js_get kvs ''totalVotes'')))))"

definition poll_statuses :: "(string \<times> poll_status) list" where
  "poll_statuses = [(''none'', Status_None), (''active'', Status_Active), (''published'', Status_Published), (''closed'', Status_Closed)]"

definition parse_poll :: "jsval \<Rightarrow> poll_definition option" where
  "parse_poll v =
     (case exact v [''pollId'', ''creatorPeerId'', ''question'', ''options'', ''anonymous''] of None \<Rightarrow> None
      | Some p \<Rightarrow> (case poll_id (js_get p ''pollId'') of None \<Rightarrow> None
      | Some pid \<Rightarrow> (case peer_field (js_get p ''creatorPeerId'') of None \<Rightarrow> None
      | Some creator \<Rightarrow> (case js_bool (js_get p ''anonymous'') of None \<Rightarrow> None
      | Some anonymous \<Rightarrow> (case validText MAX_QUESTION_LENGTH (js_get p ''question'') of None \<Rightarrow> None
      | Some question \<Rightarrow> (case parse_options (js_get p ''options'') of None \<Rightarrow> None
      | Some options \<Rightarrow>
          Some \<lparr>pd_pollId = pid, pd_creatorPeerId = creator, pd_question = question, pd_options = options,
                pd_anonymous = anonymous\<rparr>))))))"

definition parse_snapshot :: "jsval \<Rightarrow> poll_payload option" where
  "parse_snapshot v =
     (case exact v [''status'', ''poll'', ''counts'', ''totalVotes''] of None \<Rightarrow> None
      | Some kvs \<Rightarrow> (case named poll_statuses (js_get kvs ''status'') of None \<Rightarrow> None
      | Some status \<Rightarrow>
        (case (if js_get kvs ''poll'' = JNull then Some None else map_option Some (parse_poll (js_get kvs ''poll''))) of
           None \<Rightarrow> None
         | Some poll \<Rightarrow> (case js_array (js_get kvs ''counts'') of None \<Rightarrow> None
         | Some xs \<Rightarrow> (case collect parse_count xs of None \<Rightarrow> None
         | Some counts \<Rightarrow> map_option (Poll_Snapshot status poll counts) (parse_count (js_get kvs ''totalVotes'')))))))"

definition parse_poll_payload :: "string \<Rightarrow> jsval \<Rightarrow> poll_payload option" where
  "parse_poll_payload kind v =
     (if kind = ''poll-sync-request'' then map_option (\<lambda>_. Poll_Sync_Request) (exact v [])
      else if kind = ''poll-create'' then parse_create v
      else if kind = ''poll-vote'' then parse_vote v
      else if kind = ''poll-publish'' then parse_results Poll_Publish v
      else if kind = ''poll-close'' then parse_results Poll_Close v
      else if kind = ''poll-snapshot'' then parse_snapshot v
      else None)"

definition parsePollOperation :: "jsval \<Rightarrow> poll_operation option" where
  "parsePollOperation = parse_op ''poll-op'' parse_poll_payload"

fun poll_kind :: "poll_payload \<Rightarrow> string" where
  "poll_kind (Poll_Create _ _ _ _) = ''poll-create''"
| "poll_kind (Poll_Vote _ _) = ''poll-vote''"
| "poll_kind (Poll_Publish _ _ _) = ''poll-publish''"
| "poll_kind (Poll_Close _ _ _) = ''poll-close''"
| "poll_kind Poll_Sync_Request = ''poll-sync-request''"
| "poll_kind (Poll_Snapshot _ _ _ _) = ''poll-snapshot''"

definition status_name :: "poll_status \<Rightarrow> string" where
  "status_name s = (case s of Status_None \<Rightarrow> ''none'' | Status_Active \<Rightarrow> ''active''
     | Status_Published \<Rightarrow> ''published'' | Status_Closed \<Rightarrow> ''closed'')"

definition definition_json :: "poll_definition \<Rightarrow> jsval" where
  "definition_json p =
     JObj [(''pollId'', JStr (pd_pollId p)), (''creatorPeerId'', JStr (pd_creatorPeerId p)),
           (''question'', JStr (pd_question p)), (''options'', JArr (map JStr (pd_options p))),
           (''anonymous'', JBool (pd_anonymous p))]"

fun poll_payload_json :: "poll_payload \<Rightarrow> jsval" where
  "poll_payload_json (Poll_Create pid question options anonymous) =
     JObj [(''pollId'', JStr pid), (''question'', JStr question), (''options'', JArr (map JStr options)),
           (''anonymous'', JBool anonymous)]"
| "poll_payload_json (Poll_Vote pid i) = JObj [(''pollId'', JStr pid), (''optionIndex'', JInt i)]"
| "poll_payload_json (Poll_Publish pid counts votes) =
     JObj [(''pollId'', JStr pid), (''counts'', JArr (map JInt counts)), (''totalVotes'', JInt votes)]"
| "poll_payload_json (Poll_Close pid counts votes) =
     JObj [(''pollId'', JStr pid), (''counts'', JArr (map JInt counts)), (''totalVotes'', JInt votes)]"
| "poll_payload_json Poll_Sync_Request = JObj []"
| "poll_payload_json (Poll_Snapshot status poll counts votes) =
     JObj [(''status'', JStr (status_name status)),
           (''poll'', case poll of None \<Rightarrow> JNull | Some p \<Rightarrow> definition_json p),
           (''counts'', JArr (map JInt counts)), (''totalVotes'', JInt votes)]"

definition poll_json :: "poll_operation \<Rightarrow> jsval" where
  "poll_json = op_json ''poll-op'' poll_kind poll_payload_json"

definition decodePollBytes :: "bytes \<Rightarrow> poll_operation option" where
  "decodePollBytes data = decode_with parsePollOperation data"

definition encodePollOperation :: "poll_operation \<Rightarrow> string + bytes" where
  "encodePollOperation operation = encode_with ''invalid_poll_operation'' parsePollOperation poll_json operation"

subsection \<open>The contract\<close>

lemma validText_idem: "validText n v = Some s \<Longrightarrow> validText n (JStr s) = Some s"
  by (auto simp: validText_def Let_def split: option.splits if_splits)

lemma poll_id_Some [simp]: "poll_id v = Some s \<longleftrightarrow> v = JStr s \<and> OP_ID s"
  by (auto simp: poll_id_def split: option.split)

lemma peer_field_Some [simp]: "peer_field v = Some s \<longleftrightarrow> v = JStr s \<and> PEER_ID s"
  by (auto simp: peer_field_def split: option.split)

lemma parse_count_Some [simp]: "parse_count v = Some n \<longleftrightarrow> v = JInt n \<and> 0 \<le> n \<and> n \<le> 1000"
  by (auto simp: parse_count_def js_integer_Some_iff MAX_SAFE_INTEGER_def)

lemma poll_id_JStr [simp]: "OP_ID s \<Longrightarrow> poll_id (JStr s) = Some s"
  by simp

lemma peer_field_JStr [simp]: "PEER_ID s \<Longrightarrow> peer_field (JStr s) = Some s"
  by simp

lemma parse_count_JInt [simp]: "0 \<le> n \<Longrightarrow> n \<le> 1000 \<Longrightarrow> parse_count (JInt n) = Some n"
  by simp

lemma collect_count:
  assumes "collect parse_count xs = Some ns"
  shows "collect parse_count (map JInt ns) = Some ns" and "length ns = length xs"
    and "\<And>n. n \<in> set ns \<Longrightarrow> - MAX_SAFE_INTEGER \<le> n \<and> n \<le> MAX_SAFE_INTEGER"
proof -
  have range: "0 \<le> n \<and> n \<le> 1000" if "n \<in> set ns" for n
    using collect_mem [OF assms that] by auto
  then show "collect parse_count (map JInt ns) = Some ns" by (intro collect_map_id) simp
  show "length ns = length xs" by (rule collect_length [OF assms])
  show "- MAX_SAFE_INTEGER \<le> n \<and> n \<le> MAX_SAFE_INTEGER" if "n \<in> set ns" for n
    using range [OF that] by (simp add: MAX_SAFE_INTEGER_def)
qed

lemma parse_options_idem:
  assumes "parse_options v = Some os"
  shows "parse_options (JArr (map JStr os)) = Some os"
    and "MIN_OPTIONS \<le> length os \<and> length os \<le> MAX_OPTIONS"
proof -
  from assms obtain xs where xs: "\<not> length xs < MIN_OPTIONS" "\<not> MAX_OPTIONS < length xs" and
      os: "collect (validText MAX_OPTION_LENGTH) xs = Some os"
    by (auto simp: parse_options_def split: option.splits if_splits)
  show "MIN_OPTIONS \<le> length os \<and> length os \<le> MAX_OPTIONS" using collect_length [OF os] xs by simp
  moreover have "collect (validText MAX_OPTION_LENGTH) (map JStr os) = Some os"
    using collect_mem [OF os] validText_idem by (intro collect_map_id) blast
  ultimately show "parse_options (JArr (map JStr os)) = Some os"
    by (simp add: parse_options_def)
qed

lemma parse_create_reparse:
  assumes "parse_create v = Some p"
  shows "poll_kind p = ''poll-create'' \<and> parse_create (poll_payload_json p) = Some p
    \<and> json_clean (poll_payload_json p)"
proof -
  from assms obtain kvs pid anonymous question options where
      "OP_ID pid" and q: "validText MAX_QUESTION_LENGTH (js_get kvs ''question'') = Some question"
    and o: "parse_options (js_get kvs ''options'') = Some options"
    and "p = Poll_Create pid question options anonymous"
    by (auto simp: parse_create_def split: option.splits)
  then show ?thesis
    using validText_idem [OF q] parse_options_idem(1) [OF o] by (auto simp: parse_create_def js_simps)
qed

lemma parse_vote_reparse:
  assumes "parse_vote v = Some p"
  shows "poll_kind p = ''poll-vote'' \<and> parse_vote (poll_payload_json p) = Some p
    \<and> json_clean (poll_payload_json p)"
  using assms by (auto simp: parse_vote_def js_integer_Some_iff js_simps split: option.splits)

lemma parse_results_reparse:
  assumes "parse_results mk v = Some p"
    and mk: "\<And>pid counts votes. poll_payload_json (mk pid counts votes) =
      JObj [(''pollId'', JStr pid), (''counts'', JArr (map JInt counts)), (''totalVotes'', JInt votes)]"
  shows "(\<exists>pid counts votes. p = mk pid counts votes) \<and> parse_results mk (poll_payload_json p) = Some p
    \<and> json_clean (poll_payload_json p)"
proof -
  from assms(1) obtain pid xs counts votes where
      "OP_ID pid" and xs: "\<not> (length xs < MIN_OPTIONS \<or> MAX_OPTIONS < length xs)"
    and counts: "collect parse_count xs = Some counts" and votes: "0 \<le> votes" "votes \<le> 1000"
    and p: "p = mk pid counts votes"
    by (auto simp: parse_results_def split: option.splits if_splits)
  moreover have "- MAX_SAFE_INTEGER \<le> votes" "votes \<le> MAX_SAFE_INTEGER"
    using votes by (simp_all add: MAX_SAFE_INTEGER_def)
  ultimately show ?thesis
    using collect_count [OF counts] by (auto simp: parse_results_def mk js_simps)
qed

lemma parse_poll_reparse:
  assumes "parse_poll v = Some p"
  shows "parse_poll (definition_json p) = Some p \<and> json_clean (definition_json p)"
proof -
  from assms obtain kvs pid creator anonymous question options where
      "OP_ID pid" "PEER_ID creator" and q: "validText MAX_QUESTION_LENGTH (js_get kvs ''question'') = Some question"
    and o: "parse_options (js_get kvs ''options'') = Some options"
    and "p = \<lparr>pd_pollId = pid, pd_creatorPeerId = creator, pd_question = question, pd_options = options,
                pd_anonymous = anonymous\<rparr>"
    by (auto simp: parse_poll_def split: option.splits)
  then show ?thesis
    using validText_idem [OF q] parse_options_idem(1) [OF o]
    by (auto simp: parse_poll_def definition_json_def js_simps)
qed

lemma poll_status_named [simp]: "named poll_statuses (JStr (status_name s)) = Some s"
  by (cases s) (simp_all add: named_def poll_statuses_def status_name_def)

lemma parse_snapshot_reparse:
  assumes "parse_snapshot v = Some p"
  shows "poll_kind p = ''poll-snapshot'' \<and> parse_snapshot (poll_payload_json p) = Some p
    \<and> json_clean (poll_payload_json p)"
proof -
  obtain kvs status poll xs counts votes where
      poll: "(if js_get kvs ''poll'' = JNull then Some None else map_option Some (parse_poll (js_get kvs ''poll''))) = Some poll"
    and counts: "collect parse_count xs = Some counts" and votes: "0 \<le> votes" "votes \<le> 1000"
    and p: "p = Poll_Snapshot status poll counts votes"
    using assms by (auto simp: parse_snapshot_def split: option.splits)
  have obj: "definition_json q \<noteq> JNull" for q by (simp add: definition_json_def)
  have range: "- MAX_SAFE_INTEGER \<le> votes" "votes \<le> MAX_SAFE_INTEGER"
    using votes by (simp_all add: MAX_SAFE_INTEGER_def)
  show ?thesis
  proof (cases poll)
    case None
    then show ?thesis using collect_count [OF counts] votes range by (auto simp: p parse_snapshot_def js_simps)
  next
    case (Some q)
    then have "parse_poll (js_get kvs ''poll'') = Some q" using poll by (auto split: if_splits)
    from parse_poll_reparse [OF this] show ?thesis
      using collect_count [OF counts] votes range Some obj by (auto simp: p parse_snapshot_def js_simps)
  qed
qed

lemma poll_payload_reparse:
  assumes "parse_poll_payload k v = Some p"
  shows "poll_kind p = k" and "parse_poll_payload k (poll_payload_json p) = Some p"
    and "json_clean (poll_payload_json p)"
proof -
  have "poll_kind p = k \<and> parse_poll_payload k (poll_payload_json p) = Some p \<and> json_clean (poll_payload_json p)"
    using assms parse_create_reparse [of v p] parse_vote_reparse [of v p] parse_snapshot_reparse [of v p]
      parse_results_reparse [of Poll_Publish v p] parse_results_reparse [of Poll_Close v p]
    by (auto simp: parse_poll_payload_def exact_fields_def exact_JObj js_keys_def split: if_splits)
  then show "poll_kind p = k" and "parse_poll_payload k (poll_payload_json p) = Some p"
    and "json_clean (poll_payload_json p)" by auto
qed

interpretation poll: payload_contract "''poll-op''" poll_kind poll_payload_json parse_poll_payload
  by unfold_locales (fact poll_payload_reparse)+

lemma encodePoll_total:
  "parsePollOperation v = Some op \<Longrightarrow> \<exists>bs. encodePollOperation op = Inr bs"
  unfolding parsePollOperation_def encodePollOperation_def poll_json_def
  by (blast dest: poll.op.encode_accepted)

text \<open>A poll operation that passes validation is encoded without an error, and a peer decodes the
  bytes to the same operation.\<close>

theorem poll_operation_roundtrip:
  assumes "parsePollOperation v = Some op" and "js_utf8 (poll_json op)"
  shows "\<exists>bs. encodePollOperation op = Inr bs \<and> decodePollBytes bs = Some op"
  using assms poll.op.accepted_roundtrip
  unfolding parsePollOperation_def encodePollOperation_def decodePollBytes_def poll_json_def by blast

definition sample_vote :: poll_operation where
  "sample_vote = \<lparr>op_id = ''000102030405060708090a0b0c0d0e0f'', op_epoch = 3, op_author = ''00000000000000aa'',
     op_payload = Poll_Vote ''ffffffffffffffffffffffffffffffff'' 2\<rparr>"

lemma sample_vote_accepted: "parsePollOperation (poll_json sample_vote) = Some sample_vote"
  by (simp add: sample_vote_def parsePollOperation_def parse_op_def poll_json_def op_json_def op_object_def OP_FIELDS_def
      peer_field_def parse_poll_payload_def parse_vote_def OP_ID_def PEER_ID_def matches_def lower_hex_def js_simps
      MAX_SAFE_INTEGER_def contract_simps)

lemma sample_vote_utf8: "js_utf8 (poll_json sample_vote)"
  by (auto simp: sample_vote_def poll_json_def op_json_def op_object_def intro!: ascii_utf8_ok)
    (simp_all add: ascii_def)

end
