(* ===== verification/Poll.thy ===== *)
theory Poll
  imports Poll_Contract
begin

text \<open>
  \<^verbatim>\<open>webrtc/poll-overlay.ts\<close> and \<^verbatim>\<open>webrtc/poll.service.ts\<close>: the poll a client shows, the operations that
  change it, and the service that ingests deliveries and sends operations. The state of the service is its
  signals and private fields; \<open>toState\<close> and \<open>fromState\<close> copy the part held in \<open>pv_state\<close>. The random
  bytes of every operation id are arguments. An array of counts may have holes (an index past its end can
  be written), which read as \<open>undefined\<close>: they are \<open>None\<close>.
\<close>

subsection \<open>Applying operations\<close>

record poll_state =
  ps_status :: poll_status
  ps_poll :: "poll_definition option"
  ps_counts :: "int option list"
  ps_totalVotes :: int
  ps_ownVotedIndex :: "int option"
  ps_votesByPeer :: "(string \<times> int) list"

definition INITIAL_POLL_STATE :: poll_state where
  "INITIAL_POLL_STATE =
     \<lparr>ps_status = Status_None, ps_poll = None, ps_counts = [], ps_totalVotes = 0, ps_ownVotedIndex = None,
      ps_votesByPeer = []\<rparr>"

definition ingestPollDelivery :: "delivery \<Rightarrow> int \<Rightarrow> string list \<Rightarrow> string list \<Rightarrow> poll_operation option" where
  "ingestPollDelivery d epoch known seen =
     (if dl_class d \<noteq> Event then None
      else if 16 * 1024 < length (dl_data d) then None
      else Option.bind (decodePollBytes (dl_data d)) (admit epoch known seen (dl_origin d)))"

definition applyPollCreate :: "poll_operation \<Rightarrow> string \<Rightarrow> string \<Rightarrow> string list \<Rightarrow> bool \<Rightarrow> poll_state" where
  "applyPollCreate op pid question options anonymous =
     \<lparr>ps_status = Status_Active,
      ps_poll = Some \<lparr>pd_pollId = pid, pd_creatorPeerId = op_author op, pd_question = question,
                      pd_options = options, pd_anonymous = anonymous\<rparr>,
      ps_counts = replicate (length options) (Some 0), ps_totalVotes = 0, ps_ownVotedIndex = None,
      ps_votesByPeer = []\<rparr>"

text \<open>\<open>nextCounts[i] = (nextCounts[i] || 0) + 1\<close>.\<close>

definition bump :: "nat \<Rightarrow> int option list \<Rightarrow> int option list" where
  "bump i xs =
     (if i < length xs then xs[i := Some ((case xs ! i of None \<Rightarrow> 0 | Some n \<Rightarrow> n) + 1)]
      else xs @ replicate (i - length xs) None @ [Some 1])"

definition applyPollVote :: "poll_state \<Rightarrow> poll_operation \<Rightarrow> string \<Rightarrow> int \<Rightarrow> string \<Rightarrow> poll_state" where
  "applyPollVote current op pid optionIndex own =
     (case ps_poll current of
        None \<Rightarrow> current
      | Some poll \<Rightarrow>
        if ps_status current \<noteq> Status_Active then current
        else if pid \<noteq> pd_pollId poll then current
        else if optionIndex < 0 \<or> int (length (pd_options poll)) \<le> optionIndex then current
        else
          (let ownVotedIndex = (if op_author op = own then Some optionIndex else ps_ownVotedIndex current) in
           if pd_creatorPeerId poll \<noteq> own then current\<lparr>ps_ownVotedIndex := ownVotedIndex\<rparr>
           else if op_author op \<in> set (map_keys (ps_votesByPeer current)) then current
           else current\<lparr>ps_counts := bump (nat optionIndex) (ps_counts current),
                        ps_totalVotes := ps_totalVotes current + 1,
                        ps_ownVotedIndex := ownVotedIndex,
                        ps_votesByPeer := map_set (op_author op) optionIndex (ps_votesByPeer current)\<rparr>))"

definition show_results :: "poll_status \<Rightarrow> poll_state \<Rightarrow> string \<Rightarrow> int list \<Rightarrow> int \<Rightarrow> poll_state" where
  "show_results status current pid counts votes =
     (case ps_poll current of
        None \<Rightarrow> current
      | Some poll \<Rightarrow>
        if pid \<noteq> pd_pollId poll then current
        else current\<lparr>ps_status := status, ps_counts := map Some counts, ps_totalVotes := votes\<rparr>)"

definition applyPollPublish :: "poll_state \<Rightarrow> string \<Rightarrow> int list \<Rightarrow> int \<Rightarrow> poll_state" where
  "applyPollPublish = show_results Status_Published"

definition applyPollClose :: "poll_state \<Rightarrow> string \<Rightarrow> int list \<Rightarrow> int \<Rightarrow> poll_state" where
  "applyPollClose = show_results Status_Closed"

definition applyPollSnapshot ::
  "poll_state \<Rightarrow> poll_status \<Rightarrow> poll_definition option \<Rightarrow> int list \<Rightarrow> int \<Rightarrow> poll_state" where
  "applyPollSnapshot current status poll counts votes =
     (if status = Status_None \<or> poll = None then current
      else current\<lparr>ps_status := status, ps_poll := poll, ps_counts := map Some counts, ps_totalVotes := votes\<rparr>)"

subsection \<open>The service\<close>

record poll_service =
  pv_state :: poll_state
  pv_lastDelivery :: int
  pv_seen :: "string list"

definition new_poll_service :: poll_service where
  "new_poll_service = \<lparr>pv_state = INITIAL_POLL_STATE, pv_lastDelivery = 0, pv_seen = []\<rparr>"

definition canCreatePoll :: "room \<Rightarrow> bool" where
  "canCreatePoll r \<longleftrightarrow> rm_joined r \<and> (ownRole (rm_moderation r) = Owner \<or> ownPresenter (rm_moderation r))"

definition isCreator :: "room \<Rightarrow> poll_state \<Rightarrow> bool" where
  "isCreator r s = (case ps_poll s of None \<Rightarrow> False | Some p \<Rightarrow> pd_creatorPeerId p = rm_peerId r)"

definition poll_object :: "room \<Rightarrow> bytes \<Rightarrow> string \<Rightarrow> jsval \<Rightarrow> jsval" where
  "poll_object r rnd kind payload = op_object ''poll-op'' (opId rnd) (rm_epoch r) (rm_peerId r) kind payload"

text \<open>\<open>undefined\<close> elements are handed to the parser as they are.\<close>

definition counts_json :: "int option list \<Rightarrow> jsval" where
  "counts_json xs = JArr (map (\<lambda>x. case x of None \<Rightarrow> JUndefined | Some n \<Rightarrow> JInt n) xs)"

text \<open>Encoding and sending to all peers, after the state was set.\<close>

definition poll_send :: "room \<Rightarrow> poll_service \<Rightarrow> poll_operation \<Rightarrow> poll_service outcome" where
  "poll_send r s op =
     (case encodePollOperation op of
        Inl err \<Rightarrow> (Inl err, s, [])
      | Inr bs \<Rightarrow> (Inr True, s, broadcast r bs Event))"

definition poll_snapshot_payload :: "poll_state \<Rightarrow> jsval" where
  "poll_snapshot_payload s =
     JObj [(''status'', JStr (status_name (ps_status s))),
           (''poll'', case ps_poll s of None \<Rightarrow> JNull | Some p \<Rightarrow> definition_json p),
           (''counts'', counts_json (ps_counts s)), (''totalVotes'', JInt (ps_totalVotes s))]"

definition answer_sync :: "room \<Rightarrow> bytes \<Rightarrow> string \<Rightarrow> poll_service \<Rightarrow> poll_service outcome" where
  "answer_sync r rnd origin s =
     (if ps_status (pv_state s) \<noteq> Status_None
         \<and> (isCreator r (pv_state s) \<or> ownRole (rm_moderation r) = Owner) then
        case parsePollOperation (poll_object r rnd ''poll-snapshot'' (poll_snapshot_payload (pv_state s))) of
          None \<Rightarrow> (Inr True, s, [])
        | Some response \<Rightarrow> (case encodePollOperation response of
            Inl err \<Rightarrow> (Inl err, s, [])
          | Inr bs \<Rightarrow> (Inr True, s, [(origin, bs, Event)]))
      else (Inr True, s, []))"

definition apply_poll_operation :: "room \<Rightarrow> poll_state \<Rightarrow> poll_operation \<Rightarrow> poll_state" where
  "apply_poll_operation r s op =
     (case op_payload op of
        Poll_Create pid question options anonymous \<Rightarrow> applyPollCreate op pid question options anonymous
      | Poll_Vote pid i \<Rightarrow> applyPollVote s op pid i (rm_peerId r)
      | Poll_Publish pid counts votes \<Rightarrow> applyPollPublish s pid counts votes
      | Poll_Close pid counts votes \<Rightarrow> applyPollClose s pid counts votes
      | Poll_Sync_Request \<Rightarrow> s
      | Poll_Snapshot status poll counts votes \<Rightarrow> applyPollSnapshot s status poll counts votes)"

definition poll_ingest :: "room \<Rightarrow> delivery \<Rightarrow> bytes \<Rightarrow> poll_service \<Rightarrow> poll_service outcome" where
  "poll_ingest r d rnd s =
     (case ingestPollDelivery d (rm_epoch r) (known_peers r) (pv_seen s) of
        None \<Rightarrow> (Inr False, s, [])
      | Some op \<Rightarrow>
        (let s1 = s\<lparr>pv_seen := set_add (op_id op) (pv_seen s)\<rparr> in
         if op_payload op = Poll_Sync_Request then answer_sync r rnd (dl_origin d) s1
         else (Inr True, s1\<lparr>pv_state := apply_poll_operation r (pv_state s1) op\<rparr>, [])))"

definition createPoll ::
  "room \<Rightarrow> bytes \<Rightarrow> bytes \<Rightarrow> string \<Rightarrow> string list \<Rightarrow> bool \<Rightarrow> poll_service \<Rightarrow> poll_service outcome" where
  "createPoll r rnd1 rnd2 question options anonymous s =
     (if \<not> canCreatePoll r \<or> rm_epoch r < 1 then (Inr False, s, [])
      else if length options < MIN_OPTIONS \<or> MAX_OPTIONS < length options then (Inr False, s, [])
      else case parsePollOperation (poll_object r rnd2 ''poll-create''
          (JObj [(''pollId'', JStr (opId rnd1)), (''question'', JStr question),
                 (''options'', JArr (map JStr options)), (''anonymous'', JBool anonymous)])) of
        None \<Rightarrow> (Inr False, s, [])
      | Some op \<Rightarrow>
          poll_send r (s\<lparr>pv_seen := set_add (op_id op) (pv_seen s),
                         pv_state := apply_poll_operation r (pv_state s) op\<rparr>) op)"

definition vote :: "room \<Rightarrow> bytes \<Rightarrow> int \<Rightarrow> poll_service \<Rightarrow> poll_service outcome" where
  "vote r rnd optionIndex s =
     (case ps_poll (pv_state s) of
        None \<Rightarrow> (Inr False, s, [])
      | Some poll \<Rightarrow>
        if \<not> rm_joined r \<or> ps_status (pv_state s) \<noteq> Status_Active \<or> ps_ownVotedIndex (pv_state s) \<noteq> None
        then (Inr False, s, [])
        else if optionIndex < 0 \<or> int (length (pd_options poll)) \<le> optionIndex then (Inr False, s, [])
        else case parsePollOperation (poll_object r rnd ''poll-vote''
            (JObj [(''pollId'', JStr (pd_pollId poll)), (''optionIndex'', JInt optionIndex)])) of
          None \<Rightarrow> (Inr False, s, [])
        | Some op \<Rightarrow>
          (let s1 = s\<lparr>pv_seen := set_add (op_id op) (pv_seen s),
                      pv_state := (pv_state s)\<lparr>ps_ownVotedIndex := Some optionIndex\<rparr>\<rparr> in
           case encodePollOperation op of
             Inl err \<Rightarrow> (Inl err, s1, [])
           | Inr bs \<Rightarrow>
             if isCreator r (pv_state s1) then
               (Inr True, s1\<lparr>pv_state := apply_poll_operation r (pv_state s1) op\<rparr>, [])
             else (Inr True, s1, [(pd_creatorPeerId poll, bs, Event)])))"

definition results_payload :: "poll_definition \<Rightarrow> poll_state \<Rightarrow> jsval" where
  "results_payload poll s =
     JObj [(''pollId'', JStr (pd_pollId poll)), (''counts'', counts_json (ps_counts s)),
           (''totalVotes'', JInt (ps_totalVotes s))]"

definition publishResults :: "room \<Rightarrow> bytes \<Rightarrow> poll_service \<Rightarrow> poll_service outcome" where
  "publishResults r rnd s =
     (case ps_poll (pv_state s) of
        None \<Rightarrow> (Inr False, s, [])
      | Some poll \<Rightarrow>
        if \<not> rm_joined r \<or> \<not> isCreator r (pv_state s) then (Inr False, s, [])
        else case parsePollOperation (poll_object r rnd ''poll-publish'' (results_payload poll (pv_state s))) of
          None \<Rightarrow> (Inr False, s, [])
        | Some op \<Rightarrow>
            poll_send r (s\<lparr>pv_seen := set_add (op_id op) (pv_seen s),
                           pv_state := apply_poll_operation r (pv_state s) op\<rparr>) op)"

definition closePoll :: "room \<Rightarrow> bytes \<Rightarrow> poll_service \<Rightarrow> poll_service outcome" where
  "closePoll r rnd s =
     (case ps_poll (pv_state s) of
        None \<Rightarrow> (Inr False, s, [])
      | Some poll \<Rightarrow>
        if \<not> rm_joined r \<or> \<not> isCreator r (pv_state s) \<and> \<not> canCreatePoll r then (Inr False, s, [])
        else case parsePollOperation (poll_object r rnd ''poll-close'' (results_payload poll (pv_state s))) of
          None \<Rightarrow> (Inr False, s, [])
        | Some op \<Rightarrow>
            poll_send r (s\<lparr>pv_seen := set_add (op_id op) (pv_seen s),
                           pv_state := apply_poll_operation r (pv_state s) op\<rparr>) op)"

definition poll_requestSync :: "room \<Rightarrow> bytes \<Rightarrow> poll_service \<Rightarrow> poll_service outcome" where
  "poll_requestSync r rnd s =
     (if \<not> rm_joined r \<or> rm_epoch r < 1 then (Inr False, s, [])
      else case parsePollOperation (poll_object r rnd ''poll-sync-request'' (JObj [])) of
        None \<Rightarrow> (Inr False, s, [])
      | Some op \<Rightarrow> poll_send r (s\<lparr>pv_seen := set_add (op_id op) (pv_seen s)\<rparr>) op)"

definition poll_reset :: "poll_service \<Rightarrow> poll_service" where
  "poll_reset s = new_poll_service"

text \<open>The effect of the constructor: the deliveries newer than the last one, then one request for the
  state. Each delivery comes with the random bytes an answer to it would use.\<close>

fun poll_deliveries :: "room \<Rightarrow> (delivery \<times> bytes) list \<Rightarrow> poll_service \<Rightarrow> poll_service outcome" where
  "poll_deliveries r [] s = (Inr True, s, [])"
| "poll_deliveries r ((d, rnd) # ds) s =
     (if dl_id d \<le> pv_lastDelivery s then poll_deliveries r ds s
      else case poll_ingest r d rnd (s\<lparr>pv_lastDelivery := dl_id d\<rparr>) of
        (Inl err, s', out) \<Rightarrow> (Inl err, s', out)
      | (Inr _, s', out) \<Rightarrow> (case poll_deliveries r ds s' of (res, s'', out') \<Rightarrow> (res, s'', out @ out')))"

definition poll_effect :: "room \<Rightarrow> (delivery \<times> bytes) list \<Rightarrow> bytes \<Rightarrow> poll_service \<Rightarrow> poll_service outcome" where
  "poll_effect r ds rnd s =
     (if \<not> rm_joined r then (Inr True, poll_reset s, [])
      else case poll_deliveries r ds s of
        (Inl err, s1, out) \<Rightarrow> (Inl err, s1, out)
      | (Inr _, s1, out) \<Rightarrow>
        if ps_status (pv_state s1) = Status_None \<and> rm_peers r \<noteq> [] \<and> ''sync-requested'' \<notin> set (pv_seen s1) then
          case poll_requestSync r rnd (s1\<lparr>pv_seen := set_add ''sync-requested'' (pv_seen s1)\<rparr>) of
            (res, s2, out') \<Rightarrow> (res, s2, out @ out')
        else (Inr True, s1, out))"

end
