(* ===== verification/Collab_Sizes.thy ===== *)
theory Collab_Sizes
  imports Collab_Contract
begin

text \<open>
  Lengths of JSON texts, in bytes (\<open>length\<close>) and in UTF-16 units (\<open>js_length\<close>), and of the ids in them.
\<close>

lemma length_nat_str: "n < 10 ^ k \<Longrightarrow> length (nat_str n) \<le> max 1 k"
proof (induction n arbitrary: k rule: nat_str.induct)
  case (1 n)
  show ?case
  proof (cases "n < 10")
    case True
    then show ?thesis by (simp add: nat_str.simps [of n])
  next
    case False
    then obtain j where k: "k = Suc j" "0 < j" using "1.prems" by (cases k; cases "k - 1") auto
    have "n div 10 < 10 ^ j" using "1.prems" k by (simp add: less_mult_imp_div_less mult.commute)
    from "1.IH" [OF False this] show ?thesis using False k by (simp add: nat_str.simps [of n])
  qed
qed

lemma length_int_text:
  assumes "- MAX_SAFE_INTEGER \<le> n" and "n \<le> MAX_SAFE_INTEGER"
  shows "length (stringify (JInt n)) \<le> 17"
proof -
  have m: "length (nat_str m) \<le> 16" if "m < 10 ^ 16" for m
    using length_nat_str [OF that] by simp
  have "\<bar>n\<bar> < 10 ^ 21" "nat n < 10 ^ 16" "nat (- n) < 10 ^ 16"
    using assms by (auto simp: MAX_SAFE_INTEGER_def)
  then show ?thesis using m [of "nat n"] m [of "nat (- n)"] by (simp add: int_str_def)
qed

lemma length_json_quote: "length (json_quote s) \<le> 6 * length s + 2"
proof -
  have "length (json_escape c) \<le> 6" for c by (simp add: json_escape_def Let_def)
  then have "length (concat (map json_escape s)) \<le> 6 * length s"
    by (induction s) (auto intro!: add_mono)
  then show ?thesis by (simp add: json_quote_def)
qed

lemma hex_id_utf8: "list_all lower_hex s \<Longrightarrow> utf8_ok s"
  using lower_hex_ascii by (intro ascii_utf8_ok) (simp add: ascii_def list_all_iff)

lemma id_lengths: "OP_ID s \<Longrightarrow> length s = 32 \<and> utf8_ok s" "PEER_ID s \<Longrightarrow> length s = 16 \<and> utf8_ok s"
  by (auto simp: OP_ID_def PEER_ID_def matches_def intro: hex_id_utf8)

lemma json_quote_longer: "length s \<le> length (json_quote s)"
proof -
  have esc: "1 \<le> length (json_escape c)" for c by (simp add: json_escape_def Let_def)
  have "length s \<le> length (concat (map json_escape s))"
  proof (induction s)
    case (Cons c s)
    then show ?case using esc [of c] by simp
  qed simp
  then show ?thesis by (simp add: json_quote_def)
qed

lemma js_length_append: "js_length (xs @ ys) = js_length xs + js_length ys"
  by (induction xs) (auto simp: Let_def)

lemma js_length_ascii: "ascii s \<Longrightarrow> js_length s = length s"
  by (induction s) (auto simp: ascii_def Let_def)

lemma js_length_join: "js_length (join '','' ts) = sum_list (map js_length ts) + (length ts - 1)"
proof (induction "'',''" ts rule: join.induct)
  case (3 x y ys)
  then show ?case by (simp add: js_length_append Let_def)
qed auto

lemma elem_texts_map: "elem_texts vs = map stringify vs"
  by (induction vs) auto

lemma length_join: "length (join '','' ts) = sum_list (map length ts) + (length ts - 1)"
  by (induction "'',''" ts rule: join.induct) auto

end
