(* ===== verification/Poll_Laws.thy ===== *)
theory Poll_Laws
  imports Poll Collab_Sizes
begin

text \<open>
  Properties of the poll service: the tally of the creator, the way of a vote from a participant to the
  creator's count, and that no operation is processed twice.
\<close>

subsection \<open>The tally\<close>

text \<open>The ballot of a peer is the first of its votes that names this poll and one of its options.\<close>

definition valid_vote :: "string \<Rightarrow> nat \<Rightarrow> poll_operation \<Rightarrow> int option" where
  "valid_vote pid n op =
     (case op_payload op of
        Poll_Vote q i \<Rightarrow> if q = pid \<and> 0 \<le> i \<and> i < int n then Some i else None
      | _ \<Rightarrow> None)"

definition ballot :: "string \<Rightarrow> nat \<Rightarrow> poll_operation list \<Rightarrow> string \<Rightarrow> int option" where
  "ballot pid n ops a =
     Option.bind (find (\<lambda>op. op_author op = a \<and> valid_vote pid n op \<noteq> None) ops) (valid_vote pid n)"

definition is_vote :: "poll_operation \<Rightarrow> bool" where
  "is_vote op = (case op_payload op of Poll_Vote _ _ \<Rightarrow> True | _ \<Rightarrow> False)"

lemma find_append: "find P (xs @ ys) = (case find P xs of None \<Rightarrow> find P ys | Some x \<Rightarrow> Some x)"
  by (induction xs) auto

lemma ballot_Nil [simp]: "ballot pid n [] = Map.empty"
  by (simp add: ballot_def fun_eq_iff)

lemma ballot_snoc:
  "ballot pid n (ops @ [op]) a =
     (if ballot pid n ops a \<noteq> None then ballot pid n ops a
      else if op_author op = a then valid_vote pid n op else None)"
proof (cases "find (\<lambda>op. op_author op = a \<and> valid_vote pid n op \<noteq> None) ops")
  case None
  then show ?thesis by (auto simp: ballot_def find_append)
next
  case (Some x)
  then have "valid_vote pid n x \<noteq> None" unfolding find_Some_iff by blast
  then show ?thesis using Some by (simp add: ballot_def find_append)
qed

definition tally_inv :: "poll_definition \<Rightarrow> poll_operation list \<Rightarrow> poll_state \<Rightarrow> bool" where
  "tally_inv poll ops s \<longleftrightarrow>
     ps_status s = Status_Active \<and> ps_poll s = Some poll
     \<and> length (ps_counts s) = length (pd_options poll)
     \<and> distinct (map_keys (ps_votesByPeer s))
     \<and> map_of (ps_votesByPeer s) = ballot (pd_pollId poll) (length (pd_options poll)) ops
     \<and> (\<forall>i < length (ps_counts s). ps_counts s ! i = Some (int (count_list (map snd (ps_votesByPeer s)) (int i))))
     \<and> ps_totalVotes s = int (length (ps_votesByPeer s))"

lemma tally_inv_vote:
  assumes inv: "tally_inv poll ops s" and creator: "pd_creatorPeerId poll = rm_peerId r" and "is_vote op"
  shows "tally_inv poll (ops @ [op]) (apply_poll_operation r s op)"
proof -
  obtain q i where p: "op_payload op = Poll_Vote q i"
    using \<open>is_vote op\<close> by (auto simp: is_vote_def split: poll_payload.splits)
  let ?n = "length (pd_options poll)" and ?b = "ballot (pd_pollId poll) (length (pd_options poll))"
  let ?vv = "valid_vote (pd_pollId poll) ?n op"
  have mv: "map_of (ps_votesByPeer s) = ?b ops" and st: "ps_status s = Status_Active" and po: "ps_poll s = Some poll"
    using inv by (auto simp: tally_inv_def)
  have known: "op_author op \<in> set (map_keys (ps_votesByPeer s)) \<longleftrightarrow> ?b ops (op_author op) \<noteq> None"
    by (simp add: mv [symmetric] map_of_eq_None_iff)
  show ?thesis
  proof (cases "?vv = None \<or> ?b ops (op_author op) \<noteq> None")
    case True
    then have same: "?b (ops @ [op]) = ?b ops" by (auto simp: ballot_snoc fun_eq_iff)
    have "apply_poll_operation r s op = s"
    proof (cases ?vv)
      case None
      then have "q \<noteq> pd_pollId poll \<or> i < 0 \<or> int ?n \<le> i" by (auto simp: valid_vote_def p split: if_splits)
      then show ?thesis by (auto simp: apply_poll_operation_def applyPollVote_def p po)
    next
      case (Some j)
      then have "op_author op \<in> set (map_keys (ps_votesByPeer s))" using True known by simp
      then show ?thesis by (simp add: apply_poll_operation_def applyPollVote_def p po creator Let_def)
    qed
    then show ?thesis using inv by (simp add: tally_inv_def same)
  next
    case False
    then have q: "q = pd_pollId poll" "0 \<le> i" "i < int ?n" and vv: "?vv = Some i"
      by (auto simp: valid_vote_def p split: if_splits)
    have new: "op_author op \<notin> set (map_keys (ps_votesByPeer s))" using False known by simp
    let ?s = "apply_poll_operation r s op"
    have s: "ps_status ?s = Status_Active" "ps_poll ?s = Some poll" "ps_counts ?s = bump (nat i) (ps_counts s)"
        "ps_votesByPeer ?s = ps_votesByPeer s @ [(op_author op, i)]" "ps_totalVotes ?s = ps_totalVotes s + 1"
      using q new by (simp_all add: apply_poll_operation_def applyPollVote_def p po st creator Let_def map_set_new)
    have "map_of (ps_votesByPeer s @ [(op_author op, i)]) = ?b (ops @ [op])"
      using new vv mv False by (auto simp: fun_eq_iff ballot_snoc map_add_def split: option.split)
    moreover have "nat i < length (ps_counts s)" using q inv by (simp add: tally_inv_def nat_less_iff)
    ultimately show ?thesis using inv new q
      by (auto simp: tally_inv_def s bump_def nth_list_update count_list_append)
  qed
qed

lemma tally_inv_run:
  assumes "\<forall>op \<in> set ops. is_vote op" and "op_payload c = Poll_Create pid question options anonymous"
    and "op_author c = rm_peerId r"
  shows "tally_inv \<lparr>pd_pollId = pid, pd_creatorPeerId = rm_peerId r, pd_question = question, pd_options = options,
    pd_anonymous = anonymous\<rparr> ops (foldl (apply_poll_operation r) (apply_poll_operation r s c) ops)"
  using assms(1)
proof (induction ops rule: rev_induct)
  case Nil
  then show ?case
    by (simp add: tally_inv_def apply_poll_operation_def applyPollCreate_def assms(2,3))
next
  case (snoc op ops)
  then show ?case by (simp add: tally_inv_vote)
qed

lemma card_ballots:
  assumes "distinct (map fst m)"
  shows "card {a. map_of m a = Some i} = count_list (map snd m) i" and "card {a. map_of m a \<noteq> None} = length m"
proof -
  have "{a. map_of m a = Some i} = fst ` set (filter (\<lambda>kv. snd kv = i) m)"
    using assms by (force simp: map_of_eq_Some_iff)
  moreover have "distinct (map fst (filter (\<lambda>kv. snd kv = i) m))"
    using assms by (rule distinct_map_filter)
  ultimately have "card {a. map_of m a = Some i} = length (filter (\<lambda>kv. snd kv = i) m)"
    using distinct_card [of "map fst (filter (\<lambda>kv. snd kv = i) m)"] by simp
  also have "\<dots> = count_list (map snd m) i" by (induction m) auto
  finally show "card {a. map_of m a = Some i} = count_list (map snd m) i" .
  have "{a. map_of m a \<noteq> None} = set (map fst m)" by (auto simp: map_of_eq_None_iff)
  then show "card {a. map_of m a \<noteq> None} = length m" using distinct_card [OF assms] by simp
qed

text \<open>C22. The creator of a poll counts right: after any sequence of votes, from any peers and for any
  poll, the count of an option is the number of peers whose first valid vote names it, and the total is
  the number of peers that cast a valid vote.\<close>

theorem poll_tally_correct:
  assumes "op_payload c = Poll_Create pid question options anonymous" and "op_author c = rm_peerId r"
    and "\<forall>op \<in> set ops. is_vote op"
    and "s = foldl (apply_poll_operation r) (apply_poll_operation r s0 c) ops"
  shows "ps_counts s = map (\<lambda>i. Some (int (card {a. ballot pid (length options) ops a = Some (int i)}))) [0..<length options]
    \<and> ps_totalVotes s = int (card {a. ballot pid (length options) ops a \<noteq> None})"
proof -
  note inv = tally_inv_run [OF assms(3,1,2), of s0, folded assms(4), unfolded tally_inv_def, simplified]
  have d: "distinct (map fst (ps_votesByPeer s))" using inv by simp
  have b: "ballot pid (length options) ops = map_of (ps_votesByPeer s)" using inv by simp
  have c: "count_list (map snd (ps_votesByPeer s)) i = card {a. ballot pid (length options) ops a = Some i}" for i
    unfolding b by (rule card_ballots(1) [OF d, symmetric])
  have "ps_counts s = map (\<lambda>i. Some (int (card {a. ballot pid (length options) ops a = Some (int i)}))) [0..<length options]"
    using inv by (intro nth_equalityI) (simp_all add: c)
  moreover have "ps_totalVotes s = int (card {a. ballot pid (length options) ops a \<noteq> None})"
    unfolding b card_ballots(2) [OF d] using inv by simp
  ultimately show ?thesis ..
qed

definition tally_votes :: "poll_operation list" where
  "tally_votes =
     [\<lparr>op_id = ''1'', op_epoch = 2, op_author = ''ann'', op_payload = Poll_Vote ''p'' 0\<rparr>,
      \<lparr>op_id = ''2'', op_epoch = 2, op_author = ''bob'', op_payload = Poll_Vote ''p'' 7\<rparr>,
      \<lparr>op_id = ''3'', op_epoch = 2, op_author = ''ann'', op_payload = Poll_Vote ''p'' 1\<rparr>]"

definition sample_room :: "string \<Rightarrow> string list \<Rightarrow> room" where
  "sample_room own peers = \<lparr>rm_joined = True, rm_peerId = own, rm_epoch = 2, rm_peers = peers, rm_machines = [],
     rm_moderation = new_moderation\<rparr>"

text \<open>Two ballots of one peer and an invalid one: a single vote counts.\<close>

theorem poll_tally_correct_witness:
  "ps_counts (foldl (apply_poll_operation (sample_room ''eve'' []))
      (apply_poll_operation (sample_room ''eve'' []) INITIAL_POLL_STATE
        \<lparr>op_id = ''0'', op_epoch = 2, op_author = ''eve'', op_payload = Poll_Create ''p'' ''q'' [''x'', ''y''] True\<rparr>) tally_votes)
    = map (\<lambda>i. Some (int (card {a. ballot ''p'' (length [''x'', ''y'']) tally_votes a = Some (int i)})))
        [0..<length [''x'', ''y'']]"
proof -
  have "\<forall>op \<in> set tally_votes. is_vote op" by (simp add: tally_votes_def is_vote_def)
  show ?thesis
    by (rule conjunct1 [OF poll_tally_correct [OF _ _ \<open>\<forall>op \<in> set tally_votes. is_vote op\<close> refl,
          where question = "''q''" and anonymous = True]])
      (simp_all add: sample_room_def)
qed

subsection \<open>A vote reaches the creator\<close>

lemma vote_bytes_short:
  assumes "OP_ID (op_id op)" "PEER_ID (op_author op)" "1 \<le> op_epoch op" "op_epoch op \<le> MAX_SAFE_INTEGER"
    and "op_payload op = Poll_Vote pid i" "OP_ID pid" "0 \<le> i" "i < 6"
  shows "length (stringify (poll_json op)) \<le> 16 * 1024"
proof -
  have "length (stringify (JInt (op_epoch op))) \<le> 17" "length (stringify (JInt i)) \<le> 17" "length (stringify (JInt 1)) \<le> 17"
    using assms by (intro length_int_text; simp add: MAX_SAFE_INTEGER_def)+
  then show ?thesis
    using id_lengths assms length_json_quote [of "op_id op"] length_json_quote [of "op_author op"] length_json_quote [of pid]
    by (simp add: poll_json_def op_json_def op_object_def del: stringify.simps(4) num_str.simps)
      (simp add: json_quote_def json_escape_def Let_def del: num_str.simps)
qed

lemma vote_json_utf8:
  assumes "OP_ID (op_id op)" "PEER_ID (op_author op)" "op_payload op = Poll_Vote pid i" "OP_ID pid"
  shows "js_utf8 (poll_json op)"
  using assms id_lengths
  by (auto simp: poll_json_def op_json_def op_object_def intro!: ascii_utf8_ok) (simp_all add: ascii_def)

text \<open>What a vote sends: an operation of the voter, for the poll shown to it.\<close>

lemma vote_sent:
  assumes v: "vote r rnd i s = (res, s', [(to, bs, cls)])"
  shows "\<exists>poll op. ps_poll (pv_state s) = Some poll \<and> to = pd_creatorPeerId poll \<and> cls = Event
    \<and> op_payload op = Poll_Vote (pd_pollId poll) i \<and> op_author op = rm_peerId r \<and> op_epoch op = rm_epoch r
    \<and> op_id op = opId rnd \<and> int (length (pd_options poll)) > i \<and> 0 \<le> i
    \<and> decodePollBytes bs = Some op \<and> length bs \<le> 16 * 1024"
proof -
  obtain poll op where poll: "ps_poll (pv_state s) = Some poll" and i: "0 \<le> i" "i < int (length (pd_options poll))"
    and op: "parsePollOperation (poll_object r rnd ''poll-vote''
        (JObj [(''pollId'', JStr (pd_pollId poll)), (''optionIndex'', JInt i)])) = Some op"
    and enc: "encodePollOperation op = Inr bs" and to: "to = pd_creatorPeerId poll" "cls = Event"
    using v by (auto simp: vote_def Let_def split: option.splits if_splits sum.splits)
  note h = poll.parse_op_Some [OF op [unfolded parsePollOperation_def]]
  have payload: "op_payload op = Poll_Vote (pd_pollId poll) i" "OP_ID (pd_pollId poll)" "i < 6"
    and head: "op_author op = rm_peerId r" "op_epoch op = rm_epoch r" "op_id op = opId rnd"
    using op by (auto simp: parsePollOperation_def parse_op_def poll_object_def op_object_def parse_poll_payload_def
        parse_vote_def js_simps js_integer_Some_iff MAX_OPTIONS_def split: option.splits if_splits)
  have bs: "bs = text_encode (stringify (poll_json op))"
    using enc poll.op.encode_accepted [OF op [unfolded parsePollOperation_def]]
    by (simp add: encodePollOperation_def poll_json_def parsePollOperation_def)
  have "decodePollBytes bs = Some op"
    using poll.op.decode_encode [OF enc [unfolded encodePollOperation_def parsePollOperation_def poll_json_def]]
      vote_json_utf8 [OF h(1,4) payload(1,2)] poll.op.parse_to_json [OF op [unfolded parsePollOperation_def]]
    by (simp add: decodePollBytes_def parsePollOperation_def poll_json_def)
  moreover have "length bs \<le> 16 * 1024"
    using vote_bytes_short [OF h(1,4,2,3) payload(1,2) i(1) payload(3)] by (simp add: bs text_encode_def str_bytes_def)
  ultimately show ?thesis using poll i to payload head by auto
qed

text \<open>C23. A vote is counted: the message a participant's \<open>vote\<close> sends is accepted by the creator of the
  poll, when both are in the same epoch, know each other and show the same active poll, and the
  participant has not voted; the creator then counts the vote for the chosen option under the
  participant's id.\<close>

theorem vote_is_counted:
  assumes "vote r rnd i s = (Inr True, s', [(rm_peerId rc, bs, Event)])"
    and "ps_poll (pv_state sc) = ps_poll (pv_state s)" and "ps_status (pv_state sc) = Status_Active"
    and "rm_epoch rc = rm_epoch r" and "rm_peerId r \<in> set (rm_peers rc)"
    and "opId rnd \<notin> set (pv_seen sc)"
    and "rm_peerId r \<notin> set (map_keys (ps_votesByPeer (pv_state sc)))"
    and "poll_ingest rc \<lparr>dl_id = n, dl_origin = rm_peerId r, dl_class = Event, dl_data = bs\<rparr> rnd' sc = (res, sc', out)"
  shows "res = Inr True \<and> map_of (ps_votesByPeer (pv_state sc')) (rm_peerId r) = Some i
    \<and> ps_counts (pv_state sc') = bump (nat i) (ps_counts (pv_state sc))
    \<and> ps_totalVotes (pv_state sc') = ps_totalVotes (pv_state sc) + 1"
proof -
  obtain poll op where poll: "ps_poll (pv_state s) = Some poll" "rm_peerId rc = pd_creatorPeerId poll"
    and op: "op_payload op = Poll_Vote (pd_pollId poll) i" "op_author op = rm_peerId r" "op_epoch op = rm_epoch r"
      "op_id op = opId rnd"
    and i: "int (length (pd_options poll)) > i" "0 \<le> i" and dec: "decodePollBytes bs = Some op" "length bs \<le> 16 * 1024"
    using vote_sent [OF assms(1)] by blast
  have "ingestPollDelivery \<lparr>dl_id = n, dl_origin = rm_peerId r, dl_class = Event, dl_data = bs\<rparr> (rm_epoch rc)
      (known_peers rc) (pv_seen sc) = Some op"
    using dec op assms(4,5,6) by (simp add: ingestPollDelivery_def admit_def known_peers_def)
  then show ?thesis
    using assms(8) op i poll assms(2,3,7)
    by (auto simp: poll_ingest_def Let_def apply_poll_operation_def applyPollVote_def)
qed

definition sample_poll :: poll_definition where
  "sample_poll = \<lparr>pd_pollId = ''ffffffffffffffffffffffffffffffff'', pd_creatorPeerId = ''00000000000000cc'',
     pd_question = ''q'', pd_options = [''x'', ''y'', ''z''], pd_anonymous = True\<rparr>"

definition sample_service :: poll_service where
  "sample_service = \<lparr>pv_state = \<lparr>ps_status = Status_Active, ps_poll = Some sample_poll, ps_counts = replicate 3 (Some 0),
     ps_totalVotes = 0, ps_ownVotedIndex = None, ps_votesByPeer = []\<rparr>, pv_lastDelivery = 0, pv_seen = []\<rparr>"

abbreviation voter_room :: room where
  "voter_room \<equiv> sample_room ''00000000000000aa'' [''00000000000000cc'']"

abbreviation creator_room :: room where
  "creator_room \<equiv> sample_room ''00000000000000cc'' [''00000000000000aa'']"

lemma sample_vote_sent:
  "\<exists>s' bs. vote voter_room (replicate 16 10) 2 sample_service = (Inr True, s', [(rm_peerId creator_room, bs, Event)])"
proof -
  have "OP_ID (opId (replicate 16 10))" by (rule OP_ID_opId) (simp add: random16_def)
  then have op: "parsePollOperation (poll_object voter_room (replicate 16 10) ''poll-vote''
      (JObj [(''pollId'', JStr (pd_pollId sample_poll)), (''optionIndex'', JInt 2)])) =
    Some \<lparr>op_id = opId (replicate 16 10), op_epoch = 2, op_author = ''00000000000000aa'',
      op_payload = Poll_Vote (pd_pollId sample_poll) 2\<rparr>" (is "_ = Some ?op")
    unfolding parsePollOperation_def poll_object_def
    by (subst poll.parse_op_object)
      (simp_all add: sample_room_def sample_poll_def parse_poll_payload_def parse_vote_def js_simps MAX_SAFE_INTEGER_def
        PEER_ID_def OP_ID_def matches_def lower_hex_def contract_simps)
  obtain bs where "encodePollOperation ?op = Inr bs" using encodePoll_total [OF op] by blast
  moreover have "pd_creatorPeerId sample_poll = rm_peerId creator_room" "rm_joined voter_room"
      "length (pd_options sample_poll) = 3" "pd_creatorPeerId sample_poll \<noteq> rm_peerId voter_room"
    by (simp_all add: sample_poll_def sample_room_def)
  ultimately show ?thesis using op by (simp add: vote_def sample_service_def isCreator_def Let_def)
qed

theorem vote_is_counted_witness:
  "\<exists>s' bs sc' out. vote voter_room (replicate 16 10) 2 sample_service = (Inr True, s', [(''00000000000000cc'', bs, Event)])
    \<and> poll_ingest creator_room \<lparr>dl_id = 1, dl_origin = ''00000000000000aa'', dl_class = Event, dl_data = bs\<rparr> []
        sample_service = (Inr True, sc', out)
    \<and> map_of (ps_votesByPeer (pv_state sc')) ''00000000000000aa'' = Some 2"
proof -
  obtain s' bs where v: "vote voter_room (replicate 16 10) 2 sample_service =
      (Inr True, s', [(rm_peerId creator_room, bs, Event)])"
    using sample_vote_sent by blast
  obtain res sc' out where g: "poll_ingest creator_room
      \<lparr>dl_id = 1, dl_origin = ''00000000000000aa'', dl_class = Event, dl_data = bs\<rparr> [] sample_service = (res, sc', out)"
    by (rule prod_cases3)
  have "res = Inr True \<and> map_of (ps_votesByPeer (pv_state sc')) ''00000000000000aa'' = Some 2"
    using vote_is_counted [OF v, of sample_service 1 "[]" res sc' out] g
    by (simp add: sample_room_def sample_service_def)
  then show ?thesis using v g by (auto simp: sample_room_def)
qed

text \<open>Results are taken from any member: neither \<open>poll-publish\<close> nor \<open>poll-close\<close> is compared with the
  creator of the poll.\<close>

lemma results_from_any_member:
  assumes "ps_poll s = Some poll" and "op_payload op = Poll_Close (pd_pollId poll) counts votes"
  shows "ps_status (apply_poll_operation r s op) = Status_Closed
    \<and> ps_counts (apply_poll_operation r s op) = map Some counts"
  using assms by (simp add: apply_poll_operation_def applyPollClose_def show_results_def)

subsection \<open>Repeated operations\<close>

type_synonym room_delivery = "room \<times> delivery \<times> bytes"

definition poll_handle :: "room_delivery \<Rightarrow> poll_service \<Rightarrow> poll_service" where
  "poll_handle e s = (case e of (r, d, rnd) \<Rightarrow> fst (snd (poll_ingest r d rnd s)))"

definition poll_drops :: "room_delivery \<Rightarrow> poll_service \<Rightarrow> bool" where
  "poll_drops e s \<longleftrightarrow> (case e of (r, d, rnd) \<Rightarrow> poll_ingest r d rnd s = (Inr False, s, []))"

definition poll_carries :: "room_delivery \<Rightarrow> poll_operation option" where
  "poll_carries e = (case e of (r, d, rnd) \<Rightarrow> decodePollBytes (dl_data d))"

lemma ingestPollDelivery_Some:
  "ingestPollDelivery d epoch known seen = Some op \<Longrightarrow>
     decodePollBytes (dl_data d) = Some op \<and> op_epoch op = epoch \<and> op_author op = dl_origin d \<and> dl_origin d \<in> set known \<and> op_id op \<notin> set seen"
  by (auto simp: ingestPollDelivery_def admit_Some_iff bind_eq_Some_conv split: if_splits)

lemma poll_ingest_seen:
  "set (pv_seen (fst (snd (poll_ingest r d rnd s)))) =
     (case ingestPollDelivery d (rm_epoch r) (known_peers r) (pv_seen s) of None \<Rightarrow> set (pv_seen s) | Some op \<Rightarrow> insert (op_id op) (set (pv_seen s)))"
  by (auto simp: poll_ingest_def answer_sync_def Let_def split: option.splits if_splits sum.splits prod.splits)

interpretation poll_replay: replay_guard pv_seen poll_handle poll_drops poll_carries "\<lambda>_. True"
proof unfold_locales
  fix e :: "room_delivery" and s :: poll_service and op :: poll_operation
  obtain r d rnd where e: "e = (r, d, rnd)" by (cases e)
  let ?in = "ingestPollDelivery d (rm_epoch r) (known_peers r) (pv_seen s)"
  have none: "poll_drops e s" if "?in = None" using that by (simp add: e poll_drops_def poll_ingest_def)
  have seen: "set (pv_seen (poll_handle e s)) = (case ?in of None \<Rightarrow> set (pv_seen s) | Some op \<Rightarrow> insert (op_id op) (set (pv_seen s)))"
    by (simp add: e poll_handle_def poll_ingest_seen)
  show "\<not> poll_drops e s \<Longrightarrow> poll_carries e = Some op \<Longrightarrow> True \<Longrightarrow> op_id op \<in> set (pv_seen (poll_handle e s))"
    using none by (cases ?in) (auto simp: seen [unfolded e] e poll_carries_def dest: ingestPollDelivery_Some)
  show "set (pv_seen s) \<subseteq> set (pv_seen (poll_handle e s))" by (auto simp: seen split: option.split)
  show "poll_carries e = Some op \<Longrightarrow> op_id op \<in> set (pv_seen s) \<Longrightarrow> poll_drops e s"
    using none by (cases ?in) (auto simp: e poll_carries_def dest: ingestPollDelivery_Some)
qed

end
