(* ===== verification/Lww.thy ===== *)
theory Lww
  imports Collab_Contract "HOL-Library.Product_Lexorder" "HOL-Library.Option_ord"
begin

text \<open>
  Last-writer-wins registers, the interface of the shared notes and the diagrams: a state carries the key
  of the write that made it, an update replaces it exactly when its key is greater. The lemmas say that
  the winner has the greatest key, and that replicas that merge the same updates in any order, any number
  of times, end in the same state if the updates with the winning key write the same; if they do not, the first of them
  decides.
\<close>

text \<open>The updates that beat a state and carry the greatest key.\<close>

definition lww_wins :: "('u \<Rightarrow> 'k :: linorder) \<Rightarrow> 'k \<Rightarrow> 'u list \<Rightarrow> 'u \<Rightarrow> bool" where
  "lww_wins key k us u \<longleftrightarrow> u \<in> set us \<and> k < key u \<and> list_all (\<lambda>w. key w \<le> key u) us"

lemma lww_wins_key: "lww_wins key k us u \<Longrightarrow> lww_wins key k us v \<Longrightarrow> key u = key v"
  by (auto simp: lww_wins_def list_all_iff intro: antisym)

locale lww =
  fixes merge :: "'s \<Rightarrow> 'u \<Rightarrow> 's" and skey :: "'s \<Rightarrow> 'k :: linorder" and ukey :: "'u \<Rightarrow> 'k" and put :: "'u \<Rightarrow> 's"
  assumes merge_eq: "merge s u = (if skey s < ukey u then put u else s)"
    and put_key: "skey s < ukey u \<Longrightarrow> skey (put u) = ukey u"
begin

lemma merge_key: "skey (merge s u) = max (skey s) (ukey u)"
  by (auto simp: merge_eq put_key max_def)

lemma fold_key: "skey (foldl merge s us) = Max (insert (skey s) (ukey ` set us))"
proof (induction us arbitrary: s)
  case (Cons u us)
  show ?case
  proof (cases "us = []")
    case False
    then show ?thesis by (simp add: Cons.IH merge_key insert_commute max.assoc)
  qed (simp add: merge_key)
qed simp

lemma fold_winner:
  "foldl merge s us = s \<or> (\<exists>u \<in> set us. foldl merge s us = put u \<and> skey (foldl merge s us) = ukey u \<and> skey s < ukey u)"
proof (induction us arbitrary: s)
  case (Cons u us)
  show ?case
  proof (cases "skey s < ukey u")
    case True
    then have m: "merge s u = put u" "skey (put u) = ukey u" by (simp_all add: merge_eq put_key)
    from Cons.IH [of "merge s u"] show ?thesis
      using True m by (auto intro: less_trans)
  next
    case False
    then have "merge s u = s" by (simp add: merge_eq)
    with Cons.IH [of s] show ?thesis by auto
  qed
qed simp

lemma fold_unchanged: "foldl merge s us = s" if "\<forall>u \<in> set us. \<not> skey s < ukey u"
  using that by (induction us) (auto simp: merge_eq)

lemma converge:
  assumes same: "set us = set ws"
    and consistent: "\<And>u v. lww_wins ukey (skey s) us u \<Longrightarrow> lww_wins ukey (skey s) us v \<Longrightarrow> put u = put v"
  shows "foldl merge s us = foldl merge s ws"
proof -
  have key: "skey (foldl merge s us) = skey (foldl merge s ws)" by (simp add: fold_key same)
  show ?thesis
  proof (cases "\<forall>u \<in> set us. \<not> skey s < ukey u")
    case True
    then show ?thesis using fold_unchanged same by metis
  next
    case False
    then obtain x where "x \<in> set us" "skey s < ukey x" by blast
    then have grows: "skey s < skey (foldl merge s us)"
      by (auto simp: fold_key intro: less_le_trans)
    then obtain u where u: "u \<in> set us" "foldl merge s us = put u" "skey (foldl merge s us) = ukey u" "skey s < ukey u"
      using fold_winner [of s us] by auto
    obtain v where v: "v \<in> set us" "foldl merge s ws = put v" "skey (foldl merge s ws) = ukey v"
      using fold_winner [of s ws] grows key same by auto
    have "ukey w \<le> ukey u" if "w \<in> set us" for w
      unfolding u(3) [symmetric] fold_key by (rule Max_ge) (use that in auto)
    moreover have "ukey v = ukey u" using u(3) v(3) key by simp
    ultimately have "lww_wins ukey (skey s) us u" "lww_wins ukey (skey s) us v" using u(1,4) v(1) by (simp_all add: lww_wins_def list_all_iff)
    then have "put u = put v" by (rule consistent)
    then show ?thesis using u(2) v(2) by simp
  qed
qed

lemma winner_first:
  assumes "lww_wins ukey (skey s) us u" shows "foldl merge s (u # us) = put u"
proof -
  have u: "skey s < ukey u" "\<And>w. w \<in> set us \<Longrightarrow> ukey w \<le> ukey u" using assms by (auto simp: lww_wins_def list_all_iff)
  have "foldl merge (put u) us = put u" by (rule fold_unchanged) (use u in \<open>simp add: put_key not_less\<close>)
  then show ?thesis using u(1) by (simp add: merge_eq)
qed

text \<open>Replicas \<open>same\<close> to each other merge the updates \<open>ups x\<close>, which are those of \<open>us\<close>; one of them has any given update first.\<close>

lemma converge_iff:
  assumes "\<And>x. same x \<Longrightarrow> set (ups x) = set us" and "\<And>u. u \<in> set us \<Longrightarrow> \<exists>x. same x \<and> ups x = u # us"
  shows "(\<forall>x. same x \<longrightarrow> foldl merge s (ups x) = foldl merge s us)
    \<longleftrightarrow> (\<forall>u v. lww_wins ukey (skey s) us u \<and> lww_wins ukey (skey s) us v \<longrightarrow> put u = put v)"
proof (intro iffI allI impI)
  fix u v
  assume all: "\<forall>x. same x \<longrightarrow> foldl merge s (ups x) = foldl merge s us"
    and w: "lww_wins ukey (skey s) us u \<and> lww_wins ukey (skey s) us v"
  have "foldl merge s us = put c" if "lww_wins ukey (skey s) us c" for c
    using assms(2) [of c] all winner_first [OF that] that unfolding lww_wins_def by metis
  from this [of u] this [of v] show "put u = put v" using w by simp
next
  fix x
  assume "\<forall>u v. lww_wins ukey (skey s) us u \<and> lww_wins ukey (skey s) us v \<longrightarrow> put u = put v" and "same x"
  then show "foldl merge s (ups x) = foldl merge s us" using converge [of us "ups x"] assms(1) by metis
qed

end

end
