(* ===== verification/Notes_Contract.thy ===== *)
theory Notes_Contract
  imports Lww
begin

text \<open>
  \<^verbatim>\<open>webrtc/shared-notes-contract.ts\<close>: the operations of the shared notes and their wire form. A
  revision is a safe integer that is never negative, a \<^typ>\<open>nat\<close> here.
\<close>

datatype notes_payload =
    Notes_Update nat nat string
  | Notes_Sync_Request
  | Notes_Snapshot nat string

type_synonym notes_operation = "notes_payload operation"

definition MAX_NOTES_TEXT_LENGTH :: nat where
  "MAX_NOTES_TEXT_LENGTH = 32000"

text \<open>The control characters other than tab, line feed and carriage return.\<close>

definition notes_disallowed :: "char \<Rightarrow> bool" where
  "notes_disallowed c =
     (let b = of_char c :: nat in b \<le> 8 \<or> b = 11 \<or> b = 12 \<or> 14 \<le> b \<and> b \<le> 31 \<or> b = 127)"

definition validNotesText :: "jsval \<Rightarrow> string option" where
  "validNotesText v =
     (case js_string v of None \<Rightarrow> None
      | Some s \<Rightarrow> if js_length s \<le> MAX_NOTES_TEXT_LENGTH \<and> \<not> list_ex notes_disallowed s then Some s else None)"

definition parse_notes_update :: "jsval \<Rightarrow> notes_payload option" where
  "parse_notes_update v =
     (case exact v [''revision'', ''baseRevision'', ''text''] of None \<Rightarrow> None
      | Some kvs \<Rightarrow> (case js_integer (js_get kvs ''revision'') 1 MAX_SAFE_INTEGER of None \<Rightarrow> None
      | Some rv \<Rightarrow> (case js_integer (js_get kvs ''baseRevision'') 0 MAX_SAFE_INTEGER of None \<Rightarrow> None
      | Some base \<Rightarrow> map_option (Notes_Update (nat rv) (nat base)) (validNotesText (js_get kvs ''text'')))))"

definition parse_notes_snapshot :: "jsval \<Rightarrow> notes_payload option" where
  "parse_notes_snapshot v =
     (case exact v [''revision'', ''text''] of None \<Rightarrow> None
      | Some kvs \<Rightarrow> (case js_integer (js_get kvs ''revision'') 0 MAX_SAFE_INTEGER of None \<Rightarrow> None
      | Some rv \<Rightarrow> map_option (Notes_Snapshot (nat rv)) (validNotesText (js_get kvs ''text''))))"

definition parse_notes_payload :: "string \<Rightarrow> jsval \<Rightarrow> notes_payload option" where
  "parse_notes_payload kind v =
     (if kind = ''notes-sync-request'' then map_option (\<lambda>_. Notes_Sync_Request) (exact v [])
      else if kind = ''notes-update'' then parse_notes_update v
      else if kind = ''notes-snapshot'' then parse_notes_snapshot v
      else None)"

definition parseSharedNotesOperation :: "jsval \<Rightarrow> notes_operation option" where
  "parseSharedNotesOperation = parse_op ''notes-op'' parse_notes_payload"

fun notes_kind :: "notes_payload \<Rightarrow> string" where
  "notes_kind (Notes_Update _ _ _) = ''notes-update''"
| "notes_kind Notes_Sync_Request = ''notes-sync-request''"
| "notes_kind (Notes_Snapshot _ _) = ''notes-snapshot''"

fun notes_payload_json :: "notes_payload \<Rightarrow> jsval" where
  "notes_payload_json (Notes_Update rv base text) =
     JObj [(''revision'', JInt (int rv)), (''baseRevision'', JInt (int base)), (''text'', JStr text)]"
| "notes_payload_json Notes_Sync_Request = JObj []"
| "notes_payload_json (Notes_Snapshot rv text) = JObj [(''revision'', JInt (int rv)), (''text'', JStr text)]"

definition notes_json :: "notes_operation \<Rightarrow> jsval" where
  "notes_json = op_json ''notes-op'' notes_kind notes_payload_json"

definition decodeSharedNotesBytes :: "bytes \<Rightarrow> notes_operation option" where
  "decodeSharedNotesBytes data = decode_with parseSharedNotesOperation data"

definition encodeSharedNotesOperation :: "notes_operation \<Rightarrow> string + bytes" where
  "encodeSharedNotesOperation operation =
     encode_with ''invalid_notes_operation'' parseSharedNotesOperation notes_json operation"

subsection \<open>The contract\<close>

lemma validNotesText_Some [simp]:
  "validNotesText v = Some s \<longleftrightarrow>
     v = JStr s \<and> js_length s \<le> MAX_NOTES_TEXT_LENGTH \<and> \<not> list_ex notes_disallowed s"
  by (auto simp: validNotesText_def split: option.splits if_splits)

lemma validNotesText_JStr:
  "js_length s \<le> MAX_NOTES_TEXT_LENGTH \<Longrightarrow> \<not> list_ex notes_disallowed s \<Longrightarrow> validNotesText (JStr s) = Some s"
  by simp

lemma notes_payload_reparse:
  assumes "parse_notes_payload k v = Some p"
  shows "notes_kind p = k" and "parse_notes_payload k (notes_payload_json p) = Some p"
    and "json_clean (notes_payload_json p)"
  using assms
  by (auto simp: parse_notes_payload_def parse_notes_update_def parse_notes_snapshot_def js_integer_Some_iff js_simps
      validNotesText_JStr exact_Some_iff split: option.splits if_splits)

interpretation notes_ct: payload_contract "''notes-op''" notes_kind notes_payload_json parse_notes_payload
  by unfold_locales (fact notes_payload_reparse)+

lemma encodeNotes_total:
  "parseSharedNotesOperation v = Some op \<Longrightarrow>
     encodeSharedNotesOperation op = Inr (text_encode (stringify (notes_json op)))"
  unfolding parseSharedNotesOperation_def encodeSharedNotesOperation_def notes_json_def
  by (rule notes_ct.op.encode_accepted)

text \<open>A valid operation on the notes is encoded without an error, and a peer decodes the bytes to
  the same operation.\<close>

theorem notes_operation_roundtrip:
  assumes "parseSharedNotesOperation v = Some op" and "js_utf8 (notes_json op)"
  shows "\<exists>bs. encodeSharedNotesOperation op = Inr bs \<and> decodeSharedNotesBytes bs = Some op"
  using assms notes_ct.op.accepted_roundtrip
  unfolding parseSharedNotesOperation_def encodeSharedNotesOperation_def decodeSharedNotesBytes_def notes_json_def by blast

definition sample_note :: notes_operation where
  "sample_note = \<lparr>op_id = ''000102030405060708090a0b0c0d0e0f'', op_epoch = 3, op_author = ''00000000000000aa'',
     op_payload = Notes_Update 5 4 ''agenda''\<rparr>"

lemma sample_note_accepted: "parseSharedNotesOperation (notes_json sample_note) = Some sample_note"
  by (simp add: sample_note_def parseSharedNotesOperation_def parse_op_def notes_json_def op_json_def op_object_def
      OP_FIELDS_def peer_field_def parse_notes_payload_def parse_notes_update_def validNotesText_def MAX_NOTES_TEXT_LENGTH_def
      notes_disallowed_def OP_ID_def PEER_ID_def matches_def lower_hex_def js_simps MAX_SAFE_INTEGER_def)

lemma sample_note_utf8: "js_utf8 (notes_json sample_note)"
  by (auto simp: sample_note_def notes_json_def op_json_def op_object_def intro!: ascii_utf8_ok)
    (simp_all add: ascii_def)

end
