(* ===== verification/Notes.thy ===== *)
theory Notes
  imports Notes_Contract Collab_Sizes
begin

text \<open>
  \<^verbatim>\<open>webrtc/shared-notes-overlay.ts\<close> and \<^verbatim>\<open>webrtc/shared-notes.service.ts\<close>: one shared text, merged by
  revision and then by author id. Peer ids are lower-case hexadecimal, so that JavaScript's order of
  strings is the order of the characters.
\<close>

subsection \<open>State and merging\<close>

record notes_state =
  nt_text :: string
  nt_revision :: nat
  nt_lastAuthorPeerId :: string

definition INITIAL_SHARED_NOTES_STATE :: notes_state where
  "INITIAL_SHARED_NOTES_STATE = \<lparr>nt_text = '''', nt_revision = 0, nt_lastAuthorPeerId = ''''\<rparr>"

definition ingestSharedNotesDelivery :: "delivery \<Rightarrow> int \<Rightarrow> string list \<Rightarrow> string list \<Rightarrow> notes_operation option" where
  "ingestSharedNotesDelivery d epoch known seen =
     (if dl_class d \<noteq> Event then None
      else if 48 * 1024 < length (dl_data d) then None
      else Option.bind (decodeSharedNotesBytes (dl_data d)) (admit epoch known seen (dl_origin d)))"

definition applySharedNotesOperation :: "notes_state \<Rightarrow> notes_operation \<Rightarrow> notes_state" where
  "applySharedNotesOperation current op =
     (case op_payload op of
        Notes_Sync_Request \<Rightarrow> current
      | Notes_Snapshot rv text \<Rightarrow>
          if nt_revision current < rv then
            \<lparr>nt_text = text, nt_revision = rv, nt_lastAuthorPeerId = op_author op\<rparr>
          else if rv = nt_revision current \<and> 0 < rv \<and> nt_lastAuthorPeerId current < op_author op then
            \<lparr>nt_text = text, nt_revision = rv, nt_lastAuthorPeerId = op_author op\<rparr>
          else current
      | Notes_Update rv base text \<Rightarrow>
          if nt_revision current < rv then
            \<lparr>nt_text = text, nt_revision = rv, nt_lastAuthorPeerId = op_author op\<rparr>
          else if rv = nt_revision current \<and> nt_lastAuthorPeerId current < op_author op then
            \<lparr>nt_text = text, nt_revision = rv, nt_lastAuthorPeerId = op_author op\<rparr>
          else current)"

definition shouldRespondToNotesSync :: "string \<Rightarrow> string \<Rightarrow> participant list \<Rightarrow> nat \<Rightarrow> bool" where
  "shouldRespondToNotesSync ownPeerId requesterPeerId participants currentRevision =
     (if currentRevision = 0 then False
      else if ownPeerId = requesterPeerId then False
      else case find (\<lambda>p. pt_role p = Owner) participants of
        Some owner \<Rightarrow> pt_peerId owner = ownPeerId
      | None \<Rightarrow>
          (case sort (filter (\<lambda>i. i \<noteq> requesterPeerId) (map pt_peerId participants)) of
             [] \<Rightarrow> False
           | lowest # _ \<Rightarrow> lowest = ownPeerId))"

subsection \<open>The service\<close>

record notes_service =
  ns_state :: notes_state
  ns_lastDelivery :: int
  ns_seen :: "string list"
  ns_hasRequestedSync :: bool

definition new_notes_service :: notes_service where
  "new_notes_service = \<lparr>ns_state = INITIAL_SHARED_NOTES_STATE, ns_lastDelivery = 0, ns_seen = [], ns_hasRequestedSync = False\<rparr>"

definition notes_object :: "room \<Rightarrow> bytes \<Rightarrow> string \<Rightarrow> jsval \<Rightarrow> jsval" where
  "notes_object r rnd kind payload = op_object ''notes-op'' (opId rnd) (rm_epoch r) (rm_peerId r) kind payload"

definition notes_send :: "room \<Rightarrow> notes_service \<Rightarrow> notes_operation \<Rightarrow> notes_service outcome" where
  "notes_send r s op =
     (case encodeSharedNotesOperation op of
        Inl err \<Rightarrow> (Inl err, s, [])
      | Inr bs \<Rightarrow> (Inr True, s, broadcast r bs Event))"

definition notes_answer_sync :: "room \<Rightarrow> bytes \<Rightarrow> string \<Rightarrow> notes_service \<Rightarrow> notes_service outcome" where
  "notes_answer_sync r rnd origin s =
     (if shouldRespondToNotesSync (rm_peerId r) origin (md_participants (rm_moderation r)) (nt_revision (ns_state s)) then
        case parseSharedNotesOperation (notes_object r rnd ''notes-snapshot''
            (JObj [(''revision'', JInt (int (nt_revision (ns_state s)))), (''text'', JStr (nt_text (ns_state s)))])) of
          None \<Rightarrow> (Inr True, s, [])
        | Some response \<Rightarrow> (case encodeSharedNotesOperation response of
            Inl err \<Rightarrow> (Inl err, s, [])
          | Inr bs \<Rightarrow> (Inr True, s, [(origin, bs, Event)]))
      else (Inr True, s, []))"

definition notes_ingest :: "room \<Rightarrow> delivery \<Rightarrow> bytes \<Rightarrow> notes_service \<Rightarrow> notes_service outcome" where
  "notes_ingest r d rnd s =
     (case ingestSharedNotesDelivery d (rm_epoch r) (known_peers r) (ns_seen s) of
        None \<Rightarrow> (Inr False, s, [])
      | Some op \<Rightarrow>
        (let s1 = s\<lparr>ns_seen := set_add (op_id op) (ns_seen s)\<rparr> in
         if op_payload op = Notes_Sync_Request then notes_answer_sync r rnd (dl_origin d) s1
         else (Inr True, s1\<lparr>ns_state := applySharedNotesOperation (ns_state s1) op\<rparr>, [])))"

definition updateText :: "room \<Rightarrow> bytes \<Rightarrow> string \<Rightarrow> notes_service \<Rightarrow> notes_service outcome" where
  "updateText r rnd newText s =
     (if \<not> rm_joined r \<or> rm_epoch r < 1 then (Inr False, s, [])
      else if MAX_NOTES_TEXT_LENGTH < js_length newText then (Inr False, s, [])
      else if newText = nt_text (ns_state s) then (Inr True, s, [])
      else
        (let nextRevision = nt_revision (ns_state s) + 1 in
         case parseSharedNotesOperation (notes_object r rnd ''notes-update''
             (JObj [(''revision'', JInt (int nextRevision)), (''baseRevision'', JInt (int (nt_revision (ns_state s)))),
                    (''text'', JStr newText)])) of
           None \<Rightarrow> (Inr False, s, [])
         | Some op \<Rightarrow>
             notes_send r (s\<lparr>ns_seen := set_add (op_id op) (ns_seen s),
               ns_state := \<lparr>nt_text = newText, nt_revision = nextRevision, nt_lastAuthorPeerId = rm_peerId r\<rparr>\<rparr>) op))"

definition clearNotes :: "room \<Rightarrow> bytes \<Rightarrow> notes_service \<Rightarrow> notes_service outcome" where
  "clearNotes r rnd s = updateText r rnd '''' s"

definition notes_requestSync :: "room \<Rightarrow> bytes \<Rightarrow> notes_service \<Rightarrow> notes_service outcome" where
  "notes_requestSync r rnd s =
     (if \<not> rm_joined r \<or> rm_epoch r < 1 then (Inr False, s, [])
      else case parseSharedNotesOperation (notes_object r rnd ''notes-sync-request'' (JObj [])) of
        None \<Rightarrow> (Inr False, s, [])
      | Some op \<Rightarrow> notes_send r (s\<lparr>ns_seen := set_add (op_id op) (ns_seen s)\<rparr>) op)"

definition notes_reset :: "notes_service \<Rightarrow> notes_service" where
  "notes_reset s = new_notes_service"

fun notes_deliveries :: "room \<Rightarrow> (delivery \<times> bytes) list \<Rightarrow> notes_service \<Rightarrow> notes_service outcome" where
  "notes_deliveries r [] s = (Inr True, s, [])"
| "notes_deliveries r ((d, rnd) # ds) s =
     (if dl_id d \<le> ns_lastDelivery s then notes_deliveries r ds s
      else case notes_ingest r d rnd (s\<lparr>ns_lastDelivery := dl_id d\<rparr>) of
        (Inl err, s', out) \<Rightarrow> (Inl err, s', out)
      | (Inr _, s', out) \<Rightarrow> (case notes_deliveries r ds s' of (res, s'', out') \<Rightarrow> (res, s'', out @ out')))"

definition notes_effect :: "room \<Rightarrow> (delivery \<times> bytes) list \<Rightarrow> bytes \<Rightarrow> notes_service \<Rightarrow> notes_service outcome" where
  "notes_effect r ds rnd s =
     (if \<not> rm_joined r then (Inr True, notes_reset s, [])
      else case notes_deliveries r ds s of
        (Inl err, s1, out) \<Rightarrow> (Inl err, s1, out)
      | (Inr _, s1, out) \<Rightarrow>
        if \<not> ns_hasRequestedSync s1 \<and> nt_revision (ns_state s1) = 0 \<and> rm_peers r \<noteq> [] then
          case notes_requestSync r rnd (s1\<lparr>ns_hasRequestedSync := True\<rparr>) of (res, s2, out') \<Rightarrow> (res, s2, out @ out')
        else (Inr True, s1, out))"

subsection \<open>Convergence\<close>

definition notes_key :: "notes_state \<Rightarrow> (nat \<times> string) option" where
  "notes_key s = Some (nt_revision s, nt_lastAuthorPeerId s)"

definition notes_op_key :: "notes_operation \<Rightarrow> (nat \<times> string) option" where
  "notes_op_key op =
     (case op_payload op of
        Notes_Update rv _ _ \<Rightarrow> Some (rv, op_author op)
      | Notes_Snapshot rv _ \<Rightarrow> if rv = 0 then None else Some (rv, op_author op)
      | Notes_Sync_Request \<Rightarrow> None)"

definition notes_text :: "notes_operation \<Rightarrow> string" where
  "notes_text op =
     (case op_payload op of Notes_Update _ _ t \<Rightarrow> t | Notes_Snapshot _ t \<Rightarrow> t | Notes_Sync_Request \<Rightarrow> '''')"

definition notes_put :: "notes_operation \<Rightarrow> notes_state" where
  "notes_put op =
     (case notes_op_key op of
        None \<Rightarrow> INITIAL_SHARED_NOTES_STATE
      | Some (rv, author) \<Rightarrow> \<lparr>nt_text = notes_text op, nt_revision = rv, nt_lastAuthorPeerId = author\<rparr>)"

lemma notes_less: "notes_key s < Some (rv, author) \<longleftrightarrow>
    nt_revision s < rv \<or> rv = nt_revision s \<and> nt_lastAuthorPeerId s < author"
  by (auto simp: notes_key_def less_prod_simp)

interpretation notes_lww: lww applySharedNotesOperation notes_key notes_op_key notes_put
proof unfold_locales
  show "applySharedNotesOperation s u = (if notes_key s < notes_op_key u then notes_put u else s)" for s u
    by (cases "op_payload u")
      (auto simp: applySharedNotesOperation_def notes_put_def notes_op_key_def notes_text_def notes_less)
  show "notes_key s < notes_op_key u \<Longrightarrow> notes_key (notes_put u) = notes_op_key u" for s u
    by (cases "notes_op_key u") (auto simp: notes_put_def notes_key_def)
qed

text \<open>The operations that carry the winning revision and author.\<close>

abbreviation notes_wins :: "notes_state \<Rightarrow> notes_operation list \<Rightarrow> notes_operation \<Rightarrow> bool" where
  "notes_wins s \<equiv> lww_wins notes_op_key (notes_key s)"

lemma notes_wins_put:
  assumes "notes_wins s ops a" "notes_wins s ops b" shows "notes_put a = notes_put b \<longleftrightarrow> notes_text a = notes_text b"
proof -
  obtain k where "notes_op_key b = Some k" using assms(2) by (cases "notes_op_key b") (auto simp: lww_wins_def)
  then show ?thesis using lww_wins_key [OF assms] by (cases k) (simp add: notes_put_def)
qed

text \<open>C24. When replicas of the notes converge. Clients that start from the same notes and apply the same
  operations, in any order and with any repetitions, always agree on the revision and the author: the greatest revision wins,
  ties go to the greater peer id. They all show the same text exactly when the operations with the winning revision and
  author carry one text. A client's own edits in a room have growing revisions, so that two texts need an answer to a
  synchronisation request, which carries the text of another author under the id and with the revision of the one who answers;
  if both are among the operations and win, the text that arrives first stays.\<close>

theorem notes_converge:
  "(\<forall>ops'. set ops' = set ops \<longrightarrow>
      notes_key (foldl applySharedNotesOperation s ops') = Max (insert (notes_key s) (notes_op_key ` set ops)))
   \<and> ((\<forall>ops'. set ops' = set ops \<longrightarrow> foldl applySharedNotesOperation s ops' = foldl applySharedNotesOperation s ops)
      \<longleftrightarrow> (\<forall>a b. notes_wins s ops a \<and> notes_wins s ops b \<longrightarrow> notes_text a = notes_text b))"
proof
  show "\<forall>ops'. set ops' = set ops \<longrightarrow>
      notes_key (foldl applySharedNotesOperation s ops') = Max (insert (notes_key s) (notes_op_key ` set ops))"
    by (simp add: notes_lww.fold_key)
  have "\<exists>ops'. set ops' = set ops \<and> ops' = a # ops" if "a \<in> set ops" for a using that by auto
  then have "(\<forall>ops'. set ops' = set ops \<longrightarrow> foldl applySharedNotesOperation s ops' = foldl applySharedNotesOperation s ops)
      \<longleftrightarrow> (\<forall>a b. notes_wins s ops a \<and> notes_wins s ops b \<longrightarrow> notes_put a = notes_put b)"
    by (intro notes_lww.converge_iff)
  then show "(\<forall>ops'. set ops' = set ops \<longrightarrow> foldl applySharedNotesOperation s ops' = foldl applySharedNotesOperation s ops)
      \<longleftrightarrow> (\<forall>a b. notes_wins s ops a \<and> notes_wins s ops b \<longrightarrow> notes_text a = notes_text b)"
    using notes_wins_put [of s ops] by metis
qed

text \<open>Two notes of different authors, and two texts of one author and revision.\<close>

definition own_note :: notes_operation where
  "own_note = \<lparr>op_id = ''1'', op_epoch = 3, op_author = ''00000000000000bb'', op_payload = Notes_Update 5 4 ''minutes''\<rparr>"

definition snapshot_note :: notes_operation where
  "snapshot_note = \<lparr>op_id = ''2'', op_epoch = 3, op_author = ''00000000000000bb'', op_payload = Notes_Snapshot 5 ''agenda''\<rparr>"

theorem notes_converge_witness:
  "foldl applySharedNotesOperation INITIAL_SHARED_NOTES_STATE [own_note, sample_note]
      = foldl applySharedNotesOperation INITIAL_SHARED_NOTES_STATE [sample_note, own_note]
   \<and> (\<exists>ops'. set ops' = {own_note, snapshot_note} \<and>
      foldl applySharedNotesOperation INITIAL_SHARED_NOTES_STATE ops'
        \<noteq> foldl applySharedNotesOperation INITIAL_SHARED_NOTES_STATE [own_note, snapshot_note])"
proof
  have "notes_op_key own_note \<noteq> notes_op_key sample_note" by (simp add: own_note_def sample_note_def notes_op_key_def)
  then have one: "\<forall>a b. notes_wins INITIAL_SHARED_NOTES_STATE [sample_note, own_note] a
      \<and> notes_wins INITIAL_SHARED_NOTES_STATE [sample_note, own_note] b \<longrightarrow> notes_text a = notes_text b"
    by (auto simp: lww_wins_def)
  have "set [own_note, sample_note] = set [sample_note, own_note]" by auto
  then show "foldl applySharedNotesOperation INITIAL_SHARED_NOTES_STATE [own_note, sample_note]
      = foldl applySharedNotesOperation INITIAL_SHARED_NOTES_STATE [sample_note, own_note]"
    by (rule mp [OF spec [OF iffD2 [OF conjunct2 [OF notes_converge] one]]])
next
  have "notes_wins INITIAL_SHARED_NOTES_STATE [own_note, snapshot_note] own_note"
      "notes_wins INITIAL_SHARED_NOTES_STATE [own_note, snapshot_note] snapshot_note" "notes_text own_note \<noteq> notes_text snapshot_note"
    by (simp_all add: lww_wins_def own_note_def snapshot_note_def notes_op_key_def notes_less INITIAL_SHARED_NOTES_STATE_def notes_text_def)
  then show "\<exists>ops'. set ops' = {own_note, snapshot_note} \<and> foldl applySharedNotesOperation INITIAL_SHARED_NOTES_STATE ops'
      \<noteq> foldl applySharedNotesOperation INITIAL_SHARED_NOTES_STATE [own_note, snapshot_note]"
    using conjunct2 [OF notes_converge [of "[own_note, snapshot_note]" INITIAL_SHARED_NOTES_STATE]]
    unfolding list.set by blast
qed

subsection \<open>Repeated operations\<close>

definition notes_handle :: "room \<times> delivery \<times> bytes \<Rightarrow> notes_service \<Rightarrow> notes_service" where
  "notes_handle e s = (case e of (r, d, rnd) \<Rightarrow> fst (snd (notes_ingest r d rnd s)))"

definition notes_drops :: "room \<times> delivery \<times> bytes \<Rightarrow> notes_service \<Rightarrow> bool" where
  "notes_drops e s \<longleftrightarrow> (case e of (r, d, rnd) \<Rightarrow> notes_ingest r d rnd s = (Inr False, s, []))"

definition notes_carries :: "room \<times> delivery \<times> bytes \<Rightarrow> notes_operation option" where
  "notes_carries e = (case e of (r, d, rnd) \<Rightarrow> decodeSharedNotesBytes (dl_data d))"

lemma ingestSharedNotesDelivery_Some:
  "ingestSharedNotesDelivery d epoch known seen = Some op \<Longrightarrow> decodeSharedNotesBytes (dl_data d) = Some op \<and>
     op_epoch op = epoch \<and> op_author op = dl_origin d \<and> dl_origin d \<in> set known \<and> op_id op \<notin> set seen"
  by (auto simp: ingestSharedNotesDelivery_def admit_Some_iff bind_eq_Some_conv split: if_splits)

lemma notes_ingest_seen:
  "set (ns_seen (fst (snd (notes_ingest r d rnd s)))) =
     (case ingestSharedNotesDelivery d (rm_epoch r) (known_peers r) (ns_seen s) of None \<Rightarrow> set (ns_seen s) | Some op \<Rightarrow> insert (op_id op) (set (ns_seen s)))"
  by (auto simp: notes_ingest_def notes_answer_sync_def Let_def split: option.splits if_splits sum.splits prod.splits)

interpretation notes_replay: replay_guard ns_seen notes_handle notes_drops notes_carries "\<lambda>_. True"
proof unfold_locales
  fix e :: "room \<times> delivery \<times> bytes" and s :: notes_service and op :: notes_operation
  obtain r d rnd where e: "e = (r, d, rnd)" by (cases e)
  let ?in = "ingestSharedNotesDelivery d (rm_epoch r) (known_peers r) (ns_seen s)"
  have none: "notes_drops e s" if "?in = None" using that by (simp add: e notes_drops_def notes_ingest_def)
  have seen: "set (ns_seen (notes_handle e s)) = (case ?in of None \<Rightarrow> set (ns_seen s) | Some op \<Rightarrow> insert (op_id op) (set (ns_seen s)))"
    by (simp add: e notes_handle_def notes_ingest_seen)
  show "\<not> notes_drops e s \<Longrightarrow> notes_carries e = Some op \<Longrightarrow> True \<Longrightarrow> op_id op \<in> set (ns_seen (notes_handle e s))"
    using none by (cases ?in) (auto simp: seen [unfolded e] e notes_carries_def dest: ingestSharedNotesDelivery_Some)
  show "set (ns_seen s) \<subseteq> set (ns_seen (notes_handle e s))" by (auto simp: seen split: option.split)
  show "notes_carries e = Some op \<Longrightarrow> op_id op \<in> set (ns_seen s) \<Longrightarrow> notes_drops e s"
    using none by (cases ?in) (auto simp: e notes_carries_def dest: ingestSharedNotesDelivery_Some)
qed

subsection \<open>Synchronisation\<close>

lemma sort_Cons_Min: "sort xs = x # ys \<Longrightarrow> x = Min (set xs)"
proof -
  assume s: "sort xs = x # ys"
  then have "sorted (x # ys)" by (metis sorted_sort)
  moreover have "set xs = set (x # ys)" using s by (metis set_sort)
  ultimately show ?thesis by (auto intro!: Min_eqI [symmetric])
qed

text \<open>Who answers a request for the notes, among members with the same list of participants: the
  owner, unless the owner is the one who asks, in which case nobody does; in a room without an owner
  the participant with the lowest id other than the requester. So there is at most one answer.\<close>

theorem notes_sync_responders:
  "{a. shouldRespondToNotesSync a requester participants (Suc rv)} =
     (case find (\<lambda>p. pt_role p = Owner) participants of
        Some owner \<Rightarrow> {pt_peerId owner} - {requester}
      | None \<Rightarrow> (let others = set (map pt_peerId participants) - {requester} in
                  if others = {} then {} else {Min others}))"
proof (cases "find (\<lambda>p. pt_role p = Owner) participants")
  case None
  let ?f = "filter (\<lambda>i. i \<noteq> requester) (map pt_peerId participants)"
  have others: "set ?f = set (map pt_peerId participants) - {requester}" by auto
  show ?thesis
  proof (cases "?f = []")
    case True
    then have "set (map pt_peerId participants) - {requester} = {}" using others by simp
    then show ?thesis using None True by (simp add: shouldRespondToNotesSync_def)
  next
    case False
    then have ne: "set (map pt_peerId participants) - {requester} \<noteq> {}" using others by (metis set_empty)
    obtain x ys where xs: "sort ?f = x # ys" using False by (metis list.exhaust set_empty set_sort)
    then have x: "x = Min (set ?f)" by (rule sort_Cons_Min)
    moreover have "x \<in> set ?f" using xs by (metis list.set_intros(1) set_sort)
    ultimately show ?thesis using None ne others xs
      by (auto simp: shouldRespondToNotesSync_def Let_def)
  qed
qed (auto simp: shouldRespondToNotesSync_def)

subsection \<open>Notes over the wire limit\<close>

lemma updateText_sent:
  assumes "updateText r rnd t s = (Inr True, s', out)" and "(to, bs, cls) \<in> set out"
  shows "nt_text (ns_state s') = t \<and> length t < length bs"
proof -
  obtain op rv base where op: "parseSharedNotesOperation (notes_object r rnd ''notes-update''
        (JObj [(''revision'', JInt (int rv)), (''baseRevision'', JInt (int base)), (''text'', JStr t)])) = Some op"
    and sent: "notes_send r (s\<lparr>ns_seen := set_add (op_id op) (ns_seen s),
        ns_state := \<lparr>nt_text = t, nt_revision = rv, nt_lastAuthorPeerId = rm_peerId r\<rparr>\<rparr>) op = (Inr True, s', out)"
    using assms unfolding updateText_def Let_def by (force split: if_splits option.splits)
  have "bs = text_encode (stringify (notes_json op))" and s': "nt_text (ns_state s') = t"
    using sent assms(2) encodeNotes_total [OF op] by (auto simp: notes_send_def broadcast_def)
  moreover have "op_payload op = Notes_Update rv base t"
    using op by (auto simp: parseSharedNotesOperation_def parse_op_def notes_object_def op_object_def
        parse_notes_payload_def parse_notes_update_def js_simps js_integer_Some_iff split: option.splits if_splits)
  ultimately show ?thesis using json_quote_longer [of t]
    by (simp add: text_encode_def str_bytes_def notes_json_def op_json_def op_object_def)
qed

text \<open>C25. The two limits on a note do not fit: a text of at most 32,000 UTF-16 units is accepted by its
  author and sent, but when its UTF-8 bytes exceed the 48 KiB of the overlay, every peer drops the
  message, whatever its state. The author's notes then differ from all others.\<close>

theorem long_note_stays_local:
  assumes "updateText r rnd t s = (Inr True, s', out)" and "(to, bs, cls) \<in> set out"
    and "48 * 1024 < length t" and "dl_data d = bs"
  shows "nt_text (ns_state s') = t \<and> notes_ingest r' d rnd' s'' = (Inr False, s'', [])"
  using updateText_sent [OF assms(1,2)] assms(3,4)
  by (simp add: notes_ingest_def ingestSharedNotesDelivery_def)

definition euro_note :: string where
  "euro_note = concat (replicate 17000 [CHR 0xE2, CHR 0x82, CHR 0xAC])"

lemma euro_note_facts:
  "length euro_note = 51000" "js_length euro_note = 17000" "\<not> list_ex notes_disallowed euro_note"
proof -
  have "length (concat (replicate n [CHR 0xE2, CHR 0x82, CHR 0xAC])) = 3 * n" for n by (induction n) auto
  then show "length euro_note = 51000" by (simp add: euro_note_def)
  have "js_length (concat (replicate n [CHR 0xE2, CHR 0x82, CHR 0xAC])) = n" for n
    by (induction n) (auto simp: Let_def)
  then show "js_length euro_note = 17000" by (simp add: euro_note_def)
  have "\<not> list_ex notes_disallowed (concat (replicate n [CHR 0xE2, CHR 0x82, CHR 0xAC]))" for n
    by (induction n) (auto simp: notes_disallowed_def Let_def)
  then show "\<not> list_ex notes_disallowed euro_note" by (simp add: euro_note_def)
qed

abbreviation author_room :: room where
  "author_room \<equiv> \<lparr>rm_joined = True, rm_peerId = ''00000000000000aa'', rm_epoch = 2, rm_peers = [''00000000000000bb''],
     rm_machines = [], rm_moderation = new_moderation\<rparr>"

lemma euro_note_sent:
  "\<exists>s' bs. updateText author_room (replicate 16 10) euro_note new_notes_service = (Inr True, s', [(''00000000000000bb'', bs, Event)])"
proof -
  have "OP_ID (opId (replicate 16 10))" by (rule OP_ID_opId) (simp add: random16_def)
  then have op: "parseSharedNotesOperation (notes_object author_room (replicate 16 10) ''notes-update''
      (JObj [(''revision'', JInt 1), (''baseRevision'', JInt 0), (''text'', JStr euro_note)])) =
    Some \<lparr>op_id = opId (replicate 16 10), op_epoch = 2, op_author = ''00000000000000aa'',
      op_payload = Notes_Update 1 0 euro_note\<rparr>"
    unfolding parseSharedNotesOperation_def notes_object_def
    by (subst notes_ct.parse_op_object)
      (simp_all add: parse_notes_payload_def parse_notes_update_def js_simps MAX_SAFE_INTEGER_def validNotesText_JStr
        euro_note_facts MAX_NOTES_TEXT_LENGTH_def PEER_ID_def matches_def lower_hex_def)
  have "euro_note \<noteq> ''''" using euro_note_facts(1) by auto
  then show ?thesis
    using op encodeNotes_total [OF op]
    by (simp add: updateText_def euro_note_facts MAX_NOTES_TEXT_LENGTH_def new_notes_service_def
        INITIAL_SHARED_NOTES_STATE_def notes_send_def broadcast_def Let_def)
qed

theorem long_note_stays_local_witness:
  "\<exists>s' bs. updateText author_room (replicate 16 10) euro_note new_notes_service = (Inr True, s', [(''00000000000000bb'', bs, Event)])
    \<and> nt_text (ns_state s') = euro_note
    \<and> notes_ingest author_room \<lparr>dl_id = 1, dl_origin = ''00000000000000aa'', dl_class = Event, dl_data = bs\<rparr> [] new_notes_service =
        (Inr False, new_notes_service, [])"
proof -
  obtain s' bs where u: "updateText author_room (replicate 16 10) euro_note new_notes_service =
      (Inr True, s', [(''00000000000000bb'', bs, Event)])"
    using euro_note_sent by blast
  show ?thesis
    using u long_note_stays_local [OF u, of "''00000000000000bb''" bs Event
        "\<lparr>dl_id = 1, dl_origin = ''00000000000000aa'', dl_class = Event, dl_data = bs\<rparr>" author_room "[]" new_notes_service]
    by (simp add: euro_note_facts)
qed

text \<open>A snapshot is merged under the id of the peer that answers, not of the author of the text: two
  members that hold the same note under different ids choose differently between a third note and it.\<close>

definition held_note :: notes_operation where
  "held_note = \<lparr>op_id = ''1'', op_epoch = 2, op_author = ''1111111111111111'', op_payload = Notes_Update 5 4 ''x''\<rparr>"

definition late_note :: notes_operation where
  "late_note = \<lparr>op_id = ''2'', op_epoch = 2, op_author = ''2222222222222222'', op_payload = Notes_Update 5 4 ''y''\<rparr>"

definition answer_note :: notes_operation where
  "answer_note = \<lparr>op_id = ''3'', op_epoch = 2, op_author = ''3333333333333333'', op_payload = Notes_Snapshot 5 ''x''\<rparr>"

lemma snapshot_author_diverges:
  "nt_text (foldl applySharedNotesOperation INITIAL_SHARED_NOTES_STATE [held_note, late_note]) = ''y''"
  "nt_text (foldl applySharedNotesOperation INITIAL_SHARED_NOTES_STATE [answer_note, late_note]) = ''x''"
  by (simp_all add: held_note_def late_note_def answer_note_def applySharedNotesOperation_def
      INITIAL_SHARED_NOTES_STATE_def less_char_def)

end
