(* ===== verification/Diagram_Contract.thy ===== *)
theory Diagram_Contract
  imports Lww
begin

text \<open>
  \<^verbatim>\<open>webrtc/diagram-contract.ts\<close>: the operations of the diagram editors and their wire form, which is
  bounded by 260 KiB in both directions.
\<close>

datatype diagram_tool = Bpmn | Drawio

datatype diagram_payload =
    Diagram_Snapshot diagram_tool string nat
  | Diagram_Tool diagram_tool nat
  | Diagram_Lock string bool
  | Diagram_Sync_Request
  | Diagram_Sync_Response diagram_tool string nat string

type_synonym diagram_operation = "diagram_payload operation"

definition MAX_XML_BYTES :: nat where
  "MAX_XML_BYTES = 256 * 1024"

definition MAX_ENCODED_BYTES :: nat where
  "MAX_ENCODED_BYTES = 260 * 1024"

definition LOCK_TTL_MS :: int where
  "LOCK_TTL_MS = 60000"

definition element_char :: "char \<Rightarrow> bool" where
  "element_char c =
     (c \<in> set ''ABCDEFGHIJKLMNOPQRSTUVWXYZabcdefghijklmnopqrstuvwxyz0123456789_.:-'')"

definition ELEMENT_ID :: "string \<Rightarrow> bool" where
  "ELEMENT_ID = matches element_char 1 64"

definition TOOLS :: "(string \<times> diagram_tool) list" where
  "TOOLS = [(''bpmn'', Bpmn), (''drawio'', Drawio)]"

definition diagram_revision :: "jsval \<Rightarrow> nat option" where
  "diagram_revision v = map_option nat (js_integer v 1 MAX_SAFE_INTEGER)"

definition diagram_xml :: "jsval \<Rightarrow> string option" where
  "diagram_xml v =
     (case js_string v of None \<Rightarrow> None
      | Some s \<Rightarrow> if js_length s = 0 then None else if length (text_encode s) \<le> MAX_XML_BYTES then Some s else None)"

definition parse_tool_payload :: "jsval \<Rightarrow> diagram_payload option" where
  "parse_tool_payload v =
     (case exact v [''tool'', ''revision''] of None \<Rightarrow> None
      | Some kvs \<Rightarrow> (case named TOOLS (js_get kvs ''tool'') of None \<Rightarrow> None
      | Some t \<Rightarrow> map_option (Diagram_Tool t) (diagram_revision (js_get kvs ''revision''))))"

definition parse_lock_payload :: "jsval \<Rightarrow> diagram_payload option" where
  "parse_lock_payload v =
     (case exact v [''elementId'', ''locked''] of None \<Rightarrow> None
      | Some kvs \<Rightarrow> (case js_string (js_get kvs ''elementId'') of None \<Rightarrow> None
      | Some e \<Rightarrow>
        if \<not> ELEMENT_ID e then None
        else map_option (Diagram_Lock e) (js_bool (js_get kvs ''locked''))))"

definition parse_doc_payload :: "bool \<Rightarrow> jsval \<Rightarrow> diagram_payload option" where
  "parse_doc_payload snapshot v =
     (case exact v (if snapshot then [''tool'', ''xml'', ''revision''] else [''tool'', ''xml'', ''revision'', ''docAuthor'']) of
        None \<Rightarrow> None
      | Some kvs \<Rightarrow> (case named TOOLS (js_get kvs ''tool'') of None \<Rightarrow> None
      | Some t \<Rightarrow> (case diagram_xml (js_get kvs ''xml'') of None \<Rightarrow> None
      | Some xml \<Rightarrow> (case diagram_revision (js_get kvs ''revision'') of None \<Rightarrow> None
      | Some rv \<Rightarrow>
        if snapshot then Some (Diagram_Snapshot t xml rv)
        else map_option (Diagram_Sync_Response t xml rv) (peer_field (js_get kvs ''docAuthor''))))))"

definition parse_diagram_payload :: "string \<Rightarrow> jsval \<Rightarrow> diagram_payload option" where
  "parse_diagram_payload kind v =
     (if kind = ''sync-request'' then map_option (\<lambda>_. Diagram_Sync_Request) (exact v [])
      else if kind = ''tool'' then parse_tool_payload v
      else if kind = ''lock'' then parse_lock_payload v
      else if kind = ''snapshot'' then parse_doc_payload True v
      else if kind = ''sync-response'' then parse_doc_payload False v
      else None)"

definition parseDiagramOperation :: "jsval \<Rightarrow> diagram_operation option" where
  "parseDiagramOperation = parse_op ''diagram-op'' parse_diagram_payload"

definition tool_name :: "diagram_tool \<Rightarrow> string" where
  "tool_name t = (case t of Bpmn \<Rightarrow> ''bpmn'' | Drawio \<Rightarrow> ''drawio'')"

fun diagram_kind :: "diagram_payload \<Rightarrow> string" where
  "diagram_kind (Diagram_Snapshot _ _ _) = ''snapshot''"
| "diagram_kind (Diagram_Tool _ _) = ''tool''"
| "diagram_kind (Diagram_Lock _ _) = ''lock''"
| "diagram_kind Diagram_Sync_Request = ''sync-request''"
| "diagram_kind (Diagram_Sync_Response _ _ _ _) = ''sync-response''"

fun diagram_payload_json :: "diagram_payload \<Rightarrow> jsval" where
  "diagram_payload_json (Diagram_Snapshot t xml rv) =
     JObj [(''tool'', JStr (tool_name t)), (''xml'', JStr xml), (''revision'', JInt (int rv))]"
| "diagram_payload_json (Diagram_Tool t rv) = JObj [(''tool'', JStr (tool_name t)), (''revision'', JInt (int rv))]"
| "diagram_payload_json (Diagram_Lock e l) = JObj [(''elementId'', JStr e), (''locked'', JBool l)]"
| "diagram_payload_json Diagram_Sync_Request = JObj []"
| "diagram_payload_json (Diagram_Sync_Response t xml rv author) =
     JObj [(''tool'', JStr (tool_name t)), (''xml'', JStr xml), (''revision'', JInt (int rv)), (''docAuthor'', JStr author)]"

definition diagram_json :: "diagram_operation \<Rightarrow> jsval" where
  "diagram_json = op_json ''diagram-op'' diagram_kind diagram_payload_json"

definition decodeDiagramBytes :: "bytes \<Rightarrow> diagram_operation option" where
  "decodeDiagramBytes data =
     (if MAX_ENCODED_BYTES < length data then None else decode_with parseDiagramOperation data)"

definition encodeDiagramOperation :: "diagram_operation \<Rightarrow> string + bytes" where
  "encodeDiagramOperation operation =
     (case encode_with ''invalid_diagram_operation'' parseDiagramOperation diagram_json operation of
        Inl err \<Rightarrow> Inl err
      | Inr bs \<Rightarrow> if MAX_ENCODED_BYTES < length bs then Inl ''invalid_diagram_operation'' else Inr bs)"

subsection \<open>The contract\<close>

lemma tool_named [simp]: "named TOOLS (JStr (tool_name t)) = Some t"
  by (cases t) (simp_all add: named_def TOOLS_def tool_name_def)

lemma diagram_revision_Some:
  "diagram_revision v = Some n \<longleftrightarrow> v = JInt (int n) \<and> 1 \<le> n \<and> int n \<le> MAX_SAFE_INTEGER"
  by (auto simp: diagram_revision_def js_integer_Some_iff)

lemma diagram_revision_JInt: "1 \<le> n \<Longrightarrow> int n \<le> MAX_SAFE_INTEGER \<Longrightarrow> diagram_revision (JInt (int n)) = Some n"
  by (simp add: diagram_revision_Some)

lemma diagram_xml_Some: "diagram_xml v = Some s \<Longrightarrow> v = JStr s \<and> diagram_xml (JStr s) = Some s"
  by (auto simp: diagram_xml_def split: option.splits if_splits)

lemma peer_field_parse: "peer_field v = Some s \<Longrightarrow> peer_field (JStr s) = Some s"
  by (auto simp: peer_field_def split: option.splits if_splits)

lemma parse_doc_reparse:
  assumes "parse_doc_payload b v = Some p"
  shows "diagram_kind p = (if b then ''snapshot'' else ''sync-response'')
    \<and> parse_doc_payload b (diagram_payload_json p) = Some p \<and> json_clean (diagram_payload_json p)"
proof -
  from assms obtain kvs t xml rv where
      xml: "diagram_xml (js_get kvs ''xml'') = Some xml" and rv: "diagram_revision (js_get kvs ''revision'') = Some rv"
    and p: "if b then p = Diagram_Snapshot t xml rv
      else map_option (Diagram_Sync_Response t xml rv) (peer_field (js_get kvs ''docAuthor'')) = Some p"
    by (auto simp: parse_doc_payload_def split: option.splits if_splits)
  have x: "diagram_xml (JStr xml) = Some xml" using diagram_xml_Some [OF xml] by simp
  have r: "diagram_revision (JInt (int rv)) = Some rv" "int rv \<le> MAX_SAFE_INTEGER" using rv by (auto simp: diagram_revision_Some)
  show ?thesis
  proof (cases b)
    case True
    then show ?thesis using p x r by (simp add: parse_doc_payload_def js_simps)
  next
    case False
    then obtain a where "peer_field (js_get kvs ''docAuthor'') = Some a" "p = Diagram_Sync_Response t xml rv a" using p by auto
    then show ?thesis using False x r peer_field_parse by (auto simp: parse_doc_payload_def js_simps)
  qed
qed

lemma parse_tool_reparse:
  assumes "parse_tool_payload v = Some p"
  shows "diagram_kind p = ''tool'' \<and> parse_tool_payload (diagram_payload_json p) = Some p \<and> json_clean (diagram_payload_json p)"
proof -
  from assms obtain t rv where "p = Diagram_Tool t rv" "1 \<le> rv" "int rv \<le> MAX_SAFE_INTEGER"
    by (auto simp: parse_tool_payload_def diagram_revision_Some split: option.splits)
  then show ?thesis by (simp add: parse_tool_payload_def diagram_revision_JInt js_simps)
qed

lemma parse_lock_reparse:
  assumes "parse_lock_payload v = Some p"
  shows "diagram_kind p = ''lock'' \<and> parse_lock_payload (diagram_payload_json p) = Some p \<and> json_clean (diagram_payload_json p)"
proof -
  from assms obtain e l where "p = Diagram_Lock e l" "ELEMENT_ID e"
    by (auto simp: parse_lock_payload_def split: option.splits if_splits)
  then show ?thesis by (simp add: parse_lock_payload_def js_simps)
qed

lemma diagram_payload_reparse:
  assumes "parse_diagram_payload k v = Some p"
  shows "diagram_kind p = k" and "parse_diagram_payload k (diagram_payload_json p) = Some p"
    and "json_clean (diagram_payload_json p)"
proof -
  have "diagram_kind p = k \<and> parse_diagram_payload k (diagram_payload_json p) = Some p \<and> json_clean (diagram_payload_json p)"
    using assms parse_doc_reparse [of True v p] parse_doc_reparse [of False v p] parse_tool_reparse [of v p]
      parse_lock_reparse [of v p]
    by (auto simp: parse_diagram_payload_def exact_JObj exact_fields_def js_keys_def split: if_splits)
  then show "diagram_kind p = k" and "parse_diagram_payload k (diagram_payload_json p) = Some p"
    and "json_clean (diagram_payload_json p)" by auto
qed

interpretation diagram: payload_contract "''diagram-op''" diagram_kind diagram_payload_json parse_diagram_payload
  by unfold_locales (fact diagram_payload_reparse)+

lemma encodeDiagram_accepted:
  assumes "parseDiagramOperation v = Some op"
  shows "encodeDiagramOperation op =
    (if MAX_ENCODED_BYTES < length (stringify (diagram_json op)) then Inl ''invalid_diagram_operation''
     else Inr (text_encode (stringify (diagram_json op))))"
  using diagram.op.encode_accepted [OF assms [unfolded parseDiagramOperation_def]]
  by (simp add: encodeDiagramOperation_def parseDiagramOperation_def diagram_json_def text_encode_def str_bytes_def)

text \<open>A valid diagram operation whose JSON text fits into 260 KiB is encoded, and a peer decodes the
  bytes to the same operation; a larger one is refused by the encoder.\<close>

lemma diagram_operation_roundtrip:
  assumes "parseDiagramOperation v = Some op" and "js_utf8 (diagram_json op)"
  shows "(length (stringify (diagram_json op)) \<le> MAX_ENCODED_BYTES \<longrightarrow>
      (\<exists>bs. encodeDiagramOperation op = Inr bs \<and> decodeDiagramBytes bs = Some op))
    \<and> (length (stringify (diagram_json op)) > MAX_ENCODED_BYTES \<longrightarrow>
      encodeDiagramOperation op = Inl ''invalid_diagram_operation'')"
proof (intro conjI impI)
  assume "length (stringify (diagram_json op)) \<le> MAX_ENCODED_BYTES"
  moreover obtain bs where
      "encode_with ''invalid_diagram_operation'' parseDiagramOperation diagram_json op = Inr bs"
      "decode_with parseDiagramOperation bs = Some op"
    using diagram.op.accepted_roundtrip assms unfolding parseDiagramOperation_def diagram_json_def by blast
  moreover from this have "length bs = length (stringify (diagram_json op))"
    using diagram.op.encode_accepted [OF assms(1) [unfolded parseDiagramOperation_def]]
    by (auto simp: parseDiagramOperation_def diagram_json_def text_encode_def str_bytes_def)
  ultimately show "\<exists>bs. encodeDiagramOperation op = Inr bs \<and> decodeDiagramBytes bs = Some op"
    by (auto simp: encodeDiagramOperation_def decodeDiagramBytes_def)
qed (simp add: encodeDiagram_accepted [OF assms(1)])

definition sample_lock :: diagram_operation where
  "sample_lock = \<lparr>op_id = ''000102030405060708090a0b0c0d0e0f'', op_epoch = 3, op_author = ''00000000000000aa'',
     op_payload = Diagram_Lock ''Task_7'' True\<rparr>"

lemma sample_lock_accepted: "parseDiagramOperation (diagram_json sample_lock) = Some sample_lock"
  by (simp add: sample_lock_def parseDiagramOperation_def parse_op_def diagram_json_def op_json_def op_object_def
      OP_FIELDS_def peer_field_def parse_diagram_payload_def parse_lock_payload_def ELEMENT_ID_def element_char_def
      OP_ID_def PEER_ID_def matches_def lower_hex_def js_simps MAX_SAFE_INTEGER_def)

lemma sample_lock_utf8: "js_utf8 (diagram_json sample_lock)"
  by (auto simp: sample_lock_def diagram_json_def op_json_def op_object_def intro!: ascii_utf8_ok)
    (simp_all add: ascii_def)

lemma sample_lock_fits: "length (stringify (diagram_json sample_lock)) \<le> MAX_ENCODED_BYTES"
  by (simp add: sample_lock_def diagram_json_def op_json_def op_object_def MAX_ENCODED_BYTES_def json_quote_def
      json_escape_def Let_def int_str_def nat_str.simps)

end
