(* ===== verification/Diagram.thy ===== *)
theory Diagram
  imports Diagram_Contract
begin

text \<open>
  \<^verbatim>\<open>webrtc/diagram-overlay.ts\<close> and \<^verbatim>\<open>webrtc/diagram.service.ts\<close>: one document per tool and the choice of
  tool, merged by revision and author, and locks on elements that expire. The clock and the random bytes
  are arguments; the debounce timer is a flag and its firing an operation.
\<close>

subsection \<open>Merging\<close>

record diagram_doc =
  dd_tool :: diagram_tool
  dd_xml :: string
  dd_revision :: nat
  dd_authorPeerId :: string

record diagram_tool_state =
  dt_tool :: diagram_tool
  dt_revision :: nat
  dt_authorPeerId :: string

record lock_entry =
  le_owner :: string
  le_expiresAt :: int

type_synonym locks = "(string \<times> lock_entry) list"

text \<open>\<open>winsDiagramLww\<close> on the revisions and authors of the current and the incoming value.\<close>

definition winsDiagramLww :: "(nat \<times> string) option \<Rightarrow> nat \<times> string \<Rightarrow> bool" where
  "winsDiagramLww current incoming =
     (case current of
        None \<Rightarrow> True
      | Some c \<Rightarrow> if fst incoming \<noteq> fst c then fst incoming > fst c else snd incoming > snd c)"

definition diagramDocFromOperation :: "diagram_operation \<Rightarrow> diagram_doc option" where
  "diagramDocFromOperation op =
     (case op_payload op of
        Diagram_Snapshot t xml rv \<Rightarrow>
          Some \<lparr>dd_tool = t, dd_xml = xml, dd_revision = rv, dd_authorPeerId = op_author op\<rparr>
      | Diagram_Sync_Response t xml rv author \<Rightarrow>
          Some \<lparr>dd_tool = t, dd_xml = xml, dd_revision = rv, dd_authorPeerId = author\<rparr>
      | _ \<Rightarrow> None)"

definition diagramToolStateFromOperation :: "diagram_operation \<Rightarrow> diagram_tool_state option" where
  "diagramToolStateFromOperation op =
     (case op_payload op of
        Diagram_Tool t rv \<Rightarrow> Some \<lparr>dt_tool = t, dt_revision = rv, dt_authorPeerId = op_author op\<rparr>
      | _ \<Rightarrow> None)"

definition bulk_kind :: "diagram_payload \<Rightarrow> bool" where
  "bulk_kind p = (case p of Diagram_Snapshot _ _ _ \<Rightarrow> True | Diagram_Sync_Response _ _ _ _ \<Rightarrow> True | _ \<Rightarrow> False)"

definition ingestDiagramDelivery :: "delivery \<Rightarrow> int \<Rightarrow> string list \<Rightarrow> string list \<Rightarrow> diagram_operation option" where
  "ingestDiagramDelivery d epoch known seen =
     (if dl_class d \<noteq> Bulk \<and> dl_class d \<noteq> Event then None
      else case decodeDiagramBytes (dl_data d) of None \<Rightarrow> None
      | Some op \<Rightarrow>
        if bulk_kind (op_payload op) \<noteq> (dl_class d = Bulk) then None
        else admit epoch known seen (dl_origin d) op)"

definition applyDiagramLock :: "locks \<Rightarrow> string \<Rightarrow> string \<Rightarrow> bool \<Rightarrow> int \<Rightarrow> locks" where
  "applyDiagramLock locks author elementId locked now =
     (case map_of locks elementId of
        None \<Rightarrow>
          if locked then map_set elementId \<lparr>le_owner = author, le_expiresAt = now + LOCK_TTL_MS\<rparr> locks else locks
      | Some current \<Rightarrow>
          if locked then
            if le_owner current = author \<or> le_expiresAt current \<le> now
            then map_set elementId \<lparr>le_owner = author, le_expiresAt = now + LOCK_TTL_MS\<rparr> locks
            else locks
          else if le_owner current = author then map_delete elementId locks
          else locks)"

definition pruneDiagramLocks :: "locks \<Rightarrow> int \<Rightarrow> locks" where
  "pruneDiagramLocks locks now = filter (\<lambda>(e, entry). now < le_expiresAt entry) locks"

definition authorizedDiagramEditorPeerIds ::
  "participant list \<Rightarrow> string \<Rightarrow> draw_policy \<Rightarrow> string list \<Rightarrow> string list" where
  "authorizedDiagramEditorPeerIds participants presenterPeerId policy known =
     (if policy = Open_Policy then known
      else
        (let owners = foldl (\<lambda>acc p. if pt_role p = Owner then set_add (pt_peerId p) acc else acc) [] participants in
         if presenterPeerId \<noteq> '''' \<and> presenterPeerId \<in> set known then set_add presenterPeerId owners else owners))"

subsection \<open>The service\<close>

record diagram_service =
  dg_docs :: "(diagram_tool \<times> diagram_doc) list"
  dg_toolState :: "diagram_tool_state option"
  dg_locks :: locks
  dg_lastDelivery :: int
  dg_seen :: "string list"
  dg_hasRequestedSync :: bool
  dg_wasJoined :: bool
  dg_pendingSnapshot :: "(diagram_tool \<times> string) option"
  dg_publishTimer :: bool

definition new_diagram_service :: diagram_service where
  "new_diagram_service =
     \<lparr>dg_docs = [], dg_toolState = None, dg_locks = [], dg_lastDelivery = 0, dg_seen = [],
      dg_hasRequestedSync = False, dg_wasJoined = False, dg_pendingSnapshot = None, dg_publishTimer = False\<rparr>"

definition activeTool :: "diagram_service \<Rightarrow> diagram_tool" where
  "activeTool s = (case dg_toolState s of None \<Rightarrow> Bpmn | Some t \<Rightarrow> dt_tool t)"

definition diagram_canEdit :: "room \<Rightarrow> bool" where
  "diagram_canEdit r =
     (if \<not> rm_joined r then True
      else if md_diagramPolicy (rm_moderation r) = Open_Policy then True
      else ownRole (rm_moderation r) = Owner \<or> ownPresenter (rm_moderation r))"

definition put_doc :: "diagram_doc \<Rightarrow> (diagram_tool \<times> diagram_doc) list \<Rightarrow> (diagram_tool \<times> diagram_doc) list" where
  "put_doc doc docs =
     (if \<not> winsDiagramLww (map_option (\<lambda>d. (dd_revision d, dd_authorPeerId d)) (map_of docs (dd_tool doc)))
           (dd_revision doc, dd_authorPeerId doc)
      then docs else map_set (dd_tool doc) doc docs)"

definition put_tool :: "diagram_tool_state \<Rightarrow> diagram_tool_state option \<Rightarrow> diagram_tool_state option" where
  "put_tool state current =
     (if winsDiagramLww (map_option (\<lambda>t. (dt_revision t, dt_authorPeerId t)) current) (dt_revision state, dt_authorPeerId state)
      then Some state else current)"

definition diagram_apply :: "int \<Rightarrow> diagram_service \<Rightarrow> diagram_operation \<Rightarrow> diagram_service" where
  "diagram_apply now s op =
     (case op_payload op of
        Diagram_Lock e l \<Rightarrow> s\<lparr>dg_locks := applyDiagramLock (dg_locks s) (op_author op) e l now\<rparr>
      | Diagram_Tool _ _ \<Rightarrow>
          (case diagramToolStateFromOperation op of None \<Rightarrow> s
           | Some state \<Rightarrow> s\<lparr>dg_toolState := put_tool state (dg_toolState s)\<rparr>)
      | Diagram_Sync_Request \<Rightarrow> s
      | _ \<Rightarrow>
          (case diagramDocFromOperation op of None \<Rightarrow> s
           | Some doc \<Rightarrow> s\<lparr>dg_docs := put_doc doc (dg_docs s)\<rparr>))"

definition DEFAULT_AUTHOR :: string where
  "DEFAULT_AUTHOR = ''0123456789abcdef''"

definition own_author :: "room \<Rightarrow> string" where
  "own_author r = (if rm_peerId r = '''' then DEFAULT_AUTHOR else rm_peerId r)"

definition diagram_object :: "room \<Rightarrow> bytes \<Rightarrow> string \<Rightarrow> jsval \<Rightarrow> jsval" where
  "diagram_object r rnd kind payload =
     op_object ''diagram-op'' (opId rnd) (max 1 (rm_epoch r)) (own_author r) kind payload"

text \<open>\<open>emit\<close>, with the result its callers turn into a truth value. The state is set before the operation
  is encoded for the peers, and encoding may throw.\<close>

definition diagram_emit ::
  "room \<Rightarrow> bytes \<Rightarrow> int \<Rightarrow> string \<Rightarrow> jsval \<Rightarrow> traffic_class \<Rightarrow> diagram_service \<Rightarrow> diagram_service outcome" where
  "diagram_emit r rnd now kind payload cls s =
     (case parseDiagramOperation (diagram_object r rnd kind payload) of
        None \<Rightarrow> (Inr False, s, [])
      | Some op \<Rightarrow>
        (let s1 = diagram_apply now (s\<lparr>dg_seen := set_add (op_id op) (dg_seen s)\<rparr>) op in
         if rm_joined r then
           case encodeDiagramOperation op of
             Inl err \<Rightarrow> (Inl err, s1, [])
           | Inr bs \<Rightarrow> (Inr True, s1, broadcast r bs cls)
         else (Inr True, s1, [])))"

definition publishSnapshot ::
  "room \<Rightarrow> bytes \<Rightarrow> int \<Rightarrow> diagram_tool \<Rightarrow> string \<Rightarrow> diagram_service \<Rightarrow> diagram_service outcome" where
  "publishSnapshot r rnd now t xml s =
     (if \<not> diagram_canEdit r then (Inr False, s, [])
      else
        (let revision = (case map_of (dg_docs s) t of None \<Rightarrow> 0 | Some d \<Rightarrow> dd_revision d) + 1 in
         diagram_emit r rnd now ''snapshot''
           (JObj [(''tool'', JStr (tool_name t)), (''xml'', JStr xml), (''revision'', JInt (int revision))]) Bulk s))"

definition scheduleSnapshot :: "room \<Rightarrow> diagram_tool \<Rightarrow> string \<Rightarrow> diagram_service \<Rightarrow> diagram_service" where
  "scheduleSnapshot r t xml s =
     (if \<not> diagram_canEdit r then s else s\<lparr>dg_pendingSnapshot := Some (t, xml), dg_publishTimer := True\<rparr>)"

definition publish_pending :: "room \<Rightarrow> bytes \<Rightarrow> int \<Rightarrow> diagram_service \<Rightarrow> diagram_service outcome" where
  "publish_pending r rnd now s =
     (let s1 = s\<lparr>dg_publishTimer := False, dg_pendingSnapshot := None\<rparr> in
      case dg_pendingSnapshot s of
        None \<Rightarrow> (Inr True, s1, [])
      | Some (t, xml) \<Rightarrow> publishSnapshot r rnd now t xml s1)"

text \<open>The timer fires only while it is armed.\<close>

definition publish_timer :: "room \<Rightarrow> bytes \<Rightarrow> int \<Rightarrow> diagram_service \<Rightarrow> diagram_service outcome" where
  "publish_timer r rnd now s = (if dg_publishTimer s then publish_pending r rnd now s else (Inr True, s, []))"

definition flushSnapshot :: "room \<Rightarrow> bytes \<Rightarrow> int \<Rightarrow> diagram_service \<Rightarrow> diagram_service outcome" where
  "flushSnapshot r rnd now s = (if \<not> dg_publishTimer s then (Inr True, s, []) else publish_pending r rnd now s)"

definition setTool :: "room \<Rightarrow> bytes \<Rightarrow> int \<Rightarrow> diagram_tool \<Rightarrow> diagram_service \<Rightarrow> diagram_service outcome" where
  "setTool r rnd now t s =
     (if \<not> diagram_canEdit r then (Inr False, s, [])
      else
        (let revision = (case dg_toolState s of None \<Rightarrow> 0 | Some d \<Rightarrow> dt_revision d) + 1 in
         diagram_emit r rnd now ''tool'' (JObj [(''tool'', JStr (tool_name t)), (''revision'', JInt (int revision))]) Event s))"

definition setLock :: "room \<Rightarrow> bytes \<Rightarrow> int \<Rightarrow> string \<Rightarrow> bool \<Rightarrow> diagram_service \<Rightarrow> diagram_service outcome" where
  "setLock r rnd now elementId locked s =
     (if \<not> diagram_canEdit r then (Inr False, s, [])
      else diagram_emit r rnd now ''lock'' (JObj [(''elementId'', JStr elementId), (''locked'', JBool locked)]) Event s)"

definition diagram_requestSync :: "room \<Rightarrow> bytes \<Rightarrow> int \<Rightarrow> diagram_service \<Rightarrow> diagram_service outcome" where
  "diagram_requestSync r rnd now s =
     (if \<not> rm_joined r \<or> rm_epoch r < 1 then (Inr False, s, [])
      else diagram_emit r rnd now ''sync-request'' (JObj []) Event s)"

definition diagram_shouldRespond :: "room \<Rightarrow> bool" where
  "diagram_shouldRespond r =
     (if ownRole (rm_moderation r) = Owner then True
      else
        (let owners = map pt_peerId (filter (\<lambda>p. pt_role p = Owner) (md_participants (rm_moderation r))) in
         \<not> list_ex (\<lambda>p. p \<in> set owners) (rm_peers r)))"

text \<open>The answer to a request: the tool under the answering peer's id, then the document.\<close>

definition answer_tool ::
  "room \<Rightarrow> bytes \<Rightarrow> string \<Rightarrow> diagram_service \<Rightarrow> (string + outgoing list) \<times> diagram_service" where
  "answer_tool r rnd origin s =
     (case dg_toolState s of
        None \<Rightarrow> (Inr [], s)
      | Some state \<Rightarrow>
        (case parseDiagramOperation (diagram_object r rnd ''tool''
            (JObj [(''tool'', JStr (tool_name (dt_tool state))), (''revision'', JInt (int (dt_revision state)))])) of
           None \<Rightarrow> (Inr [], s)
         | Some op \<Rightarrow>
           (let s1 = s\<lparr>dg_seen := set_add (op_id op) (dg_seen s)\<rparr> in
            case encodeDiagramOperation op of Inl err \<Rightarrow> (Inl err, s1) | Inr bs \<Rightarrow> (Inr [(origin, bs, Event)], s1))))"

definition respondToSync ::
  "room \<Rightarrow> bytes \<Rightarrow> bytes \<Rightarrow> string \<Rightarrow> diagram_service \<Rightarrow> diagram_service outcome" where
  "respondToSync r rnd1 rnd2 origin s =
     (if \<not> diagram_shouldRespond r then (Inr True, s, [])
      else case map_of (dg_docs s) (activeTool s) of
        None \<Rightarrow> (Inr True, s, [])
      | Some doc \<Rightarrow>
        (case answer_tool r rnd1 origin s of
           (Inl err, s1) \<Rightarrow> (Inl err, s1, [])
         | (Inr out, s1) \<Rightarrow>
           (case parseDiagramOperation (diagram_object r rnd2 ''sync-response''
               (JObj [(''tool'', JStr (tool_name (dd_tool doc))), (''xml'', JStr (dd_xml doc)),
                      (''revision'', JInt (int (dd_revision doc))), (''docAuthor'', JStr (dd_authorPeerId doc))])) of
              None \<Rightarrow> (Inr True, s1, out)
            | Some response \<Rightarrow>
              (let s2 = s1\<lparr>dg_seen := set_add (op_id response) (dg_seen s1)\<rparr> in
               case encodeDiagramOperation response of
                 Inl err \<Rightarrow> (Inl err, s2, out)
               | Inr bs \<Rightarrow> (Inr True, s2, out @ [(origin, bs, Bulk)])))))"

definition diagram_authorized :: "room \<Rightarrow> string list" where
  "diagram_authorized r =
     authorizedDiagramEditorPeerIds (md_participants (rm_moderation r)) (md_presenterPeerId (rm_moderation r))
       (md_diagramPolicy (rm_moderation r)) (known_peers r)"

definition diagram_ingest ::
  "room \<Rightarrow> delivery \<Rightarrow> bytes \<Rightarrow> bytes \<Rightarrow> int \<Rightarrow> diagram_service \<Rightarrow> diagram_service outcome" where
  "diagram_ingest r d rnd1 rnd2 now s =
     (if dl_origin d \<in> set (rm_machines r) then (Inr False, s, [])
      else case ingestDiagramDelivery d (rm_epoch r) (known_peers r) (dg_seen s) of
        None \<Rightarrow> (Inr False, s, [])
      | Some op \<Rightarrow>
        (let s1 = s\<lparr>dg_seen := set_add (op_id op) (dg_seen s)\<rparr> in
         if op_payload op = Diagram_Sync_Request then respondToSync r rnd1 rnd2 (dl_origin d) s1
         else if op_author op \<notin> set (diagram_authorized r) then (Inr False, s1, [])
         else (Inr True, diagram_apply now s1 op, [])))"

definition diagram_reset :: "diagram_service \<Rightarrow> diagram_service" where
  "diagram_reset s = new_diagram_service\<lparr>dg_wasJoined := dg_wasJoined s\<rparr>"

definition diagram_prune :: "int \<Rightarrow> diagram_service \<Rightarrow> diagram_service" where
  "diagram_prune now s = s\<lparr>dg_locks := pruneDiagramLocks (dg_locks s) now\<rparr>"

fun diagram_deliveries ::
  "room \<Rightarrow> int \<Rightarrow> (delivery \<times> bytes \<times> bytes) list \<Rightarrow> diagram_service \<Rightarrow> diagram_service outcome" where
  "diagram_deliveries r now [] s = (Inr True, s, [])"
| "diagram_deliveries r now ((d, rnd1, rnd2) # ds) s =
     (if dl_id d \<le> dg_lastDelivery s then diagram_deliveries r now ds s
      else case diagram_ingest r d rnd1 rnd2 now (s\<lparr>dg_lastDelivery := dl_id d\<rparr>) of
        (Inl err, s', out) \<Rightarrow> (Inl err, s', out)
      | (Inr _, s', out) \<Rightarrow> (case diagram_deliveries r now ds s' of (res, s'', out') \<Rightarrow> (res, s'', out @ out')))"

definition diagram_effect ::
  "room \<Rightarrow> int \<Rightarrow> (delivery \<times> bytes \<times> bytes) list \<Rightarrow> bytes \<Rightarrow> diagram_service \<Rightarrow> diagram_service outcome" where
  "diagram_effect r now ds rnd s =
     (if \<not> rm_joined r then
        (Inr True, if dg_wasJoined s then diagram_reset (s\<lparr>dg_wasJoined := False\<rparr>) else s, [])
      else case diagram_deliveries r now ds (s\<lparr>dg_wasJoined := True\<rparr>) of
        (Inl err, s1, out) \<Rightarrow> (Inl err, s1, out)
      | (Inr _, s1, out) \<Rightarrow>
        if \<not> dg_hasRequestedSync s1 \<and> dg_docs s1 = [] \<and> rm_peers r \<noteq> [] then
          case diagram_requestSync r rnd now (s1\<lparr>dg_hasRequestedSync := True\<rparr>) of (res, s2, out') \<Rightarrow> (res, s2, out @ out')
        else (Inr True, s1, out))"

definition diagram_destroy :: "diagram_service \<Rightarrow> diagram_service" where
  "diagram_destroy s = diagram_reset (s\<lparr>dg_publishTimer := False\<rparr>)"

end
