(* ===== verification/Diagram_Laws.thy ===== *)
theory Diagram_Laws
  imports Diagram
begin

text \<open>
  Properties of the diagrams: locks are exclusive until they expire, replicas converge, only authorised
  peers edit, and a document that does not fit the wire stays local.
\<close>

subsection \<open>Locks\<close>

datatype lock_event = Lock_Request string string bool int | Lock_Prune int

fun lock_step :: "locks \<Rightarrow> lock_event \<Rightarrow> locks" where
  "lock_step ls (Lock_Request author e l now) = applyDiagramLock ls author e l now"
| "lock_step ls (Lock_Prune now) = pruneDiagramLocks ls now"

fun lock_time :: "lock_event \<Rightarrow> int" where
  "lock_time (Lock_Request _ _ _ now) = now"
| "lock_time (Lock_Prune now) = now"

fun lock_author :: "lock_event \<Rightarrow> string option" where
  "lock_author (Lock_Request author _ _ _) = Some author"
| "lock_author (Lock_Prune _) = None"

lemma map_of_filter_keep: "map_of xs k = Some v \<Longrightarrow> P (k, v) \<Longrightarrow> map_of (filter P xs) k = Some v"
  by (induction xs) (auto split: if_splits)

lemma lock_step_keeps:
  assumes "map_of ls e = Some entry" and "lock_time ev < le_expiresAt entry" and "lock_author ev \<noteq> Some (le_owner entry)"
  shows "map_of (lock_step ls ev) e = Some entry"
proof (cases ev)
  case (Lock_Request author e' l now)
  then show ?thesis
    using assms by (cases "e' = e") (auto simp: applyDiagramLock_def split: option.split)
next
  case (Lock_Prune now)
  then show ?thesis using assms by (auto simp: pruneDiagramLocks_def intro: map_of_filter_keep)
qed

text \<open>C26. A lock on an element is exclusive and temporary: until it expires, no sequence of lock and
  unlock operations of other peers, on any elements, and no pruning takes it away or extends it; from the
  moment it expires, the next peer that asks for it gets it, for the lifetime of a lock.\<close>

theorem diagram_lock_exclusive:
  assumes "map_of ls e = Some entry"
    and "\<forall>ev \<in> set evs. lock_time ev < le_expiresAt entry \<and> lock_author ev \<noteq> Some (le_owner entry)"
    and "le_expiresAt entry \<le> now"
  shows "map_of (foldl lock_step ls evs) e = Some entry
    \<and> map_of (applyDiagramLock (foldl lock_step ls evs) peer e True now) e =
        Some \<lparr>le_owner = peer, le_expiresAt = now + LOCK_TTL_MS\<rparr>"
proof -
  have held: "map_of (foldl lock_step ls evs) e = Some entry"
    using assms(1,2) by (induction evs arbitrary: ls) (auto simp: lock_step_keeps)
  then show ?thesis using assms(3) by (simp add: applyDiagramLock_def)
qed

theorem diagram_lock_exclusive_witness:
  "map_of (applyDiagramLock (foldl lock_step [(''Task'', \<lparr>le_owner = ''ann'', le_expiresAt = 60000\<rparr>)]
      [Lock_Request ''bob'' ''Task'' True 100, Lock_Prune 200, Lock_Request ''bob'' ''Task'' False 300]) ''bob'' ''Task'' True 60000) ''Task'' =
    Some \<lparr>le_owner = ''bob'', le_expiresAt = 60000 + LOCK_TTL_MS\<rparr>"
  by (rule conjunct2 [OF diagram_lock_exclusive]) auto

subsection \<open>Convergence\<close>

definition doc_key :: "diagram_doc option \<Rightarrow> (nat \<times> string) option" where
  "doc_key = map_option (\<lambda>d. (dd_revision d, dd_authorPeerId d))"

definition doc_merge :: "diagram_doc option \<Rightarrow> diagram_doc \<Rightarrow> diagram_doc option" where
  "doc_merge current doc =
     (if winsDiagramLww (doc_key current) (dd_revision doc, dd_authorPeerId doc) then Some doc else current)"

definition tool_key :: "diagram_tool_state option \<Rightarrow> (nat \<times> string) option" where
  "tool_key = map_option (\<lambda>t. (dt_revision t, dt_authorPeerId t))"

lemma wins_less: "winsDiagramLww current incoming \<longleftrightarrow> current < Some incoming"
  by (cases current) (auto simp: winsDiagramLww_def less_prod_def')

interpretation doc_lww: lww doc_merge doc_key "\<lambda>d. doc_key (Some d)" Some
  by unfold_locales (auto simp: doc_merge_def wins_less doc_key_def)

interpretation tool_lww: lww "\<lambda>s t. put_tool t s" tool_key "\<lambda>t. tool_key (Some t)" Some
  by unfold_locales (auto simp: put_tool_def wins_less tool_key_def)

lemma map_of_put_doc:
  "map_of (put_doc doc docs) t = (if dd_tool doc = t then doc_merge (map_of docs t) doc else map_of docs t)"
  by (auto simp: put_doc_def doc_merge_def doc_key_def)

text \<open>The documents of one tool, and the choices of tool, in a list of operations.\<close>

definition docs_for :: "diagram_tool \<Rightarrow> diagram_operation list \<Rightarrow> diagram_doc list" where
  "docs_for t ops = filter (\<lambda>d. dd_tool d = t) (List.map_filter diagramDocFromOperation ops)"

definition tools_in :: "diagram_operation list \<Rightarrow> diagram_tool_state list" where
  "tools_in ops = List.map_filter diagramToolStateFromOperation ops"

definition run_diagram :: "diagram_service \<Rightarrow> (int \<times> diagram_operation) list \<Rightarrow> diagram_service" where
  "run_diagram s evs = foldl (\<lambda>s (now, op). diagram_apply now s op) s evs"

lemma diagram_apply_docs:
  "map_of (dg_docs (diagram_apply now s op)) t = foldl doc_merge (map_of (dg_docs s) t) (docs_for t [op])"
  by (cases "op_payload op")
    (auto simp: diagram_apply_def docs_for_def map_filter_simps diagramDocFromOperation_def diagramToolStateFromOperation_def map_of_put_doc)

lemma diagram_apply_tool:
  "dg_toolState (diagram_apply now s op) = foldl (\<lambda>s t. put_tool t s) (dg_toolState s) (tools_in [op])"
  by (cases "op_payload op")
    (auto simp: diagram_apply_def tools_in_def map_filter_simps diagramDocFromOperation_def diagramToolStateFromOperation_def)

lemma docs_for_Cons: "docs_for t (op # ops) = docs_for t [op] @ docs_for t ops"
  by (auto simp: docs_for_def map_filter_simps split: option.split)

lemma tools_in_Cons: "tools_in (op # ops) = tools_in [op] @ tools_in ops"
  by (auto simp: tools_in_def map_filter_simps split: option.split)

lemma run_diagram_eq:
  "map_of (dg_docs (run_diagram s evs)) t = foldl doc_merge (map_of (dg_docs s) t) (docs_for t (map snd evs))"
  "dg_toolState (run_diagram s evs) = foldl (\<lambda>s t. put_tool t s) (dg_toolState s) (tools_in (map snd evs))"
proof -
  have "map_of (dg_docs (run_diagram s evs)) t = foldl doc_merge (map_of (dg_docs s) t) (docs_for t (map snd evs))
    \<and> dg_toolState (run_diagram s evs) = foldl (\<lambda>s t. put_tool t s) (dg_toolState s) (tools_in (map snd evs))"
  proof (induction evs arbitrary: s)
    case Nil
    show ?case by (simp add: run_diagram_def docs_for_def tools_in_def map_filter_simps)
  next
    case (Cons ev evs)
    obtain now op where ev: "ev = (now, op)" by (cases ev)
    have "run_diagram s (ev # evs) = run_diagram (diagram_apply now s op) evs" by (simp add: run_diagram_def ev)
    then show ?case
      using Cons.IH [of "diagram_apply now s op"] docs_for_Cons [of t op "map snd evs"] tools_in_Cons [of op "map snd evs"]
      by (simp add: ev diagram_apply_docs diagram_apply_tool)
  qed
  then show "map_of (dg_docs (run_diagram s evs)) t = foldl doc_merge (map_of (dg_docs s) t) (docs_for t (map snd evs))"
    and "dg_toolState (run_diagram s evs) = foldl (\<lambda>s t. put_tool t s) (dg_toolState s) (tools_in (map snd evs))" by auto
qed

lemma set_map_filter: "set (List.map_filter f xs) = {y. \<exists>x \<in> set xs. f x = Some y}"
  by (induction xs) (auto simp: map_filter_simps split: option.split)

lemma set_docs_for: "set (docs_for t ops) = {d. dd_tool d = t \<and> (\<exists>op \<in> set ops. diagramDocFromOperation op = Some d)}"
  by (auto simp: docs_for_def set_map_filter)

lemma set_tools_in: "set (tools_in ops) = {t. \<exists>op \<in> set ops. diagramToolStateFromOperation op = Some t}"
  by (auto simp: tools_in_def set_map_filter)

text \<open>The documents of a tool, and the choices of tool, that carry the winning revision and author.\<close>

abbreviation doc_wins :: "diagram_service \<Rightarrow> diagram_tool \<Rightarrow> diagram_operation list \<Rightarrow> diagram_doc \<Rightarrow> bool" where
  "doc_wins s t ops \<equiv> lww_wins (\<lambda>d. doc_key (Some d)) (doc_key (map_of (dg_docs s) t)) (docs_for t ops)"

abbreviation tool_wins :: "diagram_service \<Rightarrow> diagram_operation list \<Rightarrow> diagram_tool_state \<Rightarrow> bool" where
  "tool_wins s ops \<equiv> lww_wins (\<lambda>d. tool_key (Some d)) (tool_key (dg_toolState s)) (tools_in ops)"

text \<open>Two clients apply the same operations, each at its own times.\<close>

definition same_ops :: "(int \<times> diagram_operation) list \<Rightarrow> (int \<times> diagram_operation) list \<Rightarrow> bool" where
  "same_ops evs evs' \<longleftrightarrow> snd ` set evs = snd ` set evs'"

lemma same_ops_sets:
  assumes "same_ops evs evs'"
  shows "set (docs_for t (map snd evs)) = set (docs_for t (map snd evs'))" "set (tools_in (map snd evs)) = set (tools_in (map snd evs'))"
  using assms by (simp_all only: same_ops_def set_docs_for set_tools_in set_map)

lemma doc_first:
  assumes "d \<in> set (docs_for t (map snd evs))"
  shows "\<exists>evs'. same_ops evs' evs \<and> docs_for t (map snd evs') = d # docs_for t (map snd evs)"
proof -
  obtain op where op: "op \<in> snd ` set evs" "diagramDocFromOperation op = Some d" "dd_tool d = t" using assms by (auto simp: set_docs_for)
  then have "docs_for t (map snd ((0, op) # evs)) = d # docs_for t (map snd evs)" by (simp add: docs_for_def map_filter_simps)
  moreover have "same_ops ((0, op) # evs) evs" using op(1) by (auto simp: same_ops_def)
  ultimately show ?thesis by blast
qed

lemma tool_first:
  assumes "d \<in> set (tools_in (map snd evs))"
  shows "\<exists>evs'. same_ops evs' evs \<and> tools_in (map snd evs') = d # tools_in (map snd evs)"
proof -
  obtain op where op: "op \<in> snd ` set evs" "diagramToolStateFromOperation op = Some d" using assms by (auto simp: set_tools_in)
  then have "tools_in (map snd ((0, op) # evs)) = d # tools_in (map snd evs)" by (simp add: tools_in_def map_filter_simps)
  moreover have "same_ops ((0, op) # evs) evs" using op(1) by (auto simp: same_ops_def)
  ultimately show ?thesis by blast
qed

lemma docs_converge:
  "(\<forall>evs'. same_ops evs' evs \<longrightarrow> map_of (dg_docs (run_diagram s evs')) t = map_of (dg_docs (run_diagram s evs)) t)
     \<longleftrightarrow> (\<forall>d e. doc_wins s t (map snd evs) d \<and> doc_wins s t (map snd evs) e \<longrightarrow> d = e)"
  unfolding run_diagram_eq
  using doc_lww.converge_iff [of "\<lambda>evs'. same_ops evs' evs" "\<lambda>evs'. docs_for t (map snd evs')", OF same_ops_sets(1) doc_first] by simp

lemma tools_converge:
  "(\<forall>evs'. same_ops evs' evs \<longrightarrow> dg_toolState (run_diagram s evs') = dg_toolState (run_diagram s evs))
     \<longleftrightarrow> (\<forall>d e. tool_wins s (map snd evs) d \<and> tool_wins s (map snd evs) e \<longrightarrow> d = e)"
  unfolding run_diagram_eq
  using tool_lww.converge_iff [of "\<lambda>evs'. same_ops evs' evs" "\<lambda>evs'. tools_in (map snd evs')", OF same_ops_sets(2) tool_first] by simp

text \<open>C27. When replicas of the diagrams converge. Clients that start from the same diagrams and apply the same operations, in any
  order, at any times and with any repetitions, always agree, for each tool, on the revision and author of its document,
  and on the revision and author of the choice of tool: the greatest revision wins, ties go to the greater peer id. They
  all hold the same document of a tool exactly when the operations carry one document of the tool with the winning
  revision and author, and the same choice of tool exactly when they carry one choice with the winning revision and
  author. An answer to a synchronisation request can break the second: it carries the choice of another author under the
  id and with the revision of the one who answers.\<close>

theorem diagrams_converge:
  "(\<forall>evs'. same_ops evs' evs \<longrightarrow>
      (\<forall>t. doc_key (map_of (dg_docs (run_diagram s evs')) t) =
         Max (insert (doc_key (map_of (dg_docs s) t)) ((\<lambda>d. doc_key (Some d)) ` set (docs_for t (map snd evs)))))
      \<and> tool_key (dg_toolState (run_diagram s evs')) =
         Max (insert (tool_key (dg_toolState s)) ((\<lambda>d. tool_key (Some d)) ` set (tools_in (map snd evs)))))
   \<and> (\<forall>t. (\<forall>evs'. same_ops evs' evs \<longrightarrow> map_of (dg_docs (run_diagram s evs')) t = map_of (dg_docs (run_diagram s evs)) t)
        \<longleftrightarrow> (\<forall>d e. doc_wins s t (map snd evs) d \<and> doc_wins s t (map snd evs) e \<longrightarrow> d = e))
   \<and> ((\<forall>evs'. same_ops evs' evs \<longrightarrow> dg_toolState (run_diagram s evs') = dg_toolState (run_diagram s evs))
        \<longleftrightarrow> (\<forall>d e. tool_wins s (map snd evs) d \<and> tool_wins s (map snd evs) e \<longrightarrow> d = e))"
proof -
  have "(\<forall>t. doc_key (map_of (dg_docs (run_diagram s evs')) t) =
         Max (insert (doc_key (map_of (dg_docs s) t)) ((\<lambda>d. doc_key (Some d)) ` set (docs_for t (map snd evs)))))
      \<and> tool_key (dg_toolState (run_diagram s evs')) =
         Max (insert (tool_key (dg_toolState s)) ((\<lambda>d. tool_key (Some d)) ` set (tools_in (map snd evs))))" if "same_ops evs' evs" for evs'
    unfolding run_diagram_eq doc_lww.fold_key tool_lww.fold_key same_ops_sets [OF that] by blast
  then show ?thesis using docs_converge tools_converge by blast
qed

definition sample_snapshot :: "string \<Rightarrow> string \<Rightarrow> diagram_operation" where
  "sample_snapshot author xml = \<lparr>op_id = xml, op_epoch = 3, op_author = author, op_payload = Diagram_Snapshot Bpmn xml 4\<rparr>"

definition sample_tool :: "string \<Rightarrow> diagram_tool \<Rightarrow> diagram_operation" where
  "sample_tool name tool = \<lparr>op_id = name, op_epoch = 3, op_author = ''bob'', op_payload = Diagram_Tool tool 2\<rparr>"

text \<open>Documents of two authors converge; two choices of tool under one id and revision do not.\<close>

theorem diagrams_converge_witness:
  "map_of (dg_docs (run_diagram new_diagram_service [(5, sample_snapshot ''ann'' ''x''), (6, sample_snapshot ''bob'' ''y'')])) Bpmn
    = map_of (dg_docs (run_diagram new_diagram_service [(5, sample_snapshot ''bob'' ''y''), (9, sample_snapshot ''ann'' ''x'')])) Bpmn
   \<and> (\<exists>evs'. same_ops evs' [(5, sample_tool ''1'' Bpmn), (6, sample_tool ''2'' Drawio)] \<and>
      dg_toolState (run_diagram new_diagram_service evs')
        \<noteq> dg_toolState (run_diagram new_diagram_service [(5, sample_tool ''1'' Bpmn), (6, sample_tool ''2'' Drawio)]))"
proof
  let ?evs = "[(5, sample_snapshot ''bob'' ''y''), (9, sample_snapshot ''ann'' ''x'')]"
  have one: "\<forall>d e. doc_wins new_diagram_service Bpmn (map snd ?evs) d \<and> doc_wins new_diagram_service Bpmn (map snd ?evs) e \<longrightarrow> d = e"
    by (auto simp: lww_wins_def docs_for_def map_filter_simps sample_snapshot_def diagramDocFromOperation_def doc_key_def)
  have "same_ops [(5, sample_snapshot ''ann'' ''x''), (6, sample_snapshot ''bob'' ''y'')] ?evs" by (auto simp: same_ops_def)
  then show "map_of (dg_docs (run_diagram new_diagram_service [(5, sample_snapshot ''ann'' ''x''), (6, sample_snapshot ''bob'' ''y'')])) Bpmn
      = map_of (dg_docs (run_diagram new_diagram_service ?evs)) Bpmn"
    by (rule mp [OF spec [OF iffD2 [OF spec [OF conjunct1 [OF conjunct2 [OF diagrams_converge]]] one]]])
next
  let ?evs = "[(5, sample_tool ''1'' Bpmn), (6, sample_tool ''2'' Drawio)]"
  have "tool_wins new_diagram_service (map snd ?evs) \<lparr>dt_tool = tool, dt_revision = 2, dt_authorPeerId = ''bob''\<rparr>"
    if "tool = Bpmn \<or> tool = Drawio" for tool
    using that by (auto simp: lww_wins_def tools_in_def map_filter_simps sample_tool_def diagramToolStateFromOperation_def tool_key_def new_diagram_service_def)
  from this [of Bpmn] this [of Drawio]
  have "\<not> (\<forall>d e. tool_wins new_diagram_service (map snd ?evs) d \<and> tool_wins new_diagram_service (map snd ?evs) e \<longrightarrow> d = e)" by fastforce
  then have "\<not> (\<forall>evs'. same_ops evs' ?evs \<longrightarrow> dg_toolState (run_diagram new_diagram_service evs') = dg_toolState (run_diagram new_diagram_service ?evs))"
    by (simp only: conjunct2 [OF conjunct2 [OF diagrams_converge]] simp_thms)
  then show "\<exists>evs'. same_ops evs' ?evs \<and> dg_toolState (run_diagram new_diagram_service evs') \<noteq> dg_toolState (run_diagram new_diagram_service ?evs)"
    by blast
qed

subsection \<open>Authorisation\<close>

lemma foldl_owners:
  "set (foldl (\<lambda>acc p. if pt_role p = Owner then set_add (pt_peerId p) acc else acc) acc ps) =
     set acc \<union> {pt_peerId p |p. p \<in> set ps \<and> pt_role p = Owner}"
  by (induction ps arbitrary: acc) auto

lemma set_authorizedDiagram:
  "set (authorizedDiagramEditorPeerIds ps presenter policy known) =
     (if policy = Open_Policy then set known
      else {pt_peerId p |p. p \<in> set ps \<and> pt_role p = Owner} \<union> (if presenter \<noteq> '''' \<and> presenter \<in> set known then {presenter} else {}))"
  by (auto simp: authorizedDiagramEditorPeerIds_def foldl_owners Let_def)

lemma ingestDiagramDelivery_Some:
  "ingestDiagramDelivery d epoch known seen = Some op \<Longrightarrow>
     op_epoch op = epoch \<and> op_author op = dl_origin d \<and> dl_origin d \<in> set known \<and> op_id op \<notin> set seen"
  by (auto simp: ingestDiagramDelivery_def admit_Some_iff split: if_splits option.splits)

lemma respondToSync_keeps:
  "respondToSync r rnd1 rnd2 origin s = (res, s', out) \<Longrightarrow>
     dg_docs s' = dg_docs s \<and> dg_toolState s' = dg_toolState s \<and> dg_locks s' = dg_locks s \<and> set (dg_seen s) \<subseteq> set (dg_seen s')"
  by (auto simp: respondToSync_def answer_tool_def Let_def split: if_splits option.splits sum.splits prod.splits)

text \<open>C28. In a room where only presenters draw, nothing a peer sends changes the diagrams, the tool or the
  locks of a client unless the moderation state names that peer as an owner or as the presenter.\<close>

theorem diagram_edits_need_role:
  assumes "md_diagramPolicy (rm_moderation r) = Presenter_Only"
    and "dl_origin d \<noteq> md_presenterPeerId (rm_moderation r)"
    and "\<forall>p \<in> set (md_participants (rm_moderation r)). pt_peerId p = dl_origin d \<longrightarrow> pt_role p \<noteq> Owner"
    and "diagram_ingest r d rnd1 rnd2 now s = (res, s', out)"
  shows "dg_docs s' = dg_docs s \<and> dg_toolState s' = dg_toolState s \<and> dg_locks s' = dg_locks s"
proof -
  have "dl_origin d \<notin> set (diagram_authorized r)"
    using assms(1-3) by (auto simp: diagram_authorized_def set_authorizedDiagram)
  then show ?thesis
    using assms(4) respondToSync_keeps
    by (fastforce simp: diagram_ingest_def Let_def dest: ingestDiagramDelivery_Some split: if_splits option.splits)
qed

definition guarded_room :: room where
  "guarded_room = \<lparr>rm_joined = True, rm_peerId = ''00000000000000aa'', rm_epoch = 2, rm_peers = [''00000000000000bb''],
     rm_machines = [], rm_moderation = new_moderation\<lparr>md_diagramPolicy := Presenter_Only\<rparr>\<rparr>"

theorem diagram_edits_need_role_witness:
  "\<exists>res s' out. diagram_ingest guarded_room
      \<lparr>dl_id = 1, dl_origin = ''00000000000000bb'', dl_class = Event, dl_data = text_encode (stringify (diagram_json sample_lock))\<rparr>
      [] [] 0 new_diagram_service = (res, s', out) \<and> dg_locks s' = []"
proof -
  let ?d = "\<lparr>dl_id = 1, dl_origin = ''00000000000000bb'', dl_class = Event, dl_data = text_encode (stringify (diagram_json sample_lock))\<rparr>"
  obtain res s' out where g: "diagram_ingest guarded_room ?d [] [] 0 new_diagram_service = (res, s', out)"
    by (rule prod_cases3)
  have "dg_locks s' = dg_locks new_diagram_service"
    using diagram_edits_need_role [OF _ _ _ g] by (simp add: guarded_room_def new_moderation_def)
  then show ?thesis using g by (simp add: new_diagram_service_def)
qed

subsection \<open>Repeated operations\<close>

type_synonym diagram_delivery = "room \<times> delivery \<times> bytes \<times> bytes \<times> int"

definition diagram_handle :: "diagram_delivery \<Rightarrow> diagram_service \<Rightarrow> diagram_service" where
  "diagram_handle e s = (case e of (r, d, rnd1, rnd2, now) \<Rightarrow> fst (snd (diagram_ingest r d rnd1 rnd2 now s)))"

definition diagram_drops :: "diagram_delivery \<Rightarrow> diagram_service \<Rightarrow> bool" where
  "diagram_drops e s \<longleftrightarrow> (case e of (r, d, rnd1, rnd2, now) \<Rightarrow> diagram_ingest r d rnd1 rnd2 now s = (Inr False, s, []))"

definition diagram_carries :: "diagram_delivery \<Rightarrow> diagram_operation option" where
  "diagram_carries e = (case e of (r, d, rnd1, rnd2, now) \<Rightarrow> decodeDiagramBytes (dl_data d))"

lemma diagram_apply_seen [simp]: "dg_seen (diagram_apply now s op) = dg_seen s"
  by (auto simp: diagram_apply_def split: diagram_payload.split option.split)

lemma ingestDiagramDelivery_decoded:
  "ingestDiagramDelivery d epoch known seen = Some op \<Longrightarrow> decodeDiagramBytes (dl_data d) = Some op \<and> op_id op \<notin> set seen"
  by (auto simp: ingestDiagramDelivery_def admit_Some_iff split: if_splits option.splits)

lemma diagram_ingest_seen:
  assumes "dl_origin d \<notin> set (rm_machines r)" "ingestDiagramDelivery d (rm_epoch r) (known_peers r) (dg_seen s) = Some op"
  shows "insert (op_id op) (set (dg_seen s)) \<subseteq> set (dg_seen (fst (snd (diagram_ingest r d rnd1 rnd2 now s))))"
proof -
  have "set (dg_seen s1) \<subseteq> set (dg_seen (fst (snd (respondToSync r rnd1 rnd2 origin s1))))" for origin s1
    by (cases "respondToSync r rnd1 rnd2 origin s1") (auto dest: respondToSync_keeps)
  from this [of "s\<lparr>dg_seen := set_add (op_id op) (dg_seen s)\<rparr>" "dl_origin d"] assms show ?thesis
    by (auto simp: diagram_ingest_def Let_def)
qed

interpretation diagram_replay: replay_guard dg_seen diagram_handle diagram_drops diagram_carries "\<lambda>_. True"
proof unfold_locales
  fix e :: "diagram_delivery" and s :: diagram_service and op :: diagram_operation
  obtain r d rnd1 rnd2 now where e: "e = (r, d, rnd1, rnd2, now)" by (cases e)
  define refused where "refused \<longleftrightarrow> dl_origin d \<in> set (rm_machines r) \<or> ingestDiagramDelivery d (rm_epoch r) (known_peers r) (dg_seen s) = None"
  have drop: "diagram_drops e s" "diagram_handle e s = s" if refused
    using that by (auto simp: e diagram_drops_def diagram_handle_def diagram_ingest_def refused_def)
  have proc: "\<exists>op. decodeDiagramBytes (dl_data d) = Some op \<and> op_id op \<notin> set (dg_seen s) \<and> insert (op_id op) (set (dg_seen s)) \<subseteq> set (dg_seen (diagram_handle e s))"
    if "\<not> refused" using that diagram_ingest_seen ingestDiagramDelivery_decoded by (fastforce simp: e refused_def diagram_handle_def)
  show "\<not> diagram_drops e s \<Longrightarrow> diagram_carries e = Some op \<Longrightarrow> True \<Longrightarrow> op_id op \<in> set (dg_seen (diagram_handle e s))"
    using drop proc by (auto simp: e diagram_carries_def)
  show "set (dg_seen s) \<subseteq> set (dg_seen (diagram_handle e s))" using drop(2) proc by (cases refused) auto
  show "diagram_carries e = Some op \<Longrightarrow> op_id op \<in> set (dg_seen s) \<Longrightarrow> diagram_drops e s"
    using drop(1) proc by (cases refused) (auto simp: e diagram_carries_def)
qed

subsection \<open>Documents over the wire limit\<close>

text \<open>C29. The limits on a document do not fit: an XML text of at most 256 KiB passes validation, but JSON
  escapes its quotes and line breaks. When the text grows past the 260 KiB of the encoder that way,
  publishing throws after the local document was already replaced: the client keeps the new document and
  no peer receives it.\<close>

theorem large_diagram_stays_local:
  assumes "rm_joined r" and "diagram_canEdit r" and "random16 rnd" and "PEER_ID (own_author r)"
    and "rm_epoch r \<le> MAX_SAFE_INTEGER"
    and "case map_of (dg_docs s) t of None \<Rightarrow> True | Some d \<Rightarrow> int (dd_revision d) < MAX_SAFE_INTEGER"
    and "0 < js_length xml" and "length xml \<le> MAX_XML_BYTES" and "MAX_ENCODED_BYTES < length (json_quote xml)"
  shows "\<exists>s' doc. publishSnapshot r rnd now t xml s = (Inl ''invalid_diagram_operation'', s', [])
    \<and> map_of (dg_docs s') t = Some doc \<and> dd_xml doc = xml"
proof -
  define rv where "rv = Suc (case map_of (dg_docs s) t of None \<Rightarrow> 0 | Some d \<Rightarrow> dd_revision d)"
  define op where "op = \<lparr>op_id = opId rnd, op_epoch = max 1 (rm_epoch r), op_author = own_author r,
    op_payload = Diagram_Snapshot t xml rv\<rparr>"
  have "int rv \<le> MAX_SAFE_INTEGER" "1 \<le> rv"
    using assms(6) by (auto simp: rv_def MAX_SAFE_INTEGER_def split: option.splits)
  then have rev: "diagram_revision (JInt (int rv)) = Some rv" by (intro diagram_revision_JInt)
  have x: "diagram_xml (JStr xml) = Some xml" using assms(7,8) by (simp add: diagram_xml_def text_encode_def str_bytes_def)
  have parsed: "parseDiagramOperation (diagram_object r rnd ''snapshot''
      (JObj [(''tool'', JStr (tool_name t)), (''xml'', JStr xml), (''revision'', JInt (int rv))])) = Some op"
    unfolding parseDiagramOperation_def diagram_object_def
    using assms(3,4,5) rev x
    by (subst diagram.parse_op_object)
      (simp_all add: OP_ID_opId parse_diagram_payload_def parse_doc_payload_def js_simps op_def MAX_SAFE_INTEGER_def)
  have "MAX_ENCODED_BYTES < length (stringify (diagram_json op))"
    using assms(9) by (simp add: diagram_json_def op_json_def op_object_def op_def)
  then have enc: "encodeDiagramOperation op = Inl ''invalid_diagram_operation''"
    using encodeDiagram_accepted [OF parsed] by simp
  have "winsDiagramLww (map_option (\<lambda>d. (dd_revision d, dd_authorPeerId d)) (map_of (dg_docs s) t)) (rv, own_author r)"
    by (cases "map_of (dg_docs s) t") (simp_all add: winsDiagramLww_def rv_def)
  then show ?thesis
    using assms(1,2) parsed enc
    by (auto simp: publishSnapshot_def diagram_emit_def Let_def rv_def [symmetric] diagram_apply_def put_doc_def
        diagramDocFromOperation_def op_def)
qed

definition quotes :: string where
  "quotes = replicate 140000 (CHR 0x22)"

lemma quotes_facts: "length quotes = 140000" "js_length quotes = 140000" "length (json_quote quotes) = 280002"
proof -
  have "js_length (replicate n (CHR 0x22)) = n" for n by (induction n) (auto simp: Let_def)
  then show "js_length quotes = 140000" by (simp add: quotes_def)
  show "length quotes = 140000" by (simp add: quotes_def)
  have "length (concat (map json_escape (replicate n (CHR 0x22)))) = 2 * n" for n
    by (induction n) (auto simp: json_escape_def Let_def)
  then show "length (json_quote quotes) = 280002" by (simp add: json_quote_def quotes_def del: map_replicate)
qed

theorem large_diagram_stays_local_witness:
  "\<exists>s' doc. publishSnapshot (guarded_room\<lparr>rm_moderation := new_moderation\<rparr>) (replicate 16 10) 0 Bpmn quotes new_diagram_service
      = (Inl ''invalid_diagram_operation'', s', [])
    \<and> map_of (dg_docs s') Bpmn = Some doc \<and> dd_xml doc = quotes"
  by (rule large_diagram_stays_local)
    (simp_all add: guarded_room_def diagram_canEdit_def new_moderation_def random16_def PEER_ID_def matches_def lower_hex_def
      own_author_def MAX_SAFE_INTEGER_def new_diagram_service_def quotes_facts MAX_XML_BYTES_def MAX_ENCODED_BYTES_def)

end
