(* ===== verification/Whiteboard_Contract.thy ===== *)
theory Whiteboard_Contract
  imports Collab_Sizes
begin

text \<open>
  \<^verbatim>\<open>webrtc/whiteboard-contract.ts\<close>: the operations of the whiteboard and their wire form. The answer to a
  synchronisation request carries operations itself, of the drawing kinds only: the payloads of those
  kinds are a type of their own.
\<close>

record point =
  pt_x :: int
  pt_y :: int

datatype board_shape = Rectangle | Ellipse | Line

datatype draw_payload =
    Stroke_Begin string int point
  | Stroke_Point "point list"
  | Stroke_End point
  | Erase point
  | Clear_Board
  | Shape board_shape string int point point
  | Board_Text string point string int
  | Laser point

type_synonym draw_operation = "draw_payload operation"

datatype board_payload = Draw draw_payload | Board_Sync_Request | Board_Sync_Response "draw_operation list"

type_synonym board_operation = "board_payload operation"

definition MAX_POINTS :: nat where
  "MAX_POINTS = 32"

definition MAX_COORD :: int where
  "MAX_COORD = 10000"

definition MAX_TEXT_LENGTH :: nat where
  "MAX_TEXT_LENGTH = 100"

definition MAX_SYNC_OPS :: nat where
  "MAX_SYNC_OPS = 2048"

definition COLORS :: "string list" where
  "COLORS = [''ink'', ''mark'', ''accent'', ''erase'']"

definition hex_digit :: "char \<Rightarrow> bool" where
  "hex_digit c = (c \<in> set ''0123456789abcdefABCDEF'')"

definition HEX_COLOR :: "string \<Rightarrow> bool" where
  "HEX_COLOR s = (case s of [] \<Rightarrow> False | c # cs \<Rightarrow> c = CHR ''#'' \<and> matches hex_digit 6 6 cs)"

definition paintableColor :: "jsval \<Rightarrow> string option" where
  "paintableColor v =
     (case js_string v of None \<Rightarrow> None
      | Some s \<Rightarrow> if s \<noteq> ''erase'' \<and> (s \<in> set COLORS \<or> HEX_COLOR s) then Some s else None)"

definition SHAPES :: "(string \<times> board_shape) list" where
  "SHAPES = [(''rectangle'', Rectangle), (''ellipse'', Ellipse), (''line'', Line)]"

definition point_of :: "jsval \<Rightarrow> point option" where
  "point_of v =
     (case exact v [''x'', ''y''] of None \<Rightarrow> None
      | Some kvs \<Rightarrow> (case js_integer (js_get kvs ''x'') (- MAX_COORD) MAX_COORD of None \<Rightarrow> None
      | Some x \<Rightarrow> map_option (\<lambda>y. \<lparr>pt_x = x, pt_y = y\<rparr>) (js_integer (js_get kvs ''y'') (- MAX_COORD) MAX_COORD)))"

definition parse_stroke_begin :: "jsval \<Rightarrow> draw_payload option" where
  "parse_stroke_begin v =
     (case exact v [''color'', ''width'', ''point''] of None \<Rightarrow> None
      | Some kvs \<Rightarrow> (case paintableColor (js_get kvs ''color'') of None \<Rightarrow> None
      | Some color \<Rightarrow> (case js_integer (js_get kvs ''width'') 1 16 of None \<Rightarrow> None
      | Some width \<Rightarrow> map_option (Stroke_Begin color width) (point_of (js_get kvs ''point'')))))"

definition parse_stroke_point :: "jsval \<Rightarrow> draw_payload option" where
  "parse_stroke_point v =
     (case exact v [''points''] of None \<Rightarrow> None
      | Some kvs \<Rightarrow> (case js_array (js_get kvs ''points'') of None \<Rightarrow> None
      | Some xs \<Rightarrow>
        if length xs < 1 \<or> MAX_POINTS < length xs then None
        else map_option Stroke_Point (collect point_of xs)))"

definition parse_at_point :: "(point \<Rightarrow> draw_payload) \<Rightarrow> jsval \<Rightarrow> draw_payload option" where
  "parse_at_point mk v =
     (case exact v [''point''] of None \<Rightarrow> None
      | Some kvs \<Rightarrow> map_option mk (point_of (js_get kvs ''point'')))"

definition parse_shape :: "jsval \<Rightarrow> draw_payload option" where
  "parse_shape v =
     (case exact v [''shape'', ''color'', ''width'', ''start'', ''end''] of None \<Rightarrow> None
      | Some kvs \<Rightarrow> (case named SHAPES (js_get kvs ''shape'') of None \<Rightarrow> None
      | Some shape \<Rightarrow> (case paintableColor (js_get kvs ''color'') of None \<Rightarrow> None
      | Some color \<Rightarrow> (case js_integer (js_get kvs ''width'') 1 16 of None \<Rightarrow> None
      | Some width \<Rightarrow> (case point_of (js_get kvs ''start'') of None \<Rightarrow> None
      | Some start \<Rightarrow> map_option (Shape shape color width start) (point_of (js_get kvs ''end'')))))))"

definition parse_text :: "jsval \<Rightarrow> draw_payload option" where
  "parse_text v =
     (case exact v [''text'', ''point'', ''color'', ''size''] of None \<Rightarrow> None
      | Some kvs \<Rightarrow> (case js_string (js_get kvs ''text'') of None \<Rightarrow> None
      | Some text \<Rightarrow>
        if js_trim text = [] \<or> MAX_TEXT_LENGTH < js_length text then None
        else if list_ex control_char text then None
        else case paintableColor (js_get kvs ''color'') of None \<Rightarrow> None
        | Some color \<Rightarrow> (case js_integer (js_get kvs ''size'') 10 48 of None \<Rightarrow> None
        | Some sz \<Rightarrow> map_option (\<lambda>p. Board_Text (js_trim text) p color sz) (point_of (js_get kvs ''point'')))))"

definition parse_draw_payload :: "string \<Rightarrow> jsval \<Rightarrow> draw_payload option" where
  "parse_draw_payload kind v =
     (if kind = ''clear'' then map_option (\<lambda>_. Clear_Board) (exact v [])
      else if kind = ''stroke-begin'' then parse_stroke_begin v
      else if kind = ''stroke-point'' then parse_stroke_point v
      else if kind = ''stroke-end'' then parse_at_point Stroke_End v
      else if kind = ''erase'' then parse_at_point Erase v
      else if kind = ''laser'' then parse_at_point Laser v
      else if kind = ''shape'' then parse_shape v
      else if kind = ''text'' then parse_text v
      else None)"

text \<open>An item of a synchronisation answer: an operation of a drawing kind.\<close>

definition parse_sync_item :: "jsval \<Rightarrow> draw_operation option" where
  "parse_sync_item = parse_op ''whiteboard-op'' parse_draw_payload"

definition parse_sync_response :: "jsval \<Rightarrow> board_payload option" where
  "parse_sync_response v =
     (case exact v [''ops''] of None \<Rightarrow> None
      | Some kvs \<Rightarrow> (case js_array (js_get kvs ''ops'') of None \<Rightarrow> None
      | Some xs \<Rightarrow>
        if MAX_SYNC_OPS < length xs then None
        else map_option Board_Sync_Response (collect parse_sync_item xs)))"

definition parse_board_payload :: "string \<Rightarrow> jsval \<Rightarrow> board_payload option" where
  "parse_board_payload kind v =
     (if kind = ''sync-request'' then map_option (\<lambda>_. Board_Sync_Request) (exact v [])
      else if kind = ''sync-response'' then parse_sync_response v
      else map_option Draw (parse_draw_payload kind v))"

definition parseWhiteboardOperation :: "jsval \<Rightarrow> board_operation option" where
  "parseWhiteboardOperation = parse_op ''whiteboard-op'' parse_board_payload"

definition point_json :: "point \<Rightarrow> jsval" where
  "point_json p = JObj [(''x'', JInt (pt_x p)), (''y'', JInt (pt_y p))]"

definition shape_name :: "board_shape \<Rightarrow> string" where
  "shape_name s = (case s of Rectangle \<Rightarrow> ''rectangle'' | Ellipse \<Rightarrow> ''ellipse'' | Line \<Rightarrow> ''line'')"

fun draw_kind :: "draw_payload \<Rightarrow> string" where
  "draw_kind (Stroke_Begin _ _ _) = ''stroke-begin''"
| "draw_kind (Stroke_Point _) = ''stroke-point''"
| "draw_kind (Stroke_End _) = ''stroke-end''"
| "draw_kind (Erase _) = ''erase''"
| "draw_kind Clear_Board = ''clear''"
| "draw_kind (Shape _ _ _ _ _) = ''shape''"
| "draw_kind (Board_Text _ _ _ _) = ''text''"
| "draw_kind (Laser _) = ''laser''"

fun draw_payload_json :: "draw_payload \<Rightarrow> jsval" where
  "draw_payload_json (Stroke_Begin color width p) =
     JObj [(''color'', JStr color), (''width'', JInt width), (''point'', point_json p)]"
| "draw_payload_json (Stroke_Point ps) = JObj [(''points'', JArr (map point_json ps))]"
| "draw_payload_json (Stroke_End p) = JObj [(''point'', point_json p)]"
| "draw_payload_json (Erase p) = JObj [(''point'', point_json p)]"
| "draw_payload_json Clear_Board = JObj []"
| "draw_payload_json (Shape shape color width start end') =
     JObj [(''shape'', JStr (shape_name shape)), (''color'', JStr color), (''width'', JInt width),
           (''start'', point_json start), (''end'', point_json end')]"
| "draw_payload_json (Board_Text text p color sz) =
     JObj [(''text'', JStr text), (''point'', point_json p), (''color'', JStr color), (''size'', JInt sz)]"
| "draw_payload_json (Laser p) = JObj [(''point'', point_json p)]"

definition draw_json :: "draw_operation \<Rightarrow> jsval" where
  "draw_json = op_json ''whiteboard-op'' draw_kind draw_payload_json"

fun board_kind :: "board_payload \<Rightarrow> string" where
  "board_kind (Draw p) = draw_kind p"
| "board_kind Board_Sync_Request = ''sync-request''"
| "board_kind (Board_Sync_Response _) = ''sync-response''"

fun board_payload_json :: "board_payload \<Rightarrow> jsval" where
  "board_payload_json (Draw p) = draw_payload_json p"
| "board_payload_json Board_Sync_Request = JObj []"
| "board_payload_json (Board_Sync_Response ops) = JObj [(''ops'', JArr (map draw_json ops))]"

definition board_json :: "board_operation \<Rightarrow> jsval" where
  "board_json = op_json ''whiteboard-op'' board_kind board_payload_json"

definition decodeWhiteboardBytes :: "bytes \<Rightarrow> board_operation option" where
  "decodeWhiteboardBytes data = decode_with parseWhiteboardOperation data"

definition encodeWhiteboardOperation :: "board_operation \<Rightarrow> string + bytes" where
  "encodeWhiteboardOperation operation =
     encode_with ''invalid_whiteboard_operation'' parseWhiteboardOperation board_json operation"

subsection \<open>The contract\<close>

lemma js_length_trim: "js_length (js_trim s) \<le> js_length s"
proof -
  obtain n m where t: "js_trim s = take m (drop n s)"
    using trim_start_drop [of s] trim_end_take [of "trim_start s"] by (auto simp: js_trim_def)
  have "s = take n s @ take m (drop n s) @ drop m (drop n s)" by (simp only: append_take_drop_id)
  then have "js_length s = js_length (take n s) + (js_length (js_trim s) + js_length (drop m (drop n s)))"
    unfolding t by (metis js_length_append)
  then show ?thesis by simp
qed

lemma paintableColor_reparse: "paintableColor v = Some s \<Longrightarrow> paintableColor (JStr s) = Some s"
  by (auto simp: paintableColor_def split: option.splits if_splits)

lemma point_reparse: "point_of v = Some p \<Longrightarrow> point_of (point_json p) = Some p \<and> json_clean (point_json p)"
  by (auto simp: point_of_def point_json_def js_integer_Some_iff js_simps split: option.splits)

lemma js_integer_range: "js_integer v lo hi = Some n \<Longrightarrow> num_safe_integer (NInt n) \<and> lo \<le> n \<and> n \<le> hi"
  by (simp add: js_integer_Some_iff)

lemma shape_named [simp]: "named SHAPES (JStr (shape_name s)) = Some s"
  by (cases s) (simp_all add: named_def SHAPES_def shape_name_def)

text \<open>What a payload parser promises about what it accepts.\<close>

definition reparses :: "string \<Rightarrow> (jsval \<Rightarrow> draw_payload option) \<Rightarrow> draw_payload \<Rightarrow> bool" where
  "reparses k parse p \<longleftrightarrow> draw_kind p = k \<and> parse (draw_payload_json p) = Some p \<and> json_clean (draw_payload_json p)"

lemma stroke_begin_reparse:
  assumes "parse_stroke_begin v = Some p"
  shows "reparses ''stroke-begin'' parse_stroke_begin p"
proof -
  from assms obtain color width q w1 w2 w3 where c: "paintableColor w1 = Some color" and w: "js_integer w2 1 16 = Some width"
    and q: "point_of w3 = Some q" and "p = Stroke_Begin color width q"
    by (auto simp: parse_stroke_begin_def split: option.splits)
  then show ?thesis
    using paintableColor_reparse [OF c] js_integer_range [OF w] point_reparse [OF q]
    by (simp add: parse_stroke_begin_def reparses_def js_simps)
qed

lemma stroke_point_reparse:
  assumes "parse_stroke_point v = Some p"
  shows "reparses ''stroke-point'' parse_stroke_point p"
proof -
  from assms obtain xs ps where "\<not> (length xs < 1 \<or> MAX_POINTS < length xs)" and ps: "collect point_of xs = Some ps"
    and "p = Stroke_Point ps"
    by (auto simp: parse_stroke_point_def split: option.splits if_splits)
  moreover have r: "point_of (point_json q) = Some q \<and> json_clean (point_json q)" if "q \<in> set ps" for q
    using collect_mem [OF ps that] point_reparse by blast
  ultimately show ?thesis using collect_length [OF ps] collect_map_id [of ps point_of point_json]
    by (simp add: reparses_def parse_stroke_point_def js_simps)
qed

lemma at_point_reparse:
  assumes "parse_at_point mk v = Some p" and "\<And>q. draw_payload_json (mk q) = JObj [(''point'', point_json q)]"
    and "\<And>q. draw_kind (mk q) = k"
  shows "reparses k (parse_at_point mk) p"
proof -
  from assms(1) obtain q w where q: "point_of w = Some q" and "p = mk q"
    by (auto simp: parse_at_point_def split: option.splits)
  then show ?thesis using point_reparse [OF q] by (simp add: parse_at_point_def reparses_def assms(2,3) js_simps)
qed

lemma shape_reparse:
  assumes "parse_shape v = Some p"
  shows "reparses ''shape'' parse_shape p"
proof -
  from assms obtain shape color width q r w1 w2 w3 w4 where c: "paintableColor w1 = Some color"
    and w: "js_integer w2 1 16 = Some width" and q: "point_of w3 = Some q" and r: "point_of w4 = Some r"
    and "p = Shape shape color width q r"
    by (auto simp: parse_shape_def split: option.splits)
  then show ?thesis
    using paintableColor_reparse [OF c] js_integer_range [OF w] point_reparse [OF q] point_reparse [OF r]
    by (simp add: parse_shape_def reparses_def js_simps)
qed

lemma text_reparse:
  assumes "parse_text v = Some p"
  shows "reparses ''text'' parse_text p"
proof -
  from assms obtain tx color sz q w1 w2 w3 where
      t: "js_trim tx \<noteq> []" "js_length tx \<le> MAX_TEXT_LENGTH" "\<not> list_ex control_char tx"
    and c: "paintableColor w1 = Some color" and s: "js_integer w2 10 48 = Some sz" and q: "point_of w3 = Some q"
    and p: "p = Board_Text (js_trim tx) q color sz"
    by (auto simp: parse_text_def not_less split: option.splits if_splits)
  have "js_length (js_trim tx) \<le> MAX_TEXT_LENGTH" using t(2) js_length_trim [of tx] by simp
  moreover have "\<not> list_ex control_char (js_trim tx)" using t(3) js_trim_sub(1) [of tx] by (auto simp: list_ex_iff)
  ultimately show ?thesis
    using t(1) paintableColor_reparse [OF c] js_integer_range [OF s] point_reparse [OF q]
    by (simp add: reparses_def p parse_text_def js_simps)
qed

lemma draw_payload_reparse:
  assumes "parse_draw_payload k v = Some p"
  shows "draw_kind p = k" and "parse_draw_payload k (draw_payload_json p) = Some p" and "json_clean (draw_payload_json p)"
proof -
  have "reparses k (parse_draw_payload k) p"
    using assms stroke_begin_reparse [of v p] stroke_point_reparse [of v p] shape_reparse [of v p] text_reparse [of v p]
      at_point_reparse [of Stroke_End v p "''stroke-end''"] at_point_reparse [of Erase v p "''erase''"]
      at_point_reparse [of Laser v p "''laser''"]
    by (auto simp: parse_draw_payload_def reparses_def exact_JObj exact_fields_def js_keys_def split: if_splits)
  then show "draw_kind p = k" and "parse_draw_payload k (draw_payload_json p) = Some p"
    and "json_clean (draw_payload_json p)" by (simp_all add: reparses_def)
qed

interpretation draw: payload_contract "''whiteboard-op''" draw_kind draw_payload_json parse_draw_payload
  by unfold_locales (fact draw_payload_reparse)+

lemma sync_item_reparse:
  "parse_sync_item v = Some op \<Longrightarrow> parse_sync_item (draw_json op) = Some op \<and> json_clean (draw_json op)"
  unfolding parse_sync_item_def draw_json_def using draw.op.parse_to_json draw.op.to_json_clean by blast

lemma draw_kind_not_sync: "draw_kind p \<noteq> ''sync-request''" "draw_kind p \<noteq> ''sync-response''"
  by (cases p; simp)+

lemma sync_response_reparse:
  assumes "parse_sync_response v = Some p"
  shows "board_kind p = ''sync-response'' \<and> parse_sync_response (board_payload_json p) = Some p
    \<and> json_clean (board_payload_json p)"
proof -
  from assms obtain xs ops where len: "\<not> MAX_SYNC_OPS < length xs" and ops: "collect parse_sync_item xs = Some ops"
    and p: "p = Board_Sync_Response ops"
    by (auto simp: parse_sync_response_def split: option.splits if_splits)
  have r: "parse_sync_item (draw_json op) = Some op \<and> json_clean (draw_json op)" if "op \<in> set ops" for op
    using collect_mem [OF ops that] sync_item_reparse by blast
  then show ?thesis using len collect_length [OF ops] collect_map_id [of ops parse_sync_item draw_json]
    by (simp add: p parse_sync_response_def js_simps)
qed

lemma board_payload_reparse:
  assumes "parse_board_payload k v = Some p"
  shows "board_kind p = k" and "parse_board_payload k (board_payload_json p) = Some p" and "json_clean (board_payload_json p)"
proof -
  have "board_kind p = k \<and> parse_board_payload k (board_payload_json p) = Some p \<and> json_clean (board_payload_json p)"
    using assms sync_response_reparse [of v p] draw_payload_reparse [of k v]
    by (auto simp: parse_board_payload_def exact_JObj exact_fields_def js_keys_def split: if_splits)
  then show "board_kind p = k" and "parse_board_payload k (board_payload_json p) = Some p"
    and "json_clean (board_payload_json p)" by auto
qed

interpretation board: payload_contract "''whiteboard-op''" board_kind board_payload_json parse_board_payload
  by unfold_locales (fact board_payload_reparse)+

lemma encodeWhiteboard_accepted:
  "parseWhiteboardOperation v = Some op \<Longrightarrow> encodeWhiteboardOperation op = Inr (text_encode (stringify (board_json op)))"
  unfolding parseWhiteboardOperation_def encodeWhiteboardOperation_def board_json_def
  by (rule board.op.encode_accepted)

text \<open>A valid whiteboard operation, also a synchronisation answer with the operations it carries, is
  encoded without an error, and a peer decodes the bytes to the same operation.\<close>

theorem whiteboard_operation_roundtrip:
  assumes "parseWhiteboardOperation v = Some op" and "js_utf8 (board_json op)"
  shows "\<exists>bs. encodeWhiteboardOperation op = Inr bs \<and> decodeWhiteboardBytes bs = Some op"
  using assms board.op.accepted_roundtrip
  unfolding parseWhiteboardOperation_def encodeWhiteboardOperation_def decodeWhiteboardBytes_def board_json_def by blast

definition sample_draw :: draw_operation where
  "sample_draw = \<lparr>op_id = ''ffff02030405060708090a0b0c0d0e0f'', op_epoch = 3, op_author = ''00000000000000bb'',
     op_payload = Shape Line ''#00ff7F'' 2 \<lparr>pt_x = 0, pt_y = -5\<rparr> \<lparr>pt_x = 10000, pt_y = 7\<rparr>\<rparr>"

definition sample_sync :: board_operation where
  "sample_sync = \<lparr>op_id = ''000102030405060708090a0b0c0d0e0f'', op_epoch = 3, op_author = ''00000000000000aa'',
     op_payload = Board_Sync_Response [sample_draw]\<rparr>"

lemma sample_draw_accepted: "parse_sync_item (draw_json sample_draw) = Some sample_draw"
  by (simp add: sample_draw_def parse_sync_item_def parse_op_def draw_json_def op_json_def op_object_def
      OP_FIELDS_def peer_field_def parse_draw_payload_def parse_shape_def paintableColor_def COLORS_def HEX_COLOR_def
      hex_digit_def point_json_def point_of_def MAX_COORD_def named_def SHAPES_def shape_name_def
      OP_ID_def PEER_ID_def matches_def lower_hex_def js_simps MAX_SAFE_INTEGER_def)

lemma sample_sync_accepted: "parseWhiteboardOperation (board_json sample_sync) = Some sample_sync"
  using sample_draw_accepted
  by (simp add: sample_sync_def parseWhiteboardOperation_def parse_op_def board_json_def op_json_def op_object_def
      OP_FIELDS_def peer_field_def parse_board_payload_def parse_sync_response_def MAX_SYNC_OPS_def
      OP_ID_def PEER_ID_def matches_def lower_hex_def js_simps MAX_SAFE_INTEGER_def)

lemma sample_sync_utf8: "js_utf8 (board_json sample_sync)"
  by (auto simp: sample_sync_def sample_draw_def board_json_def draw_json_def op_json_def op_object_def point_json_def
      shape_name_def intro!: ascii_utf8_ok) (simp_all add: ascii_def)

end
