(* ===== verification/Whiteboard.thy ===== *)
theory Whiteboard
  imports Whiteboard_Contract
begin

text \<open>
  \<^verbatim>\<open>webrtc/whiteboard-overlay.ts\<close> and \<^verbatim>\<open>webrtc/whiteboard-overlay.service.ts\<close>: the bounded history of
  drawing operations, who may draw and clear, laser pointers, and the service. \<open>JSON.stringify(x).length\<close>
  counts UTF-16 units.
\<close>

subsection \<open>The history\<close>

definition WHITEBOARD_OP_LIMIT :: nat where
  "WHITEBOARD_OP_LIMIT = 2048"

definition WHITEBOARD_HISTORY_BYTES :: int where
  "WHITEBOARD_HISTORY_BYTES = 500 * 1024"

definition WHITEBOARD_OP_MAX_BYTES :: nat where
  "WHITEBOARD_OP_MAX_BYTES = 12 * 1024"

definition WHITEBOARD_SYNC_MAX_BYTES :: nat where
  "WHITEBOARD_SYNC_MAX_BYTES = 512 * 1024"

definition ingestWhiteboardDelivery :: "delivery \<Rightarrow> int \<Rightarrow> string list \<Rightarrow> string list \<Rightarrow> board_operation option" where
  "ingestWhiteboardDelivery d epoch known seen =
     (if dl_class d \<noteq> Bulk \<and> dl_class d \<noteq> Event then None
      else case decodeWhiteboardBytes (dl_data d) of None \<Rightarrow> None
      | Some op \<Rightarrow>
        if (case op_payload op of Board_Sync_Response _ \<Rightarrow> WHITEBOARD_SYNC_MAX_BYTES < length (dl_data d)
            | _ \<Rightarrow> dl_class d = Bulk \<or> WHITEBOARD_OP_MAX_BYTES < length (dl_data d)) then None
        else admit epoch known seen (dl_origin d) op)"

definition json_length :: "jsval \<Rightarrow> int" where
  "json_length v = int (js_length (stringify v))"

text \<open>The loop that drops the oldest operations; \<open>bytes\<close> is the length it keeps count of.\<close>

fun drop_oldest :: "int \<Rightarrow> int \<Rightarrow> draw_operation list \<Rightarrow> draw_operation list" where
  "drop_oldest maxBytes bytes (op # op' # ops) =
     (if maxBytes < bytes then drop_oldest maxBytes (bytes - json_length (draw_json op)) (op' # ops)
      else op # op' # ops)"
| "drop_oldest maxBytes bytes ops = ops"

definition append_bounded :: "nat \<Rightarrow> int \<Rightarrow> draw_operation list \<Rightarrow> draw_operation \<Rightarrow> draw_operation list" where
  "append_bounded limit maxBytes ops op =
     (case op_payload op of
        Laser _ \<Rightarrow> ops
      | _ \<Rightarrow>
        if list_ex (\<lambda>item. op_id item = op_id op) ops then ops
        else
          (let all = ops @ [op];
               kept = (if limit < length all then drop (length all - limit) all else all)
           in drop_oldest maxBytes (json_length (JArr (map draw_json kept))) kept))"

definition appendWhiteboardOperation :: "draw_operation list \<Rightarrow> draw_operation \<Rightarrow> draw_operation list" where
  "appendWhiteboardOperation = append_bounded WHITEBOARD_OP_LIMIT WHITEBOARD_HISTORY_BYTES"

definition starts_item :: "draw_payload \<Rightarrow> bool" where
  "starts_item p = (case p of Stroke_Begin _ _ _ \<Rightarrow> True | Erase _ \<Rightarrow> True | Clear_Board \<Rightarrow> True
     | Shape _ _ _ _ _ \<Rightarrow> True | Board_Text _ _ _ _ \<Rightarrow> True | _ \<Rightarrow> False)"

text \<open>The loop pops from the end: it works on the reversed list.\<close>

fun undo_loop :: "string \<Rightarrow> draw_operation list \<Rightarrow> draw_operation list" where
  "undo_loop own [] = []"
| "undo_loop own (last' # rest) =
     (if op_author last' = own then if starts_item (op_payload last') then rest else undo_loop own rest
      else last' # rest)"

definition undoOwnWhiteboardOperations :: "draw_operation list \<Rightarrow> string \<Rightarrow> draw_operation list" where
  "undoOwnWhiteboardOperations ops own = rev (undo_loop own (rev ops))"

fun bound_loop :: "nat \<Rightarrow> int \<Rightarrow> int \<Rightarrow> draw_operation list \<Rightarrow> draw_operation list \<Rightarrow> draw_operation list" where
  "bound_loop maxOps maxBytes currentBytes result [] = result"
| "bound_loop maxOps maxBytes currentBytes result (op # older) =
     (if maxOps \<le> length result then result
      else case op_payload op of
        Laser _ \<Rightarrow> bound_loop maxOps maxBytes currentBytes result older
      | _ \<Rightarrow>
        (let opBytes = json_length (draw_json op) in
         if maxBytes < currentBytes + opBytes then result
         else bound_loop maxOps maxBytes (currentBytes + opBytes) (op # result) older))"

definition boundSyncOps :: "draw_operation list \<Rightarrow> draw_operation list" where
  "boundSyncOps ops = bound_loop WHITEBOARD_OP_LIMIT WHITEBOARD_HISTORY_BYTES 100 [] (rev ops)"

subsection \<open>Who may draw and clear\<close>

definition ownerPeerIds :: "participant list \<Rightarrow> string list" where
  "ownerPeerIds participants = foldl (\<lambda>acc p. set_add p acc) [] (map pt_peerId (filter (\<lambda>p. pt_role p = Owner) participants))"

definition authorizedDrawerPeerIds :: "participant list \<Rightarrow> string \<Rightarrow> draw_policy \<Rightarrow> string list \<Rightarrow> string list" where
  "authorizedDrawerPeerIds participants presenterPeerId policy known =
     (if policy = Open_Policy then known
      else
        (let owners = foldl (\<lambda>acc p. if pt_role p = Owner then set_add (pt_peerId p) acc else acc) [] participants in
         if presenterPeerId \<noteq> '''' \<and> presenterPeerId \<in> set known then set_add presenterPeerId owners else owners))"

definition authorizedClearPeerIds :: "participant list \<Rightarrow> string \<Rightarrow> string list" where
  "authorizedClearPeerIds participants presenterPeerId =
     (let owners = foldl (\<lambda>acc p. set_add p acc) [] (map pt_peerId (filter (\<lambda>p. pt_role p = Owner) participants)) in
      if presenterPeerId \<noteq> '''' then set_add presenterPeerId owners else owners)"

subsection \<open>The service\<close>

record laser =
  lz_point :: point
  lz_updatedAt :: int

record board_service =
  bd_ops :: "draw_operation list"
  bd_remoteLasers :: "(string \<times> laser) list"
  bd_lastDelivery :: int
  bd_seen :: "string list"
  bd_hasRequestedSync :: bool
  bd_wasJoined :: bool
  bd_lastLaserSent :: int

definition new_board_service :: board_service where
  "new_board_service = \<lparr>bd_ops = [], bd_remoteLasers = [], bd_lastDelivery = 0, bd_seen = [],
     bd_hasRequestedSync = False, bd_wasJoined = False, bd_lastLaserSent = 0\<rparr>"

definition canClear :: "room \<Rightarrow> bool" where
  "canClear r = (if \<not> rm_joined r then True
     else ownRole (rm_moderation r) = Owner \<or> ownPresenter (rm_moderation r))"

definition canDraw :: "room \<Rightarrow> bool" where
  "canDraw r =
     (if \<not> rm_joined r then True
      else if md_whiteboardPolicy (rm_moderation r) = Open_Policy then True
      else ownRole (rm_moderation r) = Owner \<or> ownPresenter (rm_moderation r))"

definition drawers :: "room \<Rightarrow> string list" where
  "drawers r = authorizedDrawerPeerIds (md_participants (rm_moderation r)) (md_presenterPeerId (rm_moderation r))
     (md_whiteboardPolicy (rm_moderation r)) (known_peers r)"

definition clearers :: "room \<Rightarrow> string list" where
  "clearers r = authorizedClearPeerIds (md_participants (rm_moderation r)) (md_presenterPeerId (rm_moderation r))"

definition may_apply :: "room \<Rightarrow> draw_operation \<Rightarrow> bool" where
  "may_apply r op =
     (if op_payload op = Clear_Board then op_author op \<in> set (clearers r) else op_author op \<in> set (drawers r))"

definition board_shouldRespond :: "room \<Rightarrow> board_service \<Rightarrow> bool" where
  "board_shouldRespond r s =
     (if bd_ops s = [] then False
      else if ownRole (rm_moderation r) = Owner then True
      else \<not> list_ex (\<lambda>p. p \<in> set (ownerPeerIds (md_participants (rm_moderation r)))) (rm_peers r))"

definition DEFAULT_PEER :: string where
  "DEFAULT_PEER = ''0123456789abcdef''"

definition own_peer :: "room \<Rightarrow> string" where
  "own_peer r = (if rm_peerId r = '''' then DEFAULT_PEER else rm_peerId r)"

definition board_answer :: "room \<Rightarrow> bytes \<Rightarrow> string \<Rightarrow> board_service \<Rightarrow> board_service outcome" where
  "board_answer r rnd origin s =
     (if \<not> board_shouldRespond r s then (Inr True, s, [])
      else
        (let opsToSync = boundSyncOps (bd_ops s) in
         if opsToSync = [] then (Inr True, s, [])
         else case parseWhiteboardOperation (op_object ''whiteboard-op'' (opId rnd) (rm_epoch r) (rm_peerId r)
             ''sync-response'' (JObj [(''ops'', JArr (map draw_json opsToSync))])) of
           None \<Rightarrow> (Inr True, s, [])
         | Some response \<Rightarrow> (case encodeWhiteboardOperation response of
             Inl err \<Rightarrow> (Inl err, s, [])
           | Inr bs \<Rightarrow> (Inr True, s, [(origin, bs, Bulk)]))))"

fun merge_sync :: "room \<Rightarrow> draw_operation list \<Rightarrow> board_service \<Rightarrow> board_service" where
  "merge_sync r [] s = s"
| "merge_sync r (item # items) s =
     (if op_id item \<in> set (bd_seen s) then merge_sync r items s
      else if \<not> may_apply r item then merge_sync r items s
      else merge_sync r items
        (s\<lparr>bd_seen := set_add (op_id item) (bd_seen s), bd_ops := appendWhiteboardOperation (bd_ops s) item\<rparr>))"

definition updateRemoteLaser :: "string \<Rightarrow> point \<Rightarrow> int \<Rightarrow> board_service \<Rightarrow> board_service" where
  "updateRemoteLaser peerId p now s =
     s\<lparr>bd_remoteLasers := map_set peerId \<lparr>lz_point = p, lz_updatedAt = now\<rparr> (bd_remoteLasers s)\<rparr>"

definition as_draw :: "board_operation \<Rightarrow> draw_payload \<Rightarrow> draw_operation" where
  "as_draw op p = \<lparr>op_id = op_id op, op_epoch = op_epoch op, op_author = op_author op, op_payload = p\<rparr>"

definition board_ingest :: "room \<Rightarrow> delivery \<Rightarrow> bytes \<Rightarrow> int \<Rightarrow> board_service \<Rightarrow> board_service outcome" where
  "board_ingest r d rnd now s =
     (case ingestWhiteboardDelivery d (rm_epoch r) (known_peers r) (bd_seen s) of
        None \<Rightarrow> (Inr False, s, [])
      | Some op \<Rightarrow>
        (let marked = s\<lparr>bd_seen := set_add (op_id op) (bd_seen s)\<rparr> in
         case op_payload op of
           Draw (Laser p) \<Rightarrow>
             if op_author op \<notin> set (drawers r) then (Inr False, s, [])
             else (Inr True, updateRemoteLaser (op_author op) p now s, [])
         | Board_Sync_Request \<Rightarrow> board_answer r rnd (dl_origin d) marked
         | Board_Sync_Response items \<Rightarrow> (Inr True, merge_sync r items marked, [])
         | Draw p \<Rightarrow>
             if \<not> may_apply r (as_draw op p) then (Inr False, s, [])
             else (Inr True, marked\<lparr>bd_ops := appendWhiteboardOperation (bd_ops s) (as_draw op p)\<rparr>, [])))"

definition board_publish :: "room \<Rightarrow> bytes \<Rightarrow> string \<Rightarrow> jsval \<Rightarrow> board_service \<Rightarrow> board_service outcome" where
  "board_publish r rnd kind payload s =
     (if kind = ''sync-request'' \<or> kind = ''sync-response'' then (Inr False, s, [])
      else if (if kind = ''clear'' then \<not> canClear r else \<not> canDraw r) then (Inr False, s, [])
      else case parseWhiteboardOperation (op_object ''whiteboard-op'' (opId rnd) (max 1 (rm_epoch r)) (own_peer r) kind payload) of
        None \<Rightarrow> (Inr False, s, [])
      | Some op \<Rightarrow> (case op_payload op of
          Draw p \<Rightarrow>
            (let s1 = s\<lparr>bd_seen := set_add (op_id op) (bd_seen s),
                        bd_ops := appendWhiteboardOperation (bd_ops s) (as_draw op p)\<rparr> in
             if rm_joined r then
               case encodeWhiteboardOperation op of
                 Inl err \<Rightarrow> (Inl err, s1, [])
               | Inr bs \<Rightarrow> (Inr True, s1, broadcast r bs Event)
             else (Inr True, s1, []))
        | _ \<Rightarrow> (Inr False, s, [])))"

definition board_requestSync :: "room \<Rightarrow> bytes \<Rightarrow> board_service \<Rightarrow> board_service outcome" where
  "board_requestSync r rnd s =
     (if \<not> rm_joined r \<or> rm_epoch r < 1 then (Inr False, s, [])
      else case parseWhiteboardOperation
          (op_object ''whiteboard-op'' (opId rnd) (rm_epoch r) (rm_peerId r) ''sync-request'' (JObj [])) of
        None \<Rightarrow> (Inr False, s, [])
      | Some op \<Rightarrow>
        (let s1 = s\<lparr>bd_seen := set_add (op_id op) (bd_seen s)\<rparr> in
         case encodeWhiteboardOperation op of
           Inl err \<Rightarrow> (Inl err, s1, [])
         | Inr bs \<Rightarrow> (Inr True, s1, broadcast r bs Event)))"

text \<open>\<open>requestClear\<close>: the new state and the messages to the signaling server.\<close>

definition requestClear :: "room \<Rightarrow> board_service \<Rightarrow> board_service \<times> jsval list" where
  "requestClear r s =
     (if \<not> canClear r then (s, [])
      else if rm_joined r \<and> rm_peers r \<noteq> [] then (s, [JObj [(''type'', JStr ''whiteboard-clear'')]])
      else (s\<lparr>bd_ops := [], bd_seen := []\<rparr>, []))"

definition undoOwn :: "room \<Rightarrow> board_service \<Rightarrow> board_service" where
  "undoOwn r s = s\<lparr>bd_ops := undoOwnWhiteboardOperations (bd_ops s) (own_peer r)\<rparr>"

definition sendLaser :: "room \<Rightarrow> bytes \<Rightarrow> jnum \<Rightarrow> jnum \<Rightarrow> int \<Rightarrow> board_service \<Rightarrow> board_service outcome" where
  "sendLaser r rnd x y now s =
     (if \<not> canDraw r then (Inr True, s, [])
      else if now - bd_lastLaserSent s < 40 then (Inr True, s, [])
      else
        (let s1 = s\<lparr>bd_lastLaserSent := now\<rparr> in
         if rm_joined r then
           case parseWhiteboardOperation (op_object ''whiteboard-op'' (opId rnd) (max 1 (rm_epoch r)) (own_peer r) ''laser''
               (JObj [(''point'', JObj [(''x'', JNum x), (''y'', JNum y)])])) of
             None \<Rightarrow> (Inr True, s1, [])
           | Some op \<Rightarrow> (case encodeWhiteboardOperation op of
               Inl err \<Rightarrow> (Inl err, s1, [])
             | Inr bs \<Rightarrow> (Inr True, s1, broadcast r bs Event))
         else (Inr True, s1, [])))"

definition pruneOldLasers :: "int \<Rightarrow> board_service \<Rightarrow> board_service" where
  "pruneOldLasers now s =
     s\<lparr>bd_remoteLasers := filter (\<lambda>(peer, lz). now - lz_updatedAt lz \<le> 2500) (bd_remoteLasers s)\<rparr>"

definition board_destroy :: "board_service \<Rightarrow> board_service" where
  "board_destroy s = s\<lparr>bd_remoteLasers := []\<rparr>"

definition board_reset :: "board_service \<Rightarrow> board_service" where
  "board_reset s = s\<lparr>bd_ops := [], bd_remoteLasers := [], bd_seen := [], bd_lastDelivery := 0, bd_hasRequestedSync := False\<rparr>"

definition applyClear :: "room \<Rightarrow> (string \<times> jsval) list \<Rightarrow> board_service \<Rightarrow> board_service" where
  "applyClear r message s =
     (if js_get message ''type'' \<noteq> JStr ''whiteboard-cleared'' then s
      else if \<not> only_fields message [''version'', ''type'', ''membershipEpoch'', ''actorPeerId''] then s
      else if \<not> js_is_safe_integer (js_get message ''membershipEpoch'')
              \<or> js_get message ''membershipEpoch'' \<noteq> JInt (rm_epoch r) then s
      else case js_string (js_get message ''actorPeerId'') of None \<Rightarrow> s
      | Some actor \<Rightarrow> if actor \<notin> set (clearers r) then s else s\<lparr>bd_ops := [], bd_seen := []\<rparr>)"

fun board_deliveries :: "room \<Rightarrow> int \<Rightarrow> (delivery \<times> bytes) list \<Rightarrow> board_service \<Rightarrow> board_service outcome" where
  "board_deliveries r now [] s = (Inr True, s, [])"
| "board_deliveries r now ((d, rnd) # ds) s =
     (if dl_id d \<le> bd_lastDelivery s then board_deliveries r now ds s
      else case board_ingest r d rnd now (s\<lparr>bd_lastDelivery := dl_id d\<rparr>) of
        (Inl err, s', out) \<Rightarrow> (Inl err, s', out)
      | (Inr _, s', out) \<Rightarrow> (case board_deliveries r now ds s' of (res, s'', out') \<Rightarrow> (res, s'', out @ out')))"

definition board_effect :: "room \<Rightarrow> int \<Rightarrow> (delivery \<times> bytes) list \<Rightarrow> bytes \<Rightarrow> board_service \<Rightarrow> board_service outcome" where
  "board_effect r now ds rnd s =
     (if \<not> rm_joined r then
        (Inr True, if bd_wasJoined s then board_reset (s\<lparr>bd_wasJoined := False\<rparr>) else s, [])
      else case board_deliveries r now ds (s\<lparr>bd_wasJoined := True\<rparr>) of
        (Inl err, s1, out) \<Rightarrow> (Inl err, s1, out)
      | (Inr _, s1, out) \<Rightarrow>
        if \<not> bd_hasRequestedSync s1 \<and> bd_ops s1 = [] \<and> rm_peers r \<noteq> [] then
          case board_requestSync r rnd (s1\<lparr>bd_hasRequestedSync := True\<rparr>) of (res, s2, out') \<Rightarrow> (res, s2, out @ out')
        else (Inr True, s1, out))"

end
