(* ===== verification/Whiteboard_Laws.thy ===== *)
theory Whiteboard_Laws
  imports Whiteboard "HOL-Library.Sublist"
begin

text \<open>
  Properties of the whiteboard: the history stays within its limits and holds no operation twice, undo
  removes one item of the own peer, only authorised authors draw, a synchronisation answer fits the
  transport, and the hole in the authorisation of synchronisation answers.
\<close>

subsection \<open>The length of JSON texts\<close>

lemma json_length_nonneg [simp]: "0 \<le> json_length v"
  by (simp add: json_length_def)

lemma json_length_JArr:
  "json_length (JArr vs) = 2 + sum_list (map json_length vs) + int (length vs - 1)"
proof -
  have "int (sum_list (map (\<lambda>v. js_length (stringify v)) vs)) = sum_list (map json_length vs)"
    by (induction vs) (simp_all add: json_length_def)
  then show ?thesis
    by (simp add: json_length_def js_length_append js_length_join elem_texts_map o_def Let_def)
qed

subsection \<open>The history is bounded\<close>

definition in_size :: "int \<Rightarrow> draw_operation list \<Rightarrow> bool" where
  "in_size maxBytes ops \<longleftrightarrow> length ops \<le> 1 \<or> json_length (JArr (map draw_json ops)) \<le> maxBytes"

lemma drop_oldest_in_size:
  "json_length (JArr (map draw_json ops)) \<le> bytes \<Longrightarrow> in_size maxBytes (drop_oldest maxBytes bytes ops)"
proof (induction maxBytes bytes ops rule: drop_oldest.induct)
  case (1 maxBytes bytes op op' ops)
  show ?case
  proof (cases "maxBytes < bytes")
    case True
    have "json_length (JArr (map draw_json (op' # ops))) \<le> bytes - json_length (draw_json op)"
      using "1.prems" by (simp add: json_length_JArr)
    then show ?thesis using "1.IH" True by simp
  next
    case False
    then show ?thesis using "1.prems" by (simp add: in_size_def)
  qed
qed (simp_all add: in_size_def)

lemma drop_oldest_suffix: "suffix (drop_oldest maxBytes bytes ops) ops"
  by (induction maxBytes bytes ops rule: drop_oldest.induct) (auto intro: suffix_ConsI)

lemma json_length_prefix:
  "prefix xs ys \<Longrightarrow> json_length (JArr (map draw_json xs)) \<le> json_length (JArr (map draw_json ys))"
proof -
  assume "prefix xs ys"
  then obtain zs where "ys = xs @ zs" by (auto simp: prefix_def)
  moreover have "0 \<le> sum_list (map json_length (map draw_json zs))" by (rule sum_list_nonneg) auto
  moreover have "int (length xs - 1) \<le> int (length (xs @ zs) - 1)" by simp
  ultimately show ?thesis by (simp add: json_length_JArr)
qed

definition is_laser :: "draw_operation \<Rightarrow> bool" where
  "is_laser op = (case op_payload op of Laser _ \<Rightarrow> True | _ \<Rightarrow> False)"

definition history_ok :: "draw_operation list \<Rightarrow> bool" where
  "history_ok ops \<longleftrightarrow> distinct (map op_id ops) \<and> length ops \<le> WHITEBOARD_OP_LIMIT
     \<and> in_size WHITEBOARD_HISTORY_BYTES ops \<and> \<not> list_ex is_laser ops"

lemma append_cases:
  obtains "append_bounded limit maxBytes ops op = ops"
  | kept where "append_bounded limit maxBytes ops op = drop_oldest maxBytes (json_length (JArr (map draw_json kept))) kept"
      "suffix kept (ops @ [op])" "length kept \<le> max limit 0" "\<not> is_laser op" "\<forall>item \<in> set ops. op_id item \<noteq> op_id op"
proof -
  let ?all = "ops @ [op]"
  let ?kept = "if limit < length ?all then drop (length ?all - limit) ?all else ?all"
  have k: "suffix ?kept ?all" "length ?kept \<le> max limit 0" by (auto simp: suffix_drop)
  show thesis
  proof (cases "is_laser op \<or> list_ex (\<lambda>item. op_id item = op_id op) ops")
    case True
    then have "append_bounded limit maxBytes ops op = ops"
      by (auto simp: append_bounded_def is_laser_def split: draw_payload.splits)
    then show thesis by (rule that(1))
  next
    case False
    then have "append_bounded limit maxBytes ops op = drop_oldest maxBytes (json_length (JArr (map draw_json ?kept))) ?kept"
      by (auto simp: append_bounded_def is_laser_def Let_def split: draw_payload.splits)
    then show thesis by (rule that(2)) (use k False in \<open>auto simp: list_ex_iff\<close>)
  qed
qed

lemma history_ok_append: "history_ok ops \<Longrightarrow> history_ok (appendWhiteboardOperation ops op)"
proof -
  assume ok: "history_ok ops"
  show ?thesis unfolding appendWhiteboardOperation_def
  proof (cases rule: append_cases [of WHITEBOARD_OP_LIMIT WHITEBOARD_HISTORY_BYTES ops op])
    case 1
    then show "history_ok (append_bounded WHITEBOARD_OP_LIMIT WHITEBOARD_HISTORY_BYTES ops op)" using ok by simp
  next
    case (2 kept)
    let ?new = "append_bounded WHITEBOARD_OP_LIMIT WHITEBOARD_HISTORY_BYTES ops op"
    have new: "suffix ?new (ops @ [op])" "suffix ?new kept"
      using 2(1,2) drop_oldest_suffix suffix_order.trans by metis+
    then obtain ys where "ops @ [op] = ys @ ?new" by (auto simp: suffix_def)
    moreover have "distinct (map op_id (ops @ [op]))" "\<not> list_ex is_laser (ops @ [op])"
      using ok 2(4,5) by (auto simp: history_ok_def)
    ultimately have "distinct (map op_id ?new)" "\<not> list_ex is_laser ?new"
      by (metis distinct_append map_append, metis list_ex_append)
    moreover have "length ?new \<le> WHITEBOARD_OP_LIMIT"
      using suffix_length_le [OF new(2)] 2(3) by simp
    moreover have "in_size WHITEBOARD_HISTORY_BYTES ?new" unfolding 2(1) by (rule drop_oldest_in_size) simp
    ultimately show "history_ok ?new" by (simp add: history_ok_def)
  qed
qed

lemma history_ok_prefix: "history_ok ops \<Longrightarrow> prefix xs ops \<Longrightarrow> history_ok xs"
  using json_length_prefix [of xs ops]
  by (auto simp: history_ok_def in_size_def prefix_def)

text \<open>Undo removes, from the end of the history, the own operations up to and including one that starts
  an item.\<close>

lemma undo_loop_spec:
  "\<exists>removed. ops = removed @ undo_loop own ops \<and> (\<forall>op \<in> set removed. op_author op = own)
     \<and> (\<forall>op \<in> set (butlast removed). \<not> starts_item (op_payload op))
     \<and> (removed \<noteq> [] \<and> starts_item (op_payload (last removed))
        \<or> undo_loop own ops = [] \<or> op_author (hd (undo_loop own ops)) \<noteq> own)"
proof (induction own ops rule: undo_loop.induct)
  case (2 own x rest)
  show ?case
  proof (cases "op_author x = own")
    case True
    show ?thesis
    proof (cases "starts_item (op_payload x)")
      case True
      then show ?thesis using \<open>op_author x = own\<close> by (intro exI [of _ "[x]"]) simp
    next
      case False
      with 2 True obtain removed where "rest = removed @ undo_loop own rest" "\<forall>op \<in> set removed. op_author op = own"
        "\<forall>op \<in> set (butlast removed). \<not> starts_item (op_payload op)"
        "removed \<noteq> [] \<and> starts_item (op_payload (last removed)) \<or> undo_loop own rest = [] \<or> op_author (hd (undo_loop own rest)) \<noteq> own"
        by blast
      then show ?thesis using True False by (intro exI [of _ "x # removed"]) auto
    qed
  qed (auto intro: exI [of _ "[]"])
qed auto

text \<open>Undo takes back the newest item of the own peer and nothing else: the history is the result
  followed by the removed operations, all of them the own peer's; among them only the first can start an
  item; and the removal stops only there, at the start of the history, or before an operation of
  another peer.\<close>

theorem undo_removes_own_item:
  "\<exists>removed. ops = undoOwnWhiteboardOperations ops own @ removed
    \<and> list_all (\<lambda>op. op_author op = own) removed
    \<and> list_all (\<lambda>op. \<not> starts_item (op_payload op)) (tl removed)
    \<and> (removed \<noteq> [] \<and> starts_item (op_payload (hd removed)) \<or> undoOwnWhiteboardOperations ops own = []
       \<or> op_author (last (undoOwnWhiteboardOperations ops own)) \<noteq> own)"
proof -
  obtain removed where "rev ops = removed @ undo_loop own (rev ops)" "\<forall>op \<in> set removed. op_author op = own"
    "\<forall>op \<in> set (butlast removed). \<not> starts_item (op_payload op)"
    "removed \<noteq> [] \<and> starts_item (op_payload (last removed)) \<or> undo_loop own (rev ops) = []
      \<or> op_author (hd (undo_loop own (rev ops))) \<noteq> own"
    using undo_loop_spec [of "rev ops" own] by blast
  moreover have "tl (rev removed) = rev (butlast removed)" by (metis butlast_rev rev_rev_ident)
  ultimately show ?thesis
    by (intro exI [of _ "rev removed"])
      (auto simp: undoOwnWhiteboardOperations_def list_all_iff hd_rev last_rev rev_swap)
qed

theorem undo_removes_own_item_witness:
  "\<exists>removed. [sample_draw] = undoOwnWhiteboardOperations [sample_draw] ''00000000000000bb'' @ removed
    \<and> list_all (\<lambda>op. op_author op = ''00000000000000bb'') removed"
  using undo_removes_own_item [of "[sample_draw]" "''00000000000000bb''"] by blast

lemma history_ok_undo: "history_ok ops \<Longrightarrow> history_ok (undoOwnWhiteboardOperations ops own)"
  using undo_loop_spec [of "rev ops" own]
  by (metis history_ok_prefix prefixI rev_append rev_rev_ident undoOwnWhiteboardOperations_def)

datatype board_action =
    B_Ingest room delivery bytes int | B_Publish room bytes string jsval | B_Request_Sync room bytes
  | B_Request_Clear room | B_Undo room | B_Laser room bytes jnum jnum int | B_Prune int
  | B_Clear room "(string \<times> jsval) list" | B_Reset | B_Destroy

fun board_step :: "board_service \<Rightarrow> board_action \<Rightarrow> board_service" where
  "board_step s (B_Ingest r d rnd now) = fst (snd (board_ingest r d rnd now s))"
| "board_step s (B_Publish r rnd kind payload) = fst (snd (board_publish r rnd kind payload s))"
| "board_step s (B_Request_Sync r rnd) = fst (snd (board_requestSync r rnd s))"
| "board_step s (B_Request_Clear r) = fst (requestClear r s)"
| "board_step s (B_Undo r) = undoOwn r s"
| "board_step s (B_Laser r rnd x y now) = fst (snd (sendLaser r rnd x y now s))"
| "board_step s (B_Prune now) = pruneOldLasers now s"
| "board_step s (B_Clear r message) = applyClear r message s"
| "board_step s B_Reset = board_reset s"
| "board_step s B_Destroy = board_destroy s"

lemma history_ok_Nil [simp]: "history_ok []"
  by (simp add: history_ok_def in_size_def)

lemma history_ok_merge: "history_ok (bd_ops s) \<Longrightarrow> history_ok (bd_ops (merge_sync r items s))"
  by (induction r items s rule: merge_sync.induct) (auto simp: history_ok_append)

lemma board_answer_state [simp]: "fst (snd (board_answer r rnd origin s)) = s"
  by (auto simp: board_answer_def Let_def split: option.split sum.split)

lemma history_ok_step: "history_ok (bd_ops s) \<Longrightarrow> history_ok (bd_ops (board_step s a))"
proof (cases a)
  case (B_Ingest r d rnd now)
  assume "history_ok (bd_ops s)"
  then show ?thesis unfolding B_Ingest
    by (auto simp: board_ingest_def Let_def history_ok_append updateRemoteLaser_def intro!: history_ok_merge
        split: option.split board_payload.split draw_payload.split)
qed (auto simp: board_publish_def board_requestSync_def requestClear_def undoOwn_def sendLaser_def pruneOldLasers_def
    applyClear_def board_reset_def board_destroy_def Let_def history_ok_append history_ok_undo
    split: option.split sum.split board_payload.split)

text \<open>C30. The history of the whiteboard is bounded: after any sequence of deliveries, own drawings, undos
  and clears it holds at most 2048 operations, no operation id twice and no laser pointer, and its JSON
  text is at most 500 KiB long (a single operation apart).\<close>

theorem whiteboard_history_bounded:
  "history_ok (bd_ops (foldl board_step new_board_service actions))"
proof -
  have "history_ok (bd_ops s) \<Longrightarrow> history_ok (bd_ops (foldl board_step s actions))" for s
    by (induction actions arbitrary: s) (auto simp: history_ok_step)
  then show ?thesis by (simp add: new_board_service_def)
qed

subsection \<open>Authorisation\<close>

lemma foldl_set_add: "set (foldl (\<lambda>acc p. set_add p acc) acc xs) = set acc \<union> set xs"
  by (induction xs arbitrary: acc) auto

lemma foldl_owner_ids:
  "set (foldl (\<lambda>acc p. if pt_role p = Owner then set_add (pt_peerId p) acc else acc) acc ps) =
     set acc \<union> {pt_peerId p |p. p \<in> set ps \<and> pt_role p = Owner}"
  by (induction ps arbitrary: acc) auto

lemma append_new_ops: "set (appendWhiteboardOperation ops op) \<subseteq> insert op (set ops)"
  unfolding appendWhiteboardOperation_def
proof (cases rule: append_cases [of WHITEBOARD_OP_LIMIT WHITEBOARD_HISTORY_BYTES ops op])
  case (2 kept)
  then have "suffix (append_bounded WHITEBOARD_OP_LIMIT WHITEBOARD_HISTORY_BYTES ops op) (ops @ [op])"
    using drop_oldest_suffix suffix_order.trans by metis
  from set_mono_suffix [OF this]
  show "set (append_bounded WHITEBOARD_OP_LIMIT WHITEBOARD_HISTORY_BYTES ops op) \<subseteq> insert op (set ops)" by simp
qed auto

lemma merge_sync_new_ops:
  "op \<in> set (bd_ops (merge_sync r items s)) \<Longrightarrow> op \<in> set (bd_ops s) \<or> op \<in> set items \<and> may_apply r op"
proof (induction r items s rule: merge_sync.induct)
  case (2 r item items s)
  then show ?case using append_new_ops [of "bd_ops s" item] by (auto split: if_splits)
qed simp

lemma board_ingest_new_ops:
  assumes "op \<in> set (bd_ops (fst (snd (board_ingest r d rnd now s))))" and "op \<notin> set (bd_ops s)"
  shows "may_apply r op"
  using assms append_new_ops merge_sync_new_ops
  by (fastforce simp: board_ingest_def updateRemoteLaser_def Let_def
      split: option.splits board_payload.splits draw_payload.splits if_splits)

text \<open>C31. In a room where only presenters draw, every operation a delivery adds to the board names as its
  author an owner or the presenter; a \<open>clear\<close> does so under every policy.\<close>

theorem whiteboard_draws_need_role:
  assumes "op \<in> set (bd_ops (fst (snd (board_ingest r d rnd now s))))" and "op \<notin> set (bd_ops s)"
    and "md_whiteboardPolicy (rm_moderation r) = Presenter_Only \<or> op_payload op = Clear_Board"
  shows "op_author op = md_presenterPeerId (rm_moderation r)
    \<or> (\<exists>p \<in> set (md_participants (rm_moderation r)). pt_peerId p = op_author op \<and> pt_role p = Owner)"
  using board_ingest_new_ops [OF assms(1,2)] assms(3)
  by (auto simp: may_apply_def clearers_def drawers_def authorizedClearPeerIds_def authorizedDrawerPeerIds_def
      foldl_set_add foldl_owner_ids Let_def split: if_splits)

lemma drop_oldest_last: "ops \<noteq> [] \<Longrightarrow> drop_oldest maxBytes bytes ops \<noteq> [] \<and> last (drop_oldest maxBytes bytes ops) = last ops"
  by (induction maxBytes bytes ops rule: drop_oldest.induct) auto

lemma append_last:
  assumes "\<not> is_laser op" and "\<forall>item \<in> set ops. op_id item \<noteq> op_id op"
  shows "last (appendWhiteboardOperation ops op) = op \<and> appendWhiteboardOperation ops op \<noteq> []"
proof -
  have ex: "\<not> list_ex (\<lambda>item. op_id item = op_id op) ops" using assms(2) by (auto simp: list_ex_iff)
  let ?all = "ops @ [op]"
  let ?kept = "if WHITEBOARD_OP_LIMIT < length ?all then drop (length ?all - WHITEBOARD_OP_LIMIT) ?all else ?all"
  have kept: "?kept \<noteq> []" "last ?kept = op" by (auto simp: WHITEBOARD_OP_LIMIT_def last_drop)
  have "appendWhiteboardOperation ops op =
      drop_oldest WHITEBOARD_HISTORY_BYTES (json_length (JArr (map draw_json ?kept))) ?kept"
    using ex assms(1) by (auto simp: appendWhiteboardOperation_def append_bounded_def is_laser_def Let_def split: draw_payload.splits)
  then show ?thesis using drop_oldest_last [OF kept(1)] kept(2) by simp
qed

text \<open>C32. The author of an operation in a synchronisation answer is not verified, and the sender of the
  answer needs no role: any known peer, also one that may not draw, can put an operation on the board in
  the name of an owner or presenter.\<close>

theorem sync_answer_forges_author:
  assumes "ingestWhiteboardDelivery d (rm_epoch r) (known_peers r) (bd_seen s) = Some op"
    and "op_payload op = Board_Sync_Response [item]" and "dl_origin d \<notin> set (drawers r) \<union> set (clearers r)"
    and "may_apply r item" and "\<not> is_laser item"
    and "op_id item \<notin> insert (op_id op) (set (bd_seen s)) \<union> op_id ` set (bd_ops s)"
  shows "op_author item \<noteq> dl_origin d \<and> last (bd_ops (fst (snd (board_ingest r d rnd now s)))) = item"
proof
  show "op_author item \<noteq> dl_origin d" using assms(3,4) by (auto simp: may_apply_def split: if_splits)
  have "\<forall>x \<in> set (bd_ops s). op_id x \<noteq> op_id item" using assms(6) by (metis UnCI imageI)
  then show "last (bd_ops (fst (snd (board_ingest r d rnd now s)))) = item"
    using append_last [OF assms(5)] assms(1,2,4,6) by (simp add: board_ingest_def Let_def)
qed

definition board_room :: room where
  "board_room = \<lparr>rm_joined = True, rm_peerId = ''00000000000000cc'', rm_epoch = 3,
     rm_peers = [''00000000000000aa'', ''00000000000000bb''], rm_machines = [],
     rm_moderation = new_moderation\<lparr>md_whiteboardPolicy := Presenter_Only, md_participants :=
       [\<lparr>pt_peerId = ''00000000000000bb'', pt_role = Owner, pt_hand = Hand_None, pt_raisedAt = 0\<rparr>,
        \<lparr>pt_peerId = ''00000000000000aa'', pt_role = Participant, pt_hand = Hand_None, pt_raisedAt = 0\<rparr>]\<rparr>\<rparr>"

text \<open>The answer \<open>sample_sync\<close> comes from a participant and carries an operation of the owner.\<close>

definition sample_answer :: delivery where
  "sample_answer = \<lparr>dl_id = 1, dl_origin = ''00000000000000aa'', dl_class = Bulk,
     dl_data = text_encode (stringify (board_json sample_sync))\<rparr>"

lemma sample_answer_decodes: "decodeWhiteboardBytes (dl_data sample_answer) = Some sample_sync"
  using board.op.decode_encode [OF _ sample_sync_utf8 [unfolded board_json_def]
      sample_sync_accepted [unfolded parseWhiteboardOperation_def board_json_def]]
    encodeWhiteboard_accepted [OF sample_sync_accepted]
  by (simp add: sample_answer_def decodeWhiteboardBytes_def encodeWhiteboardOperation_def parseWhiteboardOperation_def board_json_def)

lemma sample_answer_short: "length (dl_data sample_answer) \<le> WHITEBOARD_SYNC_MAX_BYTES"
  by (simp add: sample_answer_def text_encode_def str_bytes_def sample_sync_def sample_draw_def board_json_def draw_json_def
      op_json_def op_object_def point_json_def shape_name_def WHITEBOARD_SYNC_MAX_BYTES_def json_quote_def json_escape_def
      Let_def int_str_def nat_str.simps)

lemma sample_answer_admitted:
  "ingestWhiteboardDelivery sample_answer (rm_epoch board_room) (known_peers board_room) (bd_seen new_board_service) = Some sample_sync"
  using sample_answer_decodes sample_answer_short
  by (simp add: ingestWhiteboardDelivery_def sample_sync_def admit_def board_room_def known_peers_def new_board_service_def
      sample_answer_def)

lemma sample_roles:
  "dl_origin sample_answer \<notin> set (drawers board_room) \<union> set (clearers board_room)" "may_apply board_room sample_draw"
  by (simp_all add: drawers_def clearers_def may_apply_def authorizedDrawerPeerIds_def authorizedClearPeerIds_def board_room_def
      new_moderation_def sample_answer_def sample_draw_def set_add_def Let_def)

theorem sync_answer_forges_author_witness:
  "op_author sample_draw \<noteq> dl_origin sample_answer
    \<and> last (bd_ops (fst (snd (board_ingest board_room sample_answer [] 0 new_board_service)))) = sample_draw"
  by (rule sync_answer_forges_author [OF sample_answer_admitted _ sample_roles])
    (simp_all add: sample_sync_def sample_draw_def is_laser_def new_board_service_def)

lemma sample_answer_drawn: "bd_ops (fst (snd (board_ingest board_room sample_answer [] 0 new_board_service))) = [sample_draw]"
  using sample_answer_admitted sample_roles(2)
  by (simp add: board_ingest_def sample_sync_def new_board_service_def Let_def)
    (simp add: sample_draw_def appendWhiteboardOperation_def append_bounded_def WHITEBOARD_OP_LIMIT_def)

theorem whiteboard_draws_need_role_witness:
  "bd_ops (fst (snd (board_ingest board_room sample_answer [] 0 new_board_service))) = [sample_draw]
    \<and> (\<exists>p \<in> set (md_participants (rm_moderation board_room)). pt_peerId p = op_author sample_draw \<and> pt_role p = Owner)"
proof -
  have "op_author sample_draw = md_presenterPeerId (rm_moderation board_room)
      \<or> (\<exists>p \<in> set (md_participants (rm_moderation board_room)). pt_peerId p = op_author sample_draw \<and> pt_role p = Owner)"
    using sample_answer_drawn
    by (intro whiteboard_draws_need_role [of sample_draw board_room sample_answer "[]" 0 new_board_service])
      (simp_all add: new_board_service_def board_room_def)
  then show ?thesis using sample_answer_drawn by (simp add: board_room_def new_moderation_def sample_draw_def)
qed

subsection \<open>Repeated operations\<close>

type_synonym board_delivery = "room \<times> delivery \<times> bytes \<times> int"

definition board_handle :: "board_delivery \<Rightarrow> board_service \<Rightarrow> board_service" where
  "board_handle e s = (case e of (r, d, rnd, now) \<Rightarrow> fst (snd (board_ingest r d rnd now s)))"

definition board_drops :: "board_delivery \<Rightarrow> board_service \<Rightarrow> bool" where
  "board_drops e s \<longleftrightarrow> (case e of (r, d, rnd, now) \<Rightarrow> board_ingest r d rnd now s = (Inr False, s, []))"

definition board_carries :: "board_delivery \<Rightarrow> board_operation option" where
  "board_carries e = (case e of (r, d, rnd, now) \<Rightarrow> decodeWhiteboardBytes (dl_data d))"

text \<open>The positions of the laser pointer are the operations the service does not remember. An operation enters the history in its
  own message or as an item of a synchronisation answer.\<close>

definition board_laser :: "board_operation \<Rightarrow> bool" where
  "board_laser op = (case op_payload op of Draw p \<Rightarrow> is_laser (as_draw op p) | _ \<Rightarrow> False)"

definition board_enters :: "draw_operation \<Rightarrow> board_delivery \<Rightarrow> board_service \<Rightarrow> bool" where
  "board_enters item e s \<longleftrightarrow> item \<in> set (bd_ops (board_handle e s)) \<and> item \<notin> set (bd_ops s)"

lemma ingestWhiteboardDelivery_Some:
  "ingestWhiteboardDelivery d epoch known seen = Some op \<Longrightarrow> decodeWhiteboardBytes (dl_data d) = Some op \<and>
     op_epoch op = epoch \<and> op_author op = dl_origin d \<and> dl_origin d \<in> set known \<and> op_id op \<notin> set seen"
  by (auto simp: ingestWhiteboardDelivery_def admit_Some_iff split: if_splits option.splits board_payload.splits)

lemma merge_sync_seen: "set (bd_seen s) \<subseteq> set (bd_seen (merge_sync r items s))"
proof (induction r items s rule: merge_sync.induct)
  case (2 r item items s)
  then show ?case by auto
qed simp

lemma merge_sync_enters:
  "item \<in> set (bd_ops (merge_sync r items s)) \<Longrightarrow>
     item \<in> set (bd_ops s) \<or> op_id item \<notin> set (bd_seen s) \<and> op_id item \<in> set (bd_seen (merge_sync r items s))"
proof (induction r items s rule: merge_sync.induct)
  case (2 r x items s)
  let ?s = "s\<lparr>bd_seen := set_add (op_id x) (bd_seen s), bd_ops := appendWhiteboardOperation (bd_ops s) x\<rparr>"
  have "op_id x \<in> set (bd_seen (merge_sync r items ?s))" using merge_sync_seen [of ?s r items] by auto
  then show ?case using 2 append_new_ops [of "bd_ops s" x] by (auto split: if_splits)
qed simp

lemma board_ingest_cases:
  assumes "ingestWhiteboardDelivery d (rm_epoch r) (known_peers r) (bd_seen s) = Some op"
  obtains (laser) p lasers where "op_payload op = Draw (Laser p)" "fst (snd (board_ingest r d rnd now s)) = s\<lparr>bd_remoteLasers := lasers\<rparr>"
  | (refused) "board_ingest r d rnd now s = (Inr False, s, [])"
  | (drawn) p where "op_payload op = Draw p" "\<not> is_laser (as_draw op p)"
      "board_ingest r d rnd now s = (Inr True, s\<lparr>bd_seen := set_add (op_id op) (bd_seen s), bd_ops := appendWhiteboardOperation (bd_ops s) (as_draw op p)\<rparr>, [])"
  | (request) res out where "op_payload op = Board_Sync_Request"
      "board_ingest r d rnd now s = (res, s\<lparr>bd_seen := set_add (op_id op) (bd_seen s)\<rparr>, out)"
  | (answer) items where "op_payload op = Board_Sync_Response items"
      "board_ingest r d rnd now s = (Inr True, merge_sync r items (s\<lparr>bd_seen := set_add (op_id op) (bd_seen s)\<rparr>), [])"
proof (cases "op_payload op")
  case (Draw p)
  show ?thesis
  proof (cases "is_laser (as_draw op p)")
    case True
    then obtain q where "p = Laser q" by (auto simp: is_laser_def as_draw_def split: draw_payload.splits)
    then show ?thesis using laser Draw assms
      by (cases "op_author op \<in> set (drawers r)") (auto simp: board_ingest_def updateRemoteLaser_def Let_def intro: refused)
  next
    case False
    then show ?thesis using Draw assms drawn refused
      by (cases "may_apply r (as_draw op p)") (auto simp: board_ingest_def is_laser_def as_draw_def Let_def split: draw_payload.splits)
  qed
next
  case Board_Sync_Request
  have "fst (snd (board_answer r rnd (dl_origin d) s1)) = s1" for s1
    by (auto simp: board_answer_def Let_def split: option.splits sum.splits)
  then obtain res out where "board_answer r rnd (dl_origin d) (s\<lparr>bd_seen := set_add (op_id op) (bd_seen s)\<rparr>) = (res, s\<lparr>bd_seen := set_add (op_id op) (bd_seen s)\<rparr>, out)"
    by (metis prod.collapse)
  then show ?thesis using request [OF Board_Sync_Request] assms Board_Sync_Request by (simp add: board_ingest_def Let_def)
next
  case (Board_Sync_Response items)
  then show ?thesis using answer assms by (simp add: board_ingest_def Let_def)
qed

interpretation board_replay: replay_guard bd_seen board_handle board_drops board_carries "\<lambda>op. \<not> board_laser op"
proof unfold_locales
  fix e :: "board_delivery" and s :: board_service and op :: board_operation
  obtain r d rnd now where e: "e = (r, d, rnd, now)" by (cases e)
  let ?in = "ingestWhiteboardDelivery d (rm_epoch r) (known_peers r) (bd_seen s)"
  have none: "board_drops e s \<and> board_handle e s = s" if "?in = None" using that by (simp add: e board_drops_def board_handle_def board_ingest_def)
  have some: "decodeWhiteboardBytes (dl_data d) = Some op'" "op_id op' \<notin> set (bd_seen s)" "set (bd_seen s) \<subseteq> set (bd_seen (board_handle e s))"
      "\<not> board_drops e s \<Longrightarrow> \<not> board_laser op' \<Longrightarrow> op_id op' \<in> set (bd_seen (board_handle e s))" if i: "?in = Some op'" for op'
  proof -
    show "decodeWhiteboardBytes (dl_data d) = Some op'" "op_id op' \<notin> set (bd_seen s)" using ingestWhiteboardDelivery_Some [OF i] by auto
    show "set (bd_seen s) \<subseteq> set (bd_seen (board_handle e s))"
      using i by (cases rule: board_ingest_cases [of d r s op' rnd now])
        (use merge_sync_seen [of "s\<lparr>bd_seen := set_add (op_id op') (bd_seen s)\<rparr>" r] in \<open>auto simp: e board_handle_def\<close>)
    show "op_id op' \<in> set (bd_seen (board_handle e s))" if "\<not> board_drops e s" "\<not> board_laser op'"
      using i by (cases rule: board_ingest_cases [of d r s op' rnd now])
        (use that merge_sync_seen [of "s\<lparr>bd_seen := set_add (op_id op') (bd_seen s)\<rparr>" r] in
          \<open>auto simp: e board_handle_def board_drops_def board_laser_def is_laser_def as_draw_def\<close>)
  qed
  show "\<not> board_drops e s \<Longrightarrow> board_carries e = Some op \<Longrightarrow> \<not> board_laser op \<Longrightarrow> op_id op \<in> set (bd_seen (board_handle e s))"
    using none some by (cases ?in) (auto simp: e board_carries_def)
  show "set (bd_seen s) \<subseteq> set (bd_seen (board_handle e s))" using none some(3) by (cases ?in) auto
  show "board_carries e = Some op \<Longrightarrow> op_id op \<in> set (bd_seen s) \<Longrightarrow> board_drops e s"
    using none some(1,2) by (cases ?in) (auto simp: e board_carries_def)
qed

lemma board_enters_seen:
  assumes "board_enters item e s" shows "op_id item \<notin> set (bd_seen s) \<and> op_id item \<in> set (bd_seen (board_handle e s))"
proof -
  obtain r d rnd now where e: "e = (r, d, rnd, now)" by (cases e)
  let ?in = "ingestWhiteboardDelivery d (rm_epoch r) (known_peers r) (bd_seen s)"
  have "board_handle e s = s" if "?in = None" using that by (simp add: e board_handle_def board_ingest_def)
  then have "?in \<noteq> None" using assms unfolding board_enters_def by metis
  then obtain op where i: "?in = Some op" by blast
  note new = ingestWhiteboardDelivery_Some [OF i]
  from i show ?thesis
  proof (cases rule: board_ingest_cases [of d r s op rnd now])
    case (drawn p)
    then show ?thesis using assms new append_new_ops [of "bd_ops s" "as_draw op p"] by (auto simp: e board_enters_def board_handle_def as_draw_def)
  next
    case (answer items)
    let ?m = "s\<lparr>bd_seen := set_add (op_id op) (bd_seen s)\<rparr>"
    have "item \<in> set (bd_ops (merge_sync r items ?m))" "item \<notin> set (bd_ops ?m)" using assms answer by (auto simp: e board_enters_def board_handle_def)
    then have "op_id item \<notin> set (bd_seen ?m)" "op_id item \<in> set (bd_seen (merge_sync r items ?m))" using merge_sync_enters by blast+
    then show ?thesis using answer by (simp add: e board_handle_def)
  qed (use assms in \<open>auto simp: e board_enters_def board_handle_def\<close>)
qed

lemma board_enters_once:
  assumes "board_enters item e s"
  shows "board_carries e' = Some op \<Longrightarrow> op_id op = op_id item \<Longrightarrow> board_drops e' (fold board_handle es (board_handle e s))"
    and "board_enters item' e' (fold board_handle es (board_handle e s)) \<Longrightarrow> op_id item' \<noteq> op_id item"
proof -
  have seen: "op_id item \<in> set (bd_seen (board_handle e s))" using board_enters_seen [OF assms] by blast
  then show "board_carries e' = Some op \<Longrightarrow> op_id op = op_id item \<Longrightarrow> board_drops e' (fold board_handle es (board_handle e s))"
    by (rule board_replay.seen_dropped_later)
  show "board_enters item' e' (fold board_handle es (board_handle e s)) \<Longrightarrow> op_id item' \<noteq> op_id item"
    using seen board_replay.seen_run [of "board_handle e s" es] board_enters_seen [of item' e'] by auto
qed

lemma board_laser_moves:
  assumes "board_carries e = Some op" "board_laser op" shows "\<exists>lasers. board_handle e s = s\<lparr>bd_remoteLasers := lasers\<rparr>"
proof -
  obtain r d rnd now where e: "e = (r, d, rnd, now)" by (cases e)
  have same: "\<exists>lasers. s = s\<lparr>bd_remoteLasers := lasers\<rparr>" by (intro exI [of _ "bd_remoteLasers s"]) simp
  show ?thesis
  proof (cases "ingestWhiteboardDelivery d (rm_epoch r) (known_peers r) (bd_seen s)")
    case None
    then show ?thesis using same by (simp add: e board_handle_def board_ingest_def)
  next
    case (Some op')
    then have "op' = op" using assms(1) ingestWhiteboardDelivery_Some [OF Some] by (simp add: e board_carries_def)
    with Some show ?thesis
      by (cases rule: board_ingest_cases [of d r s op' rnd now])
        (use assms(2) same in \<open>auto simp: e board_handle_def board_laser_def\<close>)
  qed
qed

subsection \<open>The size of a synchronisation answer\<close>

lemma bound_loop_size:
  assumes "currentBytes = 100 + sum_list (map (json_length \<circ> draw_json) result)" and "currentBytes \<le> maxBytes"
    and "length result \<le> maxOps"
  shows "100 + sum_list (map (json_length \<circ> draw_json) (bound_loop maxOps maxBytes currentBytes result ops)) \<le> maxBytes
    \<and> length (bound_loop maxOps maxBytes currentBytes result ops) \<le> maxOps
    \<and> set (bound_loop maxOps maxBytes currentBytes result ops) \<subseteq> set result \<union> set ops"
  using assms
proof (induction ops arbitrary: currentBytes result)
  case (Cons op older)
  consider (stop) "maxOps \<le> length result \<or> \<not> is_laser op \<and> maxBytes < currentBytes + json_length (draw_json op)"
    | (laser) "length result < maxOps" "is_laser op"
    | (keep) "length result < maxOps" "\<not> is_laser op" "currentBytes + json_length (draw_json op) \<le> maxBytes"
    by linarith
  then show ?case
  proof cases
    case stop
    then have "bound_loop maxOps maxBytes currentBytes result (op # older) = result"
      by (auto simp: is_laser_def Let_def split: draw_payload.split)
    then show ?thesis using Cons.prems by auto
  next
    case laser
    then have step: "bound_loop maxOps maxBytes currentBytes result (op # older) = bound_loop maxOps maxBytes currentBytes result older"
      by (auto simp: is_laser_def split: draw_payload.splits)
    show ?thesis unfolding step using Cons.IH [OF Cons.prems] by auto
  next
    case keep
    then have step: "bound_loop maxOps maxBytes currentBytes result (op # older) =
        bound_loop maxOps maxBytes (currentBytes + json_length (draw_json op)) (op # result) older"
      by (auto simp: is_laser_def Let_def split: draw_payload.splits)
    show ?thesis unfolding step
      using Cons.IH [of "currentBytes + json_length (draw_json op)" "op # result"] Cons.prems keep by auto
  qed
qed simp


lemma answer_length:
  assumes "parseWhiteboardOperation v = Some response" and "op_payload response = Board_Sync_Response ops"
  shows "length (stringify (board_json response)) \<le> 700 + sum_list (map (\<lambda>op. length (stringify (draw_json op))) ops) + length ops"
proof -
  note h = board.parse_op_Some [OF assms(1) [unfolded parseWhiteboardOperation_def]]
  have "length (stringify (JInt (op_epoch response))) \<le> 17" "length (stringify (JInt 1)) \<le> 17"
    using h(2,3) by (intro length_int_text; simp add: MAX_SAFE_INTEGER_def)+
  then show ?thesis
    using id_lengths(1) [OF h(1)] id_lengths(2) [OF h(4)] assms(2)
      length_json_quote [of "op_id response"] length_json_quote [of "op_author response"]
    by (simp add: board_json_def op_json_def op_object_def elem_texts_map length_join o_def
        del: stringify.simps(4) num_str.simps)
      (simp add: json_quote_def json_escape_def Let_def del: num_str.simps)
qed

lemma sum_lengths:
  "(\<And>x. x \<in> set xs \<Longrightarrow> int (f x) = (g \<circ> h) x) \<Longrightarrow> int (sum_list (map f xs)) = sum_list (map (g \<circ> h) xs)"
  by (induction xs) auto

text \<open>An answer to a synchronisation request fits the transport: when the operations of the history are
  valid and their JSON texts are ASCII, the encoded answer is at most 512 KiB long, which is what the
  receiver admits. (The limits count UTF-16 units, so the premise on ASCII is needed.)\<close>

theorem whiteboard_sync_answer_fits:
  assumes "board_answer r rnd origin s = (res, s', [(to, bs, cls)])"
    and "\<forall>op \<in> set (bd_ops s). parse_sync_item (draw_json op) = Some op \<and> ascii (stringify (draw_json op))"
  shows "length bs \<le> WHITEBOARD_SYNC_MAX_BYTES"
proof -
  let ?ops = "boundSyncOps (bd_ops s)"
  have b: "100 + sum_list (map (json_length \<circ> draw_json) ?ops) \<le> WHITEBOARD_HISTORY_BYTES" "length ?ops \<le> WHITEBOARD_OP_LIMIT"
      "set ?ops \<subseteq> set (bd_ops s)"
    using bound_loop_size [of 100 "[]" WHITEBOARD_HISTORY_BYTES WHITEBOARD_OP_LIMIT "rev (bd_ops s)"]
    by (simp_all add: boundSyncOps_def WHITEBOARD_HISTORY_BYTES_def)
  obtain response where p: "parseWhiteboardOperation (op_object ''whiteboard-op'' (opId rnd) (rm_epoch r) (rm_peerId r)
      ''sync-response'' (JObj [(''ops'', JArr (map draw_json ?ops))])) = Some response"
    and bs: "encodeWhiteboardOperation response = Inr bs"
    using assms(1) by (auto simp: board_answer_def Let_def split: if_splits option.splits sum.splits)
  have "collect parse_sync_item (map draw_json ?ops) = Some ?ops"
    using b(3) assms(2) by (intro collect_map_id) blast
  then have payload: "op_payload response = Board_Sync_Response ?ops"
    using p by (auto simp: parseWhiteboardOperation_def parse_op_def op_object_def parse_board_payload_def
        parse_sync_response_def js_simps split: option.splits if_splits)
  have "int (length (stringify (draw_json op))) = (json_length \<circ> draw_json) op" if "op \<in> set ?ops" for op
    using that b(3) assms(2) by (simp add: json_length_def js_length_ascii subset_iff)
  then have "int (sum_list (map (\<lambda>op. length (stringify (draw_json op))) ?ops)) = sum_list (map (json_length \<circ> draw_json) ?ops)"
    by (rule sum_lengths)
  moreover have "length bs = length (stringify (board_json response))"
    using bs encodeWhiteboard_accepted [OF p] by (auto simp: text_encode_def str_bytes_def)
  ultimately show ?thesis
    using answer_length [OF p payload] b(1,2)
    by (simp add: WHITEBOARD_HISTORY_BYTES_def WHITEBOARD_SYNC_MAX_BYTES_def WHITEBOARD_OP_LIMIT_def)
qed

abbreviation owner_room :: room where
  "owner_room \<equiv> board_room\<lparr>rm_peerId := ''00000000000000bb'', rm_peers := [''00000000000000aa''],
     rm_moderation := (rm_moderation board_room)\<lparr>md_ownPeerId := ''00000000000000bb''\<rparr>\<rparr>"

lemma sample_draw_ascii: "ascii (stringify (draw_json sample_draw))"
  by (simp add: sample_draw_def draw_json_def op_json_def op_object_def point_json_def shape_name_def json_quote_def
      json_escape_def Let_def int_str_def nat_str.simps digit_char_def ascii_def)

lemma sample_history_answer:
  "\<exists>bs. board_answer owner_room (replicate 16 10) ''00000000000000aa'' (new_board_service\<lparr>bd_ops := [sample_draw]\<rparr>) =
    (Inr True, new_board_service\<lparr>bd_ops := [sample_draw]\<rparr>, [(''00000000000000aa'', bs, Bulk)])"
proof -
  have size: "json_length (draw_json sample_draw) \<le> 1000"
    by (simp add: json_length_def js_length_ascii [OF sample_draw_ascii])
      (simp add: sample_draw_def draw_json_def op_json_def op_object_def point_json_def shape_name_def json_quote_def
        json_escape_def Let_def int_str_def nat_str.simps)
  have ops: "boundSyncOps [sample_draw] = [sample_draw]"
    using size by (simp add: boundSyncOps_def WHITEBOARD_OP_LIMIT_def WHITEBOARD_HISTORY_BYTES_def sample_draw_def Let_def)
  have "OP_ID (opId (replicate 16 10))" by (rule OP_ID_opId) (simp add: random16_def)
  then obtain response where p: "parseWhiteboardOperation (op_object ''whiteboard-op'' (opId (replicate 16 10)) (rm_epoch owner_room)
      (rm_peerId owner_room) ''sync-response'' (JObj [(''ops'', JArr (map draw_json [sample_draw]))])) = Some response"
    unfolding parseWhiteboardOperation_def
    by (subst (asm) board.parse_op_object)
      (simp_all add: board_room_def parse_board_payload_def parse_sync_response_def MAX_SYNC_OPS_def sample_draw_accepted
        js_simps MAX_SAFE_INTEGER_def PEER_ID_def matches_def lower_hex_def)
  have "board_shouldRespond owner_room (new_board_service\<lparr>bd_ops := [sample_draw]\<rparr>)"
    by (simp add: board_shouldRespond_def board_room_def ownRole_def find_own_def)
  then show ?thesis using p encodeWhiteboard_accepted [OF p] ops by (simp add: board_answer_def Let_def)
qed

theorem whiteboard_sync_answer_fits_witness:
  "\<exists>bs. board_answer owner_room (replicate 16 10) ''00000000000000aa'' (new_board_service\<lparr>bd_ops := [sample_draw]\<rparr>) =
      (Inr True, new_board_service\<lparr>bd_ops := [sample_draw]\<rparr>, [(''00000000000000aa'', bs, Bulk)])
    \<and> length bs \<le> WHITEBOARD_SYNC_MAX_BYTES"
proof -
  obtain bs where a: "board_answer owner_room (replicate 16 10) ''00000000000000aa'' (new_board_service\<lparr>bd_ops := [sample_draw]\<rparr>) =
      (Inr True, new_board_service\<lparr>bd_ops := [sample_draw]\<rparr>, [(''00000000000000aa'', bs, Bulk)])"
    using sample_history_answer by blast
  have "length bs \<le> WHITEBOARD_SYNC_MAX_BYTES"
    by (rule whiteboard_sync_answer_fits [OF a]) (simp add: sample_draw_accepted sample_draw_ascii)
  then show ?thesis using a by blast
qed

end
