(* ===== verification/Slides_Contract.thy ===== *)
theory Slides_Contract
  imports Whiteboard
begin

text \<open>
  \<^verbatim>\<open>webrtc/slide-presentation-contract.ts\<close>: the events of a slide presentation and their wire form. The
  fields of an action lie beside the common fields, so the contract is stated for the whole event.
\<close>

datatype slide_mime = Jpeg | Png | Webp

datatype slide_action =
    Change_Slide nat nat
  | Slide_Image_Chunk nat nat nat slide_mime string
  | Clear_Deck

type_synonym slide_event = "slide_action operation"

definition MAX_SLIDES :: int where
  "MAX_SLIDES = 100"

definition MAX_CHUNKS :: int where
  "MAX_CHUNKS = 32"

definition MAX_CHUNK_BASE64_LENGTH :: nat where
  "MAX_CHUNK_BASE64_LENGTH = 12000"

definition MIMES :: "(string \<times> slide_mime) list" where
  "MIMES = [(''image/jpeg'', Jpeg), (''image/png'', Png), (''image/webp'', Webp)]"

definition base64_char :: "char \<Rightarrow> bool" where
  "base64_char c = (c \<in> set ''ABCDEFGHIJKLMNOPQRSTUVWXYZabcdefghijklmnopqrstuvwxyz0123456789+/='')"

definition BASE64_RE :: "string \<Rightarrow> bool" where
  "BASE64_RE s = (s \<noteq> [] \<and> list_all base64_char s)"

definition BASE_FIELDS :: "string list" where
  "BASE_FIELDS = [''version'', ''type'', ''opId'', ''membershipEpoch'', ''authorPeerId'', ''action'']"

definition parse_change :: "(string \<times> jsval) list \<Rightarrow> slide_action option" where
  "parse_change rec =
     (case exact (JObj rec) (BASE_FIELDS @ [''slideIndex'', ''totalSlides'']) of None \<Rightarrow> None
      | Some _ \<Rightarrow> (case js_integer (js_get rec ''slideIndex'') 0 (MAX_SLIDES - 1) of None \<Rightarrow> None
      | Some i \<Rightarrow> (case js_integer (js_get rec ''totalSlides'') 1 MAX_SLIDES of None \<Rightarrow> None
      | Some n \<Rightarrow> if n \<le> i then None else Some (Change_Slide (nat i) (nat n)))))"

definition parse_chunk :: "(string \<times> jsval) list \<Rightarrow> slide_action option" where
  "parse_chunk rec =
     (case exact (JObj rec) (BASE_FIELDS @ [''slideIndex'', ''chunkIndex'', ''totalChunks'', ''mimeType'', ''data'']) of None \<Rightarrow> None
      | Some _ \<Rightarrow> (case js_integer (js_get rec ''slideIndex'') 0 (MAX_SLIDES - 1) of None \<Rightarrow> None
      | Some i \<Rightarrow> (case js_integer (js_get rec ''totalChunks'') 1 MAX_CHUNKS of None \<Rightarrow> None
      | Some n \<Rightarrow> (case js_integer (js_get rec ''chunkIndex'') 0 (n - 1) of None \<Rightarrow> None
      | Some k \<Rightarrow> (case named MIMES (js_get rec ''mimeType'') of None \<Rightarrow> None
      | Some mime \<Rightarrow> (case js_string (js_get rec ''data'') of None \<Rightarrow> None
      | Some data \<Rightarrow>
          if js_length data < 1 \<or> MAX_CHUNK_BASE64_LENGTH < js_length data \<or> \<not> BASE64_RE data then None
          else Some (Slide_Image_Chunk (nat i) (nat k) (nat n) mime data)))))))"

definition parse_clear :: "(string \<times> jsval) list \<Rightarrow> slide_action option" where
  "parse_clear rec = map_option (\<lambda>_. Clear_Deck) (exact (JObj rec) BASE_FIELDS)"

definition parse_action :: "string \<Rightarrow> (string \<times> jsval) list \<Rightarrow> slide_action option" where
  "parse_action action rec =
     (if action = ''change-slide'' then parse_change rec
      else if action = ''slide-image-chunk'' then parse_chunk rec
      else if action = ''clear-deck'' then parse_clear rec
      else None)"

definition parseSlideEvent :: "jsval \<Rightarrow> slide_event option" where
  "parseSlideEvent v =
     (case js_object v of None \<Rightarrow> None
      | Some rec \<Rightarrow>
        if js_get rec ''version'' \<noteq> JInt 1 \<or> js_get rec ''type'' \<noteq> JStr ''slide-event'' then None
        else case js_string (js_get rec ''opId'') of None \<Rightarrow> None
        | Some oid \<Rightarrow>
          if \<not> OP_ID oid then None
          else case js_integer (js_get rec ''membershipEpoch'') 1 MAX_SAFE_INTEGER of None \<Rightarrow> None
          | Some epoch \<Rightarrow> (case peer_field (js_get rec ''authorPeerId'') of None \<Rightarrow> None
          | Some author \<Rightarrow> (case js_string (js_get rec ''action'') of None \<Rightarrow> None
          | Some action \<Rightarrow> (case parse_action action rec of None \<Rightarrow> None
          | Some a \<Rightarrow> Some \<lparr>op_id = oid, op_epoch = epoch, op_author = author, op_payload = a\<rparr>))))"

definition mime_name :: "slide_mime \<Rightarrow> string" where
  "mime_name m = (case m of Jpeg \<Rightarrow> ''image/jpeg'' | Png \<Rightarrow> ''image/png'' | Webp \<Rightarrow> ''image/webp'')"

fun action_name :: "slide_action \<Rightarrow> string" where
  "action_name (Change_Slide _ _) = ''change-slide''"
| "action_name (Slide_Image_Chunk _ _ _ _ _) = ''slide-image-chunk''"
| "action_name Clear_Deck = ''clear-deck''"

fun action_fields :: "slide_action \<Rightarrow> (string \<times> jsval) list" where
  "action_fields (Change_Slide i n) = [(''slideIndex'', JInt (int i)), (''totalSlides'', JInt (int n))]"
| "action_fields (Slide_Image_Chunk i k n mime data) =
     [(''slideIndex'', JInt (int i)), (''chunkIndex'', JInt (int k)), (''totalChunks'', JInt (int n)),
      (''mimeType'', JStr (mime_name mime)), (''data'', JStr data)]"
| "action_fields Clear_Deck = []"

definition slide_object :: "string \<Rightarrow> int \<Rightarrow> string \<Rightarrow> slide_action \<Rightarrow> jsval" where
  "slide_object oid epoch author a =
     JObj ([(''version'', JInt 1), (''type'', JStr ''slide-event''), (''opId'', JStr oid), (''membershipEpoch'', JInt epoch),
            (''authorPeerId'', JStr author), (''action'', JStr (action_name a))] @ action_fields a)"

definition slide_json :: "slide_event \<Rightarrow> jsval" where
  "slide_json e = slide_object (op_id e) (op_epoch e) (op_author e) (op_payload e)"

definition decodeSlideEventBytes :: "bytes \<Rightarrow> slide_event option" where
  "decodeSlideEventBytes data = decode_with parseSlideEvent data"

definition encodeSlideEvent :: "slide_event \<Rightarrow> string + bytes" where
  "encodeSlideEvent event = encode_with ''invalid_slide_event'' parseSlideEvent slide_json event"

subsection \<open>The contract\<close>

definition action_ok :: "slide_action \<Rightarrow> bool" where
  "action_ok a =
     (case a of
        Change_Slide i n \<Rightarrow> i < n \<and> int n \<le> MAX_SLIDES
      | Slide_Image_Chunk i k n mime data \<Rightarrow>
          int i < MAX_SLIDES \<and> k < n \<and> int n \<le> MAX_CHUNKS \<and> 1 \<le> js_length data
          \<and> js_length data \<le> MAX_CHUNK_BASE64_LENGTH \<and> BASE64_RE data
      | Clear_Deck \<Rightarrow> True)"

lemma mime_named [simp]: "named MIMES (JStr (mime_name m)) = Some m"
  by (cases m) (simp_all add: named_def MIMES_def mime_name_def)

lemma parse_action_ok: "parse_action name rec = Some a \<Longrightarrow> name = action_name a \<and> action_ok a"
  by (auto simp: parse_action_def parse_change_def parse_chunk_def parse_clear_def action_ok_def js_integer_Some_iff
      split: if_splits option.splits)

lemma parse_slide_object:
  assumes "OP_ID oid" and "1 \<le> epoch" and "epoch \<le> MAX_SAFE_INTEGER" and "PEER_ID author" and "action_ok a"
  shows "parseSlideEvent (slide_object oid epoch author a) =
    Some \<lparr>op_id = oid, op_epoch = epoch, op_author = author, op_payload = a\<rparr>"
proof -
  have peer: "peer_field (JStr author) = Some author" using assms(4) by (simp add: peer_field_def)
  show ?thesis
  proof (cases a)
    case (Change_Slide i n)
    then show ?thesis using assms peer
      by (simp add: parseSlideEvent_def slide_object_def parse_action_def parse_change_def BASE_FIELDS_def js_simps
          action_ok_def MAX_SLIDES_def MAX_SAFE_INTEGER_def)
  next
    case (Slide_Image_Chunk i k n mime data)
    then show ?thesis using assms peer
      by (simp add: parseSlideEvent_def slide_object_def parse_action_def parse_chunk_def BASE_FIELDS_def js_simps
          action_ok_def MAX_SLIDES_def MAX_CHUNKS_def MAX_SAFE_INTEGER_def)
  next
    case Clear_Deck
    then show ?thesis using assms peer
      by (simp add: parseSlideEvent_def slide_object_def parse_action_def parse_clear_def BASE_FIELDS_def js_simps
          MAX_SAFE_INTEGER_def)
  qed
qed

lemma parseSlideEvent_Some:
  assumes "parseSlideEvent v = Some e"
  shows "OP_ID (op_id e)" and "1 \<le> op_epoch e" and "op_epoch e \<le> MAX_SAFE_INTEGER" and "PEER_ID (op_author e)"
    and "action_ok (op_payload e)"
  using assms
  by (auto simp: parseSlideEvent_def peer_field_def js_integer_Some_iff dest: parse_action_ok split: option.splits if_splits)

interpretation slides: json_contract parseSlideEvent slide_json
proof unfold_locales
  show "parseSlideEvent (slide_json e) = Some e" if "parseSlideEvent v = Some e" for v e
    using parse_slide_object [OF parseSlideEvent_Some [OF that]] by (simp add: slide_json_def)
  show "\<exists>kvs. slide_json e = JObj kvs" for e by (simp add: slide_json_def slide_object_def)
  show "json_clean (slide_json e)" if "parseSlideEvent v = Some e" for v e
    using parseSlideEvent_Some [OF that]
    by (cases "op_payload e")
      (auto simp: slide_json_def slide_object_def action_ok_def MAX_SAFE_INTEGER_def MAX_SLIDES_def MAX_CHUNKS_def)
qed

lemma encodeSlide_accepted:
  "parseSlideEvent v = Some e \<Longrightarrow> encodeSlideEvent e = Inr (text_encode (stringify (slide_json e)))"
  unfolding encodeSlideEvent_def by (rule slides.encode_accepted)

end
