(* ===== verification/Slides.thy ===== *)
theory Slides
  imports Slides_Contract
begin

text \<open>
  \<^verbatim>\<open>webrtc/slide-presentation.service.ts\<close>: the deck, the slide shown, the drawings kept per slide, and the
  assembly of slide images from chunks. The service shares the drawing history of the whiteboard service,
  which is part of its state here.
\<close>

record slide =
  sl_id :: string
  sl_name :: string
  sl_dataUrl :: string
  sl_mimeType :: slide_mime
  sl_width :: nat
  sl_height :: nat

record chunk_buffer =
  cb_chunks :: "string option list"
  cb_total :: nat
  cb_mime :: slide_mime

record slide_service =
  ss_slides :: "slide list"
  ss_current :: int
  ss_annotations :: "(int \<times> draw_operation list) list"
  ss_lastDelivery :: int
  ss_seenOps :: "string list"
  ss_wasJoined :: bool
  ss_chunkBuffers :: "(string \<times> chunk_buffer) list"
  ss_whiteboard :: board_service

definition new_slide_service :: slide_service where
  "new_slide_service = \<lparr>ss_slides = [], ss_current = 0, ss_annotations = [], ss_lastDelivery = 0, ss_seenOps = [],
     ss_wasJoined = False, ss_chunkBuffers = [], ss_whiteboard = new_board_service\<rparr>"

definition totalSlides :: "slide_service \<Rightarrow> int" where
  "totalSlides s = max 1 (int (length (ss_slides s)))"

definition currentSlide :: "slide_service \<Rightarrow> slide option" where
  "currentSlide s =
     (if 0 \<le> ss_current s \<and> ss_current s < int (length (ss_slides s)) then Some (ss_slides s ! nat (ss_current s)) else None)"

definition slides_canControl :: "room \<Rightarrow> bool" where
  "slides_canControl r =
     (if \<not> rm_joined r then True else ownRole (rm_moderation r) = Owner \<or> ownPresenter (rm_moderation r))"

definition getSlideAnnotations :: "int \<Rightarrow> slide_service \<Rightarrow> draw_operation list" where
  "getSlideAnnotations i s = (case map_of (ss_annotations s) i of None \<Rightarrow> [] | Some ops \<Rightarrow> ops)"

definition saveSlideAnnotations :: "int \<Rightarrow> draw_operation list \<Rightarrow> slide_service \<Rightarrow> slide_service" where
  "saveSlideAnnotations i ops s = s\<lparr>ss_annotations := map_set i ops (ss_annotations s)\<rparr>"

definition set_board :: "draw_operation list \<Rightarrow> slide_service \<Rightarrow> slide_service" where
  "set_board ops s = s\<lparr>ss_whiteboard := (ss_whiteboard s)\<lparr>bd_ops := ops\<rparr>\<rparr>"

text \<open>Saving the drawing of the shown slide, switching, and loading the drawing of the new one.\<close>

definition switch_slide :: "int \<Rightarrow> slide_service \<Rightarrow> slide_service" where
  "switch_slide i s =
     (let s1 = (saveSlideAnnotations (ss_current s) (bd_ops (ss_whiteboard s)) s)\<lparr>ss_current := i\<rparr> in
      set_board (getSlideAnnotations i s1) s1)"

definition announce :: "room \<Rightarrow> bytes \<Rightarrow> slide_action \<Rightarrow> slide_service \<Rightarrow> slide_service outcome" where
  "announce r rnd a s =
     (case parseSlideEvent (slide_object (opId rnd) (max 1 (rm_epoch r)) (own_peer r) a) of
        None \<Rightarrow> (Inr True, s, [])
      | Some e \<Rightarrow>
        (let s1 = s\<lparr>ss_seenOps := set_add (op_id e) (ss_seenOps s)\<rparr> in
         case encodeSlideEvent e of Inl err \<Rightarrow> (Inl err, s1, []) | Inr bs \<Rightarrow> (Inr True, s1, broadcast r bs Event)))"

definition goToSlide :: "room \<Rightarrow> bytes \<Rightarrow> int \<Rightarrow> slide_service \<Rightarrow> slide_service outcome" where
  "goToSlide r rnd index s =
     (if \<not> slides_canControl r then (Inr False, s, [])
      else if index < 0 \<or> totalSlides s \<le> index then (Inr False, s, [])
      else if index = ss_current s then (Inr True, s, [])
      else
        (let s1 = switch_slide index s in
         if rm_joined r then announce r rnd (Change_Slide (nat index) (nat (totalSlides s1))) s1
         else (Inr True, s1, [])))"

definition nextSlide :: "room \<Rightarrow> bytes \<Rightarrow> slide_service \<Rightarrow> slide_service outcome" where
  "nextSlide r rnd s = goToSlide r rnd (ss_current s + 1) s"

definition prevSlide :: "room \<Rightarrow> bytes \<Rightarrow> slide_service \<Rightarrow> slide_service outcome" where
  "prevSlide r rnd s = goToSlide r rnd (ss_current s - 1) s"

text \<open>\<open>Date.now().toString(16)\<close>.\<close>

fun hex_str :: "nat \<Rightarrow> string" where
  "hex_str n = (if n < 16 then [hex_char n] else hex_str (n div 16) @ [hex_char (n mod 16)])"

declare hex_str.simps [simp del]

definition blank_slide :: "nat \<Rightarrow> nat \<Rightarrow> slide" where
  "blank_slide i now =
     \<lparr>sl_id = ''blank-slide-'' @ nat_str i @ ''-'' @ hex_str now, sl_name = ''Folie '' @ nat_str (i + 1), sl_dataUrl = '''',
      sl_mimeType = Png, sl_width = 1280, sl_height = 720\<rparr>"

definition addBlankSlide :: "room \<Rightarrow> bytes \<Rightarrow> nat \<Rightarrow> slide_service \<Rightarrow> slide_service outcome" where
  "addBlankSlide r rnd now s =
     (if ss_slides s = [] then goToSlide r rnd 1 (s\<lparr>ss_slides := [blank_slide 0 now, blank_slide 1 now]\<rparr>)
      else
        (let nextIndex = length (ss_slides s) in
         goToSlide r rnd (int nextIndex) (s\<lparr>ss_slides := ss_slides s @ [blank_slide nextIndex now]\<rparr>)))"

definition loadDeck :: "room \<Rightarrow> bytes \<Rightarrow> slide list \<Rightarrow> slide_service \<Rightarrow> slide_service outcome" where
  "loadDeck r rnd slides s =
     (let s1 = set_board [] (s\<lparr>ss_annotations := [], ss_slides := slides, ss_current := 0\<rparr>) in
      if rm_joined r \<and> slides_canControl r then announce r rnd (Change_Slide 0 (nat (totalSlides s1))) s1
      else (Inr True, s1, []))"

definition empty_deck :: "slide_service \<Rightarrow> slide_service" where
  "empty_deck s = set_board [] (s\<lparr>ss_annotations := [], ss_slides := [], ss_current := 0\<rparr>)"

definition clearDeck :: "room \<Rightarrow> bytes \<Rightarrow> slide_service \<Rightarrow> slide_service outcome" where
  "clearDeck r rnd s =
     (if \<not> slides_canControl r then (Inr True, s, [])
      else if rm_joined r then announce r rnd Clear_Deck (empty_deck s)
      else (Inr True, empty_deck s, []))"

definition remote_slide :: "slide_mime \<Rightarrow> nat \<Rightarrow> slide" where
  "remote_slide mime i =
     \<lparr>sl_id = ''remote-slide-'' @ nat_str i, sl_name = ''Folie '' @ nat_str (i + 1), sl_dataUrl = '''',
      sl_mimeType = mime, sl_width = 1280, sl_height = 720\<rparr>"

text \<open>The loop that pushes placeholders until there are \<open>n\<close> slides.\<close>

definition pad_slides :: "slide_mime \<Rightarrow> nat \<Rightarrow> slide list \<Rightarrow> slide list" where
  "pad_slides mime n slides = slides @ map (remote_slide mime) [length slides..<n]"

definition ingest_change :: "nat \<Rightarrow> nat \<Rightarrow> slide_service \<Rightarrow> slide_service" where
  "ingest_change i n s =
     (let s1 = (if length (ss_slides s) < n then s\<lparr>ss_slides := pad_slides Png n (ss_slides s)\<rparr> else s) in
      if int i < totalSlides s1 then switch_slide (int i) s1 else s1)"

definition chunk_key :: "string \<Rightarrow> nat \<Rightarrow> string" where
  "chunk_key author i = author @ '':'' @ nat_str i"

definition ingest_chunk :: "string \<Rightarrow> nat \<Rightarrow> nat \<Rightarrow> nat \<Rightarrow> slide_mime \<Rightarrow> string \<Rightarrow> slide_service \<Rightarrow> slide_service" where
  "ingest_chunk author i k n mime data s =
     (let key = chunk_key author i;
          fresh = \<lparr>cb_chunks = replicate n None, cb_total = n, cb_mime = mime\<rparr>;
          old = (case map_of (ss_chunkBuffers s) key of None \<Rightarrow> fresh
                 | Some b \<Rightarrow> if cb_total b \<noteq> n then fresh else b);
          buf = old\<lparr>cb_chunks := (cb_chunks old)[k := Some data]\<rparr>
      in if list_all (\<lambda>c. c \<noteq> None) (cb_chunks buf) then
           (let dataUrl = ''data:'' @ mime_name (cb_mime buf) @ '';base64,'' @ concat (map the (cb_chunks buf));
                padded = pad_slides (cb_mime buf) (i + 1) (ss_slides s)
            in s\<lparr>ss_chunkBuffers := map_delete key (ss_chunkBuffers s),
                 ss_slides := padded[i := (padded ! i)\<lparr>sl_dataUrl := dataUrl, sl_mimeType := cb_mime buf\<rparr>]\<rparr>)
         else s\<lparr>ss_chunkBuffers := map_set key buf (ss_chunkBuffers s)\<rparr>)"

definition slides_accepted :: "room \<Rightarrow> delivery \<Rightarrow> slide_service \<Rightarrow> slide_event option" where
  "slides_accepted r d s =
     (if dl_class d \<noteq> Event then None
      else case decodeSlideEventBytes (dl_data d) of None \<Rightarrow> None
      | Some e \<Rightarrow>
        if op_epoch e \<noteq> rm_epoch r then None
        else if op_author e \<noteq> dl_origin d then None
        else if op_id e \<in> set (ss_seenOps s) then None
        else if op_author e \<notin> set (clearers r) then None
        else Some e)"

definition apply_event :: "slide_service \<Rightarrow> slide_event \<Rightarrow> slide_service" where
  "apply_event s e =
     (let s1 = s\<lparr>ss_seenOps := set_add (op_id e) (ss_seenOps s)\<rparr> in
      case op_payload e of
        Change_Slide i n \<Rightarrow> ingest_change i n s1
      | Clear_Deck \<Rightarrow> empty_deck s1
      | Slide_Image_Chunk i k n mime data \<Rightarrow> ingest_chunk (op_author e) i k n mime data s1)"

definition slides_ingest :: "room \<Rightarrow> delivery \<Rightarrow> slide_service \<Rightarrow> bool \<times> slide_service" where
  "slides_ingest r d s =
     (case slides_accepted r d s of None \<Rightarrow> (False, s) | Some e \<Rightarrow> (True, apply_event s e))"

definition slides_reset :: "slide_service \<Rightarrow> slide_service" where
  "slides_reset s = s\<lparr>ss_slides := [], ss_current := 0, ss_annotations := [], ss_chunkBuffers := [], ss_seenOps := [], ss_lastDelivery := 0\<rparr>"

fun slides_deliveries :: "room \<Rightarrow> delivery list \<Rightarrow> slide_service \<Rightarrow> slide_service" where
  "slides_deliveries r [] s = s"
| "slides_deliveries r (d # ds) s =
     (if dl_id d \<le> ss_lastDelivery s then slides_deliveries r ds s
      else slides_deliveries r ds (snd (slides_ingest r d (s\<lparr>ss_lastDelivery := dl_id d\<rparr>))))"

definition slides_effect :: "room \<Rightarrow> delivery list \<Rightarrow> slide_service \<Rightarrow> slide_service" where
  "slides_effect r ds s =
     (if \<not> rm_joined r then if ss_wasJoined s then slides_reset (s\<lparr>ss_wasJoined := False\<rparr>) else s
      else slides_deliveries r ds (s\<lparr>ss_wasJoined := True\<rparr>))"

subsection \<open>The slide shown exists\<close>

datatype slide_call =
    S_Go room bytes int | S_Next room bytes | S_Prev room bytes | S_Add room bytes nat | S_Load room bytes "slide list"
  | S_Clear room bytes | S_Ingest room delivery | S_Effect room "delivery list" | S_Draw "draw_operation list"

fun slide_step :: "slide_service \<Rightarrow> slide_call \<Rightarrow> slide_service" where
  "slide_step s (S_Go r rnd i) = fst (snd (goToSlide r rnd i s))"
| "slide_step s (S_Next r rnd) = fst (snd (nextSlide r rnd s))"
| "slide_step s (S_Prev r rnd) = fst (snd (prevSlide r rnd s))"
| "slide_step s (S_Add r rnd now) = fst (snd (addBlankSlide r rnd now s))"
| "slide_step s (S_Load r rnd slides) = fst (snd (loadDeck r rnd slides s))"
| "slide_step s (S_Clear r rnd) = fst (snd (clearDeck r rnd s))"
| "slide_step s (S_Ingest r d) = snd (slides_ingest r d s)"
| "slide_step s (S_Effect r ds) = slides_effect r ds s"
| "slide_step s (S_Draw ops) = set_board ops s"

definition shown_ok :: "slide_service \<Rightarrow> bool" where
  "shown_ok s \<longleftrightarrow> 0 \<le> ss_current s \<and> ss_current s < totalSlides s"

lemma set_board_fields [simp]:
  "ss_slides (set_board ops s) = ss_slides s" "ss_current (set_board ops s) = ss_current s"
  "ss_annotations (set_board ops s) = ss_annotations s" "ss_chunkBuffers (set_board ops s) = ss_chunkBuffers s"
  "bd_ops (ss_whiteboard (set_board ops s)) = ops"
  by (simp_all add: set_board_def)

lemma switch_slide_fields [simp]:
  "ss_slides (switch_slide i s) = ss_slides s" "ss_current (switch_slide i s) = i"
  "ss_annotations (switch_slide i s) = map_set (ss_current s) (bd_ops (ss_whiteboard s)) (ss_annotations s)"
  "ss_chunkBuffers (switch_slide i s) = ss_chunkBuffers s"
  by (simp_all add: switch_slide_def saveSlideAnnotations_def Let_def)

lemma announce_keeps [simp]:
  "ss_slides (fst (snd (announce r rnd a s))) = ss_slides s" "ss_current (fst (snd (announce r rnd a s))) = ss_current s"
  "ss_annotations (fst (snd (announce r rnd a s))) = ss_annotations s"
  "ss_whiteboard (fst (snd (announce r rnd a s))) = ss_whiteboard s"
  by (auto simp: announce_def Let_def split: option.split sum.split)

lemma length_pad: "length (pad_slides mime n slides) = max (length slides) n"
  by (simp add: pad_slides_def)

lemma goToSlide_shown: "shown_ok s \<Longrightarrow> shown_ok (fst (snd (goToSlide r rnd i s)))"
  by (auto simp: goToSlide_def shown_ok_def totalSlides_def Let_def)

lemma shown_more: "shown_ok s \<Longrightarrow> length (ss_slides s) \<le> length slides \<Longrightarrow> shown_ok (s\<lparr>ss_slides := slides\<rparr>)"
  by (auto simp: shown_ok_def totalSlides_def max_def split: if_splits)

lemma apply_event_shown: "shown_ok s \<Longrightarrow> shown_ok (apply_event s e)"
  by (cases "op_payload e")
    (auto simp: apply_event_def ingest_change_def ingest_chunk_def empty_deck_def shown_ok_def totalSlides_def length_pad
      Let_def max_def split: if_splits)

lemma slides_ingest_shown: "shown_ok s \<Longrightarrow> shown_ok (snd (slides_ingest r d s))"
  by (auto simp: slides_ingest_def apply_event_shown split: option.split)

lemma slides_deliveries_shown: "shown_ok s \<Longrightarrow> shown_ok (slides_deliveries r ds s)"
proof (induction r ds s rule: slides_deliveries.induct)
  case (2 r d ds s)
  have "shown_ok (s\<lparr>ss_lastDelivery := dl_id d\<rparr>)" using "2.prems" by (simp add: shown_ok_def totalSlides_def)
  then show ?case using 2 slides_ingest_shown by simp
qed simp

lemma slide_step_shown: "shown_ok s \<Longrightarrow> shown_ok (slide_step s c)"
proof (cases c)
  case (S_Effect r ds)
  assume "shown_ok s"
  then have "shown_ok (s\<lparr>ss_wasJoined := True\<rparr>)" by (simp add: shown_ok_def totalSlides_def)
  then show ?thesis using \<open>shown_ok s\<close> S_Effect slides_deliveries_shown
    by (simp add: slides_effect_def slides_reset_def) (simp add: shown_ok_def totalSlides_def)
qed (auto simp: nextSlide_def prevSlide_def addBlankSlide_def loadDeck_def clearDeck_def Let_def goToSlide_shown shown_more
    slides_ingest_shown empty_deck_def, auto simp: shown_ok_def totalSlides_def)

text \<open>The slide that is shown always exists: after any sequence of own actions, drawings and deliveries,
  the current index is at least 0 and below the number of slides (a deck without slides counts as one).\<close>

theorem shown_slide_exists: "shown_ok (foldl slide_step new_slide_service calls)"
proof -
  have "shown_ok s \<Longrightarrow> shown_ok (foldl slide_step s calls)" for s
    by (induction calls arbitrary: s) (auto simp: slide_step_shown)
  moreover have "shown_ok new_slide_service" by (simp add: shown_ok_def new_slide_service_def totalSlides_def)
  ultimately show ?thesis by blast
qed

end
