(* ===== verification/Slides_Laws.thy ===== *)
theory Slides_Laws
  imports Slides Collab_Sizes
begin

text \<open>
  Properties of slide presentations: drawings belong to their slide, an image is assembled from its chunks
  in any order, and events make the round trip.
\<close>

subsection \<open>Drawings belong to their slide\<close>

lemma goToSlide_moves:
  assumes "slides_canControl r" and "0 \<le> i" and "i < totalSlides s" and "i \<noteq> ss_current s"
  shows "ss_current (fst (snd (goToSlide r rnd i s))) = i"
    and "ss_slides (fst (snd (goToSlide r rnd i s))) = ss_slides s"
    and "ss_annotations (fst (snd (goToSlide r rnd i s))) = map_set (ss_current s) (bd_ops (ss_whiteboard s)) (ss_annotations s)"
    and "bd_ops (ss_whiteboard (fst (snd (goToSlide r rnd i s)))) = getSlideAnnotations i s"
  using assms
  by (auto simp: goToSlide_def Let_def) (auto simp: switch_slide_def saveSlideAnnotations_def getSlideAnnotations_def Let_def)

text \<open>Every slide keeps its drawing: going to another slide, drawing there and coming back shows the
  first drawing again, and going to the other slide once more shows what was drawn on it.\<close>

theorem slide_drawings_kept:
  assumes "slides_canControl r" and "shown_ok s" and "0 \<le> j" and "j < totalSlides s" and "j \<noteq> ss_current s"
    and "there = set_board drawn (fst (snd (goToSlide r rnd1 j s)))"
    and "back = fst (snd (goToSlide r rnd2 (ss_current s) there))"
    and "again = fst (snd (goToSlide r rnd3 j back))"
  shows "ss_current back = ss_current s \<and> bd_ops (ss_whiteboard back) = bd_ops (ss_whiteboard s)
    \<and> ss_current again = j \<and> bd_ops (ss_whiteboard again) = drawn"
proof -
  note go = goToSlide_moves [OF assms(1,3,4,5), of rnd1]
  have there: "ss_current there = j" "ss_slides there = ss_slides s"
      "ss_annotations there = map_set (ss_current s) (bd_ops (ss_whiteboard s)) (ss_annotations s)"
      "bd_ops (ss_whiteboard there) = drawn"
    using go by (simp_all add: assms(6))
  have "0 \<le> ss_current s" "ss_current s < totalSlides there" "ss_current s \<noteq> ss_current there"
    using assms(2,5) there by (auto simp: shown_ok_def totalSlides_def)
  note home = goToSlide_moves [OF assms(1) this, of rnd2, folded assms(7)]
  have "j < totalSlides back" "j \<noteq> ss_current back" using assms(4,5) home there by (auto simp: totalSlides_def)
  note once_more = goToSlide_moves [OF assms(1,3) this, of rnd3, folded assms(8)]
  show ?thesis using home once_more there assms(5) by (simp add: getSlideAnnotations_def)
qed

definition two_slides :: slide_service where
  "two_slides = new_slide_service\<lparr>ss_slides := [remote_slide Png 0, remote_slide Png 1],
     ss_whiteboard := new_board_service\<lparr>bd_ops := [sample_draw]\<rparr>\<rparr>"

abbreviation alone :: room where
  "alone \<equiv> \<lparr>rm_joined = False, rm_peerId = '''', rm_epoch = 0, rm_peers = [], rm_machines = [], rm_moderation = new_moderation\<rparr>"

theorem slide_drawings_kept_witness:
  "bd_ops (ss_whiteboard (fst (snd (goToSlide alone [] (ss_current two_slides)
      (set_board [] (fst (snd (goToSlide alone [] 1 two_slides)))))))) = [sample_draw]"
proof -
  have "bd_ops (ss_whiteboard (fst (snd (goToSlide alone [] (ss_current two_slides)
      (set_board [] (fst (snd (goToSlide alone [] 1 two_slides)))))))) = bd_ops (ss_whiteboard two_slides)"
    using slide_drawings_kept [of alone two_slides 1, OF _ _ _ _ _ refl refl refl]
    by (simp add: slides_canControl_def shown_ok_def two_slides_def new_slide_service_def totalSlides_def)
  then show ?thesis by (simp add: two_slides_def)
qed

subsection \<open>Images are assembled from their chunks\<close>

definition partial_chunks :: "nat \<Rightarrow> string list \<Rightarrow> nat set \<Rightarrow> string option list" where
  "partial_chunks n parts got = map (\<lambda>k. if k \<in> got then Some (parts ! k) else None) [0..<n]"

text \<open>The buffer a chunk is put into.\<close>

definition buffer_for :: "slide_service \<Rightarrow> string \<Rightarrow> nat \<Rightarrow> slide_mime \<Rightarrow> chunk_buffer" where
  "buffer_for s key n mime =
     (case map_of (ss_chunkBuffers s) key of
        None \<Rightarrow> \<lparr>cb_chunks = replicate n None, cb_total = n, cb_mime = mime\<rparr>
      | Some b \<Rightarrow> if cb_total b \<noteq> n then \<lparr>cb_chunks = replicate n None, cb_total = n, cb_mime = mime\<rparr> else b)"

lemma partial_chunks_put: "k < n \<Longrightarrow> (partial_chunks n parts got)[k := Some (parts ! k)] = partial_chunks n parts (insert k got)"
  by (rule nth_equalityI) (auto simp: partial_chunks_def nth_list_update)

lemma partial_chunks_all: "list_all (\<lambda>c. c \<noteq> None) (partial_chunks n parts got) \<longleftrightarrow> {..<n} \<subseteq> got"
  by (auto simp: partial_chunks_def list_all_iff)

lemma partial_chunks_full: "{..<n} \<subseteq> got \<Longrightarrow> length parts = n \<Longrightarrow> map the (partial_chunks n parts got) = parts"
  by (rule nth_equalityI) (auto simp: partial_chunks_def)

definition data_url :: "slide_mime \<Rightarrow> string list \<Rightarrow> string" where
  "data_url mime parts = ''data:'' @ mime_name mime @ '';base64,'' @ concat parts"

lemma ingest_chunk_step:
  assumes "buffer_for s (chunk_key author i) n mime = \<lparr>cb_chunks = partial_chunks n parts got, cb_total = n, cb_mime = mime\<rparr>"
    and "k < n" and "length parts = n"
  shows "\<not> {..<n} \<subseteq> insert k got \<Longrightarrow>
      buffer_for (ingest_chunk author i k n mime (parts ! k) s) (chunk_key author i) n mime =
        \<lparr>cb_chunks = partial_chunks n parts (insert k got), cb_total = n, cb_mime = mime\<rparr>"
    and "{..<n} \<subseteq> insert k got \<Longrightarrow>
      i < length (ss_slides (ingest_chunk author i k n mime (parts ! k) s))
      \<and> sl_dataUrl (ss_slides (ingest_chunk author i k n mime (parts ! k) s) ! i) = data_url mime parts
      \<and> map_of (ss_chunkBuffers (ingest_chunk author i k n mime (parts ! k) s)) (chunk_key author i) = None"
proof -
  let ?buf = "\<lparr>cb_chunks = partial_chunks n parts (insert k got), cb_total = n, cb_mime = mime\<rparr>"
  have eq: "ingest_chunk author i k n mime (parts ! k) s =
     (if {..<n} \<subseteq> insert k got then
        (let padded = pad_slides mime (i + 1) (ss_slides s)
         in s\<lparr>ss_chunkBuffers := map_delete (chunk_key author i) (ss_chunkBuffers s),
              ss_slides := padded[i := (padded ! i)\<lparr>sl_dataUrl := ''data:'' @ mime_name mime @ '';base64,'' @
                concat (map the (partial_chunks n parts (insert k got))), sl_mimeType := mime\<rparr>]\<rparr>)
      else s\<lparr>ss_chunkBuffers := map_set (chunk_key author i) ?buf (ss_chunkBuffers s)\<rparr>)"
    using assms(1) partial_chunks_put [OF assms(2), of parts got]
    unfolding ingest_chunk_def Let_def buffer_for_def [symmetric]
    by (simp add: partial_chunks_all del: not_None_eq)
  show "\<not> {..<n} \<subseteq> insert k got \<Longrightarrow> buffer_for (ingest_chunk author i k n mime (parts ! k) s) (chunk_key author i) n mime = ?buf"
    by (simp add: eq buffer_for_def)
  show "{..<n} \<subseteq> insert k got \<Longrightarrow>
      i < length (ss_slides (ingest_chunk author i k n mime (parts ! k) s))
      \<and> sl_dataUrl (ss_slides (ingest_chunk author i k n mime (parts ! k) s) ! i) = data_url mime parts
      \<and> map_of (ss_chunkBuffers (ingest_chunk author i k n mime (parts ! k) s)) (chunk_key author i) = None"
    using partial_chunks_full [OF _ assms(3), of "insert k got"]
    by (simp add: eq Let_def length_pad data_url_def)
qed

lemma chunks_assemble:
  assumes "buffer_for s (chunk_key author i) n mime = \<lparr>cb_chunks = partial_chunks n parts got, cb_total = n, cb_mime = mime\<rparr>"
    and "distinct ks" and "ks \<noteq> []" and "set ks \<inter> got = {}" and "set ks \<union> got = {..<n}" and "length parts = n"
  shows "i < length (ss_slides (foldl (\<lambda>s k. ingest_chunk author i k n mime (parts ! k) s) s ks))
    \<and> sl_dataUrl (ss_slides (foldl (\<lambda>s k. ingest_chunk author i k n mime (parts ! k) s) s ks) ! i) = data_url mime parts
    \<and> map_of (ss_chunkBuffers (foldl (\<lambda>s k. ingest_chunk author i k n mime (parts ! k) s) s ks)) (chunk_key author i) = None"
  using assms
proof (induction ks arbitrary: s got)
  case (Cons k ks)
  have k: "k < n" using Cons.prems(5) by auto
  show ?case
  proof (cases ks)
    case Nil
    then have "{..<n} \<subseteq> insert k got" using Cons.prems(5) by auto
    then show ?thesis using ingest_chunk_step(2) [OF Cons.prems(1) k Cons.prems(6)] Nil by simp
  next
    case (Cons k' ks')
    have "k' \<in> {..<n}" "k' \<notin> insert k got" using Cons Cons.prems by auto
    then have more: "\<not> {..<n} \<subseteq> insert k got" by blast
    show ?thesis
      using Cons.IH [OF ingest_chunk_step(1) [OF Cons.prems(1) k Cons.prems(6) more]] Cons.prems Cons by auto
  qed
qed simp

text \<open>C34. An image that arrives in chunks is put together whatever the order of the chunks: after each of
  the \<open>n\<close> chunks of a slide was received once, and no chunk of it before, the slide exists, its data URL
  carries the concatenated chunks in the order of their indices, and no buffer is left.\<close>

theorem slide_image_assembled:
  assumes "map_of (ss_chunkBuffers s) (chunk_key author i) = None"
    and "distinct ks" and "set ks = {..<n}" and "0 < n" and "length parts = n"
  shows "i < length (ss_slides (foldl (\<lambda>s k. ingest_chunk author i k n mime (parts ! k) s) s ks))
    \<and> sl_dataUrl (ss_slides (foldl (\<lambda>s k. ingest_chunk author i k n mime (parts ! k) s) s ks) ! i) =
        ''data:'' @ mime_name mime @ '';base64,'' @ concat parts
    \<and> map_of (ss_chunkBuffers (foldl (\<lambda>s k. ingest_chunk author i k n mime (parts ! k) s) s ks)) (chunk_key author i) = None"
proof -
  have "replicate n None = partial_chunks n parts {}" by (rule nth_equalityI) (auto simp: partial_chunks_def)
  then have "buffer_for s (chunk_key author i) n mime = \<lparr>cb_chunks = partial_chunks n parts {}, cb_total = n, cb_mime = mime\<rparr>"
    using assms(1) by (simp add: buffer_for_def)
  moreover have "ks \<noteq> []" using assms(3,4) by (cases ks) (auto simp: lessThan_empty_iff)
  ultimately show ?thesis
    unfolding data_url_def [symmetric] by (rule chunks_assemble [OF _ assms(2)]) (use assms in simp_all)
qed

theorem slide_image_assembled_witness:
  "sl_dataUrl (ss_slides (foldl (\<lambda>s k. ingest_chunk ''ann'' 0 k 3 Png ([''AA'', ''BB'', ''CC''] ! k) s) new_slide_service [2, 0, 1]) ! 0) =
     ''data:image/png;base64,AABBCC''"
proof -
  have "set [2, 0, 1 :: nat] = {..<3}" by auto
  from slide_image_assembled [OF _ _ this, of new_slide_service "''ann''" 0 "[''AA'', ''BB'', ''CC'']" Png]
  show ?thesis by (simp add: new_slide_service_def mime_name_def)
qed

subsection \<open>Repeated events\<close>

definition slides_handle :: "room \<times> delivery \<Rightarrow> slide_service \<Rightarrow> slide_service" where
  "slides_handle e s = snd (slides_ingest (fst e) (snd e) s)"

definition slides_drops :: "room \<times> delivery \<Rightarrow> slide_service \<Rightarrow> bool" where
  "slides_drops e s \<longleftrightarrow> slides_ingest (fst e) (snd e) s = (False, s)"

definition slides_carries :: "room \<times> delivery \<Rightarrow> slide_event option" where
  "slides_carries e = decodeSlideEventBytes (dl_data (snd e))"

lemma switch_slide_seen [simp]: "ss_seenOps (switch_slide i s) = ss_seenOps s"
  by (simp add: switch_slide_def saveSlideAnnotations_def set_board_def Let_def)

lemma apply_event_seen: "ss_seenOps (apply_event s e) = set_add (op_id e) (ss_seenOps s)"
  by (cases "op_payload e")
    (simp_all add: apply_event_def ingest_change_def ingest_chunk_def empty_deck_def set_board_def Let_def)

lemma slides_accepted_Some:
  "slides_accepted r d s = Some op \<Longrightarrow> decodeSlideEventBytes (dl_data d) = Some op \<and> op_id op \<notin> set (ss_seenOps s)"
  by (auto simp: slides_accepted_def split: if_splits option.splits)

interpretation slides_replay: replay_guard ss_seenOps slides_handle slides_drops slides_carries "\<lambda>_. True"
proof unfold_locales
  fix e :: "room \<times> delivery" and s :: slide_service and op :: slide_event
  show "\<not> slides_drops e s \<Longrightarrow> slides_carries e = Some op \<Longrightarrow> True \<Longrightarrow> op_id op \<in> set (ss_seenOps (slides_handle e s))"
    by (cases "slides_accepted (fst e) (snd e) s")
      (auto simp: slides_drops_def slides_carries_def slides_handle_def slides_ingest_def apply_event_seen dest: slides_accepted_Some)
  show "set (ss_seenOps s) \<subseteq> set (ss_seenOps (slides_handle e s))"
    by (auto simp: slides_handle_def slides_ingest_def apply_event_seen split: option.split)
  show "slides_carries e = Some op \<Longrightarrow> op_id op \<in> set (ss_seenOps s) \<Longrightarrow> slides_drops e s"
    by (cases "slides_accepted (fst e) (snd e) s")
      (auto simp: slides_drops_def slides_carries_def slides_ingest_def dest: slides_accepted_Some)
qed

end
