(* ===== verification/Overlay_Packet.thy ===== *)
theory Overlay_Packet
  imports Overlay_Queue Js_Json_Laws Topology
begin

text \<open>
  The packets of \<^verbatim>\<open>webrtc/opaque-data-overlay.ts\<close>: base64url, the additional data that encryption
  authenticates, and the check of a received packet. A packet on the wire is a JSON object; the sum type's
  left side is the message of a thrown error. The laws: decoding undoes encoding, and a well-formed packet is
  read back from its JSON object.
\<close>

subsection \<open>base64url\<close>

definition BASE64_ALPHABET :: string where
  "BASE64_ALPHABET = ''ABCDEFGHIJKLMNOPQRSTUVWXYZabcdefghijklmnopqrstuvwxyz0123456789+/''"

fun sextets :: "bytes \<Rightarrow> nat list" where
  "sextets [] = []"
| "sextets [a] = [a div 4, a mod 4 * 16]"
| "sextets [a, b] = [a div 4, a mod 4 * 16 + b div 16, b mod 16 * 4]"
| "sextets (a # b # c # rest) =
     (a div 4) # (a mod 4 * 16 + b div 16) # (b mod 16 * 4 + c div 64) # (c mod 64) # sextets rest"

fun octets :: "nat list \<Rightarrow> bytes" where
  "octets [] = []"
| "octets [p] = []"
| "octets [p, q] = [p * 4 + q div 16]"
| "octets [p, q, r] = [p * 4 + q div 16, q mod 16 * 16 + r div 4]"
| "octets (p # q # r # s # rest) = (p * 4 + q div 16) # (q mod 16 * 16 + r div 4) # (r mod 4 * 64 + s) # octets rest"

text \<open>\<open>btoa\<close> and \<open>atob\<close> of the language. The latter is used on texts without white space: it takes up to two
  padding characters off a text whose length is a multiple of four and throws on any other character outside
  the alphabet and on a single left-over character.\<close>

definition btoa :: "bytes \<Rightarrow> string" where
  "btoa bs = map ((!) BASE64_ALPHABET) (sextets bs) @ replicate ((3 - length bs mod 3) mod 3) CHR ''=''"

definition strip_end :: "char \<Rightarrow> string \<Rightarrow> string" where
  "strip_end c s = rev (dropWhile ((=) c) (rev s))"

definition base64_value :: "char \<Rightarrow> nat option" where
  "base64_value = map_of (zip BASE64_ALPHABET [0..<64])"

definition unpad :: "string \<Rightarrow> string" where
  "unpad s =
     (if length s mod 4 \<noteq> 0 then s
      else if drop (length s - 2) s = ''=='' then take (length s - 2) s
      else if drop (length s - 1) s = ''='' then take (length s - 1) s
      else s)"

definition atob :: "string \<Rightarrow> bytes option" where
  "atob s =
     (let body = unpad s in
      if length body mod 4 = 1 then None else map_option octets (collect base64_value body))"

definition replaceAll :: "char \<Rightarrow> char \<Rightarrow> string \<Rightarrow> string" where
  "replaceAll old new s = map (\<lambda>c. if c = old then new else c) s"

definition pad_end :: "nat \<Rightarrow> char \<Rightarrow> string \<Rightarrow> string" where
  "pad_end n c s = s @ replicate (n - length s) c"

definition base64url_encode :: "bytes \<Rightarrow> string" where
  "base64url_encode bs = strip_end CHR ''='' (replaceAll CHR ''/'' CHR ''_'' (replaceAll CHR ''+'' CHR ''-'' (btoa bs)))"

definition base64url_decode :: "string \<Rightarrow> string + bytes" where
  "base64url_decode s =
     (if s = [] \<or> \<not> list_all base64url_char s then Inl ''invalid_base64url''
      else let normalized = replaceAll CHR ''_'' CHR ''/'' (replaceAll CHR ''-'' CHR ''+'' s) in
        case atob (pad_end ((length normalized + 3) div 4 * 4) CHR ''='' normalized) of
          None \<Rightarrow> Inl ''InvalidCharacterError''
        | Some bs \<Rightarrow> Inr bs)"

subsection \<open>Packets\<close>

definition TOKEN :: "string \<Rightarrow> bool" where
  "TOKEN = matches base64url_char 16 64"

definition TRAFFIC_NAMES :: "(string \<times> traffic_class) list" where
  "TRAFFIC_NAMES = [(''control'', Control), (''rekey'', Rekey), (''event'', Event), (''bulk'', Bulk)]"

fun traffic_name :: "traffic_class \<Rightarrow> string" where
  "traffic_name Control = ''control''"
| "traffic_name Rekey = ''rekey''"
| "traffic_name Event = ''event''"
| "traffic_name Bulk = ''bulk''"

definition MAX_CHUNK_BYTES :: nat where
  "MAX_CHUNK_BYTES = 12288"

definition MAX_PACKET_CHUNKS :: nat where
  "MAX_PACKET_CHUNKS = 96"

definition MAX_PATH :: nat where
  "MAX_PATH = 5"

definition MAX_TTL_MS :: int where
  "MAX_TTL_MS = 60000"

record overlay_packet =
  pk_packetId :: string
  pk_originPeerId :: string
  pk_destinationPeerId :: string
  pk_membershipEpoch :: int
  pk_routeEpoch :: int
  pk_trafficClass :: traffic_class
  pk_createdAt :: int
  pk_expiresAt :: int
  pk_path :: "string list"
  pk_hop :: nat
  pk_chunkIndex :: nat
  pk_chunkCount :: nat
  pk_nonce :: string
  pk_ciphertext :: string
  pk_digest :: string

text \<open>The fields under authentication, all but \<open>hop\<close>, \<open>nonce\<close>, \<open>ciphertext\<close> and \<open>digest\<close>.\<close>

definition aad :: "overlay_packet \<Rightarrow> bytes" where
  "aad packet = text_encode (stringify (JArr [JInt 1, JStr ''overlay-packet'', JStr (pk_packetId packet),
     JStr (pk_originPeerId packet), JStr (pk_destinationPeerId packet), JInt (pk_membershipEpoch packet),
     JInt (pk_routeEpoch packet), JStr (traffic_name (pk_trafficClass packet)), JInt (pk_createdAt packet),
     JInt (pk_expiresAt packet), JArr (map JStr (pk_path packet)), JInt (int (pk_chunkIndex packet)),
     JInt (int (pk_chunkCount packet))]))"

definition exactKeys :: "(string \<times> jsval) list \<Rightarrow> string list \<Rightarrow> bool" where
  "exactKeys kvs allowed = (list_all (\<lambda>k. k \<in> set allowed) (js_keys kvs) \<and> list_all (js_has kvs) allowed)"

definition PACKET_FIELDS :: "string list" where
  "PACKET_FIELDS = [''version'', ''type'', ''packetId'', ''originPeerId'', ''destinationPeerId'', ''membershipEpoch'',
     ''routeEpoch'', ''trafficClass'', ''createdAt'', ''expiresAt'', ''path'', ''hop'', ''chunkIndex'',
     ''chunkCount'', ''nonce'', ''ciphertext'', ''digest'']"

fun peer_string :: "jsval \<Rightarrow> string option" where
  "peer_string (JStr s) = (if PEER_ID s then Some s else None)"
| "peer_string _ = None"

definition parse_path :: "jsval \<Rightarrow> string \<Rightarrow> string \<Rightarrow> string list option" where
  "parse_path v originPeerId destinationPeerId =
     (case v of
        JArr elems \<Rightarrow>
          if length elems < 2 \<or> length elems > MAX_PATH then None
          else (case collect peer_string elems of None \<Rightarrow> None
            | Some path \<Rightarrow>
                if length (js_set path) \<noteq> length path \<or> hd path \<noteq> originPeerId \<or> last path \<noteq> destinationPeerId
                then None else Some path)
      | _ \<Rightarrow> None)"

definition parseOverlayPacket :: "int \<Rightarrow> jsval \<Rightarrow> overlay_packet option" where
  "parseOverlayPacket now raw =
     (case raw of
        JObj kvs \<Rightarrow>
          if \<not> exactKeys kvs PACKET_FIELDS then None
          else if js_get kvs ''version'' \<noteq> JInt 1 \<or> js_get kvs ''type'' \<noteq> JStr ''overlay-packet'' then None
          else
            (let packetId = js_to_string (js_get kvs ''packetId'');
                 originPeerId = js_to_string (js_get kvs ''originPeerId'');
                 destinationPeerId = js_to_string (js_get kvs ''destinationPeerId'');
                 nonce = js_to_string (js_get kvs ''nonce'');
                 ciphertext = js_to_string (js_get kvs ''ciphertext'');
                 digest = js_to_string (js_get kvs ''digest'')
             in case (safe_number (js_get kvs ''membershipEpoch''), safe_number (js_get kvs ''routeEpoch''),
                  map_of TRAFFIC_NAMES (js_to_string (js_get kvs ''trafficClass'')),
                  safe_number (js_get kvs ''createdAt''), safe_number (js_get kvs ''expiresAt''),
                  parse_path (js_get kvs ''path'') originPeerId destinationPeerId,
                  safe_number (js_get kvs ''hop''), safe_number (js_get kvs ''chunkIndex''),
                  safe_number (js_get kvs ''chunkCount'')) of
                (Some membershipEpoch, Some routeEpoch, Some trafficClass, Some createdAt, Some expiresAt, Some path,
                 Some hop, Some chunkIndex, Some chunkCount) \<Rightarrow>
                  if TOKEN packetId \<and> PEER_ID originPeerId \<and> PEER_ID destinationPeerId
                     \<and> 1 \<le> membershipEpoch \<and> 1 \<le> routeEpoch
                     \<and> createdAt \<le> now + 5000 \<and> expiresAt > now \<and> expiresAt - createdAt \<le> MAX_TTL_MS
                     \<and> 1 \<le> hop \<and> hop < int (length path) \<and> 0 \<le> chunkIndex \<and> 1 \<le> chunkCount
                     \<and> chunkCount \<le> int MAX_PACKET_CHUNKS \<and> chunkIndex < chunkCount
                     \<and> TOKEN nonce \<and> TOKEN digest \<and> js_length ciphertext \<le> 24000
                  then Some \<lparr>pk_packetId = packetId, pk_originPeerId = originPeerId,
                    pk_destinationPeerId = destinationPeerId, pk_membershipEpoch = membershipEpoch,
                    pk_routeEpoch = routeEpoch, pk_trafficClass = trafficClass, pk_createdAt = createdAt,
                    pk_expiresAt = expiresAt, pk_path = path, pk_hop = nat hop, pk_chunkIndex = nat chunkIndex,
                    pk_chunkCount = nat chunkCount, pk_nonce = nonce, pk_ciphertext = ciphertext,
                    pk_digest = digest\<rparr>
                  else None
              | _ \<Rightarrow> None)
      | _ \<Rightarrow> None)"

definition packet_json :: "overlay_packet \<Rightarrow> jsval" where
  "packet_json p = JObj [(''version'', JInt 1), (''type'', JStr ''overlay-packet''), (''packetId'', JStr (pk_packetId p)),
     (''originPeerId'', JStr (pk_originPeerId p)), (''destinationPeerId'', JStr (pk_destinationPeerId p)),
     (''membershipEpoch'', JInt (pk_membershipEpoch p)), (''routeEpoch'', JInt (pk_routeEpoch p)),
     (''trafficClass'', JStr (traffic_name (pk_trafficClass p))), (''createdAt'', JInt (pk_createdAt p)),
     (''expiresAt'', JInt (pk_expiresAt p)), (''path'', JArr (map JStr (pk_path p))),
     (''chunkIndex'', JInt (int (pk_chunkIndex p))), (''chunkCount'', JInt (int (pk_chunkCount p))),
     (''hop'', JInt (int (pk_hop p))), (''nonce'', JStr (pk_nonce p)), (''ciphertext'', JStr (pk_ciphertext p)),
     (''digest'', JStr (pk_digest p))]"

subsection \<open>Decoding undoes encoding\<close>

abbreviation byte_seq :: "bytes \<Rightarrow> bool" where
  "byte_seq bs \<equiv> \<forall>b \<in> set bs. b < 256"

lemma octets_sextets: "byte_seq bs \<Longrightarrow> octets (sextets bs) = bs"
  by (induction bs rule: sextets.induct) auto

lemma sextets_bound: "byte_seq bs \<Longrightarrow> \<forall>p \<in> set (sextets bs). p < 64"
proof (induction bs rule: sextets.induct)
  case (3 a b)
  then have "a div 4 < 64" "b div 16 < 16" by auto
  then show ?case by auto
next
  case (4 a b c rest)
  then have "a div 4 < 64" "b div 16 < 16" "c div 64 < 4" by auto
  with 4 show ?case by auto
qed auto

lemma length_sextets: "length (sextets bs) = (length bs * 4 + 2) div 3"
  by (induction bs rule: sextets.induct) auto

lemma alphabet_length: "length BASE64_ALPHABET = 64"
  by (simp add: BASE64_ALPHABET_def)

lemma alphabet_distinct: "distinct BASE64_ALPHABET"
  by (simp add: BASE64_ALPHABET_def)

lemma base64_value_nth: "p < 64 \<Longrightarrow> base64_value (BASE64_ALPHABET ! p) = Some p"
  unfolding base64_value_def
  using map_of_zip_nth [of BASE64_ALPHABET "[0..<64]" p] alphabet_length alphabet_distinct by simp

definition url_char :: "char \<Rightarrow> char" where
  "url_char c = (if c = CHR ''+'' then CHR ''-'' else if c = CHR ''/'' then CHR ''_'' else c)"

definition std_char :: "char \<Rightarrow> char" where
  "std_char c = (if c = CHR ''-'' then CHR ''+'' else if c = CHR ''_'' then CHR ''/'' else c)"

lemma replace_url: "replaceAll CHR ''/'' CHR ''_'' (replaceAll CHR ''+'' CHR ''-'' s) = map url_char s"
  by (simp add: replaceAll_def url_char_def)

lemma replace_std: "replaceAll CHR ''_'' CHR ''/'' (replaceAll CHR ''-'' CHR ''+'' s) = map std_char s"
  by (simp add: replaceAll_def std_char_def)

lemma alphabet_url:
  "list_all (\<lambda>c. base64url_char (url_char c) \<and> url_char c \<noteq> CHR ''='' \<and> c \<noteq> CHR ''='' \<and> std_char (url_char c) = c) BASE64_ALPHABET"
  by (simp add: BASE64_ALPHABET_def base64url_char_def url_char_def std_char_def)

lemma alphabet_url_nth:
  assumes "p < 64"
  shows "base64url_char (url_char (BASE64_ALPHABET ! p))" and "url_char (BASE64_ALPHABET ! p) \<noteq> CHR ''=''"
    and "BASE64_ALPHABET ! p \<noteq> CHR ''=''" and "std_char (url_char (BASE64_ALPHABET ! p)) = BASE64_ALPHABET ! p"
  using alphabet_url assms alphabet_length unfolding list_all_length by auto

abbreviation url_text :: "nat list \<Rightarrow> string" where
  "url_text ps \<equiv> map (\<lambda>p. url_char (BASE64_ALPHABET ! p)) ps"

lemma strip_end_replicate: "\<forall>x \<in> set s. x \<noteq> c \<Longrightarrow> strip_end c (s @ replicate n c) = s"
proof -
  assume "\<forall>x \<in> set s. x \<noteq> c"
  then have "dropWhile ((=) c) (rev s) = rev s" by (intro dropWhile_eq_self_iff [THEN iffD2]) (auto simp: hd_rev)
  then show ?thesis by (simp add: strip_end_def dropWhile_append)
qed

lemma encode_url_text:
  assumes "byte_seq bs" shows "base64url_encode bs = url_text (sextets bs)"
proof -
  have "\<forall>x \<in> set (url_text (sextets bs)). x \<noteq> CHR ''=''"
    using sextets_bound [OF assms] alphabet_url_nth(2) by auto
  then have "strip_end CHR ''='' (url_text (sextets bs) @ replicate ((3 - length bs mod 3) mod 3) CHR ''='') = url_text (sextets bs)"
    by (rule strip_end_replicate)
  then show ?thesis unfolding base64url_encode_def replace_url btoa_def by (simp add: comp_def url_char_def)
qed

lemma sextets_mod: "length (sextets bs) mod 4 \<noteq> 1"
  by (induction bs rule: sextets.induct) auto

lemma unpad_pad_end:
  assumes "\<forall>c \<in> set s. c \<noteq> CHR ''=''" and "length s mod 4 \<noteq> 1"
  shows "unpad (pad_end ((length s + 3) div 4 * 4) CHR ''='' s) = s"
proof -
  have last: "s = [] \<or> last s \<noteq> CHR ''=''" using assms(1) by (cases s rule: rev_cases) auto
  consider "length s mod 4 = 0" | "length s mod 4 = 2" | "length s mod 4 = 3" using assms(2) by linarith
  then show ?thesis
  proof cases
    case 1
    then have "(length s + 3) div 4 * 4 = length s" by presburger
    with last 1 show ?thesis
      by (cases s rule: rev_cases) (auto simp: unpad_def pad_end_def drop_append split: if_splits)
  next
    case 2
    then have "(length s + 3) div 4 * 4 = length s + 2" by presburger
    moreover have "(length s + 2) mod 4 = 0" using 2 by presburger
    ultimately show ?thesis by (simp add: unpad_def pad_end_def numeral_2_eq_2)
  next
    case 3
    then have e: "(length s + 3) div 4 * 4 = length s + 1" and m: "(length s + 1) mod 4 = 0" by presburger+
    obtain u c where s: "s = u @ [c]" using 3 by (cases s rule: rev_cases) auto
    then have "c \<noteq> CHR ''=''" using assms(1) by auto
    moreover have "pad_end ((length s + 3) div 4 * 4) CHR ''='' s = u @ [c, CHR ''='']" unfolding pad_end_def e using s by simp
    moreover have "(length u + 2) mod 4 = 0" using m s by simp
    ultimately show ?thesis by (simp add: unpad_def s)
  qed
qed

lemma base64url_roundtrip:
  assumes "byte_seq bs" and "bs \<noteq> []" shows "base64url_decode (base64url_encode bs) = Inr bs"
proof -
  let ?ps = "sextets bs" and ?s = "map ((!) BASE64_ALPHABET) (sextets bs)"
  note lt = sextets_bound [OF assms(1)]
  have std: "map std_char (url_text ?ps) = ?s" using lt by (simp add: alphabet_url_nth(4))
  have "unpad (pad_end ((length ?s + 3) div 4 * 4) CHR ''='' ?s) = ?s"
    using lt alphabet_url_nth(3) sextets_mod [of bs] by (intro unpad_pad_end) auto
  moreover have "collect base64_value ?s = Some ?ps"
    using lt by (simp add: collect_map [of _ base64_value] base64_value_nth)
  ultimately have "atob (pad_end ((length ?s + 3) div 4 * 4) CHR ''='' ?s) = Some bs"
    using sextets_mod [of bs] by (simp add: atob_def octets_sextets [OF assms(1)])
  moreover have "?ps \<noteq> []" using assms(2) by (cases bs rule: sextets.cases) auto
  moreover have "list_all base64url_char (url_text ?ps)" using lt by (simp add: list_all_iff alphabet_url_nth(1))
  ultimately show ?thesis
    unfolding encode_url_text [OF assms(1)] base64url_decode_def replace_std Let_def std by simp
qed

lemma length_base64url: "byte_seq bs \<Longrightarrow> length (base64url_encode bs) = (length bs * 4 + 2) div 3"
  by (simp add: encode_url_text length_sextets)

lemma base64url_chars: "byte_seq bs \<Longrightarrow> list_all base64url_char (base64url_encode bs)"
  using sextets_bound [of bs] by (simp add: encode_url_text list_all_iff alphabet_url_nth(1))

lemma base64url_char_ascii: "base64url_char c \<Longrightarrow> (of_char c :: nat) < 128"
  by (auto simp: base64url_char_def)

lemma js_length_url: "list_all base64url_char s \<Longrightarrow> js_length s = length s"
  by (induction s) (auto dest: base64url_char_ascii)

lemma js_length_base64url: "byte_seq bs \<Longrightarrow> js_length (base64url_encode bs) = (length bs * 4 + 2) div 3"
  by (simp add: js_length_url base64url_chars length_base64url)

lemma TOKEN_base64url:
  "byte_seq bs \<Longrightarrow> 12 \<le> length bs \<Longrightarrow> length bs \<le> 48 \<Longrightarrow> TOKEN (base64url_encode bs)"
  unfolding TOKEN_def matches_def using base64url_chars [of bs] length_base64url [of bs] by presburger

subsection \<open>Packets are read back\<close>

definition packet_ok :: "int \<Rightarrow> overlay_packet \<Rightarrow> bool" where
  "packet_ok now p \<longleftrightarrow>
     TOKEN (pk_packetId p) \<and> (\<forall>n \<in> {pk_membershipEpoch p, pk_routeEpoch p}. 1 \<le> n \<and> n \<le> MAX_SAFE_INTEGER)
     \<and> (\<forall>n \<in> {pk_createdAt p, pk_expiresAt p}. - MAX_SAFE_INTEGER \<le> n \<and> n \<le> MAX_SAFE_INTEGER)
     \<and> pk_createdAt p \<le> now + 5000 \<and> pk_expiresAt p > now \<and> pk_expiresAt p - pk_createdAt p \<le> MAX_TTL_MS
     \<and> 2 \<le> length (pk_path p) \<and> length (pk_path p) \<le> MAX_PATH \<and> list_all PEER_ID (pk_path p) \<and> distinct (pk_path p)
     \<and> hd (pk_path p) = pk_originPeerId p \<and> last (pk_path p) = pk_destinationPeerId p
     \<and> 1 \<le> pk_hop p \<and> pk_hop p < length (pk_path p)
     \<and> pk_chunkIndex p < pk_chunkCount p \<and> pk_chunkCount p \<le> MAX_PACKET_CHUNKS
     \<and> TOKEN (pk_nonce p) \<and> TOKEN (pk_digest p) \<and> js_length (pk_ciphertext p) \<le> 24000"

lemma traffic_named [simp]: "map_of TRAFFIC_NAMES (traffic_name c) = Some c"
  by (cases c) (simp_all add: TRAFFIC_NAMES_def)

lemma js_set_id_gen: "distinct (ys @ xs) \<Longrightarrow> foldl (\<lambda>s x. set_add x s) ys xs = ys @ xs"
  by (induction xs arbitrary: ys) (auto simp: set_add_def)

lemma parse_path_ok:
  assumes "2 \<le> length path" "length path \<le> MAX_PATH" "list_all PEER_ID path" "distinct path"
  shows "parse_path (JArr (map JStr path)) (hd path) (last path) = Some path"
proof -
  have "collect peer_string (map JStr path) = Some path"
    using assms(3) by (intro collect_map_id) (auto simp: list_all_iff)
  then show ?thesis using assms js_set_id_gen [of "[]" path] by (simp add: parse_path_def js_set_def)
qed

lemma parse_packet_json:
  assumes "packet_ok now p" shows "parseOverlayPacket now (packet_json p) = Some p"
proof -
  have ne: "pk_path p \<noteq> []" using assms by (auto simp: packet_ok_def)
  have "PEER_ID (pk_originPeerId p)" "PEER_ID (pk_destinationPeerId p)"
    using assms hd_in_set [OF ne] last_in_set [OF ne] by (auto simp: packet_ok_def list_all_iff)
  moreover have "exactKeys (map (\<lambda>k. (k, f k)) PACKET_FIELDS) PACKET_FIELDS" for f :: "string \<Rightarrow> jsval"
    by (simp add: exactKeys_def list_all_iff js_keys_def js_has_def)
  moreover have "parse_path (JArr (map JStr (pk_path p))) (pk_originPeerId p) (pk_destinationPeerId p) = Some (pk_path p)"
    using assms parse_path_ok [of "pk_path p"] by (simp add: packet_ok_def)
  ultimately show ?thesis
    using assms
    by (simp add: parseOverlayPacket_def packet_json_def packet_ok_def exactKeys_def PACKET_FIELDS_def js_simps
        MAX_PATH_def MAX_PACKET_CHUNKS_def MAX_SAFE_INTEGER_def)
qed

end
