(* ===== verification/Opaque_Overlay.thy ===== *)
theory Opaque_Overlay
  imports Overlay_Packet
begin

text \<open>
  \<open>OpaqueDataOverlay\<close> of \<^verbatim>\<open>webrtc/opaque-data-overlay.ts\<close>: end-to-end encrypted messages between members,
  cut into chunks and relayed along a path. WebCrypto is the record \<open>overlay_crypto\<close>.

  An \<open>async\<close> method is cut at its awaits: a call is begun, waits as an \<open>overlay_call\<close>, and every resumption
  either waits again or settles, with an error message on the left. The object identities the code compares
  are numbers drawn from \<open>ov_fresh\<close>; a check of \<open>#current\<close> compares the four identities it captured. Random
  bytes and private keys are arguments. Erasing buffers has no effect on what the methods return and is left
  out; the bytes handed to \<open>encrypt\<close> are taken not to be changed by the caller meanwhile.
\<close>

subsection \<open>State\<close>

record overlay_crypto =
  oc_export :: "bytes \<Rightarrow> string \<times> string"
  oc_import :: "string \<times> string \<Rightarrow> bytes option"
  oc_derive :: "bytes \<Rightarrow> bytes \<Rightarrow> bytes"
  oc_encrypt :: "bytes \<Rightarrow> bytes \<Rightarrow> bytes \<Rightarrow> bytes \<Rightarrow> bytes"
  oc_decrypt :: "bytes \<Rightarrow> bytes \<Rightarrow> bytes \<Rightarrow> bytes \<Rightarrow> bytes option"
  oc_sha256 :: "bytes \<Rightarrow> bytes"

record key_object =
  ko_id :: nat
  ko_key :: bytes

record assembly =
  as_expiresAt :: int
  as_parts :: "(nat \<times> bytes) list"
  as_count :: nat
  as_bytes :: nat
  as_originPeerId :: string
  as_trafficClass :: traffic_class

record overlay =
  ov_fresh :: nat
  ov_lifetime :: nat
  ov_peerImports :: "(string \<times> nat) list"
  ov_ownPeerId :: string
  ov_keyPair :: "key_object option"
  ov_peerKeys :: "(string \<times> key_object) list"
  ov_derivedKeys :: "(string \<times> bytes) list"
  ov_seen :: "(string \<times> int) list"
  ov_assemblies :: "(string \<times> assembly) list"
  ov_outbound :: "(string \<times> int \<times> overlay_packet list) list"

definition new_overlay :: overlay where
  "new_overlay = \<lparr>ov_fresh = 1, ov_lifetime = 0, ov_peerImports = [], ov_ownPeerId = '''', ov_keyPair = None,
     ov_peerKeys = [], ov_derivedKeys = [], ov_seen = [], ov_assemblies = [], ov_outbound = []\<rparr>"

record current_token =
  ct_lifetime :: nat
  ct_keyPair :: "nat option"
  ct_peerKey :: "nat option"
  ct_imported :: "nat option"

datatype overlay_result =
    Packet_Forward string overlay_packet
  | Packet_Delivered string string traffic_class bytes
  | Packet_Pending string string "nat list"
  | Packet_Drop string

datatype overlay_value =
    Received overlay_result
  | Sent "overlay_packet list"
  | Initialized "string \<times> string"
  | Peer_Key_Set

text \<open>A call of \<open>#derive\<close>: settled, or waiting for WebCrypto.\<close>

datatype derivation =
    Derived "string + bytes"
  | Deriving string current_token bytes bytes

record receive_job =
  rj_packet :: overlay_packet
  rj_ciphertext :: bytes
  rj_current :: current_token

record route_context =
  rc_membershipEpoch :: int
  rc_routeEpoch :: int
  rc_trafficClass :: traffic_class
  rc_path :: "string list"

record send_job =
  sj_destination :: string
  sj_data :: bytes
  sj_route :: route_context
  sj_now :: int
  sj_current :: current_token

datatype overlay_call =
    Generating nat
  | Exporting nat bytes
  | Importing string nat nat "string \<times> string"
  | Send_Deriving send_job derivation
  | Send_Keyed send_job "string + bytes"
  | Send_Sealing send_job bytes "overlay_packet list" overlay_packet bytes
  | Send_Digesting send_job bytes "overlay_packet list" overlay_packet string
  | Receive_Digesting receive_job
  | Receive_Deriving receive_job derivation
  | Receive_Keyed receive_job "string + bytes"
  | Receive_Opening receive_job "bytes option"

datatype overlay_progress = Waiting overlay_call | Settled "string + overlay_value"

abbreviation dropped :: "string \<Rightarrow> overlay_progress" where
  "dropped reason \<equiv> Settled (Inr (Received (Packet_Drop reason)))"

abbreviation thrown :: "string \<Rightarrow> overlay_progress" where
  "thrown message \<equiv> Settled (Inl message)"

definition LIFECYCLE_CHANGED :: string where
  "LIFECYCLE_CHANGED = ''overlay_lifecycle_changed''"

subsection \<open>Keys and lifecycle\<close>

definition overlay_destroy :: "overlay \<Rightarrow> overlay" where
  "overlay_destroy ov = new_overlay\<lparr>ov_fresh := ov_fresh ov + 1, ov_lifetime := ov_fresh ov\<rparr>"

definition current :: "string \<Rightarrow> overlay \<Rightarrow> current_token" where
  "current peerId ov = \<lparr>ct_lifetime = ov_lifetime ov, ct_keyPair = map_option ko_id (ov_keyPair ov),
     ct_peerKey = map_option ko_id (map_of (ov_peerKeys ov) peerId), ct_imported = map_of (ov_peerImports ov) peerId\<rparr>"

definition initialize_begin :: "string \<Rightarrow> overlay \<Rightarrow> overlay_progress \<times> overlay" where
  "initialize_begin own ov =
     (if \<not> PEER_ID own then (thrown ''invalid_own_peer'', ov)
      else let ov' = (overlay_destroy ov)\<lparr>ov_ownPeerId := own\<rparr> in (Waiting (Generating (ov_lifetime ov')), ov'))"

definition initialize_generated :: "bytes \<Rightarrow> nat \<Rightarrow> overlay \<Rightarrow> overlay_progress \<times> overlay" where
  "initialize_generated secret lifetime ov =
     (if lifetime \<noteq> ov_lifetime ov then (thrown LIFECYCLE_CHANGED, ov) else (Waiting (Exporting lifetime secret), ov))"

definition initialize_exported :: "overlay_crypto \<Rightarrow> nat \<Rightarrow> bytes \<Rightarrow> overlay \<Rightarrow> overlay_progress \<times> overlay" where
  "initialize_exported C lifetime secret ov =
     (if lifetime \<noteq> ov_lifetime ov then (thrown LIFECYCLE_CHANGED, ov)
      else (Settled (Inr (Initialized (oc_export C secret))),
            ov\<lparr>ov_keyPair := Some \<lparr>ko_id = ov_fresh ov, ko_key = secret\<rparr>, ov_fresh := ov_fresh ov + 1\<rparr>))"

definition removePeer :: "string \<Rightarrow> overlay \<Rightarrow> overlay" where
  "removePeer peerId ov =
     ov\<lparr>ov_peerImports := map_delete peerId (ov_peerImports ov),
        ov_peerKeys := map_delete peerId (ov_peerKeys ov),
        ov_derivedKeys := map_delete peerId (ov_derivedKeys ov),
        ov_assemblies := filter (\<lambda>(i, a). as_originPeerId a \<noteq> peerId) (ov_assemblies ov),
        ov_outbound := filter (\<lambda>(i, e, ps). \<not> list_ex (\<lambda>p. peerId \<in> set (pk_path p)) ps) (ov_outbound ov)\<rparr>"

definition setPeerKey_begin :: "string \<Rightarrow> (string \<times> jsval) list \<Rightarrow> overlay \<Rightarrow> overlay_progress \<times> overlay" where
  "setPeerKey_begin peerId publicKey ov =
     (case (js_string (js_get publicKey ''x''), js_string (js_get publicKey ''y'')) of
        (Some x, Some y) \<Rightarrow>
          if ov_keyPair ov = None \<or> \<not> PEER_ID peerId \<or> peerId = ov_ownPeerId ov
             \<or> js_get publicKey ''kty'' \<noteq> JStr ''EC'' \<or> js_get publicKey ''crv'' \<noteq> JStr ''P-256''
          then (thrown ''invalid_overlay_key'', ov)
          else let ov1 = removePeer peerId ov; operation = ov_fresh ov1 in
            (Waiting (Importing peerId (ov_lifetime ov1) operation (x, y)),
             ov1\<lparr>ov_fresh := operation + 1, ov_peerImports := map_set peerId operation (ov_peerImports ov1)\<rparr>)
      | _ \<Rightarrow> (thrown ''invalid_overlay_key'', ov))"

definition setPeerKey_imported ::
  "overlay_crypto \<Rightarrow> string \<Rightarrow> nat \<Rightarrow> nat \<Rightarrow> string \<times> string \<Rightarrow> overlay \<Rightarrow> overlay_progress \<times> overlay" where
  "setPeerKey_imported C peerId lifetime operation xy ov =
     (case oc_import C xy of
        None \<Rightarrow> (thrown ''DataError'', ov)
      | Some key \<Rightarrow>
          if lifetime \<noteq> ov_lifetime ov \<or> map_of (ov_peerImports ov) peerId \<noteq> Some operation
          then (thrown LIFECYCLE_CHANGED, ov)
          else (Settled (Inr Peer_Key_Set),
            ov\<lparr>ov_fresh := ov_fresh ov + 1,
               ov_peerKeys := map_set peerId \<lparr>ko_id = ov_fresh ov, ko_key = key\<rparr> (ov_peerKeys ov),
               ov_derivedKeys := map_delete peerId (ov_derivedKeys ov)\<rparr>))"

definition hasPeerKey :: "string \<Rightarrow> overlay \<Rightarrow> bool" where
  "hasPeerKey peerId ov = (peerId \<in> set (map_keys (ov_peerKeys ov)))"

definition derive_begin :: "string \<Rightarrow> overlay \<Rightarrow> derivation" where
  "derive_begin peerId ov =
     (case map_of (ov_derivedKeys ov) peerId of
        Some cached \<Rightarrow> Derived (Inr cached)
      | None \<Rightarrow>
          (case (ov_keyPair ov, map_of (ov_peerKeys ov) peerId) of
             (Some keyPair, Some peerKey) \<Rightarrow> Deriving peerId (current peerId ov) (ko_key keyPair) (ko_key peerKey)
           | _ \<Rightarrow> Derived (Inl ''overlay_key_unavailable'')))"

fun derive_finish :: "overlay_crypto \<Rightarrow> derivation \<Rightarrow> overlay \<Rightarrow> (string + bytes) \<times> overlay" where
  "derive_finish C (Derived r) ov = (r, ov)"
| "derive_finish C (Deriving peerId token secret public) ov =
     (if current peerId ov \<noteq> token then (Inl LIFECYCLE_CHANGED, ov)
      else let key = oc_derive C secret public in
        (Inr key, ov\<lparr>ov_derivedKeys := map_set peerId key (ov_derivedKeys ov)\<rparr>))"

definition prune :: "int \<Rightarrow> overlay \<Rightarrow> overlay" where
  "prune now ov =
     ov\<lparr>ov_seen := filter (\<lambda>(k, expiresAt). expiresAt > now) (ov_seen ov),
        ov_assemblies := filter (\<lambda>(k, a). as_expiresAt a > now) (ov_assemblies ov),
        ov_outbound := filter (\<lambda>(k, expiresAt, ps). expiresAt > now) (ov_outbound ov)\<rparr>"

subsection \<open>Sending\<close>

definition send_begin :: "string \<Rightarrow> bytes \<Rightarrow> route_context \<Rightarrow> int \<Rightarrow> overlay \<Rightarrow> overlay_progress \<times> overlay" where
  "send_begin destination data route now ov =
     (if length data > MAX_CHUNK_BYTES * MAX_PACKET_CHUNKS then (thrown ''overlay_payload_too_large'', ov)
      else if rc_path route = [] \<or> hd (rc_path route) \<noteq> ov_ownPeerId ov \<or> last (rc_path route) \<noteq> destination
      then (thrown ''invalid_overlay_path'', ov)
      else (Waiting (Send_Deriving \<lparr>sj_destination = destination, sj_data = data, sj_route = route, sj_now = now,
              sj_current = current destination ov\<rparr> (derive_begin destination ov)), ov))"

definition send_derived :: "overlay_crypto \<Rightarrow> send_job \<Rightarrow> derivation \<Rightarrow> overlay \<Rightarrow> overlay_progress \<times> overlay" where
  "send_derived C job d ov = (case derive_finish C d ov of (r, ov') \<Rightarrow> (Waiting (Send_Keyed job r), ov'))"

definition chunk_count :: "bytes \<Rightarrow> nat" where
  "chunk_count data = max 1 ((length data + MAX_CHUNK_BYTES - 1) div MAX_CHUNK_BYTES)"

definition chunk_of :: "nat \<Rightarrow> bytes \<Rightarrow> bytes" where
  "chunk_of i data = take MAX_CHUNK_BYTES (drop (i * MAX_CHUNK_BYTES) data)"

definition chunk_header :: "send_job \<Rightarrow> string \<Rightarrow> string \<Rightarrow> nat \<Rightarrow> bytes \<Rightarrow> overlay_packet" where
  "chunk_header job own packetId i nonce =
     \<lparr>pk_packetId = packetId, pk_originPeerId = own, pk_destinationPeerId = sj_destination job,
      pk_membershipEpoch = rc_membershipEpoch (sj_route job), pk_routeEpoch = rc_routeEpoch (sj_route job),
      pk_trafficClass = rc_trafficClass (sj_route job), pk_createdAt = sj_now job,
      pk_expiresAt = sj_now job + MAX_TTL_MS, pk_path = rc_path (sj_route job), pk_hop = 1, pk_chunkIndex = i,
      pk_chunkCount = chunk_count (sj_data job), pk_nonce = base64url_encode nonce, pk_ciphertext = '''', pk_digest = ''''\<rparr>"

definition seal_chunk ::
  "overlay_crypto \<Rightarrow> send_job \<Rightarrow> bytes \<Rightarrow> string \<Rightarrow> string \<Rightarrow> overlay_packet list \<Rightarrow> nat \<Rightarrow> bytes \<Rightarrow> overlay_progress" where
  "seal_chunk C job key own packetId packets i nonce =
     (let chunk = chunk_header job own packetId i nonce in
      Waiting (Send_Sealing job key packets chunk (oc_encrypt C key nonce (aad chunk) (chunk_of i (sj_data job)))))"

definition send_keyed ::
  "overlay_crypto \<Rightarrow> bytes \<Rightarrow> bytes \<Rightarrow> send_job \<Rightarrow> string + bytes \<Rightarrow> overlay \<Rightarrow> overlay_progress \<times> overlay" where
  "send_keyed C random nonce job r ov =
     (case r of
        Inl e \<Rightarrow> (thrown e, ov)
      | Inr key \<Rightarrow>
          if current (sj_destination job) ov \<noteq> sj_current job then (thrown LIFECYCLE_CHANGED, ov)
          else (seal_chunk C job key (ov_ownPeerId ov) (base64url_encode random) [] 0 nonce, ov))"

definition send_sealed ::
  "overlay_crypto \<Rightarrow> send_job \<Rightarrow> bytes \<Rightarrow> overlay_packet list \<Rightarrow> overlay_packet \<Rightarrow> bytes \<Rightarrow> overlay
   \<Rightarrow> overlay_progress \<times> overlay" where
  "send_sealed C job key packets chunk ciphertext ov =
     (if current (sj_destination job) ov \<noteq> sj_current job then (thrown LIFECYCLE_CHANGED, ov)
      else (Waiting (Send_Digesting job key packets (chunk\<lparr>pk_ciphertext := base64url_encode ciphertext\<rparr>)
              (base64url_encode (oc_sha256 C ciphertext))), ov))"

definition send_digested ::
  "overlay_crypto \<Rightarrow> bytes \<Rightarrow> send_job \<Rightarrow> bytes \<Rightarrow> overlay_packet list \<Rightarrow> overlay_packet \<Rightarrow> string \<Rightarrow> overlay
   \<Rightarrow> overlay_progress \<times> overlay" where
  "send_digested C nonce job key packets chunk digest ov =
     (if current (sj_destination job) ov \<noteq> sj_current job then (thrown LIFECYCLE_CHANGED, ov)
      else let packets' = packets @ [chunk\<lparr>pk_digest := digest\<rparr>]; i = pk_chunkIndex chunk + 1 in
        if i < pk_chunkCount chunk
        then (seal_chunk C job key (ov_ownPeerId ov) (pk_packetId chunk) packets' i nonce, ov)
        else (Settled (Inr (Sent packets')),
              ov\<lparr>ov_outbound := map_set (pk_packetId chunk) (pk_expiresAt chunk, packets') (ov_outbound ov)\<rparr>))"

fun chunk_number :: "nat \<Rightarrow> jsval \<Rightarrow> nat option" where
  "chunk_number n (JNum (NInt i)) = (if num_safe_integer (NInt i) \<and> 0 \<le> i \<and> i < int n then Some (nat i) else None)"
| "chunk_number n _ = None"

definition resume :: "string \<Rightarrow> jsval list \<Rightarrow> overlay \<Rightarrow> overlay_packet list \<times> overlay" where
  "resume packetId missing ov =
     (case map_of (ov_outbound ov) packetId of
        None \<Rightarrow> ([], ov)
      | Some (expiresAt, packets) \<Rightarrow>
          if length missing > MAX_PACKET_CHUNKS then ([], ov)
          else (case collect (chunk_number (length packets)) missing of
             None \<Rightarrow> ([], ov)
           | Some indices \<Rightarrow>
               if indices = [] then ([], ov\<lparr>ov_outbound := map_delete packetId (ov_outbound ov)\<rparr>)
               else (map ((!) packets) (js_set indices), ov)))"

subsection \<open>Receiving\<close>

record receive_context =
  rx_membershipEpoch :: int
  rx_routeEpoch :: int
  rx_memberPeerIds :: "string list"

definition replay_key :: "overlay_packet \<Rightarrow> string" where
  "replay_key packet = pk_packetId packet @ '':'' @ nat_str (pk_chunkIndex packet)"

definition assembly_key :: "overlay_packet \<Rightarrow> string" where
  "assembly_key packet = pk_originPeerId packet @ '':'' @ pk_packetId packet"

definition receive_begin ::
  "int \<Rightarrow> jsval \<Rightarrow> string \<Rightarrow> receive_context \<Rightarrow> overlay \<Rightarrow> overlay_progress \<times> overlay" where
  "receive_begin now raw previousPeerId ctx ov0 =
     (let ov = prune now ov0 in
      case parseOverlayPacket now raw of
        None \<Rightarrow> (dropped ''invalid_packet'', ov)
      | Some packet \<Rightarrow>
          if pk_membershipEpoch packet \<noteq> rx_membershipEpoch ctx
             \<or> (length (pk_path packet) \<noteq> 2 \<and> pk_routeEpoch packet \<noteq> rx_routeEpoch ctx)
          then (dropped ''stale_epoch'', ov)
          else if \<not> list_all (\<lambda>p. p \<in> set (rx_memberPeerIds ctx)) (pk_path packet)
             \<or> pk_path packet ! pk_hop packet \<noteq> ov_ownPeerId ov
             \<or> pk_path packet ! (pk_hop packet - 1) \<noteq> previousPeerId
          then (dropped ''unauthorized_path'', ov)
          else if replay_key packet \<in> set (map_keys (ov_seen ov)) then (dropped ''replay'', ov)
          else (case base64url_decode (pk_ciphertext packet) of
             Inl e \<Rightarrow> (thrown e, ov)
           | Inr ciphertext \<Rightarrow>
               (Waiting (Receive_Digesting \<lparr>rj_packet = packet, rj_ciphertext = ciphertext,
                  rj_current = current (pk_originPeerId packet) ov\<rparr>), ov)))"

definition job_current :: "receive_job \<Rightarrow> overlay \<Rightarrow> bool" where
  "job_current job ov \<longleftrightarrow> current (pk_originPeerId (rj_packet job)) ov = rj_current job"

definition receive_digested :: "overlay_crypto \<Rightarrow> receive_job \<Rightarrow> overlay \<Rightarrow> overlay_progress \<times> overlay" where
  "receive_digested C job ov =
     (let packet = rj_packet job in
      if base64url_encode (oc_sha256 C (rj_ciphertext job)) \<noteq> pk_digest packet then (dropped ''digest_mismatch'', ov)
      else if \<not> job_current job ov then (dropped ''lifecycle_changed'', ov)
      else if replay_key packet \<in> set (map_keys (ov_seen ov)) then (dropped ''replay'', ov)
      else let ov1 = ov\<lparr>ov_seen := map_set (replay_key packet) (pk_expiresAt packet) (ov_seen ov)\<rparr> in
        if ov_ownPeerId ov1 \<noteq> pk_destinationPeerId packet then
          (if length (pk_path packet) \<le> pk_hop packet + 1 then (dropped ''hop_limit'', ov1)
           else (Settled (Inr (Received (Packet_Forward (pk_path packet ! (pk_hop packet + 1))
                   (packet\<lparr>pk_hop := pk_hop packet + 1\<rparr>)))), ov1))
        else (Waiting (Receive_Deriving job (derive_begin (pk_originPeerId packet) ov1)), ov1))"

definition receive_derived :: "overlay_crypto \<Rightarrow> receive_job \<Rightarrow> derivation \<Rightarrow> overlay \<Rightarrow> overlay_progress \<times> overlay" where
  "receive_derived C job d ov = (case derive_finish C d ov of (r, ov') \<Rightarrow> (Waiting (Receive_Keyed job r), ov'))"

text \<open>Inside the \<open>try\<close> block every error becomes \<open>decrypt_failed\<close>.\<close>

definition receive_keyed :: "overlay_crypto \<Rightarrow> receive_job \<Rightarrow> string + bytes \<Rightarrow> overlay \<Rightarrow> overlay_progress \<times> overlay" where
  "receive_keyed C job r ov =
     (case r of
        Inl e \<Rightarrow> (dropped ''decrypt_failed'', ov)
      | Inr key \<Rightarrow>
          if \<not> job_current job ov then (dropped ''decrypt_failed'', ov)
          else (case base64url_decode (pk_nonce (rj_packet job)) of
             Inl e \<Rightarrow> (dropped ''decrypt_failed'', ov)
           | Inr nonce \<Rightarrow>
               (Waiting (Receive_Opening job (oc_decrypt C key nonce (aad (rj_packet job)) (rj_ciphertext job))), ov)))"

text \<open>\<open>data.set(part, offset)\<close> for each part in order, into a buffer of zeros.\<close>

definition join_parts :: "nat \<Rightarrow> bytes list \<Rightarrow> bytes option" where
  "join_parts n parts =
     (let body = concat parts in if length body > n then None else Some (body @ replicate (n - length body) 0))"

definition add_part :: "overlay_packet \<Rightarrow> bytes \<Rightarrow> assembly \<Rightarrow> assembly" where
  "add_part packet cleartext a =
     a\<lparr>as_parts := map_set (pk_chunkIndex packet) cleartext (as_parts a), as_bytes := as_bytes a + length cleartext\<rparr>"

definition assembly_for :: "overlay_packet \<Rightarrow> overlay \<Rightarrow> assembly" where
  "assembly_for packet ov =
     (case map_of (ov_assemblies ov) (assembly_key packet) of
        Some a \<Rightarrow> a
      | None \<Rightarrow> \<lparr>as_expiresAt = pk_expiresAt packet, as_parts = [], as_count = pk_chunkCount packet, as_bytes = 0,
          as_originPeerId = pk_originPeerId packet, as_trafficClass = pk_trafficClass packet\<rparr>)"

definition missing_parts :: "assembly \<Rightarrow> nat list" where
  "missing_parts a = filter (\<lambda>i. i \<notin> set (map_keys (as_parts a))) [0..<as_count a]"

definition receive_opened :: "receive_job \<Rightarrow> bytes option \<Rightarrow> overlay \<Rightarrow> overlay_progress \<times> overlay" where
  "receive_opened job opened ov =
     (case opened of
        None \<Rightarrow> (dropped ''decrypt_failed'', ov)
      | Some cleartext \<Rightarrow>
          if \<not> job_current job ov then (dropped ''lifecycle_changed'', ov)
          else let packet = rj_packet job; key = assembly_key packet;
                   a = assembly_for packet ov;
                   cleared = ov\<lparr>ov_assemblies := map_delete key (ov_assemblies ov)\<rparr>
            in if as_count a \<noteq> pk_chunkCount packet
                  \<or> as_bytes a + length cleartext > MAX_CHUNK_BYTES * MAX_PACKET_CHUNKS
               then (dropped ''assembly_limit'', cleared)
               else let a' = add_part packet cleartext a;
                        ov' = ov\<lparr>ov_assemblies := map_set key a' (ov_assemblies ov)\<rparr>
               in if length (as_parts a') \<noteq> as_count a'
                  then (Settled (Inr (Received (Packet_Pending (pk_packetId packet) (pk_originPeerId packet) (missing_parts a')))), ov')
                  else (case collect (map_of (as_parts a')) [0..<as_count a'] of
                     None \<Rightarrow> (dropped ''assembly_incomplete'', ov')
                   | Some parts \<Rightarrow>
                       (case join_parts (as_bytes a') parts of
                          None \<Rightarrow> (dropped ''decrypt_failed'', ov')
                        | Some data \<Rightarrow>
                            (Settled (Inr (Received (Packet_Delivered (pk_packetId packet) (as_originPeerId a') (as_trafficClass a') data))),
                             cleared))))"

subsection \<open>Resuming a call\<close>

fun overlay_resume :: "overlay_crypto \<Rightarrow> bytes \<times> bytes \<Rightarrow> overlay_call \<Rightarrow> overlay \<Rightarrow> overlay_progress \<times> overlay" where
  "overlay_resume C rnd (Generating lifetime) ov = initialize_generated (fst rnd) lifetime ov"
| "overlay_resume C rnd (Exporting lifetime secret) ov = initialize_exported C lifetime secret ov"
| "overlay_resume C rnd (Importing peerId lifetime operation xy) ov = setPeerKey_imported C peerId lifetime operation xy ov"
| "overlay_resume C rnd (Send_Deriving job d) ov = send_derived C job d ov"
| "overlay_resume C rnd (Send_Keyed job r) ov = send_keyed C (fst rnd) (snd rnd) job r ov"
| "overlay_resume C rnd (Send_Sealing job key packets chunk ciphertext) ov = send_sealed C job key packets chunk ciphertext ov"
| "overlay_resume C rnd (Send_Digesting job key packets chunk digest) ov = send_digested C (snd rnd) job key packets chunk digest ov"
| "overlay_resume C rnd (Receive_Digesting job) ov = receive_digested C job ov"
| "overlay_resume C rnd (Receive_Deriving job d) ov = receive_derived C job d ov"
| "overlay_resume C rnd (Receive_Keyed job r) ov = receive_keyed C job r ov"
| "overlay_resume C rnd (Receive_Opening job opened) ov = receive_opened job opened ov"

end
