(* ===== verification/Overlay_Replay.thy ===== *)
theory Overlay_Replay
  imports Opaque_Overlay "HOL-Library.Multiset"
begin

text \<open>
  An overlay with the calls that wait in it, under every interleaving of calls and resumptions, and the
  replay protection of \<open>receive\<close> over such runs.
\<close>

subsection \<open>Runs\<close>

text \<open>What can happen next. \<open>Continue i rnd\<close> resumes the waiting call number \<open>i\<close>; \<open>rnd\<close> are the random bytes
  it draws.\<close>

datatype overlay_event =
    Initialize_Call string
  | Set_Key_Call string "(string \<times> jsval) list"
  | Remove_Call string
  | Destroy_Call
  | Send_Call string bytes route_context int
  | Receive_Call int jsval string receive_context
  | Resume_Call string "jsval list"
  | Continue nat "bytes \<times> bytes"

text \<open>The claim a call of \<open>receive\<close> makes when it enters its packet into \<open>#seen\<close>, with the latest clock
  reading so far.\<close>

record claim =
  cl_lifetime :: nat
  cl_packet :: overlay_packet
  cl_clock :: int

record overlay_system =
  sy_overlay :: overlay
  sy_clock :: int
  sy_calls :: "(claim option \<times> overlay_call) list"
  sy_results :: "(claim option \<times> (string + overlay_value)) list"

definition overlay_start :: "int \<Rightarrow> overlay_system" where
  "overlay_start clock = \<lparr>sy_overlay = new_overlay, sy_clock = clock, sy_calls = [], sy_results = []\<rparr>"

fun put_progress :: "claim option \<Rightarrow> overlay_progress \<times> overlay \<Rightarrow> overlay_system \<Rightarrow> overlay_system" where
  "put_progress tag (Waiting call, ov) s = s\<lparr>sy_overlay := ov, sy_calls := sy_calls s @ [(tag, call)]\<rparr>"
| "put_progress tag (Settled v, ov) s = s\<lparr>sy_overlay := ov, sy_results := sy_results s @ [(tag, v)]\<rparr>"

fun claimed :: "overlay_crypto \<Rightarrow> int \<Rightarrow> overlay_call \<Rightarrow> overlay \<Rightarrow> claim option" where
  "claimed C clock (Receive_Digesting job) ov =
     (if replay_key (rj_packet job) \<in> set (map_keys (ov_seen (snd (receive_digested C job ov)))) - set (map_keys (ov_seen ov))
      then Some \<lparr>cl_lifetime = ov_lifetime ov, cl_packet = rj_packet job, cl_clock = clock\<rparr> else None)"
| "claimed C clock _ ov = None"

fun overlay_step :: "overlay_crypto \<Rightarrow> overlay_system \<Rightarrow> overlay_event \<Rightarrow> overlay_system" where
  "overlay_step C s (Initialize_Call own) = put_progress None (initialize_begin own (sy_overlay s)) s"
| "overlay_step C s (Set_Key_Call peerId key) = put_progress None (setPeerKey_begin peerId key (sy_overlay s)) s"
| "overlay_step C s (Remove_Call peerId) = s\<lparr>sy_overlay := removePeer peerId (sy_overlay s)\<rparr>"
| "overlay_step C s Destroy_Call = s\<lparr>sy_overlay := overlay_destroy (sy_overlay s)\<rparr>"
| "overlay_step C s (Send_Call destination data route now) = put_progress None (send_begin destination data route now (sy_overlay s)) s"
| "overlay_step C s (Receive_Call now raw previous ctx) =
     put_progress None (receive_begin now raw previous ctx (sy_overlay s)) (s\<lparr>sy_clock := max (sy_clock s) now\<rparr>)"
| "overlay_step C s (Resume_Call packetId missing) = s\<lparr>sy_overlay := snd (resume packetId missing (sy_overlay s))\<rparr>"
| "overlay_step C s (Continue i rnd) =
     (if i < length (sy_calls s) then
        (case sy_calls s ! i of (tag, call) \<Rightarrow>
           put_progress (case claimed C (sy_clock s) call (sy_overlay s) of None \<Rightarrow> tag | c \<Rightarrow> c)
             (overlay_resume C rnd call (sy_overlay s)) (s\<lparr>sy_calls := drop_nth i (sy_calls s)\<rparr>))
      else s)"

abbreviation overlay_run :: "overlay_crypto \<Rightarrow> overlay_system \<Rightarrow> overlay_event list \<Rightarrow> overlay_system" where
  "overlay_run C \<equiv> foldl (overlay_step C)"

subsection \<open>Replays\<close>

text \<open>What identifies a packet for the replay protection. A claim is timely when no clock reading has
  reached the expiry of the packet.\<close>

definition claim_id :: "claim \<Rightarrow> nat \<times> string \<times> int" where
  "claim_id c = (cl_lifetime c, replay_key (cl_packet c), pk_expiresAt (cl_packet c))"

definition timely :: "claim \<Rightarrow> bool" where
  "timely c \<longleftrightarrow> cl_clock c < pk_expiresAt (cl_packet c)"

fun accepted_result :: "string + overlay_value \<Rightarrow> bool" where
  "accepted_result (Inr (Received (Packet_Drop _))) = False"
| "accepted_result (Inr (Received _)) = True"
| "accepted_result _ = False"

text \<open>The packet a result is about.\<close>

fun result_packetId :: "string + overlay_value \<Rightarrow> string option" where
  "result_packetId (Inr (Received (Packet_Forward _ p))) = Some (pk_packetId p)"
| "result_packetId (Inr (Received (Packet_Delivered i _ _ _))) = Some i"
| "result_packetId (Inr (Received (Packet_Pending i _ _))) = Some i"
| "result_packetId _ = None"

abbreviation claims_of :: "(claim option \<times> 'a) list \<Rightarrow> claim list" where
  "claims_of xs \<equiv> filter timely (map the (filter (\<lambda>t. t \<noteq> None) (map fst xs)))"

definition all_claims :: "overlay_system \<Rightarrow> claim list" where
  "all_claims s = claims_of (sy_calls s) @ claims_of (sy_results s)"

fun past_claim :: "overlay_call \<Rightarrow> receive_job option" where
  "past_claim (Receive_Deriving job d) = Some job"
| "past_claim (Receive_Keyed job r) = Some job"
| "past_claim (Receive_Opening job b) = Some job"
| "past_claim _ = None"

text \<open>A timely claim of the current lifetime is in \<open>#seen\<close> until the clock reaches its expiry; calls past
  their claim carry it.\<close>

definition claims_ok :: "int \<Rightarrow> overlay \<Rightarrow> claim list \<Rightarrow> bool" where
  "claims_ok clock ov cs \<longleftrightarrow>
     ov_lifetime ov < ov_fresh ov \<and> distinct (map claim_id cs)
     \<and> (\<forall>c \<in> set cs. cl_lifetime c < ov_fresh ov
          \<and> (cl_lifetime c = ov_lifetime ov \<and> clock < pk_expiresAt (cl_packet c) \<longrightarrow>
               map_of (ov_seen ov) (replay_key (cl_packet c)) = Some (pk_expiresAt (cl_packet c))))"

definition tag_fits :: "claim option \<Rightarrow> overlay_call \<Rightarrow> bool" where
  "tag_fits t call \<longleftrightarrow>
     (case past_claim call of None \<Rightarrow> t = None | Some job \<Rightarrow> map_option cl_packet t = Some (rj_packet job))"

definition result_fits :: "claim option \<Rightarrow> string + overlay_value \<Rightarrow> bool" where
  "result_fits t r \<longleftrightarrow>
     (accepted_result r \<longrightarrow> t \<noteq> None \<and> result_packetId r = map_option (\<lambda>c. pk_packetId (cl_packet c)) t)"

definition tags_ok :: "overlay_system \<Rightarrow> bool" where
  "tags_ok s \<longleftrightarrow>
     (\<forall>(t, call) \<in> set (sy_calls s). tag_fits t call) \<and> (\<forall>(t, r) \<in> set (sy_results s). result_fits t r)"

lemma claims_ok_same:
  "claims_ok k ov cs \<Longrightarrow> ov_seen ov' = ov_seen ov \<Longrightarrow> ov_lifetime ov' = ov_lifetime ov \<Longrightarrow> ov_fresh ov \<le> ov_fresh ov' \<Longrightarrow>
   claims_ok k ov' cs"
  by (fastforce simp: claims_ok_def)

lemma map_of_filter_kept: "map_of m k = Some v \<Longrightarrow> P (k, v) \<Longrightarrow> map_of (filter P m) k = Some v"
  by (induction m) auto

lemma claims_ok_prune: "claims_ok k ov cs \<Longrightarrow> claims_ok (max k now) (prune now ov) cs"
  by (auto simp: claims_ok_def prune_def intro!: map_of_filter_kept)

lemma claims_ok_destroy: "claims_ok k ov cs \<Longrightarrow> claims_ok k (overlay_destroy ov) cs"
  by (fastforce simp: claims_ok_def overlay_destroy_def new_overlay_def)

lemma claims_ok_sub: "claims_ok k ov cs \<Longrightarrow> mset cs' \<subseteq># mset cs \<Longrightarrow> claims_ok k ov cs'"
proof -
  assume ok: "claims_ok k ov cs" and sub: "mset cs' \<subseteq># mset cs"
  obtain ds where "mset ds = mset cs - mset cs'" using ex_mset by blast
  with sub have "mset cs = mset (cs' @ ds)" by simp
  then have "mset (map claim_id cs) = mset (map claim_id (cs' @ ds))" by (metis mset_map)
  then have "distinct (map claim_id cs')"
    using ok mset_eq_imp_distinct_iff [of "map claim_id cs"] by (fastforce simp: claims_ok_def)
  with ok set_mset_mono [OF sub] show ?thesis by (auto simp: claims_ok_def)
qed

text \<open>A claim is only made when nothing is entered under its key, so no timely claim has its identity.\<close>

lemma claims_ok_claim:
  assumes ok: "claims_ok k ov cs" and new: "map_of (ov_seen ov) (replay_key p) = None"
    and "ov_seen ov' = map_set (replay_key p) (pk_expiresAt p) (ov_seen ov)"
    and "ov_lifetime ov' = ov_lifetime ov" and "ov_fresh ov' = ov_fresh ov"
    and c: "c = \<lparr>cl_lifetime = ov_lifetime ov, cl_packet = p, cl_clock = k\<rparr>"
  shows "claims_ok k ov' (claims_of [(Some c, ())] @ cs)"
proof -
  have old: "\<not> (cl_lifetime d = ov_lifetime ov \<and> replay_key (cl_packet d) = replay_key p \<and> k < pk_expiresAt (cl_packet d))"
    if "d \<in> set cs" for d using ok new that by (auto simp: claims_ok_def)
  have "timely c \<Longrightarrow> claim_id c \<notin> claim_id ` set cs"
    using old by (fastforce simp: timely_def claim_id_def c)
  with ok old assms(3-5) show ?thesis by (auto simp: claims_ok_def c)
qed

lemma all_claims_put: "mset (all_claims (put_progress t pr s)) = mset (claims_of [(t, ())]) + mset (all_claims s)"
  by (cases "(t, pr, s)" rule: put_progress.cases) (auto simp: all_claims_def)

lemma all_claims_take:
  assumes "sy_calls s = ys @ (t, call) # zs"
  shows "mset (all_claims s) = mset (claims_of [(t, ())]) + mset (all_claims (s\<lparr>sy_calls := ys @ zs\<rparr>))"
  using assms by (auto simp: all_claims_def)

lemmas resume_defs = initialize_generated_def initialize_exported_def setPeerKey_imported_def send_derived_def
  send_keyed_def send_sealed_def send_digested_def seal_chunk_def receive_digested_def receive_derived_def
  receive_keyed_def receive_opened_def

lemmas resume_splits = if_splits option.splits sum.splits prod.splits

lemma keys_map_set [simp]: "fst ` set (map_set k v m) = insert k (fst ` set m)"
  using map_keys_map_set [of k v m] by (auto simp: image_set simp del: set_map)

lemma derive_finish_keeps:
  assumes "derive_finish C d ov = (r, ov')"
  shows "ov_seen ov' = ov_seen ov" "ov_lifetime ov' = ov_lifetime ov" "ov_fresh ov' = ov_fresh ov"
  using assms by (cases d; auto simp: Let_def split: if_splits)+

lemma resume_keeps:
  assumes "overlay_resume C rnd call ov = (pr, ov')"
  shows "ov_lifetime ov' = ov_lifetime ov \<and> ov_fresh ov \<le> ov_fresh ov' \<and>
    (claimed C k call ov = None \<longrightarrow> ov_seen ov' = ov_seen ov)"
  using assms
  by (cases call) (auto simp: resume_defs Let_def dest: derive_finish_keeps split: resume_splits)

lemma resume_claims:
  assumes "claimed C k call ov = Some c" and "overlay_resume C rnd call ov = (pr, ov')"
  obtains job where "call = Receive_Digesting job" "map_of (ov_seen ov) (replay_key (rj_packet job)) = None"
    "c = \<lparr>cl_lifetime = ov_lifetime ov, cl_packet = rj_packet job, cl_clock = k\<rparr>"
    "ov_seen ov' = map_set (replay_key (rj_packet job)) (pk_expiresAt (rj_packet job)) (ov_seen ov)"
    "ov_lifetime ov' = ov_lifetime ov" "ov_fresh ov' = ov_fresh ov"
proof (cases call)
  case (Receive_Digesting job)
  then show thesis
    using assms that [of job]
    by (auto simp: receive_digested_def Let_def map_of_eq_None_iff split: if_splits)
qed (use assms in auto)

lemma resume_tag:
  assumes "overlay_resume C rnd call ov = (pr, ov')" and "tag_fits t call"
    and "t' = (case claimed C k call ov of None \<Rightarrow> t | c \<Rightarrow> c)"
  shows "case pr of Waiting call' \<Rightarrow> tag_fits t' call' | Settled r \<Rightarrow> result_fits t' r"
proof (cases call)
  case (Receive_Opening job opened)
  with assms show ?thesis
    by (auto simp: receive_opened_def Let_def tag_fits_def result_fits_def split: resume_splits)
next
  case (Receive_Digesting job)
  with assms show ?thesis
    by (auto simp: receive_digested_def Let_def tag_fits_def result_fits_def split: if_splits)
next
  case (Receive_Keyed job r)
  with assms show ?thesis
    by (auto simp: receive_keyed_def tag_fits_def result_fits_def split: resume_splits)
qed (use assms in \<open>auto simp: resume_defs Let_def tag_fits_def result_fits_def split: resume_splits\<close>)

definition replay_inv :: "overlay_system \<Rightarrow> bool" where
  "replay_inv s \<longleftrightarrow> claims_ok (sy_clock s) (sy_overlay s) (all_claims s) \<and> tags_ok s"

lemma put_progress_fields:
  "sy_overlay (put_progress t (pr, ov) s) = ov" "sy_clock (put_progress t (pr, ov) s) = sy_clock s"
  by (cases pr; simp)+

lemma tags_ok_put:
  assumes "tags_ok s" and "case pr of Waiting call \<Rightarrow> tag_fits t call | Settled r \<Rightarrow> result_fits t r"
  shows "tags_ok (put_progress t (pr, ov) s)"
  using assms by (cases pr) (auto simp: tags_ok_def)

definition starts_call :: "overlay_progress \<Rightarrow> bool" where
  "starts_call pr \<longleftrightarrow> (case pr of Waiting call \<Rightarrow> past_claim call = None | Settled r \<Rightarrow> \<not> accepted_result r)"

lemma replay_inv_begin:
  assumes "claims_ok (sy_clock s) (snd b) (all_claims s)" and "tags_ok s" and "starts_call (fst b)"
  shows "replay_inv (put_progress None b s)"
proof -
  obtain pr ov where b: "b = (pr, ov)" by (cases b)
  have "claims_ok (sy_clock s) ov (all_claims (put_progress None (pr, ov) s))"
    using assms(1) unfolding b snd_conv by (rule claims_ok_sub) (simp add: all_claims_put)
  moreover have "case pr of Waiting call \<Rightarrow> tag_fits None call | Settled r \<Rightarrow> result_fits None r"
    using assms(3) unfolding b by (cases pr) (simp_all add: starts_call_def tag_fits_def result_fits_def)
  then have "tags_ok (put_progress None (pr, ov) s)" by (rule tags_ok_put [OF assms(2)])
  ultimately show ?thesis by (simp add: replay_inv_def put_progress_fields b)
qed

lemma replay_inv_continue:
  assumes inv: "replay_inv s" and split: "sy_calls s = ys @ (t, call) # zs"
    and res: "overlay_resume C rnd call (sy_overlay s) = (pr, ov')"
    and t': "t' = (case claimed C (sy_clock s) call (sy_overlay s) of None \<Rightarrow> t | c \<Rightarrow> c)"
  shows "replay_inv (put_progress t' (pr, ov') (s\<lparr>sy_calls := ys @ zs\<rparr>))"
proof -
  let ?s = "s\<lparr>sy_calls := ys @ zs\<rparr>"
  have seen: "claims_ok (sy_clock s) (sy_overlay s) (all_claims s)" and fits: "tag_fits t call" and tags: "tags_ok ?s"
    using inv split by (auto simp: replay_inv_def tags_ok_def)
  note all = all_claims_take [OF split]
  have "claims_ok (sy_clock s) ov' (claims_of [(t', ())] @ all_claims ?s)"
  proof (cases "claimed C (sy_clock s) call (sy_overlay s)")
    case None
    then have "claims_ok (sy_clock s) ov' (all_claims s)"
      using resume_keeps [OF res, of "sy_clock s"] by (intro claims_ok_same [OF seen]) auto
    then show ?thesis by (rule claims_ok_sub) (simp add: all t' None)
  next
    case (Some c)
    obtain job where job: "call = Receive_Digesting job"
      "map_of (ov_seen (sy_overlay s)) (replay_key (rj_packet job)) = None"
      "c = \<lparr>cl_lifetime = ov_lifetime (sy_overlay s), cl_packet = rj_packet job, cl_clock = sy_clock s\<rparr>"
      "ov_seen ov' = map_set (replay_key (rj_packet job)) (pk_expiresAt (rj_packet job)) (ov_seen (sy_overlay s))"
      "ov_lifetime ov' = ov_lifetime (sy_overlay s)" "ov_fresh ov' = ov_fresh (sy_overlay s)"
      by (rule resume_claims [OF Some res])
    have "claims_ok (sy_clock s) (sy_overlay s) (all_claims ?s)" by (rule claims_ok_sub [OF seen]) (simp add: all)
    then show ?thesis using claims_ok_claim [OF _ job(2) job(4-6) job(3)] by (simp add: t' Some)
  qed
  then have "claims_ok (sy_clock s) ov' (all_claims (put_progress t' (pr, ov') ?s))"
    by (rule claims_ok_sub) (simp add: all_claims_put)
  moreover have "tags_ok (put_progress t' (pr, ov') ?s)" by (rule tags_ok_put [OF tags resume_tag [OF res fits t']])
  ultimately show ?thesis by (simp add: replay_inv_def put_progress_fields)
qed

lemma replay_inv_step: assumes inv: "replay_inv s" shows "replay_inv (overlay_step C s e)"
proof -
  let ?ov = "sy_overlay s"
  have seen: "claims_ok (sy_clock s) ?ov (all_claims s)" and tags: "tags_ok s" using inv by (simp_all add: replay_inv_def)
  have same: "replay_inv (s\<lparr>sy_overlay := ov\<rparr>)" if "claims_ok (sy_clock s) ov (all_claims s)" for ov
    using that tags by (simp add: replay_inv_def tags_ok_def all_claims_def)
  show ?thesis
  proof (cases e)
    case (Initialize_Call own)
    have "claims_ok (sy_clock s) ((overlay_destroy ?ov)\<lparr>ov_ownPeerId := own\<rparr>) (all_claims s)"
      by (rule claims_ok_same [OF claims_ok_destroy [OF seen]]) simp_all
    then show ?thesis
      unfolding Initialize_Call overlay_step.simps using seen tags
      by (intro replay_inv_begin) (simp_all add: initialize_begin_def starts_call_def Let_def)
  next
    case (Set_Key_Call peerId key)
    have "claims_ok (sy_clock s) (snd (setPeerKey_begin peerId key ?ov)) (all_claims s)"
      by (rule claims_ok_same [OF seen])
        (auto simp: setPeerKey_begin_def removePeer_def Let_def split: option.splits if_splits)
    then show ?thesis
      unfolding Set_Key_Call overlay_step.simps using tags
      by (intro replay_inv_begin) (auto simp: setPeerKey_begin_def starts_call_def Let_def split: option.splits)
  next
    case (Remove_Call peerId)
    then show ?thesis using same claims_ok_same [OF seen] by (simp add: removePeer_def)
  next
    case Destroy_Call
    then show ?thesis using same claims_ok_destroy [OF seen] by simp
  next
    case (Send_Call destination data route now)
    then show ?thesis
      unfolding Send_Call overlay_step.simps using seen tags
      by (intro replay_inv_begin) (simp_all add: send_begin_def starts_call_def)
  next
    case (Receive_Call now raw previous ctx)
    let ?s = "s\<lparr>sy_clock := max (sy_clock s) now\<rparr>"
    have "snd (receive_begin now raw previous ctx ?ov) = prune now ?ov" "starts_call (fst (receive_begin now raw previous ctx ?ov))"
      by (auto simp: receive_begin_def starts_call_def Let_def split: option.splits sum.splits)
    moreover have "claims_ok (max (sy_clock s) now) (prune now ?ov) (all_claims ?s)" "tags_ok ?s"
      using claims_ok_prune [OF seen] tags by (simp_all add: all_claims_def tags_ok_def)
    ultimately show ?thesis
      unfolding Receive_Call overlay_step.simps by (intro replay_inv_begin) simp_all
  next
    case (Resume_Call packetId missing)
    have "claims_ok (sy_clock s) (snd (resume packetId missing ?ov)) (all_claims s)"
      by (rule claims_ok_same [OF seen]) (auto simp: resume_def split: option.splits)
    then show ?thesis using same Resume_Call by simp
  next
    case (Continue i rnd)
    show ?thesis
    proof (cases "i < length (sy_calls s)")
      case True
      obtain t call where x: "sy_calls s ! i = (t, call)" by (cases "sy_calls s ! i")
      with True obtain ys zs where "sy_calls s = ys @ (t, call) # zs" "drop_nth i (sy_calls s) = ys @ zs"
        by (metis drop_nth_split)
      moreover obtain pr ov' where "overlay_resume C rnd call ?ov = (pr, ov')" by (cases "overlay_resume C rnd call ?ov")
      ultimately show ?thesis using replay_inv_continue [OF inv] True x by (simp add: Continue del: drop_nth.simps)
    qed (use inv Continue in simp)
  qed
qed

lemma replay_inv_run: "replay_inv (overlay_run C (overlay_start clock) events)"
proof -
  have "replay_inv s \<Longrightarrow> replay_inv (overlay_run C s events)" for s
    by (induction events arbitrary: s) (simp_all add: replay_inv_step)
  moreover have "replay_inv (overlay_start clock)"
    by (simp add: replay_inv_def overlay_start_def claims_ok_def tags_ok_def all_claims_def new_overlay_def)
  ultimately show ?thesis .
qed

lemma accepted_claims:
  "\<forall>(t, r) \<in> set rs. result_fits t r \<Longrightarrow>
   mset (filter timely (map (\<lambda>(t, r). the t) (filter (\<lambda>(t, r). accepted_result r) rs))) \<subseteq># mset (claims_of rs)
   \<and> None \<notin> fst ` set (filter (\<lambda>(t, r). accepted_result r) rs)
   \<and> map (\<lambda>(t, r). map_option (\<lambda>c. pk_packetId (cl_packet c)) t) (filter (\<lambda>(t, r). accepted_result r) rs) =
     map (\<lambda>(t, r). result_packetId r) (filter (\<lambda>(t, r). accepted_result r) rs)"
proof (induction rs)
  case (Cons x rs)
  obtain t r where "x = (t, r)" by (cases x)
  with Cons show ?case by (auto simp: result_fits_def intro: subset_mset.order_trans)
qed simp

text \<open>C10. No packet is accepted twice. Over every interleaving of the calls of an overlay and their
  resumptions, and however often a packet is received, each result of \<open>receive\<close> that forwards, delivers or
  keeps a chunk rests on a claim for its packet, and the claims that were made before the clock reached the
  expiry of their packet are pairwise different in lifetime, packet id with chunk index, or expiry.\<close>

theorem overlay_accepts_once:
  "let s = overlay_run C (overlay_start clock) events;
       accepted = filter (\<lambda>(t, r). accepted_result r) (sy_results s)
   in None \<notin> fst ` set accepted
    \<and> map (\<lambda>(t, r). map_option (\<lambda>c. pk_packetId (cl_packet c)) t) accepted = map (\<lambda>(t, r). result_packetId r) accepted
    \<and> distinct (map claim_id (filter timely (map (\<lambda>(t, r). the t) accepted)))"
proof -
  define s where "s = overlay_run C (overlay_start clock) events"
  have inv: "replay_inv s" unfolding s_def by (rule replay_inv_run)
  then have "\<forall>(t, r) \<in> set (sy_results s). result_fits t r" by (simp add: replay_inv_def tags_ok_def)
  note acc = accepted_claims [OF this]
  have "mset (filter timely (map (\<lambda>(t, r). the t) (filter (\<lambda>(t, r). accepted_result r) (sy_results s)))) \<subseteq># mset (all_claims s)"
    using acc by (auto simp: all_claims_def intro: subset_mset.order_trans)
  then have "claims_ok (sy_clock s) (sy_overlay s) (filter timely (map (\<lambda>(t, r). the t) (filter (\<lambda>(t, r). accepted_result r) (sy_results s))))"
    using inv claims_ok_sub by (auto simp: replay_inv_def)
  then show ?thesis using acc unfolding Let_def s_def [symmetric] claims_ok_def by simp
qed

subsection \<open>A claim that outlives its entry\<close>

text \<open>A cipher without secrecy.\<close>

definition plain_overlay_crypto :: overlay_crypto where
  "plain_overlay_crypto = \<lparr>oc_export = (\<lambda>secret. (''x'', ''y'')), oc_import = (\<lambda>xy. Some []), oc_derive = (\<lambda>secret public. []),
     oc_encrypt = (\<lambda>key nonce ad p. p @ replicate 16 0), oc_decrypt = (\<lambda>key nonce ad c. Some (take (length c - 16) c)),
     oc_sha256 = (\<lambda>bs. replicate 32 0)\<rparr>"

definition relayed_packet :: overlay_packet where
  "relayed_packet = \<lparr>pk_packetId = replicate 24 CHR ''A'', pk_originPeerId = replicate 16 CHR ''a'',
     pk_destinationPeerId = replicate 16 CHR ''c'', pk_membershipEpoch = 1, pk_routeEpoch = 1, pk_trafficClass = Event,
     pk_createdAt = 1000, pk_expiresAt = 2000,
     pk_path = [replicate 16 CHR ''a'', replicate 16 CHR ''b'', replicate 16 CHR ''c''], pk_hop = 1, pk_chunkIndex = 0,
     pk_chunkCount = 1, pk_nonce = base64url_encode (replicate 12 0), pk_ciphertext = base64url_encode (replicate 18 0),
     pk_digest = base64url_encode (replicate 32 0)\<rparr>"

definition relay_context :: receive_context where
  "relay_context = \<lparr>rx_membershipEpoch = 1, rx_routeEpoch = 1, rx_memberPeerIds = pk_path relayed_packet\<rparr>"

lemma TOKEN_replicate: "TOKEN (replicate 24 CHR ''A'')"
  by (simp add: TOKEN_def matches_def list_all_iff base64url_char_def)

lemma PEER_ID_replicate: "lower_hex c \<Longrightarrow> PEER_ID (replicate 16 c)"
  by (simp add: PEER_ID_def matches_def list_all_iff)

lemma relayed_packet_read:
  "parseOverlayPacket 1000 (packet_json relayed_packet) = Some relayed_packet"
  "base64url_decode (pk_ciphertext relayed_packet) = Inr (replicate 18 0)"
proof -
  have "js_length (base64url_encode (replicate 18 0)) \<le> 24000" by (simp add: js_length_base64url)
  then have "packet_ok 1000 relayed_packet"
    using TOKEN_base64url [of "replicate 12 0"] TOKEN_base64url [of "replicate 32 0"]
    by (simp add: packet_ok_def relayed_packet_def MAX_SAFE_INTEGER_def MAX_TTL_MS_def MAX_PATH_def MAX_PACKET_CHUNKS_def
        PEER_ID_replicate lower_hex_def TOKEN_replicate)
  then show "parseOverlayPacket 1000 (packet_json relayed_packet) = Some relayed_packet" by (rule parse_packet_json)
  show "base64url_decode (pk_ciphertext relayed_packet) = Inr (replicate 18 0)"
    by (simp add: relayed_packet_def base64url_roundtrip)
qed

definition relay_overlay :: "(string \<times> int) list \<Rightarrow> overlay" where
  "relay_overlay seen = (overlay_destroy new_overlay)\<lparr>ov_ownPeerId := replicate 16 CHR ''b'', ov_seen := seen\<rparr>"

abbreviation relay_job :: receive_job where
  "relay_job \<equiv> \<lparr>rj_packet = relayed_packet, rj_ciphertext = replicate 18 0, rj_current = current (pk_originPeerId relayed_packet) (relay_overlay [])\<rparr>"

lemma relay_begin:
  "receive_begin 1000 (packet_json relayed_packet) (replicate 16 CHR ''a'') relay_context (relay_overlay []) =
     (Waiting (Receive_Digesting relay_job), relay_overlay [])"
proof -
  have "prune 1000 (relay_overlay []) = relay_overlay []"
    by (simp add: prune_def relay_overlay_def overlay_destroy_def new_overlay_def)
  moreover have "pk_path relayed_packet ! 1 = ov_ownPeerId (relay_overlay [])" "pk_path relayed_packet ! 0 = replicate 16 CHR ''a''"
    "ov_seen (relay_overlay []) = []"
    by (simp_all add: relayed_packet_def relay_overlay_def)
  moreover have "pk_hop relayed_packet = 1" "pk_membershipEpoch relayed_packet = 1" "pk_routeEpoch relayed_packet = 1"
    by (simp_all add: relayed_packet_def)
  ultimately show ?thesis
    by (simp add: receive_begin_def relayed_packet_read relay_context_def list_all_iff Let_def)
qed

lemma relay_digested:
  "receive_digested plain_overlay_crypto relay_job (relay_overlay []) =
     (Settled (Inr (Received (Packet_Forward (replicate 16 CHR ''c'') (relayed_packet\<lparr>pk_hop := 2\<rparr>)))),
      relay_overlay [(replay_key relayed_packet, 2000)])"
proof -
  have "base64url_encode (oc_sha256 plain_overlay_crypto (replicate 18 0)) = pk_digest relayed_packet"
    by (simp add: plain_overlay_crypto_def relayed_packet_def)
  moreover have "ov_seen (relay_overlay []) = []" "ov_ownPeerId (relay_overlay seen) \<noteq> pk_destinationPeerId relayed_packet"
    "relay_overlay []\<lparr>ov_seen := seen\<rparr> = relay_overlay seen" for seen
    by (simp_all add: relayed_packet_def relay_overlay_def)
  moreover have "pk_path relayed_packet ! 2 = replicate 16 CHR ''c''" "length (pk_path relayed_packet) = 3" "pk_hop relayed_packet = 1"
    "pk_expiresAt relayed_packet = 2000"
    by (simp_all add: relayed_packet_def)
  ultimately show ?thesis by (simp add: receive_digested_def job_current_def numeral_2_eq_2)
qed

lemma relay_pruned:
  "receive_begin 2000 JNull [] relay_context (relay_overlay [(k, 2000)]) = (dropped ''invalid_packet'', relay_overlay [])"
  by (simp add: receive_begin_def parseOverlayPacket_def prune_def relay_overlay_def overlay_destroy_def new_overlay_def)

text \<open>Two copies of a packet wait for their digests; the first claims it, then the packet expires and a
  further call of \<open>receive\<close> prunes the entry; the second copy claims the packet again and is forwarded too.\<close>

lemma expired_packet_forwarded_twice:
  "map snd (filter (\<lambda>(t, r). accepted_result r) (sy_results (overlay_run plain_overlay_crypto (overlay_start 0)
     [Initialize_Call (replicate 16 CHR ''b''),
      Receive_Call 1000 (packet_json relayed_packet) (replicate 16 CHR ''a'') relay_context,
      Receive_Call 1000 (packet_json relayed_packet) (replicate 16 CHR ''a'') relay_context,
      Continue 1 ([], []), Receive_Call 2000 JNull [] relay_context, Continue 1 ([], [])]))) =
   replicate 2 (Inr (Received (Packet_Forward (replicate 16 CHR ''c'') (relayed_packet\<lparr>pk_hop := 2\<rparr>))))"
proof -
  have "initialize_begin (replicate 16 CHR ''b'') new_overlay = (Waiting (Generating 1), relay_overlay [])"
    by (simp add: initialize_begin_def PEER_ID_replicate lower_hex_def relay_overlay_def overlay_destroy_def new_overlay_def)
  moreover have "replay_key relayed_packet \<in> fst ` set (ov_seen (relay_overlay [(replay_key relayed_packet, 2000)]))"
    "replay_key relayed_packet \<notin> fst ` set (ov_seen (relay_overlay []))"
    by (simp_all add: relay_overlay_def)
  ultimately show ?thesis
    by (simp add: overlay_start_def relay_begin relay_digested relay_pruned numeral_2_eq_2)
qed

end
