(* ===== verification/Overlay_Authentic.thy ===== *)
theory Overlay_Authentic
  imports Overlay_Replay
begin

text \<open>
  What a delivered message rests on: over every interleaving, each of its chunks was opened with the key
  agreed with the key object that is installed for its origin when it is delivered, and was authenticated for
  its packet id, its place and the own peer. The invariant follows the identities the code compares: a token
  that is current again vouches for the key objects it was taken with.
\<close>

subsection \<open>Invariant of the overlay\<close>

definition keyed :: "overlay_crypto \<Rightarrow> overlay \<Rightarrow> string \<Rightarrow> bytes \<Rightarrow> bool" where
  "keyed C ov peerId key \<longleftrightarrow> (\<exists>keyPair peerKey. ov_keyPair ov = Some keyPair \<and>
     map_of (ov_peerKeys ov) peerId = Some peerKey \<and> key = oc_derive C (ko_key keyPair) (ko_key peerKey))"

definition opened_from :: "overlay_crypto \<Rightarrow> overlay \<Rightarrow> overlay_packet \<Rightarrow> bytes \<Rightarrow> bool" where
  "opened_from C ov packet cleartext \<longleftrightarrow> (\<exists>key nonce ciphertext. keyed C ov (pk_originPeerId packet) key \<and>
     oc_decrypt C key nonce (aad packet) ciphertext = Some cleartext)"

definition part_ok :: "overlay_crypto \<Rightarrow> overlay \<Rightarrow> string \<Rightarrow> assembly \<Rightarrow> nat \<Rightarrow> bytes \<Rightarrow> bool" where
  "part_ok C ov key a j cleartext \<longleftrightarrow> (\<exists>packet. pk_chunkIndex packet = j \<and> pk_chunkCount packet = as_count a
     \<and> pk_originPeerId packet = as_originPeerId a \<and> pk_destinationPeerId packet = ov_ownPeerId ov
     \<and> assembly_key packet = key \<and> opened_from C ov packet cleartext)"

definition assembly_ok :: "overlay_crypto \<Rightarrow> overlay \<Rightarrow> string \<Rightarrow> assembly \<Rightarrow> bool" where
  "assembly_ok C ov key a \<longleftrightarrow>
     length (as_originPeerId a) = 16 \<and> (\<exists>i. key = as_originPeerId a @ '':'' @ i) \<and> (\<exists>k. keyed C ov (as_originPeerId a) k)
     \<and> (\<forall>(j, d) \<in> set (as_parts a). part_ok C ov key a j d)"

definition ids_ok :: "overlay \<Rightarrow> bool" where
  "ids_ok ov \<longleftrightarrow> ov_lifetime ov < ov_fresh ov \<and> (\<forall>k. ov_keyPair ov = Some k \<longrightarrow> ko_id k < ov_fresh ov)
     \<and> (\<forall>p k. map_of (ov_peerKeys ov) p = Some k \<longrightarrow> ko_id k < ov_fresh ov)"

definition overlay_ok :: "overlay_crypto \<Rightarrow> overlay \<Rightarrow> bool" where
  "overlay_ok C ov \<longleftrightarrow> ids_ok ov \<and> (\<forall>p k. map_of (ov_derivedKeys ov) p = Some k \<longrightarrow> keyed C ov p k)
     \<and> (\<forall>(key, a) \<in> set (ov_assemblies ov). assembly_ok C ov key a)"

definition token_below :: "nat \<Rightarrow> current_token \<Rightarrow> bool" where
  "token_below n t \<longleftrightarrow> ct_lifetime t < n \<and> (\<forall>i. ct_keyPair t = Some i \<longrightarrow> i < n) \<and> (\<forall>i. ct_peerKey t = Some i \<longrightarrow> i < n)"

lemma token_below_current: "ids_ok ov \<Longrightarrow> token_below (ov_fresh ov) (current p ov)"
  by (auto simp: ids_ok_def token_below_def current_def)

lemma token_below_mono: "token_below n t \<Longrightarrow> n \<le> m \<Longrightarrow> token_below m t"
  by (auto simp: token_below_def intro: less_le_trans)

text \<open>How a step may change an overlay: new identities are fresh, and an old key object that is still installed
  was installed before, by the same import.\<close>

definition evolves :: "overlay \<Rightarrow> overlay \<Rightarrow> bool" where
  "evolves ov ov' \<longleftrightarrow> ov_fresh ov \<le> ov_fresh ov'
     \<and> (ov_lifetime ov' = ov_lifetime ov \<and> ov_ownPeerId ov' = ov_ownPeerId ov
          \<and> (ov_keyPair ov' = ov_keyPair ov \<or> (\<exists>k. ov_keyPair ov' = Some k \<and> ov_fresh ov \<le> ko_id k))
          \<and> (\<forall>p k. map_of (ov_peerKeys ov') p = Some k \<and> ko_id k < ov_fresh ov \<longrightarrow>
               map_of (ov_peerKeys ov) p = Some k \<and> map_of (ov_peerImports ov') p = map_of (ov_peerImports ov) p)
        \<or> ov_fresh ov \<le> ov_lifetime ov')"

lemma token_back:
  assumes ev: "evolves ov ov'" and t: "token_below (ov_fresh ov) t" and cur: "current p ov' = t"
  shows "ov_ownPeerId ov' = ov_ownPeerId ov"
    and "ct_peerKey t \<noteq> None \<Longrightarrow> current p ov = t \<and> ov_keyPair ov' = ov_keyPair ov
      \<and> map_of (ov_peerKeys ov') p = map_of (ov_peerKeys ov) p"
proof -
  have life: "\<not> ov_fresh ov \<le> ov_lifetime ov'" using t cur by (auto simp: token_below_def current_def)
  with ev have own: "ov_lifetime ov' = ov_lifetime ov" "ov_ownPeerId ov' = ov_ownPeerId ov"
    and pair: "ov_keyPair ov' = ov_keyPair ov \<or> (\<exists>k. ov_keyPair ov' = Some k \<and> ov_fresh ov \<le> ko_id k)"
    and keys: "\<And>k. map_of (ov_peerKeys ov') p = Some k \<Longrightarrow> ko_id k < ov_fresh ov \<Longrightarrow>
      map_of (ov_peerKeys ov) p = Some k \<and> map_of (ov_peerImports ov') p = map_of (ov_peerImports ov) p"
    by (auto simp: evolves_def)
  show "ov_ownPeerId ov' = ov_ownPeerId ov" by (rule own)
  have "ct_keyPair t = map_option ko_id (ov_keyPair ov')" using cur by (auto simp: current_def)
  then have same: "ov_keyPair ov' = ov_keyPair ov" using pair t by (auto simp: token_below_def)
  assume "ct_peerKey t \<noteq> None"
  then obtain k where k: "map_of (ov_peerKeys ov') p = Some k" "ct_peerKey t = Some (ko_id k)" using cur by (auto simp: current_def)
  then have "ko_id k < ov_fresh ov" using t by (simp add: token_below_def)
  from keys [OF k(1) this] k(1) same own cur
  show "current p ov = t \<and> ov_keyPair ov' = ov_keyPair ov \<and> map_of (ov_peerKeys ov') p = map_of (ov_peerKeys ov) p"
    unfolding current_def by simp
qed

lemma evolves_same:
  "ov_fresh ov \<le> ov_fresh ov' \<Longrightarrow> ov_lifetime ov' = ov_lifetime ov \<Longrightarrow> ov_ownPeerId ov' = ov_ownPeerId ov \<Longrightarrow>
   ov_keyPair ov' = ov_keyPair ov \<Longrightarrow> ov_peerKeys ov' = ov_peerKeys ov \<Longrightarrow> ov_peerImports ov' = ov_peerImports ov \<Longrightarrow>
   evolves ov ov'"
  by (simp add: evolves_def)

lemma keyed_same:
  "ov_keyPair ov' = ov_keyPair ov \<Longrightarrow> map_of (ov_peerKeys ov') p = map_of (ov_peerKeys ov) p \<Longrightarrow> keyed C ov' p = keyed C ov p"
  by (simp add: keyed_def fun_eq_iff)

subsection \<open>Invariant of the waiting calls\<close>

fun derivation_ok :: "overlay_crypto \<Rightarrow> overlay \<Rightarrow> string \<Rightarrow> derivation \<Rightarrow> bool" where
  "derivation_ok C ov peerId (Derived r) = True"
| "derivation_ok C ov peerId (Deriving p token secret public) =
     (p = peerId \<and> token_below (ov_fresh ov) token \<and> ct_peerKey token \<noteq> None
      \<and> (current p ov = token \<longrightarrow> keyed C ov p (oc_derive C secret public)))"

definition job_ok :: "overlay \<Rightarrow> receive_job \<Rightarrow> bool" where
  "job_ok ov job \<longleftrightarrow> length (pk_originPeerId (rj_packet job)) = 16 \<and> token_below (ov_fresh ov) (rj_current job)
     \<and> (ct_peerKey (rj_current job) \<noteq> None \<longrightarrow> job_current job ov \<longrightarrow> ov_ownPeerId ov = pk_destinationPeerId (rj_packet job))"

definition job_keyed :: "overlay_crypto \<Rightarrow> overlay \<Rightarrow> receive_job \<Rightarrow> bytes \<Rightarrow> bool" where
  "job_keyed C ov job key \<longleftrightarrow> ct_peerKey (rj_current job) \<noteq> None
     \<and> (job_current job ov \<longrightarrow> keyed C ov (pk_originPeerId (rj_packet job)) key)"

fun call_ok :: "overlay_crypto \<Rightarrow> overlay \<Rightarrow> overlay_call \<Rightarrow> bool" where
  "call_ok C ov (Send_Deriving job d) = derivation_ok C ov (sj_destination job) d"
| "call_ok C ov (Receive_Digesting job) =
     (length (pk_originPeerId (rj_packet job)) = 16 \<and> token_below (ov_fresh ov) (rj_current job))"
| "call_ok C ov (Receive_Deriving job d) =
     (job_ok ov job \<and> derivation_ok C ov (pk_originPeerId (rj_packet job)) d
      \<and> (\<forall>p token secret public. d = Deriving p token secret public \<longrightarrow> ct_peerKey (rj_current job) \<noteq> None)
      \<and> (\<forall>key. d = Derived (Inr key) \<longrightarrow> job_keyed C ov job key))"
| "call_ok C ov (Receive_Keyed job r) = (job_ok ov job \<and> (\<forall>key. r = Inr key \<longrightarrow> job_keyed C ov job key))"
| "call_ok C ov (Receive_Opening job opened) =
     (job_ok ov job \<and> (\<forall>d. opened = Some d \<longrightarrow> (\<exists>key nonce. job_keyed C ov job key \<and>
        oc_decrypt C key nonce (aad (rj_packet job)) (rj_ciphertext job) = Some d)))"
| "call_ok C ov _ = True"

lemma evolves_fresh: "evolves ov ov' \<Longrightarrow> ov_fresh ov \<le> ov_fresh ov'"
  by (simp add: evolves_def)

lemma keyed_back:
  assumes "evolves ov ov'" "token_below (ov_fresh ov) t" "ct_peerKey t \<noteq> None" "current p ov' = t"
    and "current p ov = t \<Longrightarrow> keyed C ov p key"
  shows "keyed C ov' p key"
  using token_back(2) [OF assms(1,2,4,3)] assms(5) keyed_same [of ov' ov p C] by metis

lemma derivation_ok_evolves:
  assumes "evolves ov ov'" "derivation_ok C ov p d" shows "derivation_ok C ov' p d"
proof (cases d)
  case (Deriving p' token secret public)
  then have d: "p' = p" "token_below (ov_fresh ov) token" "ct_peerKey token \<noteq> None"
    "current p ov = token \<Longrightarrow> keyed C ov p (oc_derive C secret public)" using assms(2) by auto
  have "token_below (ov_fresh ov') token" by (rule token_below_mono [OF d(2) evolves_fresh [OF assms(1)]])
  moreover have "keyed C ov' p (oc_derive C secret public)" if "current p ov' = token"
    by (rule keyed_back [OF assms(1) d(2,3) that d(4)])
  ultimately show ?thesis using Deriving d(1,3) by simp
qed simp

lemma job_ok_evolves:
  assumes "evolves ov ov'" "job_ok ov job" shows "job_ok ov' job"
proof -
  have t: "token_below (ov_fresh ov) (rj_current job)" using assms(2) by (simp add: job_ok_def)
  then have "token_below (ov_fresh ov') (rj_current job)" by (rule token_below_mono [OF _ evolves_fresh [OF assms(1)]])
  moreover have "ov_ownPeerId ov' = pk_destinationPeerId (rj_packet job)"
    if "ct_peerKey (rj_current job) \<noteq> None" "job_current job ov'"
    using token_back [OF assms(1) t] that assms(2) unfolding job_ok_def job_current_def by metis
  ultimately show ?thesis using assms(2) by (simp add: job_ok_def)
qed

lemma job_keyed_evolves:
  assumes "evolves ov ov'" "job_keyed C ov job key" "token_below (ov_fresh ov) (rj_current job)" shows "job_keyed C ov' job key"
  using assms(2) keyed_back [OF assms(1,3)] unfolding job_keyed_def job_current_def by blast

lemma call_ok_evolves: assumes "evolves ov ov'" "call_ok C ov call" shows "call_ok C ov' call"
  using assms(2) derivation_ok_evolves [OF assms(1)] job_ok_evolves [OF assms(1)] job_keyed_evolves [OF assms(1)]
    token_below_mono [OF _ evolves_fresh [OF assms(1)]]
  by (cases call) (auto simp: job_ok_def [THEN iffD1], (meson job_ok_def)+)

text \<open>A call that will install a key pair or a peer key, by the identity it was begun with, and that nothing is
  installed yet where it will.\<close>

fun slot :: "overlay_call \<Rightarrow> nat option" where
  "slot (Generating lifetime) = Some lifetime"
| "slot (Exporting lifetime secret) = Some lifetime"
| "slot (Importing peerId lifetime operation xy) = Some operation"
| "slot _ = None"

fun slot_free :: "overlay \<Rightarrow> overlay_call \<Rightarrow> bool" where
  "slot_free ov (Generating lifetime) = (lifetime = ov_lifetime ov \<longrightarrow> ov_keyPair ov = None)"
| "slot_free ov (Exporting lifetime secret) = (lifetime = ov_lifetime ov \<longrightarrow> ov_keyPair ov = None)"
| "slot_free ov (Importing peerId lifetime operation xy) =
     (lifetime = ov_lifetime ov \<and> map_of (ov_peerImports ov) peerId = Some operation \<longrightarrow> map_of (ov_peerKeys ov) peerId = None)"
| "slot_free ov _ = True"

subsection \<open>Every operation keeps the invariant\<close>

lemma assembly_ok_same:
  assumes "ov_ownPeerId ov' = ov_ownPeerId ov" "ov_keyPair ov' = ov_keyPair ov"
    "map_of (ov_peerKeys ov') (as_originPeerId a) = map_of (ov_peerKeys ov) (as_originPeerId a)"
  shows "assembly_ok C ov' key a \<longleftrightarrow> assembly_ok C ov key a"
proof -
  have k: "keyed C ov' (as_originPeerId a) = keyed C ov (as_originPeerId a)" by (rule keyed_same [OF assms(2,3)])
  have "part_ok C ov' key a j d = part_ok C ov key a j d" for j d
    unfolding part_ok_def opened_from_def assms(1) using k by metis
  then have "part_ok C ov' key a = part_ok C ov key a" by (intro ext)
  then show ?thesis unfolding assembly_ok_def k by simp
qed

lemma overlay_ok_update:
  assumes "overlay_ok C ov" and "ov_fresh ov \<le> ov_fresh ov'" "ov_lifetime ov' = ov_lifetime ov" "ov_ownPeerId ov' = ov_ownPeerId ov"
    "ov_keyPair ov' = ov_keyPair ov" "ov_peerKeys ov' = ov_peerKeys ov"
    and "\<And>p k. map_of (ov_derivedKeys ov') p = Some k \<Longrightarrow> map_of (ov_derivedKeys ov) p = Some k \<or> keyed C ov p k"
    and "\<And>key a. (key, a) \<in> set (ov_assemblies ov') \<Longrightarrow> (key, a) \<in> set (ov_assemblies ov) \<or> assembly_ok C ov key a"
  shows "overlay_ok C ov'"
proof -
  have k: "keyed C ov' p = keyed C ov p" for p by (rule keyed_same) (simp_all add: assms)
  have a: "assembly_ok C ov' key a = assembly_ok C ov key a" for key a by (rule assembly_ok_same) (simp_all add: assms)
  have "ids_ok ov'" using assms(1-6) by (auto simp: overlay_ok_def ids_ok_def intro: less_le_trans)
  with assms(1,7,8) show ?thesis unfolding overlay_ok_def k a by blast
qed

lemma derive_begin_ok:
  assumes "overlay_ok C ov" shows "derivation_ok C ov p (derive_begin p ov)"
    and "derive_begin p ov = Derived (Inr key) \<Longrightarrow> keyed C ov p key"
    and "derive_begin p ov = Deriving p' t secret public \<Longrightarrow> ct_peerKey (current p ov) \<noteq> None"
proof -
  have "token_below (ov_fresh ov) (current p ov)" using assms by (simp add: overlay_ok_def token_below_current)
  then show "derivation_ok C ov p (derive_begin p ov)"
    by (auto simp: derive_begin_def keyed_def current_def split: option.splits)
  show "derive_begin p ov = Derived (Inr key) \<Longrightarrow> keyed C ov p key"
    using assms by (auto simp: derive_begin_def overlay_ok_def split: option.splits)
  show "derive_begin p ov = Deriving p' t secret public \<Longrightarrow> ct_peerKey (current p ov) \<noteq> None"
    by (auto simp: derive_begin_def current_def split: option.splits)
qed

lemma derive_finish_ok:
  assumes ok: "overlay_ok C ov" and d: "derivation_ok C ov p d" and fin: "derive_finish C d ov = (r, ov')"
  shows "overlay_ok C ov'" and "evolves ov ov'"
    and "d = Deriving p' t secret public \<Longrightarrow> r = Inr key \<Longrightarrow> keyed C ov p key"
    and "keyed C ov' = keyed C ov" and "current q ov' = current q ov" and "ov_ownPeerId ov' = ov_ownPeerId ov"
proof -
  show "overlay_ok C ov'"
    using d fin by (cases d) (auto simp: Let_def split: if_splits intro!: overlay_ok_update [OF ok])
  show "evolves ov ov'" using fin by (cases d) (auto simp: Let_def split: if_splits intro!: evolves_same)
  show "d = Deriving p' t secret public \<Longrightarrow> r = Inr key \<Longrightarrow> keyed C ov p key"
    using d fin by (auto simp: Let_def split: if_splits)
  show "keyed C ov' = keyed C ov" "current q ov' = current q ov" "ov_ownPeerId ov' = ov_ownPeerId ov"
    using fin by (cases d; auto simp: Let_def keyed_def current_def fun_eq_iff split: if_splits)+
qed

text \<open>What a resumed call leaves behind.\<close>

definition keeps_ok :: "overlay_crypto \<Rightarrow> overlay \<Rightarrow> overlay_call \<Rightarrow> overlay_progress \<Rightarrow> overlay \<Rightarrow> bool" where
  "keeps_ok C ov call pr ov' \<longleftrightarrow> overlay_ok C ov' \<and> evolves ov ov'
     \<and> (\<forall>c. pr = Waiting c \<longrightarrow> call_ok C ov' c \<and> slot_free ov' c \<and> (slot c = None \<or> slot c = slot call))"

lemma keeps_ok_refl: "overlay_ok C ov \<Longrightarrow> keeps_ok C ov call (Settled r) ov"
  by (simp add: keeps_ok_def evolves_same)

lemma exported_ok:
  assumes ok: "overlay_ok C ov" and free: "slot_free ov (Exporting lifetime secret)"
    and res: "initialize_exported C lifetime secret ov = (pr, ov')"
  shows "keeps_ok C ov (Exporting lifetime secret) pr ov'"
proof (cases "lifetime = ov_lifetime ov")
  case True
  then have None: "ov_keyPair ov = None" using free by simp
  then have empty: "\<not> keyed C ov p k" for p k by (simp add: keyed_def)
  then have noa: "\<not> assembly_ok C ov key a" for key a by (simp add: assembly_ok_def)
  have "map_of (ov_derivedKeys ov) p = None" for p
    using ok empty unfolding overlay_ok_def by (metis not_Some_eq)
  moreover have "x \<notin> set (ov_assemblies ov)" for x using ok noa by (cases x) (auto simp: overlay_ok_def)
  then have "ov_assemblies ov = []" by (metis list.set_intros(1) neq_Nil_conv)
  moreover have "ov' = ov\<lparr>ov_keyPair := Some \<lparr>ko_id = ov_fresh ov, ko_key = secret\<rparr>, ov_fresh := ov_fresh ov + 1\<rparr>" "\<exists>r. pr = Settled r"
    using res True by (auto simp: initialize_exported_def)
  moreover have "ids_ok ov" using ok by (simp add: overlay_ok_def)
  ultimately show ?thesis by (auto simp: keeps_ok_def overlay_ok_def ids_ok_def evolves_def less_Suc_eq)
qed (use res keeps_ok_refl [OF ok] in \<open>auto simp: initialize_exported_def\<close>)

lemma imported_ok:
  assumes ok: "overlay_ok C ov" and free: "slot_free ov (Importing p lifetime operation xy)"
    and res: "setPeerKey_imported C p lifetime operation xy ov = (pr, ov')"
  shows "keeps_ok C ov (Importing p lifetime operation xy) pr ov'"
proof (cases "\<exists>key. oc_import C xy = Some key \<and> lifetime = ov_lifetime ov \<and> map_of (ov_peerImports ov) p = Some operation")
  case True
  then obtain key where key: "oc_import C xy = Some key" and None: "map_of (ov_peerKeys ov) p = None" using free by auto
  have ov': "ov' = ov\<lparr>ov_fresh := ov_fresh ov + 1, ov_peerKeys := map_set p \<lparr>ko_id = ov_fresh ov, ko_key = key\<rparr> (ov_peerKeys ov),
      ov_derivedKeys := map_delete p (ov_derivedKeys ov)\<rparr>" and pr: "pr = Settled (Inr Peer_Key_Set)"
    using res True key by (auto simp: setPeerKey_imported_def)
  have other: "q \<noteq> p \<Longrightarrow> keyed C ov' q = keyed C ov q" for q by (rule keyed_same) (simp_all add: ov')
  have none: "\<not> keyed C ov p k" for k using None by (simp add: keyed_def)
  have "assembly_ok C ov' akey a" if "(akey, a) \<in> set (ov_assemblies ov)" for akey a
  proof -
    have a: "assembly_ok C ov akey a" using ok that by (auto simp: overlay_ok_def)
    then have "as_originPeerId a \<noteq> p" using none by (auto simp: assembly_ok_def)
    with a show ?thesis using assembly_ok_same [of ov' ov a C akey] by (simp add: ov')
  qed
  moreover have "keyed C ov' q k" if "map_of (ov_derivedKeys ov') q = Some k" for q k
    using that ok other [of q] by (auto simp: ov' overlay_ok_def split: if_splits)
  moreover have "ids_ok ov'" using ok by (auto simp: overlay_ok_def ids_ok_def ov' less_Suc_eq split: if_splits)
  moreover have "evolves ov ov'" by (auto simp: evolves_def ov' split: if_splits)
  ultimately show ?thesis using pr by (auto simp: keeps_ok_def overlay_ok_def ov')
next
  case False
  then show ?thesis using res keeps_ok_refl [OF ok] by (auto simp: setPeerKey_imported_def split: option.splits if_splits)
qed

lemma digested_ok:
  assumes ok: "overlay_ok C ov" and call: "call_ok C ov (Receive_Digesting job)"
    and res: "receive_digested C job ov = (pr, ov')"
  shows "keeps_ok C ov (Receive_Digesting job) pr ov'"
proof -
  let ?p = "pk_originPeerId (rj_packet job)"
  define seen where "seen = ov_seen ov'"
  have ov': "ov' = ov\<lparr>ov_seen := seen\<rparr>"
    by (rule overlay.equality) (use res in \<open>auto simp: receive_digested_def Let_def seen_def split: if_splits\<close>)
  have ok': "overlay_ok C ov'" unfolding ov' by (rule overlay_ok_update [OF ok]) simp_all
  have cur: "current q ov' = current q ov" for q by (simp add: ov' current_def)
  have "call_ok C ov' (Receive_Deriving job (derive_begin ?p ov'))"
    if "job_current job ov" "ov_ownPeerId ov = pk_destinationPeerId (rj_packet job)"
  proof -
    have "current ?p ov' = rj_current job" using that(1) cur by (simp add: job_current_def)
    moreover have "keyed C ov' ?p key \<Longrightarrow> ct_peerKey (current ?p ov') \<noteq> None" for key by (auto simp: keyed_def current_def)
    ultimately show ?thesis
      using derive_begin_ok [OF ok', of ?p] call that(2)
      by (auto simp: job_ok_def job_keyed_def ov')
  qed
  with ok' res show ?thesis
    by (auto simp: receive_digested_def Let_def keeps_ok_def ov' split: if_splits intro!: evolves_same)
qed

lemma derived_ok:
  assumes ok: "overlay_ok C ov" and call: "call_ok C ov (Receive_Deriving job d)"
    and res: "receive_derived C job d ov = (pr, ov')"
  shows "keeps_ok C ov (Receive_Deriving job d) pr ov'"
proof -
  obtain r where fin: "derive_finish C d ov = (r, ov')" and pr: "pr = Waiting (Receive_Keyed job r)"
    using res by (auto simp: receive_derived_def split: prod.splits)
  have d: "derivation_ok C ov (pk_originPeerId (rj_packet job)) d" using call by simp
  note f = derive_finish_ok [OF ok d fin]
  have "job_ok ov' job" using call job_ok_evolves [OF f(2)] by simp
  moreover have "job_keyed C ov job key" if "r = Inr key" for key
    using call that fin f(3) by (cases d) (auto simp: job_keyed_def)
  then have "job_keyed C ov' job key" if "r = Inr key" for key
    using that unfolding job_keyed_def job_current_def f(4,5) by simp
  ultimately show ?thesis using f(1,2) pr by (simp add: keeps_ok_def)
qed

lemma set_map_set: "set (map_set k v m) \<subseteq> insert (k, v) (set m)"
  by (induction m) auto

lemma mem_map_set: "(k', v') \<in> set (map_set k v m) \<Longrightarrow> k' = k \<and> v' = v \<or> (k', v') \<in> set m"
  using set_map_set [of k v m] by auto

text \<open>The cleartext of a current call is a part that its assembly may take.\<close>

lemma assembly_for_ok:
  assumes ok: "overlay_ok C ov" and len: "length (pk_originPeerId packet) = 16" and key: "keyed C ov (pk_originPeerId packet) k"
  shows "assembly_ok C ov (assembly_key packet) (assembly_for packet ov)"
    and "as_originPeerId (assembly_for packet ov) = pk_originPeerId packet"
proof (atomize (full), cases "map_of (ov_assemblies ov) (assembly_key packet)")
  case None
  then show "assembly_ok C ov (assembly_key packet) (assembly_for packet ov) \<and> as_originPeerId (assembly_for packet ov) = pk_originPeerId packet"
    using len key by (auto simp: assembly_for_def assembly_ok_def assembly_key_def)
next
  case (Some a)
  then have a: "assembly_ok C ov (assembly_key packet) a" using ok by (auto simp: overlay_ok_def dest: map_of_SomeD)
  then have "as_originPeerId a = pk_originPeerId packet" using len by (auto simp: assembly_ok_def assembly_key_def)
  with a Some show "assembly_ok C ov (assembly_key packet) (assembly_for packet ov) \<and> as_originPeerId (assembly_for packet ov) = pk_originPeerId packet"
    by (simp add: assembly_for_def)
qed

lemma add_part_ok:
  assumes ok: "overlay_ok C ov" and call: "call_ok C ov (Receive_Opening job (Some cleartext))" and cur: "job_current job ov"
    and count: "as_count (assembly_for (rj_packet job) ov) = pk_chunkCount (rj_packet job)"
  shows "assembly_ok C ov (assembly_key (rj_packet job)) (add_part (rj_packet job) cleartext (assembly_for (rj_packet job) ov))"
proof -
  let ?p = "rj_packet job" and ?a = "assembly_for (rj_packet job) ov"
  obtain key nonce where k: "keyed C ov (pk_originPeerId ?p) key" "ct_peerKey (rj_current job) \<noteq> None"
      "oc_decrypt C key nonce (aad ?p) (rj_ciphertext job) = Some cleartext"
    using call cur by (auto simp: job_keyed_def)
  have own: "ov_ownPeerId ov = pk_destinationPeerId ?p" and len: "length (pk_originPeerId ?p) = 16"
    using call cur k(2) by (auto simp: job_ok_def)
  note a = assembly_for_ok [OF ok len k(1)]
  have "part_ok C ov (assembly_key ?p) ?a (pk_chunkIndex ?p) cleartext"
    unfolding part_ok_def opened_from_def using count own a(2) k by metis
  moreover have "part_ok C ov key (add_part ?p cleartext ?a) = part_ok C ov key ?a" for key
    by (simp add: part_ok_def add_part_def fun_eq_iff)
  moreover have "set (as_parts (add_part ?p cleartext ?a)) \<subseteq> insert (pk_chunkIndex ?p, cleartext) (set (as_parts ?a))"
    "as_originPeerId (add_part ?p cleartext ?a) = as_originPeerId ?a"
    by (simp_all add: add_part_def set_map_set)
  ultimately show ?thesis using a(1) unfolding assembly_ok_def by auto
qed

lemma opened_ok:
  assumes ok: "overlay_ok C ov" and call: "call_ok C ov (Receive_Opening job opened)"
    and res: "receive_opened job opened ov = (pr, ov')"
  shows "keeps_ok C ov (Receive_Opening job opened) pr ov'"
proof -
  have old: "(key, a) \<in> set (ov_assemblies ov) \<Longrightarrow> assembly_ok C ov key a" for key a
    using ok by (auto simp: overlay_ok_def)
  have sub: "assembly_ok C ov key a" if "(key, a) \<in> set (ov_assemblies ov')" for key a
  proof -
    have "(key, a) \<in> set (ov_assemblies ov) \<or> (\<exists>cleartext. opened = Some cleartext \<and> job_current job ov
        \<and> as_count (assembly_for (rj_packet job) ov) = pk_chunkCount (rj_packet job) \<and> key = assembly_key (rj_packet job)
        \<and> a = add_part (rj_packet job) cleartext (assembly_for (rj_packet job) ov))"
      using res that
      by (auto simp: receive_opened_def Let_def map_delete_filter dest!: mem_map_set split: option.splits if_splits)
    then show ?thesis using old add_part_ok [OF ok] call by auto
  qed
  have "ov' = ov\<lparr>ov_assemblies := ov_assemblies ov'\<rparr>"
    by (rule overlay.equality) (use res in \<open>auto simp: receive_opened_def Let_def split: option.splits if_splits\<close>)
  then obtain as where ov': "ov' = ov\<lparr>ov_assemblies := as\<rparr>" by metis
  have "overlay_ok C ov'" unfolding ov' by (rule overlay_ok_update [OF ok]) (use sub ov' in simp_all)
  moreover have "evolves ov ov'" unfolding ov' by (rule evolves_same) simp_all
  moreover have "\<exists>r. pr = Settled r"
    using res by (auto simp: receive_opened_def Let_def split: option.splits if_splits)
  ultimately show ?thesis by (auto simp: keeps_ok_def)
qed

lemma keeps_ok_waiting:
  "overlay_ok C ov \<Longrightarrow> call_ok C ov c \<Longrightarrow> slot_free ov c \<Longrightarrow> slot c = None \<or> slot c = slot call \<Longrightarrow> keeps_ok C ov call (Waiting c) ov"
  by (simp add: keeps_ok_def evolves_same)

lemma resume_ok:
  assumes ok: "overlay_ok C ov" and call: "call_ok C ov call" and free: "slot_free ov call"
    and res: "overlay_resume C rnd call ov = (pr, ov')"
  shows "keeps_ok C ov call pr ov'"
proof (cases call)
  case (Send_Deriving job d)
  then obtain r where fin: "derive_finish C d ov = (r, ov')" and pr: "pr = Waiting (Send_Keyed job r)"
    using res by (auto simp: send_derived_def split: prod.splits)
  with derive_finish_ok [OF ok _ fin] call Send_Deriving show ?thesis by (auto simp: keeps_ok_def)
next
  case (Send_Digesting job key packets chunk digest)
  have "overlay_ok C (ov\<lparr>ov_outbound := out\<rparr>) \<and> evolves ov (ov\<lparr>ov_outbound := out\<rparr>)" for out
    using overlay_ok_update [OF ok, of "ov\<lparr>ov_outbound := out\<rparr>"] by (simp add: evolves_same)
  then show ?thesis
    using res Send_Digesting keeps_ok_refl [OF ok]
    by (auto simp: send_digested_def seal_chunk_def Let_def keeps_ok_def split: if_splits)
next
  case (Receive_Keyed job r)
  then show ?thesis
    using res call ok
    by (auto simp: receive_keyed_def intro!: keeps_ok_waiting keeps_ok_refl split: sum.splits if_splits; blast)
qed (use res call free ok exported_ok [OF ok] imported_ok [OF ok] digested_ok [OF ok] derived_ok [OF ok] opened_ok [OF ok]
    keeps_ok_refl [OF ok] in \<open>auto simp: initialize_generated_def send_keyed_def send_sealed_def seal_chunk_def Let_def
      intro!: keeps_ok_waiting split: sum.splits if_splits\<close>)

lemma resume_slot_free:
  assumes "overlay_resume C rnd call ov = (pr, ov')" and "slot_free ov c" and "slot c = None \<or> slot c \<noteq> slot call"
  shows "slot_free ov' c"
proof -
  have pair: "ov_keyPair ov' = ov_keyPair ov \<or> slot call = Some (ov_lifetime ov)"
    and keys: "map_of (ov_peerKeys ov') p = map_of (ov_peerKeys ov) p \<or> slot call = map_of (ov_peerImports ov) p"
    and same: "ov_lifetime ov' = ov_lifetime ov" "ov_peerImports ov' = ov_peerImports ov" for p
    using assms(1)
    by (cases call; auto simp: resume_defs Let_def elim!: derive_finish.elims split: resume_splits)+
  show ?thesis
  proof (cases c)
    case (Importing p lifetime operation xy)
    then show ?thesis using assms(2,3) keys [of p] same by auto
  qed (use assms(2,3) pair same in auto)
qed

subsection \<open>Runs\<close>

abbreviation calls_of :: "overlay_system \<Rightarrow> overlay_call list" where
  "calls_of s \<equiv> map snd (sy_calls s)"

definition calls_ok :: "overlay_crypto \<Rightarrow> overlay \<Rightarrow> overlay_call list \<Rightarrow> bool" where
  "calls_ok C ov calls \<longleftrightarrow> distinct (List.map_filter slot calls)
     \<and> (\<forall>c \<in> set calls. call_ok C ov c \<and> slot_free ov c \<and> (\<forall>n. slot c = Some n \<longrightarrow> n < ov_fresh ov))"

definition auth_inv :: "overlay_crypto \<Rightarrow> overlay_system \<Rightarrow> bool" where
  "auth_inv C s \<longleftrightarrow> overlay_ok C (sy_overlay s) \<and> calls_ok C (sy_overlay s) (calls_of s)"

lemma map_filter_append: "List.map_filter f (xs @ ys) = List.map_filter f xs @ List.map_filter f ys"
  by (simp add: List.map_filter_def)

lemma map_filter_mem: "y \<in> set (List.map_filter f xs) \<longleftrightarrow> (\<exists>x \<in> set xs. f x = Some y)"
  by (force simp: List.map_filter_def)

lemma calls_ok_evolves:
  assumes "calls_ok C ov calls" and "evolves ov ov'" and "\<And>c. c \<in> set calls \<Longrightarrow> slot_free ov c \<Longrightarrow> slot_free ov' c"
  shows "calls_ok C ov' calls"
  using assms call_ok_evolves [OF assms(2)] evolves_fresh [OF assms(2)] by (force simp: calls_ok_def)

lemma calls_ok_remove: "calls_ok C ov (xs @ c # ys) \<Longrightarrow> calls_ok C ov (xs @ ys)"
  by (auto simp: calls_ok_def map_filter_append List.map_filter_simps split: option.splits)

lemma calls_ok_add:
  assumes "calls_ok C ov calls" and "call_ok C ov c" and "slot_free ov c" and "\<And>n. slot c = Some n \<Longrightarrow> n < ov_fresh ov"
    and "\<And>d. d \<in> set calls \<Longrightarrow> slot c \<noteq> None \<Longrightarrow> slot d \<noteq> slot c"
  shows "calls_ok C ov (calls @ [c])"
  using assms by (auto simp: calls_ok_def map_filter_append map_filter_mem List.map_filter_simps split: option.splits)

definition progress_calls :: "overlay_progress \<Rightarrow> overlay_call list" where
  "progress_calls pr = (case pr of Waiting c \<Rightarrow> [c] | Settled r \<Rightarrow> [])"

lemma auth_inv_put:
  assumes "overlay_ok C ov" and "calls_ok C ov (calls_of s @ progress_calls pr)"
  shows "auth_inv C (put_progress t (pr, ov) s)"
  using assms by (cases pr) (simp_all add: auth_inv_def progress_calls_def)

lemma auth_inv_continue:
  assumes inv: "auth_inv C s" and split: "sy_calls s = ys @ (t, call) # zs"
    and res: "overlay_resume C rnd call (sy_overlay s) = (pr, ov')"
  shows "auth_inv C (put_progress t' (pr, ov') (s\<lparr>sy_calls := ys @ zs\<rparr>))"
proof -
  let ?rest = "map snd (ys @ zs)"
  have ok: "overlay_ok C (sy_overlay s)" and calls: "calls_ok C (sy_overlay s) (map snd ys @ call # map snd zs)"
    using inv split by (simp_all add: auth_inv_def)
  then have k: "keeps_ok C (sy_overlay s) call pr ov'" using resume_ok [OF ok _ _ res] by (auto simp: calls_ok_def)
  have other: "slot c = None \<or> slot c \<noteq> slot call" if "c \<in> set ?rest" for c
    using calls that by (fastforce simp: calls_ok_def map_filter_append map_filter_mem List.map_filter_simps split: option.splits)
  have rest: "calls_ok C ov' ?rest"
  proof (rule calls_ok_evolves)
    show "calls_ok C (sy_overlay s) ?rest" using calls_ok_remove [OF calls] by simp
    show "evolves (sy_overlay s) ov'" using k by (simp add: keeps_ok_def)
    show "slot_free ov' c" if "c \<in> set ?rest" "slot_free (sy_overlay s) c" for c
      by (rule resume_slot_free [OF res that(2) other [OF that(1)]])
  qed
  have "calls_ok C ov' (?rest @ progress_calls pr)"
  proof (cases pr)
    case (Waiting c)
    have c: "call_ok C ov' c" "slot_free ov' c" "slot c = None \<or> slot c = slot call" using k Waiting by (auto simp: keeps_ok_def)
    have "n < ov_fresh ov'" if "slot c = Some n" for n
      using that c(3) calls k evolves_fresh [of "sy_overlay s" ov'] by (fastforce simp: calls_ok_def keeps_ok_def)
    with rest c show ?thesis unfolding Waiting progress_calls_def overlay_progress.case
      by (intro calls_ok_add) (use other in metis)+
  qed (use rest in \<open>simp add: progress_calls_def\<close>)
  then show ?thesis using k by (intro auth_inv_put) (simp_all add: keeps_ok_def)
qed

lemma overlay_ok_empty: "ov_lifetime ov < ov_fresh ov \<Longrightarrow> ov_keyPair ov = None \<Longrightarrow> ov_peerKeys ov = [] \<Longrightarrow>
   ov_derivedKeys ov = [] \<Longrightarrow> ov_assemblies ov = [] \<Longrightarrow> overlay_ok C ov"
  by (simp add: overlay_ok_def ids_ok_def)

lemma removePeer_ok:
  assumes ok: "overlay_ok C ov" shows "overlay_ok C (removePeer p ov)" and "evolves ov (removePeer p ov)"
    and "slot_free ov c \<Longrightarrow> slot_free (removePeer p ov) c"
proof -
  let ?ov = "removePeer p ov"
  have other: "q \<noteq> p \<Longrightarrow> keyed C ?ov q = keyed C ov q" for q by (rule keyed_same) (simp_all add: removePeer_def)
  have "assembly_ok C ?ov key a" if "(key, a) \<in> set (ov_assemblies ?ov)" for key a
  proof -
    have "assembly_ok C ov key a" "as_originPeerId a \<noteq> p" using ok that by (auto simp: overlay_ok_def removePeer_def)
    then show ?thesis using assembly_ok_same [of ?ov ov a C key] by (simp add: removePeer_def)
  qed
  moreover have "keyed C ?ov q k" if "map_of (ov_derivedKeys ?ov) q = Some k" for q k
  proof -
    have "q \<noteq> p" "map_of (ov_derivedKeys ov) q = Some k" using that by (auto simp: removePeer_def split: if_splits)
    then show ?thesis using ok other by (auto simp: overlay_ok_def)
  qed
  moreover have "ids_ok ?ov" using ok by (auto simp: overlay_ok_def ids_ok_def removePeer_def split: if_splits)
  ultimately show "overlay_ok C ?ov" by (auto simp: overlay_ok_def)
  show "evolves ov ?ov" by (auto simp: evolves_def removePeer_def split: if_splits)
  show "slot_free ov c \<Longrightarrow> slot_free ?ov c" by (cases c) (auto simp: removePeer_def split: if_splits)
qed

lemma destroy_ok:
  assumes "overlay_ok C ov" and "calls_ok C ov calls"
  shows "overlay_ok C ((overlay_destroy ov)\<lparr>ov_ownPeerId := own\<rparr>)" and "calls_ok C ((overlay_destroy ov)\<lparr>ov_ownPeerId := own\<rparr>) calls"
    and "calls_ok C ((overlay_destroy ov)\<lparr>ov_ownPeerId := own\<rparr>) (calls @ [Generating (ov_fresh ov)])"
proof -
  let ?ov = "(overlay_destroy ov)\<lparr>ov_ownPeerId := own\<rparr>"
  show "overlay_ok C ?ov" by (rule overlay_ok_empty) (simp_all add: overlay_destroy_def new_overlay_def)
  have ev: "evolves ov ?ov" by (simp add: evolves_def overlay_destroy_def new_overlay_def)
  show calls: "calls_ok C ?ov calls"
  proof (rule calls_ok_evolves [OF assms(2) ev])
    show "slot_free ?ov c" for c by (cases c) (simp_all add: overlay_destroy_def new_overlay_def)
  qed
  have "slot c \<noteq> Some (ov_fresh ov)" if "c \<in> set calls" for c using assms(2) that by (fastforce simp: calls_ok_def)
  then show "calls_ok C ?ov (calls @ [Generating (ov_fresh ov)])"
    by (intro calls_ok_add [OF calls]) (simp_all add: overlay_destroy_def new_overlay_def)
qed

lemma setPeerKey_begin_cases:
  "setPeerKey_begin p key ov = (thrown ''invalid_overlay_key'', ov) \<or>
   (\<exists>xy. setPeerKey_begin p key ov = (Waiting (Importing p (ov_lifetime ov) (ov_fresh ov) xy),
      (removePeer p ov)\<lparr>ov_fresh := ov_fresh ov + 1,
         ov_peerImports := map_set p (ov_fresh ov) (ov_peerImports (removePeer p ov))\<rparr>))"
proof -
  have "ov_fresh (removePeer p ov) = ov_fresh ov" "ov_lifetime (removePeer p ov) = ov_lifetime ov" by (simp_all add: removePeer_def)
  then show ?thesis by (auto simp: setPeerKey_begin_def Let_def split: option.split)
qed

lemma set_key_ok:
  assumes ok: "overlay_ok C ov" and calls: "calls_ok C ov calls" and beg: "setPeerKey_begin p key ov = (pr, ov')"
  shows "overlay_ok C ov'" and "calls_ok C ov' (calls @ progress_calls pr)"
proof (atomize (full), cases "pr = thrown ''invalid_overlay_key''")
  case True
  then have "ov' = ov" using beg setPeerKey_begin_cases [of p key ov] by auto
  with ok calls True show "overlay_ok C ov' \<and> calls_ok C ov' (calls @ progress_calls pr)" by (simp add: progress_calls_def)
next
  case False
  let ?ov = "removePeer p ov" and ?f = "ov_fresh ov"
  have f: "ov_fresh ?ov = ?f" by (simp add: removePeer_def)
  obtain xy where pr: "pr = Waiting (Importing p (ov_lifetime ov) ?f xy)"
    and ov': "ov' = ?ov\<lparr>ov_fresh := ?f + 1, ov_peerImports := map_set p ?f (ov_peerImports ?ov)\<rparr>"
    using beg False setPeerKey_begin_cases [of p key ov] by auto
  note r = removePeer_ok [OF ok]
  have low: "slot c \<noteq> Some ?f" if "c \<in> set calls" for c using calls that by (fastforce simp: calls_ok_def)
  have "map_of (ov_peerKeys ?ov) p = None" by (simp add: removePeer_def)
  then have ev: "evolves ?ov ov'" by (auto simp: evolves_def ov' f)
  have ok': "overlay_ok C ov'" by (rule overlay_ok_update [OF r(1)]) (auto simp: f ov')
  have "calls_ok C ?ov calls" using calls r(2,3) by (rule calls_ok_evolves)
  then have "calls_ok C ov' calls"
  proof (rule calls_ok_evolves [OF _ ev])
    show "slot_free ov' c" if "c \<in> set calls" "slot_free ?ov c" for c
      by (cases c) (use that low [OF that(1)] in \<open>auto simp: ov' split: if_splits\<close>)
  qed
  then have "calls_ok C ov' (calls @ [Importing p (ov_lifetime ov) ?f xy])"
    using low by (intro calls_ok_add) (auto simp: ov' removePeer_def)
  with ok' show "overlay_ok C ov' \<and> calls_ok C ov' (calls @ progress_calls pr)" by (simp add: pr progress_calls_def)
qed

text \<open>Changes that concern neither identities nor keys.\<close>

definition same_keys :: "overlay \<Rightarrow> overlay \<Rightarrow> bool" where
  "same_keys ov' ov \<longleftrightarrow> ov_fresh ov' = ov_fresh ov \<and> ov_lifetime ov' = ov_lifetime ov \<and> ov_ownPeerId ov' = ov_ownPeerId ov
     \<and> ov_keyPair ov' = ov_keyPair ov \<and> ov_peerKeys ov' = ov_peerKeys ov \<and> ov_peerImports ov' = ov_peerImports ov
     \<and> ov_derivedKeys ov' = ov_derivedKeys ov"

lemma same_keys_ok:
  assumes same: "same_keys ov' ov" and sub: "set (ov_assemblies ov') \<subseteq> set (ov_assemblies ov)"
    and ok: "overlay_ok C ov" and calls: "calls_ok C ov calls"
  shows "overlay_ok C ov'" and "calls_ok C ov' calls"
proof -
  show "overlay_ok C ov'" using same sub by (intro overlay_ok_update [OF ok]) (auto simp: same_keys_def)
  show "calls_ok C ov' calls"
  proof (rule calls_ok_evolves [OF calls evolves_same])
    show "slot_free ov' c" if "slot_free ov c" for c using that same by (cases c) (simp_all add: same_keys_def)
  qed (use same in \<open>simp_all add: same_keys_def\<close>)
qed

lemma send_begin_ok:
  assumes ok: "overlay_ok C (sy_overlay s)" and calls: "calls_ok C (sy_overlay s) (calls_of s)"
  shows "auth_inv C (put_progress t (send_begin destination data route now (sy_overlay s)) s)"
proof -
  have "calls_ok C (sy_overlay s) (calls_of s @ [Send_Deriving job (derive_begin (sj_destination job) (sy_overlay s))])" for job
    using derive_begin_ok(1) [OF ok] by (intro calls_ok_add [OF calls]) simp_all
  from this [of "\<lparr>sj_destination = destination, sj_data = data, sj_route = route, sj_now = now, sj_current = current destination (sy_overlay s)\<rparr>"]
  show ?thesis
    unfolding send_begin_def
    using ok calls by (auto intro!: auth_inv_put simp: progress_calls_def simp del: put_progress.simps)
qed

lemma parsed_origin: "parseOverlayPacket now raw = Some packet \<Longrightarrow> length (pk_originPeerId packet) = 16"
  by (auto simp: parseOverlayPacket_def PEER_ID_def matches_def Let_def split: jsval.splits option.splits if_splits)

lemma receive_begin_ok:
  assumes ok: "overlay_ok C (sy_overlay s)" and calls: "calls_ok C (sy_overlay s) (calls_of s)"
  shows "auth_inv C (put_progress t (receive_begin now raw previous ctx (sy_overlay s)) s)"
proof -
  let ?ov = "prune now (sy_overlay s)"
  have "same_keys ?ov (sy_overlay s)" "set (ov_assemblies ?ov) \<subseteq> set (ov_assemblies (sy_overlay s))"
    by (auto simp: same_keys_def prune_def)
  note ok' = same_keys_ok [OF this ok calls]
  obtain pr where beg: "receive_begin now raw previous ctx (sy_overlay s) = (pr, ?ov)"
    and pr: "(\<exists>r. pr = Settled r) \<or> (\<exists>packet ciphertext. parseOverlayPacket now raw = Some packet \<and>
      pr = Waiting (Receive_Digesting \<lparr>rj_packet = packet, rj_ciphertext = ciphertext, rj_current = current (pk_originPeerId packet) ?ov\<rparr>))"
    by (cases "receive_begin now raw previous ctx (sy_overlay s)")
      (auto simp: receive_begin_def Let_def split: option.splits sum.splits if_splits)
  have "calls_ok C ?ov (calls_of s @ progress_calls pr)"
    using pr
  proof (elim disjE exE conjE)
    fix packet ciphertext
    assume "parseOverlayPacket now raw = Some packet" and w: "pr = Waiting (Receive_Digesting
      \<lparr>rj_packet = packet, rj_ciphertext = ciphertext, rj_current = current (pk_originPeerId packet) ?ov\<rparr>)"
    then show ?thesis
      using parsed_origin [of now raw packet] token_below_current [of ?ov] ok'(1)
      unfolding w progress_calls_def overlay_progress.case
      by (intro calls_ok_add [OF ok'(2)]) (simp_all add: overlay_ok_def)
  qed (use ok'(2) in \<open>simp add: progress_calls_def\<close>)
  then show ?thesis unfolding beg by (rule auth_inv_put [OF ok'(1)])
qed

lemma auth_inv_step: assumes inv: "auth_inv C s" shows "auth_inv C (overlay_step C s e)"
proof -
  let ?ov = "sy_overlay s"
  have ok: "overlay_ok C ?ov" and calls: "calls_ok C ?ov (calls_of s)" using inv by (simp_all add: auth_inv_def)
  show ?thesis
  proof (cases e)
    case (Initialize_Call own)
    have "ov_lifetime ((overlay_destroy ?ov)\<lparr>ov_ownPeerId := own\<rparr>) = ov_fresh ?ov" by (simp add: overlay_destroy_def)
    then show ?thesis
      unfolding Initialize_Call overlay_step.simps initialize_begin_def Let_def
      using destroy_ok [OF ok calls, of own] ok calls by (auto intro!: auth_inv_put simp: progress_calls_def simp del: put_progress.simps)
  next
    case (Set_Key_Call p key)
    obtain pr ov' where beg: "setPeerKey_begin p key ?ov = (pr, ov')" by (cases "setPeerKey_begin p key ?ov")
    show ?thesis unfolding Set_Key_Call overlay_step.simps beg by (rule auth_inv_put) (rule set_key_ok [OF ok calls beg])+
  next
    case (Remove_Call p)
    then show ?thesis using removePeer_ok [OF ok, where p = p] calls_ok_evolves [OF calls, of "removePeer p ?ov"] by (simp add: auth_inv_def)
  next
    case Destroy_Call
    have "overlay_destroy ?ov = (overlay_destroy ?ov)\<lparr>ov_ownPeerId := []\<rparr>" by (simp add: overlay_destroy_def new_overlay_def)
    then show ?thesis using Destroy_Call destroy_ok(1,2) [OF ok calls, of "[]"] by (simp add: auth_inv_def)
  next
    case (Send_Call destination data route now)
    show ?thesis unfolding Send_Call overlay_step.simps by (rule send_begin_ok [OF ok calls])
  next
    case (Receive_Call now raw previous ctx)
    show ?thesis
      unfolding Receive_Call overlay_step.simps
      using receive_begin_ok [of C "s\<lparr>sy_clock := max (sy_clock s) now\<rparr>"] ok calls by simp
  next
    case (Resume_Call packetId missing)
    have "set (ov_assemblies (snd (resume packetId missing ?ov))) \<subseteq> set (ov_assemblies ?ov) \<and> same_keys (snd (resume packetId missing ?ov)) ?ov"
      by (auto simp: resume_def same_keys_def split: option.splits)
    then show ?thesis using Resume_Call same_keys_ok [OF _ _ ok calls] by (simp add: auth_inv_def)
  next
    case (Continue i rnd)
    show ?thesis
    proof (cases "i < length (sy_calls s)")
      case True
      obtain t call where x: "sy_calls s ! i = (t, call)" by (cases "sy_calls s ! i")
      with True obtain ys zs where "sy_calls s = ys @ (t, call) # zs" "drop_nth i (sy_calls s) = ys @ zs"
        by (metis drop_nth_split)
      moreover obtain pr ov' where "overlay_resume C rnd call ?ov = (pr, ov')" by (cases "overlay_resume C rnd call ?ov")
      ultimately show ?thesis using auth_inv_continue [OF inv] True x by (simp add: Continue del: drop_nth.simps)
    qed (use inv Continue in simp)
  qed
qed

lemma auth_inv_run: "auth_inv C (overlay_run C (overlay_start clock) events)"
proof -
  have "auth_inv C s \<Longrightarrow> auth_inv C (overlay_run C s events)" for s
    by (induction events arbitrary: s) (simp_all add: auth_inv_step)
  moreover have "overlay_ok C new_overlay" by (rule overlay_ok_empty) (simp_all add: new_overlay_def)
  then have "auth_inv C (overlay_start clock)"
    by (simp add: auth_inv_def overlay_start_def calls_ok_def List.map_filter_simps)
  ultimately show ?thesis .
qed

lemma opened_delivers:
  assumes "receive_opened job opened ov = (Settled (Inr (Received (Packet_Delivered packetId origin cls data))), ov')"
  obtains cleartext a parts where "opened = Some cleartext" "job_current job ov"
    "as_count (assembly_for (rj_packet job) ov) = pk_chunkCount (rj_packet job)"
    "a = add_part (rj_packet job) cleartext (assembly_for (rj_packet job) ov)"
    "packetId = pk_packetId (rj_packet job)" "origin = as_originPeerId a" "cls = as_trafficClass a"
    "collect (map_of (as_parts a)) [0..<as_count a] = Some parts" "join_parts (as_bytes a) parts = Some data"
  using assms by (auto simp: receive_opened_def Let_def split: option.splits if_splits)

lemma collect_nth: "collect f [0..<n] = Some ys \<Longrightarrow> length ys = n \<and> (\<forall>i < n. f i = Some (ys ! i))"
  by (auto simp: collect_Some_iff list_all2_conv_all_nth)

text \<open>C11. Delivered data is authentic. In every state an overlay can reach, under any interleaving of calls and
  with whatever packets, a call of \<open>receive\<close> that delivers a message finds a key object installed for the
  origin, and the message is the concatenation of parts, followed at most by zero bytes, where part \<open>i\<close> was
  decrypted with the key agreed between the own key pair and that key object, authenticated as chunk \<open>i\<close> of as
  many chunks of this packet id from this origin to the own peer.\<close>

theorem overlay_delivers_authentic:
  assumes "s = overlay_run C (overlay_start clock) events" and "i < length (sy_calls s)"
    and "overlay_resume C rnd (snd (sy_calls s ! i)) (sy_overlay s) =
      (Settled (Inr (Received (Packet_Delivered packetId origin cls data))), ov')"
  shows "\<exists>keyPair peerKey parts zeros. ov_keyPair (sy_overlay s) = Some keyPair
    \<and> map_of (ov_peerKeys (sy_overlay s)) origin = Some peerKey \<and> data = concat parts @ replicate zeros 0
    \<and> (\<forall>j < length parts. \<exists>packet nonce ciphertext. pk_packetId packet = packetId \<and> pk_originPeerId packet = origin
        \<and> pk_destinationPeerId packet = ov_ownPeerId (sy_overlay s)
        \<and> pk_chunkIndex packet = j \<and> pk_chunkCount packet = length parts
        \<and> oc_decrypt C (oc_derive C (ko_key keyPair) (ko_key peerKey)) nonce (aad packet) ciphertext = Some (parts ! j))"
proof -
  let ?ov = "sy_overlay s" and ?call = "snd (sy_calls s ! i)"
  have inv: "auth_inv C s" unfolding assms(1) by (rule auth_inv_run)
  then have ok: "overlay_ok C ?ov" and call: "call_ok C ?ov ?call"
    using assms(2) by (auto simp: auth_inv_def calls_ok_def)
  obtain job opened where c: "?call = Receive_Opening job opened"
    using assms(3) by (cases ?call) (auto simp: resume_defs Let_def split: resume_splits)
  have "receive_opened job opened ?ov = (Settled (Inr (Received (Packet_Delivered packetId origin cls data))), ov')"
    using assms(3) c by simp
  then obtain cleartext a parts where d: "opened = Some cleartext" "job_current job ?ov"
      "as_count (assembly_for (rj_packet job) ?ov) = pk_chunkCount (rj_packet job)"
      "a = add_part (rj_packet job) cleartext (assembly_for (rj_packet job) ?ov)"
      "packetId = pk_packetId (rj_packet job)" "origin = as_originPeerId a"
      "collect (map_of (as_parts a)) [0..<as_count a] = Some parts" "join_parts (as_bytes a) parts = Some data"
    by (rule opened_delivers)
  have a: "assembly_ok C ?ov (assembly_key (rj_packet job)) a"
    unfolding d(4) using add_part_ok [OF ok _ d(2,3)] call c d(1) by simp
  have key: "assembly_key packet = assembly_key (rj_packet job) \<Longrightarrow> pk_originPeerId packet = origin \<Longrightarrow> pk_packetId packet = packetId"
    for packet using a call c d(5,6) by (auto simp: assembly_ok_def assembly_key_def job_ok_def)
  obtain keyPair peerKey where k: "ov_keyPair ?ov = Some keyPair" "map_of (ov_peerKeys ?ov) origin = Some peerKey"
    using a d(6) by (auto simp: assembly_ok_def keyed_def)
  then have "keyed C ?ov origin x \<Longrightarrow> x = oc_derive C (ko_key keyPair) (ko_key peerKey)" for x by (auto simp: keyed_def)
  moreover have "part_ok C ?ov (assembly_key (rj_packet job)) a j (parts ! j)" "length parts = as_count a" if "j < length parts" for j
    using that collect_nth [OF d(7)] a by (auto simp: assembly_ok_def dest: map_of_SomeD)
  moreover obtain zeros where "data = concat parts @ replicate zeros 0"
    using d(8) by (auto simp: join_parts_def Let_def split: if_splits)
  ultimately show ?thesis
    using k key d(6) unfolding part_ok_def opened_from_def by metis
qed

end
