(* ===== verification/Overlay_Delivery.thy ===== *)
theory Overlay_Delivery
  imports Overlay_Authentic
begin

text \<open>
  The way of a message: \<open>encrypt\<close> cuts and seals it, every relay on the path forwards its packets, and
  \<open>receive\<close> puts it together at the destination, in whatever order the packets arrive.
\<close>

subsection \<open>Calls that are not interrupted\<close>

fun settle :: "overlay_crypto \<Rightarrow> (bytes \<times> bytes) list \<Rightarrow> overlay_progress \<times> overlay \<Rightarrow> (string + overlay_value) option \<times> overlay" where
  "settle C rs (Settled r, ov) = (Some r, ov)"
| "settle C [] (Waiting c, ov) = (None, ov)"
| "settle C (r # rs) (Waiting c, ov) = settle C rs (overlay_resume C r c ov)"

text \<open>\<open>receive\<close> waits at most four times and draws no random bytes.\<close>

definition receive_packet ::
  "overlay_crypto \<Rightarrow> int \<Rightarrow> receive_context \<Rightarrow> string \<Rightarrow> overlay_packet \<Rightarrow> overlay \<Rightarrow> (string + overlay_value) option \<times> overlay" where
  "receive_packet C now ctx previous packet ov =
     settle C (replicate 4 ([], [])) (receive_begin now (packet_json packet) previous ctx ov)"

subsection \<open>Chunks\<close>

lemma chunk_count_pos: "0 < chunk_count data"
  by (simp add: chunk_count_def)

lemma chunk_count_enough: "length data \<le> chunk_count data * MAX_CHUNK_BYTES"
  by (simp add: chunk_count_def MAX_CHUNK_BYTES_def max_def) linarith

lemma chunk_count_limit: "length data \<le> MAX_CHUNK_BYTES * MAX_PACKET_CHUNKS \<Longrightarrow> chunk_count data \<le> MAX_PACKET_CHUNKS"
  by (simp add: chunk_count_def MAX_CHUNK_BYTES_def MAX_PACKET_CHUNKS_def)

lemma length_chunk_of: "length (chunk_of i data) \<le> MAX_CHUNK_BYTES"
  by (simp add: chunk_of_def)

lemma chunks_prefix: "concat (map (\<lambda>i. chunk_of i data) [0..<n]) = take (n * MAX_CHUNK_BYTES) data"
proof (induction n)
  case (Suc n)
  have "take (Suc n * MAX_CHUNK_BYTES) data = take (n * MAX_CHUNK_BYTES + MAX_CHUNK_BYTES) data" by (simp add: add.commute)
  with Suc show ?case by (simp add: chunk_of_def take_add)
qed simp

lemma chunks_join: "concat (map (\<lambda>i. chunk_of i data) [0..<chunk_count data]) = data"
  using chunk_count_enough by (simp add: chunks_prefix)

lemma chunks_length: "finite K \<Longrightarrow> K \<subseteq> {..<chunk_count data} \<Longrightarrow> (\<Sum>i\<in>K. length (chunk_of i data)) \<le> length data"
proof -
  assume "K \<subseteq> {..<chunk_count data}"
  then have "(\<Sum>i\<in>K. length (chunk_of i data)) \<le> (\<Sum>i<chunk_count data. length (chunk_of i data))"
    by (intro sum_mono2) auto
  also have "\<dots> = length (concat (map (\<lambda>i. chunk_of i data) [0..<chunk_count data]))"
    by (simp add: length_concat comp_def sum_list_sum_nth atLeast0LessThan)
  finally show ?thesis by (simp add: chunks_join)
qed

subsection \<open>Messages\<close>

text \<open>What WebCrypto promises: decryption inverts encryption, AES-GCM adds a tag of 16 bytes, SHA-256 has 32.\<close>

definition overlay_crypto_ok :: "overlay_crypto \<Rightarrow> bool" where
  "overlay_crypto_ok C \<longleftrightarrow> (\<forall>k n ad p. byte_seq p \<longrightarrow> byte_seq (oc_encrypt C k n ad p)
       \<and> length (oc_encrypt C k n ad p) = length p + 16 \<and> oc_decrypt C k n ad (oc_encrypt C k n ad p) = Some p)
     \<and> (\<forall>bs. byte_seq (oc_sha256 C bs) \<and> length (oc_sha256 C bs) = 32)"

record overlay_message =
  ms_job :: send_job
  ms_origin :: string
  ms_packetId :: string
  ms_nonce :: "nat \<Rightarrow> bytes"
  ms_key :: bytes

definition sealed :: "overlay_crypto \<Rightarrow> overlay_message \<Rightarrow> nat \<Rightarrow> bytes" where
  "sealed C m i = oc_encrypt C (ms_key m) (ms_nonce m i)
     (aad (chunk_header (ms_job m) (ms_origin m) (ms_packetId m) i (ms_nonce m i))) (chunk_of i (sj_data (ms_job m)))"

definition packet_of :: "overlay_crypto \<Rightarrow> overlay_message \<Rightarrow> nat \<Rightarrow> nat \<Rightarrow> overlay_packet" where
  "packet_of C m hop i = (chunk_header (ms_job m) (ms_origin m) (ms_packetId m) i (ms_nonce m i))
     \<lparr>pk_hop := hop, pk_ciphertext := base64url_encode (sealed C m i), pk_digest := base64url_encode (oc_sha256 C (sealed C m i))\<rparr>"

abbreviation ms_path :: "overlay_message \<Rightarrow> string list" where
  "ms_path m \<equiv> rc_path (sj_route (ms_job m))"

abbreviation ms_chunks :: "overlay_message \<Rightarrow> nat" where
  "ms_chunks m \<equiv> chunk_count (sj_data (ms_job m))"

definition send_route_ok :: "string \<Rightarrow> string \<Rightarrow> route_context \<Rightarrow> bool" where
  "send_route_ok origin destination route \<longleftrightarrow>
     2 \<le> length (rc_path route) \<and> length (rc_path route) \<le> MAX_PATH \<and> list_all PEER_ID (rc_path route) \<and> distinct (rc_path route)
     \<and> hd (rc_path route) = origin \<and> last (rc_path route) = destination
     \<and> 1 \<le> rc_membershipEpoch route \<and> rc_membershipEpoch route \<le> MAX_SAFE_INTEGER
     \<and> 1 \<le> rc_routeEpoch route \<and> rc_routeEpoch route \<le> MAX_SAFE_INTEGER"

definition message_ok :: "overlay_message \<Rightarrow> bool" where
  "message_ok m \<longleftrightarrow> send_route_ok (ms_origin m) (sj_destination (ms_job m)) (sj_route (ms_job m))
     \<and> 0 \<le> sj_now (ms_job m) \<and> sj_now (ms_job m) + MAX_TTL_MS \<le> MAX_SAFE_INTEGER
     \<and> TOKEN (ms_packetId m) \<and> (\<forall>i < ms_chunks m. byte_seq (ms_nonce m i) \<and> length (ms_nonce m i) = 12)
     \<and> byte_seq (sj_data (ms_job m)) \<and> length (sj_data (ms_job m)) \<le> MAX_CHUNK_BYTES * MAX_PACKET_CHUNKS"

text \<open>The times at which the packets are accepted.\<close>

definition in_time :: "int \<Rightarrow> send_job \<Rightarrow> bool" where
  "in_time now job \<longleftrightarrow> sj_now job \<le> now + 5000 \<and> now < sj_now job + MAX_TTL_MS"

lemma aad_packet_of: "aad (packet_of C m hop i) = aad (chunk_header (ms_job m) (ms_origin m) (ms_packetId m) i (ms_nonce m i))"
  by (simp add: aad_def packet_of_def)

lemma packet_of_fields [simp]:
  "pk_packetId (packet_of C m hop i) = ms_packetId m" "pk_originPeerId (packet_of C m hop i) = ms_origin m"
  "pk_destinationPeerId (packet_of C m hop i) = sj_destination (ms_job m)" "pk_path (packet_of C m hop i) = ms_path m"
  "pk_membershipEpoch (packet_of C m hop i) = rc_membershipEpoch (sj_route (ms_job m))"
  "pk_routeEpoch (packet_of C m hop i) = rc_routeEpoch (sj_route (ms_job m))"
  "pk_trafficClass (packet_of C m hop i) = rc_trafficClass (sj_route (ms_job m))"
  "pk_expiresAt (packet_of C m hop i) = sj_now (ms_job m) + MAX_TTL_MS" "pk_hop (packet_of C m hop i) = hop"
  "pk_chunkIndex (packet_of C m hop i) = i" "pk_chunkCount (packet_of C m hop i) = ms_chunks m"
  "pk_nonce (packet_of C m hop i) = base64url_encode (ms_nonce m i)"
  "pk_ciphertext (packet_of C m hop i) = base64url_encode (sealed C m i)"
  "pk_digest (packet_of C m hop i) = base64url_encode (oc_sha256 C (sealed C m i))"
  "(packet_of C m hop i)\<lparr>pk_hop := hop'\<rparr> = packet_of C m hop' i"
  by (simp_all add: packet_of_def chunk_header_def)

lemma sealed_facts:
  assumes C: "overlay_crypto_ok C" and m: "message_ok m"
  shows "byte_seq (sealed C m i)" and "16 \<le> length (sealed C m i)" and "length (sealed C m i) \<le> MAX_CHUNK_BYTES + 16"
    and "oc_decrypt C (ms_key m) (ms_nonce m i) (aad (packet_of C m hop i)) (sealed C m i) = Some (chunk_of i (sj_data (ms_job m)))"
proof -
  have "byte_seq (chunk_of i (sj_data (ms_job m)))"
    using m by (auto simp: message_ok_def chunk_of_def dest!: in_set_takeD in_set_dropD)
  then show "byte_seq (sealed C m i)" "16 \<le> length (sealed C m i)" "length (sealed C m i) \<le> MAX_CHUNK_BYTES + 16"
    "oc_decrypt C (ms_key m) (ms_nonce m i) (aad (packet_of C m hop i)) (sealed C m i) = Some (chunk_of i (sj_data (ms_job m)))"
    using C length_chunk_of [of i "sj_data (ms_job m)"] by (simp_all add: overlay_crypto_ok_def sealed_def aad_packet_of)
qed

lemma packet_of_ok:
  assumes C: "overlay_crypto_ok C" and m: "message_ok m" and t: "in_time now (ms_job m)"
    and "i < ms_chunks m" "1 \<le> hop" "hop < length (ms_path m)"
  shows "packet_ok now (packet_of C m hop i)"
proof -
  note s = sealed_facts [OF C m, of i]
  have "js_length (base64url_encode (sealed C m i)) \<le> 24000"
    using s(1,3) by (simp add: js_length_base64url MAX_CHUNK_BYTES_def)
  moreover have "TOKEN (base64url_encode (ms_nonce m i))" "TOKEN (base64url_encode (oc_sha256 C (sealed C m i)))"
    using C m assms(4) by (auto intro!: TOKEN_base64url simp: message_ok_def overlay_crypto_ok_def)
  moreover have "pk_createdAt (packet_of C m hop i) = sj_now (ms_job m)" by (simp add: packet_of_def chunk_header_def)
  moreover have "ms_chunks m \<le> MAX_PACKET_CHUNKS" using m by (simp add: message_ok_def chunk_count_limit)
  ultimately show ?thesis
    using m t assms(4-6) by (simp add: packet_ok_def message_ok_def send_route_ok_def in_time_def MAX_SAFE_INTEGER_def MAX_TTL_MS_def)
qed

subsection \<open>Relays\<close>

definition context_ok :: "receive_context \<Rightarrow> overlay_message \<Rightarrow> bool" where
  "context_ok ctx m \<longleftrightarrow> rx_membershipEpoch ctx = rc_membershipEpoch (sj_route (ms_job m))
     \<and> rx_routeEpoch ctx = rc_routeEpoch (sj_route (ms_job m)) \<and> set (ms_path m) \<subseteq> set (rx_memberPeerIds ctx)"

definition packet_job :: "overlay_crypto \<Rightarrow> overlay_message \<Rightarrow> nat \<Rightarrow> nat \<Rightarrow> overlay \<Rightarrow> receive_job" where
  "packet_job C m hop i ov = \<lparr>rj_packet = packet_of C m hop i, rj_ciphertext = sealed C m i, rj_current = current (ms_origin m) ov\<rparr>"

lemma receive_begin_packet:
  assumes C: "overlay_crypto_ok C" and m: "message_ok m" and t: "in_time now (ms_job m)" and ctx: "context_ok ctx m"
    and i: "i < ms_chunks m" and hop: "1 \<le> hop" "hop < length (ms_path m)"
    and own: "ov_ownPeerId ov = ms_path m ! hop" and new: "replay_key (packet_of C m hop i) \<notin> set (map_keys (ov_seen ov))"
  shows "receive_begin now (packet_json (packet_of C m hop i)) (ms_path m ! (hop - 1)) ctx ov =
    (Waiting (Receive_Digesting (packet_job C m hop i (prune now ov))), prune now ov)"
proof -
  have "parseOverlayPacket now (packet_json (packet_of C m hop i)) = Some (packet_of C m hop i)"
    by (rule parse_packet_json [OF packet_of_ok [OF C m t i hop]])
  moreover have "sealed C m i \<noteq> []" using sealed_facts(2) [OF C m, of i] by auto
  then have "base64url_decode (base64url_encode (sealed C m i)) = Inr (sealed C m i)"
    by (rule base64url_roundtrip [OF sealed_facts(1) [OF C m]])
  moreover have "replay_key (packet_of C m hop i) \<notin> set (map_keys (ov_seen (prune now ov)))"
    using new by (auto simp: prune_def)
  moreover have "ov_ownPeerId (prune now ov) = ms_path m ! hop" using own by (simp add: prune_def)
  moreover have "list_all (\<lambda>p. p \<in> set (rx_memberPeerIds ctx)) (ms_path m)" using ctx by (auto simp: context_ok_def list_all_iff)
  ultimately show ?thesis
    using ctx by (simp add: receive_begin_def Let_def context_ok_def packet_job_def)
qed

lemma job_current_packet: "job_current (packet_job C m hop i ov) ov' \<longleftrightarrow> current (ms_origin m) ov' = current (ms_origin m) ov"
  by (simp add: job_current_def packet_job_def)

definition claim_packet :: "overlay_packet \<Rightarrow> overlay \<Rightarrow> overlay" where
  "claim_packet packet ov = ov\<lparr>ov_seen := map_set (replay_key packet) (pk_expiresAt packet) (ov_seen ov)\<rparr>"

lemma receive_digested_packet:
  assumes new: "replay_key (packet_of C m hop i) \<notin> set (map_keys (ov_seen ov))"
  shows "receive_digested C (packet_job C m hop i ov) ov =
    (if ov_ownPeerId ov \<noteq> sj_destination (ms_job m) then
       (if length (ms_path m) \<le> hop + 1 then (dropped ''hop_limit'', claim_packet (packet_of C m hop i) ov)
        else (Settled (Inr (Received (Packet_Forward (ms_path m ! (hop + 1)) (packet_of C m (hop + 1) i)))), claim_packet (packet_of C m hop i) ov))
     else (Waiting (Receive_Deriving (packet_job C m hop i ov) (derive_begin (ms_origin m) (claim_packet (packet_of C m hop i) ov))),
           claim_packet (packet_of C m hop i) ov))"
  using new
  by (simp add: receive_digested_def Let_def job_current_packet) (simp add: packet_job_def claim_packet_def)

lemma relay_forwards:
  assumes C: "overlay_crypto_ok C" and m: "message_ok m" and t: "in_time now (ms_job m)" and ctx: "context_ok ctx m"
    and i: "i < ms_chunks m" and hop: "1 \<le> hop" "hop + 1 < length (ms_path m)"
    and own: "ov_ownPeerId ov = ms_path m ! hop" and new: "replay_key (packet_of C m hop i) \<notin> set (map_keys (ov_seen ov))"
  shows "fst (receive_packet C now ctx (ms_path m ! (hop - 1)) (packet_of C m hop i) ov) =
    Some (Inr (Received (Packet_Forward (ms_path m ! (hop + 1)) (packet_of C m (hop + 1) i))))"
proof -
  have "distinct (ms_path m)" "last (ms_path m) = sj_destination (ms_job m)" using m by (auto simp: message_ok_def send_route_ok_def)
  then have "ms_path m ! hop \<noteq> sj_destination (ms_job m)"
    using hop nth_eq_iff_index_eq [of "ms_path m" hop "length (ms_path m) - 1"] last_conv_nth [of "ms_path m"] by fastforce
  then have away: "ov_ownPeerId (prune now ov) \<noteq> sj_destination (ms_job m)" using own by (simp add: prune_def)
  have "replay_key (packet_of C m hop i) \<notin> set (map_keys (ov_seen (prune now ov)))" using new by (auto simp: prune_def)
  from receive_digested_packet [OF this] away hop
  have "receive_digested C (packet_job C m hop i (prune now ov)) (prune now ov) =
      (Settled (Inr (Received (Packet_Forward (ms_path m ! (hop + 1)) (packet_of C m (hop + 1) i)))), claim_packet (packet_of C m hop i) (prune now ov))"
    by simp
  then show ?thesis
    using receive_begin_packet [OF C m t ctx i hop(1) _ own new] hop(2)
    by (simp add: receive_packet_def numeral_eq_Suc)
qed

subsection \<open>The destination\<close>

text \<open>The own peer shares \<open>key\<close> with a peer: its key object is installed, and no other key is cached.\<close>

definition shares_key :: "overlay_crypto \<Rightarrow> overlay \<Rightarrow> string \<Rightarrow> bytes \<Rightarrow> bool" where
  "shares_key C ov peerId key \<longleftrightarrow>
     keyed C ov peerId key \<and> (\<forall>k. map_of (ov_derivedKeys ov) peerId = Some k \<longrightarrow> k = key)"

definition receiver_ok :: "overlay_crypto \<Rightarrow> overlay_message \<Rightarrow> overlay \<Rightarrow> bool" where
  "receiver_ok C m ov \<longleftrightarrow> ov_ownPeerId ov = sj_destination (ms_job m) \<and> shares_key C ov (ms_origin m) (ms_key m)"

abbreviation last_hop :: "overlay_message \<Rightarrow> nat" where
  "last_hop m \<equiv> length (ms_path m) - 1"

lemma derive_settles:
  assumes "shares_key C ov p key"
  obtains dk where "derive_finish C (derive_begin p ov) ov = (Inr key, ov\<lparr>ov_derivedKeys := dk\<rparr>)"
    "shares_key C (ov\<lparr>ov_derivedKeys := dk\<rparr>) p key"
proof (cases "map_of (ov_derivedKeys ov) p")
  case None
  obtain kp pk where "ov_keyPair ov = Some kp" "map_of (ov_peerKeys ov) p = Some pk"
    "key = oc_derive C (ko_key kp) (ko_key pk)" using assms by (auto simp: shares_key_def keyed_def)
  then show thesis
    using that [of "map_set p key (ov_derivedKeys ov)"] None assms
    by (simp add: derive_begin_def shares_key_def keyed_def Let_def)
next
  case (Some k)
  have "ov\<lparr>ov_derivedKeys := ov_derivedKeys ov\<rparr> = ov" by simp
  then show thesis using that [of "ov_derivedKeys ov"] Some assms by (simp add: derive_begin_def shares_key_def)
qed

lemma receive_packet_opened:
  assumes C: "overlay_crypto_ok C" and m: "message_ok m" and t: "in_time now (ms_job m)" and ctx: "context_ok ctx m"
    and i: "i < ms_chunks m" and rx: "receiver_ok C m ov"
    and new: "replay_key (packet_of C m (last_hop m) i) \<notin> set (map_keys (ov_seen ov))"
  obtains dk ov' job where "ov' = (claim_packet (packet_of C m (last_hop m) i) (prune now ov))\<lparr>ov_derivedKeys := dk\<rparr>"
    "receiver_ok C m ov'" "job_current job ov'" "rj_packet job = packet_of C m (last_hop m) i"
    "receive_packet C now ctx (ms_path m ! (last_hop m - 1)) (packet_of C m (last_hop m) i) ov =
       settle C [] (receive_opened job (Some (chunk_of i (sj_data (ms_job m)))) ov')"
proof -
  let ?h = "last_hop m" and ?ov = "prune now ov"
  let ?p = "packet_of C m ?h i"
  have path: "2 \<le> length (ms_path m)" "last (ms_path m) = sj_destination (ms_job m)" using m by (auto simp: message_ok_def send_route_ok_def)
  then have "ms_path m \<noteq> []" by auto
  then have own: "ov_ownPeerId ov = ms_path m ! ?h" using rx path(2) by (simp add: receiver_ok_def last_conv_nth)
  have beg: "receive_begin now (packet_json ?p) (ms_path m ! (?h - 1)) ctx ov = (Waiting (Receive_Digesting (packet_job C m ?h i ?ov)), ?ov)"
    using path by (intro receive_begin_packet [OF C m t ctx i _ _ own new]) auto
  have new': "replay_key ?p \<notin> set (map_keys (ov_seen ?ov))" using new by (auto simp: prune_def)
  have "shares_key C (claim_packet ?p ?ov) (ms_origin m) (ms_key m)"
    using rx by (simp add: receiver_ok_def shares_key_def claim_packet_def prune_def keyed_def)
  then obtain dk where d: "derive_finish C (derive_begin (ms_origin m) (claim_packet ?p ?ov)) (claim_packet ?p ?ov) =
        (Inr (ms_key m), (claim_packet ?p ?ov)\<lparr>ov_derivedKeys := dk\<rparr>)" "shares_key C ((claim_packet ?p ?ov)\<lparr>ov_derivedKeys := dk\<rparr>) (ms_origin m) (ms_key m)"
    by (rule derive_settles)
  let ?ov' = "(claim_packet ?p ?ov)\<lparr>ov_derivedKeys := dk\<rparr>"
  have cur: "job_current (packet_job C m ?h i ?ov) ?ov'" by (simp add: job_current_packet current_def claim_packet_def)
  have nonce: "length (ms_nonce m i) = 12" "byte_seq (ms_nonce m i)" using m i by (auto simp: message_ok_def)
  then have "ms_nonce m i \<noteq> []" by auto
  with nonce(2) have "base64url_decode (base64url_encode (ms_nonce m i)) = Inr (ms_nonce m i)" by (intro base64url_roundtrip)
  then have keyed: "receive_keyed C (packet_job C m ?h i ?ov) (Inr (ms_key m)) ?ov' =
      (Waiting (Receive_Opening (packet_job C m ?h i ?ov) (Some (chunk_of i (sj_data (ms_job m))))), ?ov')"
    using cur sealed_facts(4) [OF C m] by (simp add: receive_keyed_def) (simp add: packet_job_def)
  have own': "ov_ownPeerId ?ov = sj_destination (ms_job m)" using rx by (simp add: receiver_ok_def prune_def)
  have "receive_packet C now ctx (ms_path m ! (?h - 1)) ?p ov =
      settle C [] (receive_opened (packet_job C m ?h i ?ov) (Some (chunk_of i (sj_data (ms_job m)))) ?ov')"
    using beg receive_digested_packet [OF new'] own' d(1) keyed
    by (simp add: receive_packet_def numeral_eq_Suc receive_derived_def)
  moreover have "rj_packet (packet_job C m ?h i ?ov) = ?p" by (simp add: packet_job_def)
  moreover have "receiver_ok C m ?ov'" using d(2) own' by (simp add: receiver_ok_def claim_packet_def)
  ultimately show thesis using that cur by blast
qed

text \<open>What the destination has when the chunks \<open>K\<close> have arrived.\<close>

definition assembled :: "overlay_crypto \<Rightarrow> overlay_message \<Rightarrow> nat set \<Rightarrow> assembly \<Rightarrow> bool" where
  "assembled C m K a \<longleftrightarrow> as_expiresAt a = sj_now (ms_job m) + MAX_TTL_MS \<and> as_count a = ms_chunks m
     \<and> as_originPeerId a = ms_origin m \<and> as_trafficClass a = rc_trafficClass (sj_route (ms_job m))
     \<and> distinct (map_keys (as_parts a)) \<and> set (map_keys (as_parts a)) = K
     \<and> (\<forall>j \<in> K. map_of (as_parts a) j = Some (chunk_of j (sj_data (ms_job m))))
     \<and> as_bytes a = (\<Sum>j\<in>K. length (chunk_of j (sj_data (ms_job m))))"

definition stage :: "overlay_crypto \<Rightarrow> overlay_message \<Rightarrow> nat set \<Rightarrow> overlay \<Rightarrow> bool" where
  "stage C m K ov \<longleftrightarrow> receiver_ok C m ov \<and> assembled C m K (assembly_for (packet_of C m 1 0) ov)
     \<and> (\<forall>i. i < ms_chunks m \<and> i \<notin> K \<longrightarrow> replay_key (packet_of C m 1 i) \<notin> set (map_keys (ov_seen ov)))"

lemma assembly_for_packet:
  "assembly_for (packet_of C m hop i) ov = assembly_for (packet_of C m 1 0) ov"
  "assembly_key (packet_of C m hop i) = assembly_key (packet_of C m 1 0)"
  "replay_key (packet_of C m hop i) = replay_key (packet_of C m 1 i)"
  by (simp_all add: assembly_for_def assembly_key_def replay_key_def split: option.split)

lemma map_of_filter_None: "map_of m k = None \<Longrightarrow> map_of (filter P m) k = None"
  by (auto simp: map_of_eq_None_iff)

lemma assembly_for_prune:
  assumes "assembled C m K (assembly_for (packet_of C m 1 0) ov)" and "in_time now (ms_job m)"
  shows "assembly_for (packet_of C m 1 0) (prune now ov) = assembly_for (packet_of C m 1 0) ov"
proof (cases "map_of (ov_assemblies ov) (assembly_key (packet_of C m 1 0))")
  case None
  then show ?thesis by (simp add: assembly_for_def prune_def map_of_filter_None)
next
  case (Some a)
  then have "now < as_expiresAt a" using assms by (simp add: assembly_for_def assembled_def in_time_def)
  with Some show ?thesis by (simp add: assembly_for_def prune_def map_of_filter_kept)
qed

lemma nat_str_inj: "nat_str i = nat_str j \<Longrightarrow> i = j"
  by (metis digits_value_nat_str)

lemma replay_key_inj: "replay_key (packet_of C m 1 i) = replay_key (packet_of C m 1 j) \<longleftrightarrow> i = j"
  by (auto simp: replay_key_def dest: nat_str_inj)

lemma assembled_add:
  assumes "assembled C m K a" and "i \<notin> K" and "finite K"
  shows "assembled C m (insert i K) (add_part (packet_of C m hop i) (chunk_of i (sj_data (ms_job m))) a)"
  using assms by (auto simp: assembled_def add_part_def)

lemma assembled_length: "assembled C m K a \<Longrightarrow> length (as_parts a) = card K"
  by (metis assembled_def distinct_card length_map)

lemma assembled_collect:
  assumes "assembled C m {..<ms_chunks m} a"
  shows "collect (map_of (as_parts a)) [0..<as_count a] = Some (map (\<lambda>i. chunk_of i (sj_data (ms_job m))) [0..<ms_chunks m])"
    and "as_bytes a = length (sj_data (ms_job m))"
proof -
  have "collect (map_of (as_parts a)) (map id [0..<ms_chunks m]) = Some (map (\<lambda>i. chunk_of i (sj_data (ms_job m))) [0..<ms_chunks m])"
    using assms by (intro collect_map) (auto simp: assembled_def)
  then show "collect (map_of (as_parts a)) [0..<as_count a] = Some (map (\<lambda>i. chunk_of i (sj_data (ms_job m))) [0..<ms_chunks m])"
    using assms by (simp add: assembled_def)
  have "as_bytes a = length (concat (map (\<lambda>i. chunk_of i (sj_data (ms_job m))) [0..<ms_chunks m]))"
    using assms by (simp add: assembled_def length_concat comp_def sum_list_sum_nth atLeast0LessThan)
  then show "as_bytes a = length (sj_data (ms_job m))" by (simp add: chunks_join)
qed

text \<open>The result of the packet that completes the set \<open>K\<close> of chunks.\<close>

definition chunk_result :: "overlay_message \<Rightarrow> nat set \<Rightarrow> overlay_result" where
  "chunk_result m K =
     (if K = {..<ms_chunks m}
      then Packet_Delivered (ms_packetId m) (ms_origin m) (rc_trafficClass (sj_route (ms_job m))) (sj_data (ms_job m))
      else Packet_Pending (ms_packetId m) (ms_origin m) (filter (\<lambda>j. j \<notin> K) [0..<ms_chunks m]))"

lemma receive_opened_eq:
  assumes "job_current job ov" and "rj_packet job = packet" and "as_count (assembly_for packet ov) = pk_chunkCount packet"
    and "as_bytes (assembly_for packet ov) + length cleartext \<le> MAX_CHUNK_BYTES * MAX_PACKET_CHUNKS"
    and "a = add_part packet cleartext (assembly_for packet ov)"
  shows "length (as_parts a) \<noteq> as_count a \<Longrightarrow> receive_opened job (Some cleartext) ov =
      (Settled (Inr (Received (Packet_Pending (pk_packetId packet) (pk_originPeerId packet) (missing_parts a)))),
       ov\<lparr>ov_assemblies := map_set (assembly_key packet) a (ov_assemblies ov)\<rparr>)"
    and "length (as_parts a) = as_count a \<Longrightarrow> collect (map_of (as_parts a)) [0..<as_count a] = Some parts \<Longrightarrow>
      join_parts (as_bytes a) parts = Some data \<Longrightarrow> receive_opened job (Some cleartext) ov =
      (Settled (Inr (Received (Packet_Delivered (pk_packetId packet) (as_originPeerId a) (as_trafficClass a) data))),
       ov\<lparr>ov_assemblies := map_delete (assembly_key packet) (ov_assemblies ov)\<rparr>)"
  using assms by (simp_all add: receive_opened_def Let_def not_less [symmetric])

lemma opened_step:
  assumes m: "message_ok m" and st: "assembled C m K (assembly_for (packet_of C m 1 0) ov)" and K: "K \<subseteq> {..<ms_chunks m}"
    and i: "i < ms_chunks m" "i \<notin> K" and cur: "job_current job ov" and p: "rj_packet job = packet_of C m hop i"
    and res: "receive_opened job (Some (chunk_of i (sj_data (ms_job m)))) ov = (pr, ov')"
  shows "pr = Settled (Inr (Received (chunk_result m (insert i K))))"
    and "insert i K \<noteq> {..<ms_chunks m} \<Longrightarrow> assembled C m (insert i K) (assembly_for (packet_of C m 1 0) ov')"
    and "\<exists>as. ov' = ov\<lparr>ov_assemblies := as\<rparr>"
proof -
  let ?K = "insert i K" and ?d = "sj_data (ms_job m)" and ?key = "assembly_key (packet_of C m 1 0)"
  define a where "a = assembly_for (packet_of C m 1 0) ov"
  define a' where "a' = add_part (packet_of C m hop i) (chunk_of i ?d) a"
  have fin: "finite K" using K finite_subset by blast
  have a': "assembled C m ?K a'" unfolding a'_def a_def by (rule assembled_add [OF st i(2) fin])
  have sub: "?K \<subseteq> {..<ms_chunks m}" using K i(1) by auto
  have bytes: "as_bytes a + length (chunk_of i ?d) = as_bytes a'" by (simp add: a'_def add_part_def)
  also have "\<dots> \<le> length ?d" using a' chunks_length [OF _ sub] fin by (simp add: assembled_def)
  finally have limit: "as_bytes a + length (chunk_of i ?d) \<le> MAX_CHUNK_BYTES * MAX_PACKET_CHUNKS"
    using m by (simp add: message_ok_def)
  have count: "as_count a = ms_chunks m" "as_count a' = ms_chunks m" using st a' by (simp_all add: assembled_def a_def)
  have full: "length (as_parts a') = ms_chunks m \<longleftrightarrow> ?K = {..<ms_chunks m}"
    unfolding assembled_length [OF a'] using sub by (metis card_lessThan card_subset_eq finite_lessThan)
  have missing: "missing_parts a' = filter (\<lambda>j. j \<notin> ?K) [0..<ms_chunks m]"
    using a' by (simp add: missing_parts_def assembled_def)
  have whole: "join_parts (as_bytes a') (map (\<lambda>j. chunk_of j ?d) [0..<ms_chunks m]) = Some ?d" if "?K = {..<ms_chunks m}"
    using assembled_collect(2) [of C m a'] a' that by (simp add: join_parts_def chunks_join)
  note eq = receive_opened_eq [OF cur p, of "chunk_of i ?d" a', unfolded assembly_for_packet [of C m hop i], folded a_def]
  have a'_eq: "a' = add_part (packet_of C m hop i) (chunk_of i ?d) a" by (simp add: a'_def)
  have "(pr, ov') = (Settled (Inr (Received (chunk_result m ?K))), ov\<lparr>ov_assemblies := map_delete ?key (ov_assemblies ov)\<rparr>)"
    if "?K = {..<ms_chunks m}"
    using eq(2) [OF _ limit a'_eq _ _ whole [OF that]] assembled_collect(1) [of C m a'] that a' full count res
    by (simp add: chunk_result_def assembled_def)
  moreover have "(pr, ov') = (Settled (Inr (Received (chunk_result m ?K))), ov\<lparr>ov_assemblies := map_set ?key a' (ov_assemblies ov)\<rparr>)"
    if "?K \<noteq> {..<ms_chunks m}"
    using eq(1) [OF _ limit a'_eq] that full count res missing by (simp add: chunk_result_def)
  ultimately have r: "pr = Settled (Inr (Received (chunk_result m ?K)))" "\<exists>as. ov' = ov\<lparr>ov_assemblies := as\<rparr>"
    "?K \<noteq> {..<ms_chunks m} \<Longrightarrow> ov' = ov\<lparr>ov_assemblies := map_set ?key a' (ov_assemblies ov)\<rparr>"
    by blast+
  then show "pr = Settled (Inr (Received (chunk_result m ?K)))" "\<exists>as. ov' = ov\<lparr>ov_assemblies := as\<rparr>" by blast+
  show "?K \<noteq> {..<ms_chunks m} \<Longrightarrow> assembled C m ?K (assembly_for (packet_of C m 1 0) ov')"
    using r(3) a' by (simp add: assembly_for_def)
qed

lemma stage_step:
  assumes C: "overlay_crypto_ok C" and m: "message_ok m" and t: "in_time now (ms_job m)" and ctx: "context_ok ctx m"
    and st: "stage C m K ov" and K: "K \<subseteq> {..<ms_chunks m}" and i: "i < ms_chunks m" "i \<notin> K"
    and res: "receive_packet C now ctx (ms_path m ! (last_hop m - 1)) (packet_of C m (last_hop m) i) ov = (r, ov')"
  shows "r = Some (Inr (Received (chunk_result m (insert i K))))"
    and "insert i K \<noteq> {..<ms_chunks m} \<Longrightarrow> stage C m (insert i K) ov'"
proof -
  have rx: "receiver_ok C m ov" and asm: "assembled C m K (assembly_for (packet_of C m 1 0) ov)"
    and new: "replay_key (packet_of C m (last_hop m) i) \<notin> set (map_keys (ov_seen ov))"
    using st i unfolding stage_def assembly_for_packet(3) [of C m "last_hop m" i] by blast+
  obtain dk ov1 job where ov1: "ov1 = (claim_packet (packet_of C m (last_hop m) i) (prune now ov))\<lparr>ov_derivedKeys := dk\<rparr>"
    "receiver_ok C m ov1" "job_current job ov1" "rj_packet job = packet_of C m (last_hop m) i"
    "receive_packet C now ctx (ms_path m ! (last_hop m - 1)) (packet_of C m (last_hop m) i) ov =
       settle C [] (receive_opened job (Some (chunk_of i (sj_data (ms_job m)))) ov1)"
    by (rule receive_packet_opened [OF C m t ctx i(1) rx new])
  have "assembly_for (packet_of C m 1 0) ov1 = assembly_for (packet_of C m 1 0) ov"
    using assembly_for_prune [OF asm t] by (simp add: ov1(1) claim_packet_def assembly_for_def)
  then have asm1: "assembled C m K (assembly_for (packet_of C m 1 0) ov1)" using asm by simp
  obtain pr ov2 where op: "receive_opened job (Some (chunk_of i (sj_data (ms_job m)))) ov1 = (pr, ov2)" by fastforce
  note o = opened_step [OF m asm1 K i ov1(3,4) op]
  have r: "r = Some (Inr (Received (chunk_result m (insert i K))))" "ov' = ov2" using res ov1(5) op o(1) by simp_all
  show "r = Some (Inr (Received (chunk_result m (insert i K))))" by (rule r)
  obtain as where ov2: "ov2 = ov1\<lparr>ov_assemblies := as\<rparr>" using o(3) by blast
  have "receiver_ok C m ov2" using ov1(2) by (simp add: ov2 receiver_ok_def shares_key_def keyed_def)
  moreover have keys: "fst ` set (ov_seen ov2) \<subseteq> insert (replay_key (packet_of C m (last_hop m) i)) (fst ` set (ov_seen ov))"
    by (auto simp: ov2 ov1(1) claim_packet_def prune_def)
  have "replay_key (packet_of C m 1 j) \<notin> set (map_keys (ov_seen ov2))" if "j < ms_chunks m" "j \<notin> insert i K" for j
  proof -
    have "replay_key (packet_of C m 1 j) \<notin> fst ` set (ov_seen ov)" using st that by (simp add: stage_def)
    moreover have "replay_key (packet_of C m 1 j) \<noteq> replay_key (packet_of C m (last_hop m) i)"
      unfolding assembly_for_packet(3) [of C m "last_hop m" i] replay_key_inj using that by simp
    ultimately show ?thesis using keys by auto
  qed
  ultimately show "stage C m (insert i K) ov'" if "insert i K \<noteq> {..<ms_chunks m}"
    using o(2) that r(2) by (simp add: stage_def)
qed

fun receive_packets ::
  "overlay_crypto \<Rightarrow> int \<Rightarrow> receive_context \<Rightarrow> string \<Rightarrow> overlay_packet list \<Rightarrow> overlay \<Rightarrow> (string + overlay_value) option list" where
  "receive_packets C now ctx previous [] ov = []"
| "receive_packets C now ctx previous (p # ps) ov =
     (case receive_packet C now ctx previous p ov of (r, ov') \<Rightarrow> r # receive_packets C now ctx previous ps ov')"

lemma stage_all:
  assumes C: "overlay_crypto_ok C" and m: "message_ok m" and t: "in_time now (ms_job m)" and ctx: "context_ok ctx m"
    and "stage C m K ov" and "distinct ks" and "set ks \<inter> K = {}" and "set ks \<union> K = {..<ms_chunks m}"
  shows "receive_packets C now ctx (ms_path m ! (last_hop m - 1)) (map (packet_of C m (last_hop m)) ks) ov =
    map (\<lambda>j. Some (Inr (Received (chunk_result m (K \<union> set (take (Suc j) ks)))))) [0..<length ks]"
  using assms(5-8)
proof (induction ks arbitrary: K ov)
  case (Cons k ks)
  obtain r ov' where res: "receive_packet C now ctx (ms_path m ! (last_hop m - 1)) (packet_of C m (last_hop m) k) ov = (r, ov')"
    by fastforce
  have k: "K \<subseteq> {..<ms_chunks m}" "k < ms_chunks m" "k \<notin> K" using Cons.prems by auto
  note s = stage_step [OF C m t ctx Cons.prems(1) k res]
  have rest: "receive_packets C now ctx (ms_path m ! (last_hop m - 1)) (map (packet_of C m (last_hop m)) ks) ov' =
      map (\<lambda>j. Some (Inr (Received (chunk_result m (insert k K \<union> set (take (Suc j) ks)))))) [0..<length ks]"
  proof (cases ks)
    case (Cons k' ks')
    then have "k' \<in> {..<ms_chunks m}" "k' \<notin> insert k K" using Cons.prems by auto
    then have "insert k K \<noteq> {..<ms_chunks m}" by metis
    moreover have "distinct ks" "set ks \<inter> insert k K = {}" "set ks \<union> insert k K = {..<ms_chunks m}" using Cons.prems by auto
    ultimately show ?thesis by (intro Cons.IH s(2))
  qed simp
  have eq: "map (\<lambda>j. Some (Inr (Received (chunk_result m (K \<union> set (take (Suc j) (k # ks))))))) [0..<length (k # ks)] =
      Some (Inr (Received (chunk_result m (insert k K)))) #
      map (\<lambda>j. Some (Inr (Received (chunk_result m (insert k K \<union> set (take (Suc j) ks)))))) [0..<length ks]"
    by (simp add: upt_conv_Cons map_Suc_upt [symmetric] del: upt_Suc)
  show ?case unfolding eq using s(1) rest res by simp
qed simp

subsection \<open>The sender\<close>

lemma send_loop:
  assumes "i < ms_chunks m" and "current (sj_destination (ms_job m)) ov = sj_current (ms_job m)" and "ov_ownPeerId ov = ms_origin m"
    and "length rs = 2 * (ms_chunks m - i)" and "\<And>j. i < j \<Longrightarrow> j < ms_chunks m \<Longrightarrow> ms_nonce m j = snd (rs ! (2 * (j - i) - 1))"
  shows "fst (settle C rs (seal_chunk C (ms_job m) (ms_key m) (ms_origin m) (ms_packetId m) (map (packet_of C m 1) [0..<i]) i (ms_nonce m i), ov)) =
    Some (Inr (Sent (map (packet_of C m 1) [0..<ms_chunks m])))"
  using assms
proof (induction "ms_chunks m - i" arbitrary: i rs)
  case (Suc n)
  obtain r1 r2 rs' where rs: "rs = r1 # r2 # rs'" "length rs' = 2 * (ms_chunks m - Suc i)"
    using Suc.prems(1,4) by (cases rs; cases "tl rs") auto
  let ?h = "chunk_header (ms_job m) (ms_origin m) (ms_packetId m) i (ms_nonce m i)"
  have "?h\<lparr>pk_ciphertext := base64url_encode (sealed C m i), pk_digest := base64url_encode (oc_sha256 C (sealed C m i))\<rparr> = packet_of C m 1 i"
    "oc_encrypt C (ms_key m) (ms_nonce m i) (aad ?h) (chunk_of i (sj_data (ms_job m))) = sealed C m i"
    by (simp_all add: packet_of_def chunk_header_def sealed_def)
  moreover have "pk_chunkIndex ?h = i" "pk_chunkCount ?h = ms_chunks m" "pk_packetId ?h = ms_packetId m" by (simp_all add: chunk_header_def)
  ultimately have step: "settle C rs (seal_chunk C (ms_job m) (ms_key m) (ms_origin m) (ms_packetId m) (map (packet_of C m 1) [0..<i]) i (ms_nonce m i), ov) =
      settle C rs' (send_digested C (snd r2) (ms_job m) (ms_key m) (map (packet_of C m 1) [0..<i])
        (?h\<lparr>pk_ciphertext := base64url_encode (sealed C m i)\<rparr>) (base64url_encode (oc_sha256 C (sealed C m i))) ov)"
    using Suc.prems(2) by (simp add: rs seal_chunk_def Let_def send_sealed_def)
  show ?case
  proof (cases "Suc i < ms_chunks m")
    case True
    have nonce: "ms_nonce m (Suc i) = snd r2" using Suc.prems(5) [of "Suc i"] True rs by simp
    have "ms_nonce m j = snd (rs' ! (2 * (j - Suc i) - 1))" if "Suc i < j" "j < ms_chunks m" for j
    proof -
      have "2 * (j - i) - 1 = Suc (Suc (2 * (j - Suc i) - 1))" using that by simp
      then show ?thesis using Suc.prems(5) [of j] that rs(1) by simp
    qed
    with Suc.hyps(1) [of "Suc i" rs'] True Suc.hyps(2) Suc.prems(2,3) rs(2)
    show ?thesis unfolding step using Suc.prems(2,3) True
      by (simp add: send_digested_def Let_def chunk_header_def packet_of_def nonce)
  next
    case False
    then have n: "Suc i = ms_chunks m" using Suc.prems(1) by simp
    then have "[0..<ms_chunks m] = [0..<i] @ [i]" by (metis upt_Suc_append zero_le)
    then show ?thesis unfolding step using Suc.prems(2) n
      by (simp add: send_digested_def Let_def chunk_header_def packet_of_def)
  qed
qed simp

definition random_ok :: "bytes \<times> bytes \<Rightarrow> bool" where
  "random_ok r \<longleftrightarrow> byte_seq (fst r) \<and> length (fst r) = 18 \<and> byte_seq (snd r) \<and> length (snd r) = 12"

definition sent_message :: "string \<Rightarrow> bytes \<Rightarrow> route_context \<Rightarrow> int \<Rightarrow> bytes \<Rightarrow> (bytes \<times> bytes) list \<Rightarrow> overlay \<Rightarrow> overlay_message" where
  "sent_message destination data route now key rs ov =
     \<lparr>ms_job = \<lparr>sj_destination = destination, sj_data = data, sj_route = route, sj_now = now, sj_current = current destination ov\<rparr>,
      ms_origin = ov_ownPeerId ov, ms_packetId = base64url_encode (fst (rs ! 1)), ms_nonce = (\<lambda>i. snd (rs ! (2 * i + 1))), ms_key = key\<rparr>"

lemma send_settles:
  assumes own: "send_route_ok (ov_ownPeerId ov) destination route" and data: "length data \<le> MAX_CHUNK_BYTES * MAX_PACKET_CHUNKS"
    and key: "shares_key C ov destination key" and rs: "length rs = 2 + 2 * chunk_count data"
  shows "fst (settle C rs (send_begin destination data route now ov)) =
    Some (Inr (Sent (map (packet_of C (sent_message destination data route now key rs ov) 1) [0..<chunk_count data])))"
proof -
  define m where "m = sent_message destination data route now key rs ov"
  have job: "ms_job m = \<lparr>sj_destination = destination, sj_data = data, sj_route = route, sj_now = now, sj_current = current destination ov\<rparr>"
    and fields: "ms_origin m = ov_ownPeerId ov" "ms_packetId m = base64url_encode (fst (rs ! 1))" "ms_key m = key"
    "\<And>i. ms_nonce m i = snd (rs ! (2 * i + 1))"
    by (simp_all add: m_def sent_message_def)
  obtain r0 r1 rest where r: "rs = r0 # r1 # rest" "length rest = 2 * chunk_count data"
    using rs by (cases rs; cases "tl rs") auto
  have "\<not> (rc_path route = [] \<or> hd (rc_path route) \<noteq> ov_ownPeerId ov \<or> last (rc_path route) \<noteq> destination)"
    using own by (auto simp: send_route_ok_def)
  then have beg: "send_begin destination data route now ov = (Waiting (Send_Deriving (ms_job m) (derive_begin destination ov)), ov)"
    using data by (simp add: send_begin_def job)
  obtain dk where d: "derive_finish C (derive_begin destination ov) ov = (Inr key, ov\<lparr>ov_derivedKeys := dk\<rparr>)"
    by (rule derive_settles [OF key])
  let ?ov = "ov\<lparr>ov_derivedKeys := dk\<rparr>"
  have cur: "current destination ?ov = current destination ov" by (simp add: current_def)
  have "settle C rs (send_begin destination data route now ov) =
      settle C rest (seal_chunk C (ms_job m) (ms_key m) (ms_origin m) (ms_packetId m) (map (packet_of C m 1) [0..<0]) 0 (ms_nonce m 0), ?ov)"
    unfolding beg by (simp add: r(1) send_derived_def d send_keyed_def cur fields) (simp add: job cur)
  moreover have "fst \<dots> = Some (Inr (Sent (map (packet_of C m 1) [0..<ms_chunks m])))"
  proof (rule send_loop)
    show "0 < ms_chunks m" by (rule chunk_count_pos)
    show "current (sj_destination (ms_job m)) ?ov = sj_current (ms_job m)" by (simp add: job cur)
    show "ov_ownPeerId ?ov = ms_origin m" by (simp add: fields)
    show "length rest = 2 * (ms_chunks m - 0)" using r(2) by (simp add: job)
    show "ms_nonce m j = snd (rest ! (2 * (j - 0) - 1))" if "0 < j" for j
      using that by (cases j) (simp_all add: fields r(1))
  qed
  ultimately show ?thesis by (simp add: m_def [symmetric] job)
qed

subsection \<open>From end to end\<close>

definition expects :: "overlay_packet list \<Rightarrow> overlay \<Rightarrow> bool" where
  "expects packets ov \<longleftrightarrow> (\<forall>p \<in> set packets. replay_key p \<notin> set (map_keys (ov_seen ov))
     \<and> assembly_key p \<notin> set (map_keys (ov_assemblies ov)))"

lemma stage_start:
  assumes "ov_ownPeerId ov = sj_destination (ms_job m)" and "shares_key C ov (ms_origin m) (ms_key m)"
    and "expects (map (packet_of C m 1) [0..<ms_chunks m]) ov"
  shows "stage C m {} ov"
proof -
  have "packet_of C m 1 0 \<in> set (map (packet_of C m 1) [0..<ms_chunks m])" using chunk_count_pos by auto
  then have "map_of (ov_assemblies ov) (assembly_key (packet_of C m 1 0)) = None"
    using assms(3) unfolding expects_def map_of_None_keys by blast
  then have "assembled C m {} (assembly_for (packet_of C m 1 0) ov)" by (simp add: assembly_for_def assembled_def)
  with assms show ?thesis by (auto simp: stage_def receiver_ok_def expects_def)
qed

lemma sent_message_ok:
  assumes "send_route_ok (ov_ownPeerId ov) destination route" "0 \<le> now" "now + MAX_TTL_MS \<le> MAX_SAFE_INTEGER"
    and "byte_seq data" "length data \<le> MAX_CHUNK_BYTES * MAX_PACKET_CHUNKS"
    and "length rs = 2 + 2 * chunk_count data" "list_all random_ok rs"
  shows "message_ok (sent_message destination data route now key rs ov)"
proof -
  have rnd: "random_ok (rs ! j)" if "j < length rs" for j using assms(7) that by (simp add: list_all_length)
  have "TOKEN (base64url_encode (fst (rs ! 1)))" using rnd [of 1] assms(6) by (simp add: random_ok_def TOKEN_base64url)
  moreover have "byte_seq (snd (rs ! (2 * i + 1))) \<and> length (snd (rs ! (2 * i + 1))) = 12" if "i < chunk_count data" for i
    using rnd [of "2 * i + 1"] that assms(6) unfolding random_ok_def by simp
  ultimately show ?thesis using assms(1-5) by (simp add: message_ok_def sent_message_def)
qed

lemma chunk_result_take:
  assumes "distinct ks" and "set ks = {..<ms_chunks m}" and "j < ms_chunks m"
  shows "chunk_result m (set (take (Suc j) ks)) =
    (if Suc j = ms_chunks m
     then Packet_Delivered (ms_packetId m) (ms_origin m) (rc_trafficClass (sj_route (ms_job m))) (sj_data (ms_job m))
     else Packet_Pending (ms_packetId m) (ms_origin m) (filter (\<lambda>k. k \<notin> set (take (Suc j) ks)) [0..<ms_chunks m]))"
proof -
  have len: "length ks = ms_chunks m" using assms(1,2) by (metis card_lessThan distinct_card)
  have "card (set (take (Suc j) ks)) = Suc j" using assms(1,3) len by (simp add: distinct_card)
  then have "set (take (Suc j) ks) = {..<ms_chunks m} \<longleftrightarrow> Suc j = ms_chunks m"
    using assms(2) len by (metis card_lessThan order_refl take_all)
  then show ?thesis by (simp add: chunk_result_def)
qed

lemma sent_received:
  assumes C: "overlay_crypto_ok C" and m: "message_ok m" and t: "in_time now (ms_job m)" and ctx: "context_ok ctx m"
    and rx: "ov_ownPeerId ov = sj_destination (ms_job m)" "shares_key C ov (ms_origin m) (ms_key m)"
      "expects (map (packet_of C m 1) [0..<ms_chunks m]) ov"
    and ks: "distinct ks" "set ks = {..<ms_chunks m}"
  shows "receive_packets C now ctx (ms_path m ! (last_hop m - 1)) (map (packet_of C m (last_hop m)) ks) ov =
    map (\<lambda>j. Some (Inr (Received (if Suc j = ms_chunks m
       then Packet_Delivered (ms_packetId m) (ms_origin m) (rc_trafficClass (sj_route (ms_job m))) (sj_data (ms_job m))
       else Packet_Pending (ms_packetId m) (ms_origin m) (filter (\<lambda>k. k \<notin> set (take (Suc j) ks)) [0..<ms_chunks m])))))
      [0..<ms_chunks m]"
proof -
  have len: "length ks = ms_chunks m" using ks by (metis card_lessThan distinct_card)
  have "receive_packets C now ctx (ms_path m ! (last_hop m - 1)) (map (packet_of C m (last_hop m)) ks) ov =
      map (\<lambda>j. Some (Inr (Received (chunk_result m ({} \<union> set (take (Suc j) ks)))))) [0..<ms_chunks m]"
    unfolding len [symmetric] by (rule stage_all [OF C m t ctx stage_start [OF rx] ks(1)]) (simp_all add: ks(2))
  also have "\<dots> = map (\<lambda>j. Some (Inr (Received (if Suc j = ms_chunks m
       then Packet_Delivered (ms_packetId m) (ms_origin m) (rc_trafficClass (sj_route (ms_job m))) (sj_data (ms_job m))
       else Packet_Pending (ms_packetId m) (ms_origin m) (filter (\<lambda>k. k \<notin> set (take (Suc j) ks)) [0..<ms_chunks m])))))
      [0..<ms_chunks m]"
    unfolding Un_empty_left by (rule map_cong [OF refl]) (simp only: set_upt atLeastLessThan_iff chunk_result_take [OF ks])
  finally show ?thesis .
qed

text \<open>C9. A message arrives whole. A sender that shares a key with the destination and sends up to 96 chunks of
  data along a valid path gets one packet per chunk. Every relay on the path that has not seen a packet
  forwards it to the next peer with the hop advanced. The destination, which shares the same key and knows
  nothing of the message yet, reports after each packet which chunks are missing, in whatever order they
  arrive, and delivers exactly the data with the last one.\<close>

theorem overlay_message_delivered:
  assumes C: "overlay_crypto_ok C" and route: "send_route_ok (ov_ownPeerId sender) destination route"
    and sent: "0 \<le> now" "now + MAX_TTL_MS \<le> MAX_SAFE_INTEGER" and time: "now \<le> now' + 5000" "now' < now + MAX_TTL_MS"
    and data: "byte_seq data" "length data \<le> MAX_CHUNK_BYTES * MAX_PACKET_CHUNKS"
    and key: "shares_key C sender destination key"
    and rs: "length rs = 2 + 2 * chunk_count data" "list_all random_ok rs"
    and ctx: "rx_membershipEpoch ctx = rc_membershipEpoch route" "rx_routeEpoch ctx = rc_routeEpoch route"
      "set (rc_path route) \<subseteq> set (rx_memberPeerIds ctx)"
  shows "\<exists>packets. fst (settle C rs (send_begin destination data route now sender)) = Some (Inr (Sent packets))
    \<and> length packets = chunk_count data
    \<and> (\<forall>relay hop i. 1 \<le> hop \<and> hop + 1 < length (rc_path route) \<and> i < length packets
        \<and> ov_ownPeerId relay = rc_path route ! hop \<and> replay_key (packets ! i) \<notin> set (map_keys (ov_seen relay)) \<longrightarrow>
        fst (receive_packet C now' ctx (rc_path route ! (hop - 1)) ((packets ! i)\<lparr>pk_hop := hop\<rparr>) relay) =
          Some (Inr (Received (Packet_Forward (rc_path route ! (hop + 1)) ((packets ! i)\<lparr>pk_hop := hop + 1\<rparr>)))))
    \<and> (\<forall>receiver ks. ov_ownPeerId receiver = destination \<and> shares_key C receiver (ov_ownPeerId sender) key
        \<and> expects packets receiver \<and> distinct ks \<and> set ks = {..<length packets} \<longrightarrow>
        receive_packets C now' ctx (rc_path route ! (length (rc_path route) - 2))
          (map (\<lambda>k. (packets ! k)\<lparr>pk_hop := length (rc_path route) - 1\<rparr>) ks) receiver =
        map (\<lambda>j. Some (Inr (Received (if Suc j = length packets
            then Packet_Delivered (pk_packetId (packets ! 0)) (ov_ownPeerId sender) (rc_trafficClass route) data
            else Packet_Pending (pk_packetId (packets ! 0)) (ov_ownPeerId sender)
                   (filter (\<lambda>k. k \<notin> set (take (Suc j) ks)) [0..<length packets]))))) [0..<length packets])"
proof -
  define m where "m = sent_message destination data route now key rs sender"
  define packets where "packets = map (packet_of C m 1) [0..<chunk_count data]"
  have job: "sj_destination (ms_job m) = destination" "sj_data (ms_job m) = data" "sj_route (ms_job m) = route" "sj_now (ms_job m) = now"
    and fields: "ms_origin m = ov_ownPeerId sender" "ms_key m = key"
    by (simp_all add: m_def sent_message_def)
  have m: "message_ok m" unfolding m_def by (rule sent_message_ok [OF route sent data rs])
  have t: "in_time now' (ms_job m)" and cx: "context_ok ctx m" using time ctx by (simp_all add: in_time_def context_ok_def job)
  have n: "length packets = chunk_count data" and nth: "\<And>i. i < chunk_count data \<Longrightarrow> packets ! i = packet_of C m 1 i"
    by (simp_all add: packets_def)
  have zero: "packets ! 0 = packet_of C m 1 0" using chunk_count_pos by (rule nth)
  have "fst (settle C rs (send_begin destination data route now sender)) = Some (Inr (Sent packets))"
    unfolding packets_def m_def by (rule send_settles [OF route data(2) key rs(1)])
  moreover have "fst (receive_packet C now' ctx (rc_path route ! (hop - 1)) ((packets ! i)\<lparr>pk_hop := hop\<rparr>) relay) =
        Some (Inr (Received (Packet_Forward (rc_path route ! (hop + 1)) ((packets ! i)\<lparr>pk_hop := hop + 1\<rparr>))))"
    if "1 \<le> hop \<and> hop + 1 < length (rc_path route) \<and> i < length packets
        \<and> ov_ownPeerId relay = rc_path route ! hop \<and> replay_key (packets ! i) \<notin> set (map_keys (ov_seen relay))" for relay hop i
    using relay_forwards [OF C m t cx, of i hop relay] that nth [of i] n
    by (simp add: job assembly_for_packet(3) [of C m hop i])
  moreover have "receive_packets C now' ctx (rc_path route ! (length (rc_path route) - 2))
          (map (\<lambda>k. (packets ! k)\<lparr>pk_hop := length (rc_path route) - 1\<rparr>) ks) receiver =
        map (\<lambda>j. Some (Inr (Received (if Suc j = length packets
            then Packet_Delivered (pk_packetId (packets ! 0)) (ov_ownPeerId sender) (rc_trafficClass route) data
            else Packet_Pending (pk_packetId (packets ! 0)) (ov_ownPeerId sender)
                   (filter (\<lambda>k. k \<notin> set (take (Suc j) ks)) [0..<length packets]))))) [0..<length packets]"
    if "ov_ownPeerId receiver = destination \<and> shares_key C receiver (ov_ownPeerId sender) key
        \<and> expects packets receiver \<and> distinct ks \<and> set ks = {..<length packets}" for receiver ks
  proof -
    have "map (\<lambda>k. (packets ! k)\<lparr>pk_hop := length (rc_path route) - 1\<rparr>) ks = map (packet_of C m (last_hop m)) ks"
      using that nth by (intro map_cong) (auto simp: job n)
    moreover have "length (rc_path route) - 2 = last_hop m - 1" by (simp add: job)
    moreover note sent_received [OF C m t cx, of receiver ks]
    ultimately show ?thesis using that unfolding zero n packet_of_fields job fields packets_def [symmetric] by metis
  qed
  ultimately show ?thesis using n by blast
qed

text \<open>Two peers of a room under the cipher without secrecy.\<close>

definition paired_overlay :: "char \<Rightarrow> char \<Rightarrow> overlay" where
  "paired_overlay own other = new_overlay\<lparr>ov_fresh := 5, ov_lifetime := 1, ov_ownPeerId := replicate 16 own,
     ov_keyPair := Some \<lparr>ko_id = 2, ko_key = []\<rparr>, ov_peerImports := [(replicate 16 other, 3)],
     ov_peerKeys := [(replicate 16 other, \<lparr>ko_id = 4, ko_key = []\<rparr>)]\<rparr>"

definition pair_route :: route_context where
  "pair_route = \<lparr>rc_membershipEpoch = 1, rc_routeEpoch = 1, rc_trafficClass = Event,
     rc_path = [replicate 16 CHR ''a'', replicate 16 CHR ''b'']\<rparr>"

definition pair_context :: receive_context where
  "pair_context = \<lparr>rx_membershipEpoch = 1, rx_routeEpoch = 1, rx_memberPeerIds = rc_path pair_route\<rparr>"

lemma plain_overlay_crypto_ok: "overlay_crypto_ok plain_overlay_crypto"
  by (auto simp: overlay_crypto_ok_def plain_overlay_crypto_def)

lemma paired_shares_key: "shares_key plain_overlay_crypto (paired_overlay own other) (replicate 16 other) []"
  by (simp add: shares_key_def keyed_def paired_overlay_def plain_overlay_crypto_def new_overlay_def)

lemma pair_route_ok: "send_route_ok (ov_ownPeerId (paired_overlay CHR ''a'' CHR ''b'')) (replicate 16 CHR ''b'') pair_route"
  by (simp add: send_route_ok_def paired_overlay_def pair_route_def MAX_PATH_def PEER_ID_replicate lower_hex_def MAX_SAFE_INTEGER_def)

lemma pair_delivers:
  "\<exists>packet packetId. receive_packets plain_overlay_crypto 2000 pair_context (replicate 16 CHR ''a'') [packet] (paired_overlay CHR ''b'' CHR ''a'') =
     [Some (Inr (Received (Packet_Delivered packetId (replicate 16 CHR ''a'') Event [1, 2, 3])))]"
proof -
  let ?C = plain_overlay_crypto and ?b = "paired_overlay CHR ''b'' CHR ''a''"
  let ?rs = "replicate 4 (replicate 18 7, replicate 12 9) :: (bytes \<times> bytes) list"
  define m where "m = sent_message (replicate 16 CHR ''b'') [1, 2, 3] pair_route 1000 [] ?rs (paired_overlay CHR ''a'' CHR ''b'')"
  have one: "chunk_count [1, 2, 3] = 1" unfolding chunk_count_def MAX_CHUNK_BYTES_def by simp
  have fields: "sj_destination (ms_job m) = replicate 16 CHR ''b''" "sj_data (ms_job m) = [1, 2, 3]" "sj_route (ms_job m) = pair_route"
    "sj_now (ms_job m) = 1000" "ms_origin m = replicate 16 CHR ''a''" "ms_key m = []"
    by (simp_all add: m_def sent_message_def paired_overlay_def)
  have m: "message_ok m"
    unfolding m_def by (rule sent_message_ok [OF pair_route_ok])
      (simp_all add: one [unfolded One_nat_def] MAX_TTL_MS_def MAX_SAFE_INTEGER_def MAX_CHUNK_BYTES_def MAX_PACKET_CHUNKS_def list_all_iff random_ok_def)
  have "in_time 2000 (ms_job m)" "context_ok pair_context m"
    by (simp_all add: in_time_def context_ok_def fields MAX_TTL_MS_def pair_context_def pair_route_def)
  note sent_received [OF plain_overlay_crypto_ok m this, of ?b "[0]", unfolded fields one]
  moreover have "rc_path pair_route = [replicate 16 CHR ''a'', replicate 16 CHR ''b'']" "rc_trafficClass pair_route = Event"
    by (simp_all add: pair_route_def)
  moreover have "ov_ownPeerId ?b = replicate 16 CHR ''b''" "expects ps ?b" for ps
    by (simp_all add: paired_overlay_def expects_def new_overlay_def)
  ultimately show ?thesis using paired_shares_key [of "CHR ''b''" "CHR ''a''"] by (auto simp del: receive_packets.simps)
qed

theorem overlay_message_delivered_witness:
  "\<exists>packets. fst (settle plain_overlay_crypto (replicate 4 (replicate 18 7, replicate 12 9))
        (send_begin (replicate 16 CHR ''b'') [1, 2, 3] pair_route 1000 (paired_overlay CHR ''a'' CHR ''b''))) = Some (Inr (Sent packets))
    \<and> receive_packets plain_overlay_crypto 2000 pair_context (replicate 16 CHR ''a'') (map (\<lambda>p. p\<lparr>pk_hop := 1\<rparr>) packets) (paired_overlay CHR ''b'' CHR ''a'') =
      [Some (Inr (Received (Packet_Delivered (pk_packetId (packets ! 0)) (replicate 16 CHR ''a'') Event [1, 2, 3])))]"
proof -
  let ?a = "paired_overlay CHR ''a'' CHR ''b''" and ?b = "paired_overlay CHR ''b'' CHR ''a''" and ?C = plain_overlay_crypto
  let ?rs = "replicate 4 (replicate 18 7, replicate 12 9) :: (bytes \<times> bytes) list"
  have one: "chunk_count [1, 2, 3] = 1" unfolding chunk_count_def MAX_CHUNK_BYTES_def by simp
  have path: "rc_path pair_route = [replicate 16 CHR ''a'', replicate 16 CHR ''b'']" by (simp add: pair_route_def)
  have own: "ov_ownPeerId ?a = replicate 16 CHR ''a''" "ov_ownPeerId ?b = replicate 16 CHR ''b''" by (simp_all add: paired_overlay_def)
  have empty: "expects ps ?b" for ps by (simp add: expects_def paired_overlay_def new_overlay_def)
  have "list_all random_ok ?rs" "length ?rs = 2 + 2 * 1" by (simp_all add: list_all_iff random_ok_def)
  then obtain packets where p: "fst (settle ?C ?rs (send_begin (replicate 16 CHR ''b'') [1, 2, 3] pair_route 1000 ?a)) = Some (Inr (Sent packets))"
      "length packets = 1"
      "\<And>receiver ks. ov_ownPeerId receiver = replicate 16 CHR ''b'' \<and> shares_key ?C receiver (ov_ownPeerId ?a) []
        \<and> expects packets receiver \<and> distinct ks \<and> set ks = {..<length packets} \<Longrightarrow>
        receive_packets ?C 2000 pair_context (rc_path pair_route ! (length (rc_path pair_route) - 2))
          (map (\<lambda>k. (packets ! k)\<lparr>pk_hop := length (rc_path pair_route) - 1\<rparr>) ks) receiver =
        map (\<lambda>j. Some (Inr (Received (if Suc j = length packets
            then Packet_Delivered (pk_packetId (packets ! 0)) (ov_ownPeerId ?a) (rc_trafficClass pair_route) [1, 2, 3]
            else Packet_Pending (pk_packetId (packets ! 0)) (ov_ownPeerId ?a)
                   (filter (\<lambda>k. k \<notin> set (take (Suc j) ks)) [0..<length packets]))))) [0..<length packets]"
    using overlay_message_delivered [OF plain_overlay_crypto_ok pair_route_ok, of 1000 2000 "[1, 2, 3]" "[]" ?rs pair_context, unfolded one]
      paired_shares_key [of "CHR ''a''" "CHR ''b''"]
    by (auto simp: MAX_TTL_MS_def MAX_SAFE_INTEGER_def MAX_CHUNK_BYTES_def MAX_PACKET_CHUNKS_def pair_context_def pair_route_def)
  have ready: "ov_ownPeerId ?b = replicate 16 CHR ''b'' \<and> shares_key ?C ?b (ov_ownPeerId ?a) [] \<and> expects packets ?b
      \<and> distinct [0::nat] \<and> set [0] = {..<length packets}"
    using paired_shares_key [of "CHR ''b''" "CHR ''a''"] own empty p(2) by auto
  note p(3) [OF ready]
  moreover have "map (\<lambda>k. (packets ! k)\<lparr>pk_hop := length (rc_path pair_route) - 1\<rparr>) [0] = map (\<lambda>p. p\<lparr>pk_hop := 1\<rparr>) packets"
    using p(2) by (cases packets) (simp_all add: path)
  ultimately show ?thesis using p(1,2) by (auto simp: path own pair_route_def)
qed

subsection \<open>A run that delivers\<close>

text \<open>An uninterrupted call is a run of the system in which it is the only one.\<close>

lemma settle_run:
  assumes "settle C rs (Waiting c, ov) = (Some r, ov')" and "sy_overlay s = ov" and "calls_of s = [c]"
  shows "\<exists>n < length rs. let s' = overlay_run C s (map (Continue 0) (take n rs)) in
    \<exists>c'. calls_of s' = [c'] \<and> overlay_resume C (rs ! n) c' (sy_overlay s') = (Settled r, ov')"
  using assms
proof (induction rs arbitrary: c ov s)
  case (Cons x rs)
  obtain pr ov1 where res: "overlay_resume C x c ov = (pr, ov1)" by fastforce
  show ?case
  proof (cases pr)
    case (Settled r')
    then have "r' = r" "ov1 = ov'" using Cons.prems(1) res by simp_all
    then show ?thesis using Settled res Cons.prems(2,3) by (intro exI [of _ 0]) simp
  next
    case (Waiting c1)
    let ?s = "overlay_step C s (Continue 0 x)"
    obtain t where "sy_calls s = [(t, c)]" using Cons.prems(3) by auto
    then have "sy_overlay ?s = ov1" "calls_of ?s = [c1]" using Waiting res Cons.prems(2) by simp_all
    moreover have "settle C rs (Waiting c1, ov1) = (Some r, ov')" using Cons.prems(1) res Waiting by simp
    ultimately obtain n where "n < length rs" "let s' = overlay_run C ?s (map (Continue 0) (take n rs)) in
        \<exists>c'. calls_of s' = [c'] \<and> overlay_resume C (rs ! n) c' (sy_overlay s') = (Settled r, ov')"
      using Cons.IH [of c1 ov1 ?s] by blast
    then show ?thesis by (intro exI [of _ "Suc n"]) simp
  qed
qed simp

definition pair_events :: "overlay_event list" where
  "pair_events = [Initialize_Call (replicate 16 CHR ''b''), Continue 0 ([], []), Continue 0 ([], []),
     Set_Key_Call (replicate 16 CHR ''a'') [(''kty'', JStr ''EC''), (''crv'', JStr ''P-256''), (''x'', JStr ''x''), (''y'', JStr ''y'')],
     Continue 0 ([], [])]"

lemma pair_events_state:
  "sy_overlay (overlay_run plain_overlay_crypto (overlay_start 0) pair_events) = paired_overlay CHR ''b'' CHR ''a''"
  "sy_calls (overlay_run plain_overlay_crypto (overlay_start 0) pair_events) = []"
  by (simp_all add: pair_events_def overlay_start_def new_overlay_def initialize_begin_def PEER_ID_replicate lower_hex_def
      overlay_destroy_def Let_def initialize_generated_def initialize_exported_def setPeerKey_begin_def js_simps removePeer_def
      setPeerKey_imported_def plain_overlay_crypto_def paired_overlay_def)

theorem overlay_delivers_authentic_witness:
  "\<exists>events s i rnd packetId ov'. s = overlay_run plain_overlay_crypto (overlay_start 0) events \<and> i < length (sy_calls s)
    \<and> overlay_resume plain_overlay_crypto rnd (snd (sy_calls s ! i)) (sy_overlay s) =
        (Settled (Inr (Received (Packet_Delivered packetId (replicate 16 CHR ''a'') Event [1, 2, 3]))), ov')
    \<and> (\<exists>keyPair peerKey. ov_keyPair (sy_overlay s) = Some keyPair \<and>
        map_of (ov_peerKeys (sy_overlay s)) (replicate 16 CHR ''a'') = Some peerKey)"
proof -
  let ?C = plain_overlay_crypto and ?ov = "paired_overlay CHR ''b'' CHR ''a''"
  obtain packet packetId where "receive_packets ?C 2000 pair_context (replicate 16 CHR ''a'') [packet] ?ov =
      [Some (Inr (Received (Packet_Delivered packetId (replicate 16 CHR ''a'') Event [1, 2, 3])))]"
    using pair_delivers by blast
  then obtain ov' where set: "settle ?C (replicate 4 ([], [])) (receive_begin 2000 (packet_json packet) (replicate 16 CHR ''a'') pair_context ?ov) =
      (Some (Inr (Received (Packet_Delivered packetId (replicate 16 CHR ''a'') Event [1, 2, 3]))), ov')"
    by (auto simp: receive_packet_def split: prod.splits)
  obtain pr ov1 where beg: "receive_begin 2000 (packet_json packet) (replicate 16 CHR ''a'') pair_context ?ov = (pr, ov1)" by fastforce
  obtain c where c: "pr = Waiting c"
    using set beg by (cases pr) (auto simp: receive_begin_def Let_def split: option.splits sum.splits if_splits)
  let ?s = "overlay_run ?C (overlay_start 0) (pair_events @ [Receive_Call 2000 (packet_json packet) (replicate 16 CHR ''a'') pair_context])"
  have st: "sy_overlay ?s = ov1" "calls_of ?s = [c]" using pair_events_state beg c by simp_all
  obtain n c' where run: "calls_of (overlay_run ?C ?s (map (Continue 0) (take n (replicate 4 ([], []))))) = [c']"
      "overlay_resume ?C (replicate 4 ([], []) ! n) c' (sy_overlay (overlay_run ?C ?s (map (Continue 0) (take n (replicate 4 ([], [])))))) =
        (Settled (Inr (Received (Packet_Delivered packetId (replicate 16 CHR ''a'') Event [1, 2, 3]))), ov')"
    using settle_run [OF set [unfolded beg c] st] unfolding Let_def by (elim exE conjE) (rule that)
  define events where "events = (pair_events @ [Receive_Call 2000 (packet_json packet) (replicate 16 CHR ''a'') pair_context]) @
    map (Continue 0) (take n (replicate 4 ([], [])))"
  define s where "s = overlay_run ?C (overlay_start 0) events"
  have run': "calls_of s = [c']" "overlay_resume ?C (replicate 4 ([], []) ! n) c' (sy_overlay s) =
        (Settled (Inr (Received (Packet_Delivered packetId (replicate 16 CHR ''a'') Event [1, 2, 3]))), ov')"
    using run unfolding s_def events_def foldl_append by simp_all
  then have "0 < length (sy_calls s)" "snd (sy_calls s ! 0) = c'" by auto
  moreover from overlay_delivers_authentic [OF s_def this(1) run'(2) [folded this(2)]]
  have "\<exists>keyPair peerKey. ov_keyPair (sy_overlay s) = Some keyPair \<and>
      map_of (ov_peerKeys (sy_overlay s)) (replicate 16 CHR ''a'') = Some peerKey" by blast
  ultimately show ?thesis using s_def run'(2) by metis
qed

end
