(* ===== verification/Server_Moderation.thy ===== *)
theory Server_Moderation
  imports Collab_Contract
begin

text \<open>
  The server's side of moderation, \<^verbatim>\<open>src/src/room-moderation.js\<close>, and the members of one room as
  \<^verbatim>\<open>src/src/room-registry.js\<close> keeps them (\<open>join\<close>, without breakout rooms, and \<open>leave\<close>).

  A peer is an object that its socket holds on to; an operation names it by its id and its identity, a number
  drawn from a counter. The error code of a refused operation is the left side of the result; the room is
  returned in both cases, as some refusals leave a trace in it. The source reads the clock once per operation.
  The fields of a peer that moderation does not read (name, socket, publications, relay data) are left out.
\<close>

subsection \<open>Data\<close>

datatype room_mode = Room_Mode | Pair_Mode

record server_peer =
  sp_id :: string
  sp_object :: nat
  sp_principal :: string
  sp_deviceFingerprint :: string
  sp_machine :: bool
  sp_machineReceiveVersion :: int
  sp_hand :: hand_state
  sp_handRaisedAt :: int
  sp_handActions :: "int list"
  sp_removeActions :: "int list"
  sp_presenterActions :: "int list"
  sp_stopActions :: "int list"
  sp_whiteboardActions :: "int list"
  sp_diagramActions :: "int list"

record server_pending =
  sv_targetPeerId :: string
  sv_actorPeerId :: string
  sv_expiresAt :: int

record server_room =
  sr_peers :: "(string \<times> server_peer) list"
  sr_updatedAt :: int
  sr_mode :: room_mode
  sr_capacity :: nat
  sr_creatorPrincipal :: string
  sr_audit :: "audit_entry list"
  sr_auditSequence :: int
  sr_presenterPeerId :: string
  sr_pendingRemove :: "server_pending option"
  sr_whiteboardPolicy :: "draw_policy option"
  sr_diagramPolicy :: "draw_policy option"

type_synonym peer_ref = "string \<times> nat"
type_synonym room_result = "(string + unit) \<times> server_room"

definition HAND_RATE_LIMIT :: nat where "HAND_RATE_LIMIT = 6"
definition HAND_RATE_WINDOW_MS :: int where "HAND_RATE_WINDOW_MS = 10000"
definition MODERATION_AUDIT_LIMIT :: nat where "MODERATION_AUDIT_LIMIT = 256"
definition REMOVE_UNDO_MS :: int where "REMOVE_UNDO_MS = 8000"

definition HANDS :: "(string \<times> hand_state) list" where
  "HANDS = [(''none'', Hand_None), (''raised'', Hand_Raised)]"

subsection \<open>Views of a room\<close>

definition peerRole :: "server_peer \<Rightarrow> string \<Rightarrow> room_role" where
  "peerRole peer creatorPrincipal =
     (if sp_principal peer \<noteq> '''' \<and> sp_principal peer = creatorPrincipal then Owner else Participant)"

definition hand_up :: "server_peer \<Rightarrow> bool" where
  "hand_up peer \<longleftrightarrow> sp_hand peer = Hand_Raised \<and> num_safe_integer (NInt (sp_handRaisedAt peer)) \<and> 0 < sp_handRaisedAt peer"

definition moderationParticipant :: "server_peer \<Rightarrow> string \<Rightarrow> participant" where
  "moderationParticipant peer creatorPrincipal =
     \<lparr>pt_peerId = sp_id peer, pt_role = peerRole peer creatorPrincipal,
      pt_hand = (if hand_up peer then Hand_Raised else Hand_None),
      pt_raisedAt = (if hand_up peer then sp_handRaisedAt peer else 0)\<rparr>"

definition handQueue :: "server_room \<Rightarrow> string list" where
  "handQueue room =
     map sp_id (sort_key sp_handRaisedAt (sort_key sp_id (filter hand_up (map snd (sr_peers room)))))"

definition participant_json :: "participant \<Rightarrow> jsval" where
  "participant_json p = JObj
     [(''peerId'', JStr (pt_peerId p)),
      (''role'', JStr (case pt_role p of Owner \<Rightarrow> ''owner'' | Participant \<Rightarrow> ''participant'')),
      (''hand'', JStr (case pt_hand p of Hand_None \<Rightarrow> ''none'' | Hand_Raised \<Rightarrow> ''raised'')),
      (''raisedAt'', JInt (pt_raisedAt p))]"

fun audit_action_name :: "moderation_action \<Rightarrow> string" where
  "audit_action_name Hand_Raise = ''hand-raise''"
| "audit_action_name Hand_Lower = ''hand-lower''"
| "audit_action_name Hand_Clear = ''hand-clear''"
| "audit_action_name Peer_Remove = ''peer-remove''"
| "audit_action_name Peer_Remove_Cancel = ''peer-remove-cancel''"
| "audit_action_name Publication_Stop = ''publication-stop''"
| "audit_action_name Presenter_Assign = ''presenter-assign''"
| "audit_action_name Whiteboard_Policy_Set = ''whiteboard-policy-set''"
| "audit_action_name Diagram_Policy_Set = ''diagram-policy-set''"

fun audit_source_name :: "audit_source \<Rightarrow> string" where
  "audit_source_name No_Source = ''''"
| "audit_source_name (Media_Source s) = source_name s"
| "audit_source_name (Policy_Source p) = policy_name p"

definition audit_json :: "audit_entry \<Rightarrow> jsval" where
  "audit_json e = JObj
     [(''sequence'', JInt (ae_sequence e)), (''at'', JInt (ae_at e)), (''actorPeerId'', JStr (ae_actorPeerId e)),
      (''action'', JStr (audit_action_name (ae_action e))), (''targetPeerId'', JStr (ae_targetPeerId e)),
      (''source'', JStr (audit_source_name (ae_source e)))]"

definition policy_or_open :: "draw_policy option \<Rightarrow> draw_policy" where
  "policy_or_open p = (case p of None \<Rightarrow> Open_Policy | Some q \<Rightarrow> q)"

definition visible_presenter :: "server_room \<Rightarrow> string" where
  "visible_presenter room =
     (if sr_presenterPeerId room \<in> set (map_keys (sr_peers room)) then sr_presenterPeerId room else '''')"

definition visible_pending :: "server_room \<Rightarrow> pending_remove option" where
  "visible_pending room =
     (case sr_pendingRemove room of None \<Rightarrow> None
      | Some p \<Rightarrow> if sv_targetPeerId p \<in> set (map_keys (sr_peers room))
                  then Some \<lparr>pr_targetPeerId = sv_targetPeerId p, pr_expiresAt = sv_expiresAt p\<rparr> else None)"

definition room_participants :: "server_room \<Rightarrow> participant list" where
  "room_participants room =
     sort_key pt_peerId (map (\<lambda>peer. moderationParticipant peer (sr_creatorPrincipal room)) (map snd (sr_peers room)))"

definition pending_json :: "pending_remove \<Rightarrow> jsval" where
  "pending_json p = JObj [(''targetPeerId'', JStr (pr_targetPeerId p)), (''expiresAt'', JInt (pr_expiresAt p))]"

definition moderationSnapshot :: "server_room \<Rightarrow> int \<Rightarrow> bool \<Rightarrow> (string \<times> jsval) list option" where
  "moderationSnapshot room membershipEpoch audit =
     (if \<not> num_safe_integer (NInt membershipEpoch) \<or> membershipEpoch < 1 then None
      else Some
       ([(''type'', JStr ''moderation-state''), (''membershipEpoch'', JInt membershipEpoch),
         (''participants'', JArr (map participant_json (room_participants room))),
         (''queue'', JArr (map JStr (handQueue room))),
         (''presenterPeerId'', JStr (visible_presenter room)),
         (''whiteboardPolicy'', JStr (policy_name (policy_or_open (sr_whiteboardPolicy room)))),
         (''diagramPolicy'', JStr (policy_name (policy_or_open (sr_diagramPolicy room))))]
        @ (case visible_pending room of None \<Rightarrow> [] | Some p \<Rightarrow> [(''pendingRemove'', pending_json p)])
        @ (if audit then [(''audit'', JArr (map audit_json (sr_audit room)))] else [])))"

subsection \<open>Operations\<close>

definition clock_ok :: "int \<Rightarrow> bool" where
  "clock_ok now \<longleftrightarrow> num_safe_integer (NInt now) \<and> 0 \<le> now"

fun valid_source :: "moderation_action \<Rightarrow> audit_source \<Rightarrow> bool" where
  "valid_source Publication_Stop s = (case s of Media_Source _ \<Rightarrow> True | _ \<Rightarrow> False)"
| "valid_source Whiteboard_Policy_Set s = (case s of Policy_Source _ \<Rightarrow> True | _ \<Rightarrow> False)"
| "valid_source Diagram_Policy_Set s = (case s of Policy_Source _ \<Rightarrow> True | _ \<Rightarrow> False)"
| "valid_source _ s = (s = No_Source)"

definition recordAudit ::
  "string \<Rightarrow> moderation_action \<Rightarrow> string \<Rightarrow> audit_source \<Rightarrow> int \<Rightarrow> server_room \<Rightarrow> room_result" where
  "recordAudit actorPeerId action targetPeerId source now room =
     (if \<not> clock_ok now then (Inl ''invalid_moderation_audit'', room)
      else if \<not> PEER_ID actorPeerId \<or> \<not> PEER_ID targetPeerId \<or> \<not> valid_source action source
      then (Inl ''invalid_moderation_audit'', room)
      else
        let sq = sr_auditSequence room + 1;
            audit = sr_audit room @ [\<lparr>ae_sequence = sq, ae_at = now, ae_actorPeerId = actorPeerId,
              ae_action = action, ae_targetPeerId = targetPeerId, ae_source = source\<rparr>]
        in (Inr (), room\<lparr>sr_auditSequence := sq, sr_audit := drop (length audit - MODERATION_AUDIT_LIMIT) audit\<rparr>))"

definition joined :: "server_room \<Rightarrow> peer_ref \<Rightarrow> server_peer option" where
  "joined room ref =
     (case map_of (sr_peers room) (fst ref) of None \<Rightarrow> None
      | Some peer \<Rightarrow> if sp_object peer = snd ref then Some peer else None)"

definition put_peer :: "server_peer \<Rightarrow> server_room \<Rightarrow> server_room" where
  "put_peer peer room = room\<lparr>sr_peers := map_set (sp_id peer) peer (sr_peers room)\<rparr>"

text \<open>The stamps of the last window, with the present one when the limit leaves room for it.\<close>

definition rate_limit :: "int \<Rightarrow> int list \<Rightarrow> int list \<times> bool" where
  "rate_limit now stamps =
     (let recent = filter (\<lambda>stamp. now - stamp < HAND_RATE_WINDOW_MS) stamps
      in if HAND_RATE_LIMIT \<le> length recent then (recent, False) else (recent @ [now], True))"

definition applyHand :: "server_room \<Rightarrow> peer_ref \<Rightarrow> string \<Rightarrow> int \<Rightarrow> room_result" where
  "applyHand room ref hand now =
     (case joined room ref of None \<Rightarrow> (Inl ''peer_not_joined'', room)
      | Some peer \<Rightarrow>
        if sr_mode room = Pair_Mode \<or> sp_machine peer then (Inl ''hand_unavailable'', room)
        else case map_of HANDS hand of None \<Rightarrow> (Inl ''invalid_hand_state'', room)
        | Some h \<Rightarrow>
          if \<not> clock_ok now then (Inl ''invalid_hand_clock'', room)
          else if sp_hand peer = h then (Inr (), room)
          else case rate_limit now (sp_handActions peer) of
            (stamps, False) \<Rightarrow> (Inl ''hand_rate_limited'', put_peer (peer\<lparr>sp_handActions := stamps\<rparr>) room)
          | (stamps, True) \<Rightarrow>
            recordAudit (sp_id peer) (if h = Hand_Raised then Hand_Raise else Hand_Lower) (sp_id peer) No_Source now
              ((put_peer (peer\<lparr>sp_handActions := stamps, sp_hand := h,
                  sp_handRaisedAt := if h = Hand_Raised then now else 0\<rparr>) room)\<lparr>sr_updatedAt := now\<rparr>))"

definition authorizeRemove :: "server_room \<Rightarrow> peer_ref \<Rightarrow> string \<Rightarrow> int \<Rightarrow> room_result" where
  "authorizeRemove room ref targetPeerId now =
     (case joined room ref of None \<Rightarrow> (Inl ''peer_not_joined'', room)
      | Some actor \<Rightarrow>
        if sr_mode room = Pair_Mode \<or> sp_machine actor then (Inl ''moderation_unavailable'', room)
        else if peerRole actor (sr_creatorPrincipal room) \<noteq> Owner then (Inl ''moderation_forbidden'', room)
        else if targetPeerId = sp_id actor then (Inl ''self_moderation_forbidden'', room)
        else if map_of (sr_peers room) targetPeerId = None then (Inl ''peer_not_joined'', room)
        else if \<not> clock_ok now then (Inl ''invalid_hand_clock'', room)
        else case rate_limit now (sp_removeActions actor) of
          (stamps, False) \<Rightarrow> (Inl ''moderation_rate_limited'', put_peer (actor\<lparr>sp_removeActions := stamps\<rparr>) room)
        | (stamps, True) \<Rightarrow>
          let room' = put_peer (actor\<lparr>sp_removeActions := stamps\<rparr>) room in
          if sr_pendingRemove room' \<noteq> None then (Inl ''moderation_pending_exists'', room')
          else recordAudit (sp_id actor) Peer_Remove targetPeerId No_Source now
            (room'\<lparr>sr_pendingRemove := Some \<lparr>sv_targetPeerId = targetPeerId, sv_actorPeerId = sp_id actor,
               sv_expiresAt = now + REMOVE_UNDO_MS\<rparr>, sr_updatedAt := now\<rparr>))"

definition cancelRemove :: "server_room \<Rightarrow> peer_ref \<Rightarrow> int \<Rightarrow> room_result" where
  "cancelRemove room ref now =
     (case joined room ref of None \<Rightarrow> (Inl ''peer_not_joined'', room)
      | Some actor \<Rightarrow>
        if peerRole actor (sr_creatorPrincipal room) \<noteq> Owner then (Inl ''moderation_forbidden'', room)
        else case sr_pendingRemove room of None \<Rightarrow> (Inl ''moderation_pending_missing'', room)
        | Some pending \<Rightarrow>
          if \<not> clock_ok now then (Inl ''invalid_hand_clock'', room)
          else recordAudit (sp_id actor) Peer_Remove_Cancel (sv_targetPeerId pending) No_Source now
            (room\<lparr>sr_pendingRemove := None, sr_updatedAt := now\<rparr>))"

definition dueRemove :: "server_room \<Rightarrow> int \<Rightarrow> string option \<times> server_room" where
  "dueRemove room now =
     (case sr_pendingRemove room of None \<Rightarrow> (None, room)
      | Some pending \<Rightarrow>
        if \<not> num_safe_integer (NInt now) \<or> now < sv_expiresAt pending then (None, room)
        else (Some (sv_targetPeerId pending), room\<lparr>sr_pendingRemove := None\<rparr>))"

definition clearPendingRemove :: "string \<Rightarrow> server_room \<Rightarrow> server_room" where
  "clearPendingRemove peerId room =
     (case sr_pendingRemove room of None \<Rightarrow> room
      | Some pending \<Rightarrow>
        if sv_targetPeerId pending = peerId \<or> sv_actorPeerId pending = peerId
        then room\<lparr>sr_pendingRemove := None\<rparr> else room)"

definition assignPresenter :: "server_room \<Rightarrow> peer_ref \<Rightarrow> string \<Rightarrow> int \<Rightarrow> room_result" where
  "assignPresenter room ref targetPeerId now =
     (case joined room ref of None \<Rightarrow> (Inl ''peer_not_joined'', room)
      | Some actor \<Rightarrow>
        if sr_mode room = Pair_Mode \<or> sp_machine actor then (Inl ''moderation_unavailable'', room)
        else if peerRole actor (sr_creatorPrincipal room) \<noteq> Owner then (Inl ''moderation_forbidden'', room)
        else case map_of (sr_peers room) targetPeerId of None \<Rightarrow> (Inl ''peer_not_joined'', room)
        | Some target \<Rightarrow>
          if sp_machine target then (Inl ''moderation_unavailable'', room)
          else if \<not> clock_ok now then (Inl ''invalid_hand_clock'', room)
          else if sr_presenterPeerId room = targetPeerId then (Inr (), room)
          else case rate_limit now (sp_presenterActions actor) of
            (stamps, False) \<Rightarrow>
              (Inl ''moderation_rate_limited'', put_peer (actor\<lparr>sp_presenterActions := stamps\<rparr>) room)
          | (stamps, True) \<Rightarrow>
            recordAudit (sp_id actor) Presenter_Assign targetPeerId No_Source now
              ((put_peer (actor\<lparr>sp_presenterActions := stamps\<rparr>) room)
                 \<lparr>sr_presenterPeerId := targetPeerId, sr_updatedAt := now\<rparr>))"

definition fallbackPresenter :: "server_room \<Rightarrow> server_room" where
  "fallbackPresenter room =
     (if (case map_of (sr_peers room) (sr_presenterPeerId room) of None \<Rightarrow> False | Some p \<Rightarrow> \<not> sp_machine p)
      then room
      else room\<lparr>sr_presenterPeerId :=
        (case find (\<lambda>peer. peerRole peer (sr_creatorPrincipal room) = Owner \<and> \<not> sp_machine peer)
                (map snd (sr_peers room)) of
           None \<Rightarrow> '''' | Some owner \<Rightarrow> sp_id owner)\<rparr>)"

definition authorizePublicationStop :: "server_room \<Rightarrow> peer_ref \<Rightarrow> string \<Rightarrow> string \<Rightarrow> int \<Rightarrow> room_result" where
  "authorizePublicationStop room ref targetPeerId source now =
     (case joined room ref of None \<Rightarrow> (Inl ''peer_not_joined'', room)
      | Some actor \<Rightarrow>
        if sr_mode room = Pair_Mode \<or> sp_machine actor then (Inl ''moderation_unavailable'', room)
        else if peerRole actor (sr_creatorPrincipal room) \<noteq> Owner then (Inl ''moderation_forbidden'', room)
        else if targetPeerId = sp_id actor then (Inl ''self_moderation_forbidden'', room)
        else if map_of (sr_peers room) targetPeerId = None then (Inl ''peer_not_joined'', room)
        else case map_of SOURCES source of None \<Rightarrow> (Inl ''invalid_publication_source'', room)
        | Some src \<Rightarrow>
          if \<not> clock_ok now then (Inl ''invalid_hand_clock'', room)
          else case rate_limit now (sp_stopActions actor) of
            (stamps, False) \<Rightarrow> (Inl ''moderation_rate_limited'', put_peer (actor\<lparr>sp_stopActions := stamps\<rparr>) room)
          | (stamps, True) \<Rightarrow>
            recordAudit (sp_id actor) Publication_Stop targetPeerId (Media_Source src) now
              ((put_peer (actor\<lparr>sp_stopActions := stamps\<rparr>) room)\<lparr>sr_updatedAt := now\<rparr>))"

definition clearHand :: "server_room \<Rightarrow> peer_ref \<Rightarrow> string \<Rightarrow> int \<Rightarrow> room_result" where
  "clearHand room ref targetPeerId now =
     (case joined room ref of None \<Rightarrow> (Inl ''peer_not_joined'', room)
      | Some actor \<Rightarrow>
        if peerRole actor (sr_creatorPrincipal room) \<noteq> Owner then (Inl ''moderation_forbidden'', room)
        else case map_of (sr_peers room) targetPeerId of None \<Rightarrow> (Inl ''peer_not_joined'', room)
        | Some target \<Rightarrow>
          if \<not> clock_ok now then (Inl ''invalid_hand_clock'', room)
          else if sp_hand target \<noteq> Hand_Raised then (Inr (), room)
          else recordAudit (sp_id actor) Hand_Clear targetPeerId No_Source now
            ((put_peer (target\<lparr>sp_hand := Hand_None, sp_handRaisedAt := 0\<rparr>) room)\<lparr>sr_updatedAt := now\<rparr>))"

definition may_set_policy :: "server_room \<Rightarrow> server_peer \<Rightarrow> bool" where
  "may_set_policy room actor \<longleftrightarrow>
     peerRole actor (sr_creatorPrincipal room) = Owner \<or> sr_presenterPeerId room = sp_id actor"

definition setWhiteboardPolicy :: "server_room \<Rightarrow> peer_ref \<Rightarrow> string \<Rightarrow> int \<Rightarrow> room_result" where
  "setWhiteboardPolicy room ref policy now =
     (case joined room ref of None \<Rightarrow> (Inl ''peer_not_joined'', room)
      | Some actor \<Rightarrow>
        if sr_mode room = Pair_Mode \<or> sp_machine actor then (Inl ''moderation_unavailable'', room)
        else if \<not> may_set_policy room actor then (Inl ''moderation_forbidden'', room)
        else case map_of POLICIES policy of None \<Rightarrow> (Inl ''invalid_whiteboard_policy'', room)
        | Some p \<Rightarrow>
          if \<not> clock_ok now then (Inl ''invalid_hand_clock'', room)
          else if sr_whiteboardPolicy room = Some p then (Inr (), room)
          else case rate_limit now (sp_whiteboardActions actor) of
            (stamps, False) \<Rightarrow>
              (Inl ''moderation_rate_limited'', put_peer (actor\<lparr>sp_whiteboardActions := stamps\<rparr>) room)
          | (stamps, True) \<Rightarrow>
            recordAudit (sp_id actor) Whiteboard_Policy_Set (sp_id actor) (Policy_Source p) now
              ((put_peer (actor\<lparr>sp_whiteboardActions := stamps\<rparr>) room)
                 \<lparr>sr_whiteboardPolicy := Some p, sr_updatedAt := now\<rparr>))"

definition setDiagramPolicy :: "server_room \<Rightarrow> peer_ref \<Rightarrow> string \<Rightarrow> int \<Rightarrow> room_result" where
  "setDiagramPolicy room ref policy now =
     (case joined room ref of None \<Rightarrow> (Inl ''peer_not_joined'', room)
      | Some actor \<Rightarrow>
        if sr_mode room = Pair_Mode \<or> sp_machine actor then (Inl ''moderation_unavailable'', room)
        else if \<not> may_set_policy room actor then (Inl ''moderation_forbidden'', room)
        else case map_of POLICIES policy of None \<Rightarrow> (Inl ''invalid_diagram_policy'', room)
        | Some p \<Rightarrow>
          if \<not> clock_ok now then (Inl ''invalid_hand_clock'', room)
          else if sr_diagramPolicy room = Some p then (Inr (), room)
          else case rate_limit now (sp_diagramActions actor) of
            (stamps, False) \<Rightarrow>
              (Inl ''moderation_rate_limited'', put_peer (actor\<lparr>sp_diagramActions := stamps\<rparr>) room)
          | (stamps, True) \<Rightarrow>
            recordAudit (sp_id actor) Diagram_Policy_Set (sp_id actor) (Policy_Source p) now
              ((put_peer (actor\<lparr>sp_diagramActions := stamps\<rparr>) room)
                 \<lparr>sr_diagramPolicy := Some p, sr_updatedAt := now\<rparr>))"

end
