(* ===== verification/Server_Room.thy ===== *)
theory Server_Room
  imports Server_Moderation
begin

text \<open>
  A room of \<^verbatim>\<open>src/src/room-registry.js\<close> over its life: members join and leave and send moderation
  messages, which \<^verbatim>\<open>src/src/protocol.js\<close> checks and \<^verbatim>\<open>src/src/server.js\<close> hands to the registry. Breakout
  rooms are not configured (the \<open>breakouts\<close> option is \<open>null\<close>, its default).
\<close>

subsection \<open>Joining and leaving\<close>

record admission =
  ad_mode :: string
  ad_breakout :: bool
  ad_machine :: bool
  ad_machineReceiveVersion :: int
  ad_creatorPrincipal :: string
  ad_principal :: string
  ad_deviceFingerprint :: string

record room_registry =
  rg_room :: "server_room option"
  rg_maxParticipants :: nat
  rg_fresh :: nat

definition or_else :: "string \<Rightarrow> string \<Rightarrow> string" where
  "or_else a b = (if a = '''' then b else a)"

definition MODES :: "(string \<times> room_mode) list" where
  "MODES = [(''room'', Room_Mode), (''pair'', Pair_Mode)]"

definition new_room :: "room_mode \<Rightarrow> nat \<Rightarrow> admission \<Rightarrow> int \<Rightarrow> server_room" where
  "new_room mode capacity admission now =
     \<lparr>sr_peers = [], sr_updatedAt = now, sr_mode = mode, sr_capacity = capacity,
      sr_creatorPrincipal = or_else (ad_creatorPrincipal admission) (or_else (ad_principal admission) ''anonymous''),
      sr_audit = [], sr_auditSequence = 0, sr_presenterPeerId = '''', sr_pendingRemove = None,
      sr_whiteboardPolicy = None, sr_diagramPolicy = None\<rparr>"

definition new_peer :: "string \<Rightarrow> nat \<Rightarrow> admission \<Rightarrow> server_peer" where
  "new_peer peerId object admission =
     \<lparr>sp_id = peerId, sp_object = object, sp_principal = or_else (ad_principal admission) ''anonymous'',
      sp_deviceFingerprint = ad_deviceFingerprint admission, sp_machine = ad_machine admission,
      sp_machineReceiveVersion = (if ad_machineReceiveVersion admission = 1 then 1 else 0),
      sp_hand = Hand_None, sp_handRaisedAt = 0, sp_handActions = [], sp_removeActions = [],
      sp_presenterActions = [], sp_stopActions = [], sp_whiteboardActions = [], sp_diagramActions = []\<rparr>"

text \<open>The loop that draws a peer id until it is new; \<open>None\<close> when the given draws do not end it.\<close>

definition draw_peer_id :: "server_room \<Rightarrow> bytes list \<Rightarrow> string option" where
  "draw_peer_id room draws = find (\<lambda>peerId. peerId \<notin> set (map_keys (sr_peers room))) (map opId draws)"

definition enter_room :: "server_room \<Rightarrow> server_peer \<Rightarrow> int \<Rightarrow> server_room" where
  "enter_room room peer now =
     (let room' = put_peer peer room in
      (if sr_presenterPeerId room' = '''' \<and> \<not> sp_machine peer \<and> peerRole peer (sr_creatorPrincipal room') = Owner
       then room'\<lparr>sr_presenterPeerId := sp_id peer\<rparr> else room')\<lparr>sr_updatedAt := now\<rparr>)"

definition machine_mismatch :: "server_room \<Rightarrow> admission \<Rightarrow> bool" where
  "machine_mismatch room admission \<longleftrightarrow>
     ad_machine admission \<and> (ad_machineReceiveVersion admission \<noteq> 1
        \<or> list_ex (\<lambda>peer. sp_machineReceiveVersion peer \<noteq> 1) (map snd (sr_peers room)))
     \<or> ad_machineReceiveVersion admission \<noteq> 1 \<and> list_ex sp_machine (map snd (sr_peers room))"

definition admit_peer :: "room_registry \<Rightarrow> server_room \<Rightarrow> room_mode \<Rightarrow> nat \<Rightarrow> admission \<Rightarrow> bytes list \<Rightarrow> int
    \<Rightarrow> ((string + peer_ref) \<times> room_registry) option" where
  "admit_peer reg room mode capacity admission draws now =
     (let refused = (\<lambda>code. Some (Inl code, reg\<lparr>rg_room := Some room\<rparr>)) in
      if sr_mode room \<noteq> mode \<or> sr_capacity room \<noteq> capacity then refused ''room_mode_mismatch''
      else if machine_mismatch room admission then refused ''machine_client_upgrade_required''
      else if mode = Pair_Mode \<and> ad_deviceFingerprint admission \<noteq> ''''
              \<and> list_ex (\<lambda>peer. sp_deviceFingerprint peer = ad_deviceFingerprint admission) (map snd (sr_peers room))
      then refused ''duplicate_pair_device''
      else if sr_capacity room \<le> length (sr_peers room) then refused ''room_full''
      else map_option (\<lambda>peerId.
        (Inr (peerId, rg_fresh reg),
         reg\<lparr>rg_room := Some (enter_room room (new_peer peerId (rg_fresh reg) admission) now),
             rg_fresh := Suc (rg_fresh reg)\<rparr>)) (draw_peer_id room draws))"

definition join_room :: "room_registry \<Rightarrow> admission \<Rightarrow> bytes list \<Rightarrow> int
    \<Rightarrow> ((string + peer_ref) \<times> room_registry) option" where
  "join_room reg admission draws now =
     (let mode = or_else (ad_mode admission) ''room'' in
      if ad_breakout admission then Some (Inl ''breakout_assignment_required'', reg)
      else case map_of MODES mode of None \<Rightarrow> Some (Inl ''invalid_room_mode'', reg)
      | Some m \<Rightarrow>
        let capacity = (if m = Pair_Mode then 2 else rg_maxParticipants reg) in
        if m = Pair_Mode \<and> ad_machine admission then Some (Inl ''machine_pair_denied'', reg)
        else if ad_machine admission \<and> ad_machineReceiveVersion admission \<noteq> 1
        then Some (Inl ''machine_client_upgrade_required'', reg)
        else admit_peer reg (case rg_room reg of None \<Rightarrow> new_room m capacity admission now | Some room \<Rightarrow> room)
               m capacity admission draws now)"

definition leave_room :: "room_registry \<Rightarrow> peer_ref \<Rightarrow> int \<Rightarrow> room_registry" where
  "leave_room reg ref now =
     (case rg_room reg of None \<Rightarrow> reg
      | Some room \<Rightarrow>
        (case joined room ref of None \<Rightarrow> reg
         | Some peer \<Rightarrow>
           let room1 = clearPendingRemove (sp_id peer) room;
               room2 = room1\<lparr>sr_peers := map_delete (sp_id peer) (sr_peers room1)\<rparr>;
               room3 = (fallbackPresenter room2)\<lparr>sr_updatedAt := now\<rparr>
           in reg\<lparr>rg_room := if sr_peers room3 = [] then None else Some room3\<rparr>))"

subsection \<open>Messages of the members\<close>

datatype moderation_request =
    Req_Hand string
  | Req_Clear jsval
  | Req_Remove jsval
  | Req_Cancel
  | Req_Presenter jsval
  | Req_Whiteboard string
  | Req_Diagram string
  | Req_Stop jsval string

definition target_field :: "(string \<times> jsval) list \<Rightarrow> string + jsval" where
  "target_field message =
     (if PEER_ID (string_or_empty (js_get message ''targetPeerId'')) then Inr (js_get message ''targetPeerId'')
      else Inl ''invalid_recipient'')"

definition policy_field :: "(string \<times> jsval) list \<Rightarrow> string \<Rightarrow> string + string" where
  "policy_field message code =
     (case js_string (js_get message ''policy'') of None \<Rightarrow> Inl code
      | Some s \<Rightarrow> if s = ''open'' \<or> s = ''presenter-only'' then Inr s else Inl code)"

fun map_request :: "('a \<Rightarrow> 'b) \<Rightarrow> string + 'a \<Rightarrow> string + 'b" where
  "map_request f (Inl e) = Inl e"
| "map_request f (Inr a) = Inr (f a)"

definition parse_publication_stop :: "(string \<times> jsval) list \<Rightarrow> string + moderation_request" where
  "parse_publication_stop message =
     (case target_field message of Inl e \<Rightarrow> Inl e
      | Inr target \<Rightarrow>
        (case js_string (js_get message ''source'') of None \<Rightarrow> Inl ''invalid_media_source''
         | Some s \<Rightarrow> if s \<in> {''microphone'', ''camera'', ''screen''} then Inr (Req_Stop target s)
                     else Inl ''invalid_media_source''))"

text \<open>The moderation messages of \<open>parseClientMessage\<close>, after \<open>parseJson\<close>; \<open>None\<close> for every other type.\<close>

definition parse_moderation_request :: "(string \<times> jsval) list \<Rightarrow> (string + moderation_request) option" where
  "parse_moderation_request message =
     (let fields = (\<lambda>allowed result. Some (if only_fields message allowed then result else Inl ''unknown_message_field''))
      in case js_string (js_get message ''type'') of None \<Rightarrow> None
      | Some t \<Rightarrow>
        if t = ''hand-raise'' then fields [''type''] (Inr (Req_Hand ''raised''))
        else if t = ''hand-lower'' then fields [''type''] (Inr (Req_Hand ''none''))
        else if t = ''hand-clear'' then
          fields [''type'', ''targetPeerId''] (map_request Req_Clear (target_field message))
        else if t = ''peer-remove'' then
          fields [''type'', ''targetPeerId''] (map_request Req_Remove (target_field message))
        else if t = ''peer-remove-cancel'' then fields [''type''] (Inr Req_Cancel)
        else if t = ''presenter-assign'' then
          fields [''type'', ''targetPeerId''] (map_request Req_Presenter (target_field message))
        else if t = ''whiteboard-policy-set'' then
          fields [''type'', ''policy''] (map_request Req_Whiteboard (policy_field message ''invalid_whiteboard_policy''))
        else if t = ''diagram-policy-set'' then
          fields [''type'', ''policy''] (map_request Req_Diagram (policy_field message ''invalid_diagram_policy''))
        else if t = ''publication-stop'' then
          fields [''type'', ''targetPeerId'', ''source''] (parse_publication_stop message)
        else None)"

text \<open>A target that is not a string names no member; neither does the empty string.\<close>

definition target_id :: "jsval \<Rightarrow> string" where
  "target_id v = (case js_string v of None \<Rightarrow> '''' | Some s \<Rightarrow> s)"

fun serve_request :: "server_room \<Rightarrow> peer_ref \<Rightarrow> moderation_request \<Rightarrow> int \<Rightarrow> room_result" where
  "serve_request room ref (Req_Hand hand) now = applyHand room ref hand now"
| "serve_request room ref (Req_Clear target) now = clearHand room ref (target_id target) now"
| "serve_request room ref (Req_Remove target) now = authorizeRemove room ref (target_id target) now"
| "serve_request room ref Req_Cancel now = cancelRemove room ref now"
| "serve_request room ref (Req_Presenter target) now = assignPresenter room ref (target_id target) now"
| "serve_request room ref (Req_Whiteboard policy) now = setWhiteboardPolicy room ref policy now"
| "serve_request room ref (Req_Diagram policy) now = setDiagramPolicy room ref policy now"
| "serve_request room ref (Req_Stop target source) now = authorizePublicationStop room ref (target_id target) source now"

subsection \<open>The life of a room\<close>

datatype room_event =
    Enter admission "bytes list"
  | Exit peer_ref
  | Request peer_ref moderation_request
  | Undo_Over

definition serve :: "room_registry \<Rightarrow> peer_ref \<Rightarrow> moderation_request \<Rightarrow> int \<Rightarrow> (string + unit) \<times> room_registry" where
  "serve reg ref request now =
     (case rg_room reg of None \<Rightarrow> (Inl ''peer_not_joined'', reg)
      | Some room \<Rightarrow> map_prod id (\<lambda>room'. reg\<lparr>rg_room := Some room'\<rparr>) (serve_request room ref request now))"

fun registry_step :: "room_registry \<Rightarrow> int \<times> room_event \<Rightarrow> room_registry" where
  "registry_step reg (now, Enter admission draws) =
     (case join_room reg admission draws now of None \<Rightarrow> reg | Some (_, reg') \<Rightarrow> reg')"
| "registry_step reg (now, Exit ref) = leave_room reg ref now"
| "registry_step reg (now, Request ref request) = snd (serve reg ref request now)"
| "registry_step reg (now, Undo_Over) =
     reg\<lparr>rg_room := map_option (\<lambda>room. snd (dueRemove room now)) (rg_room reg)\<rparr>"

definition new_registry :: "nat \<Rightarrow> room_registry" where
  "new_registry maxParticipants = \<lparr>rg_room = None, rg_maxParticipants = maxParticipants, rg_fresh = 0\<rparr>"

abbreviation registry_run :: "nat \<Rightarrow> (int \<times> room_event) list \<Rightarrow> room_registry" where
  "registry_run maxParticipants \<equiv> foldl registry_step (new_registry maxParticipants)"

end
