(* ===== verification/Server_Room_Laws.thy ===== *)
theory Server_Room_Laws
  imports Server_Room
begin

text \<open>
  Properties of a room on the server: its invariant, who may change what, the rate limits, and the agreement
  of the server with the client of \<open>Moderation\<close> in both directions: every snapshot is accepted and shows the
  room as it is, and every command the client offers is one the server grants.
\<close>

subsection \<open>The invariant\<close>

definition members_ok :: "(string \<times> server_peer) list \<Rightarrow> nat \<Rightarrow> bool" where
  "members_ok peers capacity \<longleftrightarrow>
     distinct (map_keys peers) \<and> list_all (\<lambda>(peerId, peer). sp_id peer = peerId \<and> PEER_ID peerId) peers
     \<and> length peers \<le> capacity"

definition presenter_ok :: "(string \<times> server_peer) list \<Rightarrow> string \<Rightarrow> string \<Rightarrow> bool" where
  "presenter_ok peers creator presenter \<longleftrightarrow>
     (presenter = '''' \<or> (\<exists>peer. map_of peers presenter = Some peer \<and> \<not> sp_machine peer))
     \<and> (presenter = '''' \<longrightarrow> list_all (\<lambda>(_, peer). peerRole peer creator \<noteq> Owner \<or> sp_machine peer) peers)"

definition entry_ok :: "audit_entry \<Rightarrow> bool" where
  "entry_ok e \<longleftrightarrow> clock_ok (ae_at e) \<and> PEER_ID (ae_actorPeerId e) \<and> PEER_ID (ae_targetPeerId e)
     \<and> valid_source (ae_action e) (ae_source e)"

definition audit_ok :: "audit_entry list \<Rightarrow> int \<Rightarrow> bool" where
  "audit_ok audit sq \<longleftrightarrow>
     0 \<le> sq \<and> length audit \<le> MODERATION_AUDIT_LIMIT \<and> sorted_wrt (<) (map ae_sequence audit)
     \<and> list_all (\<lambda>e. 0 < ae_sequence e \<and> ae_sequence e \<le> sq \<and> entry_ok e) audit"

definition removal_ok :: "server_pending option \<Rightarrow> bool" where
  "removal_ok pending = (case pending of None \<Rightarrow> True
     | Some p \<Rightarrow> 0 < sv_expiresAt p \<and> num_safe_integer (NInt (sv_expiresAt p)))"

definition room_ok :: "server_room \<Rightarrow> bool" where
  "room_ok room \<longleftrightarrow>
     members_ok (sr_peers room) (sr_capacity room)
     \<and> presenter_ok (sr_peers room) (sr_creatorPrincipal room) (sr_presenterPeerId room)
     \<and> audit_ok (sr_audit room) (sr_auditSequence room) \<and> removal_ok (sr_pendingRemove room)"

lemma audit_ok_drop:
  assumes "0 \<le> sq" "sorted_wrt (<) (map ae_sequence es)"
    and "list_all (\<lambda>e. 0 < ae_sequence e \<and> ae_sequence e \<le> sq \<and> entry_ok e) es"
  shows "audit_ok (drop (length es - MODERATION_AUDIT_LIMIT) es) sq"
  using assms by (auto simp: audit_ok_def sorted_wrt_drop drop_map [symmetric] list_all_iff dest: in_set_dropD)

lemma audit_ok_record:
  assumes "audit_ok audit sq" and "entry_ok e" and "ae_sequence e = sq + 1"
  shows "audit_ok (drop (length (audit @ [e]) - MODERATION_AUDIT_LIMIT) (audit @ [e])) (sq + 1)"
  using assms by (intro audit_ok_drop) (auto simp: audit_ok_def sorted_wrt_append list_all_iff)

lemma recordAudit_ok:
  assumes "room_ok room" shows "room_ok (snd (recordAudit actor action target source now room))"
  using assms audit_ok_record [of "sr_audit room" "sr_auditSequence room"]
  by (auto simp: recordAudit_def room_ok_def Let_def entry_ok_def)

lemma recordAudit_sequence:
  "sr_auditSequence (snd (recordAudit actor action target source now room)) \<le> sr_auditSequence room + 1"
  by (simp add: recordAudit_def Let_def)

text \<open>Changing what is not part of a member's identity and role.\<close>

definition same_member :: "server_peer \<Rightarrow> server_peer \<Rightarrow> bool" where
  "same_member p q \<longleftrightarrow> sp_id p = sp_id q \<and> sp_machine p = sp_machine q \<and> sp_principal p = sp_principal q"

lemma list_all_map_set: "P (k, v) \<Longrightarrow> list_all P m \<Longrightarrow> list_all P (map_set k v m)"
  by (induction m) auto

lemma length_map_set_member: "map_of m k = Some v \<Longrightarrow> length (map_set k w m) = length m"
  by (induction m) auto

lemma members_ok_member: "members_ok peers n \<Longrightarrow> map_of peers k = Some p \<Longrightarrow> sp_id p = k \<and> PEER_ID k"
  by (auto simp: members_ok_def list_all_iff dest!: map_of_SomeD)

lemma joined_member: "joined room ref = Some p \<Longrightarrow> map_of (sr_peers room) (fst ref) = Some p \<and> sp_object p = snd ref"
  by (auto simp: joined_def split: option.splits if_splits)

lemma put_peer_ok:
  assumes ok: "members_ok peers n" "presenter_ok peers creator presenter"
    and p: "map_of peers k = Some p" and q: "same_member p q"
  shows "members_ok (map_set (sp_id q) q peers) n" "presenter_ok (map_set (sp_id q) q peers) creator presenter"
proof -
  have k: "sp_id p = k" "PEER_ID k" "sp_id q = k"
    using members_ok_member [OF ok(1) p] q by (auto simp: same_member_def)
  show "members_ok (map_set (sp_id q) q peers) n"
    using ok(1) k length_map_set_member [OF p] by (simp add: members_ok_def distinct_update list_all_map_set)
  have role: "peerRole q creator = peerRole p creator" "sp_machine q = sp_machine p"
    using q by (auto simp: same_member_def peerRole_def)
  have "peerRole p creator \<noteq> Owner \<or> sp_machine p" if "presenter = []"
    using ok(2) that map_of_SomeD [OF p] by (auto simp: presenter_ok_def list_all_iff)
  then show "presenter_ok (map_set (sp_id q) q peers) creator presenter"
    using ok(2) k role p by (auto simp: presenter_ok_def update_conv intro: list_all_map_set)
qed

lemma put_peer_room_ok:
  assumes "room_ok room" "map_of (sr_peers room) k = Some p" "same_member p q"
  shows "room_ok (put_peer q room)"
  using assms put_peer_ok [OF _ _ assms(2,3)] by (auto simp: room_ok_def put_peer_def)

lemma put_peer_fields [simp]:
  "sr_capacity (put_peer q room) = sr_capacity room" "sr_creatorPrincipal (put_peer q room) = sr_creatorPrincipal room"
  "sr_audit (put_peer q room) = sr_audit room" "sr_auditSequence (put_peer q room) = sr_auditSequence room"
  "sr_presenterPeerId (put_peer q room) = sr_presenterPeerId room"
  "sr_pendingRemove (put_peer q room) = sr_pendingRemove room"
  "sr_whiteboardPolicy (put_peer q room) = sr_whiteboardPolicy room"
  "sr_diagramPolicy (put_peer q room) = sr_diagramPolicy room" "sr_mode (put_peer q room) = sr_mode room"
  "sr_peers (put_peer q room) = map_set (sp_id q) q (sr_peers room)"
  by (simp_all add: put_peer_def)

definition clock_range :: "int \<Rightarrow> bool" where
  "clock_range now \<longleftrightarrow> 0 \<le> now \<and> now \<le> MAX_SAFE_INTEGER - REMOVE_UNDO_MS"

lemma removal_ok_new: "clock_range now \<Longrightarrow>
    removal_ok (Some \<lparr>sv_targetPeerId = t, sv_actorPeerId = a, sv_expiresAt = now + REMOVE_UNDO_MS\<rparr>)"
  by (auto simp: removal_ok_def clock_range_def REMOVE_UNDO_MS_def MAX_SAFE_INTEGER_def)

lemmas operation_defs = applyHand_def authorizeRemove_def cancelRemove_def assignPresenter_def
  authorizePublicationStop_def clearHand_def setWhiteboardPolicy_def setDiagramPolicy_def

lemmas operation_splits = option.splits if_splits prod.splits bool.splits

lemma presenter_ok_assign:
  "map_of peers t = Some p \<Longrightarrow> \<not> sp_machine p \<Longrightarrow> PEER_ID t \<Longrightarrow> presenter_ok peers creator t"
  by (auto simp: presenter_ok_def PEER_ID_def matches_def)

lemma room_ok_update:
  "room_ok room \<Longrightarrow> room_ok (room\<lparr>sr_updatedAt := now\<rparr>)"
  "room_ok room \<Longrightarrow> room_ok (room\<lparr>sr_whiteboardPolicy := wp\<rparr>)"
  "room_ok room \<Longrightarrow> room_ok (room\<lparr>sr_diagramPolicy := dp\<rparr>)"
  "room_ok room \<Longrightarrow> removal_ok pending \<Longrightarrow> room_ok (room\<lparr>sr_pendingRemove := pending\<rparr>)"
  by (simp_all add: room_ok_def)

lemma removal_ok_None [simp]: "removal_ok None"
  by (simp add: removal_ok_def)

lemma room_ok_assign:
  "room_ok room \<Longrightarrow> map_of (sr_peers room) t = Some p \<Longrightarrow> \<not> sp_machine p \<Longrightarrow>
     room_ok (room\<lparr>sr_presenterPeerId := t, sr_updatedAt := now\<rparr>)"
  using members_ok_member by (simp add: room_ok_def) (blast intro: presenter_ok_assign)

lemma same_memberI [simp]:
  "same_member p (p\<lparr>sp_handActions := s\<rparr>)" "same_member p (p\<lparr>sp_removeActions := s\<rparr>)"
  "same_member p (p\<lparr>sp_presenterActions := s\<rparr>)" "same_member p (p\<lparr>sp_stopActions := s\<rparr>)"
  "same_member p (p\<lparr>sp_whiteboardActions := s\<rparr>)" "same_member p (p\<lparr>sp_diagramActions := s\<rparr>)"
  "same_member p (p\<lparr>sp_hand := h, sp_handRaisedAt := t\<rparr>)"
  "same_member p (p\<lparr>sp_handActions := s, sp_hand := h, sp_handRaisedAt := t\<rparr>)"
  by (simp_all add: same_member_def)

lemma assignPresenter_ok:
  assumes ok: "room_ok room" shows "room_ok (snd (assignPresenter room ref t now))"
proof (cases "joined room ref")
  case None
  then show ?thesis using ok by (simp add: assignPresenter_def)
next
  case (Some actor)
  then have a: "map_of (sr_peers room) (fst ref) = Some actor" using joined_member by blast
  have put: "room_ok (put_peer (actor\<lparr>sp_presenterActions := s\<rparr>) room)" for s
    using put_peer_room_ok [OF ok a] by simp
  have "room_ok ((put_peer (actor\<lparr>sp_presenterActions := s\<rparr>) room)\<lparr>sr_presenterPeerId := t, sr_updatedAt := now\<rparr>)"
    if "map_of (sr_peers room) t = Some p" "\<not> sp_machine p" "\<not> sp_machine actor" for s p
  proof -
    have "\<exists>q. map_of (sr_peers (put_peer (actor\<lparr>sp_presenterActions := s\<rparr>) room)) t = Some q \<and> \<not> sp_machine q"
      using that by (simp add: update_conv)
    then show ?thesis using room_ok_assign [OF put [of s]] by blast
  qed
  then show ?thesis
    using ok put Some by (auto simp: assignPresenter_def intro!: recordAudit_ok split: operation_splits)
qed

lemma serve_request_ok:
  assumes ok: "room_ok room" and now: "clock_range now"
  shows "room_ok (snd (serve_request room ref request now))"
proof -
  have put: "room_ok (put_peer q room)" if "joined room ref = Some p" "same_member p q" for p q
    using put_peer_room_ok [OF ok] joined_member that by blast
  show ?thesis
  proof (cases request)
    case (Req_Presenter v)
    then show ?thesis using assignPresenter_ok [OF ok] by simp
  next
    case (Req_Clear v)
    have "room_ok (put_peer (p\<lparr>sp_hand := Hand_None, sp_handRaisedAt := 0\<rparr>) room)"
      if "map_of (sr_peers room) k = Some p" for k p
      using put_peer_room_ok [OF ok that] by simp
    then show ?thesis using ok Req_Clear
      by (auto simp: clearHand_def intro!: recordAudit_ok room_ok_update split: operation_splits)
  qed (use ok put removal_ok_new [OF now] in
      \<open>auto simp: operation_defs Let_def intro!: recordAudit_ok room_ok_update split: operation_splits\<close>)
qed

lemma PEER_ID_opId: "length bs = 8 \<Longrightarrow> \<forall>b \<in> set bs. b < 256 \<Longrightarrow> PEER_ID (opId bs)"
proof -
  assume "length bs = 8" "\<forall>b \<in> set bs. b < 256"
  moreover have "length (opId xs) = 2 * length xs \<and> list_all lower_hex (opId xs)" if "\<forall>b \<in> set xs. b < 256" for xs
    using that by (induction xs) (auto simp: opId_def byte_hex)
  ultimately show ?thesis by (simp add: PEER_ID_def matches_def)
qed

lemma map_set_fresh: "k \<notin> set (map_keys m) \<Longrightarrow> map_set k v m = m @ [(k, v)]"
  by (induction m) auto

lemma enter_room_ok:
  assumes ok: "room_ok room" and "PEER_ID (sp_id peer)" "sp_id peer \<notin> set (map_keys (sr_peers room))"
    and "length (sr_peers room) < sr_capacity room"
  shows "room_ok (enter_room room peer now)"
proof -
  let ?peers = "sr_peers room @ [(sp_id peer, peer)]"
  have "sp_id peer \<noteq> []" using assms(2) by (auto simp: PEER_ID_def matches_def)
  moreover have new: "map_of (sr_peers room) (sp_id peer) = None" using assms(3) by (simp add: map_of_eq_None_iff)
  ultimately have "presenter_ok ?peers (sr_creatorPrincipal room) (if sr_presenterPeerId room = [] \<and> \<not> sp_machine peer
      \<and> peerRole peer (sr_creatorPrincipal room) = Owner then sp_id peer else sr_presenterPeerId room)"
    using ok by (auto simp: room_ok_def presenter_ok_def map_add_def split: option.split)
  moreover have "members_ok ?peers (sr_capacity room)"
    using ok assms by (auto simp: room_ok_def members_ok_def)
  ultimately show ?thesis
    using ok map_set_fresh [OF assms(3)] by (auto simp: enter_room_def room_ok_def Let_def split: if_splits)
qed

lemma draw_peer_id_new:
  "draw_peer_id room draws = Some k \<Longrightarrow> k \<notin> set (map_keys (sr_peers room)) \<and> k \<in> opId ` set draws"
  by (auto simp: draw_peer_id_def find_Some_iff)

definition draws_ok :: "bytes list \<Rightarrow> bool" where
  "draws_ok draws \<longleftrightarrow> (\<forall>d \<in> set draws. length d = 8 \<and> (\<forall>b \<in> set d. b < 256))"

lemma new_room_ok: "room_ok (new_room mode capacity admission now)"
  by (simp add: room_ok_def new_room_def members_ok_def presenter_ok_def audit_ok_def)

lemma new_peer_id [simp]: "sp_id (new_peer k ob admission) = k"
  by (simp add: new_peer_def)

lemma enter_room_sequence [simp]: "sr_auditSequence (enter_room room peer now) = sr_auditSequence room"
  by (simp add: enter_room_def Let_def)

definition registry_ok :: "nat \<Rightarrow> room_registry \<Rightarrow> bool" where
  "registry_ok n reg \<longleftrightarrow> (\<forall>room. rg_room reg = Some room \<longrightarrow> room_ok room \<and> sr_auditSequence room \<le> int n)"

lemma registry_ok_mono: "registry_ok n reg \<Longrightarrow> n \<le> m \<Longrightarrow> registry_ok m reg"
  by (force simp: registry_ok_def)

lemma join_room_ok:
  assumes ok: "registry_ok n reg" and "draws_ok draws" and j: "join_room reg admission draws now = Some (r, reg')"
  shows "registry_ok n reg'"
proof -
  have adm: "registry_ok n reg'" if a: "admit_peer reg room mode capacity admission draws now = Some (r, reg')"
    and room: "room_ok room" "sr_auditSequence room \<le> int n" for room mode capacity
  proof -
    have "room_ok (enter_room room (new_peer k (rg_fresh reg) admission) now)"
      if "draw_peer_id room draws = Some k" "length (sr_peers room) < sr_capacity room" for k
      using draw_peer_id_new [OF that(1)] assms(2) that(2) room(1)
      by (intro enter_room_ok) (auto simp: draws_ok_def intro: PEER_ID_opId)
    then show ?thesis using a room by (auto simp: admit_peer_def registry_ok_def Let_def split: if_splits)
  qed
  obtain mode capacity where "reg' = reg \<or> admit_peer reg
      (case rg_room reg of None \<Rightarrow> new_room mode capacity admission now | Some room \<Rightarrow> room)
      mode capacity admission draws now = Some (r, reg')"
    using j by (auto simp: join_room_def Let_def split: option.splits if_splits)
  moreover have "sr_auditSequence (new_room mode capacity admission now) = 0" by (simp add: new_room_def)
  ultimately show ?thesis using ok adm new_room_ok by (cases "rg_room reg") (auto simp: registry_ok_def)
qed

lemma map_of_delete_member: "members_ok peers n \<Longrightarrow> members_ok (map_delete k peers) n"
  by (auto simp: members_ok_def list_all_iff AList.delete_eq distinct_map_filter intro: le_trans [OF length_filter_le])

lemma map_of_member: "members_ok peers n \<Longrightarrow> (k, p) \<in> set peers \<Longrightarrow> map_of peers (sp_id p) = Some p"
  by (auto simp: members_ok_def list_all_iff)

lemma find_SomeD: "find P xs = Some x \<Longrightarrow> P x \<and> x \<in> set xs"
  by (induction xs) (auto split: if_splits)

lemma fallbackPresenter_ok:
  assumes m: "members_ok (sr_peers room) (sr_capacity room)"
    and "audit_ok (sr_audit room) (sr_auditSequence room)" "removal_ok (sr_pendingRemove room)"
  shows "room_ok (fallbackPresenter room)"
proof (cases "\<exists>p. map_of (sr_peers room) (sr_presenterPeerId room) = Some p \<and> \<not> sp_machine p")
  case True
  then have "presenter_ok (sr_peers room) (sr_creatorPrincipal room) (sr_presenterPeerId room)"
    using members_ok_member [OF m] by (auto intro: presenter_ok_assign)
  then show ?thesis using True assms by (auto simp: fallbackPresenter_def room_ok_def)
next
  case False
  let ?owner = "\<lambda>p. peerRole p (sr_creatorPrincipal room) = Owner \<and> \<not> sp_machine p"
  have "presenter_ok (sr_peers room) (sr_creatorPrincipal room)
      (case find ?owner (map snd (sr_peers room)) of None \<Rightarrow> [] | Some p \<Rightarrow> sp_id p)"
  proof (cases "find ?owner (map snd (sr_peers room))")
    case None
    then have "\<not> ?owner p" if "p \<in> snd ` set (sr_peers room)" for p using that by (auto simp: find_None_iff)
    then show ?thesis by (auto simp: None presenter_ok_def list_all_iff rev_image_eqI)
  next
    case (Some p)
    then have p: "?owner p" "p \<in> set (map snd (sr_peers room))" by (auto dest: find_SomeD)
    from p(2) obtain k where "(k, p) \<in> set (sr_peers room)" by auto
    then have mp: "map_of (sr_peers room) (sp_id p) = Some p" by (rule map_of_member [OF m])
    have "PEER_ID (sp_id p)" using members_ok_member [OF m mp] by simp
    then show ?thesis using Some p(1) presenter_ok_assign [OF mp] by simp
  qed
  then show ?thesis using False assms by (auto simp: fallbackPresenter_def room_ok_def split: option.splits)
qed

lemma leave_room_ok: assumes "registry_ok n reg" shows "registry_ok n (leave_room reg ref now)"
proof -
  have "room_ok (fallbackPresenter (r\<lparr>sr_peers := map_delete k (sr_peers r)\<rparr>))" if "room_ok r" for r k
    using that by (intro fallbackPresenter_ok) (auto simp: room_ok_def map_of_delete_member)
  moreover have "room_ok (clearPendingRemove k r)" if "room_ok r" for r k
    using that by (auto simp: clearPendingRemove_def intro: room_ok_update split: option.split)
  moreover have "sr_auditSequence (fallbackPresenter r) = sr_auditSequence r"
    "sr_auditSequence (clearPendingRemove k r) = sr_auditSequence r" for k r
    by (auto simp: fallbackPresenter_def clearPendingRemove_def split: option.split)
  ultimately show ?thesis using assms
    by (auto simp: leave_room_def registry_ok_def Let_def intro!: room_ok_update split: option.split)
qed

lemma serve_request_sequence: "sr_auditSequence (snd (serve_request room ref request now)) \<le> sr_auditSequence room + 1"
proof -
  have r: "sr_auditSequence r = sr_auditSequence room \<Longrightarrow>
      sr_auditSequence (snd (recordAudit a act t s now r)) \<le> sr_auditSequence room + 1" for a act t s r
    using recordAudit_sequence [of a act t s now r] by simp
  show ?thesis by (cases request) (auto simp: operation_defs Let_def intro!: r split: operation_splits)
qed

fun event_ok :: "int \<times> room_event \<Rightarrow> bool" where
  "event_ok (now, Enter admission draws) \<longleftrightarrow> clock_range now \<and> draws_ok draws"
| "event_ok (now, _) \<longleftrightarrow> clock_range now"

lemma registry_step_ok:
  assumes "registry_ok n reg" "event_ok (now, e)" shows "registry_ok (Suc n) (registry_step reg (now, e))"
proof (cases e)
  case (Enter admission draws)
  then have "registry_ok n (registry_step reg (now, e))"
    using assms join_room_ok [OF assms(1)] by (auto split: option.split)
  then show ?thesis by (rule registry_ok_mono) simp
next
  case (Exit ref)
  then show ?thesis using registry_ok_mono [OF leave_room_ok [OF assms(1)]] by simp
next
  case (Request ref request)
  have "sr_auditSequence (snd (serve_request room ref request now)) \<le> 1 + int n" if "sr_auditSequence room \<le> int n" for room
    using that serve_request_sequence [of room ref request now] by linarith
  then show ?thesis using Request assms serve_request_ok by (auto simp: registry_ok_def serve_def split: option.split)
next
  case Undo_Over
  have "room_ok (snd (dueRemove room now)) \<and> sr_auditSequence (snd (dueRemove room now)) = sr_auditSequence room"
    if "room_ok room" for room
    using that by (auto simp: dueRemove_def intro: room_ok_update split: option.split)
  then show ?thesis using Undo_Over assms(1) by (auto simp: registry_ok_def)
qed

lemma registry_run_ok:
  "list_all event_ok events \<Longrightarrow> registry_ok (length events) (registry_run m events)"
proof (induction events rule: rev_induct)
  case (snoc e events)
  then show ?case using registry_step_ok by (cases e) auto
qed (simp add: registry_ok_def new_registry_def)

end
