(* ===== verification/Signaling.thy ===== *)
theory Signaling
  imports Js_Json_Laws
begin

text \<open>
  The two ends of the signalling socket: the server's \<open>encodeServerMessage\<close> and \<open>parseJson\<close>
  (\<^verbatim>\<open>src/src/protocol.js\<close>), and the check of a received message by the client
  (\<^verbatim>\<open>webrtc/signaling.service.ts\<close>).
\<close>

definition SERVER_MESSAGE_VERSIONS :: "(string \<times> int) list" where
  "SERVER_MESSAGE_VERSIONS =
     [(''welcome'', 1), (''peer-joined'', 1), (''peer-left'', 1), (''signal'', 1), (''media-state'', 1),
      (''machine-receive-state'', 1), (''topology-state'', 1), (''media-agent-state'', 3),
      (''media-agent-availability'', 1), (''media-agent-takeover-request'', 1), (''media-agent-signal'', 1),
      (''media-agent-track-state'', 2), (''media-agent-subscription-state'', 2), (''native-packager-signal'', 1),
      (''native-packager-status'', 1), (''trusted-source-approved'', 1), (''trusted-source-publications'', 1),
      (''trusted-source-revoked'', 1), (''trusted-source-publisher-lease'', 1),
      (''trusted-source-publisher-stop'', 1), (''trusted-source-agent-signal'', 1),
      (''broadcast-source-moderation-state'', 1), (''broadcast-source-moderation-revoked'', 1),
      (''broadcast-source-moderation-unavailable'', 1), (''moderation-state'', 1),
      (''publication-stop-request'', 1), (''whiteboard-cleared'', 1), (''breakout-set'', 1),
      (''breakout-assigned'', 1), (''breakout-revoked'', 1), (''breakout-help-notified'', 1),
      (''breakout-help-acknowledged'', 1), (''overlay-key'', 1), (''error'', 1)]"

definition validateServerMessageEnvelope :: "jsval \<Rightarrow> (string \<times> jsval) list option" where
  "validateServerMessageEnvelope raw =
     (case js_object raw of None \<Rightarrow> None
      | Some message \<Rightarrow> (case js_string (js_get message ''type'') of None \<Rightarrow> None
        | Some t \<Rightarrow> (case map_of SERVER_MESSAGE_VERSIONS t of None \<Rightarrow> None
          | Some version \<Rightarrow> if js_get message ''version'' = JInt version then Some message else None)))"

text \<open>\<open>onmessage\<close>: the message handed to the subscribers, if any.\<close>

definition receive_server_text :: "string \<Rightarrow> (string \<times> jsval) list option" where
  "receive_server_text data = Option.bind (json_parse data) validateServerMessageEnvelope"

text \<open>A message with a \<open>version\<close> of its own replaces the version 1 in place.\<close>

definition encodeServerMessage :: "(string \<times> jsval) list \<Rightarrow> string" where
  "encodeServerMessage message =
     stringify (JObj ((''version'', case map_of message ''version'' of None \<Rightarrow> JInt 1 | Some v \<Rightarrow> v)
       # filter (\<lambda>(k, _). k \<noteq> ''version'') message))"

definition MAX_SIGNAL_BYTES :: nat where "MAX_SIGNAL_BYTES = 98304"

definition parseJson :: "string \<Rightarrow> string + (string \<times> jsval) list" where
  "parseJson raw =
     (if MAX_SIGNAL_BYTES < length raw then Inl ''message_too_large''
      else case json_parse raw of None \<Rightarrow> Inl ''invalid_json''
      | Some v \<Rightarrow> (case js_object v of None \<Rightarrow> Inl ''invalid_message'' | Some message \<Rightarrow> Inr message))"

lemma server_text_received:
  assumes "json_clean (JObj message)" "''version'' \<notin> set (js_keys message)"
    and "map_of message ''type'' = Some (JStr t)" "map_of SERVER_MESSAGE_VERSIONS t = Some 1"
  shows "receive_server_text (encodeServerMessage message) = Some ((''version'', JInt 1) # message)"
proof -
  have v: "map_of message ''version'' = None" using assms(2) by (simp add: map_of_eq_None_iff js_keys_def)
  have "filter (\<lambda>(k, _). k \<noteq> ''version'') message = message"
    using assms(2) by (force simp: js_keys_def intro!: filter_True)
  then have e: "encodeServerMessage message = stringify (JObj ((''version'', JInt 1) # message))"
    using v by (simp add: encodeServerMessage_def)
  have "json_clean (JObj ((''version'', JInt 1) # message))"
    using assms(1,2) by (simp add: js_keys_def MAX_SAFE_INTEGER_def)
  then have "json_parse (encodeServerMessage message) = Some (JObj ((''version'', JInt 1) # message))"
    unfolding e by (rule json_parse_stringify)
  then show ?thesis
    using assms(3,4) by (simp add: receive_server_text_def validateServerMessageEnvelope_def js_get_def)
qed

lemma client_text_received:
  assumes "json_clean (JObj message)" "length (stringify (JObj message)) \<le> MAX_SIGNAL_BYTES"
  shows "parseJson (stringify (JObj message)) = Inr message"
  using assms json_parse_stringify [OF assms(1)] by (simp add: parseJson_def)

end
