(* ===== verification/Server_Snapshot.thy ===== *)
theory Server_Snapshot
  imports Server_Room_Laws Signaling
begin

text \<open>
  The server's snapshot of a room as the client of \<open>Moderation\<close> reads it.
\<close>

subsection \<open>Sorting\<close>

lemma sort_key_map: "sort_key f (map g xs) = map g (sort_key (\<lambda>x. f (g x)) xs)"
proof -
  have "insort_key f (g x) (map g ys) = map g (insort_key (\<lambda>x. f (g x)) x ys)" for x ys
    by (induction ys) auto
  then show ?thesis by (induction xs) auto
qed

lemma sort_key_same: "(\<And>x. x \<in> set xs \<Longrightarrow> f x = g x) \<Longrightarrow> sort_key f xs = sort_key g xs"
proof -
  assume same: "\<And>x. x \<in> set xs \<Longrightarrow> f x = g x"
  have ins: "insort_key f x ys = insort_key g x ys" if "f x = g x" "\<forall>y \<in> set ys. f y = g y" for x ys
    using that by (induction ys) auto
  show ?thesis using same by (induction xs) (auto intro!: ins)
qed

lemma raised_participants:
  "raised_hands (map (\<lambda>peer. moderationParticipant peer creator) peers)
     = map (\<lambda>peer. moderationParticipant peer creator) (filter hand_up peers)"
  by (induction peers) (auto simp: raised_hands_def moderationParticipant_def)

lemma hand_order_room: "hand_order (room_participants room) = handQueue room"
proof -
  let ?mp = "\<lambda>peer. moderationParticipant peer (sr_creatorPrincipal room)"
  let ?up = "filter hand_up (map snd (sr_peers room))"
  have "raised_hands (room_participants room) = sort_key pt_peerId (map ?mp ?up)"
    using raised_participants [of "sr_creatorPrincipal room" "map snd (sr_peers room)"]
    by (simp add: room_participants_def raised_hands_def filter_sort)
  then have "sort_key pt_peerId (raised_hands (room_participants room)) = map ?mp (sort_key sp_id ?up)"
    by (simp add: sort_key_map sort_key_id_if_sorted moderationParticipant_def)
  moreover have "sort_key (\<lambda>p. pt_raisedAt (?mp p)) (sort_key sp_id ?up) = sort_key sp_handRaisedAt (sort_key sp_id ?up)"
    by (rule sort_key_same) (auto simp: moderationParticipant_def)
  ultimately show ?thesis by (simp add: hand_order_def handQueue_def sort_key_map o_def) (simp add: moderationParticipant_def)
qed

subsection \<open>Reading a snapshot\<close>

definition participant_ok :: "participant \<Rightarrow> bool" where
  "participant_ok p \<longleftrightarrow> PEER_ID (pt_peerId p) \<and> num_safe_integer (NInt (pt_raisedAt p))
     \<and> (if pt_hand p = Hand_Raised then 0 < pt_raisedAt p else pt_raisedAt p = 0)"

lemma parse_participant_json:
  assumes "participant_ok p" "pt_peerId p \<notin> set seen"
  shows "parse_participant seen (participant_json p) = Some p"
  using assms
  by (cases "pt_role p"; cases "pt_hand p")
    (auto simp: parse_participant_def participant_json_def participant_ok_def peer_field_def named_def js_get_def
      only_fields_def js_keys_def)

lemma parse_participants_json:
  assumes "list_all participant_ok ps" "distinct (map pt_peerId ps)" "set (map pt_peerId ps) \<inter> set seen = {}"
  shows "parse_participants seen (map participant_json ps) = Some ps"
  using assms by (induction ps arbitrary: seen) (auto simp: parse_participant_json)

lemma room_participants_ok:
  assumes "room_ok room"
  shows "list_all participant_ok (room_participants room)" "distinct (map pt_peerId (room_participants room))"
    and "set (map pt_peerId (room_participants room)) = set (map_keys (sr_peers room))"
proof -
  have m: "members_ok (sr_peers room) (sr_capacity room)" using assms by (simp add: room_ok_def)
  have ids: "map sp_id (map snd (sr_peers room)) = map_keys (sr_peers room)"
    using m by (auto simp: members_ok_def list_all_iff)
  show "list_all participant_ok (room_participants room)"
    using m by (auto simp: room_participants_def members_ok_def list_all_iff participant_ok_def
      moderationParticipant_def hand_up_def MAX_SAFE_INTEGER_def)
  have "map pt_peerId (room_participants room) = map sp_id (sort_key sp_id (map snd (sr_peers room)))"
    unfolding room_participants_def sort_key_map by (simp add: moderationParticipant_def)
  then have eq: "mset (map pt_peerId (room_participants room)) = mset (map_keys (sr_peers room))"
    unfolding ids [symmetric] by (simp only: mset_map mset_sort)
  have "distinct (map_keys (sr_peers room))" using m by (simp add: members_ok_def)
  then show "distinct (map pt_peerId (room_participants room))" by (rule iffD2 [OF mset_eq_imp_distinct_iff [OF eq]])
  show "set (map pt_peerId (room_participants room)) = set (map_keys (sr_peers room))" by (rule mset_eq_setD [OF eq])
qed

lemma parse_queue_json:
  "set q \<subseteq> set raised \<Longrightarrow> distinct q \<Longrightarrow> set q \<inter> set queued = {} \<Longrightarrow> list_all PEER_ID q \<Longrightarrow>
     parse_queue raised queued (map JStr q) = Some q"
  by (induction q arbitrary: queued) (auto simp: peer_field_def)

lemma named_policy: "named POLICIES (JStr (policy_name p)) = Some p"
  by (cases p) (simp_all add: named_def POLICIES_def policy_name_def)

lemma named_source: "named SOURCES (JStr (source_name s)) = Some s"
  by (cases s) (simp_all add: named_def SOURCES_def source_name_def)

lemma named_action: "named ACTIONS (JStr (audit_action_name a)) = Some a"
  by (cases a) (simp_all add: named_def ACTIONS_def)

lemma parse_source_json: "valid_source a s \<Longrightarrow> parse_source a (JStr (audit_source_name s)) = Some s"
  by (cases a; cases s) (simp_all add: named_policy named_source)

lemma parse_audit_row_json:
  assumes "entry_ok e" "prev < ae_sequence e" "0 \<le> prev" "ae_sequence e \<le> MAX_SAFE_INTEGER"
  shows "parse_audit_row prev (audit_json e) = Some e"
  using assms parse_source_json [of "ae_action e" "ae_source e"]
  by (simp add: parse_audit_row_def audit_json_def entry_ok_def clock_ok_def peer_field_def named_action js_get_def
      only_fields_def js_keys_def)

lemma parse_audit_rows_json:
  assumes "sorted_wrt (<) (map ae_sequence es)" "0 \<le> prev"
    and "list_all (\<lambda>e. prev < ae_sequence e \<and> ae_sequence e \<le> MAX_SAFE_INTEGER \<and> entry_ok e) es"
  shows "parse_audit_rows prev (map audit_json es) = Some es"
  using assms by (induction es arbitrary: prev) (auto simp: parse_audit_row_json list_all_iff)


definition room_view :: "server_room \<Rightarrow> int \<Rightarrow> bool \<Rightarrow> string \<Rightarrow> moderation" where
  "room_view room epoch audit own =
     \<lparr>md_membershipEpoch = epoch, md_participants = room_participants room, md_queue = handQueue room,
      md_audit = (if audit then sr_audit room else []), md_presenterPeerId = sr_presenterPeerId room,
      md_pendingRemove = visible_pending room, md_whiteboardPolicy = policy_or_open (sr_whiteboardPolicy room),
      md_diagramPolicy = policy_or_open (sr_diagramPolicy room), md_ownPeerId = own\<rparr>"

lemma map_of_key: "map_of m k = Some v \<Longrightarrow> k \<in> set (map_keys m)"
  by (metis domI dom_map_of_conv_image_fst list.set_map)

lemma room_presenter:
  assumes "room_ok room"
  obtains "sr_presenterPeerId room = []" | "PEER_ID (sr_presenterPeerId room)" "sr_presenterPeerId room \<in> set (map_keys (sr_peers room))"
proof (cases "sr_presenterPeerId room = []")
  case False
  then obtain p where p: "map_of (sr_peers room) (sr_presenterPeerId room) = Some p"
    using assms by (auto simp: room_ok_def presenter_ok_def)
  have "members_ok (sr_peers room) (sr_capacity room)" using assms by (simp add: room_ok_def)
  from members_ok_member [OF this p] map_of_key [OF p] show thesis by (intro that(2)) simp_all
qed (rule that(1))

lemma visible_presenter_ok: "room_ok room \<Longrightarrow> visible_presenter room = sr_presenterPeerId room"
  by (erule room_presenter) (simp_all add: visible_presenter_def)

lemma room_queue_ok:
  assumes "room_ok room"
  shows "set (handQueue room) = set (map pt_peerId (raised_hands (room_participants room)))"
    and "length (handQueue room) = length (raised_hands (room_participants room))"
    and "distinct (handQueue room)" "list_all PEER_ID (handQueue room)"
proof -
  have q: "handQueue room = map pt_peerId (sort_key pt_raisedAt (sort_key pt_peerId (raised_hands (room_participants room))))"
    using hand_order_room [of room] by (simp add: hand_order_def)
  show "set (handQueue room) = set (map pt_peerId (raised_hands (room_participants room)))"
    and "length (handQueue room) = length (raised_hands (room_participants room))" by (simp_all add: q)
  show "list_all PEER_ID (handQueue room)"
    using room_participants_ok(1) [OF assms] by (auto simp: q list_all_iff participant_ok_def raised_hands_def)
  have "distinct (map pt_peerId (raised_hands (room_participants room)))"
    using room_participants_ok(2) [OF assms] by (simp add: raised_hands_def distinct_map_filter)
  then show "distinct (handQueue room)" by (simp add: q distinct_map)
qed

lemma parse_pending_json:
  assumes "room_ok room"
  shows "parsePendingRemove (case visible_pending room of None \<Rightarrow> JUndefined | Some p \<Rightarrow> pending_json p)
           (map pt_peerId (room_participants room)) = Some (visible_pending room)"
proof (cases "visible_pending room")
  case (Some p)
  then have "pr_targetPeerId p \<in> set (map_keys (sr_peers room))" "1 \<le> pr_expiresAt p" "pr_expiresAt p \<le> MAX_SAFE_INTEGER"
    using assms by (auto simp: visible_pending_def room_ok_def removal_ok_def split: option.splits if_splits intro: rev_image_eqI)
  moreover from this(1) have "PEER_ID (pr_targetPeerId p)"
    using assms by (auto simp: room_ok_def members_ok_def list_all_iff)
  ultimately show ?thesis
    using Some room_participants_ok(3) [OF assms]
    by (simp add: parsePendingRemove_def pending_json_def js_get_def only_fields_def js_keys_def peer_field_def
      MAX_SAFE_INTEGER_def)
qed (simp add: parsePendingRemove_def)

lemma parse_snapshot_room:
  assumes ok: "room_ok room" "sr_auditSequence room \<le> MAX_SAFE_INTEGER"
    and epoch: "1 \<le> epoch" "epoch \<le> MAX_SAFE_INTEGER"
    and m: "moderationSnapshot room epoch audit = Some message"
  shows "parseSnapshot ((''version'', JInt 1) # message) = Some (room_view room epoch audit)"
proof -
  let ?m = "(''version'', JInt 1) # message"
  define pend where "pend = (case visible_pending room of None \<Rightarrow> [] | Some p \<Rightarrow> [(''pendingRemove'', pending_json p)])"
  define aud where "aud = (if audit then [(''audit'', JArr (map audit_json (sr_audit room)))] else [])"
  have msg: "message =
       [(''type'', JStr ''moderation-state''), (''membershipEpoch'', JInt epoch),
         (''participants'', JArr (map participant_json (room_participants room))),
         (''queue'', JArr (map JStr (handQueue room))),
         (''presenterPeerId'', JStr (visible_presenter room)),
         (''whiteboardPolicy'', JStr (policy_name (policy_or_open (sr_whiteboardPolicy room)))),
         (''diagramPolicy'', JStr (policy_name (policy_or_open (sr_diagramPolicy room))))] @ pend @ aud"
    using m by (simp add: moderationSnapshot_def pend_def aud_def split: if_splits)
  have get: "js_get ?m ''type'' = JStr ''moderation-state''" "js_get ?m ''membershipEpoch'' = JInt epoch"
    "js_get ?m ''participants'' = JArr (map participant_json (room_participants room))"
    "js_get ?m ''queue'' = JArr (map JStr (handQueue room))"
    "js_get ?m ''presenterPeerId'' = JStr (visible_presenter room)"
    "js_get ?m ''whiteboardPolicy'' = JStr (policy_name (policy_or_open (sr_whiteboardPolicy room)))"
    "js_get ?m ''diagramPolicy'' = JStr (policy_name (policy_or_open (sr_diagramPolicy room)))"
    and has: "js_has ?m ''presenterPeerId''" "js_has ?m ''whiteboardPolicy''" "js_has ?m ''diagramPolicy''"
    unfolding msg by (simp_all add: js_get_def js_has_def js_keys_def)
  have pending: "js_get ?m ''pendingRemove'' = (case visible_pending room of None \<Rightarrow> JUndefined | Some p \<Rightarrow> pending_json p)"
    unfolding msg pend_def aud_def by (simp add: js_get_def split: option.split)
  have aget: "js_get ?m ''audit'' = (if audit then JArr (map audit_json (sr_audit room)) else JUndefined)"
    unfolding msg pend_def aud_def by (cases audit; cases "visible_pending room") (simp_all add: js_get_def)
  have ahas: "js_has ?m ''audit'' = audit"
    unfolding msg pend_def aud_def by (cases audit; cases "visible_pending room") (simp_all add: js_has_def js_keys_def)
  have only: "only_fields ?m [''version'', ''type'', ''membershipEpoch'', ''participants'', ''queue'', ''audit'',
            ''presenterPeerId'', ''pendingRemove'', ''whiteboardPolicy'', ''diagramPolicy'']"
    unfolding msg pend_def aud_def by (simp add: only_fields_def js_keys_def split: option.split)
  have ps: "parse_participants [] (map participant_json (room_participants room)) = Some (room_participants room)"
    using room_participants_ok [OF ok(1)] by (intro parse_participants_json) auto
  have q: "parse_queue (map pt_peerId (raised_hands (room_participants room))) [] (map JStr (handQueue room)) = Some (handQueue room)"
    using room_queue_ok [OF ok(1)] by (intro parse_queue_json) auto
  have "parse_audit_rows 0 (map audit_json (sr_audit room)) = Some (sr_audit room)"
    using ok by (intro parse_audit_rows_json) (auto simp: room_ok_def audit_ok_def list_all_iff)
  then have au: "(if js_has ?m ''audit'' then parseAudit (js_get ?m ''audit'') else Some []) = Some (if audit then sr_audit room else [])"
    using ok by (simp add: aget ahas parseAudit_def room_ok_def audit_ok_def MODERATION_AUDIT_LIMIT_def)
  have pr: "parse_presenter ?m (map pt_peerId (room_participants room)) = Some (sr_presenterPeerId room)"
    using room_participants_ok(3) [OF ok(1)] visible_presenter_ok [OF ok(1)]
    by (cases rule: room_presenter [OF ok(1)]) (simp_all add: parse_presenter_def has get)
  have pol: "parse_policy ?m ''whiteboardPolicy'' = Some (policy_or_open (sr_whiteboardPolicy room))"
    "parse_policy ?m ''diagramPolicy'' = Some (policy_or_open (sr_diagramPolicy room))"
    by (simp_all add: parse_policy_def has get named_policy)
  have ep: "js_integer (js_get ?m ''membershipEpoch'') 1 MAX_SAFE_INTEGER = Some epoch"
    using epoch by (simp add: get MAX_SAFE_INTEGER_def)
  show ?thesis
    unfolding parseSnapshot_def ep get(1) get(3) get(4) au pr pol pending parse_pending_json [OF ok(1)]
    using only ps q room_queue_ok(2) [OF ok(1)] hand_order_room [of room]
    by (simp add: room_view_def pr pol parse_pending_json [OF ok(1)] Let_def fun_eq_iff)
qed


lemma snapshot_clean:
  assumes ok: "room_ok room" "sr_auditSequence room \<le> MAX_SAFE_INTEGER"
    and m: "moderationSnapshot room epoch audit = Some message"
  shows "json_clean (JObj message)" "''version'' \<notin> set (js_keys message)"
    "map_of message ''type'' = Some (JStr ''moderation-state'')"
proof -
  have "json_clean (participant_json p)" if "p \<in> set (room_participants room)" for p
    using that room_participants_ok(1) [OF ok(1)] by (auto simp: participant_json_def list_all_iff participant_ok_def)
  moreover have "json_clean (audit_json e)" if "e \<in> set (sr_audit room)" for e
    using that ok by (force simp: audit_json_def room_ok_def audit_ok_def list_all_iff entry_ok_def clock_ok_def MAX_SAFE_INTEGER_def)
  moreover have "json_clean (pending_json p)" if "visible_pending room = Some p" for p
    using that ok(1) by (auto simp: pending_json_def visible_pending_def room_ok_def removal_ok_def split: option.splits if_splits)
  moreover have "num_safe_integer (NInt epoch)"
    using m by (simp add: moderationSnapshot_def split: if_splits)
  ultimately show "json_clean (JObj message)"
    using m by (auto simp: moderationSnapshot_def split: if_splits option.splits)
  show "''version'' \<notin> set (js_keys message)" "map_of message ''type'' = Some (JStr ''moderation-state'')"
    using m by (auto simp: moderationSnapshot_def js_keys_def split: if_splits option.splits)
qed

text \<open>C36. The client's view is the server's room: whatever joins, leaves and moderation requests a room has
  gone through, the snapshot the server sends passes the checks of the client, and the client then shows
  exactly the participants with their roles and hands, the queue, the presenter, the pending removal, the
  policies and (for owners) the audit log of the room. The clock stays below the year 287,000 and the room
  below \<open>2\<^sup>5\<^sup>3\<close> events.\<close>

theorem moderation_snapshot_refines:
  assumes "list_all event_ok events" "int (length events) \<le> MAX_SAFE_INTEGER"
    and "rg_room (registry_run maxParticipants events) = Some room"
    and "1 \<le> epoch" "epoch \<le> MAX_SAFE_INTEGER"
  shows "\<exists>snapshot message.
    moderationSnapshot room epoch audit = Some snapshot
    \<and> receive_server_text (encodeServerMessage snapshot) = Some message
    \<and> apply_moderation client message = (room_view room epoch audit (md_ownPeerId client), [])"
proof -
  have ok: "room_ok room" "sr_auditSequence room \<le> MAX_SAFE_INTEGER"
    using registry_run_ok [OF assms(1), of maxParticipants] assms(2,3) by (auto simp: registry_ok_def)
  obtain snapshot where s: "moderationSnapshot room epoch audit = Some snapshot"
    using assms(4,5) by (simp add: moderationSnapshot_def MAX_SAFE_INTEGER_def)
  let ?message = "(''version'', JInt 1) # snapshot"
  have r: "receive_server_text (encodeServerMessage snapshot) = Some ?message"
    by (rule server_text_received [OF snapshot_clean [OF ok s]]) (simp add: SERVER_MESSAGE_VERSIONS_def)
  have "js_get ?message ''type'' = JStr ''moderation-state''"
    using snapshot_clean(3) [OF ok s] by (simp add: js_get_def)
  then have "apply_moderation client ?message = (room_view room epoch audit (md_ownPeerId client), [])"
    using parse_snapshot_room [OF ok assms(4,5) s] by (simp add: apply_moderation_def parseStopRequest_def)
  with s r show ?thesis by blast
qed

end
