(* ===== verification/Server_Authority.thy ===== *)
theory Server_Authority
  imports Server_Snapshot Collab_Sizes
begin

text \<open>
  Who may do what in a room: the authority a request needs, the requests the client offers, the rate
  limits, and what holds of every room.
\<close>

subsection \<open>Authority\<close>

lemma recordAudit_keeps [simp]:
  "sr_peers (snd (recordAudit a act t s now room)) = sr_peers room"
  "sr_presenterPeerId (snd (recordAudit a act t s now room)) = sr_presenterPeerId room"
  "sr_pendingRemove (snd (recordAudit a act t s now room)) = sr_pendingRemove room"
  "sr_whiteboardPolicy (snd (recordAudit a act t s now room)) = sr_whiteboardPolicy room"
  "sr_diagramPolicy (snd (recordAudit a act t s now room)) = sr_diagramPolicy room"
  by (simp_all add: recordAudit_def Let_def)

text \<open>C37. Moderation needs authority. A request of somebody who is not a member changes nothing. Any other
  request removes nobody at once, changes the presenter or a pending removal only for an owner, a drawing
  policy only for an owner or the presenter, and a hand only for its own peer, or to lower it for an owner.\<close>

theorem moderation_needs_authority:
  assumes "list_all event_ok events" "rg_room (registry_run maxParticipants events) = Some room"
    and "serve_request room ref request now = (r, room')"
  shows "case joined room ref of None \<Rightarrow> room' = room
    | Some actor \<Rightarrow>
      let owner = (peerRole actor (sr_creatorPrincipal room) = Owner) in
      map_keys (sr_peers room') = map_keys (sr_peers room)
      \<and> (owner \<or> sr_presenterPeerId room' = sr_presenterPeerId room \<and> sr_pendingRemove room' = sr_pendingRemove room)
      \<and> (owner \<or> sr_presenterPeerId room = fst ref
          \<or> sr_whiteboardPolicy room' = sr_whiteboardPolicy room \<and> sr_diagramPolicy room' = sr_diagramPolicy room)
      \<and> (\<forall>peerId. peerId = fst ref \<or> owner \<and> map_option sp_hand (map_of (sr_peers room') peerId) = Some Hand_None
          \<or> map_option sp_hand (map_of (sr_peers room') peerId) = map_option sp_hand (map_of (sr_peers room) peerId))"
proof (cases "joined room ref")
  case None
  then show ?thesis using assms(3) by (cases request) (auto simp: operation_defs)
next
  case (Some actor)
  have "room_ok room" using registry_run_ok [OF assms(1), of maxParticipants] assms(2) by (auto simp: registry_ok_def)
  then have m: "members_ok (sr_peers room) (sr_capacity room)" by (simp add: room_ok_def)
  have a: "map_of (sr_peers room) (fst ref) = Some actor" using joined_member [OF Some] by simp
  have id: "sp_id actor = fst ref" using members_ok_member [OF m a] by simp
  have keys: "k \<in> fst ` set (sr_peers room)" if "map_of (sr_peers room) k = Some p" for k p
    using map_of_key [OF that] by simp
  have tid: "sp_id p = k" if "map_of (sr_peers room) k = Some p" for k p using members_ok_member [OF m that] by simp
  have r': "room' = snd (serve_request room ref request now)" using assms(3) by simp
  show ?thesis
    unfolding r' using Some a id
    by (cases request) (auto simp: operation_defs Let_def keys tid may_set_policy_def update_conv AList.update_keys split: operation_splits)
qed

subsection \<open>The client's commands\<close>

fun command_targets :: "moderation_command \<Rightarrow> string list" where
  "command_targets (Clear target) = [target]"
| "command_targets (Remove target) = [target]"
| "command_targets (Request_Stop target _) = [target]"
| "command_targets (Assign_Presenter target) = [target]"
| "command_targets _ = []"

lemma length_string_members:
  "length (join '','' (member_texts (map (\<lambda>(k, s). (k, JStr s)) ss)))
     \<le> sum_list (map (\<lambda>(k, s). 6 * length k + 6 * length s + 6) ss)"
proof (induction ss)
  case (Cons x ss)
  obtain k v where x: "x = (k, v)" by fastforce
  show ?case using Cons length_json_quote [of k] length_json_quote [of v] by (cases ss) (auto simp: x length_join)
qed simp

lemma string_message_received:
  assumes "message = map (\<lambda>(k, s). (k, JStr s)) ss" "distinct (map fst ss)"
    and "sum_list (map (\<lambda>(k, s). 6 * length k + 6 * length s + 6) ss) \<le> 90000"
  shows "parseJson (stringify (JObj message)) = Inr message"
proof (rule client_text_received)
  show "json_clean (JObj message)" using assms(2) by (auto simp: assms(1) o_def case_prod_unfold)
  show "length (stringify (JObj message)) \<le> MAX_SIGNAL_BYTES"
    using length_string_members [of ss] assms(3) by (simp add: assms(1) MAX_SIGNAL_BYTES_def)
qed

definition GRANTABLE :: "string list" where
  "GRANTABLE = [''hand_unavailable'', ''moderation_unavailable'', ''hand_rate_limited'', ''moderation_rate_limited'',
     ''moderation_pending_exists'']"

definition granted :: "room_result \<Rightarrow> bool" where
  "granted r = (case fst r of Inr _ \<Rightarrow> True | Inl code \<Rightarrow> code \<in> set GRANTABLE)"

lemma granted_simps [simp]: "granted (Inr (), room)" "granted (Inl code, room) \<longleftrightarrow> code \<in> set GRANTABLE"
  by (simp_all add: granted_def)

lemma granted_audit:
  "PEER_ID actor \<Longrightarrow> PEER_ID target \<Longrightarrow> valid_source action source \<Longrightarrow> clock_ok now \<Longrightarrow>
     granted (recordAudit actor action target source now room)"
  by (simp add: recordAudit_def Let_def)

lemma granted_by_role:
  assumes actor: "joined room ref = Some actor" "PEER_ID (sp_id actor)" and now: "clock_ok now"
  shows "hand \<in> fst ` set HANDS \<Longrightarrow> granted (applyHand room ref hand now)"
    and "may_set_policy room actor \<Longrightarrow> granted (setWhiteboardPolicy room ref (policy_name p) now)"
    and "may_set_policy room actor \<Longrightarrow> granted (setDiagramPolicy room ref (policy_name p) now)"
  using assms named_policy [of p]
  by (auto simp: applyHand_def setWhiteboardPolicy_def setDiagramPolicy_def HANDS_def named_def GRANTABLE_def
      split: operation_splits intro!: granted_audit)

lemma granted_to_owner:
  assumes actor: "joined room ref = Some actor" "PEER_ID (sp_id actor)" and now: "clock_ok now"
    and owner: "peerRole actor (sr_creatorPrincipal room) = Owner"
    and target: "map_of (sr_peers room) t = Some q" "PEER_ID t"
  shows "granted (clearHand room ref t now)" "granted (assignPresenter room ref t now)"
    and "t \<noteq> sp_id actor \<Longrightarrow> granted (authorizeRemove room ref t now)"
    and "t \<noteq> sp_id actor \<Longrightarrow> granted (authorizePublicationStop room ref t (source_name src) now)"
  using assms named_source [of src]
  by (auto simp: clearHand_def assignPresenter_def authorizeRemove_def authorizePublicationStop_def named_def
      GRANTABLE_def Let_def split: operation_splits intro!: granted_audit)

lemma granted_cancel:
  assumes "joined room ref = Some actor" "PEER_ID (sp_id actor)" "clock_ok now"
    and "peerRole actor (sr_creatorPrincipal room) = Owner"
    and "sr_pendingRemove room = Some pending" "PEER_ID (sv_targetPeerId pending)"
  shows "granted (cancelRemove room ref now)"
  using assms by (auto simp: cancelRemove_def intro!: granted_audit)

definition request_of :: "moderation \<Rightarrow> moderation_command \<Rightarrow> moderation_request" where
  "request_of m cmd = (case cmd of
     Raise \<Rightarrow> Req_Hand (if ownHand m then ''none'' else ''raised'')
   | Clear t \<Rightarrow> Req_Clear (JStr t) | Remove t \<Rightarrow> Req_Remove (JStr t)
   | Request_Stop t s \<Rightarrow> Req_Stop (JStr t) (source_name s) | Assign_Presenter t \<Rightarrow> Req_Presenter (JStr t)
   | Cancel_Remove \<Rightarrow> Req_Cancel | Set_Whiteboard_Policy p \<Rightarrow> Req_Whiteboard (policy_name p)
   | Set_Diagram_Policy p \<Rightarrow> Req_Diagram (policy_name p))"

lemma PEER_ID_length: "PEER_ID s \<Longrightarrow> length s = 16"
  by (simp add: PEER_ID_def matches_def)

lemma name_lengths: "length (policy_name p) \<le> 14" "length (source_name s) \<le> 10"
  by (cases p; simp add: policy_name_def) (cases s; simp add: source_name_def)

fun command_fields :: "moderation \<Rightarrow> moderation_command \<Rightarrow> (string \<times> string) list" where
  "command_fields m Raise = [(''type'', if ownHand m then ''hand-lower'' else ''hand-raise'')]"
| "command_fields m (Clear t) = [(''type'', ''hand-clear''), (''targetPeerId'', t)]"
| "command_fields m (Remove t) = [(''type'', ''peer-remove''), (''targetPeerId'', t)]"
| "command_fields m (Request_Stop t s) = [(''type'', ''publication-stop''), (''targetPeerId'', t), (''source'', source_name s)]"
| "command_fields m (Assign_Presenter t) = [(''type'', ''presenter-assign''), (''targetPeerId'', t)]"
| "command_fields m Cancel_Remove = [(''type'', ''peer-remove-cancel'')]"
| "command_fields m (Set_Whiteboard_Policy p) = [(''type'', ''whiteboard-policy-set''), (''policy'', policy_name p)]"
| "command_fields m (Set_Diagram_Policy p) = [(''type'', ''diagram-policy-set''), (''policy'', policy_name p)]"

lemma command_message:
  "run_command m cmd = Some (JObj message) \<Longrightarrow> message = map (\<lambda>(k, s). (k, JStr s)) (command_fields m cmd)"
  by (cases cmd) (auto split: if_splits)

lemma command_parsed:
  assumes "run_command m cmd = Some (JObj message)" "list_all PEER_ID (command_targets cmd)"
  shows "parse_moderation_request message = Some (Inr (request_of m cmd))"
proof -
  have str: "string_or_empty (JStr t) = t" for t by (simp add: string_or_empty_def)
  note defs = parse_moderation_request_def parse_publication_stop_def request_of_def target_field_def policy_field_def js_get_def only_fields_def
    js_keys_def Let_def str policy_name_def source_name_def
  show ?thesis
  proof (cases cmd)
    case (Request_Stop t s)
    then show ?thesis using assms(2) unfolding command_message [OF assms(1)] by (cases s) (simp_all add: defs)
  next
    case (Set_Whiteboard_Policy p)
    then show ?thesis unfolding command_message [OF assms(1)] by (cases p) (simp_all add: defs)
  next
    case (Set_Diagram_Policy p)
    then show ?thesis unfolding command_message [OF assms(1)] by (cases p) (simp_all add: defs)
  qed (use assms(2) in \<open>simp_all add: command_message [OF assms(1)] defs\<close>)
qed

lemma command_received:
  assumes "run_command m cmd = Some (JObj message)" "list_all PEER_ID (command_targets cmd)"
  shows "parseJson (stringify (JObj message)) = Inr message"
proof (rule string_message_received)
  show "message = map (\<lambda>(k, s). (k, JStr s)) (command_fields m cmd)"
    using assms(1) by (rule command_message)
  show "distinct (map fst (command_fields m cmd))" by (cases cmd) simp_all
  show "sum_list (map (\<lambda>(k, s). 6 * length k + 6 * length s + 6) (command_fields m cmd)) \<le> 90000"
    using assms(2) by (cases cmd) (auto simp: PEER_ID_length intro: order_trans [OF name_lengths(1)] order_trans [OF name_lengths(2)])
qed

lemma own_participant:
  assumes ok: "room_ok room" and a: "map_of (sr_peers room) own = Some actor"
  shows "find_own (room_view room epoch audit own) = Some (moderationParticipant actor (sr_creatorPrincipal room))"
proof -
  have m: "members_ok (sr_peers room) (sr_capacity room)" using ok by (simp add: room_ok_def)
  let ?p = "moderationParticipant actor (sr_creatorPrincipal room)"
  have mem: "?p \<in> set (room_participants room)"
    using map_of_SomeD [OF a] by (auto simp: room_participants_def intro: rev_image_eqI)
  have id: "pt_peerId ?p = own" using members_ok_member [OF m a] by (simp add: moderationParticipant_def)
  have "find (\<lambda>p. pt_peerId p = own) ps = Some ?p" if "?p \<in> set ps" "distinct (map pt_peerId ps)" for ps
    using that by (induction ps) (auto simp: id intro: rev_image_eqI)
  from this [OF mem room_participants_ok(2) [OF ok]] show ?thesis by (simp add: find_own_def room_view_def)
qed

text \<open>C38. The client offers only what the server grants: a command of a member whose view is the room's
  snapshot, about members of the room, arrives as a well-formed request, and the server carries it out unless
  the room is a pair or the member a machine, a rate limit is reached, or a removal is already pending. In
  particular it never answers that the command is forbidden or malformed.\<close>

theorem offered_commands_granted:
  assumes "list_all event_ok events" "rg_room (registry_run maxParticipants events) = Some room"
    and "joined room ref = Some actor"
    and "run_command (room_view room epoch audit (fst ref)) cmd = Some (JObj message)"
    and "set (command_targets cmd) \<subseteq> set (map_keys (sr_peers room))" and "clock_ok now"
  shows "\<exists>request. parseJson (stringify (JObj message)) = Inr message
    \<and> parse_moderation_request message = Some (Inr request)
    \<and> granted (serve_request room ref request now)"
proof -
  let ?view = "room_view room epoch audit (fst ref)"
  have ok: "room_ok room" using registry_run_ok [OF assms(1), of maxParticipants] assms(2) by (auto simp: registry_ok_def)
  have m: "members_ok (sr_peers room) (sr_capacity room)" using ok by (simp add: room_ok_def)
  have a: "map_of (sr_peers room) (fst ref) = Some actor" using joined_member [OF assms(3)] by simp
  have id: "sp_id actor = fst ref" "PEER_ID (fst ref)" using members_ok_member [OF m a] by simp_all
  have peers: "PEER_ID k" if "k \<in> set (map_keys (sr_peers room))" for k using that m by (auto simp: members_ok_def list_all_iff)
  then have targets: "list_all PEER_ID (command_targets cmd)" using assms(5) by (simp add: list_all_iff subset_iff)
  have role: "ownRole ?view = peerRole actor (sr_creatorPrincipal room)"
    by (simp add: ownRole_def own_participant [OF ok a]) (simp add: moderationParticipant_def)
  have member: "\<exists>p. map_of (sr_peers room) k = Some p" if "k \<in> set (map_keys (sr_peers room))" for k
    using that by (metis list.set_map map_of_eq_None_iff not_Some_eq)
  have act: "joined room ref = Some actor" "PEER_ID (sp_id actor)" using assms(3) id by simp_all
  have pending: "\<exists>p. sr_pendingRemove room = Some p \<and> PEER_ID (sv_targetPeerId p)" if "visible_pending room \<noteq> None"
    using that peers by (auto simp: visible_pending_def split: option.splits if_splits)
  have policy: "may_set_policy room actor" if "canControl ?view"
    using that role id by (auto simp: canControl_def ownPresenter_def may_set_policy_def room_view_def)
  have "granted (serve_request room ref (request_of ?view cmd) now)"
  proof (cases cmd)
    case Raise
    then show ?thesis using granted_by_role(1) [OF act assms(6)] by (simp add: request_of_def HANDS_def)
  next
    case Cancel_Remove
    then show ?thesis using assms(4) pending role granted_cancel [OF act assms(6)]
      by (auto simp: request_of_def room_view_def split: if_splits)
  next
    case (Set_Whiteboard_Policy p)
    then show ?thesis using assms(4) policy granted_by_role(2) [OF act assms(6)] by (simp add: request_of_def split: if_splits)
  next
    case (Set_Diagram_Policy p)
    then show ?thesis using assms(4) policy granted_by_role(3) [OF act assms(6)] by (simp add: request_of_def split: if_splits)
  qed (use assms(4,5) member peers role id granted_to_owner [OF act assms(6)] in
      \<open>fastforce simp: request_of_def target_id_def room_view_def split: if_splits\<close>)+
  then show ?thesis using command_received [OF assms(4) targets] command_parsed [OF assms(4) targets] by blast
qed


subsection \<open>Rate limits\<close>

text \<open>The requests the limiter lets through, and the reference that remembers all of them.\<close>

fun admitted :: "int list \<Rightarrow> int list \<Rightarrow> int list" where
  "admitted stamps [] = []"
| "admitted stamps (t # ts) =
     (case rate_limit t stamps of (stamps', ok) \<Rightarrow> if ok then t # admitted stamps' ts else admitted stamps' ts)"

fun sliding_window :: "int list \<Rightarrow> int list \<Rightarrow> int list" where
  "sliding_window history [] = []"
| "sliding_window history (t # ts) =
     (if length (filter (\<lambda>s. t - s < 10000) history) < 6 then t # sliding_window (history @ [t]) ts
      else sliding_window history ts)"

lemma admitted_sliding_window:
  assumes "sorted (now # ts)" "\<And>t. now \<le> t \<Longrightarrow> filter (\<lambda>s. t - s < 10000) stamps = filter (\<lambda>s. t - s < 10000) history"
  shows "admitted stamps ts = sliding_window history ts"
  using assms
proof (induction ts arbitrary: now stamps history)
  case (Cons t ts)
  have narrow: "filter (\<lambda>s. u - s < 10000) (filter (\<lambda>s. t - s < 10000) stamps) = filter (\<lambda>s. u - s < 10000) history"
    if "t \<le> u" for u
  proof -
    have "(\<lambda>s. t - s < 10000 \<and> u - s < 10000) = (\<lambda>s. u - s < 10000)" using that by fastforce
    then show ?thesis using Cons.prems that by (simp add: conj_commute)
  qed
  have "admitted (filter (\<lambda>s. t - s < 10000) stamps @ [t]) ts = sliding_window (history @ [t]) ts"
    "admitted (filter (\<lambda>s. t - s < 10000) stamps) ts = sliding_window history ts"
    using Cons.prems(1) narrow by (auto intro!: Cons.IH [of t])
  then show ?case using Cons.prems
    by (simp add: rate_limit_def HAND_RATE_WINDOW_MS_def HAND_RATE_LIMIT_def Let_def)
qed simp

lemma window_full:
  assumes "sorted history" "6 \<le> length history" "length (filter (\<lambda>s. t - s < (w :: int)) history) < 6"
  shows "w \<le> t - history ! (length history - 6)"
proof (rule ccontr)
  let ?last = "drop (length history - 6) history"
  assume "\<not> w \<le> t - history ! (length history - 6)"
  moreover have "history ! (length history - 6) \<le> s" if s: "s \<in> set ?last" for s
  proof -
    obtain i where "i < length ?last" "s = ?last ! i" using s unfolding in_set_conv_nth by blast
    then have "i < 6" "s = history ! (length history - 6 + i)" using assms(2) by simp_all
    then show ?thesis using sorted_nth_mono [OF assms(1), of "length history - 6" "length history - 6 + i"] assms(2) by simp
  qed
  ultimately have "\<forall>s \<in> set ?last. t - s < w" by force
  then have "length (filter (\<lambda>s. t - s < w) ?last) = 6" using assms(2) by simp
  moreover have "length (filter (\<lambda>s. t - s < w) ?last) \<le> length (filter (\<lambda>s. t - s < w) history)"
    by (metis append_take_drop_id filter_append length_append le_add2)
  ultimately show False using assms(3) by simp
qed

lemma sliding_window_spaced:
  assumes "sorted (history @ ts)" "\<And>i. i + 6 < length history \<Longrightarrow> 10000 \<le> history ! (i + 6) - history ! i"
    and "i + 6 < length (history @ sliding_window history ts)"
  shows "10000 \<le> (history @ sliding_window history ts) ! (i + 6) - (history @ sliding_window history ts) ! i"
  using assms
proof (induction ts arbitrary: history)
  case (Cons t ts)
  show ?case
  proof (cases "length (filter (\<lambda>s. t - s < 10000) history) < 6")
    case True
    have "10000 \<le> (history @ [t]) ! (j + 6) - (history @ [t]) ! j" if j: "j + 6 < length (history @ [t])" for j
    proof (cases "j + 6 = length history")
      case eq: True
      then have "j = length history - 6" "6 \<le> length history" by simp_all
      then show ?thesis using window_full [OF _ _ True] Cons.prems(1) eq by (simp add: nth_append sorted_append)
    next
      case False
      then show ?thesis using Cons.prems(2) [of j] j by (simp add: nth_append)
    qed
    then show ?thesis using Cons.IH [of "history @ [t]"] Cons.prems True by simp
  next
    case False
    then show ?thesis using Cons.IH [of history] Cons.prems by (simp add: sorted_append)
  qed
qed simp

text \<open>C39. The limiter of hands and moderation requests, which keeps only the stamps of the last ten seconds, is
  the sliding window over the whole past: requests that arrive in the order of the clock are let through
  exactly when fewer than six of the admitted ones are less than ten seconds old, so that of any seven
  admitted requests the first and the last are ten seconds apart.\<close>

theorem rate_limit_sliding_window:
  assumes "sorted requests"
  shows "admitted [] requests = sliding_window [] requests
    \<and> (\<forall>i. i + 6 < length (admitted [] requests) \<longrightarrow>
         10000 \<le> admitted [] requests ! (i + 6) - admitted [] requests ! i)"
proof -
  have "admitted [] requests = sliding_window [] requests"
  proof (cases requests)
    case (Cons t ts)
    then have "sorted (t # requests)" using assms by simp
    then show ?thesis by (rule admitted_sliding_window) simp
  qed simp
  then show ?thesis using sliding_window_spaced [of "[]" requests] assms by simp
qed

theorem rate_limit_sliding_window_witness:
  "sorted [0, 1, 2, 3, 4, 5, 6, 10000, 10001 :: int]
    \<and> admitted [] [0, 1, 2, 3, 4, 5, 6, 10000, 10001] = sliding_window [] [0, 1, 2, 3, 4, 5, 6, 10000, 10001]
    \<and> admitted [] [0, 1, 2, 3, 4, 5, 6, 10000, 10001] = [0, 1, 2, 3, 4, 5, 10000, 10001]"
proof -
  have s: "sorted [0, 1, 2, 3, 4, 5, 6, 10000, 10001 :: int]" by simp
  have "sliding_window [] [0, 1, 2, 3, 4, 5, 6, 10000, 10001] = [0, 1, 2, 3, 4, 5, 10000, 10001]" by simp
  then show ?thesis using rate_limit_sliding_window [OF s] s by simp
qed

subsection \<open>Every room\<close>

text \<open>C40. What holds of every room on the server: the members have different ids, each the one it is listed under;
  there are at most as many as the room admits; the audit log is bounded and ordered; the presenter is a
  human member, and there is one whenever a human owner is present.\<close>

theorem server_room_invariant:
  assumes "list_all event_ok events" "rg_room (registry_run maxParticipants events) = Some room"
  shows "distinct (map_keys (sr_peers room)) \<and> map sp_id (map snd (sr_peers room)) = map_keys (sr_peers room)
    \<and> length (sr_peers room) \<le> sr_capacity room
    \<and> length (sr_audit room) \<le> 256 \<and> sorted_wrt (<) (map ae_sequence (sr_audit room))
    \<and> (sr_presenterPeerId room = [] \<or> (\<exists>peer. map_of (sr_peers room) (sr_presenterPeerId room) = Some peer \<and> \<not> sp_machine peer))
    \<and> (sr_presenterPeerId room = [] \<longrightarrow>
         list_all (\<lambda>peer. peerRole peer (sr_creatorPrincipal room) \<noteq> Owner \<or> sp_machine peer) (map snd (sr_peers room)))"
proof -
  have ok: "room_ok room" using registry_run_ok [OF assms(1), of maxParticipants] assms(2) by (auto simp: registry_ok_def)
  then have "map sp_id (map snd (sr_peers room)) = map_keys (sr_peers room)"
    by (auto simp: room_ok_def members_ok_def list_all_iff)
  then show ?thesis using ok
    by (auto simp: room_ok_def members_ok_def presenter_ok_def audit_ok_def MODERATION_AUDIT_LIMIT_def list_all_iff)
qed


subsection \<open>A room with two members\<close>

definition demo_admission :: "string \<Rightarrow> admission" where
  "demo_admission who = \<lparr>ad_mode = ''room'', ad_breakout = False, ad_machine = False, ad_machineReceiveVersion = 1,
     ad_creatorPrincipal = ''alice'', ad_principal = who, ad_deviceFingerprint = ''''\<rparr>"

definition alice_ref :: peer_ref where "alice_ref = (replicate 16 CHR ''a'', 0)"
definition bob_ref :: peer_ref where "bob_ref = (replicate 16 CHR ''b'', 1)"

definition demo_events :: "(int \<times> room_event) list" where
  "demo_events =
     [(1000, Enter (demo_admission ''alice'') [replicate 8 170]), (1001, Enter (demo_admission ''bob'') [replicate 8 187]),
      (1002, Request bob_ref (Req_Hand ''raised'')), (1003, Request alice_ref (Req_Remove (JStr (fst bob_ref))))]"

definition demo_room :: server_room where
  "demo_room = the (rg_room (registry_run 4 demo_events))"

lemma demo_events_ok: "list_all event_ok demo_events" "int (length demo_events) \<le> MAX_SAFE_INTEGER"
  by (simp_all add: demo_events_def clock_range_def draws_ok_def MAX_SAFE_INTEGER_def REMOVE_UNDO_MS_def)

lemma demo_room_reached: "rg_room (registry_run 4 demo_events) = Some demo_room"
proof -
  have "rg_room (registry_run 4 demo_events) \<noteq> None" by code_simp
  then show ?thesis by (simp add: demo_room_def)
qed

lemma demo_room_members:
  "map_keys (sr_peers demo_room) = [fst alice_ref, fst bob_ref]" "sr_presenterPeerId demo_room = fst alice_ref"
  "handQueue demo_room = [fst bob_ref]"
  "joined demo_room alice_ref \<noteq> None" "joined demo_room bob_ref \<noteq> None"
  "peerRole (the (joined demo_room bob_ref)) (sr_creatorPrincipal demo_room) = Participant"
  by code_simp+


theorem moderation_snapshot_refines_witness:
  "\<exists>snapshot message. moderationSnapshot demo_room 1 True = Some snapshot
    \<and> receive_server_text (encodeServerMessage snapshot) = Some message
    \<and> apply_moderation new_moderation message = (room_view demo_room 1 True '''', [])
    \<and> handQueue demo_room = [fst bob_ref]"
  using moderation_snapshot_refines [OF demo_events_ok demo_room_reached, of 1 True new_moderation] demo_room_members(3)
  by (auto simp: MAX_SAFE_INTEGER_def new_moderation_def)

theorem moderation_needs_authority_witness:
  "sr_presenterPeerId (snd (serve_request demo_room bob_ref (Req_Presenter (JStr (fst bob_ref))) 2000)) = fst alice_ref
    \<and> sr_pendingRemove (snd (serve_request demo_room bob_ref Req_Cancel 2000)) = sr_pendingRemove demo_room"
proof -
  obtain bob where j: "joined demo_room bob_ref = Some bob" using demo_room_members(5) by blast
  have p: "peerRole bob (sr_creatorPrincipal demo_room) \<noteq> Owner" using demo_room_members(6) by (simp add: j)
  have s: "serve_request demo_room bob_ref request 2000 =
      (fst (serve_request demo_room bob_ref request 2000), snd (serve_request demo_room bob_ref request 2000))" for request
    by simp
  note t = moderation_needs_authority [OF demo_events_ok(1) demo_room_reached s]
  show ?thesis using t [of "Req_Presenter (JStr (fst bob_ref))"] t [of Req_Cancel] j p demo_room_members(2) by (simp add: Let_def)
qed

theorem offered_commands_granted_witness:
  "\<exists>request. parse_moderation_request [(''type'', JStr ''hand-clear''), (''targetPeerId'', JStr (fst bob_ref))] = Some (Inr request)
    \<and> granted (serve_request demo_room alice_ref request 2000)"
proof -
  obtain alice where j: "joined demo_room alice_ref = Some alice" using demo_room_members(4) by blast
  have "run_command (room_view demo_room 1 True (fst alice_ref)) (Clear (fst bob_ref))
      = Some (JObj [(''type'', JStr ''hand-clear''), (''targetPeerId'', JStr (fst bob_ref))])"
    by code_simp
  from offered_commands_granted [OF demo_events_ok(1) demo_room_reached j this, of 2000] show ?thesis
    by (auto simp: demo_room_members clock_ok_def MAX_SAFE_INTEGER_def)
qed

theorem server_room_invariant_witness:
  "length (sr_peers demo_room) \<le> sr_capacity demo_room
    \<and> (\<exists>peer. map_of (sr_peers demo_room) (fst alice_ref) = Some peer \<and> \<not> sp_machine peer)"
  using server_room_invariant [OF demo_events_ok(1) demo_room_reached] demo_room_members(2)
  by (auto simp: alice_ref_def)

end
