(* ===== verification/Media_Key_Protocol.thy ===== *)
theory Media_Key_Protocol
  imports Overlay_Packet Sframe_Worker
begin

text \<open>
  \<^verbatim>\<open>webrtc/media-e2ee-protocol.ts\<close>: the two messages by which peers agree on a media key. A message is the JSON
  object itself, since the parser tests the text of a field (\<open>String(value)\<close>) but hands on the object it was given:
  a field that passes is not always a string. The laws: what a peer creates and sends is parsed as the same
  message, and an acknowledgement repeats the fields of the key message it answers.
\<close>

type_synonym media_message = "(string \<times> jsval) list"

definition MEDIA_E2EE_CIPHER_SUITE :: string where "MEDIA_E2EE_CIPHER_SUITE = ''AES_128_GCM_SHA256_128''"
definition MEDIA_E2EE_PROTOCOL_VERSION :: int where "MEDIA_E2EE_PROTOCOL_VERSION = 2"

definition TRACK_ID :: "string \<Rightarrow> bool" where "TRACK_ID = matches context_char 1 128"
definition BASE_KEY :: "string \<Rightarrow> bool" where "BASE_KEY = matches base64url_char 22 22"

definition encode_base_key :: "bytes \<Rightarrow> string" where
  "encode_base_key bs = strip_end CHR ''='' (replaceAll CHR ''/'' CHR ''_'' (replaceAll CHR ''+'' CHR ''-'' (btoa bs)))"

text \<open>On a value that is not a string \<open>replaceAll\<close> is no function; the \<open>catch\<close> turns that into \<open>null\<close>.\<close>

definition decode_base_key :: "jsval \<Rightarrow> bytes option" where
  "decode_base_key v =
     (if \<not> BASE_KEY (js_to_string v) then None
      else case v of JStr s \<Rightarrow>
        let normalized = replaceAll CHR ''_'' CHR ''/'' (replaceAll CHR ''-'' CHR ''+'' s) in
        (case atob (pad_end ((length normalized + 3) div 4 * 4) CHR ''='' normalized) of None \<Rightarrow> None
         | Some bs \<Rightarrow> if length bs = SFRAME_BASE_KEY_BYTES then Some bs else None)
      | _ \<Rightarrow> None)"

definition MEDIA_KEY_FIELDS :: "string list" where
  "MEDIA_KEY_FIELDS = [''version'', ''type'', ''publicationId'', ''senderPeerId'', ''membershipEpoch'', ''keyId'',
     ''cipherSuite'', ''frameEnvelope'', ''baseKey'']"

definition MEDIA_KEY_ACK_FIELDS :: "string list" where
  "MEDIA_KEY_ACK_FIELDS = [''version'', ''type'', ''publicationId'', ''senderPeerId'', ''membershipEpoch'', ''keyId'',
     ''frameEnvelope'']"

definition key_message :: "string \<Rightarrow> string \<Rightarrow> int \<Rightarrow> string \<Rightarrow> bytes \<Rightarrow> media_message" where
  "key_message publicationId senderPeerId membershipEpoch keyId baseKey =
     [(''version'', JInt MEDIA_E2EE_PROTOCOL_VERSION), (''type'', JStr ''media-key''),
      (''publicationId'', JStr publicationId), (''senderPeerId'', JStr senderPeerId),
      (''membershipEpoch'', JInt membershipEpoch), (''keyId'', JStr keyId),
      (''cipherSuite'', JStr MEDIA_E2EE_CIPHER_SUITE), (''frameEnvelope'', JStr SFRAME_MEDIA_ENVELOPE),
      (''baseKey'', JStr (encode_base_key baseKey))]"

definition createMediaKeyMessage ::
  "string \<Rightarrow> string \<Rightarrow> int \<Rightarrow> string \<Rightarrow> bytes \<Rightarrow> string + media_message" where
  "createMediaKeyMessage publicationId senderPeerId membershipEpoch keyId baseKey =
     (if \<not> TRACK_ID publicationId \<or> \<not> PEER_ID senderPeerId
         \<or> \<not> num_safe_integer (NInt membershipEpoch) \<or> membershipEpoch < 1
         \<or> \<not> KEY_ID keyId \<or> length baseKey \<noteq> SFRAME_BASE_KEY_BYTES
      then Inl ''invalid_media_key''
      else Inr (key_message publicationId senderPeerId membershipEpoch keyId baseKey))"

definition createMediaKeyAck :: "media_message \<Rightarrow> media_message" where
  "createMediaKeyAck message =
     [(''version'', JInt MEDIA_E2EE_PROTOCOL_VERSION), (''type'', JStr ''media-key-ack''),
      (''publicationId'', js_get message ''publicationId''), (''senderPeerId'', js_get message ''senderPeerId''),
      (''membershipEpoch'', js_get message ''membershipEpoch''), (''keyId'', js_get message ''keyId''),
      (''frameEnvelope'', js_get message ''frameEnvelope'')]"

text \<open>The tests both kinds of message share.\<close>

definition common_fields_ok :: "media_message \<Rightarrow> bool" where
  "common_fields_ok message \<longleftrightarrow>
     js_get message ''version'' = JInt MEDIA_E2EE_PROTOCOL_VERSION
     \<and> TRACK_ID (string_or_empty (js_get message ''publicationId''))
     \<and> PEER_ID (string_or_empty (js_get message ''senderPeerId''))
     \<and> js_integer (js_get message ''membershipEpoch'') 1 MAX_SAFE_INTEGER \<noteq> None
     \<and> KEY_ID (string_or_empty (js_get message ''keyId''))
     \<and> js_get message ''frameEnvelope'' = JStr SFRAME_MEDIA_ENVELOPE"

definition parseMediaE2eeMessage :: "jsval \<Rightarrow> media_message option" where
  "parseMediaE2eeMessage raw =
     (case js_object raw of None \<Rightarrow> None
      | Some message \<Rightarrow>
        if js_get message ''type'' = JStr ''media-key'' then
          (if \<not> exact_fields message MEDIA_KEY_FIELDS \<or> \<not> common_fields_ok message
              \<or> js_get message ''cipherSuite'' \<noteq> JStr MEDIA_E2EE_CIPHER_SUITE then None
           else case decode_base_key (JStr (string_or_empty (js_get message ''baseKey''))) of None \<Rightarrow> None
             | Some _ \<Rightarrow> Some message)
        else if js_get message ''type'' = JStr ''media-key-ack'' then
          (if \<not> exact_fields message MEDIA_KEY_ACK_FIELDS \<or> \<not> common_fields_ok message then None
           else Some message)
        else None)"

definition decodeMediaBaseKey :: "media_message \<Rightarrow> string + bytes" where
  "decodeMediaBaseKey message =
     (case decode_base_key (js_get message ''baseKey'') of None \<Rightarrow> Inl ''invalid_media_key'' | Some key \<Rightarrow> Inr key)"

definition keyIdToBigInt :: "string \<Rightarrow> string + int" where
  "keyIdToBigInt keyId =
     (if \<not> KEY_ID keyId then Inl ''invalid_media_key_id''
      else case radix_value 16 0 keyId of None \<Rightarrow> Inl ''SyntaxError'' | Some n \<Rightarrow> Inr (int n))"

definition hex_byte :: "nat \<Rightarrow> string" where
  "hex_byte b = [hex_char (b div 16), hex_char (b mod 16)]"

text \<open>The two results of \<open>crypto.getRandomValues\<close>, eight and sixteen bytes, are arguments.\<close>

definition randomMediaKey :: "bytes \<Rightarrow> bytes \<Rightarrow> string \<times> bytes" where
  "randomMediaKey idBytes keyBytes = (concat (map hex_byte idBytes), keyBytes)"

text \<open>\<open>new TextEncoder().encode(JSON.stringify(message))\<close> and the \<open>try\<close> that reads it.\<close>

definition encode_envelope :: "media_message \<Rightarrow> bytes" where
  "encode_envelope message = text_encode (stringify (JObj message))"

definition read_envelope :: "bytes \<Rightarrow> media_message option" where
  "read_envelope data = Option.bind (json_parse (text_decode data)) parseMediaE2eeMessage"

subsection \<open>Random keys\<close>

lemma hex_char_inj: "d < 16 \<Longrightarrow> e < 16 \<Longrightarrow> hex_char d = hex_char e \<longleftrightarrow> d = e"
  unfolding hex_char_def by (rule nth_eq_iff_index_eq) simp_all

lemma hex_byte_inj: "b < 256 \<Longrightarrow> c < 256 \<Longrightarrow> hex_byte b = hex_byte c \<longleftrightarrow> b = c"
  unfolding hex_byte_def by (simp add: hex_char_inj less_mult_imp_div_less) (metis div_mult_mod_eq)

lemma hex_bytes_inj:
  "\<lbrakk>byte_seq xs; byte_seq ys; length xs = length ys; concat (map hex_byte xs) = concat (map hex_byte ys)\<rbrakk> \<Longrightarrow> xs = ys"
proof (induction xs ys rule: list_induct2')
  case (4 x xs y ys)
  have "hex_byte x = hex_byte y \<and> concat (map hex_byte xs) = concat (map hex_byte ys)"
    using "4.prems"(4) by (simp add: hex_byte_def [of x] hex_byte_def [of y])
  with 4 show ?case by (auto simp: hex_byte_inj)
qed auto

definition random_key_ok :: "bytes \<times> bytes \<Rightarrow> bool" where
  "random_key_ok r \<longleftrightarrow> length (fst r) = 8 \<and> byte_seq (fst r) \<and> length (snd r) = SFRAME_BASE_KEY_BYTES \<and> byte_seq (snd r)"

lemma KEY_ID_random: "random_key_ok (i, k) \<Longrightarrow> KEY_ID (fst (randomMediaKey i k))"
proof -
  assume r: "random_key_ok (i, k)"
  have "length (concat (map hex_byte i)) = 2 * length i" by (induction i) (auto simp: hex_byte_def)
  moreover have "list_all lower_hex (concat (map hex_byte i))"
    using r by (auto simp: random_key_ok_def list_all_iff hex_byte_def intro!: hex_char_lower)
  ultimately show ?thesis using r by (simp add: KEY_ID_def matches_def randomMediaKey_def random_key_ok_def)
qed

lemma random_key_id_inj:
  assumes "random_key_ok r" "random_key_ok s"
    and "fst (randomMediaKey (fst r) (snd r)) = fst (randomMediaKey (fst s) (snd s))"
  shows "fst r = fst s"
  using assms hex_bytes_inj [of "fst r" "fst s"] by (simp add: random_key_ok_def randomMediaKey_def)

subsection \<open>Messages are read back\<close>

lemma encode_base_key_url: "encode_base_key bs = base64url_encode bs"
  by (simp add: encode_base_key_def base64url_encode_def)

lemma decode_encode_base_key:
  assumes "byte_seq key" "length key = SFRAME_BASE_KEY_BYTES"
  shows "decode_base_key (JStr (encode_base_key key)) = Some key"
proof -
  have len: "length key = 16" using assms(2) by (simp add: SFRAME_BASE_KEY_BYTES_def)
  have "BASE_KEY (base64url_encode key)"
    using base64url_chars [OF assms(1)] length_base64url [OF assms(1)] by (simp add: BASE_KEY_def matches_def len)
  moreover have "base64url_decode (base64url_encode key) = Inr key"
    using assms(1) len by (intro base64url_roundtrip) auto
  ultimately show ?thesis
    using len by (auto simp: decode_base_key_def encode_base_key_url base64url_decode_def SFRAME_BASE_KEY_BYTES_def Let_def
        split: if_splits option.splits)
qed

lemma decode_base_key_length: "decode_base_key v = Some key \<Longrightarrow> length key = 16"
  by (auto simp: decode_base_key_def Let_def SFRAME_BASE_KEY_BYTES_def split: if_splits jsval.splits option.splits)

text \<open>A message \<open>createMediaKeyMessage\<close> returns, by its five inputs.\<close>

definition key_input_ok :: "string \<Rightarrow> string \<Rightarrow> int \<Rightarrow> string \<Rightarrow> bytes \<Rightarrow> bool" where
  "key_input_ok pub sender epoch keyId key \<longleftrightarrow>
     TRACK_ID pub \<and> PEER_ID sender \<and> 1 \<le> epoch \<and> epoch \<le> MAX_SAFE_INTEGER \<and> KEY_ID keyId
     \<and> length key = SFRAME_BASE_KEY_BYTES \<and> byte_seq key"

lemma createMediaKeyMessage_Inr:
  "createMediaKeyMessage pub sender epoch keyId key = Inr message \<Longrightarrow> byte_seq key
   \<Longrightarrow> key_input_ok pub sender epoch keyId key \<and> message = key_message pub sender epoch keyId key"
  by (auto simp: createMediaKeyMessage_def key_input_ok_def MAX_SAFE_INTEGER_def split: if_splits)

lemma createMediaKeyMessage_ok:
  "key_input_ok pub sender epoch keyId key
   \<Longrightarrow> createMediaKeyMessage pub sender epoch keyId key = Inr (key_message pub sender epoch keyId key)"
  by (simp add: createMediaKeyMessage_def key_input_ok_def MAX_SAFE_INTEGER_def)

lemma js_get_key_message [simp]:
  "js_get (key_message pub sender epoch keyId key) ''version'' = JInt MEDIA_E2EE_PROTOCOL_VERSION"
  "js_get (key_message pub sender epoch keyId key) ''type'' = JStr ''media-key''"
  "js_get (key_message pub sender epoch keyId key) ''publicationId'' = JStr pub"
  "js_get (key_message pub sender epoch keyId key) ''senderPeerId'' = JStr sender"
  "js_get (key_message pub sender epoch keyId key) ''membershipEpoch'' = JInt epoch"
  "js_get (key_message pub sender epoch keyId key) ''keyId'' = JStr keyId"
  "js_get (key_message pub sender epoch keyId key) ''cipherSuite'' = JStr MEDIA_E2EE_CIPHER_SUITE"
  "js_get (key_message pub sender epoch keyId key) ''frameEnvelope'' = JStr SFRAME_MEDIA_ENVELOPE"
  "js_get (key_message pub sender epoch keyId key) ''baseKey'' = JStr (encode_base_key key)"
  by (simp_all add: key_message_def js_get_def)

lemma js_get_ack [simp]:
  "js_get (createMediaKeyAck m) ''version'' = JInt MEDIA_E2EE_PROTOCOL_VERSION"
  "js_get (createMediaKeyAck m) ''type'' = JStr ''media-key-ack''"
  "js_get (createMediaKeyAck m) ''publicationId'' = js_get m ''publicationId''"
  "js_get (createMediaKeyAck m) ''senderPeerId'' = js_get m ''senderPeerId''"
  "js_get (createMediaKeyAck m) ''membershipEpoch'' = js_get m ''membershipEpoch''"
  "js_get (createMediaKeyAck m) ''keyId'' = js_get m ''keyId''"
  "js_get (createMediaKeyAck m) ''frameEnvelope'' = js_get m ''frameEnvelope''"
  by (simp_all add: createMediaKeyAck_def js_get_def)

lemma exact_key_message: "exact_fields (key_message pub sender epoch keyId key) MEDIA_KEY_FIELDS"
  by (simp add: exact_fields_def key_message_def MEDIA_KEY_FIELDS_def js_keys_def js_has_def)

lemma exact_ack: "exact_fields (createMediaKeyAck m) MEDIA_KEY_ACK_FIELDS"
  by (simp add: exact_fields_def createMediaKeyAck_def MEDIA_KEY_ACK_FIELDS_def js_keys_def js_has_def)

lemma common_key_message: "key_input_ok pub sender epoch keyId key \<Longrightarrow> common_fields_ok (key_message pub sender epoch keyId key)"
  by (simp add: common_fields_ok_def key_input_ok_def MAX_SAFE_INTEGER_def)

lemma common_ack: "common_fields_ok m \<Longrightarrow> common_fields_ok (createMediaKeyAck m)"
  by (simp add: common_fields_ok_def)

lemma parse_key_message:
  assumes "key_input_ok pub sender epoch keyId key"
  shows "parseMediaE2eeMessage (JObj (key_message pub sender epoch keyId key)) = Some (key_message pub sender epoch keyId key)"
  using assms exact_key_message common_key_message [OF assms] decode_encode_base_key [of key]
  by (simp add: parseMediaE2eeMessage_def key_input_ok_def)

lemma parse_ack: "common_fields_ok m \<Longrightarrow> parseMediaE2eeMessage (JObj (createMediaKeyAck m)) = Some (createMediaKeyAck m)"
  using exact_ack [of m] common_ack [of m] by (simp add: parseMediaE2eeMessage_def)

lemma ascii_class:
  assumes "matches cls lo hi s" and "\<And>c. cls c \<Longrightarrow> (of_char c :: nat) < 128" shows "utf8_ok s"
  using assms by (intro ascii_utf8_ok) (auto simp: matches_def list_all_iff ascii_def)

lemma context_char_ascii: "context_char c \<Longrightarrow> (of_char c :: nat) < 128"
  by (auto simp: context_char_def)

lemma key_input_utf8:
  assumes "key_input_ok pub sender epoch keyId key"
  shows "utf8_ok pub" "utf8_ok sender" "utf8_ok keyId" "utf8_ok (encode_base_key key)"
proof -
  show "utf8_ok pub" using assms context_char_ascii by (auto simp: key_input_ok_def TRACK_ID_def intro: ascii_class)
  show "utf8_ok sender" using assms lower_hex_ascii by (auto simp: key_input_ok_def PEER_ID_def intro: ascii_class)
  show "utf8_ok keyId" using assms lower_hex_ascii by (auto simp: key_input_ok_def KEY_ID_def intro: ascii_class)
  have "list_all base64url_char (encode_base_key key)"
    using assms base64url_chars by (simp add: key_input_ok_def encode_base_key_url)
  then show "utf8_ok (encode_base_key key)"
    using base64url_char_ascii by (intro ascii_utf8_ok) (auto simp: ascii_def list_all_iff)
qed

lemma read_encode_envelope:
  assumes "json_clean (JObj m)" "js_utf8 (JObj m)"
  shows "read_envelope (encode_envelope m) = parseMediaE2eeMessage (JObj m)"
  using decode_json_encode [OF refl assms] by (simp add: read_envelope_def encode_envelope_def)

lemma field_names_utf8: "k \<in> set MEDIA_KEY_FIELDS \<Longrightarrow> utf8_ok k"
  by (rule ascii_utf8_ok) (auto simp: MEDIA_KEY_FIELDS_def ascii_def)

lemma constants_utf8: "utf8_ok ''media-key''" "utf8_ok ''media-key-ack''" "utf8_ok MEDIA_E2EE_CIPHER_SUITE" "utf8_ok SFRAME_MEDIA_ENVELOPE"
  by (intro ascii_utf8_ok; simp add: ascii_def MEDIA_E2EE_CIPHER_SUITE_def SFRAME_MEDIA_ENVELOPE_def)+

lemma read_key_message:
  assumes "key_input_ok pub sender epoch keyId key"
  shows "read_envelope (encode_envelope (key_message pub sender epoch keyId key)) = Some (key_message pub sender epoch keyId key)"
proof -
  let ?m = "key_message pub sender epoch keyId key"
  have "json_clean (JObj ?m)"
    using assms by (simp add: key_message_def key_input_ok_def MAX_SAFE_INTEGER_def MEDIA_E2EE_PROTOCOL_VERSION_def)
  moreover have "fst ` set ?m = set MEDIA_KEY_FIELDS" by (simp add: key_message_def MEDIA_KEY_FIELDS_def)
  then have "\<forall>kv \<in> set ?m. utf8_ok (fst kv)" using field_names_utf8 by blast
  moreover have "\<forall>kv \<in> set ?m. js_utf8 (snd kv)"
    using key_input_utf8 [OF assms] constants_utf8 by (simp add: key_message_def)
  ultimately show ?thesis using parse_key_message [OF assms] by (simp add: read_encode_envelope)
qed

lemma read_ack_message:
  assumes "key_input_ok pub sender epoch keyId key"
  shows "read_envelope (encode_envelope (createMediaKeyAck (key_message pub sender epoch keyId key))) =
    Some (createMediaKeyAck (key_message pub sender epoch keyId key))"
proof -
  let ?m = "createMediaKeyAck (key_message pub sender epoch keyId key)"
  have "json_clean (JObj ?m)"
    using assms by (simp add: createMediaKeyAck_def key_input_ok_def MAX_SAFE_INTEGER_def MEDIA_E2EE_PROTOCOL_VERSION_def)
  moreover have "fst ` set ?m \<subseteq> set MEDIA_KEY_FIELDS" by (simp add: createMediaKeyAck_def MEDIA_KEY_FIELDS_def)
  then have "\<forall>kv \<in> set ?m. utf8_ok (fst kv)" using field_names_utf8 by blast
  moreover have "\<forall>kv \<in> set ?m. js_utf8 (snd kv)"
    using key_input_utf8 [OF assms] constants_utf8 by (simp add: createMediaKeyAck_def)
  ultimately show ?thesis using parse_ack [OF common_key_message [OF assms]] by (simp add: read_encode_envelope)
qed

lemma decode_key_message: "key_input_ok pub sender epoch keyId key \<Longrightarrow> decodeMediaBaseKey (key_message pub sender epoch keyId key) = Inr key"
  using decode_encode_base_key [of key] by (simp add: decodeMediaBaseKey_def key_input_ok_def)

text \<open>What the parser lets through: the fields of a parsed message, and the numbers that fit.\<close>

lemma parsed_common: "parseMediaE2eeMessage raw = Some m \<Longrightarrow> raw = JObj m \<and> common_fields_ok m"
  unfolding parseMediaE2eeMessage_def by (cases raw) (auto simp del: char.inject split: if_split_asm option.split_asm)

lemma parsed_type: "parseMediaE2eeMessage raw = Some m \<Longrightarrow> js_get m ''type'' \<in> {JStr ''media-key'', JStr ''media-key-ack''}"
  unfolding parseMediaE2eeMessage_def by (cases raw) (auto split: if_split_asm option.split_asm)

lemma radix_value_bound: "radix_value 16 a s = Some n \<Longrightarrow> n < (a + 1) * 16 ^ length s"
proof (induction s arbitrary: a)
  case (Cons c s)
  then obtain d where d: "hex_value c = Some d" "d < 16" "radix_value 16 (16 * a + d) s = Some n"
    by (auto split: option.splits if_splits simp: mult.commute simp del: hex_value.simps)
  then have "n < (16 * a + d + 1) * 16 ^ length s" using Cons.IH by blast
  also have "\<dots> \<le> (16 * a + 16) * 16 ^ length s" using d(2) by (intro mult_right_mono) auto
  finally show ?case by (simp add: algebra_simps)
qed simp

lemma keyIdToBigInt_64_bit: "keyIdToBigInt keyId = Inr n \<Longrightarrow> 0 \<le> n \<and> n < 2 ^ 64"
  using radix_value_bound [of 0 keyId] by (auto simp: keyIdToBigInt_def KEY_ID_def matches_def split: if_splits option.splits)

end
