(* ===== verification/Media_Controller.thy ===== *)
theory Media_Controller
  imports Media_Key_Protocol
begin

text \<open>
  \<^verbatim>\<open>webrtc/media-e2ee-controller.ts\<close>: the page's end of the SFrame worker. The record \<open>media_controller\<close> has the
  object's fields; \<open>mc_posted\<close> is the log of what was done to its workers, in order. The key id a caller hands over is a
  JSON value, as in the messages it comes from. Whether the browser has script transforms and whether the
  constructor of a transform throws are inputs.
\<close>

datatype media_command =
  Set_Key direction string jsval bytes
| Clear_Context string
| Clear_All

datatype worker_action = New_Worker | Post media_command | Terminate

record media_controller =
  mc_supported :: bool
  mc_attached :: "(nat \<times> string) list"
  mc_worker :: bool
  mc_workerFailed :: bool
  mc_posted :: "worker_action list"
  mc_transforms :: "(nat \<times> media_message) list"

definition new_media_controller :: "bool \<Rightarrow> media_controller" where
  "new_media_controller supported = \<lparr>mc_supported = supported, mc_attached = [], mc_worker = False, mc_workerFailed = False,
     mc_posted = [], mc_transforms = []\<rparr>"

definition ensureWorker :: "media_controller \<Rightarrow> bool \<times> media_controller" where
  "ensureWorker c =
     (if \<not> mc_supported c \<or> mc_workerFailed c then (False, c)
      else if \<not> mc_worker c then (True, c\<lparr>mc_worker := True, mc_posted := mc_posted c @ [New_Worker]\<rparr>)
      else (True, c))"

definition post :: "media_controller \<Rightarrow> media_command \<Rightarrow> media_controller" where
  "post c command = (if mc_worker c then c\<lparr>mc_posted := mc_posted c @ [Post command]\<rparr> else c)"

definition setKey_controller :: "media_controller \<Rightarrow> direction \<Rightarrow> string \<Rightarrow> jsval \<Rightarrow> bytes \<Rightarrow> bool \<times> media_controller" where
  "setKey_controller c direction contextId keyId baseKey =
     (case ensureWorker c of
        (False, c1) \<Rightarrow> (False, c1)
      | (True, c1) \<Rightarrow>
        if \<not> CONTEXT_ID contextId \<or> \<not> KEY_ID (js_to_string keyId) \<or> length baseKey \<noteq> 16 then (False, c1)
        else (True, c1\<lparr>mc_posted := mc_posted c1 @ [Post (Set_Key direction contextId keyId baseKey)]\<rparr>))"

definition setSenderKey :: "media_controller \<Rightarrow> string \<Rightarrow> jsval \<Rightarrow> bytes \<Rightarrow> bool \<times> media_controller" where
  "setSenderKey c = setKey_controller c Encrypt"

definition setReceiverKey :: "media_controller \<Rightarrow> string \<Rightarrow> jsval \<Rightarrow> bytes \<Rightarrow> bool \<times> media_controller" where
  "setReceiverKey c = setKey_controller c Decrypt"

definition clearContext :: "media_controller \<Rightarrow> string \<Rightarrow> media_controller" where
  "clearContext c contextId = (if \<not> CONTEXT_ID contextId then c else post c (Clear_Context contextId))"

definition clearKeys :: "media_controller \<Rightarrow> media_controller" where
  "clearKeys c = post c Clear_All"

definition destroy_controller :: "media_controller \<Rightarrow> media_controller" where
  "destroy_controller c =
     (if mc_worker c then c\<lparr>mc_worker := False, mc_posted := mc_posted c @ [Post Clear_All, Terminate]\<rparr> else c)"

definition worker_failed :: "media_controller \<Rightarrow> media_controller" where
  "worker_failed c = (if \<not> mc_worker c then c else destroy_controller (c\<lparr>mc_workerFailed := True\<rparr>))"

definition attach :: "media_controller \<Rightarrow> nat \<Rightarrow> string \<Rightarrow> direction \<Rightarrow> bool \<Rightarrow> bool \<times> media_controller" where
  "attach c target contextId direction throws =
     (case ensureWorker c of
        (False, c1) \<Rightarrow> (False, c1)
      | (True, c1) \<Rightarrow>
        if \<not> CONTEXT_ID contextId then (False, c1)
        else if map_of (mc_attached c1) target = Some contextId then (True, c1)
        else if throws then (False, c1)
        else (True, c1\<lparr>mc_attached := map_set target contextId (mc_attached c1),
               mc_transforms := mc_transforms c1 @ [(target,
                 [(''version'', JInt 1), (''direction'', JStr (direction_str direction)), (''contextId'', JStr contextId),
                  (''frameEnvelope'', JStr SFRAME_MEDIA_ENVELOPE)])]\<rparr>))"

text \<open>The listener for messages of the worker: the failure it hands to the mesh, if the message is one.\<close>

definition worker_report :: "jsval \<Rightarrow> (string \<times> string) option" where
  "worker_report data =
     (case js_object data of None \<Rightarrow> None
      | Some report \<Rightarrow>
        if length (js_keys report) \<noteq> 5 \<or> js_get report ''version'' \<noteq> JInt 1 \<or> js_get report ''type'' \<noteq> JStr ''transform-error''
           \<or> \<not> CONTEXT_ID (string_or_empty (js_get report ''contextId''))
           \<or> string_or_empty (js_get report ''direction'') \<notin> set [''encrypt'', ''decrypt'']
           \<or> string_or_empty (js_get report ''code'') \<notin> set TRANSFORM_FAILURES then None
        else Some (js_to_string (js_get report ''contextId''), js_to_string (js_get report ''code'')))"

text \<open>The command object the worker receives, for the commands whose key id is a string.\<close>

fun command_object :: "media_command \<Rightarrow> worker_command option" where
  "command_object (Set_Key direction contextId (JStr keyId) baseKey) =
     Some \<lparr>cmd_version = 1, cmd_type = ''set-key'', cmd_direction = Some (direction_str direction),
       cmd_contextId = Some contextId, cmd_keyId = Some keyId, cmd_baseKey = Some baseKey\<rparr>"
| "command_object (Set_Key direction contextId keyId baseKey) = None"
| "command_object (Clear_Context contextId) =
     Some \<lparr>cmd_version = 1, cmd_type = ''clear-context'', cmd_direction = None, cmd_contextId = Some contextId,
       cmd_keyId = None, cmd_baseKey = None\<rparr>"
| "command_object Clear_All =
     Some \<lparr>cmd_version = 1, cmd_type = ''clear-all'', cmd_direction = None, cmd_contextId = None,
       cmd_keyId = None, cmd_baseKey = None\<rparr>"

subsection \<open>Laws\<close>

text \<open>A key is posted exactly when the call returns \<open>true\<close>; no call takes anything off the log.\<close>

lemma setKey_controller_True:
  assumes "setKey_controller c d ctx keyId key = (True, c')"
  shows "mc_posted c' = mc_posted c @ (if mc_worker c then [] else [New_Worker]) @ [Post (Set_Key d ctx keyId key)]"
    "length key = 16" "CONTEXT_ID ctx" "mc_worker c'"
  using assms by (auto simp: setKey_controller_def ensureWorker_def split: if_splits prod.splits)

lemma setKey_controller_posted:
  "setKey_controller c d ctx keyId key = (r, c') \<Longrightarrow>
   set (mc_posted c') \<subseteq> set (mc_posted c) \<union> {New_Worker} \<union> (if r then {Post (Set_Key d ctx keyId key)} else {})
   \<and> set (mc_posted c) \<subseteq> set (mc_posted c')"
  by (auto simp: setKey_controller_def ensureWorker_def split: if_splits prod.splits)

lemma setKey_controller_ok:
  "\<lbrakk>mc_supported c; \<not> mc_workerFailed c; CONTEXT_ID ctx; KEY_ID keyId; length key = 16\<rbrakk>
   \<Longrightarrow> fst (setKey_controller c d ctx (JStr keyId) key)"
  by (simp add: setKey_controller_def ensureWorker_def)

lemma post_posted: "set (mc_posted (post c command)) \<subseteq> insert (Post command) (set (mc_posted c))"
  "set (mc_posted c) \<subseteq> set (mc_posted (post c command))"
  by (auto simp: post_def)

lemma controller_kept [simp]:
  "mc_supported (post c command) = mc_supported c" "mc_supported (snd (setKey_controller c d ctx keyId key)) = mc_supported c"
  "mc_workerFailed (post c command) = mc_workerFailed c"
  "mc_workerFailed (snd (setKey_controller c d ctx keyId key)) = mc_workerFailed c"
  by (auto simp: post_def setKey_controller_def ensureWorker_def)

text \<open>What the worker reports of a failure is what the page reads.\<close>

lemma worker_report_read:
  assumes "CONTEXT_ID ctx" "code \<in> set TRANSFORM_FAILURES"
  shows "worker_report (JObj [(''version'', JInt 1), (''type'', JStr ''transform-error''), (''contextId'', JStr ctx),
    (''direction'', JStr (direction_str d)), (''code'', JStr code)]) = Some (ctx, code)"
  using assms by (cases d) (simp_all add: worker_report_def js_keys_def js_get_def)

text \<open>A posted key reaches the worker's \<open>set_key\<close>.\<close>

lemma worker_command_set_key:
  assumes "setKey_controller c d ctx (JStr keyId) key = (True, c')"
  shows "\<exists>cmd. command_object (Set_Key d ctx (JStr keyId) key) = Some cmd \<and> worker_message C w cmd = set_key C w d ctx keyId key"
  using assms
  by (cases d) (auto simp: setKey_controller_def ensureWorker_def worker_message_def split: if_splits prod.splits)

end
