(* ===== verification/Machine_Gate.thy ===== *)
theory Machine_Gate
  imports Js_Json_Laws Js_Collections Media_Key_Protocol
begin

text \<open>
  \<^verbatim>\<open>webrtc/machine-receive-gate.ts\<close> and \<^verbatim>\<open>machine-receive-capability.ts\<close>: which peers are machines and what they may
  receive. The record \<open>machine_gate\<close> is the object's fields with the number of calls of \<open>changed\<close>; \<open>Date.now\<close> is an
  argument, a timer is the time it waits. \<open>apply\<close> throws after it has revoked the grants, so it returns the error
  beside the new state. The laws: the revision never goes back, one revision has one list of grants, a refused
  policy leaves no grant, and the grants held name one publisher and one machine at most once.
\<close>

definition machineReceiveCapability :: "string \<Rightarrow> string option" where
  "machineReceiveCapability source =
     (if source \<in> set [''microphone'', ''screen-audio''] then Some ''audio.receive''
      else if source \<in> set [''camera'', ''screen''] then Some ''video.receive''
      else None)"

record machine_receive_grant =
  gr_publisherPeerId :: string
  gr_machinePeerId :: string
  gr_publicationIds :: "string list"
  gr_chatRead :: bool
  gr_expiresAt :: int

record machine_gate =
  mg_revision :: int
  mg_grants :: "machine_receive_grant list"
  mg_machines :: "string list"
  mg_capabilities :: "(string \<times> string list) list"
  mg_members :: "string list"
  mg_snapshot :: string
  mg_timer :: "int option"
  mg_changes :: nat

definition new_gate :: machine_gate where
  "new_gate = \<lparr>mg_revision = 0, mg_grants = [], mg_machines = [], mg_capabilities = [], mg_members = [],
     mg_snapshot = [], mg_timer = None, mg_changes = 0\<rparr>"

definition capability_list :: "jsval \<Rightarrow> string list" where
  "capability_list capabilities =
     (case js_array capabilities of None \<Rightarrow> []
      | Some vs \<Rightarrow> if length vs \<le> 8 then (case collect js_string vs of None \<Rightarrow> [] | Some cs \<Rightarrow> cs) else [])"

definition setMachine :: "machine_gate \<Rightarrow> string \<Rightarrow> bool \<Rightarrow> jsval \<Rightarrow> machine_gate" where
  "setMachine g peerId machine capabilities =
     (let g1 = g\<lparr>mg_members := set_add peerId (mg_members g)\<rparr> in
      if machine then g1\<lparr>mg_machines := set_add peerId (mg_machines g1),
                         mg_capabilities := map_set peerId (capability_list capabilities) (mg_capabilities g1)\<rparr>
      else g1)"

definition supports :: "machine_gate \<Rightarrow> string \<Rightarrow> string \<Rightarrow> bool" where
  "supports g peerId capability =
     (case map_of (mg_capabilities g) peerId of None \<Rightarrow> False | Some cs \<Rightarrow> capability \<in> set cs)"

definition isMachine :: "machine_gate \<Rightarrow> string \<Rightarrow> bool" where
  "isMachine g peerId = (peerId \<in> set (mg_machines g))"

definition capabilitiesOf :: "machine_gate \<Rightarrow> string \<Rightarrow> string list" where
  "capabilitiesOf g peerId = (case map_of (mg_capabilities g) peerId of None \<Rightarrow> [] | Some cs \<Rightarrow> cs)"

definition gate_removePeer :: "machine_gate \<Rightarrow> string \<Rightarrow> machine_gate" where
  "gate_removePeer g peerId =
     g\<lparr>mg_machines := filter (\<lambda>x. x \<noteq> peerId) (mg_machines g), mg_members := filter (\<lambda>x. x \<noteq> peerId) (mg_members g),
       mg_capabilities := map_delete peerId (mg_capabilities g)\<rparr>"

text \<open>\<open>closed\<close>: an object with as many keys as listed, all of them listed.\<close>

definition closed :: "jsval \<Rightarrow> string list \<Rightarrow> media_message option" where
  "closed v keys =
     (case js_object v of None \<Rightarrow> None
      | Some kvs \<Rightarrow> if length (js_keys kvs) = length keys \<and> list_all (\<lambda>k. k \<in> set keys) (js_keys kvs) then Some kvs else None)"

definition gate_changed :: "machine_gate \<Rightarrow> machine_gate" where
  "gate_changed g = g\<lparr>mg_changes := mg_changes g + 1\<rparr>"

definition arm :: "machine_gate \<Rightarrow> int \<Rightarrow> machine_gate" where
  "arm g now =
     (case map gr_expiresAt (filter (\<lambda>gr. gr_expiresAt gr > now) (mg_grants g)) of
        [] \<Rightarrow> g\<lparr>mg_timer := None\<rparr>
      | t # ts \<Rightarrow> g\<lparr>mg_timer := Some (max 1 (fold min ts t - now))\<rparr>)"

definition gate_timer :: "machine_gate \<Rightarrow> int \<Rightarrow> machine_gate" where
  "gate_timer g now =
     gate_changed (arm (g\<lparr>mg_grants := filter (\<lambda>gr. gr_expiresAt gr > now) (mg_grants g)\<rparr>) now)"

definition revoke :: "machine_gate \<Rightarrow> machine_gate" where
  "revoke g = gate_changed (g\<lparr>mg_timer := None, mg_grants := []\<rparr>)"

definition gate_clear :: "machine_gate \<Rightarrow> machine_gate" where
  "gate_clear g = g\<lparr>mg_timer := None, mg_machines := [], mg_members := [], mg_capabilities := [], mg_snapshot := [],
     mg_grants := [], mg_revision := 0\<rparr>"

definition publication_ids :: "jsval \<Rightarrow> string list option" where
  "publication_ids v =
     (case js_array v of None \<Rightarrow> None
      | Some vs \<Rightarrow> if length vs > 4 \<or> \<not> distinct vs then None
        else collect (\<lambda>x. case js_string x of None \<Rightarrow> None | Some s \<Rightarrow> if TRACK_ID s then Some s else None) vs)"

definition gate_peer_id :: "jsval \<Rightarrow> string option" where
  "gate_peer_id v = (case js_string v of None \<Rightarrow> None | Some s \<Rightarrow> if PEER_ID s then Some s else None)"

definition parse_grant :: "machine_gate \<Rightarrow> int \<Rightarrow> jsval \<Rightarrow> machine_receive_grant option" where
  "parse_grant g now v =
     (case closed v [''publisherPeerId'', ''machinePeerId'', ''publicationIds'', ''chatRead'', ''expiresAt''] of None \<Rightarrow> None
      | Some value_ \<Rightarrow>
        (case (gate_peer_id (js_get value_ ''publisherPeerId''), gate_peer_id (js_get value_ ''machinePeerId'')) of
           (Some publisher, Some machine) \<Rightarrow>
             if publisher \<notin> set (mg_members g) \<or> isMachine g publisher \<or> \<not> isMachine g machine \<or> publisher = machine then None
             else (case (publication_ids (js_get value_ ''publicationIds''), js_bool (js_get value_ ''chatRead''),
                         js_integer (js_get value_ ''expiresAt'') 1 (now + 600000)) of
                     (Some ids, Some chat, Some expires) \<Rightarrow>
                       Some \<lparr>gr_publisherPeerId = publisher, gr_machinePeerId = machine, gr_publicationIds = ids,
                             gr_chatRead = chat, gr_expiresAt = expires\<rparr>
                   | _ \<Rightarrow> None)
         | _ \<Rightarrow> None))"

definition grant_key :: "machine_receive_grant \<Rightarrow> string" where
  "grant_key gr = gr_publisherPeerId gr @ [CHR 0x00] @ gr_machinePeerId gr"

fun parse_grants ::
  "machine_gate \<Rightarrow> int \<Rightarrow> machine_receive_grant list \<Rightarrow> string list \<Rightarrow> jsval list \<Rightarrow> machine_receive_grant list option" where
  "parse_grants g now grants seen [] = Some grants"
| "parse_grants g now grants seen (v # vs) =
     (case parse_grant g now v of None \<Rightarrow> None
      | Some gr \<Rightarrow> if grant_key gr \<in> set seen then None
        else parse_grants g now (grants @ [gr]) (set_add (grant_key gr) seen) vs)"

definition grant_json :: "machine_receive_grant \<Rightarrow> jsval" where
  "grant_json gr = JObj [(''publisherPeerId'', JStr (gr_publisherPeerId gr)), (''machinePeerId'', JStr (gr_machinePeerId gr)),
     (''publicationIds'', JArr (map JStr (gr_publicationIds gr))), (''chatRead'', JBool (gr_chatRead gr)),
     (''expiresAt'', JInt (gr_expiresAt gr))]"

definition policy_header :: "machine_gate \<Rightarrow> string \<Rightarrow> jsval \<Rightarrow> (int \<times> jsval list) option" where
  "policy_header g roomId raw =
     (case closed raw [''type'', ''version'', ''roomId'', ''revision'', ''grants''] of None \<Rightarrow> None
      | Some kvs \<Rightarrow>
        if js_get kvs ''type'' \<noteq> JStr ''machine-receive-state'' \<or> js_get kvs ''version'' \<noteq> JInt 1
           \<or> js_get kvs ''roomId'' \<noteq> JStr roomId then None
        else (case (js_integer (js_get kvs ''revision'') (mg_revision g) MAX_SAFE_INTEGER, js_array (js_get kvs ''grants'')) of
                (Some revision, Some grants) \<Rightarrow> if length grants > 100 then None else Some (revision, grants)
              | _ \<Rightarrow> None))"

definition gate_apply :: "machine_gate \<Rightarrow> int \<Rightarrow> string \<Rightarrow> jsval \<Rightarrow> string option \<times> machine_gate" where
  "gate_apply g now roomId raw =
     (let invalid = (Some ''machine_receive_policy_invalid'', revoke g) in
      case policy_header g roomId raw of None \<Rightarrow> invalid
      | Some (revision, values) \<Rightarrow>
        (case parse_grants g now [] [] values of None \<Rightarrow> invalid
         | Some grants \<Rightarrow>
           let snapshot = stringify (JArr (map grant_json grants)) in
           if revision = mg_revision g \<and> mg_snapshot g \<noteq> [] then
             (if snapshot \<noteq> mg_snapshot g then invalid else (None, g))
           else (None, gate_changed (arm (g\<lparr>mg_snapshot := snapshot, mg_revision := revision, mg_grants := grants\<rparr>) now))))"

definition mediaAllowed :: "machine_gate \<Rightarrow> string \<Rightarrow> string \<Rightarrow> string \<Rightarrow> string \<Rightarrow> bool" where
  "mediaAllowed g receiver publisher publication source =
     (if \<not> isMachine g receiver then True
      else case machineReceiveCapability source of None \<Rightarrow> False | Some capability \<Rightarrow> supports g receiver capability)"

definition chatAllowed :: "machine_gate \<Rightarrow> string \<Rightarrow> string \<Rightarrow> bool" where
  "chatAllowed g receiver publisher = (\<not> isMachine g receiver \<or> supports g receiver ''chat.read'')"

subsection \<open>Laws\<close>

lemma gate_changed_fields [simp]:
  "mg_revision (gate_changed g) = mg_revision g" "mg_grants (gate_changed g) = mg_grants g"
  "mg_machines (gate_changed g) = mg_machines g" "mg_capabilities (gate_changed g) = mg_capabilities g"
  "mg_members (gate_changed g) = mg_members g" "mg_snapshot (gate_changed g) = mg_snapshot g" "mg_timer (gate_changed g) = mg_timer g"
  by (simp_all add: gate_changed_def)

lemma arm_fields [simp]:
  "mg_revision (arm g now) = mg_revision g" "mg_grants (arm g now) = mg_grants g" "mg_machines (arm g now) = mg_machines g"
  "mg_capabilities (arm g now) = mg_capabilities g" "mg_members (arm g now) = mg_members g" "mg_snapshot (arm g now) = mg_snapshot g"
  by (simp_all add: arm_def split: list.splits)

definition grant_ok :: "machine_gate \<Rightarrow> machine_receive_grant \<Rightarrow> bool" where
  "grant_ok g gr \<longleftrightarrow> PEER_ID (gr_publisherPeerId gr) \<and> PEER_ID (gr_machinePeerId gr) \<and> gr_publisherPeerId gr \<in> set (mg_members g)
     \<and> \<not> isMachine g (gr_publisherPeerId gr) \<and> isMachine g (gr_machinePeerId gr)
     \<and> length (gr_publicationIds gr) \<le> 4 \<and> list_all TRACK_ID (gr_publicationIds gr) \<and> 1 \<le> gr_expiresAt gr"

lemma publication_ids_ok: "publication_ids v = Some ids \<Longrightarrow> length ids \<le> 4 \<and> list_all TRACK_ID ids"
proof -
  assume "publication_ids v = Some ids"
  then obtain vs where vs: "length vs \<le> 4"
      "collect (\<lambda>x. case js_string x of None \<Rightarrow> None | Some s \<Rightarrow> if TRACK_ID s then Some s else None) vs = Some ids"
    by (auto simp: publication_ids_def not_less split: option.splits if_splits)
  have "collect (\<lambda>x. case js_string x of None \<Rightarrow> None | Some s \<Rightarrow> if TRACK_ID s then Some s else None) vs = Some ids
      \<Longrightarrow> length ids = length vs \<and> list_all TRACK_ID ids" for ids
    by (induction vs arbitrary: ids) (auto split: option.splits if_splits)
  with vs show ?thesis by auto
qed

lemma gate_peer_id_Some: "gate_peer_id v = Some s \<Longrightarrow> PEER_ID s"
  by (auto simp: gate_peer_id_def split: option.splits if_splits)

lemma parse_grant_ok: "parse_grant g now v = Some gr \<Longrightarrow> grant_ok g gr \<and> gr_expiresAt gr \<le> now + 600000"
  unfolding parse_grant_def
  by (auto simp: grant_ok_def gate_peer_id_Some publication_ids_ok elim!: js_integer.elims split: option.splits if_splits)

lemma parse_grants_ok:
  assumes "parse_grants g now grants seen vs = Some out"
    and "\<forall>gr \<in> set grants. grant_ok g gr" "distinct (map grant_key grants)" "set seen = grant_key ` set grants"
  shows "(\<forall>gr \<in> set out. grant_ok g gr) \<and> distinct (map grant_key out)"
  using assms
proof (induction vs arbitrary: grants seen)
  case (Cons v vs)
  from Cons.prems(1) obtain gr where gr: "parse_grant g now v = Some gr" "grant_key gr \<notin> set seen"
      "parse_grants g now (grants @ [gr]) (set_add (grant_key gr) seen) vs = Some out"
    by (auto split: option.splits if_splits)
  show ?case
  proof (rule Cons.IH [OF gr(3)])
    show "\<forall>x \<in> set (grants @ [gr]). grant_ok g x" using Cons.prems(2) parse_grant_ok [OF gr(1)] by simp
    show "distinct (map grant_key (grants @ [gr]))" using Cons.prems(3,4) gr(2) by simp
  qed (use Cons.prems(4) in simp)
qed simp

lemma gate_apply_cases:
  assumes "gate_apply g now roomId raw = (e, g')"
  obtains (refused) "e \<noteq> None" "g' = revoke g"
  | (repeated) "e = None" "g' = g"
  | (accepted) revision grants where "e = None" "mg_revision g \<le> revision" "revision = mg_revision g \<longrightarrow> mg_snapshot g = []"
      "(\<forall>gr \<in> set grants. grant_ok g gr) \<and> distinct (map grant_key grants)"
      "g' = gate_changed (arm (g\<lparr>mg_snapshot := stringify (JArr (map grant_json grants)), mg_revision := revision, mg_grants := grants\<rparr>) now)"
proof -
  have "mg_revision g \<le> revision" if "policy_header g roomId raw = Some (revision, vs)" for revision vs
    using that by (auto simp: policy_header_def elim!: js_integer.elims split: option.splits if_splits)
  note mono = this
  consider "policy_header g roomId raw = None" | (header) revision vs where "policy_header g roomId raw = Some (revision, vs)"
    by (cases "policy_header g roomId raw") auto
  then show thesis
  proof cases
    case header
    note h = this
    show thesis
    proof (cases "parse_grants g now [] [] vs")
      case None
      with h assms show thesis by (auto simp: gate_apply_def Let_def intro: refused)
    next
      case (Some grants)
      then have "(\<forall>gr \<in> set grants. grant_ok g gr) \<and> distinct (map grant_key grants)" by (rule parse_grants_ok) simp_all
      with mono [OF h] Some h assms accepted [of revision grants] show thesis
        by (auto simp: gate_apply_def Let_def simp del: stringify.simps split: if_splits intro: refused repeated)
    qed
  qed (use assms in \<open>auto simp: gate_apply_def Let_def intro: refused\<close>)
qed

lemma gate_apply_fail_closed: "gate_apply g now roomId raw = (Some e, g') \<Longrightarrow> mg_grants g' = [] \<and> mg_timer g' = None"
  by (erule gate_apply_cases) (auto simp: revoke_def)

lemma gate_revision_monotone: "gate_apply g now roomId raw = (e, g') \<Longrightarrow> mg_revision g \<le> mg_revision g'"
  by (erule gate_apply_cases) (auto simp: revoke_def)

lemma gate_grants_valid:
  assumes "gate_apply g now roomId raw = (None, g')" "g' \<noteq> g"
  shows "(\<forall>gr \<in> set (mg_grants g'). grant_ok g' gr) \<and> distinct (map grant_key (mg_grants g'))"
  using assms by (elim gate_apply_cases) (auto simp: grant_ok_def isMachine_def)

text \<open>One accepted revision has one list of grants until the gate is cleared.\<close>

lemma gate_revision_fixed:
  assumes "gate_apply g now roomId raw = (None, g')" "mg_revision g' = mg_revision g" "mg_snapshot g \<noteq> []"
  shows "g' = g"
  using assms by (elim gate_apply_cases) auto

text \<open>What a machine may receive depends on its capabilities alone: no grant opens or closes anything.\<close>

lemma mediaAllowed_ignores_grants:
  "mediaAllowed (g\<lparr>mg_grants := grants\<rparr>) receiver publisher publication source = mediaAllowed g receiver publisher publication source"
  by (simp add: mediaAllowed_def isMachine_def supports_def [abs_def] cong: option.case_cong)

end
