(* ===== verification/Media_Keys.thy ===== *)
theory Media_Keys
  imports Media_Controller Machine_Gate
begin

text \<open>
  The media keys of \<^verbatim>\<open>webrtc/peer-mesh.service.ts\<close> in a room without media agents. The record \<open>media_mesh\<close> has the
  fields these methods use. Pending keys are objects that timers and suspended calls hold on to, so they live in a store
  and are named by their index; a \<open>Map\<close> entry is that index. \<open>mm_installed\<close> logs the keys handed to the worker, each with
  the membership epoch of the page at that moment. A call of \<open>sendOverlayData\<close> is logged in \<open>mm_sent\<close> and
  the method stops there (\<open>mm_awaiting\<close>) until the overlay has answered. What a method throws is returned beside the state.
  \<open>crypto.getRandomValues\<close> is the argument \<open>R\<close>, read at the number of draws so far; what the browser does when a sender is
  asked for, and what the relay says where nothing is encrypted, are the arguments of type \<open>attach_inputs\<close>.
\<close>

record mesh_publication =
  pb_id :: string
  pb_rootPeerId :: string
  pb_source :: string
  pb_live :: bool
  pb_local :: bool
  pb_inboundPeerId :: string

record pending_media_key =
  pd_contextId :: string
  pd_targetPeerId :: string
  pd_message :: media_message
  pd_baseKey :: bytes
  pd_retries :: nat
  pd_timer :: bool

datatype e2ee_state = E2ee_Disabled | E2ee_Unsupported | E2ee_Pending | E2ee_Active

datatype awaiting = Await_Send nat | Await_Ack

record buffered_envelope =
  be_originPeerId :: string
  be_membershipEpoch :: int
  be_data :: bytes

record media_mesh =
  mm_ownId :: string
  mm_mode :: string
  mm_dataOverlayEnabled :: bool
  mm_controller :: "media_controller option"
  mm_transformFailed :: bool
  mm_state :: e2ee_state
  mm_membershipEpoch :: int
  mm_routeEpoch :: int
  mm_membershipStable :: bool
  mm_overlayPublicKey :: bool
  mm_peerKeys :: "string list"
  mm_appliedPeerIds :: "string list"
  mm_peers :: "(string \<times> (string \<times> nat) list) list"
  mm_publications :: "(string \<times> mesh_publication) list"
  mm_descriptors :: "(string \<times> string) list"
  mm_gate :: machine_gate
  mm_store :: "pending_media_key list"
  mm_pending :: "(string \<times> nat) list"
  mm_senders :: "string list"
  mm_receivers :: "string list"
  mm_buffered :: "(string \<times> buffered_envelope) list"
  mm_draws :: nat
  mm_sent :: "(string \<times> bytes) list"
  mm_awaiting :: "awaiting list"
  mm_installed :: "(direction \<times> string \<times> jsval \<times> bytes \<times> int) list"

text \<open>The part of \<open>initialize\<close> that sets these fields; \<open>close\<close> has emptied the rest.\<close>

definition initialize_media :: "string \<Rightarrow> string \<Rightarrow> bool \<Rightarrow> bool \<Rightarrow> media_mesh" where
  "initialize_media ownId mode dataOverlayEnabled supported =
     \<lparr>mm_ownId = ownId, mm_mode = mode, mm_dataOverlayEnabled = dataOverlayEnabled,
      mm_controller = (if mode = ''disabled'' then None else Some (new_media_controller supported)),
      mm_transformFailed = False,
      mm_state = (if mode = ''disabled'' then E2ee_Disabled
                  else if supported \<and> dataOverlayEnabled then E2ee_Pending else E2ee_Unsupported),
      mm_membershipEpoch = 0, mm_routeEpoch = 0, mm_membershipStable = False, mm_overlayPublicKey = False,
      mm_peerKeys = [], mm_appliedPeerIds = [], mm_peers = [], mm_publications = [], mm_descriptors = [],
      mm_gate = new_gate, mm_store = [], mm_pending = [], mm_senders = [], mm_receivers = [], mm_buffered = [],
      mm_draws = 0, mm_sent = [], mm_awaiting = [], mm_installed = []\<rparr>"

definition shouldProtectMedia :: "media_mesh \<Rightarrow> bool" where
  "shouldProtectMedia m \<longleftrightarrow> mm_mode m \<noteq> ''disabled'' \<and> mm_dataOverlayEnabled m \<and> \<not> mm_transformFailed m
     \<and> (case mm_controller m of None \<Rightarrow> False | Some c \<Rightarrow> mc_supported c)"

definition outboundMediaContext :: "string \<Rightarrow> string \<Rightarrow> string" where
  "outboundMediaContext publicationId targetPeerId = ''out:'' @ publicationId @ '':'' @ targetPeerId"

definition inboundMediaContext :: "string \<Rightarrow> string \<Rightarrow> string" where
  "inboundMediaContext senderPeerId publicationId = ''in:'' @ senderPeerId @ '':'' @ publicationId"

definition has_peer :: "media_mesh \<Rightarrow> string \<Rightarrow> bool" where
  "has_peer m peerId = (peerId \<in> set (map_keys (mm_peers m)))"

definition with_controller :: "(media_controller \<Rightarrow> media_controller) \<Rightarrow> media_mesh \<Rightarrow> media_mesh" where
  "with_controller f m = m\<lparr>mm_controller := map_option f (mm_controller m)\<rparr>"

text \<open>\<open>this.mediaE2eeController?.setSenderKey(...) === true\<close> and the same for receivers.\<close>

definition mesh_set_key :: "media_mesh \<Rightarrow> direction \<Rightarrow> string \<Rightarrow> jsval \<Rightarrow> bytes \<Rightarrow> bool \<times> media_mesh" where
  "mesh_set_key m direction contextId keyId baseKey =
     (case mm_controller m of None \<Rightarrow> (False, m)
      | Some c \<Rightarrow> (case (case direction of Encrypt \<Rightarrow> setSenderKey c | Decrypt \<Rightarrow> setReceiverKey c) contextId keyId baseKey of
          (installed, c1) \<Rightarrow> (installed, m\<lparr>mm_controller := Some c1,
             mm_installed := (if installed then mm_installed m @ [(direction, contextId, keyId, baseKey, mm_membershipEpoch m)]
                              else mm_installed m)\<rparr>)))"

subsection \<open>State\<close>

definition refreshMediaE2eeState :: "media_mesh \<Rightarrow> media_mesh" where
  "refreshMediaE2eeState m = m\<lparr>mm_state :=
     (if mm_mode m = ''disabled'' then E2ee_Disabled
      else if \<not> shouldProtectMedia m then E2ee_Unsupported
      else if mm_pending m \<noteq> [] then E2ee_Pending
      else if mm_senders m \<noteq> [] \<or> mm_receivers m \<noteq> [] then E2ee_Active
      else E2ee_Pending)\<rparr>"

definition failMediaE2ee :: "media_mesh \<Rightarrow> media_mesh" where
  "failMediaE2ee m = m\<lparr>mm_transformFailed := True, mm_state := E2ee_Unsupported\<rparr>"

definition destroyPendingMediaKey :: "media_mesh \<Rightarrow> nat \<Rightarrow> media_mesh" where
  "destroyPendingMediaKey m i = m\<lparr>mm_store := (mm_store m)[i := (mm_store m ! i)
     \<lparr>pd_timer := False, pd_baseKey := map (\<lambda>_. 0) (pd_baseKey (mm_store m ! i))\<rparr>]\<rparr>"

definition clear_peer_key :: "mesh_publication \<Rightarrow> string \<Rightarrow> media_mesh \<Rightarrow> media_mesh" where
  "clear_peer_key publication peerId m =
     (let contextId = outboundMediaContext (pb_id publication) peerId;
          m1 = (case map_of (mm_pending m) contextId of None \<Rightarrow> m | Some i \<Rightarrow> destroyPendingMediaKey m i)
      in with_controller (\<lambda>c. clearContext c contextId)
           (m1\<lparr>mm_pending := map_delete contextId (mm_pending m1),
               mm_senders := filter (\<lambda>x. x \<noteq> contextId) (mm_senders m1)\<rparr>))"

definition clear_receiver :: "string \<Rightarrow> media_mesh \<Rightarrow> media_mesh" where
  "clear_receiver contextId m =
     with_controller (\<lambda>c. clearContext c contextId) (m\<lparr>mm_receivers := filter (\<lambda>x. x \<noteq> contextId) (mm_receivers m)\<rparr>)"

definition clearPublicationMediaKeys :: "mesh_publication \<Rightarrow> media_mesh \<Rightarrow> media_mesh" where
  "clearPublicationMediaKeys publication m =
     (let m1 = fold (clear_peer_key publication) (map_keys (mm_peers m)) m
      in refreshMediaE2eeState (if pb_local publication then m1
           else clear_receiver (inboundMediaContext (pb_rootPeerId publication) (pb_id publication)) m1))"

definition clearAllMediaKeys :: "media_mesh \<Rightarrow> media_mesh" where
  "clearAllMediaKeys m =
     (let m1 = fold (\<lambda>entry m. destroyPendingMediaKey m (snd entry)) (mm_pending m) m;
          m2 = with_controller clearKeys (m1\<lparr>mm_pending := [], mm_senders := [], mm_receivers := []\<rparr>)
      in if mm_mode m2 \<noteq> ''disabled'' \<and> (case mm_controller m2 of None \<Rightarrow> False | Some c \<Rightarrow> mc_supported c)
         then m2\<lparr>mm_state := E2ee_Pending\<rparr> else m2)"

subsection \<open>Sending keys\<close>

definition sendPendingMediaKey :: "media_mesh \<Rightarrow> nat \<Rightarrow> media_mesh" where
  "sendPendingMediaKey m i =
     (let pending = mm_store m ! i in
      if map_of (mm_pending m) (pd_contextId pending) \<noteq> Some i
         \<or> js_get (pd_message pending) ''membershipEpoch'' \<noteq> JInt (mm_membershipEpoch m) \<or> \<not> mm_membershipStable m then m
      else m\<lparr>mm_sent := mm_sent m @ [(pd_targetPeerId pending, encode_envelope (pd_message pending))],
             mm_awaiting := mm_awaiting m @ [Await_Send i]\<rparr>)"

definition pending_sent :: "media_mesh \<Rightarrow> nat \<Rightarrow> media_mesh" where
  "pending_sent m i =
     (let pending = (mm_store m ! i)\<lparr>pd_retries := pd_retries (mm_store m ! i) + 1\<rparr>;
          m1 = m\<lparr>mm_store := (mm_store m)[i := pending]\<rparr>
      in if pd_retries pending \<ge> 60 \<or> map_of (mm_pending m) (pd_contextId pending) \<noteq> Some i then m1
         else m1\<lparr>mm_store := (mm_store m1)[i := pending\<lparr>pd_timer := True\<rparr>]\<rparr>)"

definition pending_timer :: "media_mesh \<Rightarrow> nat \<Rightarrow> media_mesh" where
  "pending_timer m i =
     (if pd_timer (mm_store m ! i)
      then sendPendingMediaKey (m\<lparr>mm_store := (mm_store m)[i := (mm_store m ! i)\<lparr>pd_timer := False\<rparr>]\<rparr>) i
      else m)"

definition provisionMediaKey ::
  "(nat \<Rightarrow> bytes \<times> bytes) \<Rightarrow> mesh_publication \<Rightarrow> string \<Rightarrow> media_mesh \<Rightarrow> string option \<times> media_mesh" where
  "provisionMediaKey R publication peerId m =
     (if \<not> mediaAllowed (mm_gate m) peerId (mm_ownId m) (pb_id publication) (pb_source publication) then (None, m)
      else if \<not> pb_local publication \<or> \<not> shouldProtectMedia m \<or> \<not> mm_membershipStable m
         \<or> mm_membershipEpoch m < 1 \<or> mm_routeEpoch m < 1 \<or> peerId \<notin> set (mm_peerKeys m) then (None, m)
      else
        let contextId = outboundMediaContext (pb_id publication) peerId;
            current = map_of (mm_pending m) contextId
        in if (case current of None \<Rightarrow> False
               | Some i \<Rightarrow> js_get (pd_message (mm_store m ! i)) ''membershipEpoch'' = JInt (mm_membershipEpoch m)) then (None, m)
        else
          let m1 = (case current of None \<Rightarrow> m | Some i \<Rightarrow> destroyPendingMediaKey m i);
              generated = randomMediaKey (fst (R (mm_draws m1))) (snd (R (mm_draws m1)));
              m2 = m1\<lparr>mm_draws := mm_draws m1 + 1\<rparr>
          in case createMediaKeyMessage (pb_id publication) (mm_ownId m) (mm_membershipEpoch m) (fst generated) (snd generated) of
               Inl e \<Rightarrow> (Some e, m2)
             | Inr message \<Rightarrow>
               let pending = \<lparr>pd_contextId = contextId, pd_targetPeerId = peerId, pd_message = message,
                     pd_baseKey = snd generated, pd_retries = 0, pd_timer = False\<rparr>;
                   i = length (mm_store m2)
               in (None, sendPendingMediaKey (m2\<lparr>mm_store := mm_store m2 @ [pending],
                     mm_pending := map_set contextId i (mm_pending m2), mm_state := E2ee_Pending\<rparr>) i))"

text \<open>A loop whose body may throw stops at the first exception.\<close>

fun try_each :: "('a \<Rightarrow> 's \<Rightarrow> string option \<times> 's) \<Rightarrow> 'a list \<Rightarrow> 's \<Rightarrow> string option \<times> 's" where
  "try_each f [] s = (None, s)"
| "try_each f (x # xs) s = (case f x s of (Some e, s1) \<Rightarrow> (Some e, s1) | (None, s1) \<Rightarrow> try_each f xs s1)"

definition provisionMediaKeysForPeer ::
  "(nat \<Rightarrow> bytes \<times> bytes) \<Rightarrow> string \<Rightarrow> media_mesh \<Rightarrow> string option \<times> media_mesh" where
  "provisionMediaKeysForPeer R peerId m =
     (case map_of (mm_peers m) peerId of None \<Rightarrow> (None, m)
      | Some senders \<Rightarrow>
        try_each (\<lambda>publication m. if pb_local publication \<and> pb_id publication \<in> set (map_keys senders)
            then provisionMediaKey R publication peerId m else (None, m))
          (map snd (mm_publications m)) m)"

definition rotateMediaKeys :: "(nat \<Rightarrow> bytes \<times> bytes) \<Rightarrow> media_mesh \<Rightarrow> string option \<times> media_mesh" where
  "rotateMediaKeys R m =
     (if \<not> shouldProtectMedia m then (None, m)
      else let m1 = (clearAllMediaKeys m)\<lparr>mm_membershipStable := True, mm_state := E2ee_Pending\<rparr>
           in try_each (provisionMediaKeysForPeer R) (map_keys (mm_peers m1)) m1)"

text \<open>The recovery timer, without the announcement of the overlay key.\<close>

definition e2ee_recovery :: "(nat \<Rightarrow> bytes \<times> bytes) \<Rightarrow> media_mesh \<Rightarrow> string option \<times> media_mesh" where
  "e2ee_recovery R m =
     (if \<not> shouldProtectMedia m \<or> \<not> mm_membershipStable m \<or> mm_state m \<noteq> E2ee_Pending then (None, m)
      else try_each (\<lambda>peerId m. if peerId \<in> set (mm_peerKeys m) then provisionMediaKeysForPeer R peerId m else (None, m))
             (map_keys (mm_peers m)) m)"

subsection \<open>Receiving keys\<close>

definition apply_media_key :: "media_mesh \<Rightarrow> string \<Rightarrow> media_message \<Rightarrow> media_mesh" where
  "apply_media_key m originPeerId message =
     (if js_get message ''senderPeerId'' \<noteq> JStr originPeerId \<or> \<not> has_peer m originPeerId \<or> \<not> shouldProtectMedia m then m
      else
        let publicationId = js_get message ''publicationId'';
            source = (case js_string publicationId of None \<Rightarrow> []
                      | Some s \<Rightarrow> (case map_of (mm_descriptors m) s of None \<Rightarrow> [] | Some source \<Rightarrow> source));
            contextId = inboundMediaContext originPeerId (js_to_string publicationId)
        in if \<not> mediaAllowed (mm_gate m) (mm_ownId m) originPeerId (js_to_string publicationId) source then m
           else case decodeMediaBaseKey message of Inl e \<Rightarrow> m
           | Inr key \<Rightarrow>
             (case mesh_set_key m Decrypt contextId (js_get message ''keyId'') key of
                (False, m1) \<Rightarrow> failMediaE2ee m1
              | (True, m1) \<Rightarrow>
                m1\<lparr>mm_receivers := set_add contextId (mm_receivers m1),
                   mm_sent := mm_sent m1 @ [(originPeerId, encode_envelope (createMediaKeyAck message))],
                   mm_awaiting := mm_awaiting m1 @ [Await_Ack]\<rparr>))"

definition apply_media_key_ack :: "media_mesh \<Rightarrow> string \<Rightarrow> media_message \<Rightarrow> media_mesh" where
  "apply_media_key_ack m originPeerId message =
     (if js_get message ''senderPeerId'' \<noteq> JStr (mm_ownId m) then m
      else
        let contextId = outboundMediaContext (js_to_string (js_get message ''publicationId'')) originPeerId in
        case map_of (mm_pending m) contextId of None \<Rightarrow> m
        | Some i \<Rightarrow>
          let pending = mm_store m ! i in
          if js_get (pd_message pending) ''membershipEpoch'' \<noteq> js_get message ''membershipEpoch''
             \<or> js_get (pd_message pending) ''keyId'' \<noteq> js_get message ''keyId''
             \<or> js_get (pd_message pending) ''frameEnvelope'' \<noteq> js_get message ''frameEnvelope'' then m
          else
            (case mesh_set_key m Encrypt contextId (js_get message ''keyId'') (pd_baseKey pending) of
               (installed, m1) \<Rightarrow>
                 let m2 = (if installed then m1\<lparr>mm_senders := set_add contextId (mm_senders m1)\<rparr> else m1);
                     m3 = destroyPendingMediaKey m2 i;
                     m4 = m3\<lparr>mm_pending := map_delete contextId (mm_pending m3)\<rparr>
                 in if installed then refreshMediaE2eeState m4 else failMediaE2ee m4))"

definition applyMediaE2eeEnvelope :: "media_mesh \<Rightarrow> string \<Rightarrow> media_message \<Rightarrow> media_mesh" where
  "applyMediaE2eeEnvelope m originPeerId message =
     (if js_get message ''type'' = JStr ''media-key'' then apply_media_key m originPeerId message
      else apply_media_key_ack m originPeerId message)"

definition envelope_epoch :: "media_message \<Rightarrow> int" where
  "envelope_epoch message =
     (case js_integer (js_get message ''membershipEpoch'') 1 MAX_SAFE_INTEGER of None \<Rightarrow> 0 | Some n \<Rightarrow> n)"

definition acceptMediaE2eeEnvelope :: "media_mesh \<Rightarrow> string \<Rightarrow> bytes \<Rightarrow> media_mesh" where
  "acceptMediaE2eeEnvelope m originPeerId data =
     (case read_envelope data of None \<Rightarrow> m
      | Some message \<Rightarrow>
        let envelopeEpoch = envelope_epoch message; currentEpoch = mm_membershipEpoch m in
        if envelopeEpoch > currentEpoch \<or> \<not> mm_membershipStable m then
          (let bufferKey = originPeerId @ [CHR 0x00] @ js_to_string (js_get message ''type'') @ [CHR 0x00]
                 @ js_to_string (js_get message ''publicationId'')
           in m\<lparr>mm_buffered := map_set bufferKey
                  \<lparr>be_originPeerId = originPeerId, be_membershipEpoch = envelopeEpoch, be_data = data\<rparr> (mm_buffered m)\<rparr>)
        else if envelopeEpoch < currentEpoch then m
        else applyMediaE2eeEnvelope m originPeerId message)"

definition flush_one :: "string \<times> buffered_envelope \<Rightarrow> media_mesh \<Rightarrow> media_mesh" where
  "flush_one entry m =
     (case entry of (bufferKey, buffered) \<Rightarrow>
      if be_membershipEpoch buffered < mm_membershipEpoch m \<or> \<not> has_peer m (be_originPeerId buffered)
      then m\<lparr>mm_buffered := map_delete bufferKey (mm_buffered m)\<rparr>
      else if be_membershipEpoch buffered = mm_membershipEpoch m \<and> mm_membershipStable m \<and> shouldProtectMedia m
      then acceptMediaE2eeEnvelope (m\<lparr>mm_buffered := map_delete bufferKey (mm_buffered m)\<rparr>)
             (be_originPeerId buffered) (be_data buffered)
      else m)"

definition flushBufferedMediaEnvelopes :: "media_mesh \<Rightarrow> media_mesh" where
  "flushBufferedMediaEnvelopes m = fold flush_one (mm_buffered m) m"

end
