(* ===== verification/Media_Mesh.thy ===== *)
theory Media_Mesh
  imports Media_Keys
begin

text \<open>
  The events of \<^verbatim>\<open>webrtc/peer-mesh.service.ts\<close> that start, renew and end media keys: members that come and go,
  accepted topologies, publications, senders, remote tracks and receive policies.
\<close>

record attach_inputs =
  ai_pool :: "string \<Rightarrow> string \<Rightarrow> (nat \<times> bool) option"
  ai_relay :: "string \<Rightarrow> string \<Rightarrow> bool"

definition shouldSend :: "attach_inputs \<Rightarrow> media_mesh \<Rightarrow> mesh_publication \<Rightarrow> string \<Rightarrow> bool" where
  "shouldSend I m publication targetPeerId \<longleftrightarrow>
     mediaAllowed (mm_gate m) targetPeerId (pb_rootPeerId publication) (pb_id publication) (pb_source publication)
     \<and> (if mm_mode m \<noteq> ''disabled'' then pb_local publication else ai_relay I (pb_id publication) targetPeerId)"

text \<open>\<open>this.mediaE2eeController?.attachSender\<close> and \<open>attachReceiver\<close>.\<close>

definition mesh_attach :: "media_mesh \<Rightarrow> nat \<Rightarrow> string \<Rightarrow> direction \<Rightarrow> bool \<Rightarrow> bool \<times> media_mesh" where
  "mesh_attach m target contextId direction throws =
     (case mm_controller m of None \<Rightarrow> (False, m)
      | Some c \<Rightarrow> (case attach c target contextId direction throws of (r, c1) \<Rightarrow> (r, m\<lparr>mm_controller := Some c1\<rparr>)))"

definition peer_senders :: "media_mesh \<Rightarrow> string \<Rightarrow> (string \<times> nat) list" where
  "peer_senders m peerId = (case map_of (mm_peers m) peerId of None \<Rightarrow> [] | Some senders \<Rightarrow> senders)"

definition set_sender :: "string \<Rightarrow> string \<Rightarrow> nat \<Rightarrow> media_mesh \<Rightarrow> media_mesh" where
  "set_sender peerId publicationId sender m =
     m\<lparr>mm_peers := map_set peerId (map_set publicationId sender (peer_senders m peerId)) (mm_peers m)\<rparr>"

definition drop_sender :: "string \<Rightarrow> string \<Rightarrow> media_mesh \<Rightarrow> media_mesh" where
  "drop_sender peerId publicationId m =
     (if has_peer m peerId then m\<lparr>mm_peers := map_set peerId (map_delete publicationId (peer_senders m peerId)) (mm_peers m)\<rparr> else m)"

text \<open>One round of \<open>reconcilePublication\<close>. The \<open>try\<close> around it drops what \<open>provisionMediaKey\<close> throws.\<close>

definition reconcile_peer ::
  "(nat \<Rightarrow> bytes \<times> bytes) \<Rightarrow> attach_inputs \<Rightarrow> mesh_publication \<Rightarrow> string \<Rightarrow> media_mesh \<Rightarrow> media_mesh" where
  "reconcile_peer R I publication peerId m =
     (let existing = map_of (peer_senders m peerId) (pb_id publication);
          send = shouldSend I m publication peerId
      in if \<not> send \<and> existing \<noteq> None then drop_sender peerId (pb_id publication) m
         else if send \<and> existing = None \<and> pb_live publication then
           (if (mm_mode m = ''required'' \<or> mm_transformFailed m) \<and> \<not> shouldProtectMedia m
            then m\<lparr>mm_state := E2ee_Unsupported\<rparr>
            else case ai_pool I peerId (pb_id publication) of None \<Rightarrow> m
            | Some (sender, throws) \<Rightarrow>
              (case (if shouldProtectMedia m
                     then mesh_attach m sender (outboundMediaContext (pb_id publication) peerId) Encrypt throws
                     else (True, m)) of
                 (False, m1) \<Rightarrow> failMediaE2ee m1
               | (True, m1) \<Rightarrow>
                 snd (provisionMediaKey R publication peerId (set_sender peerId (pb_id publication) sender m1))))
         else m)"

definition reconcilePublication ::
  "(nat \<Rightarrow> bytes \<times> bytes) \<Rightarrow> attach_inputs \<Rightarrow> mesh_publication \<Rightarrow> media_mesh \<Rightarrow> media_mesh" where
  "reconcilePublication R I publication m = fold (reconcile_peer R I publication) (map_keys (mm_peers m)) m"

definition reconcileAllPublications ::
  "(nat \<Rightarrow> bytes \<times> bytes) \<Rightarrow> attach_inputs \<Rightarrow> media_mesh \<Rightarrow> media_mesh" where
  "reconcileAllPublications R I m = fold (reconcilePublication R I) (map snd (mm_publications m)) m"

subsection \<open>Publications\<close>

text \<open>One track of \<open>attachPublication\<close>.\<close>

definition publish_track ::
  "(nat \<Rightarrow> bytes \<times> bytes) \<Rightarrow> attach_inputs \<Rightarrow> string \<Rightarrow> string \<Rightarrow> bool \<Rightarrow> media_mesh \<Rightarrow> media_mesh" where
  "publish_track R I trackId source live m =
     (let publication = \<lparr>pb_id = trackId, pb_rootPeerId = mm_ownId m, pb_source = source, pb_live = live, pb_local = True,
            pb_inboundPeerId = []\<rparr>
      in reconcilePublication R I publication
           (m\<lparr>mm_publications := map_set trackId publication (mm_publications m),
              mm_descriptors := map_set trackId source (mm_descriptors m)\<rparr>))"

definition removePublication :: "string \<Rightarrow> media_mesh \<Rightarrow> media_mesh" where
  "removePublication publicationId m =
     (case map_of (mm_publications m) publicationId of None \<Rightarrow> m
      | Some publication \<Rightarrow>
        let m1 = clearPublicationMediaKeys publication m;
            m2 = fold (\<lambda>peerId. drop_sender peerId publicationId) (map_keys (mm_peers m1)) m1;
            m3 = m2\<lparr>mm_publications := map_delete publicationId (mm_publications m2)\<rparr>
        in if pb_local publication \<or> take 6 (pb_inboundPeerId publication) \<noteq> ''agent:''
           then m3\<lparr>mm_descriptors := map_delete publicationId (mm_descriptors m3)\<rparr> else m3)"

definition discardInboundForReplacement :: "mesh_publication \<Rightarrow> media_mesh \<Rightarrow> media_mesh" where
  "discardInboundForReplacement publication m =
     (let m1 = fold (\<lambda>peerId. drop_sender peerId (pb_id publication)) (map_keys (mm_peers m)) m
      in m1\<lparr>mm_publications := map_delete (pb_id publication) (mm_publications m1)\<rparr>)"

text \<open>\<open>acceptRemoteTrack\<close> once the publication the track belongs to has been found.\<close>

definition accept_remote_publication ::
  "(nat \<Rightarrow> bytes \<times> bytes) \<Rightarrow> attach_inputs \<Rightarrow> mesh_publication \<Rightarrow> nat \<Rightarrow> bool \<Rightarrow> media_mesh \<Rightarrow> media_mesh" where
  "accept_remote_publication R I publication receiver throws m =
     (if (mm_mode m = ''required'' \<or> mm_transformFailed m) \<and> \<not> shouldProtectMedia m then m\<lparr>mm_state := E2ee_Unsupported\<rparr>
      else case (if shouldProtectMedia m
                 then mesh_attach m receiver (inboundMediaContext (pb_rootPeerId publication) (pb_id publication)) Decrypt throws
                 else (True, m)) of
        (False, m1) \<Rightarrow> failMediaE2ee m1
      | (True, m1) \<Rightarrow>
        let m2 = (case map_of (mm_publications m) (pb_id publication) of None \<Rightarrow> m1
                  | Some current \<Rightarrow> if pb_local current then m1 else discardInboundForReplacement current m1)
        in reconcilePublication R I publication
             (m2\<lparr>mm_publications := map_set (pb_id publication) publication (mm_publications m2)\<rparr>))"

text \<open>\<open>updateRemoteSource\<close> for a publication that is there already.\<close>

definition relabel_remote ::
  "(nat \<Rightarrow> bytes \<times> bytes) \<Rightarrow> attach_inputs \<Rightarrow> string \<Rightarrow> string \<Rightarrow> string \<Rightarrow> media_mesh \<Rightarrow> media_mesh" where
  "relabel_remote R I trackId rootPeerId source m =
     (case map_of (mm_publications m) trackId of None \<Rightarrow> m
      | Some publication \<Rightarrow>
        if pb_local publication then m
        else let publication' = publication\<lparr>pb_rootPeerId := rootPeerId, pb_source := source\<rparr>
             in reconcilePublication R I publication'
                  (m\<lparr>mm_publications := map_set trackId publication' (mm_publications m)\<rparr>))"

subsection \<open>Members\<close>

text \<open>\<open>connections.add\<close> returns \<open>null\<close> only for an empty id and the own one, which the first test has excluded.\<close>

definition addPeer ::
  "(nat \<Rightarrow> bytes \<times> bytes) \<Rightarrow> attach_inputs \<Rightarrow> string \<Rightarrow> bool \<Rightarrow> jsval \<Rightarrow> media_mesh \<Rightarrow> media_mesh" where
  "addPeer R I peerId machine capabilities m =
     (if peerId = [] \<or> peerId = mm_ownId m \<or> has_peer m peerId then m
      else reconcileAllPublications R I
        (m\<lparr>mm_gate := setMachine (mm_gate m) peerId machine capabilities,
           mm_peers := map_set peerId [] (mm_peers m),
           mm_membershipStable := (if mm_membershipEpoch m > 0 then False else mm_membershipStable m)\<rparr>))"

definition mesh_removePeer :: "string \<Rightarrow> media_mesh \<Rightarrow> media_mesh" where
  "mesh_removePeer peerId m =
     (if \<not> has_peer m peerId then m
      else
        let m1 = clearAllMediaKeys (m\<lparr>mm_membershipStable := False\<rparr>);
            m2 = m1\<lparr>mm_peers := map_delete peerId (mm_peers m1), mm_peerKeys := filter (\<lambda>x. x \<noteq> peerId) (mm_peerKeys m1),
                   mm_buffered := filter (\<lambda>(_, b). be_originPeerId b \<noteq> peerId) (mm_buffered m1)\<rparr>
        in fold removePublication
             (map pb_id (filter (\<lambda>p. \<not> pb_local p \<and> pb_inboundPeerId p = peerId) (map snd (mm_publications m2)))) m2)"

definition resetPeerConnection ::
  "(nat \<Rightarrow> bytes \<times> bytes) \<Rightarrow> attach_inputs \<Rightarrow> string \<Rightarrow> media_mesh \<Rightarrow> media_mesh" where
  "resetPeerConnection R I peerId m =
     (if \<not> has_peer m peerId then m
      else
        let m1 = addPeer R I peerId (isMachine (mm_gate m) peerId) (JArr (map JStr (capabilitiesOf (mm_gate m) peerId)))
                   (mesh_removePeer peerId m)
        in if \<not> mm_membershipStable m then m1
           else case rotateMediaKeys R (m1\<lparr>mm_membershipStable := True\<rparr>) of
                  (Some e, m2) \<Rightarrow> m2
                | (None, m2) \<Rightarrow> reconcileAllPublications R I m2)"

text \<open>\<open>applyTopology\<close> after the controller has accepted the message. The overlay key is rotated in the background.\<close>

definition topology_accepted ::
  "(nat \<Rightarrow> bytes \<times> bytes) \<Rightarrow> attach_inputs \<Rightarrow> int \<Rightarrow> int \<Rightarrow> media_mesh \<Rightarrow> media_mesh" where
  "topology_accepted R I membershipEpoch routeEpoch m =
     (let membershipChanged = (membershipEpoch \<noteq> mm_membershipEpoch m);
          peerLeft = (\<exists>p \<in> set (mm_appliedPeerIds m). \<not> has_peer m p);
          m1 = m\<lparr>mm_membershipEpoch := membershipEpoch, mm_routeEpoch := routeEpoch, mm_membershipStable := True,
                 mm_appliedPeerIds := map_keys (mm_peers m)\<rparr>
      in case (if membershipChanged \<and> mm_dataOverlayEnabled m \<and> (peerLeft \<or> \<not> mm_overlayPublicKey m)
               then rotateMediaKeys R (m1\<lparr>mm_overlayPublicKey := False\<rparr>) else (None, m1)) of
           (Some e, m2) \<Rightarrow> m2
         | (None, m2) \<Rightarrow> reconcileAllPublications R I (flushBufferedMediaEnvelopes m2))"

subsection \<open>Receive policies\<close>

definition clear_unreceivable :: "mesh_publication \<Rightarrow> media_mesh \<Rightarrow> media_mesh" where
  "clear_unreceivable publication m =
     (if pb_local publication then clearPublicationMediaKeys publication m
      else if \<not> mediaAllowed (mm_gate m) (mm_ownId m) (pb_rootPeerId publication) (pb_id publication) (pb_source publication)
      then clear_receiver (inboundMediaContext (pb_rootPeerId publication) (pb_id publication)) m
      else m)"

definition refreshMachineReceiveKeys ::
  "(nat \<Rightarrow> bytes \<times> bytes) \<Rightarrow> attach_inputs \<Rightarrow> media_mesh \<Rightarrow> media_mesh" where
  "refreshMachineReceiveKeys R I m =
     (let m1 = reconcileAllPublications R I (fold clear_unreceivable (map snd (mm_publications m)) m)
      in case try_each (provisionMediaKeysForPeer R) (map_keys (mm_peers m1)) m1 of
           (Some e, m2) \<Rightarrow> m2
         | (None, m2) \<Rightarrow> refreshMediaE2eeState m2)"

definition receive_policy ::
  "(nat \<Rightarrow> bytes \<times> bytes) \<Rightarrow> attach_inputs \<Rightarrow> int \<Rightarrow> string \<Rightarrow> jsval \<Rightarrow> media_mesh \<Rightarrow> media_mesh" where
  "receive_policy R I now roomId raw m =
     (let g = snd (gate_apply (mm_gate m) now roomId raw);
          m1 = m\<lparr>mm_gate := g\<rparr>
      in if mg_changes g \<noteq> mg_changes (mm_gate m) then refreshMachineReceiveKeys R I m1 else m1)"

subsection \<open>Events\<close>

text \<open>Everything that happens to the media keys of one page. \<open>Ev_Peer_Keys\<close> is the overlay's set of peer keys
  whenever it changes; the other events are the methods above.\<close>

datatype mesh_event =
  Ev_Reconcile attach_inputs
| Ev_Sender_Lost string string
| Ev_Publish attach_inputs string string bool
| Ev_Unpublish string
| Ev_Remote_Track attach_inputs mesh_publication nat bool
| Ev_Descriptor string string
| Ev_Descriptor_Deleted string
| Ev_Relabel attach_inputs string string string
| Ev_Provision string
| Ev_Overlay_Key
| Ev_Peer_Keys "string list"
| Ev_Timer nat
| Ev_Resume nat
| Ev_Envelope string bytes
| Ev_Recovery
| Ev_Topology attach_inputs int int
| Ev_Add_Peer attach_inputs string bool jsval
| Ev_Remove_Peer string
| Ev_Reset_Peer attach_inputs string
| Ev_Receive_Policy attach_inputs int string jsval
| Ev_Policy_Timer attach_inputs int
| Ev_Machine_Left string
| Ev_Worker_Message jsval
| Ev_Worker_Failure

definition worker_running :: "media_mesh \<Rightarrow> bool" where
  "worker_running m = (case mm_controller m of None \<Rightarrow> False | Some c \<Rightarrow> mc_worker c)"

definition mesh_resume :: "media_mesh \<Rightarrow> nat \<Rightarrow> media_mesh" where
  "mesh_resume m j =
     (let m1 = m\<lparr>mm_awaiting := drop_nth j (mm_awaiting m)\<rparr>
      in case mm_awaiting m ! j of Await_Send i \<Rightarrow> pending_sent m1 i | Await_Ack \<Rightarrow> refreshMediaE2eeState m1)"

fun mesh_step :: "(nat \<Rightarrow> bytes \<times> bytes) \<Rightarrow> mesh_event \<Rightarrow> media_mesh \<Rightarrow> media_mesh" where
  "mesh_step R (Ev_Reconcile I) m = reconcileAllPublications R I m"
| "mesh_step R (Ev_Sender_Lost peerId publicationId) m = drop_sender peerId publicationId m"
| "mesh_step R (Ev_Publish I trackId source live) m = publish_track R I trackId source live m"
| "mesh_step R (Ev_Unpublish publicationId) m = removePublication publicationId m"
| "mesh_step R (Ev_Remote_Track I publication receiver throws) m =
     (if pb_local publication then m else accept_remote_publication R I publication receiver throws m)"
| "mesh_step R (Ev_Descriptor trackId source) m = m\<lparr>mm_descriptors := map_set trackId source (mm_descriptors m)\<rparr>"
| "mesh_step R (Ev_Descriptor_Deleted trackId) m = m\<lparr>mm_descriptors := map_delete trackId (mm_descriptors m)\<rparr>"
| "mesh_step R (Ev_Relabel I trackId rootPeerId source) m = relabel_remote R I trackId rootPeerId source m"
| "mesh_step R (Ev_Provision peerId) m = snd (provisionMediaKeysForPeer R peerId m)"
| "mesh_step R Ev_Overlay_Key m = m\<lparr>mm_overlayPublicKey := True\<rparr>"
| "mesh_step R (Ev_Peer_Keys ids) m = m\<lparr>mm_peerKeys := ids\<rparr>"
| "mesh_step R (Ev_Timer i) m = (if i < length (mm_store m) then pending_timer m i else m)"
| "mesh_step R (Ev_Resume j) m = (if j < length (mm_awaiting m) then mesh_resume m j else m)"
| "mesh_step R (Ev_Envelope originPeerId data) m = acceptMediaE2eeEnvelope m originPeerId data"
| "mesh_step R Ev_Recovery m = snd (e2ee_recovery R m)"
| "mesh_step R (Ev_Topology I membershipEpoch routeEpoch) m = topology_accepted R I membershipEpoch routeEpoch m"
| "mesh_step R (Ev_Add_Peer I peerId machine capabilities) m = addPeer R I peerId machine capabilities m"
| "mesh_step R (Ev_Remove_Peer peerId) m = mesh_removePeer peerId m"
| "mesh_step R (Ev_Reset_Peer I peerId) m = resetPeerConnection R I peerId m"
| "mesh_step R (Ev_Receive_Policy I now roomId raw) m = receive_policy R I now roomId raw m"
| "mesh_step R (Ev_Policy_Timer I now) m =
     (if mg_timer (mm_gate m) = None then m
      else refreshMachineReceiveKeys R I (m\<lparr>mm_gate := gate_timer (mm_gate m) now\<rparr>))"
| "mesh_step R (Ev_Machine_Left peerId) m = m\<lparr>mm_gate := gate_removePeer (mm_gate m) peerId\<rparr>"
| "mesh_step R (Ev_Worker_Message data) m = (if worker_running m \<and> worker_report data \<noteq> None then failMediaE2ee m else m)"
| "mesh_step R Ev_Worker_Failure m = (if worker_running m then failMediaE2ee (with_controller worker_failed m) else m)"

end
