(* ===== verification/Media_Key_Laws.thy ===== *)
theory Media_Key_Laws
  imports Media_Mesh
begin

text \<open>
  The invariant of the media keys of one page, over every event: each key it drew is bound to one publication and one
  peer, what it sent are these keys and the acknowledgements of keys it had installed before, and each sender key it
  installed answers an acknowledgement for it. \<open>N\<close> says which data came from which peer; \<open>own\<close> is the page's peer id and
  \<open>old\<close> what it sent at some earlier time, both of which no event changes.
\<close>

definition msg_field :: "string \<Rightarrow> pending_media_key \<Rightarrow> jsval" where
  "msg_field k p = js_get (pd_message p) k"

definition ident :: "pending_media_key \<Rightarrow> string \<times> string \<times> media_message" where
  "ident p = (pd_contextId p, pd_targetPeerId p, pd_message p)"

text \<open>The keys handed to the worker.\<close>

definition set_keys :: "media_mesh \<Rightarrow> (direction \<times> string \<times> jsval \<times> bytes) set" where
  "set_keys m = (case mm_controller m of None \<Rightarrow> {}
     | Some c \<Rightarrow> {(d, ctx, k, key). Post (Set_Key d ctx k key) \<in> set (mc_posted c)})"

definition drawn :: "(nat \<Rightarrow> bytes \<times> bytes) \<Rightarrow> media_mesh \<Rightarrow> pending_media_key \<Rightarrow> bool" where
  "drawn R m p \<longleftrightarrow> PEER_ID (pd_targetPeerId p) \<and>
     (\<exists>n pub epoch. n < mm_draws m \<and> pd_contextId p = outboundMediaContext pub (pd_targetPeerId p)
        \<and> key_input_ok pub (mm_ownId m) epoch (fst (randomMediaKey (fst (R n)) (snd (R n)))) (snd (R n))
        \<and> pd_message p = key_message pub (mm_ownId m) epoch (fst (randomMediaKey (fst (R n)) (snd (R n)))) (snd (R n)))"

definition live_key :: "pending_media_key \<Rightarrow> bool" where
  "live_key p \<longleftrightarrow> decodeMediaBaseKey (pd_message p) = Inr (pd_baseKey p)"

definition pending_keys_ok :: "media_mesh \<Rightarrow> bool" where
  "pending_keys_ok m \<longleftrightarrow> (\<forall>ctx i. map_of (mm_pending m) ctx = Some i \<longrightarrow>
     i < length (mm_store m) \<and> pd_contextId (mm_store m ! i) = ctx \<and> live_key (mm_store m ! i))"

text \<open>An acknowledgement follows the installation of the key it answers.\<close>

definition acknowledged :: "(string \<Rightarrow> bytes \<Rightarrow> bool) \<Rightarrow> media_mesh \<Rightarrow> string \<Rightarrow> bytes \<Rightarrow> bool" where
  "acknowledged N m peer data \<longleftrightarrow>
     (\<exists>msg key heard. data = encode_envelope (createMediaKeyAck msg) \<and> N peer heard \<and> read_envelope heard = Some msg
        \<and> js_get msg ''type'' = JStr ''media-key'' \<and> decodeMediaBaseKey msg = Inr key
        \<and> (Decrypt, inboundMediaContext peer (js_to_string (js_get msg ''publicationId'')), js_get msg ''keyId'', key) \<in> set_keys m)"

definition sent_ok :: "(string \<Rightarrow> bytes \<Rightarrow> bool) \<Rightarrow> media_mesh \<Rightarrow> bool" where
  "sent_ok N m \<longleftrightarrow> (\<forall>(peer, data) \<in> set (mm_sent m).
     (\<exists>p \<in> set (mm_store m). pd_targetPeerId p = peer \<and> data = encode_envelope (pd_message p)) \<or> acknowledged N m peer data)"

text \<open>A sender key answers an acknowledgement of its peer.\<close>

definition answered :: "(string \<Rightarrow> bytes \<Rightarrow> bool) \<Rightarrow> media_mesh \<Rightarrow> string \<Rightarrow> jsval \<Rightarrow> bytes \<Rightarrow> bool" where
  "answered N m ctx keyId key \<longleftrightarrow>
     (\<exists>p \<in> set (mm_store m). \<exists>data msg. pd_contextId p = ctx \<and> msg_field ''keyId'' p = keyId \<and> decodeMediaBaseKey (pd_message p) = Inr key
        \<and> N (pd_targetPeerId p) data \<and> read_envelope data = Some msg \<and> js_get msg ''type'' = JStr ''media-key-ack''
        \<and> js_get msg ''keyId'' = keyId)"

text \<open>The log of installed keys has the keys handed to the worker. A receiver key came in a key message of its sender, and a
  sender key is one of the page's own; the membership epoch in the message is that of the page when the key was installed.\<close>

fun installed_ok :: "(string \<Rightarrow> bytes \<Rightarrow> bool) \<Rightarrow> media_mesh \<Rightarrow> direction \<times> string \<times> jsval \<times> bytes \<times> int \<Rightarrow> bool" where
  "installed_ok N m (Decrypt, ctx, keyId, key, epoch) \<longleftrightarrow>
     (\<exists>origin data msg. PEER_ID origin \<and> N origin data \<and> read_envelope data = Some msg \<and> js_get msg ''type'' = JStr ''media-key''
        \<and> ctx = inboundMediaContext origin (js_to_string (js_get msg ''publicationId'')) \<and> js_get msg ''keyId'' = keyId
        \<and> decodeMediaBaseKey msg = Inr key \<and> js_get msg ''membershipEpoch'' = JInt epoch)"
| "installed_ok N m (Encrypt, ctx, keyId, key, epoch) \<longleftrightarrow>
     (\<exists>p \<in> set (mm_store m). pd_contextId p = ctx \<and> msg_field ''keyId'' p = keyId \<and> decodeMediaBaseKey (pd_message p) = Inr key
        \<and> msg_field ''membershipEpoch'' p = JInt epoch)"

definition log_ok :: "(string \<Rightarrow> bytes \<Rightarrow> bool) \<Rightarrow> media_mesh \<Rightarrow> bool" where
  "log_ok N m \<longleftrightarrow> set_keys m = (\<lambda>(d, ctx, k, key, epoch). (d, ctx, k, key)) ` set (mm_installed m)
     \<and> (\<forall>x \<in> set (mm_installed m). installed_ok N m x)"

text \<open>The random source gives arrays of the right lengths; \<open>ids_fresh\<close>: no key id came twice so far.\<close>

definition random_source :: "(nat \<Rightarrow> bytes \<times> bytes) \<Rightarrow> bool" where
  "random_source R \<longleftrightarrow> (\<forall>n. random_key_ok (R n))"

definition ids_fresh :: "(nat \<Rightarrow> bytes \<times> bytes) \<Rightarrow> nat \<Rightarrow> bool" where
  "ids_fresh R d \<longleftrightarrow> inj_on (\<lambda>n. fst (R n)) {..<d}"

lemma ids_fresh_mono: "ids_fresh R d \<Longrightarrow> c \<le> d \<Longrightarrow> ids_fresh R c"
  by (auto simp: ids_fresh_def elim: inj_on_subset)

definition keys_inv :: "string \<Rightarrow> (string \<times> bytes) set \<Rightarrow> (nat \<Rightarrow> bytes \<times> bytes) \<Rightarrow> (string \<Rightarrow> bytes \<Rightarrow> bool) \<Rightarrow> media_mesh \<Rightarrow> bool" where
  "keys_inv own old R N m \<longleftrightarrow>
     mm_ownId m = own \<and> old \<subseteq> set (mm_sent m) \<and> mm_membershipEpoch m \<le> MAX_SAFE_INTEGER \<and> list_all PEER_ID (map_keys (mm_peers m)) \<and> (\<forall>p \<in> set (mm_store m). drawn R m p)
     \<and> (ids_fresh R (mm_draws m) \<longrightarrow> distinct (map (msg_field ''keyId'') (mm_store m))) \<and> pending_keys_ok m \<and> sent_ok N m
     \<and> (\<forall>(_, b) \<in> set (mm_buffered m). PEER_ID (be_originPeerId b) \<and> N (be_originPeerId b) (be_data b))
     \<and> (\<forall>ctx k key. (Encrypt, ctx, k, key) \<in> set_keys m \<longrightarrow> answered N m ctx k key) \<and> log_ok N m"

subsection \<open>Steps that add no key\<close>

definition quiet :: "media_mesh \<Rightarrow> media_mesh \<Rightarrow> bool" where
  "quiet m m' \<longleftrightarrow> mm_ownId m' = mm_ownId m \<and> map ident (mm_store m') = map ident (mm_store m) \<and> mm_draws m \<le> mm_draws m'
     \<and> mm_sent m' = mm_sent m \<and> set (mm_buffered m') \<subseteq> set (mm_buffered m) \<and> set_keys m' = set_keys m
     \<and> mm_installed m' = mm_installed m
     \<and> (\<forall>ctx i. map_of (mm_pending m') ctx = Some i \<longrightarrow>
          map_of (mm_pending m) ctx = Some i \<and> pd_baseKey (mm_store m' ! i) = pd_baseKey (mm_store m ! i))"

lemma ident_store:
  assumes "map ident (mm_store m') = map ident (mm_store m)"
  shows "length (mm_store m') = length (mm_store m)"
    and "i < length (mm_store m) \<Longrightarrow> ident (mm_store m' ! i) = ident (mm_store m ! i)"
    and "p \<in> set (mm_store m) \<Longrightarrow> \<exists>q \<in> set (mm_store m'). ident q = ident p"
proof -
  show len: "length (mm_store m') = length (mm_store m)" using assms map_eq_imp_length_eq by blast
  show "i < length (mm_store m) \<Longrightarrow> ident (mm_store m' ! i) = ident (mm_store m ! i)" using assms len by (metis nth_map)
  show "p \<in> set (mm_store m) \<Longrightarrow> \<exists>q \<in> set (mm_store m'). ident q = ident p"
    using assms by (metis (no_types, lifting) image_iff list.set_map)
qed

lemma identD: "ident q = ident p \<Longrightarrow> pd_contextId q = pd_contextId p \<and> pd_targetPeerId q = pd_targetPeerId p \<and> pd_message q = pd_message p"
  by (simp add: ident_def)

lemma map_msg_field: "map ident ps = map ident qs \<Longrightarrow> map (msg_field k) ps = map (msg_field k) qs"
proof -
  assume a: "map ident ps = map ident qs"
  have "map (msg_field k) xs = map (\<lambda>x. js_get (snd (snd x)) k) (map ident xs)" for xs by (simp add: msg_field_def ident_def)
  then show ?thesis by (simp only: a)
qed

lemma answered_mono:
  assumes "answered N m ctx k key" and "\<And>p. p \<in> set (mm_store m) \<Longrightarrow> \<exists>q \<in> set (mm_store m'). ident q = ident p"
    and "\<And>a d. N a d \<Longrightarrow> N' a d"
  shows "answered N' m' ctx k key"
proof -
  from assms(1) obtain p data msg where p: "p \<in> set (mm_store m)" "pd_contextId p = ctx" "msg_field ''keyId'' p = k"
      "decodeMediaBaseKey (pd_message p) = Inr key" "N (pd_targetPeerId p) data" "read_envelope data = Some msg"
      "js_get msg ''type'' = JStr ''media-key-ack''" "js_get msg ''keyId'' = k"
    unfolding answered_def by blast
  obtain q where "q \<in> set (mm_store m')" "ident q = ident p" using assms(2) [OF p(1)] by blast
  with p assms(3) show ?thesis unfolding answered_def by (intro bexI [of _ q] exI [of _ data] exI [of _ msg] conjI) (auto simp: msg_field_def dest!: identD)
qed

lemma installed_mono:
  assumes "installed_ok N m x" and "\<And>p. p \<in> set (mm_store m) \<Longrightarrow> \<exists>q \<in> set (mm_store m'). ident q = ident p"
    and "\<And>a d. N a d \<Longrightarrow> N' a d"
  shows "installed_ok N' m' x"
proof -
  obtain d ctx k key e where x: "x = (d, ctx, k, key, e)" by (cases x)
  show ?thesis
  proof (cases d)
    case Encrypt
    then obtain p where "p \<in> set (mm_store m)" "pd_contextId p = ctx" "msg_field ''keyId'' p = k" "decodeMediaBaseKey (pd_message p) = Inr key"
        "msg_field ''membershipEpoch'' p = JInt e"
      using assms(1) x by auto
    moreover from this(1) obtain q where "q \<in> set (mm_store m')" "ident q = ident p" using assms(2) by blast
    ultimately show ?thesis using Encrypt x by (auto simp: msg_field_def dest!: identD)
  next
    case Decrypt
    then have "installed_ok N m (Decrypt, ctx, k, key, e)" using assms(1) x by simp
    then have "installed_ok N' m' (Decrypt, ctx, k, key, e)" unfolding installed_ok.simps using assms(3) by blast
    then show ?thesis using Decrypt x by simp
  qed
qed

lemma log_ok_mono:
  assumes "log_ok N m" and "\<And>p. p \<in> set (mm_store m) \<Longrightarrow> \<exists>q \<in> set (mm_store m'). ident q = ident p"
    and "\<And>a d. N a d \<Longrightarrow> N' a d" and "set_keys m' = set_keys m" "mm_installed m' = mm_installed m"
  shows "log_ok N' m'"
proof -
  have "installed_ok N' m' x" if "x \<in> set (mm_installed m)" for x
    by (rule installed_mono [of N m]) (use assms that in \<open>auto simp: log_ok_def\<close>)
  then show ?thesis using assms(1,4,5) by (simp add: log_ok_def)
qed

lemma acknowledged_mono:
  "\<lbrakk>acknowledged N m peer data; set_keys m \<subseteq> set_keys m'; \<And>a d. N a d \<Longrightarrow> N' a d\<rbrakk> \<Longrightarrow> acknowledged N' m' peer data"
  unfolding acknowledged_def by blast

lemma sent_ok_grow:
  assumes "sent_ok N m" and "\<And>p. p \<in> set (mm_store m) \<Longrightarrow> \<exists>q \<in> set (mm_store m'). ident q = ident p"
    and "set_keys m \<subseteq> set_keys m'" and "\<And>a d. N a d \<Longrightarrow> N' a d"
    and "\<And>peer data. (peer, data) \<in> set (mm_sent m') \<Longrightarrow> (peer, data) \<in> set (mm_sent m)
       \<or> (\<exists>p \<in> set (mm_store m'). pd_targetPeerId p = peer \<and> data = encode_envelope (pd_message p)) \<or> acknowledged N' m' peer data"
  shows "sent_ok N' m'"
proof -
  have "(\<exists>p \<in> set (mm_store m'). pd_targetPeerId p = peer \<and> data = encode_envelope (pd_message p)) \<or> acknowledged N' m' peer data"
    if "(peer, data) \<in> set (mm_sent m')" for peer data
    using assms(5) [OF that]
  proof (elim disjE)
    assume "(peer, data) \<in> set (mm_sent m)"
    then consider (key) p where "p \<in> set (mm_store m)" "pd_targetPeerId p = peer" "data = encode_envelope (pd_message p)"
      | (ack) "acknowledged N m peer data"
      using assms(1) by (fastforce simp: sent_ok_def)
    then show ?thesis
    proof cases
      case key
      then show ?thesis using assms(2) [OF key(1)] by (metis identD)
    next
      case ack
      then show ?thesis using acknowledged_mono [OF ack assms(3), of N'] assms(4) by blast
    qed
  qed simp_all
  then show ?thesis by (auto simp: sent_ok_def)
qed

lemma drawn_mono: "\<lbrakk>drawn R m p; mm_ownId m' = mm_ownId m; mm_draws m \<le> mm_draws m'; ident q = ident p\<rbrakk> \<Longrightarrow> drawn R m' q"
proof -
  assume a: "drawn R m p" "mm_ownId m' = mm_ownId m" "mm_draws m \<le> mm_draws m'" "ident q = ident p"
  have "n < mm_draws m'" if "n < mm_draws m" for n using a(3) that by simp
  then show ?thesis using a(1,2) identD [OF a(4)] unfolding drawn_def by auto
qed

lemma keys_inv_quiet:
  assumes "keys_inv own old R N m" "quiet m m'" "list_all PEER_ID (map_keys (mm_peers m'))" "mm_membershipEpoch m' \<le> MAX_SAFE_INTEGER"
  shows "keys_inv own old R N m'"
proof -
  from assms(2) have ids: "map ident (mm_store m') = map ident (mm_store m)" and own: "mm_ownId m' = mm_ownId m"
    and draws: "mm_draws m \<le> mm_draws m'" and sent: "mm_sent m' = mm_sent m" and sk: "set_keys m' = set_keys m"
    and inst: "mm_installed m' = mm_installed m"
    and buf: "set (mm_buffered m') \<subseteq> set (mm_buffered m)"
    and pend: "\<And>ctx i. map_of (mm_pending m') ctx = Some i \<Longrightarrow>
          map_of (mm_pending m) ctx = Some i \<and> pd_baseKey (mm_store m' ! i) = pd_baseKey (mm_store m ! i)"
    by (auto simp: quiet_def)
  note st = ident_store [OF ids]
  note fld = map_msg_field [OF ids, of "''keyId''"]
  have "\<forall>p \<in> set (mm_store m'). drawn R m' p"
  proof
    fix p assume "p \<in> set (mm_store m')"
    then obtain q where "q \<in> set (mm_store m)" "ident q = ident p"
      using ident_store(3) [OF ids [symmetric]] by blast
    then show "drawn R m' p" using assms(1) drawn_mono [OF _ own draws, of R q p] by (simp add: keys_inv_def)
  qed
  moreover have "pending_keys_ok m'"
    unfolding pending_keys_ok_def
  proof (intro allI impI)
    fix ctx i assume "map_of (mm_pending m') ctx = Some i"
    then have p: "map_of (mm_pending m) ctx = Some i" "pd_baseKey (mm_store m' ! i) = pd_baseKey (mm_store m ! i)" using pend by auto
    then have q: "i < length (mm_store m)" "pd_contextId (mm_store m ! i) = ctx" "live_key (mm_store m ! i)"
      using assms(1) by (auto simp: keys_inv_def pending_keys_ok_def)
    then show "i < length (mm_store m') \<and> pd_contextId (mm_store m' ! i) = ctx \<and> live_key (mm_store m' ! i)"
      using st(1) identD [OF st(2) [OF q(1)]] p(2) by (simp add: live_key_def)
  qed
  moreover have "sent_ok N m'"
    by (rule sent_ok_grow [of N m]) (use assms(1) st(3) sk sent in \<open>simp_all add: keys_inv_def\<close>)
  moreover have "answered N m' ctx k key" if "(Encrypt, ctx, k, key) \<in> set_keys m'" for ctx k key
    by (rule answered_mono [of N m]) (use assms(1) that sk st(3) in \<open>simp_all add: keys_inv_def\<close>)
  moreover have "log_ok N m'"
    by (rule log_ok_mono [of N m]) (use assms(1) st(3) sk inst in \<open>simp_all add: keys_inv_def\<close>)
  ultimately show ?thesis using assms(1,3,4) own sent buf fld ids_fresh_mono [OF _ draws, of R] unfolding keys_inv_def by auto
qed

named_theorems mesh_ops \<open>definitions that change no key\<close>

lemma keys_inv_same:
  assumes "keys_inv own old R N m"
    and "mm_ownId m' = mm_ownId m" "mm_store m' = mm_store m" "mm_draws m' = mm_draws m" "mm_sent m' = mm_sent m"
    and "mm_buffered m' = mm_buffered m" "mm_pending m' = mm_pending m" "set_keys m' = set_keys m"
    and "map_keys (mm_peers m') = map_keys (mm_peers m)" "mm_membershipEpoch m' = mm_membershipEpoch m"
    and "mm_installed m' = mm_installed m"
  shows "keys_inv own old R N m'"
  using assms(1) by (rule keys_inv_quiet) (use assms in \<open>simp_all add: quiet_def keys_inv_def\<close>)

lemma keys_inv_peers: "keys_inv own old R N m \<Longrightarrow> list_all PEER_ID (map_keys (mm_peers m))"
  and keys_inv_epoch: "keys_inv own old R N m \<Longrightarrow> mm_membershipEpoch m \<le> MAX_SAFE_INTEGER"
  by (simp_all add: keys_inv_def)

lemma set_keys_cong: "mm_controller m' = mm_controller m \<Longrightarrow> set_keys m' = set_keys m"
  by (simp add: set_keys_def)

lemma set_keys_with_controller:
  "(\<And>c d ctx k key. Post (Set_Key d ctx k key) \<in> set (mc_posted (f c)) \<longleftrightarrow> Post (Set_Key d ctx k key) \<in> set (mc_posted c))
   \<Longrightarrow> set_keys (with_controller f m) = set_keys m"
  by (simp add: set_keys_def with_controller_def split: option.splits)

lemma set_keys_clear [simp]:
  "set_keys (with_controller (\<lambda>c. clearContext c ctx) m) = set_keys m"
  "set_keys (with_controller clearKeys m) = set_keys m"
  "set_keys (with_controller worker_failed m) = set_keys m"
  by (rule set_keys_with_controller; simp add: clearContext_def clearKeys_def worker_failed_def destroy_controller_def post_def)+

lemma with_controller_fields [simp]:
  "mm_ownId (with_controller f m) = mm_ownId m" "mm_mode (with_controller f m) = mm_mode m"
  "mm_dataOverlayEnabled (with_controller f m) = mm_dataOverlayEnabled m" "mm_transformFailed (with_controller f m) = mm_transformFailed m"
  "mm_state (with_controller f m) = mm_state m" "mm_membershipEpoch (with_controller f m) = mm_membershipEpoch m"
  "mm_store (with_controller f m) = mm_store m" "mm_pending (with_controller f m) = mm_pending m"
  "mm_draws (with_controller f m) = mm_draws m" "mm_sent (with_controller f m) = mm_sent m"
  "mm_buffered (with_controller f m) = mm_buffered m" "mm_peers (with_controller f m) = mm_peers m"
  "mm_publications (with_controller f m) = mm_publications m" "mm_gate (with_controller f m) = mm_gate m"
  "mm_controller (with_controller f m) = map_option f (mm_controller m)" "mm_installed (with_controller f m) = mm_installed m"
  by (simp_all add: with_controller_def)

lemma refresh_fields [simp]:
  "mm_membershipEpoch (refreshMediaE2eeState m) = mm_membershipEpoch m" "mm_ownId (refreshMediaE2eeState m) = mm_ownId m" "mm_mode (refreshMediaE2eeState m) = mm_mode m"
  "mm_store (refreshMediaE2eeState m) = mm_store m" "mm_pending (refreshMediaE2eeState m) = mm_pending m"
  "mm_draws (refreshMediaE2eeState m) = mm_draws m" "mm_sent (refreshMediaE2eeState m) = mm_sent m"
  "mm_buffered (refreshMediaE2eeState m) = mm_buffered m" "mm_peers (refreshMediaE2eeState m) = mm_peers m"
  "mm_publications (refreshMediaE2eeState m) = mm_publications m" "mm_controller (refreshMediaE2eeState m) = mm_controller m"
  "set_keys (refreshMediaE2eeState m) = set_keys m" "mm_installed (refreshMediaE2eeState m) = mm_installed m"
  by (simp_all add: refreshMediaE2eeState_def set_keys_def)

lemma fail_fields [simp]:
  "mm_membershipEpoch (failMediaE2ee m) = mm_membershipEpoch m" "mm_ownId (failMediaE2ee m) = mm_ownId m" "mm_mode (failMediaE2ee m) = mm_mode m"
  "mm_store (failMediaE2ee m) = mm_store m" "mm_pending (failMediaE2ee m) = mm_pending m"
  "mm_draws (failMediaE2ee m) = mm_draws m" "mm_sent (failMediaE2ee m) = mm_sent m"
  "mm_buffered (failMediaE2ee m) = mm_buffered m" "mm_peers (failMediaE2ee m) = mm_peers m"
  "mm_publications (failMediaE2ee m) = mm_publications m" "mm_controller (failMediaE2ee m) = mm_controller m"
  "set_keys (failMediaE2ee m) = set_keys m" "mm_installed (failMediaE2ee m) = mm_installed m"
  by (simp_all add: failMediaE2ee_def set_keys_def)

lemma destroy_fields [simp]:
  "mm_membershipEpoch (destroyPendingMediaKey m i) = mm_membershipEpoch m" "mm_ownId (destroyPendingMediaKey m i) = mm_ownId m" "mm_mode (destroyPendingMediaKey m i) = mm_mode m"
  "mm_pending (destroyPendingMediaKey m i) = mm_pending m" "mm_draws (destroyPendingMediaKey m i) = mm_draws m"
  "mm_sent (destroyPendingMediaKey m i) = mm_sent m" "mm_buffered (destroyPendingMediaKey m i) = mm_buffered m"
  "mm_peers (destroyPendingMediaKey m i) = mm_peers m" "mm_publications (destroyPendingMediaKey m i) = mm_publications m"
  "mm_controller (destroyPendingMediaKey m i) = mm_controller m" "set_keys (destroyPendingMediaKey m i) = set_keys m"
  "length (mm_store (destroyPendingMediaKey m i)) = length (mm_store m)" "mm_installed (destroyPendingMediaKey m i) = mm_installed m"
  by (simp_all add: destroyPendingMediaKey_def set_keys_def)

lemma map_ident_update:
  "(i < length ps \<Longrightarrow> ident p = ident (ps ! i)) \<Longrightarrow> map ident (ps[i := p]) = map ident ps"
  by (cases "i < length ps") (auto simp: map_update list_update_same_conv list_update_beyond)

lemma destroy_ident [simp]: "map ident (mm_store (destroyPendingMediaKey m i)) = map ident (mm_store m)"
  unfolding destroyPendingMediaKey_def by (simp add: map_ident_update ident_def)

lemma destroy_other: "j \<noteq> i \<Longrightarrow> mm_store (destroyPendingMediaKey m i) ! j = mm_store m ! j"
  by (simp add: destroyPendingMediaKey_def)

lemma fold_destroy:
  "let m' = fold (\<lambda>entry m. destroyPendingMediaKey m (snd entry)) entries m
   in mm_membershipEpoch m' = mm_membershipEpoch m \<and> mm_ownId m' = mm_ownId m \<and> mm_mode m' = mm_mode m \<and> mm_draws m' = mm_draws m \<and> mm_sent m' = mm_sent m \<and> mm_buffered m' = mm_buffered m
     \<and> mm_peers m' = mm_peers m \<and> mm_controller m' = mm_controller m \<and> mm_publications m' = mm_publications m
     \<and> map ident (mm_store m') = map ident (mm_store m) \<and> mm_installed m' = mm_installed m"
  by (induction entries arbitrary: m) (simp_all add: Let_def)

lemma keys_inv_clearAll:
  assumes "keys_inv own old R N m" shows "keys_inv own old R N (clearAllMediaKeys m)"
proof -
  define m1 where "m1 = fold (\<lambda>entry m. destroyPendingMediaKey m (snd entry)) (mm_pending m) m"
  define m2 where "m2 = with_controller clearKeys (m1\<lparr>mm_pending := [], mm_senders := [], mm_receivers := []\<rparr>)"
  have f: "mm_ownId m1 = mm_ownId m" "mm_draws m1 = mm_draws m" "mm_sent m1 = mm_sent m" "mm_buffered m1 = mm_buffered m"
      "mm_peers m1 = mm_peers m" "mm_controller m1 = mm_controller m" "map ident (mm_store m1) = map ident (mm_store m)"
      "mm_membershipEpoch m1 = mm_membershipEpoch m" "mm_installed m1 = mm_installed m"
    using fold_destroy [of "mm_pending m" m] by (simp_all add: m1_def Let_def)
  have "set_keys m2 = set_keys m" using f(6) by (simp add: m2_def) (simp add: set_keys_def)
  then have "quiet m m2" using f by (simp add: quiet_def m2_def)
  then have m2: "keys_inv own old R N m2" using assms f(5,8) by (intro keys_inv_quiet [OF assms]) (simp_all add: m2_def keys_inv_peers keys_inv_epoch)
  then have "keys_inv own old R N (m2\<lparr>mm_state := E2ee_Pending\<rparr>)"
    by (rule keys_inv_same) (simp_all add: set_keys_def)
  with m2 show ?thesis by (simp add: clearAllMediaKeys_def Let_def m1_def [symmetric] m2_def [symmetric])
qed

lemma quiet_drop_pending:
  assumes "pending_keys_ok m" "map_of (mm_pending m) ctx = Some i"
  shows "quiet m ((destroyPendingMediaKey m i)\<lparr>mm_pending := map_delete ctx (mm_pending m)\<rparr>)"
proof -
  have "pd_baseKey (mm_store (destroyPendingMediaKey m i) ! j) = pd_baseKey (mm_store m ! j)"
    if "map_of (map_delete ctx (mm_pending m)) ctx' = Some j" for ctx' j
  proof -
    have "ctx' \<noteq> ctx" "map_of (mm_pending m) ctx' = Some j" using that by (auto split: if_splits)
    then have "j \<noteq> i" using assms by (auto simp: pending_keys_ok_def)
    then show ?thesis by (simp add: destroy_other)
  qed
  then show ?thesis by (auto simp: quiet_def set_keys_def split: if_splits)
qed

lemma keys_inv_clear_peer:
  assumes "keys_inv own old R N m" shows "keys_inv own old R N (clear_peer_key publication peerId m)"
proof -
  define ctx where "ctx = outboundMediaContext (pb_id publication) peerId"
  define m1 where "m1 = (case map_of (mm_pending m) ctx of None \<Rightarrow> m | Some i \<Rightarrow> destroyPendingMediaKey m i)"
  have ok: "pending_keys_ok m" using assms by (simp add: keys_inv_def)
  have "quiet m (m1\<lparr>mm_pending := map_delete ctx (mm_pending m1)\<rparr>)"
  proof (cases "map_of (mm_pending m) ctx")
    case None
    then show ?thesis by (auto simp: m1_def quiet_def set_keys_def split: if_splits)
  next
    case (Some i)
    then show ?thesis using quiet_drop_pending [OF ok Some] by (simp add: m1_def)
  qed
  moreover have "mm_peers m1 = mm_peers m" "mm_membershipEpoch m1 = mm_membershipEpoch m" by (simp_all add: m1_def split: option.splits)
  ultimately have k: "keys_inv own old R N (m1\<lparr>mm_pending := map_delete ctx (mm_pending m1)\<rparr>)"
    using assms by (intro keys_inv_quiet [OF assms]) (simp_all add: keys_inv_peers keys_inv_epoch)
  then show ?thesis
    unfolding clear_peer_key_def Let_def ctx_def [symmetric] m1_def [symmetric]
    by (rule keys_inv_same) (simp_all, simp add: set_keys_def)
qed

lemma keys_inv_clear_receiver: "keys_inv own old R N m \<Longrightarrow> keys_inv own old R N (clear_receiver ctx m)"
  unfolding clear_receiver_def
  by (erule keys_inv_same) (simp_all, simp add: set_keys_def)

lemma fold_inv: "(\<And>x s. x \<in> set xs \<Longrightarrow> P s \<Longrightarrow> P (f x s)) \<Longrightarrow> P s \<Longrightarrow> P (fold f xs s)"
  by (induction xs arbitrary: s) auto

lemma try_each_inv: "(\<And>x s. x \<in> set xs \<Longrightarrow> P s \<Longrightarrow> P (snd (f x s))) \<Longrightarrow> P s \<Longrightarrow> P (snd (try_each f xs s))"
proof (induction xs arbitrary: s)
  case (Cons x xs)
  have x: "P (snd (f x s))" using Cons.prems by simp
  have "P (snd (try_each f xs (snd (f x s))))" using Cons.prems x by (intro Cons.IH) auto
  with x show ?case by (cases "f x s"; cases "fst (f x s)") auto
qed simp

lemma keys_inv_refresh: "keys_inv own old R N m \<Longrightarrow> keys_inv own old R N (refreshMediaE2eeState m)"
  by (erule keys_inv_same) simp_all

lemma keys_inv_fail: "keys_inv own old R N m \<Longrightarrow> keys_inv own old R N (failMediaE2ee m)"
  by (erule keys_inv_same) simp_all

lemma keys_inv_clear_publication: "keys_inv own old R N m \<Longrightarrow> keys_inv own old R N (clearPublicationMediaKeys publication m)"
  unfolding clearPublicationMediaKeys_def Let_def
  by (intro keys_inv_refresh) (auto intro!: keys_inv_clear_receiver fold_inv [where P = "keys_inv own old R N"] keys_inv_clear_peer)

end
