(* ===== verification/Media_Key_Exchange.thy ===== *)
theory Media_Key_Exchange
  imports Media_Key_Laws
begin

text \<open>
  Every event keeps the invariant of \<open>Media_Key_Laws\<close>: keys that are drawn, sent, installed and acknowledged.
\<close>

subsection \<open>Keys that are sent and installed\<close>

lemma keys_inv_extend:
  assumes "keys_inv own old R N m"
    and "mm_ownId m' = mm_ownId m" "mm_store m' = mm_store m" "mm_draws m' = mm_draws m"
    and "mm_buffered m' = mm_buffered m" "mm_pending m' = mm_pending m" "set_keys m \<subseteq> set_keys m'"
    and "map_keys (mm_peers m') = map_keys (mm_peers m)" "mm_membershipEpoch m' = mm_membershipEpoch m"
    and "set (mm_sent m) \<subseteq> set (mm_sent m')"
    and "\<And>peer data. (peer, data) \<in> set (mm_sent m') \<Longrightarrow> (peer, data) \<in> set (mm_sent m)
       \<or> (\<exists>p \<in> set (mm_store m'). pd_targetPeerId p = peer \<and> data = encode_envelope (pd_message p)) \<or> acknowledged N m' peer data"
    and "\<And>ctx k key. (Encrypt, ctx, k, key) \<in> set_keys m' \<Longrightarrow> (Encrypt, ctx, k, key) \<in> set_keys m \<or> answered N m' ctx k key"
    and "log_ok N m'"
  shows "keys_inv own old R N m'"
proof -
  have "sent_ok N m'"
    by (rule sent_ok_grow [of N m]) (use assms(1,3,7) assms(11) in \<open>auto simp: keys_inv_def\<close>)
  moreover have "answered N m' ctx k key" if "(Encrypt, ctx, k, key) \<in> set_keys m'" for ctx k key
    using assms(12) [OF that]
  proof
    assume "(Encrypt, ctx, k, key) \<in> set_keys m"
    then have "answered N m ctx k key" using assms(1) by (simp add: keys_inv_def)
    then show ?thesis by (rule answered_mono) (use assms(3) in auto)
  qed
  moreover have "drawn R m' p" if "p \<in> set (mm_store m')" for p
    using assms(1-4) that drawn_mono [of R m p m' p] by (simp add: keys_inv_def)
  ultimately show ?thesis
    using assms(1,2,3,4,5,6,8,9,10,13) unfolding keys_inv_def pending_keys_ok_def by auto
qed

lemma send_fields [simp]:
  "mm_ownId (sendPendingMediaKey m i) = mm_ownId m" "mm_mode (sendPendingMediaKey m i) = mm_mode m"
  "mm_store (sendPendingMediaKey m i) = mm_store m" "mm_draws (sendPendingMediaKey m i) = mm_draws m"
  "mm_buffered (sendPendingMediaKey m i) = mm_buffered m" "mm_pending (sendPendingMediaKey m i) = mm_pending m"
  "mm_peers (sendPendingMediaKey m i) = mm_peers m" "mm_membershipEpoch (sendPendingMediaKey m i) = mm_membershipEpoch m"
  "mm_controller (sendPendingMediaKey m i) = mm_controller m" "set_keys (sendPendingMediaKey m i) = set_keys m"
  "mm_publications (sendPendingMediaKey m i) = mm_publications m" "mm_installed (sendPendingMediaKey m i) = mm_installed m"
  by (simp_all add: sendPendingMediaKey_def set_keys_def Let_def)

lemma keys_inv_send: assumes inv: "keys_inv own old R N m" shows "keys_inv own old R N (sendPendingMediaKey m i)"
proof (rule keys_inv_extend [OF inv], simp_all)
  show "log_ok N (sendPendingMediaKey m i)"
    by (rule log_ok_mono [of N m]) (use inv in \<open>auto simp: keys_inv_def\<close>)
  show "set (mm_sent m) \<subseteq> set (mm_sent (sendPendingMediaKey m i))" by (auto simp: sendPendingMediaKey_def Let_def)
  fix peer data
  assume sent: "(peer, data) \<in> set (mm_sent (sendPendingMediaKey m i))"
  show "(peer, data) \<in> set (mm_sent m) \<or> (\<exists>p \<in> set (mm_store m). pd_targetPeerId p = peer \<and> data = encode_envelope (pd_message p))
      \<or> acknowledged N (sendPendingMediaKey m i) peer data"
  proof (cases "(peer, data) \<in> set (mm_sent m)")
    case False
    with sent have "map_of (mm_pending m) (pd_contextId (mm_store m ! i)) = Some i" "peer = pd_targetPeerId (mm_store m ! i)"
        "data = encode_envelope (pd_message (mm_store m ! i))"
      by (auto simp: sendPendingMediaKey_def Let_def split: if_splits)
    moreover from this(1) inv have "i < length (mm_store m)" by (auto simp: keys_inv_def pending_keys_ok_def)
    ultimately show ?thesis by (metis nth_mem)
  qed simp
qed

lemma keys_inv_store_update:
  assumes "keys_inv own old R N m" and "i < length (mm_store m) \<Longrightarrow> ident p = ident (mm_store m ! i) \<and> pd_baseKey p = pd_baseKey (mm_store m ! i)"
  shows "keys_inv own old R N (m\<lparr>mm_store := (mm_store m)[i := p]\<rparr>)"
proof -
  have "pd_baseKey ((mm_store m)[i := p] ! j) = pd_baseKey (mm_store m ! j)" for j
    using assms(2) by (cases "i < length (mm_store m)") (auto simp: nth_list_update list_update_beyond)
  then have "quiet m (m\<lparr>mm_store := (mm_store m)[i := p]\<rparr>)"
    using assms(2) by (simp add: quiet_def set_keys_def map_ident_update)
  then show ?thesis using assms(1) by (intro keys_inv_quiet [OF assms(1)]) (simp_all add: keys_inv_peers keys_inv_epoch)
qed

lemma keys_inv_pending_sent: "keys_inv own old R N m \<Longrightarrow> keys_inv own old R N (pending_sent m i)"
proof -
  assume inv: "keys_inv own old R N m"
  let ?p = "(mm_store m ! i)\<lparr>pd_retries := pd_retries (mm_store m ! i) + 1\<rparr>"
  have "keys_inv own old R N (m\<lparr>mm_store := (mm_store m)[i := ?p]\<rparr>)" using inv by (rule keys_inv_store_update) (simp add: ident_def)
  moreover have "keys_inv own old R N (m\<lparr>mm_store := (mm_store m)[i := ?p\<lparr>pd_timer := True\<rparr>]\<rparr>)"
    using inv by (rule keys_inv_store_update) (simp add: ident_def)
  ultimately show ?thesis by (simp add: pending_sent_def Let_def)
qed

lemma keys_inv_pending_timer: "keys_inv own old R N m \<Longrightarrow> keys_inv own old R N (pending_timer m i)"
  unfolding pending_timer_def by (auto intro!: keys_inv_send keys_inv_store_update simp: ident_def)

lemma mesh_set_key_fields:
  assumes "mesh_set_key m d ctx k key = (r, m1)"
  shows "m1 = m\<lparr>mm_controller := mm_controller m1, mm_installed := mm_installed m1\<rparr>"
    "set_keys m1 = (if r then insert (d, ctx, k, key) (set_keys m) else set_keys m)" "r \<Longrightarrow> length key = 16"
    "mm_installed m1 = (if r then mm_installed m @ [(d, ctx, k, key, mm_membershipEpoch m)] else mm_installed m)"
  using assms
  by (auto simp: mesh_set_key_def setSenderKey_def setReceiverKey_def set_keys_def setKey_controller_def ensureWorker_def
      split: option.splits prod.splits direction.splits if_splits)

lemma outbound_inj:
  assumes "outboundMediaContext p a = outboundMediaContext q b" "PEER_ID a" "PEER_ID b" shows "p = q" "a = b"
proof -
  have len: "length a = 16" "length b = 16" using assms(2,3) by (auto simp: PEER_ID_def matches_def)
  have "p @ (CHR '':'' # a) = q @ (CHR '':'' # b)" using assms(1) by (simp add: outboundMediaContext_def)
  then show "p = q" "a = b" using len by (auto simp: append_eq_append_conv)
qed

definition draw :: "(nat \<Rightarrow> bytes \<times> bytes) \<Rightarrow> nat \<Rightarrow> string \<times> bytes" where
  "draw R n = randomMediaKey (fst (R n)) (snd (R n))"

lemma draw_ok: "random_source R \<Longrightarrow> KEY_ID (fst (draw R n)) \<and> length (snd (draw R n)) = SFRAME_BASE_KEY_BYTES \<and> byte_seq (snd (draw R n))"
  using KEY_ID_random [of "fst (R n)" "snd (R n)"]
  by (auto simp: random_source_def draw_def random_key_ok_def randomMediaKey_def)

lemma draw_inj: "\<lbrakk>random_source R; ids_fresh R d; n < d; k < d; fst (draw R n) = fst (draw R k)\<rbrakk> \<Longrightarrow> n = k"
  using random_key_id_inj [of "R n" "R k"] by (auto simp: random_source_def ids_fresh_def draw_def dest: inj_onD)

lemma drawn_draw:
  "drawn R m p \<longleftrightarrow> PEER_ID (pd_targetPeerId p) \<and>
     (\<exists>n pub epoch. n < mm_draws m \<and> pd_contextId p = outboundMediaContext pub (pd_targetPeerId p)
        \<and> key_input_ok pub (mm_ownId m) epoch (fst (draw R n)) (snd (draw R n))
        \<and> pd_message p = key_message pub (mm_ownId m) epoch (fst (draw R n)) (snd (draw R n)))"
  by (simp add: drawn_def draw_def randomMediaKey_def)

text \<open>A key for a context takes the place of the pending one, which is destroyed.\<close>

definition take_out :: "string \<Rightarrow> media_mesh \<Rightarrow> media_mesh" where
  "take_out ctx m = (case map_of (mm_pending m) ctx of None \<Rightarrow> m | Some i \<Rightarrow> destroyPendingMediaKey m i)"

lemma take_out_fields [simp]:
  "mm_ownId (take_out ctx m) = mm_ownId m" "mm_draws (take_out ctx m) = mm_draws m" "mm_membershipEpoch (take_out ctx m) = mm_membershipEpoch m"
  "mm_sent (take_out ctx m) = mm_sent m" "mm_buffered (take_out ctx m) = mm_buffered m" "set_keys (take_out ctx m) = set_keys m"
  "mm_peers (take_out ctx m) = mm_peers m" "mm_pending (take_out ctx m) = mm_pending m"
  "map ident (mm_store (take_out ctx m)) = map ident (mm_store m)" "mm_controller (take_out ctx m) = mm_controller m"
  "mm_installed (take_out ctx m) = mm_installed m"
  by (simp_all add: take_out_def split: option.splits)

lemma take_out_other:
  assumes "pending_keys_ok m" "map_of (mm_pending m) ctx' = Some j" "ctx' \<noteq> ctx"
  shows "mm_store (take_out ctx m) ! j = mm_store m ! j"
proof (cases "map_of (mm_pending m) ctx")
  case (Some i)
  then have "j \<noteq> i" using assms by (auto simp: pending_keys_ok_def)
  with Some show ?thesis by (simp add: take_out_def destroy_other)
qed (simp add: take_out_def)

text \<open>A new pending key.\<close>

definition enter_key :: "string \<Rightarrow> pending_media_key \<Rightarrow> media_mesh \<Rightarrow> media_mesh" where
  "enter_key ctx p m = (take_out ctx m)\<lparr>mm_draws := mm_draws m + 1, mm_store := mm_store (take_out ctx m) @ [p],
     mm_pending := map_set ctx (length (mm_store m)) (mm_pending m), mm_state := E2ee_Pending\<rparr>"

lemma enter_key_distinct:
  assumes "random_source R" "keys_inv own old R N m" "msg_field ''keyId'' p = JStr (fst (draw R (mm_draws m)))"
    and "ids_fresh R (mm_draws m + 1)"
  shows "msg_field ''keyId'' p \<notin> msg_field ''keyId'' ` set (mm_store m)"
proof
  assume "msg_field ''keyId'' p \<in> msg_field ''keyId'' ` set (mm_store m)"
  then obtain q where q: "q \<in> set (mm_store m)" "msg_field ''keyId'' q = msg_field ''keyId'' p" by auto
  then have "drawn R m q" using assms(2) by (simp add: keys_inv_def)
  then obtain n where "n < mm_draws m" "msg_field ''keyId'' q = JStr (fst (draw R n))"
    by (auto simp: drawn_draw msg_field_def)
  then show False using q(2) assms(3) draw_inj [OF assms(1,4), of n "mm_draws m"] by simp
qed

lemma keys_inv_enter_key:
  assumes R: "random_source R" and inv: "keys_inv own old R N m" and peer: "PEER_ID (pd_targetPeerId p)"
    and ctx: "pd_contextId p = ctx" "ctx = outboundMediaContext pub (pd_targetPeerId p)"
    and input_ok: "key_input_ok pub (mm_ownId m) epoch (fst (draw R (mm_draws m))) (snd (draw R (mm_draws m)))"
    and msg: "pd_message p = key_message pub (mm_ownId m) epoch (fst (draw R (mm_draws m))) (snd (draw R (mm_draws m)))"
    and key: "pd_baseKey p = snd (draw R (mm_draws m))"
  shows "keys_inv own old R N (enter_key ctx p m)"
proof -
  let ?m = "enter_key ctx p m" and ?store = "mm_store (take_out ctx m)"
  have ok: "pending_keys_ok m" using inv by (simp add: keys_inv_def)
  have ids: "map ident ?store = map ident (mm_store m)" by simp
  note st = ident_store [OF ids]
  have fields: "mm_store ?m = ?store @ [p]" "mm_ownId ?m = mm_ownId m" "mm_draws ?m = mm_draws m + 1" "mm_sent ?m = mm_sent m"
      "mm_buffered ?m = mm_buffered m" "mm_peers ?m = mm_peers m" "mm_membershipEpoch ?m = mm_membershipEpoch m"
      "mm_pending ?m = map_set ctx (length (mm_store m)) (mm_pending m)" "set_keys ?m = set_keys m" "mm_installed ?m = mm_installed m"
    by (simp_all add: enter_key_def) (simp add: set_keys_def)
  have grow: "\<exists>q \<in> set (mm_store ?m). ident q = ident r" if "r \<in> set (mm_store m)" for r
    using st(3) [OF that] by (auto simp: fields)
  have "drawn R ?m q" if q: "q \<in> set (mm_store ?m)" for q
  proof (cases "q = p")
    case True
    then show ?thesis
      unfolding drawn_draw fields(2,3) using peer ctx input_ok msg
      by (intro conjI exI [of _ "mm_draws m"] exI [of _ pub] exI [of _ epoch]) simp_all
  next
    case False
    then obtain r where "r \<in> set (mm_store m)" "ident r = ident q"
      using q ident_store(3) [OF ids [symmetric]] by (auto simp: fields)
    then show ?thesis using inv drawn_mono [of R m r ?m q] by (simp add: keys_inv_def fields)
  qed
  moreover have "map (msg_field ''keyId'') ?store = map (msg_field ''keyId'') (mm_store m)"
    by (rule map_msg_field [OF ids])
  then have "distinct (map (msg_field ''keyId'') (mm_store ?m))" if "ids_fresh R (mm_draws ?m)"
    using that inv enter_key_distinct [OF R inv, of p] msg ids_fresh_mono [of R "mm_draws m + 1" "mm_draws m"]
    by (simp add: fields keys_inv_def msg_field_def)
  moreover have "pending_keys_ok ?m"
    unfolding pending_keys_ok_def
  proof (intro allI impI)
    fix c i assume c: "map_of (mm_pending ?m) c = Some i"
    show "i < length (mm_store ?m) \<and> pd_contextId (mm_store ?m ! i) = c \<and> live_key (mm_store ?m ! i)"
    proof (cases "c = ctx")
      case True
      then have "i = length ?store" using c st(1) by (simp add: fields)
      then show ?thesis using True ctx(1) key msg decode_key_message [OF input_ok] by (simp add: fields live_key_def)
    next
      case False
      then have "map_of (mm_pending m) c = Some i" using c by (simp add: fields)
      moreover from this have "i < length (mm_store m) \<and> pd_contextId (mm_store m ! i) = c \<and> live_key (mm_store m ! i)"
        using ok by (simp add: pending_keys_ok_def)
      ultimately show ?thesis using take_out_other [OF ok _ False] st(1) by (auto simp: fields nth_append)
    qed
  qed
  moreover have "sent_ok N ?m"
    by (rule sent_ok_grow [of N m]) (use inv grow in \<open>simp_all add: keys_inv_def fields(4,9)\<close>)
  moreover have "answered N ?m c k key'" if "(Encrypt, c, k, key') \<in> set_keys ?m" for c k key'
    by (rule answered_mono [of N m]) (use inv that grow in \<open>simp_all add: keys_inv_def fields(9)\<close>)
  moreover have "log_ok N ?m"
    by (rule log_ok_mono [of N m]) (use inv grow in \<open>simp_all add: keys_inv_def fields(9,10)\<close>)
  ultimately show ?thesis
    using inv unfolding keys_inv_def by (simp add: fields(2,4,5,6,7))
qed

lemma provision_go:
  fixes R publication peerId m
  defines "ctx \<equiv> outboundMediaContext (pb_id publication) peerId" and "gen \<equiv> draw R (mm_draws m)"
  assumes "snd (provisionMediaKey R publication peerId m) \<noteq> m"
  shows "snd (provisionMediaKey R publication peerId m) =
     (case createMediaKeyMessage (pb_id publication) (mm_ownId m) (mm_membershipEpoch m) (fst gen) (snd gen) of
        Inl e \<Rightarrow> (take_out ctx m)\<lparr>mm_draws := mm_draws m + 1\<rparr>
      | Inr message \<Rightarrow> sendPendingMediaKey (enter_key ctx \<lparr>pd_contextId = ctx, pd_targetPeerId = peerId, pd_message = message,
          pd_baseKey = snd gen, pd_retries = 0, pd_timer = False\<rparr> m) (length (mm_store m)))"
  using assms(3) ident_store(1) [OF take_out_fields(9), of ctx m]
  by (auto simp: provisionMediaKey_def Let_def take_out_def gen_def draw_def ctx_def enter_key_def split: if_splits sum.splits option.splits)

lemma keys_inv_provision:
  assumes R: "random_source R" and inv: "keys_inv own old R N m" and peer: "PEER_ID peerId"
  shows "keys_inv own old R N (snd (provisionMediaKey R publication peerId m))"
proof (cases "snd (provisionMediaKey R publication peerId m) = m")
  case False
  define ctx where "ctx = outboundMediaContext (pb_id publication) peerId"
  define gen where "gen = draw R (mm_draws m)"
  have epoch: "1 \<le> mm_membershipEpoch m" "mm_membershipEpoch m \<le> MAX_SAFE_INTEGER"
    using False inv by (auto simp: provisionMediaKey_def keys_inv_def not_less split: if_splits)
  note go = provision_go [OF False, folded ctx_def gen_def]
  show ?thesis
  proof (cases "createMediaKeyMessage (pb_id publication) (mm_ownId m) (mm_membershipEpoch m) (fst gen) (snd gen)")
    case (Inl e)
    have "map_of (mm_pending m) ctx = None"
    proof (rule ccontr)
      assume "map_of (mm_pending m) ctx \<noteq> None"
      moreover have "pending_keys_ok m" using inv by (simp add: keys_inv_def)
      ultimately obtain i where i: "i < length (mm_store m)" "pd_contextId (mm_store m ! i) = ctx"
        by (auto simp: pending_keys_ok_def)
      then have "drawn R m (mm_store m ! i)" using inv by (simp add: keys_inv_def)
      then obtain pub where "TRACK_ID pub" "PEER_ID (mm_ownId m)" "ctx = outboundMediaContext pub (pd_targetPeerId (mm_store m ! i))"
          "PEER_ID (pd_targetPeerId (mm_store m ! i))"
        using i(2) by (auto simp: drawn_draw key_input_ok_def)
      then have "key_input_ok (pb_id publication) (mm_ownId m) (mm_membershipEpoch m) (fst gen) (snd gen)"
        using outbound_inj(1) [of "pb_id publication" peerId pub] peer epoch draw_ok [OF R, of "mm_draws m"]
        by (auto simp: key_input_ok_def ctx_def gen_def)
      then show False using createMediaKeyMessage_ok Inl by fastforce
    qed
    then have "quiet m (snd (provisionMediaKey R publication peerId m))" by (simp add: go Inl take_out_def quiet_def set_keys_def)
    then show ?thesis
      using inv by (intro keys_inv_quiet [OF inv]) (simp_all add: go Inl keys_inv_peers keys_inv_epoch)
  next
    case (Inr message)
    then have "key_input_ok (pb_id publication) (mm_ownId m) (mm_membershipEpoch m) (fst gen) (snd gen)"
        "message = key_message (pb_id publication) (mm_ownId m) (mm_membershipEpoch m) (fst gen) (snd gen)"
      using createMediaKeyMessage_Inr draw_ok [OF R, of "mm_draws m"] by (auto simp: gen_def)
    then show ?thesis
      unfolding go Inr sum.case
      by (intro keys_inv_send keys_inv_enter_key [OF R inv, where pub = "pb_id publication" and epoch = "mm_membershipEpoch m"])
        (use peer in \<open>simp_all add: gen_def ctx_def\<close>)
  qed
qed (use inv in simp)

subsection \<open>Envelopes\<close>

lemma apply_media_key_cases:
  fixes m originPeerId message
  defines "ctx \<equiv> inboundMediaContext originPeerId (js_to_string (js_get message ''publicationId''))"
  obtains (same) "apply_media_key m originPeerId message = m"
  | (set_key) key r m1 where "decodeMediaBaseKey message = Inr key" "js_get message ''senderPeerId'' = JStr originPeerId"
      "mesh_set_key m Decrypt ctx (js_get message ''keyId'') key = (r, m1)"
      "apply_media_key m originPeerId message = (if r then m1\<lparr>mm_receivers := set_add ctx (mm_receivers m1),
         mm_sent := mm_sent m1 @ [(originPeerId, encode_envelope (createMediaKeyAck message))],
         mm_awaiting := mm_awaiting m1 @ [Await_Ack]\<rparr> else failMediaE2ee m1)"
proof (cases "apply_media_key m originPeerId message = m")
  case False
  obtain key where key: "decodeMediaBaseKey message = Inr key"
    using False by (cases "decodeMediaBaseKey message") (auto simp: apply_media_key_def Let_def split: if_splits)
  obtain r m1 where k: "mesh_set_key m Decrypt ctx (js_get message ''keyId'') key = (r, m1)" by fastforce
  show thesis
  proof (rule set_key [OF key _ k])
    show "js_get message ''senderPeerId'' = JStr originPeerId" using False by (rule contrapos_np) (simp add: apply_media_key_def)
    show "apply_media_key m originPeerId message = (if r then m1\<lparr>mm_receivers := set_add ctx (mm_receivers m1),
         mm_sent := mm_sent m1 @ [(originPeerId, encode_envelope (createMediaKeyAck message))],
         mm_awaiting := mm_awaiting m1 @ [Await_Ack]\<rparr> else failMediaE2ee m1)"
      using False key k unfolding apply_media_key_def ctx_def Let_def by (cases r) (simp_all split: if_splits)
  qed
qed (rule same)

lemma mesh_set_key_keeps:
  assumes "mesh_set_key m d ctx k key = (r, m1)"
  shows "mm_ownId m1 = mm_ownId m" "mm_store m1 = mm_store m" "mm_draws m1 = mm_draws m" "mm_buffered m1 = mm_buffered m"
    "mm_pending m1 = mm_pending m" "mm_peers m1 = mm_peers m" "mm_membershipEpoch m1 = mm_membershipEpoch m" "mm_sent m1 = mm_sent m"
    "mm_senders m1 = mm_senders m" "mm_receivers m1 = mm_receivers m" "mm_mode m1 = mm_mode m"
    "mm_awaiting m1 = mm_awaiting m" "mm_dataOverlayEnabled m1 = mm_dataOverlayEnabled m"
    "mm_transformFailed m1 = mm_transformFailed m"
  using assms by (auto simp: mesh_set_key_def split: option.splits prod.splits)

lemma log_ok_insert:
  assumes "log_ok N m" "mm_store m' = mm_store m" "mm_installed m' = mm_installed m @ [(d, ctx, k, key, e)]"
    and "set_keys m' = insert (d, ctx, k, key) (set_keys m)" "installed_ok N m' (d, ctx, k, key, e)"
  shows "log_ok N m'"
proof -
  have "installed_ok N m' x" if "x \<in> set (mm_installed m)" for x
    by (rule installed_mono [of N m]) (use assms(1,2) that in \<open>auto simp: log_ok_def\<close>)
  then show ?thesis using assms by (auto simp: log_ok_def)
qed

lemma keys_inv_apply_key:
  assumes inv: "keys_inv own old R N m" and N: "N originPeerId data" and rd: "read_envelope data = Some message"
    and ty: "js_get message ''type'' = JStr ''media-key''" and origin: "PEER_ID originPeerId"
    and epoch: "js_get message ''membershipEpoch'' = JInt (mm_membershipEpoch m)"
  shows "keys_inv own old R N (apply_media_key m originPeerId message)"
proof (cases rule: apply_media_key_cases [of m originPeerId message])
  case (set_key key r m1)
  note f = mesh_set_key_fields [OF set_key(3)] and keep = mesh_set_key_keeps [OF set_key(3)]
  let ?m = "apply_media_key m originPeerId message"
  show ?thesis
  proof (cases r)
    case False
    then show ?thesis unfolding set_key(4) using f(2,4) keep by (intro keys_inv_same [OF inv]) simp_all
  next
    case True
    have sk: "set_keys ?m = set_keys m1" by (simp add: set_key(4) True set_keys_def)
    have ack: "acknowledged N ?m originPeerId (encode_envelope (createMediaKeyAck message))"
      unfolding acknowledged_def
      by (intro exI [of _ message] exI [of _ key] exI [of _ data] conjI refl)
        (use N rd ty set_key(1) f(2) True sk in \<open>simp_all\<close>)
    show ?thesis
    proof (rule keys_inv_extend [OF inv])
      show "set_keys m \<subseteq> set_keys ?m" using sk f(2) True by auto
      show "set (mm_sent m) \<subseteq> set (mm_sent ?m)" using True keep(8) by (auto simp: set_key(4))
      show "(peer, d) \<in> set (mm_sent m) \<or> (\<exists>p\<in>set (mm_store ?m). pd_targetPeerId p = peer \<and> d = encode_envelope (pd_message p))
          \<or> acknowledged N ?m peer d" if "(peer, d) \<in> set (mm_sent ?m)" for peer d
      proof -
        have "(peer, d) \<in> set (mm_sent m) \<or> (peer, d) = (originPeerId, encode_envelope (createMediaKeyAck message))"
          using that True keep(8) by (auto simp: set_key(4))
        with ack show ?thesis by blast
      qed
      show "(Encrypt, c, k, key') \<in> set_keys m \<or> answered N ?m c k key'" if "(Encrypt, c, k, key') \<in> set_keys ?m" for c k key'
        using that sk f(2) True by simp
      have log: "log_ok N m" using inv by (simp add: keys_inv_def)
      have entry: "installed_ok N ?m (Decrypt, inboundMediaContext originPeerId (js_to_string (js_get message ''publicationId'')),
          js_get message ''keyId'', key, mm_membershipEpoch m)"
        unfolding installed_ok.simps
        by (intro exI [of _ originPeerId] exI [of _ data] exI [of _ message] conjI) (use N rd ty origin epoch set_key(1) in simp_all)
      have fields: "mm_store ?m = mm_store m" "mm_installed ?m = mm_installed m1" using True keep(2) by (simp_all add: set_key(4))
      show "log_ok N ?m" by (rule log_ok_insert [OF log fields(1) _ _ entry]) (use sk f(2,4) True fields(2) in simp_all)
    qed (use True keep in \<open>simp_all add: set_key(4)\<close>)
  qed
qed (use inv in simp)

lemma keys_inv_apply_ack:
  assumes inv: "keys_inv own old R N m" and N: "N originPeerId data" and rd: "read_envelope data = Some message"
    and ty: "js_get message ''type'' = JStr ''media-key-ack''" and origin: "PEER_ID originPeerId"
    and epoch: "js_get message ''membershipEpoch'' = JInt (mm_membershipEpoch m)"
  shows "keys_inv own old R N (apply_media_key_ack m originPeerId message)"
proof (cases "apply_media_key_ack m originPeerId message = m")
  case False
  define ctx where "ctx = outboundMediaContext (js_to_string (js_get message ''publicationId'')) originPeerId"
  obtain i where i: "map_of (mm_pending m) ctx = Some i"
    using False by (auto simp: apply_media_key_ack_def Let_def ctx_def split: option.splits if_splits)
  define p where "p = mm_store m ! i"
  obtain r m1 where k: "mesh_set_key m Encrypt ctx (js_get message ''keyId'') (pd_baseKey p) = (r, m1)" by fastforce
  have kid: "msg_field ''keyId'' p = js_get message ''keyId''" "msg_field ''membershipEpoch'' p = js_get message ''membershipEpoch''"
    using False i by (auto simp: apply_media_key_ack_def Let_def ctx_def p_def msg_field_def split: if_splits)
  define m2 where "m2 = (if r then m1\<lparr>mm_senders := set_add ctx (mm_senders m1)\<rparr> else m1)"
  have res: "apply_media_key_ack m originPeerId message =
      (let m4 = (destroyPendingMediaKey m2 i)\<lparr>mm_pending := map_delete ctx (mm_pending m2)\<rparr>
       in if r then refreshMediaE2eeState m4 else failMediaE2ee m4)"
    using False i k by (auto simp: apply_media_key_ack_def Let_def ctx_def m2_def p_def split: if_splits)
  note f = mesh_set_key_fields [OF k] and keep = mesh_set_key_keeps [OF k]
  have m2: "mm_ownId m2 = mm_ownId m" "mm_store m2 = mm_store m" "mm_draws m2 = mm_draws m" "mm_buffered m2 = mm_buffered m"
      "mm_pending m2 = mm_pending m" "mm_peers m2 = mm_peers m" "mm_membershipEpoch m2 = mm_membershipEpoch m" "mm_sent m2 = mm_sent m"
      "set_keys m2 = (if r then insert (Encrypt, ctx, js_get message ''keyId'', pd_baseKey p) (set_keys m) else set_keys m)"
      "mm_installed m2 = (if r then mm_installed m @ [(Encrypt, ctx, js_get message ''keyId'', pd_baseKey p, mm_membershipEpoch m)] else mm_installed m)"
    using keep f(2,4) by (simp_all add: m2_def) (simp_all add: set_keys_def)
  have pend: "i < length (mm_store m)" "pd_contextId p = ctx" "live_key p"
    using inv i by (auto simp: keys_inv_def pending_keys_ok_def p_def)
  then have "drawn R m p" using inv by (simp add: keys_inv_def p_def)
  then have target: "pd_targetPeerId p = originPeerId"
    using pend(2) outbound_inj(2) origin by (auto simp: drawn_def ctx_def)
  have ans: "answered N m2 ctx (js_get message ''keyId'') (pd_baseKey p)"
    unfolding answered_def
    by (intro bexI [of _ p] exI [of _ data] exI [of _ message] conjI)
      (use pend kid N rd ty target in \<open>simp_all add: live_key_def m2 p_def\<close>)
  have log: "log_ok N m" using inv by (simp add: keys_inv_def)
  have "log_ok N m2"
  proof (cases r)
    case True
    have entry: "installed_ok N m2 (Encrypt, ctx, js_get message ''keyId'', pd_baseKey p, mm_membershipEpoch m)"
      unfolding installed_ok.simps by (rule bexI [of _ p]) (use pend kid epoch in \<open>simp_all add: m2(2) live_key_def p_def\<close>)
    show ?thesis by (rule log_ok_insert [OF log m2(2) _ _ entry]) (use m2(9,10) True in simp_all)
  next
    case False
    show ?thesis by (rule log_ok_mono [OF log]) (use m2 False in auto)
  qed
  then have k2: "keys_inv own old R N m2"
    by (intro keys_inv_extend [OF inv]) (use m2(1-9) ans in \<open>auto split: if_splits\<close>)
  then have "pending_keys_ok m2" by (simp add: keys_inv_def)
  then have "quiet m2 ((destroyPendingMediaKey m2 i)\<lparr>mm_pending := map_delete ctx (mm_pending m2)\<rparr>)"
    using i by (intro quiet_drop_pending) (simp_all add: m2)
  then have "keys_inv own old R N ((destroyPendingMediaKey m2 i)\<lparr>mm_pending := map_delete ctx (mm_pending m2)\<rparr>)"
    using k2 by (intro keys_inv_quiet [OF k2]) (simp_all add: keys_inv_peers keys_inv_epoch)
  then show ?thesis by (simp add: res Let_def keys_inv_refresh keys_inv_fail)
qed (use inv in simp)

lemma read_envelope_type: "read_envelope data = Some message \<Longrightarrow> js_get message ''type'' \<in> {JStr ''media-key'', JStr ''media-key-ack''}"
  by (auto simp: read_envelope_def bind_eq_Some_conv dest: parsed_type)

lemma read_envelope_epoch:
  assumes "read_envelope data = Some message"
  shows "js_get message ''membershipEpoch'' = JInt (envelope_epoch message)"
proof -
  have "common_fields_ok message"
    using assms by (auto simp: read_envelope_def bind_eq_Some_conv dest: parsed_common)
  then obtain n where "js_integer (js_get message ''membershipEpoch'') 1 MAX_SAFE_INTEGER = Some n"
    unfolding common_fields_ok_def by blast
  then show ?thesis by (simp add: envelope_epoch_def) (simp add: js_integer_Some_iff)
qed

lemma set_map_set_subset: "set (map_set k v m) \<subseteq> insert (k, v) (set m)"
  by (induction m) auto

lemma keys_inv_buffer:
  assumes "keys_inv own old R N m" "N originPeerId data" "PEER_ID originPeerId"
  shows "keys_inv own old R N (m\<lparr>mm_buffered := map_set bk \<lparr>be_originPeerId = originPeerId, be_membershipEpoch = e, be_data = data\<rparr> (mm_buffered m)\<rparr>)"
proof -
  have "\<forall>(_, b) \<in> set (map_set bk \<lparr>be_originPeerId = originPeerId, be_membershipEpoch = e, be_data = data\<rparr> (mm_buffered m)).
      PEER_ID (be_originPeerId b) \<and> N (be_originPeerId b) (be_data b)"
    using assms set_map_set_subset [of bk _ "mm_buffered m"] unfolding keys_inv_def by fastforce
  moreover have "drawn R (m\<lparr>mm_buffered := bs\<rparr>) p = drawn R m p" "pending_keys_ok (m\<lparr>mm_buffered := bs\<rparr>) = pending_keys_ok m"
      "set_keys (m\<lparr>mm_buffered := bs\<rparr>) = set_keys m" "answered N (m\<lparr>mm_buffered := bs\<rparr>) c k key = answered N m c k key" for bs p c k key
    by (simp_all add: drawn_def pending_keys_ok_def set_keys_def answered_def)
  moreover from this(3) have "log_ok N (m\<lparr>mm_buffered := bs\<rparr>)" for bs
    by (intro log_ok_mono [of N m "m\<lparr>mm_buffered := bs\<rparr>" N]) (use assms(1) in \<open>simp_all add: keys_inv_def\<close>, blast)
  moreover from calculation have "sent_ok N (m\<lparr>mm_buffered := bs\<rparr>) = sent_ok N m" for bs by (simp add: sent_ok_def acknowledged_def)
  ultimately show ?thesis using assms(1) unfolding keys_inv_def by simp
qed

lemma keys_inv_accept:
  assumes inv: "keys_inv own old R N m" and N: "N originPeerId data" and origin: "PEER_ID originPeerId"
  shows "keys_inv own old R N (acceptMediaE2eeEnvelope m originPeerId data)"
proof (cases "read_envelope data")
  case (Some message)
  have ty: "js_get message ''type'' = JStr ''media-key'' \<or> js_get message ''type'' = JStr ''media-key-ack''"
    using read_envelope_type [OF Some] by blast
  have "keys_inv own old R N (applyMediaE2eeEnvelope m originPeerId message)" if "envelope_epoch message = mm_membershipEpoch m"
    using ty keys_inv_apply_key [where message = message, OF inv N Some _ origin] keys_inv_apply_ack [OF inv N Some _ origin]
      read_envelope_epoch [OF Some] that
    by (auto simp: applyMediaE2eeEnvelope_def)
  moreover have "keys_inv own old R N (m\<lparr>mm_buffered := map_set bk \<lparr>be_originPeerId = originPeerId, be_membershipEpoch = e, be_data = data\<rparr> (mm_buffered m)\<rparr>)" for bk e
    using inv N origin by (rule keys_inv_buffer)
  ultimately show ?thesis using inv Some by (simp add: acceptMediaE2eeEnvelope_def Let_def not_less)
qed (use inv in \<open>simp add: acceptMediaE2eeEnvelope_def\<close>)

lemma keys_inv_unbuffer:
  assumes "keys_inv own old R N m" shows "keys_inv own old R N (m\<lparr>mm_buffered := filter P (mm_buffered m)\<rparr>)"
  using assms by (intro keys_inv_quiet [OF assms]) (auto simp: quiet_def set_keys_def keys_inv_peers keys_inv_epoch)

lemma keys_inv_flush_one:
  assumes "keys_inv own old R N m" "PEER_ID (be_originPeerId b) \<and> N (be_originPeerId b) (be_data b)"
  shows "keys_inv own old R N (flush_one (k, b) m)"
  using assms by (auto simp: flush_one_def map_delete_filter intro!: keys_inv_unbuffer keys_inv_accept)

lemma keys_inv_flush: "keys_inv own old R N m \<Longrightarrow> keys_inv own old R N (flushBufferedMediaEnvelopes m)"
  unfolding flushBufferedMediaEnvelopes_def
  by (rule fold_inv [where P = "keys_inv own old R N"]) (auto intro!: keys_inv_flush_one simp: keys_inv_def [of own old R N m])

subsection \<open>Loops\<close>

lemma keys_inv_provision_peer:
  assumes "random_source R" "keys_inv own old R N m" shows "keys_inv own old R N (snd (provisionMediaKeysForPeer R peerId m))"
proof (cases "map_of (mm_peers m) peerId")
  case (Some senders)
  then have "PEER_ID peerId" using keys_inv_peers [OF assms(2)] by (force simp: list_all_iff dest: map_of_SomeD)
  then show ?thesis
    unfolding provisionMediaKeysForPeer_def Some option.case
    by (intro try_each_inv [where P = "keys_inv own old R N"] assms(2)) (auto intro: keys_inv_provision [OF assms(1)])
qed (use assms(2) in \<open>simp add: provisionMediaKeysForPeer_def\<close>)

lemma keys_inv_state: "keys_inv own old R N m \<Longrightarrow> keys_inv own old R N (m\<lparr>mm_membershipStable := b, mm_state := s\<rparr>)"
  by (erule keys_inv_same) (simp_all add: set_keys_def)

lemma keys_inv_rotate: "random_source R \<Longrightarrow> keys_inv own old R N m \<Longrightarrow> keys_inv own old R N (snd (rotateMediaKeys R m))"
  unfolding rotateMediaKeys_def Let_def
  by (auto intro!: try_each_inv [where P = "keys_inv own old R N"] keys_inv_provision_peer keys_inv_state keys_inv_clearAll)

lemma keys_inv_recovery: "random_source R \<Longrightarrow> keys_inv own old R N m \<Longrightarrow> keys_inv own old R N (snd (e2ee_recovery R m))"
  unfolding e2ee_recovery_def
  by (auto intro!: try_each_inv [where P = "keys_inv own old R N"] keys_inv_provision_peer)

subsection \<open>Publications and members\<close>

lemma keys_inv_controller:
  "keys_inv own old R N m \<Longrightarrow> (\<And>d ctx k key. Post (Set_Key d ctx k key) \<in> set (mc_posted c1) \<longleftrightarrow> Post (Set_Key d ctx k key) \<in> set (mc_posted c))
   \<Longrightarrow> mm_controller m = Some c \<Longrightarrow> keys_inv own old R N (m\<lparr>mm_controller := Some c1\<rparr>)"
  by (erule keys_inv_same) (simp_all add: set_keys_def)

lemma attach_posted:
  "Post (Set_Key d ctx k key) \<in> set (mc_posted (snd (attach c target contextId direction throws))) \<longleftrightarrow> Post (Set_Key d ctx k key) \<in> set (mc_posted c)"
  by (auto simp: attach_def ensureWorker_def split: prod.splits bool.splits)

lemma keys_inv_attach: "keys_inv own old R N m \<Longrightarrow> mesh_attach m target ctx d throws = (r, m1) \<Longrightarrow> keys_inv own old R N m1"
proof (cases "mm_controller m")
  case (Some c)
  assume inv: "keys_inv own old R N m" and m1: "mesh_attach m target ctx d throws = (r, m1)"
  obtain r' c1 where c1: "attach c target ctx d throws = (r', c1)" by fastforce
  then have "keys_inv own old R N (m\<lparr>mm_controller := Some c1\<rparr>)"
    using keys_inv_controller [OF inv _ Some, of c1] attach_posted [of _ _ _ _ c target ctx d throws] by simp
  then show ?thesis using m1 Some c1 by (auto simp: mesh_attach_def)
qed (auto simp: mesh_attach_def)

lemma mesh_attach_peers: "mesh_attach m target ctx d throws = (r, m1) \<Longrightarrow> mm_peers m1 = mm_peers m"
  by (auto simp: mesh_attach_def split: option.splits prod.splits)

lemma keys_inv_set_sender:
  "keys_inv own old R N m \<Longrightarrow> peerId \<in> set (map_keys (mm_peers m)) \<Longrightarrow> keys_inv own old R N (set_sender peerId pub sender m)"
  unfolding set_sender_def by (erule keys_inv_same) (simp_all add: set_keys_def)

lemma keys_inv_drop_sender: "keys_inv own old R N m \<Longrightarrow> keys_inv own old R N (drop_sender peerId pub m)"
  unfolding drop_sender_def has_peer_def by (simp, intro impI, erule keys_inv_same) (simp_all add: set_keys_def)

lemma drop_sender_peers [simp]: "map_keys (mm_peers (drop_sender peerId pub m)) = map_keys (mm_peers m)"
  by (simp add: drop_sender_def has_peer_def)

lemma provision_peers [simp]: "mm_peers (snd (provisionMediaKey R publication peerId m)) = mm_peers m"
  by (auto simp: provisionMediaKey_def Let_def split: sum.splits option.splits)

lemma reconcile_peer_keys: "peerId \<in> set (map_keys (mm_peers m)) \<Longrightarrow> map_keys (mm_peers (reconcile_peer R I publication peerId m)) = map_keys (mm_peers m)"
  by (auto simp: reconcile_peer_def Let_def set_sender_def mesh_attach_peers split: option.splits prod.splits bool.splits)

lemma keys_inv_reconcile_peer:
  assumes "random_source R" "keys_inv own old R N m" "peerId \<in> set (map_keys (mm_peers m))"
  shows "keys_inv own old R N (reconcile_peer R I publication peerId m)"
proof -
  have peer: "PEER_ID peerId" using keys_inv_peers [OF assms(2)] assms(3) by (auto simp: list_all_iff)
  have prov: "keys_inv own old R N (snd (provisionMediaKey R publication peerId (set_sender peerId pub sender m1)))"
    if "keys_inv own old R N m1" "mm_peers m1 = mm_peers m" for m1 pub sender
    using that assms(1,3) peer by (intro keys_inv_provision keys_inv_set_sender) auto
  have att: "keys_inv own old R N (snd (provisionMediaKey R publication peerId (set_sender peerId pub sender m1)))"
      "keys_inv own old R N (failMediaE2ee m1)"
    if "mesh_attach m target ctx d throws = (r, m1)" for m1 pub sender target ctx d throws r
    using prov keys_inv_attach [OF assms(2) that] mesh_attach_peers [OF that] by (simp_all add: keys_inv_fail)
  have "keys_inv own old R N (m\<lparr>mm_state := E2ee_Unsupported\<rparr>)"
    using assms(2) by (rule keys_inv_same) (simp_all add: set_keys_def)
  then show ?thesis
    using assms(2) prov [OF assms(2)] unfolding reconcile_peer_def Let_def
    by (auto intro!: keys_inv_drop_sender intro: att split: option.splits prod.splits bool.splits)
qed

definition members_kept :: "string \<Rightarrow> (string \<times> bytes) set \<Rightarrow> string list \<Rightarrow> (nat \<Rightarrow> bytes \<times> bytes) \<Rightarrow> (string \<Rightarrow> bytes \<Rightarrow> bool) \<Rightarrow> media_mesh \<Rightarrow> bool" where
  "members_kept own old ps R N m \<longleftrightarrow> keys_inv own old R N m \<and> map_keys (mm_peers m) = ps"

lemma members_reconcile:
  assumes "random_source R" "members_kept own old ps R N m" shows "members_kept own old ps R N (reconcilePublication R I publication m)"
  unfolding reconcilePublication_def
proof (rule fold_inv [where P = "members_kept own old ps R N"])
  fix peerId s assume "peerId \<in> set (map_keys (mm_peers m))" "members_kept own old ps R N s"
  then have "peerId \<in> set (map_keys (mm_peers s))" "keys_inv own old R N s" "map_keys (mm_peers s) = ps"
    using assms(2) unfolding members_kept_def by metis+
  then show "members_kept own old ps R N (reconcile_peer R I publication peerId s)"
    using assms(1) reconcile_peer_keys [of peerId s] keys_inv_reconcile_peer [of R own old N s peerId] unfolding members_kept_def by metis
qed (rule assms(2))

lemma keys_inv_reconcile: "random_source R \<Longrightarrow> keys_inv own old R N m \<Longrightarrow> keys_inv own old R N (reconcilePublication R I publication m)"
  using members_reconcile [of R own old "map_keys (mm_peers m)" N m] by (simp add: members_kept_def)

lemma keys_inv_reconcile_all: "random_source R \<Longrightarrow> keys_inv own old R N m \<Longrightarrow> keys_inv own old R N (reconcileAllPublications R I m)"
  unfolding reconcileAllPublications_def by (rule fold_inv [where P = "keys_inv own old R N"]) (auto intro: keys_inv_reconcile)

lemma keys_inv_remove_publication: "keys_inv own old R N m \<Longrightarrow> keys_inv own old R N (removePublication publicationId m)"
proof (cases "map_of (mm_publications m) publicationId")
  case (Some publication)
  assume inv: "keys_inv own old R N m"
  define m2 where "m2 = (let m1 = clearPublicationMediaKeys publication m in fold (\<lambda>peerId. drop_sender peerId publicationId) (map_keys (mm_peers m1)) m1)"
  have k: "keys_inv own old R N m2"
    unfolding m2_def Let_def
    by (rule fold_inv [where P = "keys_inv own old R N"]) (auto intro: keys_inv_drop_sender keys_inv_clear_publication inv)
  have "keys_inv own old R N (m2\<lparr>mm_publications := pubs\<rparr>)" "keys_inv own old R N (m2\<lparr>mm_publications := pubs, mm_descriptors := ds\<rparr>)" for pubs ds
    using k by (auto intro!: keys_inv_same [OF k] simp: set_keys_def)
  then show ?thesis by (simp add: removePublication_def Some Let_def m2_def [unfolded Let_def, symmetric])
qed (simp add: removePublication_def)

lemma keys_inv_other: "keys_inv own old R N m \<Longrightarrow> keys_inv own old R N (m\<lparr>mm_publications := pubs\<rparr>)" "keys_inv own old R N m \<Longrightarrow> keys_inv own old R N (m\<lparr>mm_descriptors := ds\<rparr>)"
  "keys_inv own old R N m \<Longrightarrow> keys_inv own old R N (m\<lparr>mm_gate := g\<rparr>)" "keys_inv own old R N m \<Longrightarrow> keys_inv own old R N (m\<lparr>mm_peerKeys := ks\<rparr>)"
  "keys_inv own old R N m \<Longrightarrow> keys_inv own old R N (m\<lparr>mm_overlayPublicKey := b\<rparr>)" "keys_inv own old R N m \<Longrightarrow> keys_inv own old R N (m\<lparr>mm_awaiting := aw\<rparr>)"
  "keys_inv own old R N m \<Longrightarrow> keys_inv own old R N (m\<lparr>mm_state := s\<rparr>)" "keys_inv own old R N m \<Longrightarrow> keys_inv own old R N (m\<lparr>mm_membershipStable := b\<rparr>)"
  by (erule keys_inv_same; simp add: set_keys_def)+

lemma keys_inv_remote:
  assumes "random_source R" "keys_inv own old R N m" shows "keys_inv own old R N (accept_remote_publication R I publication receiver throws m)"
proof -
  have "keys_inv own old R N (discardInboundForReplacement current m1)" if "keys_inv own old R N m1" for current m1
    unfolding discardInboundForReplacement_def Let_def
    by (intro keys_inv_other fold_inv [where P = "keys_inv own old R N"]) (auto intro: keys_inv_drop_sender that)
  then show ?thesis
    using assms unfolding accept_remote_publication_def Let_def
    by (auto intro!: keys_inv_fail keys_inv_reconcile keys_inv_other dest: keys_inv_attach split: option.splits prod.splits bool.splits)
qed

lemma keys_inv_publish: "random_source R \<Longrightarrow> keys_inv own old R N m \<Longrightarrow> keys_inv own old R N (publish_track R I trackId source live m)"
  unfolding publish_track_def Let_def
  by (rule keys_inv_reconcile) (auto intro!: keys_inv_same [where m = m] simp: set_keys_def)

end
