(* ===== verification/Media_Completion.thy ===== *)
theory Media_Completion
  imports Media_Key_Exchange
begin

text \<open>
  The exchange between two pages that are ready for it: the key, its acknowledgement, and what the two workers do
  with the commands.
\<close>

definition worker_alive :: "media_mesh \<Rightarrow> bool" where
  "worker_alive m \<longleftrightarrow> (case mm_controller m of None \<Rightarrow> False | Some c \<Rightarrow> \<not> mc_workerFailed c)"

definition descriptor_source :: "media_mesh \<Rightarrow> string \<Rightarrow> string" where
  "descriptor_source m publicationId = (case map_of (mm_descriptors m) publicationId of None \<Rightarrow> [] | Some source \<Rightarrow> source)"

definition pending_current :: "media_mesh \<Rightarrow> string \<Rightarrow> bool" where
  "pending_current m ctx \<longleftrightarrow> (case map_of (mm_pending m) ctx of None \<Rightarrow> False
     | Some i \<Rightarrow> js_get (pd_message (mm_store m ! i)) ''membershipEpoch'' = JInt (mm_membershipEpoch m))"

text \<open>When a key for a publication of \<open>A\<close> can be agreed with \<open>B\<close>.\<close>

definition exchange_ready :: "(nat \<Rightarrow> bytes \<times> bytes) \<Rightarrow> mesh_publication \<Rightarrow> media_mesh \<Rightarrow> media_mesh \<Rightarrow> bool" where
  "exchange_ready R publication A B \<longleftrightarrow>
     PEER_ID (mm_ownId A) \<and> PEER_ID (mm_ownId B) \<and> TRACK_ID (pb_id publication) \<and> pb_local publication
     \<and> shouldProtectMedia A \<and> shouldProtectMedia B \<and> worker_alive A \<and> worker_alive B
     \<and> mm_membershipStable A \<and> mm_membershipStable B
     \<and> mm_membershipEpoch A = mm_membershipEpoch B \<and> 1 \<le> mm_membershipEpoch A \<and> mm_membershipEpoch A \<le> MAX_SAFE_INTEGER
     \<and> 1 \<le> mm_routeEpoch A \<and> mm_ownId B \<in> set (mm_peerKeys A) \<and> has_peer B (mm_ownId A)
     \<and> mediaAllowed (mm_gate A) (mm_ownId B) (mm_ownId A) (pb_id publication) (pb_source publication)
     \<and> mediaAllowed (mm_gate B) (mm_ownId B) (mm_ownId A) (pb_id publication) (descriptor_source B (pb_id publication))
     \<and> \<not> pending_current A (outboundMediaContext (pb_id publication) (mm_ownId B)) \<and> random_key_ok (R (mm_draws A))"

subsection \<open>The exchange\<close>

lemma context_ids:
  assumes "TRACK_ID pub" "PEER_ID peer"
  shows "CONTEXT_ID (outboundMediaContext pub peer)" "CONTEXT_ID (inboundMediaContext peer pub)"
proof -
  have hex: "context_char c" if "lower_hex c" for c using that by (auto simp: lower_hex_def context_char_def)
  have "list_all context_char peer" "list_all context_char pub" "length peer = 16" "length pub \<le> 128"
    using assms hex by (auto simp: TRACK_ID_def PEER_ID_def matches_def list_all_iff)
  then show "CONTEXT_ID (outboundMediaContext pub peer)" "CONTEXT_ID (inboundMediaContext peer pub)"
    by (simp_all add: CONTEXT_ID_def matches_def outboundMediaContext_def inboundMediaContext_def context_char_def)
qed

lemma mesh_set_key_installs:
  assumes "worker_alive m" "shouldProtectMedia m" "CONTEXT_ID ctx" "KEY_ID keyId" "length key = 16"
  obtains m1 where "mesh_set_key m d ctx (JStr keyId) key = (True, m1)"
proof -
  obtain c where c: "mm_controller m = Some c" "mc_supported c" "\<not> mc_workerFailed c"
    using assms(1,2) by (auto simp: worker_alive_def shouldProtectMedia_def split: option.splits)
  have "fst (setKey_controller c d ctx (JStr keyId) key)" using assms(3-5) c(2,3) by (intro setKey_controller_ok)
  then have "fst (mesh_set_key m d ctx (JStr keyId) key)"
    by (cases d) (auto simp: mesh_set_key_def c(1) setSenderKey_def setReceiverKey_def split: prod.splits)
  then show thesis using that by (metis prod.collapse)
qed

lemma key_sent:
  fixes R publication A B
  defines "kid \<equiv> fst (draw R (mm_draws A))" and "key \<equiv> snd (draw R (mm_draws A))"
    and "ctx \<equiv> outboundMediaContext (pb_id publication) (mm_ownId B)"
  defines "message \<equiv> key_message (pb_id publication) (mm_ownId A) (mm_membershipEpoch A) kid key"
  assumes ready: "exchange_ready R publication A B"
  obtains A1 where "snd (provisionMediaKey R publication (mm_ownId B) A) = A1"
    "mm_sent A1 = mm_sent A @ [(mm_ownId B, encode_envelope message)]"
    "key_input_ok (pb_id publication) (mm_ownId A) (mm_membershipEpoch A) kid key"
    "map_of (mm_pending A1) ctx = Some (length (mm_store A))" "length (mm_store A1) = Suc (length (mm_store A))"
    "pd_message (mm_store A1 ! length (mm_store A)) = message" "pd_baseKey (mm_store A1 ! length (mm_store A)) = key"
    "mm_ownId A1 = mm_ownId A" "mm_membershipEpoch A1 = mm_membershipEpoch A" "mm_membershipStable A1 = mm_membershipStable A"
    "mm_controller A1 = mm_controller A" "shouldProtectMedia A1" "set_keys A1 = set_keys A" "mm_draws A1 = Suc (mm_draws A)"
    "mm_store A1 ! length (mm_store A) = \<lparr>pd_contextId = ctx, pd_targetPeerId = mm_ownId B, pd_message = message, pd_baseKey = key,
       pd_retries = 0, pd_timer = False\<rparr>" "mm_awaiting A1 = mm_awaiting A @ [Await_Send (length (mm_store A))]" "mm_state A1 = E2ee_Pending"
proof -
  have ok: "key_input_ok (pb_id publication) (mm_ownId A) (mm_membershipEpoch A) kid key"
    using ready KEY_ID_random [of "fst (R (mm_draws A))" "snd (R (mm_draws A))"]
    by (auto simp: exchange_ready_def key_input_ok_def kid_def key_def draw_def random_key_ok_def randomMediaKey_def)
  define p where "p = \<lparr>pd_contextId = ctx, pd_targetPeerId = mm_ownId B, pd_message = message, pd_baseKey = key, pd_retries = 0, pd_timer = False\<rparr>"
  have len: "length (mm_store (take_out ctx A)) = length (mm_store A)" by (rule ident_store(1)) simp
  have r: "snd (provisionMediaKey R publication (mm_ownId B) A) = sendPendingMediaKey (enter_key ctx p A) (length (mm_store A))"
    using ready createMediaKeyMessage_ok [OF ok] len
    by (simp add: provisionMediaKey_def exchange_ready_def pending_current_def Let_def take_out_def enter_key_def
        p_def ctx_def message_def kid_def key_def draw_def not_less split: option.splits)
  have st: "mm_store (enter_key ctx p A) ! length (mm_store A) = p"
    by (simp add: enter_key_def len [symmetric])
  have e: "mm_membershipEpoch (enter_key ctx p A) = mm_membershipEpoch A" "mm_membershipStable (enter_key ctx p A) = mm_membershipStable A"
      "mm_sent (enter_key ctx p A) = mm_sent A" "mm_ownId (enter_key ctx p A) = mm_ownId A" "mm_controller (enter_key ctx p A) = mm_controller A"
      "map_of (mm_pending (enter_key ctx p A)) ctx = Some (length (mm_store A))" "shouldProtectMedia (enter_key ctx p A) = shouldProtectMedia A"
      "length (mm_store (enter_key ctx p A)) = Suc (length (mm_store A))" "set_keys (enter_key ctx p A) = set_keys A"
      "mm_draws (enter_key ctx p A) = Suc (mm_draws A)" "mm_awaiting (enter_key ctx p A) = mm_awaiting A"
      "mm_state (enter_key ctx p A) = E2ee_Pending"
    by (simp_all add: enter_key_def take_out_def destroyPendingMediaKey_def shouldProtectMedia_def set_keys_def split: option.splits)
  have stable: "mm_membershipStable A" "shouldProtectMedia A" using ready by (simp_all add: exchange_ready_def)
  show thesis
    by (rule that [OF r _ ok])
      (use e st stable in \<open>simp_all add: sendPendingMediaKey_def Let_def p_def message_def shouldProtectMedia_def set_keys_def\<close>)
qed

lemma accept_current:
  assumes "read_envelope data = Some message" "js_get message ''membershipEpoch'' = JInt (mm_membershipEpoch m)"
    and "1 \<le> mm_membershipEpoch m" "mm_membershipEpoch m \<le> MAX_SAFE_INTEGER" "mm_membershipStable m"
  shows "acceptMediaE2eeEnvelope m originPeerId data = applyMediaE2eeEnvelope m originPeerId message"
  using assms by (simp add: acceptMediaE2eeEnvelope_def envelope_epoch_def MAX_SAFE_INTEGER_def)

lemma key_received:
  fixes R publication A B
  defines "kid \<equiv> fst (draw R (mm_draws A))" and "key \<equiv> snd (draw R (mm_draws A))"
    and "ctx \<equiv> inboundMediaContext (mm_ownId A) (pb_id publication)"
  defines "message \<equiv> key_message (pb_id publication) (mm_ownId A) (mm_membershipEpoch A) kid key"
  assumes ready: "exchange_ready R publication A B"
    and ok: "key_input_ok (pb_id publication) (mm_ownId A) (mm_membershipEpoch A) kid key"
  obtains B1 where "acceptMediaE2eeEnvelope B (mm_ownId A) (encode_envelope message) = B1"
    "mm_sent B1 = mm_sent B @ [(mm_ownId A, encode_envelope (createMediaKeyAck message))]"
    "ctx \<in> set (mm_receivers B1)" "set_keys B1 = insert (Decrypt, ctx, JStr kid, key) (set_keys B)"
proof -
  have acc: "acceptMediaE2eeEnvelope B (mm_ownId A) (encode_envelope message) = apply_media_key B (mm_ownId A) message"
    using ready read_key_message [OF ok] accept_current [of "encode_envelope message" message B "mm_ownId A"]
    by (simp add: exchange_ready_def message_def applyMediaE2eeEnvelope_def)
  have k: "KEY_ID kid" "length key = 16" using ok by (simp_all add: key_input_ok_def SFRAME_BASE_KEY_BYTES_def)
  obtain B0 where B0: "mesh_set_key B Decrypt ctx (JStr kid) key = (True, B0)"
    using mesh_set_key_installs [of B ctx kid key Decrypt] context_ids(2) [of "pb_id publication" "mm_ownId A"] ready k
    by (auto simp: exchange_ready_def ctx_def)
  note f = mesh_set_key_fields [OF B0] and keep = mesh_set_key_keeps [OF B0]
  have res: "apply_media_key B (mm_ownId A) message = B0\<lparr>mm_receivers := set_add ctx (mm_receivers B0),
       mm_sent := mm_sent B0 @ [(mm_ownId A, encode_envelope (createMediaKeyAck message))], mm_awaiting := mm_awaiting B0 @ [Await_Ack]\<rparr>"
    using ready B0 decode_key_message [OF ok]
    by (simp add: apply_media_key_def Let_def exchange_ready_def descriptor_source_def message_def ctx_def)
  show thesis
    by (rule that [OF acc]) (use keep f in \<open>simp_all add: res\<close>, simp add: set_keys_def)
qed

lemma ack_received:
  assumes ok: "key_input_ok pub (mm_ownId A) (mm_membershipEpoch A) kid key"
    and stable: "mm_membershipStable A" and alive: "worker_alive A" "shouldProtectMedia A" and peer: "PEER_ID peer"
    and pend: "map_of (mm_pending A) (outboundMediaContext pub peer) = Some i"
    and store: "pd_message (mm_store A ! i) = key_message pub (mm_ownId A) (mm_membershipEpoch A) kid key" "pd_baseKey (mm_store A ! i) = key"
  obtains A2 where
    "acceptMediaE2eeEnvelope A peer (encode_envelope (createMediaKeyAck (key_message pub (mm_ownId A) (mm_membershipEpoch A) kid key))) = A2"
    "outboundMediaContext pub peer \<in> set (mm_senders A2)" "map_of (mm_pending A2) (outboundMediaContext pub peer) = None"
    "set_keys A2 = insert (Encrypt, outboundMediaContext pub peer, JStr kid, key) (set_keys A)" "mm_draws A2 = mm_draws A"
proof -
  let ?ack = "createMediaKeyAck (key_message pub (mm_ownId A) (mm_membershipEpoch A) kid key)" and ?ctx = "outboundMediaContext pub peer"
  have acc: "acceptMediaE2eeEnvelope A peer (encode_envelope ?ack) = apply_media_key_ack A peer ?ack"
    using ok stable read_ack_message [OF ok] accept_current [of "encode_envelope ?ack" ?ack A peer]
    by (simp add: key_input_ok_def applyMediaE2eeEnvelope_def)
  have k: "KEY_ID kid" "length key = 16" "TRACK_ID pub" using ok by (simp_all add: key_input_ok_def SFRAME_BASE_KEY_BYTES_def)
  obtain A0 where A0: "mesh_set_key A Encrypt ?ctx (JStr kid) key = (True, A0)"
    using mesh_set_key_installs [OF alive context_ids(1) [OF k(3) peer] k(1,2)] by blast
  note f = mesh_set_key_fields [OF A0] and keep = mesh_set_key_keeps [OF A0]
  have res: "apply_media_key_ack A peer ?ack = refreshMediaE2eeState ((destroyPendingMediaKey (A0\<lparr>mm_senders := set_add ?ctx (mm_senders A0)\<rparr>) i)
      \<lparr>mm_pending := map_delete ?ctx (mm_pending A0)\<rparr>)"
    using pend store A0 by (simp add: apply_media_key_ack_def Let_def)
  show thesis
    by (rule that [OF acc]) (use f keep in \<open>simp_all add: res refreshMediaE2eeState_def destroyPendingMediaKey_def\<close>, simp add: set_keys_def)
qed

subsection \<open>The workers\<close>

lemma key_number_bounds: "KEY_ID keyId \<Longrightarrow> 0 \<le> key_number keyId \<and> key_number keyId \<le> MAX_UINT64"
  using radix_value_bound [of 0 keyId]
  by (auto simp: key_number_def KEY_ID_def matches_def MAX_UINT64_def split: option.splits)

definition context_open :: "sframe_worker \<Rightarrow> direction \<Rightarrow> string \<Rightarrow> string \<Rightarrow> bool" where
  "context_open w d ctx keyId \<longleftrightarrow> ctx \<notin> set (wk_failed w) \<and> keyId \<notin> set (seen_keys w d ctx) \<and> length (seen_keys w d ctx) < MAX_CONTEXT_KEYS"

lemma encryptor_installed:
  assumes "context_open w Encrypt ctx keyId" "length key = 16"
  shows "\<exists>r c. map_of (wk_encryptors (set_key C w Encrypt ctx keyId key)) ctx = Some r
    \<and> wk_encs (set_key C w Encrypt ctx keyId key) ! r = c \<and> new_encrypt_context C (key_number keyId) key 0 = Inr c"
proof -
  obtain c where c: "new_encrypt_context C (key_number keyId) key 0 = Inr c"
    using assms(2) by (simp add: new_encrypt_context_def assertUint64_def SFRAME_BASE_KEY_BYTES_def MAX_UINT64_def)
  then show ?thesis
    using assms by (simp add: set_key_def context_open_def Let_def install_encryptor_def not_le)
qed

lemma decryptor_installed:
  assumes "context_open w Decrypt ctx keyId" "length key = 16" "KEY_ID keyId" "map_of (wk_decryptors w) ctx = None"
  shows "\<exists>r entry. map_of (wk_decryptors (set_key C w Decrypt ctx keyId key)) ctx = Some r
    \<and> \<not> dc_destroyed (wk_decs (set_key C w Decrypt ctx keyId key) ! r)
    \<and> dc_keys (wk_decs (set_key C w Decrypt ctx keyId key) ! r) (key_number keyId) = Some entry
    \<and> de_derived entry = deriveKey C key (key_number keyId) \<and> de_replay entry = new_window"
proof -
  have "assertUint64 (key_number keyId) ''kid'' = Inr ()"
    using key_number_bounds [OF assms(3)] by (simp add: assertUint64_def)
  then show ?thesis
    using assms
    by (simp add: set_key_def context_open_def Let_def install_decryptor_def open_decryptor_def setKey_def new_decrypt_context_def
        removeKey_def set_add_def not_le SFRAME_BASE_KEY_BYTES_def)
qed

lemma posted_command:
  assumes "CONTEXT_ID ctx" "KEY_ID keyId" "length key = 16"
  shows "worker_message C w (the (command_object (Set_Key d ctx (JStr keyId) key))) = set_key C w d ctx keyId key"
  using assms by (cases d) (simp_all add: worker_message_def)

text \<open>The stream of frames the sender's worker encrypts in the one context, the receiver's worker decrypts in the other, for
  every number of frames and every order in which they arrive (\<open>arrival\<close>).\<close>

definition frames_pass :: "sframe_crypto \<Rightarrow> sframe_worker \<Rightarrow> string \<Rightarrow> sframe_worker \<Rightarrow> string \<Rightarrow> bool" where
  "frames_pass C wA out wB inn \<longleftrightarrow>
     (\<exists>r s. map_of (wk_encryptors wA) out = Some r \<and> map_of (wk_decryptors wB) inn = Some s
        \<and> (\<forall>frames order. list_all encryptable frames \<and> int (length frames) \<le> MAX_UINT64 + 1 \<and> arrival (length frames) order \<longrightarrow>
             (\<exists>outps c d. seal_frames C (wk_encs wA ! r) frames = Some (outps, c)
                \<and> open_frames C (wk_decs wB ! s) (map (\<lambda>i. (frames ! i)\<lparr>mf_data := outps ! i\<rparr>) order)
                   = Some (map (\<lambda>i. mf_data (frames ! i)) order, d))))"

lemma frames_passE:
  assumes "frames_pass C wA out wB inn" "list_all encryptable frames" "int (length frames) \<le> MAX_UINT64 + 1" "arrival (length frames) order"
  obtains r s outps c d where "map_of (wk_encryptors wA) out = Some r" "map_of (wk_decryptors wB) inn = Some s"
    "seal_frames C (wk_encs wA ! r) frames = Some (outps, c)"
    "open_frames C (wk_decs wB ! s) (map (\<lambda>i. (frames ! i)\<lparr>mf_data := outps ! i\<rparr>) order) = Some (map (\<lambda>i. mf_data (frames ! i)) order, d)"
  using assms unfolding frames_pass_def by blast

lemma installed_frames_pass:
  assumes "crypto_ok C" "context_open wA Encrypt out keyId" "context_open wB Decrypt inn keyId" "map_of (wk_decryptors wB) inn = None"
    and "KEY_ID keyId" "length key = 16"
  shows "frames_pass C (set_key C wA Encrypt out keyId key) out (set_key C wB Decrypt inn keyId key) inn"
proof -
  obtain r c where enc: "map_of (wk_encryptors (set_key C wA Encrypt out keyId key)) out = Some r"
      "wk_encs (set_key C wA Encrypt out keyId key) ! r = c" "new_encrypt_context C (key_number keyId) key 0 = Inr c"
    using encryptor_installed [OF assms(2,6)] by blast
  obtain s entry where dec: "map_of (wk_decryptors (set_key C wB Decrypt inn keyId key)) inn = Some s"
      "\<not> dc_destroyed (wk_decs (set_key C wB Decrypt inn keyId key) ! s)"
      "dc_keys (wk_decs (set_key C wB Decrypt inn keyId key) ! s) (key_number keyId) = Some entry"
      "de_derived entry = deriveKey C key (key_number keyId)" "de_replay entry = new_window"
    using decryptor_installed [OF assms(3,6,5,4)] by blast
  have kid: "0 \<le> key_number keyId" "key_number keyId \<le> MAX_UINT64" using key_number_bounds [OF assms(5)] by auto
  have len: "length key = SFRAME_BASE_KEY_BYTES" using assms(6) by (simp add: SFRAME_BASE_KEY_BYTES_def)
  have win: "window_rel (de_replay entry) {}" "\<forall>i \<in> set order. ideal_fresh {} (int i)" for order by (simp_all add: dec(5) ideal_fresh_def)
  obtain d where d: "deriveKey C key (key_number keyId) = Inr d" "length (dk_salt d) = 12" using deriveKey_ok [OF assms(1) len kid] by blast
  have c: "ec_kid c = key_number keyId" "\<not> ec_destroyed c" "ec_derived c = Inr d" "ec_counter c = 0"
    using enc(3) d(1) by (auto simp: new_encrypt_context_def split: sum.splits if_splits)
  have "\<exists>outps c' rest. seal_frames C c frames = Some (outps, c') \<and>
      open_frames C (wk_decs (set_key C wB Decrypt inn keyId key) ! s) (map (\<lambda>i. (frames ! i)\<lparr>mf_data := outps ! i\<rparr>) order)
        = Some (map (\<lambda>i. mf_data (frames ! i)) order, rest)"
    if ok: "list_all encryptable frames" "int (length frames) \<le> MAX_UINT64 + 1" "arrival (length frames) order" for frames order
  proof -
    obtain outps c' where "seal_frames C c frames = Some (outps, c')"
      using seal_frames_total [OF assms(1), of c d frames] c d(2) kid ok(1,2) by auto
    with frames_arrive [OF assms(1) kid len enc(3) this ok(3) dec(3,4,2) win] show ?thesis by blast
  qed
  then show ?thesis unfolding frames_pass_def using enc(1,2) dec(1) by (intro exI [of _ r] exI [of _ s] conjI allI impI) simp_all
qed

text \<open>C14. The key exchange completes. When two pages are ready for it, one message each way is enough: the first page
  sends a key for its publication to the second, which installs it and acknowledges; with that acknowledgement the
  first page installs the same key, settles the pending entry and counts the context as active. Ready
  (\<open>exchange_ready\<close>) means: valid ids, a local publication, media encryption on and the worker alive on both pages,
  both in the same membership epoch with the membership stable, the overlay key of the second known to the first, the
  first a peer of the second, the media receive policies of both allowing the publication, and no key of this epoch
  pending for it. Then let both workers process the commands that were posted, the sender's in a context that has not
  failed nor exhausted its keys, the receiver's in a new one: the first encrypts any sequence of frames of supported
  codecs under the key, up to the end of its counter, and of these frames those that reach the second worker are decrypted to the original bytes, whichever are lost and
  in whatever order the others arrive, as long as no frame is overtaken by one sent a replay window later.\<close>

theorem media_exchange_completes:
  assumes "exchange_ready R publication A B"
  shows "let A1 = snd (provisionMediaKey R publication (mm_ownId B) A);
      B1 = acceptMediaE2eeEnvelope B (mm_ownId A) (snd (last (mm_sent A1)));
      A2 = acceptMediaE2eeEnvelope A1 (mm_ownId B) (snd (last (mm_sent B1)));
      out = outboundMediaContext (pb_id publication) (mm_ownId B);
      inn = inboundMediaContext (mm_ownId A) (pb_id publication)
    in fst (last (mm_sent A1)) = mm_ownId B \<and> fst (last (mm_sent B1)) = mm_ownId A
      \<and> out \<in> set (mm_senders A2) \<and> map_of (mm_pending A2) out = None \<and> inn \<in> set (mm_receivers B1)
      \<and> (\<exists>keyId key. set_keys A2 = insert (Encrypt, out, JStr keyId, key) (set_keys A)
          \<and> set_keys B1 = insert (Decrypt, inn, JStr keyId, key) (set_keys B)
          \<and> (\<forall>C wA wB. crypto_ok C \<and> context_open wA Encrypt out keyId \<and> context_open wB Decrypt inn keyId
                \<and> map_of (wk_decryptors wB) inn = None \<longrightarrow>
              frames_pass C (worker_message C wA (the (command_object (Set_Key Encrypt out (JStr keyId) key)))) out
                (worker_message C wB (the (command_object (Set_Key Decrypt inn (JStr keyId) key)))) inn))"
proof -
  define out where "out = outboundMediaContext (pb_id publication) (mm_ownId B)"
  define inn where "inn = inboundMediaContext (mm_ownId A) (pb_id publication)"
  define kid where "kid = fst (draw R (mm_draws A))"
  define key where "key = snd (draw R (mm_draws A))"
  note ready = assms
  obtain A1 where A1: "snd (provisionMediaKey R publication (mm_ownId B) A) = A1"
      "mm_sent A1 = mm_sent A @ [(mm_ownId B, encode_envelope (key_message (pb_id publication) (mm_ownId A) (mm_membershipEpoch A) kid key))]"
      "key_input_ok (pb_id publication) (mm_ownId A) (mm_membershipEpoch A) kid key"
      "map_of (mm_pending A1) out = Some (length (mm_store A))"
      "pd_message (mm_store A1 ! length (mm_store A)) = key_message (pb_id publication) (mm_ownId A) (mm_membershipEpoch A) kid key"
      "pd_baseKey (mm_store A1 ! length (mm_store A)) = key"
      "mm_ownId A1 = mm_ownId A" "mm_membershipEpoch A1 = mm_membershipEpoch A" "mm_membershipStable A1 = mm_membershipStable A"
      "mm_controller A1 = mm_controller A" "shouldProtectMedia A1" "set_keys A1 = set_keys A"
    by (rule key_sent [OF ready]) (auto simp: kid_def key_def out_def)
  obtain B1 where B1: "acceptMediaE2eeEnvelope B (mm_ownId A)
        (encode_envelope (key_message (pb_id publication) (mm_ownId A) (mm_membershipEpoch A) kid key)) = B1"
      "mm_sent B1 = mm_sent B @ [(mm_ownId A, encode_envelope (createMediaKeyAck
         (key_message (pb_id publication) (mm_ownId A) (mm_membershipEpoch A) kid key)))]"
      "inn \<in> set (mm_receivers B1)" "set_keys B1 = insert (Decrypt, inn, JStr kid, key) (set_keys B)"
    by (rule key_received [OF ready A1(3) [unfolded kid_def key_def]]) (auto simp: kid_def key_def inn_def)
  have stable: "mm_membershipStable A1" "worker_alive A1" "PEER_ID (mm_ownId B)" "PEER_ID (mm_ownId A)"
    using ready A1(9,10) by (auto simp: exchange_ready_def worker_alive_def)
  obtain A2 where A2: "acceptMediaE2eeEnvelope A1 (mm_ownId B) (encode_envelope (createMediaKeyAck
         (key_message (pb_id publication) (mm_ownId A) (mm_membershipEpoch A) kid key))) = A2"
      "out \<in> set (mm_senders A2)" "map_of (mm_pending A2) out = None"
      "set_keys A2 = insert (Encrypt, out, JStr kid, key) (set_keys A1)"
    using ack_received [of "pb_id publication" A1 kid key "mm_ownId B" "length (mm_store A)"] A1 stable by (metis out_def)
  have k: "KEY_ID kid" "length key = 16" "TRACK_ID (pb_id publication)"
    using A1(3) by (simp_all add: key_input_ok_def SFRAME_BASE_KEY_BYTES_def)
  have ctxs: "CONTEXT_ID out" "CONTEXT_ID inn" using context_ids [OF k(3)] stable(3,4) by (simp_all add: out_def inn_def)
  have "frames_pass C (worker_message C wA (the (command_object (Set_Key Encrypt out (JStr kid) key)))) out
      (worker_message C wB (the (command_object (Set_Key Decrypt inn (JStr kid) key)))) inn"
    if "crypto_ok C \<and> context_open wA Encrypt out kid \<and> context_open wB Decrypt inn kid \<and> map_of (wk_decryptors wB) inn = None" for C wA wB
    unfolding posted_command [OF ctxs(1) k(1,2)] posted_command [OF ctxs(2) k(1,2)]
    using that k by (intro installed_frames_pass) auto
  then show ?thesis
    unfolding Let_def out_def [symmetric] inn_def [symmetric] A1(1)
    using A1(2,12) B1 A2 by (intro conjI exI [of _ kid] exI [of _ key]) simp_all
qed

subsection \<open>Two pages\<close>

definition toy_random :: "nat \<Rightarrow> bytes \<times> bytes" where
  "toy_random n = (replicate 7 0 @ [n mod 256], replicate 16 7)"

definition toy_inputs :: attach_inputs where
  "toy_inputs = \<lparr>ai_pool = (\<lambda>_ _. Some (0, False)), ai_relay = (\<lambda>_ _. False)\<rparr>"

definition toy_events :: "string \<Rightarrow> mesh_event list" where
  "toy_events peer = [Ev_Add_Peer toy_inputs peer False (JArr []), Ev_Publish toy_inputs ''mic'' ''microphone'' True,
     Ev_Topology toy_inputs 1 1, Ev_Peer_Keys [peer]]"

definition toy_page :: "string \<Rightarrow> string \<Rightarrow> media_mesh" where
  "toy_page own peer = fold (mesh_step toy_random) (toy_events peer) (initialize_media own ''required'' True True)"

definition toy_publication :: mesh_publication where
  "toy_publication = \<lparr>pb_id = ''mic'', pb_rootPeerId = ''aaaaaaaaaaaaaaaa'', pb_source = ''microphone'', pb_live = True,
     pb_local = True, pb_inboundPeerId = []\<rparr>"

abbreviation "toy_A \<equiv> toy_page ''aaaaaaaaaaaaaaaa'' ''bbbbbbbbbbbbbbbb''"
abbreviation "toy_B \<equiv> toy_page ''bbbbbbbbbbbbbbbb'' ''aaaaaaaaaaaaaaaa''"

lemma toy_random_ok: "random_source toy_random"
  by (simp add: random_source_def random_key_ok_def toy_random_def SFRAME_BASE_KEY_BYTES_def)

lemma toy_ready: "exchange_ready toy_random toy_publication toy_A toy_B"
  unfolding exchange_ready_def by (intro conjI; code_simp)

definition toy_frames :: "media_frame list" where
  "toy_frames = map (\<lambda>d. \<lparr>mf_data = d, mf_type = None, mf_mimeType = []\<rparr>) [[1, 2, 3], [4], [5, 6]]"

theorem media_exchange_completes_witness:
  "\<exists>keyId key r s outps c d. exchange_ready toy_random toy_publication toy_A toy_B
    \<and> (let out = outboundMediaContext ''mic'' (mm_ownId toy_B); inn = inboundMediaContext (mm_ownId toy_A) ''mic'';
          wA = worker_message plain_crypto new_worker (the (command_object (Set_Key Encrypt out (JStr keyId) key)));
          wB = worker_message plain_crypto new_worker (the (command_object (Set_Key Decrypt inn (JStr keyId) key)))
       in map_of (wk_encryptors wA) out = Some r \<and> map_of (wk_decryptors wB) inn = Some s
         \<and> seal_frames plain_crypto (wk_encs wA ! r) toy_frames = Some (outps, c)
         \<and> open_frames plain_crypto (wk_decs wB ! s) (map (\<lambda>i. (toy_frames ! i)\<lparr>mf_data := outps ! i\<rparr>) [2, 0])
             = Some ([[5, 6], [1, 2, 3]], d))"
proof -
  let ?out = "outboundMediaContext ''mic'' (mm_ownId toy_B)" and ?inn = "inboundMediaContext (mm_ownId toy_A) ''mic''"
  let ?wA = "\<lambda>keyId key. worker_message plain_crypto new_worker (the (command_object (Set_Key Encrypt ?out (JStr keyId) key)))"
  let ?wB = "\<lambda>keyId key. worker_message plain_crypto new_worker (the (command_object (Set_Key Decrypt ?inn (JStr keyId) key)))"
  have "context_open new_worker d ctx keyId" for d ctx keyId
    by (simp add: context_open_def new_worker_def seen_keys_def MAX_CONTEXT_KEYS_def)
  moreover have "map_of (wk_decryptors new_worker) ctx = None" for ctx by (simp add: new_worker_def)
  moreover have pid: "pb_id toy_publication = ''mic''" by (simp add: toy_publication_def)
  obtain keyId key where "\<forall>C wA wB. crypto_ok C \<and> context_open wA Encrypt ?out keyId \<and> context_open wB Decrypt ?inn keyId
        \<and> map_of (wk_decryptors wB) ?inn = None \<longrightarrow>
      frames_pass C (worker_message C wA (the (command_object (Set_Key Encrypt ?out (JStr keyId) key)))) ?out
        (worker_message C wB (the (command_object (Set_Key Decrypt ?inn (JStr keyId) key)))) ?inn"
    using media_exchange_completes [OF toy_ready] unfolding Let_def pid by blast
  ultimately have pass: "frames_pass plain_crypto (?wA keyId key) ?out (?wB keyId key) ?inn" using plain_crypto_ok by blast
  have frames: "list_all encryptable toy_frames" "int (length toy_frames) \<le> MAX_UINT64 + 1" "arrival (length toy_frames) [2, 0]"
    by (simp_all add: toy_frames_def encryptable_def codecLayout_def MAX_UINT64_def arrival_def SFRAME_REPLAY_WINDOW_def Let_def)
  have plain: "map (\<lambda>i. mf_data (toy_frames ! i)) [2, 0] = [[5, 6], [1, 2, 3]]" by (simp add: toy_frames_def)
  obtain r s outps c d where "map_of (wk_encryptors (?wA keyId key)) ?out = Some r" "map_of (wk_decryptors (?wB keyId key)) ?inn = Some s"
      "seal_frames plain_crypto (wk_encs (?wA keyId key) ! r) toy_frames = Some (outps, c)"
      "open_frames plain_crypto (wk_decs (?wB keyId key) ! s) (map (\<lambda>i. (toy_frames ! i)\<lparr>mf_data := outps ! i\<rparr>) [2, 0])
         = Some (map (\<lambda>i. mf_data (toy_frames ! i)) [2, 0], d)"
    by (rule frames_passE [OF pass frames])
  note r = this
  show ?thesis
    unfolding Let_def
    by (rule exI [of _ keyId], rule exI [of _ key], rule exI [of _ r], rule exI [of _ s], rule exI [of _ outps], rule exI [of _ c], rule exI [of _ d])
      (intro conjI toy_ready r(1-3) r(4) [unfolded plain])
qed

lemma toy_provision: "mesh_step toy_random (Ev_Provision (mm_ownId toy_B)) toy_A = snd (provisionMediaKey toy_random toy_publication (mm_ownId toy_B) toy_A)"
proof -
  have "map_of (mm_peers toy_A) (mm_ownId toy_B) = Some [(''mic'', 0)]" "map snd (mm_publications toy_A) = [toy_publication]"
    by code_simp+
  then show ?thesis
    by (simp add: provisionMediaKeysForPeer_def toy_publication_def split: prod.splits option.splits)
qed

end
