(* ===== verification/Media_Agreement.thy ===== *)
theory Media_Agreement
  imports Media_Completion
begin

text \<open>
  Pages that exchange media keys over the overlay, whose delivery is authentic (\<open>overlay_delivers_authentic\<close>): data that
  arrives in the name of an honest member was sent by it to this page. Everything else is free: loss, repetition,
  order, the events of each page, and what other members send. The result: a page encrypts for a peer only under a
  key the peer had installed for it before, both installed it in the same membership epoch, and the page sent that key
  to no other member.
\<close>

subsection \<open>Events keep the invariant\<close>

lemma keys_inv_add_peer:
  assumes "random_source R" "keys_inv own old R N m" "PEER_ID peerId" shows "keys_inv own old R N (addPeer R I peerId machine capabilities m)"
proof -
  have "keys_inv own old R N (m\<lparr>mm_gate := g, mm_peers := map_set peerId [] (mm_peers m), mm_membershipStable := b\<rparr>)" for g b
    using assms by (intro keys_inv_quiet [OF assms(2)]) (auto simp: quiet_def set_keys_def keys_inv_def list_all_iff)
  then show ?thesis using assms(1,2) unfolding addPeer_def by (simp only: keys_inv_reconcile_all if_split simp_thms)
qed

lemma keys_inv_remove_peer:
  assumes "keys_inv own old R N m" shows "keys_inv own old R N (mesh_removePeer peerId m)"
proof -
  define m1 where "m1 = clearAllMediaKeys (m\<lparr>mm_membershipStable := False\<rparr>)"
  have k: "keys_inv own old R N m1" unfolding m1_def using assms by (intro keys_inv_clearAll keys_inv_other)
  have "keys_inv own old R N (m1\<lparr>mm_peers := map_delete peerId (mm_peers m1), mm_peerKeys := ks,
      mm_buffered := filter (\<lambda>(_, b). be_originPeerId b \<noteq> peerId) (mm_buffered m1)\<rparr>)" for ks
    using k by (intro keys_inv_quiet [OF k]) (auto simp: quiet_def set_keys_def keys_inv_def list_all_iff map_delete_filter)
  then show ?thesis
    using assms unfolding mesh_removePeer_def Let_def m1_def [symmetric]
    by (auto intro!: fold_inv [where P = "keys_inv own old R N"] keys_inv_remove_publication)
qed

lemma keys_inv_reset:
  assumes "random_source R" "keys_inv own old R N m" shows "keys_inv own old R N (resetPeerConnection R I peerId m)"
proof (cases "has_peer m peerId")
  case True
  then have "PEER_ID peerId" using keys_inv_peers [OF assms(2)] by (auto simp: has_peer_def list_all_iff)
  then have k: "keys_inv own old R N (addPeer R I peerId machine caps (mesh_removePeer peerId m))" for machine caps
    using assms by (intro keys_inv_add_peer keys_inv_remove_peer)
  then have "keys_inv own old R N (snd (rotateMediaKeys R ((addPeer R I peerId machine caps (mesh_removePeer peerId m))\<lparr>mm_membershipStable := True\<rparr>)))"
    for machine caps using assms(1) by (intro keys_inv_rotate keys_inv_other)
  note rot = this
  define m1 where "m1 = addPeer R I peerId (isMachine (mm_gate m) peerId) (JArr (map JStr (capabilitiesOf (mm_gate m) peerId)))
     (mesh_removePeer peerId m)"
  define r where "r = rotateMediaKeys R (m1\<lparr>mm_membershipStable := True\<rparr>)"
  have "resetPeerConnection R I peerId m = (if \<not> mm_membershipStable m then m1
      else case fst r of Some e \<Rightarrow> snd r | None \<Rightarrow> reconcileAllPublications R I (snd r))"
    using True unfolding resetPeerConnection_def Let_def m1_def r_def by (simp split: prod.splits option.splits)
  moreover have "keys_inv own old R N m1" "keys_inv own old R N (snd r)" using k rot by (simp_all add: m1_def r_def)
  ultimately show ?thesis using assms(1) by (simp add: keys_inv_reconcile_all split: option.splits)
qed (use assms(2) in \<open>simp add: resetPeerConnection_def\<close>)

lemma keys_inv_topology:
  assumes R: "random_source R" and inv: "keys_inv own old R N m" and e: "membershipEpoch \<le> MAX_SAFE_INTEGER"
  shows "keys_inv own old R N (topology_accepted R I membershipEpoch routeEpoch m)"
proof -
  define m1 where "m1 = m\<lparr>mm_membershipEpoch := membershipEpoch, mm_routeEpoch := routeEpoch, mm_membershipStable := True,
                 mm_appliedPeerIds := map_keys (mm_peers m)\<rparr>"
  have k: "keys_inv own old R N m1"
    using inv e by (intro keys_inv_quiet [OF inv]) (simp_all add: m1_def quiet_def set_keys_def keys_inv_peers)
  then have rot: "keys_inv own old R N (snd (rotateMediaKeys R (m1\<lparr>mm_overlayPublicKey := False\<rparr>)))"
    using R by (intro keys_inv_rotate keys_inv_other)
  define p where "p = (if membershipEpoch \<noteq> mm_membershipEpoch m \<and> mm_dataOverlayEnabled m \<and> ((\<exists>p \<in> set (mm_appliedPeerIds m). \<not> has_peer m p) \<or> \<not> mm_overlayPublicKey m)
               then rotateMediaKeys R (m1\<lparr>mm_overlayPublicKey := False\<rparr>) else (None, m1))"
  have "keys_inv own old R N (snd p)" using k rot by (simp add: p_def)
  moreover have "topology_accepted R I membershipEpoch routeEpoch m =
      (case p of (Some e, m2) \<Rightarrow> m2 | (None, m2) \<Rightarrow> reconcileAllPublications R I (flushBufferedMediaEnvelopes m2))"
    unfolding topology_accepted_def Let_def p_def m1_def by simp
  ultimately show ?thesis using R by (auto split: prod.splits option.splits intro!: keys_inv_reconcile_all keys_inv_flush)
qed

lemma keys_inv_refresh_machines:
  assumes "random_source R" "keys_inv own old R N m" shows "keys_inv own old R N (refreshMachineReceiveKeys R I m)"
proof -
  define m1 where "m1 = reconcileAllPublications R I (fold clear_unreceivable (map snd (mm_publications m)) m)"
  have "keys_inv own old R N (clear_unreceivable publication s)" if "keys_inv own old R N s" for publication s
    using that by (simp add: clear_unreceivable_def keys_inv_clear_publication keys_inv_clear_receiver)
  then have "keys_inv own old R N m1"
    unfolding m1_def using assms by (intro keys_inv_reconcile_all fold_inv [where P = "keys_inv own old R N"])
  then have "keys_inv own old R N (snd (try_each (provisionMediaKeysForPeer R) (map_keys (mm_peers m1)) m1))"
    using assms(1) by (intro try_each_inv [where P = "keys_inv own old R N"] keys_inv_provision_peer)
  then show ?thesis
    unfolding refreshMachineReceiveKeys_def Let_def m1_def [symmetric]
    by (cases "try_each (provisionMediaKeysForPeer R) (map_keys (mm_peers m1)) m1")
      (auto split: option.splits intro!: keys_inv_refresh)
qed

lemma keys_inv_relabel:
  "random_source R \<Longrightarrow> keys_inv own old R N m \<Longrightarrow> keys_inv own old R N (relabel_remote R I trackId rootPeerId source m)"
  by (auto simp: relabel_remote_def Let_def intro!: keys_inv_reconcile keys_inv_other split: option.splits)

text \<open>Peer ids come from the server, epochs from accepted topologies, origins from the overlay: all of the right form.\<close>

fun event_valid :: "(string \<Rightarrow> bytes \<Rightarrow> bool) \<Rightarrow> mesh_event \<Rightarrow> bool" where
  "event_valid N (Ev_Envelope originPeerId data) = (PEER_ID originPeerId \<and> N originPeerId data)"
| "event_valid N (Ev_Topology I membershipEpoch routeEpoch) = (membershipEpoch \<le> MAX_SAFE_INTEGER)"
| "event_valid N (Ev_Add_Peer I peerId machine capabilities) = PEER_ID peerId"
| "event_valid N _ = True"

lemma keys_inv_step:
  assumes R: "random_source R" and inv: "keys_inv own old R N m" and v: "event_valid N e"
  shows "keys_inv own old R N (mesh_step R e m)"
proof (cases e)
  case (Ev_Resume j)
  have "keys_inv own old R N (m\<lparr>mm_awaiting := aw\<rparr>)" for aw using inv by (rule keys_inv_other)
  then show ?thesis using inv Ev_Resume
    by (auto simp: mesh_resume_def Let_def intro: keys_inv_pending_sent keys_inv_refresh split: awaiting.splits)
next
  case (Ev_Receive_Policy I now roomId raw)
  then show ?thesis using R inv by (auto simp: receive_policy_def Let_def intro!: keys_inv_refresh_machines keys_inv_other)
next
  case (Ev_Policy_Timer I now)
  then show ?thesis using R inv by (auto intro!: keys_inv_refresh_machines keys_inv_other)
next
  case Ev_Worker_Failure
  have "keys_inv own old R N (with_controller worker_failed m)" using inv by (rule keys_inv_same) simp_all
  then show ?thesis using inv Ev_Worker_Failure by (simp add: keys_inv_fail)
qed (use R inv v in \<open>auto intro!: keys_inv_reconcile_all keys_inv_drop_sender keys_inv_publish keys_inv_remove_publication
    keys_inv_remote keys_inv_other keys_inv_provision_peer keys_inv_pending_timer keys_inv_accept keys_inv_recovery
    keys_inv_topology keys_inv_add_peer keys_inv_remove_peer keys_inv_reset keys_inv_fail keys_inv_relabel\<close>)

lemma keys_inv_init: "keys_inv ownId {} R N (initialize_media ownId mode overlay supported)"
  by (simp add: initialize_media_def keys_inv_def MAX_SAFE_INTEGER_def pending_keys_ok_def sent_ok_def set_keys_def new_media_controller_def log_ok_def)

lemma keys_inv_net: "keys_inv own old R N m \<Longrightarrow> (\<And>a d. N a d \<Longrightarrow> N' a d) \<Longrightarrow> keys_inv own old R N' m"
proof -
  assume inv: "keys_inv own old R N m" and N: "\<And>a d. N a d \<Longrightarrow> N' a d"
  have "sent_ok N' m" by (rule sent_ok_grow [of N m]) (use inv N in \<open>auto simp only: keys_inv_def\<close>)
  moreover have "answered N' m ctx k key" if "(Encrypt, ctx, k, key) \<in> set_keys m" for ctx k key
    by (rule answered_mono [of N m]) (use inv that N in \<open>auto simp only: keys_inv_def\<close>)
  moreover have "log_ok N' m" by (rule log_ok_mono [of N m m N']) (use inv N in \<open>auto simp only: keys_inv_def\<close>)
  ultimately show ?thesis using inv N unfolding keys_inv_def by blast
qed

subsection \<open>Pages that exchange keys\<close>

definition heard :: "string set \<Rightarrow> (string \<Rightarrow> media_mesh) \<Rightarrow> string \<Rightarrow> string \<Rightarrow> bytes \<Rightarrow> bool" where
  "heard H S a originPeerId data \<longleftrightarrow> originPeerId \<in> H \<longrightarrow> (a, data) \<in> set (mm_sent (S originPeerId))"

text \<open>\<open>H\<close> are the members that run this code; the states they reach together.\<close>

inductive key_net :: "string set \<Rightarrow> (string \<Rightarrow> nat \<Rightarrow> bytes \<times> bytes) \<Rightarrow> (string \<Rightarrow> media_mesh) \<Rightarrow> bool"
  for H :: "string set" and R :: "string \<Rightarrow> nat \<Rightarrow> bytes \<times> bytes" where
  start: "(\<And>a. a \<in> H \<Longrightarrow> \<exists>mode overlay supported. S a = initialize_media a mode overlay supported) \<Longrightarrow> key_net H R S"
| event: "key_net H R S \<Longrightarrow> a \<in> H \<Longrightarrow> event_valid (heard H S a) e \<Longrightarrow> key_net H R (S(a := mesh_step (R a) e (S a)))"

inductive_simps key_net_iff: "key_net H R S"

definition net_ok :: "string set \<Rightarrow> (string \<Rightarrow> nat \<Rightarrow> bytes \<times> bytes) \<Rightarrow> bool" where
  "net_ok H R \<longleftrightarrow> (\<forall>a \<in> H. PEER_ID a \<and> random_source (R a))"

lemma key_net_inv:
  assumes "key_net H R S" "net_ok H R" "a \<in> H"
  shows "keys_inv a {} (R a) (heard H S a) (S a)"
  using assms(1,3)
proof (induction arbitrary: a rule: key_net.induct)
  case (start S)
  then show ?case using keys_inv_init by metis
next
  case (event S b e)
  have R: "random_source (R b)" using assms(2) event.hyps(2) by (simp add: net_ok_def)
  have old: "keys_inv b (set (mm_sent (S b))) (R b) (heard H S b) (S b)"
    using event.IH [OF event.hyps(2)] by (simp add: keys_inv_def)
  then have step: "keys_inv b (set (mm_sent (S b))) (R b) (heard H S b) (mesh_step (R b) e (S b))"
    using R event.hyps(3) by (intro keys_inv_step)
  then have "set (mm_sent (S b)) \<subseteq> set (mm_sent (mesh_step (R b) e (S b)))" by (simp add: keys_inv_def)
  then have mono: "heard H S c o' d \<Longrightarrow> heard H (S(b := mesh_step (R b) e (S b))) c o' d" for c o' d
    by (auto simp: heard_def)
  have "keys_inv a {} (R a) (heard H S a) ((S(b := mesh_step (R b) e (S b))) a)"
    using step event.IH [OF event.prems] by (auto simp: keys_inv_def)
  then show ?case by (rule keys_inv_net) (rule mono)
qed

lemma keys_inv_distinct:
  assumes "keys_inv own old R N m" "ids_fresh R (mm_draws m)" "p \<in> set (mm_store m)" "q \<in> set (mm_store m)"
    and "msg_field ''keyId'' p = msg_field ''keyId'' q"
  shows "p = q"
proof -
  have "distinct (map (msg_field ''keyId'') (mm_store m))" using assms(1,2) by (simp add: keys_inv_def)
  then have "inj_on (msg_field ''keyId'') (set (mm_store m))" by (simp add: distinct_map)
  then show ?thesis using assms(3-5) by (auto dest: inj_onD)
qed

lemma stored_message:
  assumes "keys_inv own old R N m" "p \<in> set (mm_store m)"
  obtains pub epoch kid key where "key_input_ok pub own epoch kid key" "pd_message p = key_message pub own epoch kid key"
    "pd_contextId p = outboundMediaContext pub (pd_targetPeerId p)" "PEER_ID (pd_targetPeerId p)"
proof -
  have "drawn R m p" "mm_ownId m = own" using assms by (auto simp: keys_inv_def)
  then show thesis using that unfolding drawn_def by blast
qed

text \<open>Members that run this code send each other well-formed messages only.\<close>

definition well_formed :: "bytes \<Rightarrow> bool" where
  "well_formed data \<longleftrightarrow> (\<exists>pub sender epoch kid key. key_input_ok pub sender epoch kid key \<and>
     (data = encode_envelope (key_message pub sender epoch kid key)
      \<or> data = encode_envelope (createMediaKeyAck (key_message pub sender epoch kid key))))"

lemma well_formed_key:
  assumes "well_formed data" "read_envelope data = Some msg" "js_get msg ''type'' = JStr ''media-key''"
  shows "\<exists>pub sender epoch kid key. key_input_ok pub sender epoch kid key \<and> msg = key_message pub sender epoch kid key"
proof -
  obtain pub sender epoch kid key where k: "key_input_ok pub sender epoch kid key"
      and d: "data = encode_envelope (key_message pub sender epoch kid key)
        \<or> data = encode_envelope (createMediaKeyAck (key_message pub sender epoch kid key))"
    using assms(1) unfolding well_formed_def by blast
  from d have "msg = key_message pub sender epoch kid key \<or> msg = createMediaKeyAck (key_message pub sender epoch kid key)"
    using assms(2) read_key_message [OF k] read_ack_message [OF k] by auto
  then have "msg = key_message pub sender epoch kid key" using assms(3) by auto
  with k show ?thesis by blast
qed

lemma sent_cases:
  assumes inv: "keys_inv own old R N m" and sent: "(peer, data) \<in> set (mm_sent m)"
  obtains (key) p where "p \<in> set (mm_store m)" "pd_targetPeerId p = peer" "data = encode_envelope (pd_message p)"
  | (ack) "acknowledged N m peer data"
  using assms by (fastforce simp: keys_inv_def sent_ok_def)

lemma sent_well_formed:
  assumes inv: "keys_inv own old R N m" and sent: "(peer, data) \<in> set (mm_sent m)"
    and honest: "\<And>d. N peer d \<Longrightarrow> well_formed d"
  shows "well_formed data"
  using inv sent
proof (cases rule: sent_cases)
  case (key p)
  then show ?thesis using stored_message [OF inv key(1)] unfolding well_formed_def by metis
next
  case ack
  then obtain h d where h: "data = encode_envelope (createMediaKeyAck h)" "N peer d" "read_envelope d = Some h"
      "js_get h ''type'' = JStr ''media-key''"
    unfolding acknowledged_def by blast
  then show ?thesis using well_formed_key [OF honest [OF h(2)] h(3,4)] unfolding well_formed_def by blast
qed

lemma key_net_well_formed:
  assumes "key_net H R S" "net_ok H R" "a \<in> H" "b \<in> H" "(b, data) \<in> set (mm_sent (S a))"
  shows "well_formed data"
  using assms(1,3-5)
proof (induction arbitrary: a b data rule: key_net.induct)
  case (start S)
  then show ?case by (fastforce simp: initialize_media_def)
next
  case (event S c e)
  show ?case
  proof (cases "a = c")
    case True
    have "keys_inv c {} (R c) (heard H S c) (S c)" by (rule key_net_inv [OF event.hyps(1) assms(2) event.hyps(2)])
    moreover have "random_source (R c)" using assms(2) event.hyps(2) by (simp add: net_ok_def)
    ultimately have inv: "keys_inv c {} (R c) (heard H S c) (mesh_step (R c) e (S c))" using event.hyps(3) by (intro keys_inv_step)
    have "well_formed d" if "heard H S c b d" for d
      using that event.IH [OF event.prems(2) event.hyps(2)] event.prems(2) by (simp add: heard_def)
    then show ?thesis using sent_well_formed [OF inv] event.prems(3) True by simp
  next
    case False
    then show ?thesis using event.IH [OF event.prems(1,2)] event.prems(3) by simp
  qed
qed

text \<open>What a page sent to a member that reads as a key message is one of its keys.\<close>

lemma sent_key:
  assumes inv: "keys_inv own old R N m" and sent: "(peer, data) \<in> set (mm_sent m)" and rd: "read_envelope data = Some msg"
    and ty: "js_get msg ''type'' = JStr ''media-key''" and honest: "\<And>d. N peer d \<Longrightarrow> well_formed d"
  obtains p where "p \<in> set (mm_store m)" "pd_targetPeerId p = peer" "msg = pd_message p"
  using inv sent
proof (cases rule: sent_cases)
  case (key p)
  then show thesis using that rd by (metis option.inject read_key_message stored_message [OF inv key(1)])
next
  case ack
  then obtain h d where h: "data = encode_envelope (createMediaKeyAck h)" "N peer d" "read_envelope d = Some h"
      "js_get h ''type'' = JStr ''media-key''"
    unfolding acknowledged_def by blast
  then obtain pub sender epoch kid key where k: "key_input_ok pub sender epoch kid key" "h = key_message pub sender epoch kid key"
    using well_formed_key [OF honest] by blast
  then have "msg = createMediaKeyAck h" using rd h(1) read_ack_message [OF k(1)] by simp
  then show thesis using ty by simp
qed

text \<open>Where an acknowledgement comes from: a key the page had installed, which the other page had sent it.\<close>

lemma ack_origin:
  assumes net: "key_net H R S" "net_ok H R" "A \<in> H" "B \<in> H" and hd: "heard H S A B data"
    and rd: "read_envelope data = Some msg" "js_get msg ''type'' = JStr ''media-key-ack''"
  obtains p pub epoch kid key where "p \<in> set (mm_store (S A))" "pd_targetPeerId p = B"
    "pd_message p = key_message pub A epoch kid key" "key_input_ok pub A epoch kid key"
    "pd_contextId p = outboundMediaContext pub B" "js_get msg ''keyId'' = JStr kid"
    "(Decrypt, inboundMediaContext A pub, JStr kid, key) \<in> set_keys (S B)"
proof -
  have invA: "keys_inv A {} (R A) (heard H S A) (S A)" and invB: "keys_inv B {} (R B) (heard H S B) (S B)"
    using key_net_inv [OF net(1,2)] net(3,4) by auto
  have wfA: "well_formed d" if "heard H S A B d" for d
    using key_net_well_formed [OF net(1,2,4,3)] that net(4) by (auto simp: heard_def)
  have "(A, data) \<in> set (mm_sent (S B))" using hd net(4) by (simp add: heard_def)
  with invB show thesis
  proof (cases rule: sent_cases)
    case (key q)
    then obtain pub epoch kid k where "key_input_ok pub B epoch kid k" "pd_message q = key_message pub B epoch kid k"
      using stored_message [OF invB key(1)] by metis
    then have "msg = key_message pub B epoch kid k" using rd(1) key(3) read_key_message [of pub B epoch kid k] by simp
    then show thesis using rd(2) by simp
  next
    case ack
    then obtain h key d where h: "data = encode_envelope (createMediaKeyAck h)" "heard H S B A d" "read_envelope d = Some h"
        "js_get h ''type'' = JStr ''media-key''" "decodeMediaBaseKey h = Inr key"
        "(Decrypt, inboundMediaContext A (js_to_string (js_get h ''publicationId'')), js_get h ''keyId'', key) \<in> set_keys (S B)"
      unfolding acknowledged_def by blast
    have "(B, d) \<in> set (mm_sent (S A))" using h(2) net(3) by (simp add: heard_def)
    then obtain p where p: "p \<in> set (mm_store (S A))" "pd_targetPeerId p = B" "h = pd_message p"
      using sent_key [OF invA _ h(3,4) wfA] by blast
    obtain pub epoch kid k where m: "key_input_ok pub A epoch kid k" "pd_message p = key_message pub A epoch kid k"
        "pd_contextId p = outboundMediaContext pub B"
      using stored_message [OF invA p(1)] p(2) by metis
    have "k = key" using h(5) p(3) m(2) decode_key_message [OF m(1)] by simp
    moreover have "msg = createMediaKeyAck h" using rd(1) h(1) p(3) m(2) read_ack_message [OF m(1)] by simp
    ultimately show thesis using that [OF p(1,2) m(2,1,3)] h(6) p(3) m(2) by simp
  qed
qed

text \<open>The text of an acknowledgement is never that of a key message.\<close>

lemma ack_not_key: "encode_envelope (key_message pub sender epoch kid key) \<noteq> encode_envelope (createMediaKeyAck h)"
  by (simp add: encode_envelope_def key_message_def createMediaKeyAck_def text_encode_def str_bytes_def
      json_quote_def json_escape_def)

text \<open>What the log of installed keys says of the other page.\<close>

lemma inbound_inj:
  assumes "inboundMediaContext a p = inboundMediaContext b q" "PEER_ID a" "PEER_ID b" shows "a = b" "p = q"
proof -
  have "length a = length b" using assms(2,3) by (auto simp: PEER_ID_def matches_def)
  moreover have "a @ (CHR '':'' # p) = b @ (CHR '':'' # q)" using assms(1) by (simp add: inboundMediaContext_def)
  ultimately show "a = b" "p = q" by (auto simp: append_eq_append_conv)
qed

lemma receiver_entry:
  assumes net: "key_net H R S" "net_ok H R" "A \<in> H" "B \<in> H"
    and entry: "(Decrypt, inboundMediaContext A P, k, key, epoch) \<in> set (mm_installed (S B))"
  obtains p where "p \<in> set (mm_store (S A))" "msg_field ''keyId'' p = k" "decodeMediaBaseKey (pd_message p) = Inr key"
    "msg_field ''membershipEpoch'' p = JInt epoch"
proof -
  have invA: "keys_inv A {} (R A) (heard H S A) (S A)" and invB: "keys_inv B {} (R B) (heard H S B) (S B)"
    using key_net_inv [OF net(1,2)] net(3,4) by auto
  have wfA: "well_formed d" if "heard H S A B d" for d
    using key_net_well_formed [OF net(1,2,4,3)] that net(4) by (auto simp: heard_def)
  have "installed_ok (heard H S B) (S B) (Decrypt, inboundMediaContext A P, k, key, epoch)"
    using invB entry unfolding keys_inv_def log_ok_def by blast
  then obtain origin data msg where m: "PEER_ID origin" "heard H S B origin data" "read_envelope data = Some msg"
      "js_get msg ''type'' = JStr ''media-key''" "inboundMediaContext A P = inboundMediaContext origin (js_to_string (js_get msg ''publicationId''))"
      "js_get msg ''keyId'' = k" "decodeMediaBaseKey msg = Inr key" "js_get msg ''membershipEpoch'' = JInt epoch"
    by auto
  have "PEER_ID A" using net(2,3) by (simp add: net_ok_def)
  then have "origin = A" using inbound_inj(1) [OF m(5)] m(1) by simp
  then have "(B, data) \<in> set (mm_sent (S A))" using m(2) net(3) by (simp add: heard_def)
  then obtain p where "p \<in> set (mm_store (S A))" "msg = pd_message p" using sent_key [OF invA _ m(3,4) wfA] by blast
  then show thesis using that m(6-8) by (simp add: msg_field_def)
qed

lemma sender_entry:
  assumes "keys_inv own old R N m" "(Encrypt, ctx, k, key, epoch) \<in> set (mm_installed m)"
  obtains p where "p \<in> set (mm_store m)" "msg_field ''keyId'' p = k" "decodeMediaBaseKey (pd_message p) = Inr key"
    "msg_field ''membershipEpoch'' p = JInt epoch"
proof -
  have "installed_ok N m (Encrypt, ctx, k, key, epoch)" using assms unfolding keys_inv_def log_ok_def by blast
  then show thesis using that by auto
qed

lemma logged_key:
  assumes "keys_inv own old R N m" "(d, ctx, k, key) \<in> set_keys m"
  obtains epoch where "(d, ctx, k, key, epoch) \<in> set (mm_installed m)"
proof -
  have "(d, ctx, k, key) \<in> (\<lambda>(d, ctx, k, key, epoch). (d, ctx, k, key)) ` set (mm_installed m)"
    using assms by (simp add: keys_inv_def log_ok_def)
  then show thesis using that by auto
qed

text \<open>C12. Key agreement. Whatever happens among the pages of the honest members (any events in any order, messages lost,
  repeated, delayed or buffered, other members sending anything), a page hands its worker a key to encrypt a
  publication for a peer only after the peer handed its own worker the same key, with the same id, to decrypt that
  publication of that sender. All this happens in one membership epoch: at each time the page installed a key under this
  id for the peer, and at each time the peer installed a key under this id for the publication, it was this key, and the
  membership epoch of the page that installed it was the same. And the page sent this key to no other member. The key ids
  one page draws are assumed to be different.\<close>

theorem media_key_agreement:
  assumes net: "key_net H R S" "net_ok H R" and AB: "A \<in> H" "B \<in> H" and fresh: "ids_fresh (R A) (mm_draws (S A))"
    and key: "(Encrypt, outboundMediaContext P B, k, key) \<in> set_keys (S A)"
  shows "(Decrypt, inboundMediaContext A P, k, key) \<in> set_keys (S B) \<and>
    (\<exists>epoch. (Encrypt, outboundMediaContext P B, k, key, epoch) \<in> set (mm_installed (S A))
       \<and> (Decrypt, inboundMediaContext A P, k, key, epoch) \<in> set (mm_installed (S B))
       \<and> (\<forall>key' e. (Encrypt, outboundMediaContext P B, k, key', e) \<in> set (mm_installed (S A)) \<longrightarrow> key' = key \<and> e = epoch)
       \<and> (\<forall>key' e. (Decrypt, inboundMediaContext A P, k, key', e) \<in> set (mm_installed (S B)) \<longrightarrow> key' = key \<and> e = epoch)) \<and>
    (\<forall>(c, data) \<in> set (mm_sent (S A)). \<forall>pub epoch kid key'. key_input_ok pub A epoch kid key' \<and> k = JStr kid
       \<and> data = encode_envelope (key_message pub A epoch kid key') \<longrightarrow> c = B)"
proof -
  have inv: "keys_inv A {} (R A) (heard H S A) (S A)" and invB: "keys_inv B {} (R B) (heard H S B) (S B)"
    using key_net_inv [OF net] AB by auto
  have peer: "PEER_ID B" using net(2) AB(2) by (simp add: net_ok_def)
  have "answered (heard H S A) (S A) (outboundMediaContext P B) k key" using inv key by (simp add: keys_inv_def)
  then obtain p data msg where p: "p \<in> set (mm_store (S A))" "pd_contextId p = outboundMediaContext P B" "msg_field ''keyId'' p = k"
      "decodeMediaBaseKey (pd_message p) = Inr key" "heard H S A (pd_targetPeerId p) data" "read_envelope data = Some msg"
      "js_get msg ''type'' = JStr ''media-key-ack''" "js_get msg ''keyId'' = k"
    unfolding answered_def by blast
  obtain pub where pub: "pd_contextId p = outboundMediaContext pub (pd_targetPeerId p)" "PEER_ID (pd_targetPeerId p)"
    using stored_message [OF inv p(1)] by metis
  then have target: "pub = P" "pd_targetPeerId p = B" using p(2) peer outbound_inj by metis+
  obtain q pub' epoch kid key' where q: "q \<in> set (mm_store (S A))" "pd_message q = key_message pub' A epoch kid key'"
      "key_input_ok pub' A epoch kid key'" "pd_contextId q = outboundMediaContext pub' B" "js_get msg ''keyId'' = JStr kid"
      "(Decrypt, inboundMediaContext A pub', JStr kid, key') \<in> set_keys (S B)"
    using ack_origin [OF net AB p(5) [unfolded target(2)] p(6,7)] by metis
  have same: "q' = p" if "q' \<in> set (mm_store (S A))" "msg_field ''keyId'' q' = k" for q'
    using keys_inv_distinct [OF inv fresh that(1) p(1)] that(2) p(3) by simp
  have "q = p" using same [OF q(1)] q(2,5) p(8) by (simp add: msg_field_def)
  then have "outboundMediaContext pub' B = outboundMediaContext P B" "decodeMediaBaseKey (pd_message p) = Inr key'"
    and epoch: "msg_field ''membershipEpoch'' p = JInt epoch"
    using q(2,4) p(2) decode_key_message [OF q(3)] by (simp_all add: msg_field_def)
  then have "key' = key" "pub' = P" using p(4) outbound_inj(1) [OF _ peer peer] by simp_all
  then have dec: "(Decrypt, inboundMediaContext A P, k, key) \<in> set_keys (S B)" using q(5,6) p(8) by simp
  have unique: "key' = key \<and> e = epoch" if "q' \<in> set (mm_store (S A))" "msg_field ''keyId'' q' = k"
      "decodeMediaBaseKey (pd_message q') = Inr key'" "msg_field ''membershipEpoch'' q' = JInt e" for q' key' e
    using same [OF that(1,2)] that(3,4) p(4) epoch by simp
  have enc_log: "key' = key \<and> e = epoch" if "(Encrypt, outboundMediaContext P B, k, key', e) \<in> set (mm_installed (S A))" for key' e
    using unique by (rule sender_entry [OF inv that])
  have dec_log: "key' = key \<and> e = epoch" if "(Decrypt, inboundMediaContext A P, k, key', e) \<in> set (mm_installed (S B))" for key' e
    using unique by (rule receiver_entry [OF net AB that])
  have "(Encrypt, outboundMediaContext P B, k, key, epoch) \<in> set (mm_installed (S A))" using logged_key [OF inv key] enc_log by metis
  moreover have "(Decrypt, inboundMediaContext A P, k, key, epoch) \<in> set (mm_installed (S B))" using logged_key [OF invB dec] dec_log by metis
  moreover have "c = B" if sent: "(c, encode_envelope (key_message pub A epoch kid key')) \<in> set (mm_sent (S A))"
      and ok: "key_input_ok pub A epoch kid key'" and kid: "k = JStr kid" for c pub epoch kid key'
    using inv sent
  proof (cases rule: sent_cases)
    case (key r)
    then have "pd_message r = key_message pub A epoch kid key'"
      using read_key_message [OF ok] stored_message [OF inv key(1)] read_key_message by (metis option.inject)
    then show ?thesis using same [OF key(1)] key(2) target(2) kid by (simp add: msg_field_def)
  next
    case ack
    then show ?thesis using ack_not_key unfolding acknowledged_def by metis
  qed
  ultimately show ?thesis using dec enc_log dec_log by blast
qed

subsection \<open>Two pages in the network\<close>

lemma event_valid_any: "event_valid (\<lambda>_ _. False) e \<Longrightarrow> event_valid N e"
  by (cases e) simp_all

lemma key_net_events:
  assumes "key_net H R S" "a \<in> H" "list_all (event_valid (\<lambda>_ _. False)) es"
  shows "key_net H R (S(a := fold (mesh_step (R a)) es (S a)))"
  using assms
proof (induction es arbitrary: S)
  case (Cons e es)
  have "event_valid (heard H S a) e" using Cons.prems(3) by (auto intro: event_valid_any)
  then have "key_net H R (S(a := mesh_step (R a) e (S a)))" using Cons.prems by (intro key_net.event) auto
  from Cons.IH [OF this] Cons.prems show ?case by (simp only: fold.simps o_apply fun_upd_same fun_upd_upd list.pred_inject)
qed simp

lemma toy_net:
  "key_net {''aaaaaaaaaaaaaaaa'', ''bbbbbbbbbbbbbbbb''} (\<lambda>_. toy_random)
     ((\<lambda>a. initialize_media a ''required'' True True)(''aaaaaaaaaaaaaaaa'' := toy_A, ''bbbbbbbbbbbbbbbb'' := toy_B))"
proof -
  let ?H = "{''aaaaaaaaaaaaaaaa'', ''bbbbbbbbbbbbbbbb''}" and ?S = "\<lambda>a. initialize_media a ''required'' True True"
  have v: "list_all (event_valid (\<lambda>_ _. False)) (toy_events ''aaaaaaaaaaaaaaaa'')" "list_all (event_valid (\<lambda>_ _. False)) (toy_events ''bbbbbbbbbbbbbbbb'')"
    by (simp_all add: toy_events_def PEER_ID_def matches_def lower_hex_def MAX_SAFE_INTEGER_def)
  have "key_net ?H (\<lambda>_. toy_random) ?S" by (rule key_net.start) blast
  then have a: "key_net ?H (\<lambda>_. toy_random) (?S(''aaaaaaaaaaaaaaaa'' := toy_A))"
    using v(2) key_net_events [of ?H "\<lambda>_. toy_random" ?S "''aaaaaaaaaaaaaaaa''"] by (simp add: toy_page_def)
  from key_net_events [OF a, of "''bbbbbbbbbbbbbbbb''"] v(1) show ?thesis by (simp add: toy_page_def)
qed

theorem media_key_agreement_witness:
  "\<exists>S k key epoch. key_net {''aaaaaaaaaaaaaaaa'', ''bbbbbbbbbbbbbbbb''} (\<lambda>_. toy_random) S
     \<and> (Encrypt, outboundMediaContext ''mic'' ''bbbbbbbbbbbbbbbb'', k, key) \<in> set_keys (S ''aaaaaaaaaaaaaaaa'')
     \<and> (Encrypt, outboundMediaContext ''mic'' ''bbbbbbbbbbbbbbbb'', k, key, epoch) \<in> set (mm_installed (S ''aaaaaaaaaaaaaaaa''))
     \<and> (Decrypt, inboundMediaContext ''aaaaaaaaaaaaaaaa'' ''mic'', k, key, epoch) \<in> set (mm_installed (S ''bbbbbbbbbbbbbbbb''))"
proof -
  let ?a = "''aaaaaaaaaaaaaaaa''" and ?b = "''bbbbbbbbbbbbbbbb''" and ?R = "\<lambda>_ :: string. toy_random"
  let ?H = "{?a, ?b}"
  have own: "mm_ownId toy_A = ?a" "mm_ownId toy_B = ?b" "mm_draws toy_A = 0" by code_simp+
  have pid: "pb_id toy_publication = ''mic''" by (simp add: toy_publication_def)
  define S0 where "S0 = (\<lambda>a. initialize_media a ''required'' True True)(?a := toy_A, ?b := toy_B)"
  note ready = toy_ready
  obtain A1 where A1: "mesh_step toy_random (Ev_Provision ?b) toy_A = A1"
      "mm_sent A1 = mm_sent toy_A @ [(?b, encode_envelope (key_message ''mic'' ?a (mm_membershipEpoch toy_A) (fst (draw toy_random 0)) (snd (draw toy_random 0))))]"
      "key_input_ok ''mic'' ?a (mm_membershipEpoch toy_A) (fst (draw toy_random 0)) (snd (draw toy_random 0))"
      "map_of (mm_pending A1) (outboundMediaContext ''mic'' ?b) = Some (length (mm_store toy_A))"
      "pd_message (mm_store A1 ! length (mm_store toy_A)) = key_message ''mic'' ?a (mm_membershipEpoch toy_A) (fst (draw toy_random 0)) (snd (draw toy_random 0))"
      "pd_baseKey (mm_store A1 ! length (mm_store toy_A)) = snd (draw toy_random 0)"
      "mm_ownId A1 = ?a" "mm_membershipEpoch A1 = mm_membershipEpoch toy_A" "mm_membershipStable A1 = mm_membershipStable toy_A"
      "mm_controller A1 = mm_controller toy_A" "shouldProtectMedia A1" "mm_draws A1 = 1"
    by (rule key_sent [OF ready]) (use toy_provision in \<open>simp add: own pid\<close>)
  define d1 where "d1 = encode_envelope (key_message ''mic'' ?a (mm_membershipEpoch toy_A) (fst (draw toy_random 0)) (snd (draw toy_random 0)))"
  obtain B1 where B1: "acceptMediaE2eeEnvelope toy_B ?a d1 = B1"
      "mm_sent B1 = mm_sent toy_B @ [(?a, encode_envelope (createMediaKeyAck
         (key_message ''mic'' ?a (mm_membershipEpoch toy_A) (fst (draw toy_random 0)) (snd (draw toy_random 0)))))]"
    by (rule key_received [OF ready]) (use A1(3) in \<open>simp_all add: own pid d1_def\<close>)
  have alive: "mm_membershipStable A1" "worker_alive A1" "PEER_ID ?a" "PEER_ID ?b"
    using ready A1(9,10) by (auto simp: exchange_ready_def worker_alive_def own)
  define d2 where "d2 = encode_envelope (createMediaKeyAck
         (key_message ''mic'' ?a (mm_membershipEpoch toy_A) (fst (draw toy_random 0)) (snd (draw toy_random 0))))"
  obtain A2 where A2: "acceptMediaE2eeEnvelope A1 ?b d2 = A2"
      "set_keys A2 = insert (Encrypt, outboundMediaContext ''mic'' ?b, JStr (fst (draw toy_random 0)), snd (draw toy_random 0)) (set_keys A1)"
      "mm_draws A2 = 1"
    using ack_received [of "''mic''" A1 "fst (draw toy_random 0)" "snd (draw toy_random 0)" ?b "length (mm_store toy_A)"] A1 alive
    unfolding d2_def by metis
  have net1: "key_net ?H ?R (S0(?a := A1))"
    using key_net.event [OF toy_net [folded S0_def], of ?a "Ev_Provision ?b"] A1(1) by (simp add: S0_def del: mesh_step.simps)
  then have net2: "key_net ?H ?R (S0(?a := A1, ?b := B1))"
    using key_net.event [OF net1, of ?b "Ev_Envelope ?a d1"] A1(2) B1(1) alive by (simp add: S0_def heard_def d1_def)
  then have net3: "key_net ?H ?R (S0(?a := A1, ?b := B1, ?a := A2))"
    using key_net.event [OF net2, of ?a "Ev_Envelope ?b d2"] A2(1) B1(2) alive by (simp add: S0_def heard_def d2_def)
  have "net_ok ?H ?R" using alive toy_random_ok by (simp add: net_ok_def)
  moreover have "ids_fresh toy_random 1" by (simp add: ids_fresh_def lessThan_Suc)
  ultimately obtain epoch where
      "(Encrypt, outboundMediaContext ''mic'' ?b, JStr (fst (draw toy_random 0)), snd (draw toy_random 0), epoch) \<in> set (mm_installed A2)"
      "(Decrypt, inboundMediaContext ?a ''mic'', JStr (fst (draw toy_random 0)), snd (draw toy_random 0), epoch) \<in> set (mm_installed B1)"
    using media_key_agreement [OF net3, of ?a ?b "''mic''" "JStr (fst (draw toy_random 0))" "snd (draw toy_random 0)"] A2(2,3) by auto
  then show ?thesis using net3 A2(2) by (intro exI [of _ "S0(?a := A1, ?b := B1, ?a := A2)"] exI conjI) auto
qed

end
