(* ===== verification/Media_Recovery.thy ===== *)
theory Media_Recovery
  imports Media_Agreement
begin

text \<open>
  The retries of a pending media key, and what the recovery timer of \<^verbatim>\<open>webrtc/peer-mesh.service.ts\<close> does about a key
  that stays without an answer.
\<close>

subsection \<open>Retries\<close>

text \<open>A pending key that used up its sixty sends: no timer, no send in flight, still of the current epoch.\<close>

definition exhausted :: "media_mesh \<Rightarrow> string \<Rightarrow> nat \<Rightarrow> bool" where
  "exhausted m ctx i \<longleftrightarrow> map_of (mm_pending m) ctx = Some i \<and> i < length (mm_store m)
     \<and> msg_field ''membershipEpoch'' (mm_store m ! i) = JInt (mm_membershipEpoch m)
     \<and> 60 \<le> pd_retries (mm_store m ! i) \<and> \<not> pd_timer (mm_store m ! i) \<and> Await_Send i \<notin> set (mm_awaiting m)"

text \<open>What runs without anything from outside: timers, answers of the overlay, and the recovery itself.\<close>

fun recovery_event :: "mesh_event \<Rightarrow> bool" where
  "recovery_event Ev_Recovery = True"
| "recovery_event (Ev_Provision peerId) = True"
| "recovery_event (Ev_Timer i) = True"
| "recovery_event (Ev_Resume j) = True"
| "recovery_event Ev_Overlay_Key = True"
| "recovery_event (Ev_Peer_Keys ids) = True"
| "recovery_event _ = False"

definition waits :: "string \<Rightarrow> nat \<Rightarrow> nat \<Rightarrow> media_mesh \<Rightarrow> bool" where
  "waits ctx i q m \<longleftrightarrow> exhausted m ctx i \<and> pd_retries (mm_store m ! i) = q \<and> shouldProtectMedia m \<and> mm_state m = E2ee_Pending
     \<and> (\<forall>c j. map_of (mm_pending m) c = Some j \<longrightarrow> j < length (mm_store m) \<and> pd_contextId (mm_store m ! j) = c)"

lemma waits_cong:
  assumes "waits ctx i q m" "mm_pending m' = mm_pending m" "mm_store m' = mm_store m" "mm_awaiting m' = mm_awaiting m"
    "mm_membershipEpoch m' = mm_membershipEpoch m" "shouldProtectMedia m' = shouldProtectMedia m" "mm_state m' = E2ee_Pending"
  shows "waits ctx i q m'"
  using assms by (simp add: waits_def exhausted_def msg_field_def)

lemma waits_send:
  assumes "waits ctx i q m" "j \<noteq> i" shows "waits ctx i q (sendPendingMediaKey m j)"
  using assms by (auto simp: waits_def exhausted_def msg_field_def sendPendingMediaKey_def shouldProtectMedia_def Let_def)

lemma waits_store:
  assumes "waits ctx i q m" "j \<noteq> i" "j < length (mm_store m) \<Longrightarrow> pd_contextId p = pd_contextId (mm_store m ! j)"
  shows "waits ctx i q (m\<lparr>mm_store := (mm_store m)[j := p]\<rparr>)"
proof -
  have "pd_contextId ((mm_store m)[j := p] ! k) = pd_contextId (mm_store m ! k)" for k
    using assms(3) by (cases "j < length (mm_store m)") (auto simp: nth_list_update list_update_beyond)
  then show ?thesis
    using assms(1,2) by (auto simp: waits_def exhausted_def msg_field_def shouldProtectMedia_def nth_list_update)
qed

lemma take_out_waits:
  assumes "waits ctx i q m" "c \<noteq> ctx"
  shows "mm_store (take_out c m) ! i = mm_store m ! i" "length (mm_store (take_out c m)) = length (mm_store m)"
    "j < length (mm_store m) \<Longrightarrow> pd_contextId (mm_store (take_out c m) ! j) = pd_contextId (mm_store m ! j)"
proof -
  have pend: "map_of (mm_pending m) ctx = Some i" using assms(1) by (simp add: waits_def exhausted_def)
  show "length (mm_store (take_out c m)) = length (mm_store m)" by (rule ident_store(1)) simp
  show "j < length (mm_store m) \<Longrightarrow> pd_contextId (mm_store (take_out c m) ! j) = pd_contextId (mm_store m ! j)"
    using identD [OF ident_store(2) [OF take_out_fields(9) [of c m]]] by simp
  show "mm_store (take_out c m) ! i = mm_store m ! i"
  proof (cases "map_of (mm_pending m) c")
    case (Some j)
    then have "j \<noteq> i" using assms(1,2) pend unfolding waits_def by metis
    with Some show ?thesis by (simp add: take_out_def destroy_other)
  qed (simp add: take_out_def)
qed

lemma take_out_kept:
  "mm_awaiting (take_out c m) = mm_awaiting m" "mm_state (take_out c m) = mm_state m"
  "shouldProtectMedia ((take_out c m)\<lparr>mm_draws := d\<rparr>) = shouldProtectMedia m"
  by (simp_all add: take_out_def destroyPendingMediaKey_def shouldProtectMedia_def split: option.splits)

lemma waits_take_out:
  assumes "waits ctx i q m" "c \<noteq> ctx" shows "waits ctx i q ((take_out c m)\<lparr>mm_draws := d\<rparr>)"
  using assms take_out_waits [OF assms]
  by (auto simp: waits_def exhausted_def msg_field_def take_out_kept)

lemma waits_enter:
  assumes "waits ctx i q m" "c \<noteq> ctx" "pd_contextId p = c" shows "waits ctx i q (enter_key c p m)"
proof -
  note st = take_out_waits [OF assms(1,2)]
  have e: "mm_pending (enter_key c p m) = map_set c (length (mm_store m)) (mm_pending m)"
      "mm_store (enter_key c p m) = mm_store (take_out c m) @ [p]" "mm_state (enter_key c p m) = E2ee_Pending"
      "mm_awaiting (enter_key c p m) = mm_awaiting m" "mm_membershipEpoch (enter_key c p m) = mm_membershipEpoch m"
      "shouldProtectMedia (enter_key c p m) = shouldProtectMedia m"
    by (simp_all add: enter_key_def take_out_def destroyPendingMediaKey_def shouldProtectMedia_def split: option.splits)
  have "exhausted (enter_key c p m) ctx i" "pd_retries (mm_store (enter_key c p m) ! i) = pd_retries (mm_store m ! i)"
    using assms(1,2) st by (auto simp: waits_def exhausted_def msg_field_def e nth_append)
  moreover have "j < length (mm_store (enter_key c p m)) \<and> pd_contextId (mm_store (enter_key c p m) ! j) = c'"
    if "map_of (mm_pending (enter_key c p m)) c' = Some j" for c' j
  proof (cases "c' = c")
    case True
    then show ?thesis using that st(2) assms(3) by (simp add: e nth_append)
  next
    case False
    then have "map_of (mm_pending m) c' = Some j" using that by (simp add: e)
    then have "j < length (mm_store m)" "pd_contextId (mm_store m ! j) = c'" using assms(1) by (auto simp: waits_def)
    then show ?thesis using st by (simp add: e nth_append)
  qed
  ultimately show ?thesis using assms(1) e(3,6) by (simp add: waits_def)
qed

lemma waits_provision:
  assumes "waits ctx i q m" shows "waits ctx i q (snd (provisionMediaKey R publication peerId m))"
proof (cases "snd (provisionMediaKey R publication peerId m) = m")
  case False
  have other: "outboundMediaContext (pb_id publication) peerId \<noteq> ctx"
  proof
    assume "outboundMediaContext (pb_id publication) peerId = ctx"
    then have "snd (provisionMediaKey R publication peerId m) = m"
      using assms by (auto simp: provisionMediaKey_def waits_def exhausted_def msg_field_def)
    with False show False by simp
  qed
  have "i \<noteq> length (mm_store m)" using assms by (auto simp: waits_def exhausted_def)
  then show ?thesis
    unfolding provision_go [OF False]
    using waits_take_out [OF assms other] waits_send [OF waits_enter [OF assms other]] by (auto split: sum.splits)
qed (use assms in simp)

lemma waits_provision_peer: "waits ctx i q m \<Longrightarrow> waits ctx i q (snd (provisionMediaKeysForPeer R peerId m))"
  unfolding provisionMediaKeysForPeer_def
  by (auto split: option.splits intro!: try_each_inv [where P = "waits ctx i q"] waits_provision)

lemma waits_timer:
  assumes "waits ctx i q m" shows "waits ctx i q (pending_timer m j)"
proof (cases "pd_timer (mm_store m ! j)")
  case True
  then have "j \<noteq> i" using assms by (auto simp: waits_def exhausted_def)
  then show ?thesis using True assms by (simp add: pending_timer_def waits_send waits_store)
qed (use assms in \<open>simp add: pending_timer_def\<close>)

lemma waits_resume:
  assumes "waits ctx i q m" "j < length (mm_awaiting m)" shows "waits ctx i q (mesh_resume m j)"
proof -
  define m1 where "m1 = m\<lparr>mm_awaiting := drop_nth j (mm_awaiting m)\<rparr>"
  have "Await_Send i \<notin> set (drop_nth j (mm_awaiting m))"
    using assms(1) set_drop_nth [of j "mm_awaiting m"] by (auto simp: waits_def exhausted_def)
  then have m1: "waits ctx i q m1"
    using assms(1) by (auto simp: m1_def waits_def exhausted_def shouldProtectMedia_def)
  show ?thesis
  proof (cases "mm_awaiting m ! j")
    case (Await_Send k)
    then have "k \<noteq> i" using assms nth_mem [OF assms(2)] by (auto simp: waits_def exhausted_def)
    then have "waits ctx i q (pending_sent m1 k)" using m1 by (simp add: pending_sent_def Let_def waits_store)
    then show ?thesis by (simp add: mesh_resume_def Let_def Await_Send m1_def)
  next
    case Await_Ack
    have "mm_pending m1 \<noteq> []" "shouldProtectMedia m1" "mm_mode m1 \<noteq> ''disabled''"
      using m1 by (auto simp: waits_def exhausted_def shouldProtectMedia_def)
    then have "waits ctx i q (refreshMediaE2eeState m1)"
      by (intro waits_cong [OF m1]) (simp_all add: refreshMediaE2eeState_def shouldProtectMedia_def)
    then show ?thesis by (simp add: mesh_resume_def Let_def Await_Ack m1_def)
  qed
qed

lemma waits_step:
  assumes "waits ctx i q m" "recovery_event e" shows "waits ctx i q (mesh_step R e m)"
proof -
  have "waits ctx i q (snd (e2ee_recovery R m))"
    unfolding e2ee_recovery_def using assms(1)
    by (auto intro!: try_each_inv [where P = "waits ctx i q"] waits_provision_peer)
  moreover have "waits ctx i q (m\<lparr>mm_overlayPublicKey := b\<rparr>)" "waits ctx i q (m\<lparr>mm_peerKeys := ids\<rparr>)" for b ids
    using assms(1) by (auto simp: waits_def exhausted_def shouldProtectMedia_def)
  ultimately show ?thesis
    using assms by (cases e) (simp_all add: waits_provision_peer waits_timer waits_resume)
qed

text \<open>C16. The recovery timer does not recover a key that was never acknowledged. A pending key is sent at most sixty
  times; once it has used them up, nothing that runs by itself sends it again: not its timer, not the answers of the
  overlay, not the announcement of overlay keys, and not the recovery every four seconds, which passes over the context because
  a key of the current epoch is pending there. The page stays in the state \<open>pending\<close>.\<close>

theorem exhausted_key_never_resent:
  assumes "exhausted m ctx i" "pending_keys_ok m" "shouldProtectMedia m" "mm_state m = E2ee_Pending" "list_all recovery_event es"
  shows "exhausted (fold (mesh_step R) es m) ctx i \<and> pd_retries (mm_store (fold (mesh_step R) es m) ! i) = pd_retries (mm_store m ! i)
    \<and> mm_state (fold (mesh_step R) es m) = E2ee_Pending"
proof -
  have start: "waits ctx i (pd_retries (mm_store m ! i)) m" using assms(1-4) by (auto simp: waits_def pending_keys_ok_def)
  have "waits ctx i (pd_retries (mm_store m ! i)) (fold (mesh_step R) es m)"
  proof (rule fold_inv [where P = "waits ctx i (pd_retries (mm_store m ! i))", OF _ start])
    fix e s assume "e \<in> set es" "waits ctx i (pd_retries (mm_store m ! i)) s"
    then show "waits ctx i (pd_retries (mm_store m ! i)) (mesh_step R e s)" using assms(5) by (auto simp: list_all_iff intro: waits_step)
  qed
  then show ?thesis by (simp add: waits_def)
qed

subsection \<open>A key without an answer\<close>

text \<open>A key whose send number \<open>n + 1\<close> is in flight. A round without an acknowledgement: the overlay answers the
  send, the timer set then runs out a second later.\<close>

definition in_flight :: "media_mesh \<Rightarrow> string \<Rightarrow> nat \<Rightarrow> nat \<Rightarrow> bool" where
  "in_flight m ctx i n \<longleftrightarrow> map_of (mm_pending m) ctx = Some i \<and> i < length (mm_store m) \<and> pd_contextId (mm_store m ! i) = ctx
     \<and> msg_field ''membershipEpoch'' (mm_store m ! i) = JInt (mm_membershipEpoch m) \<and> mm_membershipStable m
     \<and> pd_retries (mm_store m ! i) = n \<and> \<not> pd_timer (mm_store m ! i) \<and> mm_awaiting m = [Await_Send i]
     \<and> shouldProtectMedia m \<and> mm_state m = E2ee_Pending"

definition unanswered :: "(nat \<Rightarrow> bytes \<times> bytes) \<Rightarrow> nat \<Rightarrow> media_mesh \<Rightarrow> media_mesh" where
  "unanswered R i m = fold (mesh_step R) [Ev_Resume 0, Ev_Timer i] m"

lemma unanswered_round:
  assumes "in_flight m ctx i n" "n + 1 < 60" shows "in_flight (unanswered R i m) ctx i (n + 1)"
  using assms by (auto simp: unanswered_def in_flight_def mesh_resume_def pending_sent_def pending_timer_def sendPendingMediaKey_def msg_field_def
      shouldProtectMedia_def Let_def)

lemma last_round:
  assumes "in_flight m ctx i 59"
  shows "exhausted (unanswered R i m) ctx i \<and> shouldProtectMedia (unanswered R i m) \<and> mm_state (unanswered R i m) = E2ee_Pending"
  using assms by (auto simp: unanswered_def in_flight_def exhausted_def mesh_resume_def pending_sent_def pending_timer_def msg_field_def
      shouldProtectMedia_def Let_def)

lemma unanswered_rounds: "in_flight m ctx i 0 \<Longrightarrow> n < 60 \<Longrightarrow> in_flight ((unanswered R i ^^ n) m) ctx i n"
proof (induction n)
  case (Suc n)
  then show ?case using unanswered_round [of "(unanswered R i ^^ n) m" ctx i n R] by simp
qed simp

lemma sixty_sends_exhaust:
  assumes "in_flight m ctx i 0"
  shows "exhausted ((unanswered R i ^^ 60) m) ctx i \<and> shouldProtectMedia ((unanswered R i ^^ 60) m) \<and> mm_state ((unanswered R i ^^ 60) m) = E2ee_Pending"
proof -
  have s: "60 = Suc 59" by simp
  show ?thesis unfolding s funpow.simps o_apply by (rule last_round [OF unanswered_rounds [OF assms]]) simp
qed

lemma keys_inv_events:
  assumes "random_source R" "list_all (event_valid N) es" "keys_inv own {} R N m" shows "keys_inv own {} R N (fold (mesh_step R) es m)"
proof (rule fold_inv [where P = "keys_inv own {} R N", OF _ assms(3)])
  fix e s assume "e \<in> set es" "keys_inv own {} R N s"
  then show "keys_inv own {} R N (mesh_step R e s)" using assms(1,2) by (intro keys_inv_step) (auto simp: list_all_iff)
qed

lemma keys_inv_rounds:
  "random_source R \<Longrightarrow> keys_inv own {} R N m \<Longrightarrow> keys_inv own {} R N ((unanswered R i ^^ n) m)"
proof (induction n)
  case (Suc n)
  then show ?case
    using keys_inv_events [of R N "[Ev_Resume 0, Ev_Timer i]" own "(unanswered R i ^^ n) m"]
    by (simp add: unanswered_def [of R i "(unanswered R i ^^ n) m"] del: mesh_step.simps)
qed simp

text \<open>The page of a member whose peer never answers.\<close>

definition toy_stuck :: media_mesh where
  "toy_stuck = (unanswered toy_random 0 ^^ 60) (mesh_step toy_random (Ev_Provision ''bbbbbbbbbbbbbbbb'') toy_A)"

theorem exhausted_key_never_resent_witness:
  "exhausted (fold (mesh_step toy_random) (replicate 900 Ev_Recovery) toy_stuck) (outboundMediaContext ''mic'' ''bbbbbbbbbbbbbbbb'') 0
   \<and> mm_state (fold (mesh_step toy_random) (replicate 900 Ev_Recovery) toy_stuck) = E2ee_Pending"
proof -
  let ?ctx = "outboundMediaContext ''mic'' ''bbbbbbbbbbbbbbbb''" and ?m = "mesh_step toy_random (Ev_Provision ''bbbbbbbbbbbbbbbb'') toy_A"
  have valid: "list_all (event_valid (\<lambda>_ _. True)) (toy_events ''bbbbbbbbbbbbbbbb'')"
    by (simp add: toy_events_def PEER_ID_def matches_def lower_hex_def MAX_SAFE_INTEGER_def)
  have "keys_inv ''aaaaaaaaaaaaaaaa'' {} toy_random (\<lambda>_ _. True) toy_A"
    unfolding toy_page_def by (rule keys_inv_events [OF toy_random_ok valid keys_inv_init])
  then have "keys_inv ''aaaaaaaaaaaaaaaa'' {} toy_random (\<lambda>_ _. True) ?m" by (intro keys_inv_step toy_random_ok) simp_all
  then have "keys_inv ''aaaaaaaaaaaaaaaa'' {} toy_random (\<lambda>_ _. True) toy_stuck"
    unfolding toy_stuck_def by (rule keys_inv_rounds [OF toy_random_ok])
  then have ok: "pending_keys_ok toy_stuck" by (simp add: keys_inv_def)
  have own: "mm_ownId toy_B = ''bbbbbbbbbbbbbbbb''" "mm_store toy_A = []" "mm_awaiting toy_A = []" by code_simp+
  have pid: "pb_id toy_publication = ''mic''" by (simp add: toy_publication_def)
  have stable: "mm_membershipStable toy_A" using toy_ready by (simp add: exchange_ready_def)
  have "in_flight ?m ?ctx 0 0"
    by (rule key_sent [OF toy_ready]) (use toy_provision stable in \<open>simp add: in_flight_def own pid msg_field_def\<close>)
  then have ex: "exhausted toy_stuck ?ctx 0" "shouldProtectMedia toy_stuck" "mm_state toy_stuck = E2ee_Pending"
    using sixty_sends_exhaust [of ?m ?ctx 0 toy_random] by (simp_all add: toy_stuck_def)
  have "list_all recovery_event (replicate 900 Ev_Recovery)" by (simp add: list_all_iff)
  from exhausted_key_never_resent [OF ex(1) ok ex(2,3) this] show ?thesis by blast
qed

end
