(* ===== verification/Media_Protection.thy ===== *)
theory Media_Protection
  imports Media_Key_Exchange
begin



text \<open>Where media must be encrypted.\<close>

definition strict :: "media_mesh \<Rightarrow> bool" where
  "strict m \<longleftrightarrow> mm_mode m = ''required'' \<or> mm_mode m \<noteq> ''disabled'' \<and> mm_dataOverlayEnabled m
     \<and> (case mm_controller m of None \<Rightarrow> False | Some c \<Rightarrow> mc_supported c)"

definition sender_at :: "media_mesh \<Rightarrow> string \<Rightarrow> string \<Rightarrow> nat option" where
  "sender_at m peerId publicationId = map_of (peer_senders m peerId) publicationId"



subsection \<open>Steps that change no sender\<close>

definition sview :: "media_mesh \<Rightarrow> string \<times> bool \<times> (string \<times> (string \<times> nat) list) list \<times> (bool \<times> (nat \<times> string) list \<times> (nat \<times> media_message) list) option" where
  "sview m = (mm_mode m, mm_dataOverlayEnabled m, mm_peers m,
     map_option (\<lambda>c. (mc_supported c, mc_attached c, mc_transforms c)) (mm_controller m))"

lemma sview_with_controller:
  "(\<And>c. mc_supported (f c) = mc_supported c \<and> mc_attached (f c) = mc_attached c \<and> mc_transforms (f c) = mc_transforms c)
   \<Longrightarrow> sview (with_controller f m) = sview m"
  by (simp add: sview_def with_controller_def option.map_comp comp_def)

lemma controller_view:
  "mc_attached (post c cmd) = mc_attached c" "mc_transforms (post c cmd) = mc_transforms c"
  "mc_attached (destroy_controller c) = mc_attached c" "mc_transforms (destroy_controller c) = mc_transforms c"
  "mc_supported (destroy_controller c) = mc_supported c"
  by (simp_all add: post_def destroy_controller_def)

lemma sview_clear [simp]:
  "sview (with_controller (\<lambda>c. clearContext c ctx) m) = sview m" "sview (with_controller clearKeys m) = sview m"
  "sview (with_controller worker_failed m) = sview m"
  by (rule sview_with_controller; simp add: clearContext_def clearKeys_def worker_failed_def controller_view)+

lemma sview_fields [simp]:
  "sview (m\<lparr>mm_state := s\<rparr>) = sview m" "sview (m\<lparr>mm_store := ps\<rparr>) = sview m" "sview (m\<lparr>mm_pending := pd\<rparr>) = sview m"
  "sview (m\<lparr>mm_senders := a\<rparr>) = sview m" "sview (m\<lparr>mm_receivers := a\<rparr>) = sview m" "sview (m\<lparr>mm_buffered := b\<rparr>) = sview m"
  "sview (m\<lparr>mm_draws := n\<rparr>) = sview m" "sview (m\<lparr>mm_sent := ss\<rparr>) = sview m" "sview (m\<lparr>mm_awaiting := aw\<rparr>) = sview m"
  "sview (m\<lparr>mm_membershipStable := b1\<rparr>) = sview m" "sview (m\<lparr>mm_publications := pubs\<rparr>) = sview m" "sview (m\<lparr>mm_descriptors := ds\<rparr>) = sview m"
  "sview (m\<lparr>mm_gate := g\<rparr>) = sview m" "sview (m\<lparr>mm_peerKeys := ks\<rparr>) = sview m" "sview (m\<lparr>mm_overlayPublicKey := b1\<rparr>) = sview m"
  "sview (m\<lparr>mm_transformFailed := b1\<rparr>) = sview m" "sview (m\<lparr>mm_membershipEpoch := e\<rparr>) = sview m" "sview (m\<lparr>mm_routeEpoch := e\<rparr>) = sview m"
  "sview (m\<lparr>mm_appliedPeerIds := ks\<rparr>) = sview m"
  by (simp_all add: sview_def)

lemma fold_same: "(\<And>x s. v (f x s) = v s) \<Longrightarrow> v (fold f xs s) = v s"
  by (induction xs arbitrary: s) auto

lemma try_each_same: "(\<And>x s. v (snd (f x s)) = v s) \<Longrightarrow> v (snd (try_each f xs s)) = v s"
  using try_each_inv [of xs "\<lambda>t. v t = v s" f s] by simp

lemma sview_state [simp]:
  "sview (refreshMediaE2eeState m) = sview m" "sview (failMediaE2ee m) = sview m" "sview (destroyPendingMediaKey m i) = sview m"
  "sview (take_out ctx m) = sview m" "sview (enter_key ctx p m) = sview m" "sview (sendPendingMediaKey m i) = sview m"
  "sview (pending_sent m i) = sview m" "sview (pending_timer m i) = sview m" "sview (clear_receiver ctx m) = sview m"
  by (simp_all add: refreshMediaE2eeState_def failMediaE2ee_def destroyPendingMediaKey_def take_out_def enter_key_def
      sendPendingMediaKey_def pending_sent_def pending_timer_def clear_receiver_def Let_def split: option.splits)

lemma sview_clear_peer [simp]: "sview (clear_peer_key publication peerId m) = sview m"
  by (simp add: clear_peer_key_def Let_def split: option.splits)

lemma sview_clear_publication [simp]: "sview (clearPublicationMediaKeys publication m) = sview m"
  by (simp add: clearPublicationMediaKeys_def Let_def fold_same [where v = sview])

lemma sview_clear_all [simp]: "sview (clearAllMediaKeys m) = sview m"
  by (simp add: clearAllMediaKeys_def Let_def fold_same [where v = sview])

lemma sview_provision [simp]: "sview (snd (provisionMediaKey R publication peerId m)) = sview m"
proof (cases "snd (provisionMediaKey R publication peerId m) = m")
  case False
  show ?thesis unfolding provision_go [OF False] by (simp split: sum.splits)
qed simp

lemma sview_provision_peer [simp]: "sview (snd (provisionMediaKeysForPeer R peerId m)) = sview m"
  by (auto simp: provisionMediaKeysForPeer_def intro!: try_each_same [where v = sview] split: option.splits)

lemma sview_rotate [simp]: "sview (snd (rotateMediaKeys R m)) = sview m" "sview (snd (e2ee_recovery R m)) = sview m"
  by (auto simp: rotateMediaKeys_def e2ee_recovery_def Let_def try_each_same [where v = sview])

lemma sview_set_key: "mesh_set_key m d ctx k key = (r, m1) \<Longrightarrow> sview m1 = sview m"
  by (auto simp: mesh_set_key_def setSenderKey_def setReceiverKey_def setKey_controller_def ensureWorker_def sview_def
      split: option.splits prod.splits direction.splits if_splits)

lemma sview_apply_key [simp]: "sview (apply_media_key m originPeerId message) = sview m"
  by (cases rule: apply_media_key_cases [of m originPeerId message]) (auto dest: sview_set_key)

lemma sview_apply_ack [simp]: "sview (apply_media_key_ack m originPeerId message) = sview m"
  by (auto simp: apply_media_key_ack_def Let_def dest: sview_set_key split: option.splits prod.splits)

lemma sview_accept [simp]: "sview (acceptMediaE2eeEnvelope m originPeerId data) = sview m"
  by (simp add: acceptMediaE2eeEnvelope_def applyMediaE2eeEnvelope_def Let_def split: option.splits)

lemma sview_flush [simp]: "sview (flushBufferedMediaEnvelopes m) = sview m"
  unfolding flushBufferedMediaEnvelopes_def by (rule fold_same [where v = sview]) (auto simp: flush_one_def split: prod.splits)

lemma sview_resume [simp]: "sview (mesh_resume m j) = sview m"
  by (simp add: mesh_resume_def Let_def split: awaiting.splits)

subsection \<open>Senders\<close>









lemma strict_simps [simp]:
  "strict (drop_sender peerId pub m) = strict m" "strict (set_sender peerId pub s m) = strict m"
  "mm_controller (drop_sender peerId pub m) = mm_controller m" "mm_controller (set_sender peerId pub s m) = mm_controller m"
  by (simp_all add: drop_sender_def set_sender_def strict_def)




lemma out_prefix [simp]: "take 4 (outboundMediaContext q p) = ''out:''"
  by (simp add: outboundMediaContext_def)


lemma sender_at_controller [simp]: "sender_at (m\<lparr>mm_controller := c\<rparr>) p q = sender_at m p q"
  by (simp add: sender_at_def peer_senders_def)




subsection \<open>Events\<close>


























end
