(* ===== verification/Sender_Pool.thy ===== *)
theory Sender_Pool
  imports Js_Prelude
begin

text \<open>
  \<^verbatim>\<open>webrtc/publication-sender-pool.ts\<close>: the senders of a connection, reused when a publication ends. A slot is named by
  its connection and its index, since the lists only grow. \<open>acquire\<close> stops at \<open>replaceTrack\<close> (\<open>pl_replacing\<close>) and goes on in
  \<open>replaced\<close>. What the browser says during a call (states of connection, track and senders, whether a sender was ever
  used to send, the sender \<open>addTrack\<close> returns, exceptions) is the record \<open>pool_page\<close>, what it says after \<open>replaceTrack\<close> the record \<open>replace_page\<close>.
\<close>

datatype slot_state = Slot_Active | Slot_Idle | Slot_Pending | Slot_Retiring | Slot_Failed

record sender_slot =
  sl_sender :: nat
  sl_kind :: string
  sl_state :: slot_state

record sender_pool =
  pl_maxSlots :: int
  pl_connections :: "nat \<Rightarrow> sender_slot list"
  pl_replacing :: "(nat \<times> nat) list"
  pl_removed :: "(nat \<times> nat) list"

record pool_page =
  pg_closed :: bool
  pg_live :: bool
  pg_authorized :: bool
  pg_trackNull :: "nat \<Rightarrow> bool"
  pg_usable :: "nat \<Rightarrow> bool"
  pg_hasSent :: "nat \<Rightarrow> bool"
  pg_added :: "nat option"
  pg_configured :: bool

record replace_page =
  rp_replaced :: bool
  rp_closed :: bool
  rp_live :: bool
  rp_authorized :: bool
  rp_started :: bool

definition new_pool :: "int \<Rightarrow> string + sender_pool" where
  "new_pool maxSlots =
     (if maxSlots < 1 \<or> maxSlots > 80 then Inl ''sender_slot_limit_invalid''
      else Inr \<lparr>pl_maxSlots = maxSlots, pl_connections = (\<lambda>_. []), pl_replacing = [], pl_removed = []\<rparr>)"

definition set_state :: "nat \<Rightarrow> nat \<Rightarrow> slot_state \<Rightarrow> sender_pool \<Rightarrow> sender_pool" where
  "set_state pc i st P = P\<lparr>pl_connections := (pl_connections P)
     (pc := (pl_connections P pc)[i := (pl_connections P pc ! i)\<lparr>sl_state := st\<rparr>])\<rparr>"

fun find_index :: "('a \<Rightarrow> bool) \<Rightarrow> 'a list \<Rightarrow> nat option" where
  "find_index p [] = None"
| "find_index p (x # xs) = (if p x then Some 0 else map_option Suc (find_index p xs))"

text \<open>\<open>removeTrack\<close> is logged; what it throws is dropped.\<close>

definition remove_track :: "nat \<Rightarrow> nat \<Rightarrow> sender_pool \<Rightarrow> sender_pool" where
  "remove_track pc sender P = P\<lparr>pl_removed := pl_removed P @ [(pc, sender)]\<rparr>"

definition release :: "nat \<Rightarrow> nat \<Rightarrow> sender_pool \<Rightarrow> sender_pool" where
  "release pc sender P =
     (case find_index (\<lambda>slot. sl_sender slot = sender) (pl_connections P pc) of None \<Rightarrow> remove_track pc sender P
      | Some i \<Rightarrow>
        let st = sl_state (pl_connections P pc ! i) in
        if st = Slot_Failed then remove_track pc sender P
        else set_state pc i (if st = Slot_Pending \<or> st = Slot_Retiring then Slot_Retiring else Slot_Idle)
          (remove_track pc sender P))"

text \<open>The result is the sender and whether it is ready at once.\<close>

definition acquire :: "nat \<Rightarrow> string \<Rightarrow> pool_page \<Rightarrow> sender_pool \<Rightarrow> (string + nat \<times> bool) \<times> sender_pool" where
  "acquire pc kind page P =
     (if pg_closed page \<or> \<not> pg_live page \<or> \<not> pg_authorized page then (Inl ''sender_slot_denied'', P)
      else
        let slots = pl_connections P pc in
        case find_index (\<lambda>slot. sl_state slot = Slot_Idle \<and> sl_kind slot = kind \<and> pg_trackNull page (sl_sender slot)
              \<and> pg_usable page (sl_sender slot)) slots of
          None \<Rightarrow>
            if int (length slots) \<ge> pl_maxSlots P then (Inl ''sender_slot_limit'', P)
            else (case pg_added page of None \<Rightarrow> (Inl ''addTrack'', P)
              | Some sender \<Rightarrow>
                let P1 = P\<lparr>pl_connections := (pl_connections P)
                      (pc := slots @ [\<lparr>sl_sender = sender, sl_kind = kind, sl_state = Slot_Active\<rparr>])\<rparr>
                in if pg_configured page then (Inr (sender, True), P1) else (Inl ''configure'', release pc sender P1))
        | Some i \<Rightarrow>
            if \<not> pg_configured page then (Inl ''configure'', set_state pc i Slot_Idle P)
            else (Inr (sl_sender (slots ! i), False),
                  set_state pc i Slot_Pending (P\<lparr>pl_replacing := pl_replacing P @ [(pc, i)]\<rparr>)))"

text \<open>\<open>acquire\<close> after \<open>replaceTrack\<close>: \<open>None\<close> is a rejected promise.\<close>

definition replaced :: "nat \<Rightarrow> replace_page \<Rightarrow> sender_pool \<Rightarrow> bool option \<times> sender_pool" where
  "replaced j page P =
     (case pl_replacing P ! j of (pc, i) \<Rightarrow>
      let P1 = P\<lparr>pl_replacing := drop_nth j (pl_replacing P)\<rparr>;
          P2 = remove_track pc (sl_sender (pl_connections P pc ! i)) P1
      in if \<not> rp_replaced page then (None, set_state pc i Slot_Failed P2)
         else if sl_state (pl_connections P pc ! i) = Slot_Retiring \<or> \<not> rp_authorized page \<or> rp_closed page \<or> \<not> rp_live page
         then (Some False, set_state pc i Slot_Idle P2)
         else if \<not> rp_started page then (None, set_state pc i Slot_Failed P2)
         else (Some True, set_state pc i Slot_Active P1))"

subsection \<open>Leases\<close>

text \<open>A lease begins when \<open>acquire\<close> returns a sender. It ends when the sender is released, or when the promise of the lease
  gives \<open>false\<close> or is rejected.\<close>

datatype pool_event =
  Pool_Acquire nat string pool_page
| Pool_Release nat nat
| Pool_Replaced nat replace_page

type_synonym leased_pool = "sender_pool \<times> (nat \<times> nat) list"

fun pool_step :: "pool_event \<Rightarrow> leased_pool \<Rightarrow> leased_pool" where
  "pool_step (Pool_Acquire pc kind page) (P, L) =
     (case acquire pc kind page P of (Inl e, P1) \<Rightarrow> (P1, L) | (Inr (sender, now), P1) \<Rightarrow> (P1, (pc, sender) # L))"
| "pool_step (Pool_Release pc sender) (P, L) = (release pc sender P, removeAll (pc, sender) L)"
| "pool_step (Pool_Replaced j page) (P, L) =
     (if j \<ge> length (pl_replacing P) then (P, L)
      else case replaced j page P of (result, P1) \<Rightarrow>
        (P1, if result = Some True then L
             else case pl_replacing P ! j of (pc, i) \<Rightarrow> removeAll (pc, sl_sender (pl_connections P pc ! i)) L))"

text \<open>What the WebRTC specification says of the senders. A sender keeps its track until the pool removes it, so that of an
  active slot has one. \<open>addTrack\<close> returns a new sender, or one of the connection that has the kind, no track, a transceiver
  that is not stopped, and was never used to send: such a sender can be one of the pool's.\<close>

fun add_track_ok :: "pool_event \<Rightarrow> leased_pool \<Rightarrow> bool" where
  "add_track_ok (Pool_Acquire pc kind page) (P, L) = list_all (\<lambda>slot.
     (sl_state slot = Slot_Active \<longrightarrow> \<not> pg_trackNull page (sl_sender slot)) \<and>
     (pg_added page = Some (sl_sender slot) \<longrightarrow>
        sl_kind slot = kind \<and> pg_trackNull page (sl_sender slot) \<and> pg_usable page (sl_sender slot) \<and> \<not> pg_hasSent page (sl_sender slot)))
     (pl_connections P pc)"
| "add_track_ok _ _ = True"

text \<open>A sender whose track is being replaced, or could not be, was used to send before.\<close>

fun negotiated :: "pool_event \<Rightarrow> leased_pool \<Rightarrow> bool" where
  "negotiated (Pool_Acquire pc kind page) (P, L) = list_all (\<lambda>slot.
     sl_state slot = Slot_Pending \<or> sl_state slot = Slot_Retiring \<or> sl_state slot = Slot_Failed \<longrightarrow> pg_hasSent page (sl_sender slot))
     (pl_connections P pc)"
| "negotiated _ _ = True"

fun pool_run :: "(pool_event \<Rightarrow> leased_pool \<Rightarrow> bool) \<Rightarrow> pool_event list \<Rightarrow> leased_pool \<Rightarrow> bool" where
  "pool_run ok [] S = True"
| "pool_run ok (e # es) S = (ok e S \<and> pool_run ok es (pool_step e S))"

definition held :: "sender_pool \<Rightarrow> nat \<Rightarrow> nat \<Rightarrow> bool" where
  "held P pc sender \<longleftrightarrow> (\<exists>slot \<in> set (pl_connections P pc). sl_sender slot = sender
     \<and> (sl_state slot = Slot_Active \<or> sl_state slot = Slot_Pending))"

definition slots_ok :: "sender_pool \<Rightarrow> bool" where
  "slots_ok P \<longleftrightarrow> (\<forall>pc. distinct (map sl_sender (pl_connections P pc)) \<and> int (length (pl_connections P pc)) \<le> pl_maxSlots P)"

definition replacing_ok :: "sender_pool \<Rightarrow> bool" where
  "replacing_ok P \<longleftrightarrow> distinct (pl_replacing P) \<and> (\<forall>pc i. (pc, i) \<in> set (pl_replacing P) \<longrightarrow>
     i < length (pl_connections P pc)
     \<and> (sl_state (pl_connections P pc ! i) = Slot_Pending \<or> sl_state (pl_connections P pc ! i) = Slot_Retiring))"

fun pool_inv :: "leased_pool \<Rightarrow> bool" where
  "pool_inv (P, L) \<longleftrightarrow> slots_ok P \<and> replacing_ok P \<and> distinct L \<and> (\<forall>pc sender. (pc, sender) \<in> set L \<longleftrightarrow> held P pc sender)"

lemma find_index_Some: "find_index p xs = Some i \<Longrightarrow> i < length xs \<and> p (xs ! i)"
  by (induction xs arbitrary: i) (auto split: if_splits)

lemma find_index_None: "find_index p xs = None \<longleftrightarrow> (\<forall>x \<in> set xs. \<not> p x)"
  by (induction xs) auto

lemma set_state_nth [simp]:
  "i < length (pl_connections P pc) \<Longrightarrow> pl_connections (set_state pc i st P) qc ! j =
     (if qc = pc \<and> j = i then (pl_connections P pc ! i)\<lparr>sl_state := st\<rparr> else pl_connections P qc ! j)"
  by (auto simp: set_state_def)

lemma set_state_simps [simp]:
  "pl_maxSlots (set_state pc i st P) = pl_maxSlots P"
  "pl_replacing (set_state pc i st P) = pl_replacing P"
  "length (pl_connections (set_state pc i st P) qc) = length (pl_connections P qc)"
  by (simp_all add: set_state_def)

lemma set_state_senders [simp]:
  "i < length (pl_connections P pc) \<Longrightarrow>
   map sl_sender (pl_connections (set_state pc i st P) qc) = map sl_sender (pl_connections P qc)"
  by (auto intro: nth_equalityI)

lemma remove_track_simps [simp]:
  "pl_maxSlots (remove_track pc s P) = pl_maxSlots P" "pl_replacing (remove_track pc s P) = pl_replacing P"
  "pl_connections (remove_track pc s P) = pl_connections P"
  by (simp_all add: remove_track_def)

lemma remove_track_ok [simp]:
  "slots_ok (remove_track pc s P) = slots_ok P" "replacing_ok (remove_track pc s P) = replacing_ok P"
  "held (remove_track pc s P) = held P"
  by (simp_all add: slots_ok_def replacing_ok_def held_def fun_eq_iff)

lemma slots_ok_set_state: "slots_ok P \<Longrightarrow> i < length (pl_connections P pc) \<Longrightarrow> slots_ok (set_state pc i st P)"
  by (simp add: slots_ok_def)

lemma held_nth: "held P pc sender \<longleftrightarrow> (\<exists>i < length (pl_connections P pc). sl_sender (pl_connections P pc ! i) = sender
     \<and> (sl_state (pl_connections P pc ! i) = Slot_Active \<or> sl_state (pl_connections P pc ! i) = Slot_Pending))"
  unfolding held_def in_set_conv_nth Bex_def by blast

lemma same_slot:
  assumes "slots_ok P" "i < length (pl_connections P pc)" "j < length (pl_connections P pc)"
  shows "sl_sender (pl_connections P pc ! i) = sl_sender (pl_connections P pc ! j) \<longleftrightarrow> i = j"
  using assms nth_eq_iff_index_eq [of "map sl_sender (pl_connections P pc)" i j] by (auto simp: slots_ok_def)

lemma held_set_state:
  assumes "slots_ok P" "i < length (pl_connections P pc)"
  shows "held (set_state pc i st P) qc sender \<longleftrightarrow>
    (if qc = pc \<and> sender = sl_sender (pl_connections P pc ! i) then st = Slot_Active \<or> st = Slot_Pending else held P qc sender)"
proof (cases "qc = pc")
  case True
  have "sl_sender (pl_connections P pc ! j) = sl_sender (pl_connections P pc ! i) \<longleftrightarrow> j = i" if "j < length (pl_connections P pc)" for j
    using same_slot [OF assms(1) that assms(2)] .
  then show ?thesis using True assms(2) unfolding held_nth by (auto; metis)
qed (simp add: held_nth assms(2))

lemma held_slot:
  assumes "slots_ok P" "i < length (pl_connections P pc)"
  shows "held P pc (sl_sender (pl_connections P pc ! i)) \<longleftrightarrow>
    sl_state (pl_connections P pc ! i) = Slot_Active \<or> sl_state (pl_connections P pc ! i) = Slot_Pending"
  using assms same_slot [OF assms(1)] by (auto simp: held_nth)

lemma replacing_ok_set_state:
  assumes "replacing_ok P" "i < length (pl_connections P pc)"
    and "st = Slot_Pending \<or> st = Slot_Retiring \<or> (pc, i) \<notin> set (pl_replacing P)"
  shows "replacing_ok (set_state pc i st P)"
  using assms by (auto simp: replacing_ok_def split: if_splits)

lemma pool_inv_set_state:
  assumes inv: "pool_inv (P, L)" and i: "i < length (pl_connections P pc)"
    and Q: "pl_connections Q = pl_connections P" "pl_maxSlots Q = pl_maxSlots P" "replacing_ok (set_state pc i st Q)"
    and L': "distinct L'" "\<And>qc sender. (qc, sender) \<in> set L' \<longleftrightarrow>
      (if qc = pc \<and> sender = sl_sender (pl_connections P pc ! i) then st = Slot_Active \<or> st = Slot_Pending else (qc, sender) \<in> set L)"
  shows "pool_inv (set_state pc i st Q, L')"
proof -
  have ok: "slots_ok Q" using inv Q by (simp add: slots_ok_def)
  have "held Q = held P" using Q by (simp add: held_def fun_eq_iff)
  then show ?thesis using inv Q L' i slots_ok_set_state [OF ok] held_set_state [OF ok] by simp
qed

lemma replacing_state:
  assumes "replacing_ok P" "(pc, i) \<in> set (pl_replacing P)"
  shows "i < length (pl_connections P pc)"
    "sl_state (pl_connections P pc ! i) = Slot_Pending \<or> sl_state (pl_connections P pc ! i) = Slot_Retiring"
  using assms by (auto simp: replacing_ok_def)

lemma pool_inv_release:
  assumes inv: "pool_inv (P, L)" shows "pool_inv (release pc sender P, removeAll (pc, sender) L)"
proof (cases "find_index (\<lambda>slot. sl_sender slot = sender) (pl_connections P pc)")
  case None
  then have "(pc, sender) \<notin> set L" using inv by (auto simp: held_def find_index_None)
  then show ?thesis using None inv by (simp add: release_def)
next
  case (Some i)
  define st where "st = sl_state (pl_connections P pc ! i)"
  have i: "i < length (pl_connections P pc)" "sl_sender (pl_connections P pc ! i) = sender" using find_index_Some [OF Some] by auto
  have ok: "slots_ok P" "replacing_ok P" "distinct L" using inv by auto
  show ?thesis
  proof (cases "st = Slot_Failed")
    case True
    then have "(pc, sender) \<notin> set L" using inv held_slot [OF ok(1) i(1)] i(2) by (simp add: st_def)
    then show ?thesis using True Some inv by (simp add: release_def st_def)
  next
    case False
    define st' where "st' = (if st = Slot_Pending \<or> st = Slot_Retiring then Slot_Retiring else Slot_Idle)"
    have "st' = Slot_Retiring \<or> (pc, i) \<notin> set (pl_replacing P)"
      using replacing_state [OF ok(2)] by (auto simp: st'_def st_def)
    then have "replacing_ok (set_state pc i st' (remove_track pc sender P))"
      using i(1) ok(2) by (intro replacing_ok_set_state) auto
    then have "pool_inv (set_state pc i st' (remove_track pc sender P), removeAll (pc, sender) L)"
      using i ok(3) by (intro pool_inv_set_state [OF inv i(1)]) (auto simp: st'_def distinct_removeAll)
    then show ?thesis using False Some by (simp add: release_def st_def st'_def Let_def)
  qed
qed

text \<open>Under both conditions \<open>addTrack\<close> gives \<open>acquire\<close> a sender the pool does not have.\<close>

lemma added_sender_new:
  assumes "add_track_ok (Pool_Acquire pc kind page) (P, L)" "negotiated (Pool_Acquire pc kind page) (P, L)" "pg_added page = Some sender"
    and "find_index (\<lambda>slot. sl_state slot = Slot_Idle \<and> sl_kind slot = kind \<and> pg_trackNull page (sl_sender slot) \<and> pg_usable page (sl_sender slot))
      (pl_connections P pc) = None"
  shows "sender \<notin> set (map sl_sender (pl_connections P pc))"
proof
  assume "sender \<in> set (map sl_sender (pl_connections P pc))"
  then obtain slot where "slot \<in> set (pl_connections P pc)" "sl_sender slot = sender" by auto
  then show False using assms by (cases "sl_state slot") (auto simp: find_index_None list_all_iff)
qed

lemma pool_inv_acquire:
  assumes inv: "pool_inv (P, L)" and new: "add_track_ok (Pool_Acquire pc kind page) (P, L)" "negotiated (Pool_Acquire pc kind page) (P, L)"
  shows "pool_inv (pool_step (Pool_Acquire pc kind page) (P, L))"
proof (cases "pg_closed page \<or> \<not> pg_live page \<or> \<not> pg_authorized page")
  case True
  then show ?thesis using inv by (simp add: acquire_def)
next
  case open_: False
  let ?usable = "\<lambda>slot. sl_state slot = Slot_Idle \<and> sl_kind slot = kind \<and> pg_trackNull page (sl_sender slot) \<and> pg_usable page (sl_sender slot)"
  have ok: "slots_ok P" "replacing_ok P" "distinct L" using inv by auto
  show ?thesis
  proof (cases "find_index ?usable (pl_connections P pc)")
    case (Some i)
    then have i: "i < length (pl_connections P pc)" "sl_state (pl_connections P pc ! i) = Slot_Idle" using find_index_Some by fastforce+
    then have free: "(pc, i) \<notin> set (pl_replacing P)" "(pc, sl_sender (pl_connections P pc ! i)) \<notin> set L"
      using replacing_state(2) [OF ok(2), of pc i] inv held_slot [OF ok(1) i(1)] by auto
    have "pool_inv (set_state pc i Slot_Idle P, L)"
      using i free ok(3) by (intro pool_inv_set_state [OF inv i(1)] replacing_ok_set_state ok) auto
    moreover have "replacing_ok (set_state pc i Slot_Pending (P\<lparr>pl_replacing := pl_replacing P @ [(pc, i)]\<rparr>))"
      using ok(2) i free(1) by (auto simp: replacing_ok_def split: if_splits)
    then have "pool_inv (set_state pc i Slot_Pending (P\<lparr>pl_replacing := pl_replacing P @ [(pc, i)]\<rparr>), (pc, sl_sender (pl_connections P pc ! i)) # L)"
      using i free ok(3) by (intro pool_inv_set_state [OF inv i(1)]) auto
    ultimately show ?thesis using open_ Some by (simp add: acquire_def Let_def)
  next
    case None
    show ?thesis
    proof (cases "int (length (pl_connections P pc)) \<ge> pl_maxSlots P \<or> pg_added page = None")
      case True
      then show ?thesis using open_ None inv by (auto simp: acquire_def Let_def)
    next
      case False
      then obtain sender where s: "pg_added page = Some sender" by auto
      define P1 where "P1 = P\<lparr>pl_connections := (pl_connections P)
        (pc := pl_connections P pc @ [\<lparr>sl_sender = sender, sl_kind = kind, sl_state = Slot_Active\<rparr>])\<rparr>"
      have fresh: "sender \<notin> set (map sl_sender (pl_connections P pc))" using added_sender_new [OF new s None] .
      have slots: "slots_ok P1" using ok(1) fresh False by (auto simp: slots_ok_def P1_def)
      have "replacing_ok P1" using ok(2) by (auto simp: replacing_ok_def P1_def nth_append intro: less_SucI)
      moreover have "held P1 qc q \<longleftrightarrow> (qc = pc \<and> q = sender) \<or> held P qc q" for qc q by (auto simp: held_def P1_def)
      moreover have "(pc, sender) \<notin> set L" using inv fresh by (auto simp: held_def)
      ultimately have P1: "pool_inv (P1, (pc, sender) # L)" using inv slots by auto
      moreover have "removeAll (pc, sender) ((pc, sender) # L) = L" using P1 by auto
      ultimately have "pool_inv (release pc sender P1, L)" using pool_inv_release [OF P1, of pc sender] by simp
      then show ?thesis using P1 open_ None False s by (simp add: acquire_def Let_def P1_def)
    qed
  qed
qed

text \<open>What the mesh takes from the pool (\<open>fresh_run\<close>): the sender \<open>acquire\<close> returns has no owner.\<close>

lemma acquired_sender_free:
  assumes "pool_inv (P, L)" "add_track_ok (Pool_Acquire pc kind page) (P, L)" "negotiated (Pool_Acquire pc kind page) (P, L)"
    and "acquire pc kind page P = (Inr (sender, now), P1)"
  shows "(pc, sender) \<notin> set L"
  using pool_inv_acquire [OF assms(1-3)] assms(4) by simp

lemma pool_inv_replaced:
  assumes inv: "pool_inv (P, L)" shows "pool_inv (pool_step (Pool_Replaced j page) (P, L))"
proof (cases "j < length (pl_replacing P)")
  case True
  obtain pc i where pi: "pl_replacing P ! j = (pc, i)" by (cases "pl_replacing P ! j")
  define P1 where "P1 = P\<lparr>pl_replacing := drop_nth j (pl_replacing P)\<rparr>"
  have ok: "slots_ok P" "replacing_ok P" "distinct L" using inv by auto
  have i: "i < length (pl_connections P pc)"
      "sl_state (pl_connections P pc ! i) = Slot_Pending \<or> sl_state (pl_connections P pc ! i) = Slot_Retiring"
    using replacing_state [OF ok(2)] nth_mem [OF True] pi by metis+
  obtain ys zs where "pl_replacing P = ys @ (pc, i) # zs" "drop_nth j (pl_replacing P) = ys @ zs"
    using drop_nth_split [OF True] pi by metis
  then have rest: "replacing_ok P1" "(pc, i) \<notin> set (pl_replacing P1)" using ok(2) by (auto simp: replacing_ok_def P1_def)
  have ended: "pool_inv (set_state pc i st (remove_track pc s P1), removeAll (pc, sl_sender (pl_connections P pc ! i)) L)"
    if "st = Slot_Failed \<or> st = Slot_Idle" for st s
    using that i rest ok(3) by (intro pool_inv_set_state [OF inv i(1)] replacing_ok_set_state) (auto simp: P1_def distinct_removeAll)
  moreover have "pool_inv (set_state pc i Slot_Active P1, L)" if "sl_state (pl_connections P pc ! i) = Slot_Pending"
    using that i rest ok(3) inv held_slot [OF ok(1) i(1)]
    by (intro pool_inv_set_state [OF inv i(1)] replacing_ok_set_state) (auto simp: P1_def)
  ultimately show ?thesis using True pi i(2) by (auto simp: replaced_def Let_def P1_def simp del: pool_inv.simps)
qed (use inv in simp)

lemma pool_inv_step: "pool_inv S \<Longrightarrow> add_track_ok e S \<Longrightarrow> negotiated e S \<Longrightarrow> pool_inv (pool_step e S)"
  by (cases S; cases e) (simp_all only: pool_inv_acquire pool_inv_replaced pool_inv_release pool_step.simps(2))

lemma pool_inv_run: "pool_inv S \<Longrightarrow> pool_run add_track_ok es S \<Longrightarrow> pool_run negotiated es S \<Longrightarrow> pool_inv (fold pool_step es S)"
  by (induction es arbitrary: S) (simp_all add: pool_inv_step)

lemma pool_step_limit: "pl_maxSlots (fst (pool_step e S)) = pl_maxSlots (fst S)"
  by (cases S; cases e)
    (auto simp: acquire_def release_def replaced_def Let_def split: option.splits prod.splits sum.splits if_splits)

lemma pool_run_limit: "pl_maxSlots (fst (fold pool_step es S)) = pl_maxSlots (fst S)"
  by (induction es arbitrary: S) (simp_all add: pool_step_limit)

text \<open>Two publications that start at once after an earlier one ended before it was negotiated.\<close>

definition pool_page_of :: "(nat \<Rightarrow> bool) \<Rightarrow> bool \<Rightarrow> nat \<Rightarrow> pool_page" where
  "pool_page_of trackNull hasSent sender = \<lparr>pg_closed = False, pg_live = True, pg_authorized = True, pg_trackNull = trackNull,
     pg_usable = (\<lambda>_. True), pg_hasSent = (\<lambda>_. hasSent), pg_added = Some sender, pg_configured = True\<rparr>"

definition unnegotiated_leases :: "pool_event list" where
  "unnegotiated_leases = [Pool_Acquire 0 ''video'' (pool_page_of (\<lambda>_. False) False 7), Pool_Release 0 7,
     Pool_Acquire 0 ''video'' (pool_page_of (\<lambda>_. True) False 7), Pool_Acquire 0 ''video'' (pool_page_of (\<lambda>_. True) False 7)]"

lemma unnegotiated_leased_twice:
  assumes "new_pool maxSlots = Inr P0" "2 \<le> maxSlots"
  shows "pool_run add_track_ok unnegotiated_leases (P0, []) \<and> snd (fold pool_step unnegotiated_leases (P0, [])) = [(0, 7), (0, 7)]"
proof -
  have "P0 = \<lparr>pl_maxSlots = maxSlots, pl_connections = (\<lambda>_. []), pl_replacing = [], pl_removed = []\<rparr>"
    using assms(1) by (simp add: new_pool_def split: if_splits)
  then show ?thesis
    using assms(2) by (simp add: unnegotiated_leases_def pool_page_of_def acquire_def release_def set_state_def remove_track_def Let_def)
qed

text \<open>C15. A sender has one owner at a time, once it was used to send. The browser's \<open>addTrack\<close> is what the specification says: it
  returns a new sender or one without a track that was never used to send. Over every sequence of acquiring, releasing
  and finished replacements of tracks in which the senders whose track is being replaced, or could not be replaced, were
  used to send before, no sender is leased twice; the leased senders are exactly those of the
  active and pending slots; no slot waits for two replacements of its track; and no connection
  has more slots than the limit, which is at most 80. Without that condition the pool does lease a sender twice: a sender
  that was released before it was negotiated, and whose track is being replaced for a second publication, is what
  \<open>addTrack\<close> may return for a third.\<close>

theorem sender_leased_once:
  assumes "new_pool maxSlots = Inr P0"
  shows "(\<forall>es P L. pool_run add_track_ok es (P0, []) \<and> pool_run negotiated es (P0, []) \<and> fold pool_step es (P0, []) = (P, L) \<longrightarrow>
      distinct L \<and> (\<forall>pc sender. (pc, sender) \<in> set L \<longleftrightarrow> held P pc sender) \<and> distinct (pl_replacing P)
      \<and> (\<forall>pc. int (length (pl_connections P pc)) \<le> maxSlots) \<and> maxSlots \<le> 80)
    \<and> (2 \<le> maxSlots \<longrightarrow> (\<exists>es. pool_run add_track_ok es (P0, []) \<and> \<not> distinct (snd (fold pool_step es (P0, [])))))"
proof -
  have start: "pool_inv (P0, [])" "pl_maxSlots P0 = maxSlots" "maxSlots \<le> 80"
    using assms by (auto simp: new_pool_def slots_ok_def replacing_ok_def held_def split: if_splits)
  have "distinct L \<and> (\<forall>pc sender. (pc, sender) \<in> set L \<longleftrightarrow> held P pc sender) \<and> distinct (pl_replacing P)
      \<and> (\<forall>pc. int (length (pl_connections P pc)) \<le> maxSlots)"
    if "pool_run add_track_ok es (P0, [])" "pool_run negotiated es (P0, [])" "fold pool_step es (P0, []) = (P, L)" for es P L
    using pool_inv_run [OF start(1) that(1,2)] pool_run_limit [of es "(P0, [])"] that(3) start(2) by (auto simp: slots_ok_def replacing_ok_def)
  moreover have "\<exists>es. pool_run add_track_ok es (P0, []) \<and> \<not> distinct (snd (fold pool_step es (P0, [])))" if "2 \<le> maxSlots"
    using unnegotiated_leased_twice [OF assms that] by (intro exI [of _ unnegotiated_leases]) simp
  ultimately show ?thesis using start(3) by blast
qed

definition sample_leases :: "pool_event list" where
  "sample_leases = [Pool_Acquire 0 ''video'' (pool_page_of (\<lambda>_. False) False 7), Pool_Release 0 7,
     Pool_Acquire 0 ''video'' (pool_page_of (\<lambda>s. s = 7) True 8), Pool_Acquire 0 ''video'' (pool_page_of (\<lambda>s. s = 7) True 8)]"

definition sample_pool :: sender_pool where
  "sample_pool = \<lparr>pl_maxSlots = 80, pl_connections = (\<lambda>_. []), pl_replacing = [], pl_removed = []\<rparr>"

text \<open>The sender of the first lease is reused, and while its track is being replaced a second publication gets another; had the
  sender not been used to send, it could have been leased twice.\<close>

theorem sender_leased_once_witness:
  "snd (fold pool_step sample_leases (sample_pool, [])) = [(0, 8), (0, 7)]
     \<and> held (fst (fold pool_step sample_leases (sample_pool, []))) 0 7 \<and> held (fst (fold pool_step sample_leases (sample_pool, []))) 0 8
     \<and> (\<exists>es. pool_run add_track_ok es (sample_pool, []) \<and> \<not> distinct (snd (fold pool_step es (sample_pool, []))))"
proof -
  have new: "new_pool 80 = Inr sample_pool" by (simp add: new_pool_def sample_pool_def)
  have fresh: "pool_run add_track_ok sample_leases (sample_pool, [])" "pool_run negotiated sample_leases (sample_pool, [])" by code_simp+
  have leases: "snd (fold pool_step sample_leases (sample_pool, [])) = [(0, 8), (0, 7)]" by code_simp
  then have run: "fold pool_step sample_leases (sample_pool, []) = (fst (fold pool_step sample_leases (sample_pool, [])), [(0, 8), (0, 7)])"
    by (simp only: prod_eq_iff fst_conv snd_conv leases simp_thms)
  note once = sender_leased_once [OF new]
  have "held (fst (fold pool_step sample_leases (sample_pool, []))) 0 7" "held (fst (fold pool_step sample_leases (sample_pool, []))) 0 8"
    using once fresh run by (metis list.set_intros)+
  moreover have "\<exists>es. pool_run add_track_ok es (sample_pool, []) \<and> \<not> distinct (snd (fold pool_step es (sample_pool, [])))"
    using once by simp
  ultimately show ?thesis using leases by blast
qed

end
