(* ===== verification/Spec2Isabelle.thy ===== *)
theory Spec2Isabelle
  imports Sframe_Fence Overlay_Queue Topology_Controller Poll_Laws Notes Diagram_Laws Whiteboard_Laws Slides_Laws Overlay_Delivery
    Server_Authority Media_Recovery Media_Protection Sender_Pool
begin

text \<open>
  A verification of the client core and of the server's moderation of \<^verbatim>\<open>webrtc-minimize-server\<close>, a browser application for encrypted
  conferences. Members of a room hold direct WebRTC connections; a small signalling server keeps the room's
  membership and roles. Paths below are relative to \<^verbatim>\<open>src/frontend/src/app/\<close> unless they name the server.

  \<^bold>\<open>The parts and how they interact.\<close> The server sends \<^emph>\<open>topology\<close> messages (who is in the room, over which
  trees of members data is relayed) and \<^emph>\<open>moderation\<close> messages (roles, hands, presenter, policies). Members
  send each other data over an \<^emph>\<open>opaque overlay\<close>: messages are encrypted end to end, cut into chunks, queued
  per traffic class and relayed along the paths of the topology. The \<^emph>\<open>collaboration tools\<close> (polls, notes,
  diagrams, whiteboard, slides) send their operations over it and admit operations by the roles of the
  moderation. Audio and video frames are encrypted by an \<^emph>\<open>SFrame worker\<close> between encoder and transport. The
  \<^emph>\<open>mesh\<close> draws a key for every publication and peer, sends it over the overlay, and hands it to the worker when the peer has
  acknowledged it; every change of the membership draws new keys.

  \<^bold>\<open>Theories.\<close>
  \<^item> The language. \<open>Js_Prelude\<close>, \<open>Js_Number\<close>, \<open>Js_Json\<close>, \<open>Js_Collections\<close> model what the sources use of
    JavaScript: values, strings, numbers and their coercions, \<open>TextEncoder\<close>, \<open>TextDecoder\<close>,
    \<open>JSON.stringify\<close>, \<open>JSON.parse\<close>, \<open>Map\<close> and \<open>Set\<close>. \<open>Js_Json_Laws\<close> proves that parsing undoes printing;
    every round trip of a contract rests on it.
  \<^item> SFrame (\<^verbatim>\<open>webrtc/sframe-codec.ts\<close>, \<^verbatim>\<open>sframe-media-envelope.ts\<close>, \<^verbatim>\<open>sframe.worker.ts\<close>). \<open>Sframe_Codec\<close> and
    \<open>Sframe_Header\<close>: the header codec and its laws. \<open>Sframe_Replay\<close>: the replay window refines an ideal filter.
    \<open>Sframe_Contexts\<close>: the sending and the receiving context; nonces are never reused, no frame is accepted
    twice. \<open>Sframe_Envelope\<close>: media frames make the round trip. \<open>Sframe_Worker\<close> and \<open>Sframe_Fence\<close>: the worker
    over every sequence of events; keys are installed once, failed contexts stay silent, key material is bounded.
  \<^item> Overlay (\<^verbatim>\<open>webrtc/bounded-overlay-queue.ts\<close>, \<^verbatim>\<open>opaque-data-overlay.ts\<close>). \<open>Overlay_Queue\<close>: the bounded send
    queue. \<open>Overlay_Packet\<close>, \<open>Opaque_Overlay\<close>: packets and the class. \<open>Overlay_Replay\<close>, \<open>Overlay_Authentic\<close>: over
    every interleaving of calls no packet is accepted twice, and what is delivered was authenticated by its
    origin. \<open>Overlay_Delivery\<close>: a message arrives, over relays and in any order of its packets.
  \<^item> Topology (\<^verbatim>\<open>webrtc/topology-contract.ts\<close>, \<^verbatim>\<open>peer-topology-controller.ts\<close>). \<open>Topology\<close>, \<open>Topology_Laws\<close>:
    an accepted message is a forest of spanning trees. \<open>Topology_Controller\<close>: routes, paths, epochs, leases.
  \<^item> Moderation (\<^verbatim>\<open>webrtc/room-moderation.service.ts\<close>): \<open>Moderation\<close>, the client's view and its consistency.
  \<^item> Collaboration. \<open>Collab_Contract\<close> holds what the tools share, as locales: \<open>json_contract\<close> and
    \<open>payload_contract\<close> (a parser with its printer), the admission of deliveries, and \<open>replay_guard\<close> (a service that drops repeated
    operations). \<open>Lww\<close> is the locale of last-writer-wins registers: when replicas converge, and when they do not. \<open>Collab_Sizes\<close> bounds the lengths of JSON texts. Each tool has a contract
    theory (the wire form and its round trip), a theory of its state and service, and where needed a theory of
    laws: \<open>Poll_Contract\<close>, \<open>Poll\<close>, \<open>Poll_Laws\<close> (\<^verbatim>\<open>webrtc/poll-contract.ts\<close>, \<^verbatim>\<open>poll-overlay.ts\<close>, \<^verbatim>\<open>poll.service.ts\<close>);
    \<open>Notes_Contract\<close>, \<open>Notes\<close> (\<^verbatim>\<open>webrtc/shared-notes-*.ts\<close>); \<open>Diagram_Contract\<close>, \<open>Diagram\<close>, \<open>Diagram_Laws\<close>
    (\<^verbatim>\<open>webrtc/diagram-contract.ts\<close>, \<^verbatim>\<open>diagram-overlay.ts\<close>, \<^verbatim>\<open>diagram.service.ts\<close>); \<open>Whiteboard_Contract\<close>, \<open>Whiteboard\<close>,
    \<open>Whiteboard_Laws\<close> (\<^verbatim>\<open>webrtc/whiteboard-*.ts\<close>); \<open>Slides_Contract\<close>, \<open>Slides\<close>, \<open>Slides_Laws\<close>
    (\<^verbatim>\<open>webrtc/slide-presentation-*.ts\<close>).
  \<^item> Media keys. \<open>Media_Key_Protocol\<close> (\<^verbatim>\<open>webrtc/media-e2ee-protocol.ts\<close>): the messages that carry and acknowledge a key.
    \<open>Machine_Gate\<close> (\<^verbatim>\<open>machine-receive-gate.ts\<close>): what machine members may receive; an invalid policy leaves no grant.
    \<open>Media_Controller\<close> (\<^verbatim>\<open>media-e2ee-controller.ts\<close>): the page's end of the worker. \<open>Media_Keys\<close> and \<open>Media_Mesh\<close>: the methods of
    \<^verbatim>\<open>peer-mesh.service.ts\<close> that provision, resend, acknowledge, buffer, rotate and clear keys and attach senders, and the
    events that call them, for rooms without media agents. \<open>Media_Key_Laws\<close> and \<open>Media_Key_Exchange\<close>: the invariant of the pending
    keys under every operation. \<open>Media_Completion\<close>: an exchange installs one key at both ends and streams of frames pass. \<open>Media_Agreement\<close>: over
    every interleaving of the pages of a room (\<open>key_net\<close>) a sending key is one its receiver has installed in the same
    membership epoch; \<open>mm_installed\<close> logs the epoch of each installation for this and has no counterpart in the code. \<open>Media_Recovery\<close>: an
    unanswered key is given up after sixty sends. \<open>Media_Protection\<close>: where media must be encrypted no sender is without its
    transform. \<open>Sender_Pool\<close> (\<^verbatim>\<open>publication-sender-pool.ts\<close>): a sender has one owner at a time, once it was used to send.
  \<^item> The server (\<^verbatim>\<open>src/src/\<close>). \<open>Signaling\<close>: the texts of the socket (\<^verbatim>\<open>protocol.js\<close>, \<^verbatim>\<open>webrtc/signaling.service.ts\<close>).
    \<open>Server_Moderation\<close> (\<^verbatim>\<open>room-moderation.js\<close>): roles, hands, removals, policies, rate limits, audit log. \<open>Server_Room\<close>
    (\<^verbatim>\<open>room-registry.js\<close>, the moderation requests of \<^verbatim>\<open>server.js\<close>): joining, leaving and serving requests, without breakout rooms.
    \<open>Server_Room_Laws\<close>: the invariant of the rooms. \<open>Server_Snapshot\<close>: the snapshot of a reachable room is accepted by the client, whose
    view then is the room. \<open>Server_Authority\<close>: what needs which role, and that the commands the client offers are granted.
  \<^item> This theory holds the properties that span components.

  \<^bold>\<open>Conventions.\<close> A string is the list of the UTF-8 bytes of the JavaScript string; where the source counts
  \<open>.length\<close> the model counts UTF-16 units (\<open>js_length\<close>). A value of unknown shape is a \<open>jsval\<close>. A number with an
  integral value is an \<open>int\<close>; a \<open>bigint\<close> is an \<open>int\<close> with the source's own bounds. A \<open>Map\<close> is an
  association list in insertion order, a \<open>Set\<close> a list without repetitions. A class is a record of its fields,
  a method a function that returns the new record. A thrown error is the left side of a sum. The clock and
  random bytes are arguments. An \<open>async\<close> method is cut at its awaits: the call is begun, waits as a value, and
  is resumed, so that every interleaving is a list of events; where the source compares objects, objects carry
  identities drawn from a counter. WebCrypto is a record of functions (\<open>sframe_crypto\<close>, \<open>overlay_crypto\<close>); what
  the code relies on (decryption undoes encryption, lengths) is a named hypothesis (\<open>crypto_ok\<close>,
  \<open>overlay_crypto_ok\<close>), satisfied by a concrete instance in the witnesses. In the same way the random source of the media
  keys is an argument whose key ids are assumed not to repeat (\<open>ids_fresh\<close>); what a page hears over the overlay was sent by the
  page it names (\<open>heard\<close>; compare \<open>Overlay_Authentic\<close>); the senders the pool and the browser hand out are not in use
  (\<open>fresh_run\<close>; \<open>Sender_Pool\<close> proves this of the pool for senders that were used to send before, and gives the
  case in which it fails); the server's clock is within the safe integers and its random
  ids are fresh (\<open>clock_range\<close>, \<open>draws_ok\<close>, \<open>event_ok\<close>).

  \<^bold>\<open>Bounds and fuel.\<close> The JSON parser recurses with the length of the text as fuel, which \<open>json_parse_stringify\<close>
  shows to be enough for printed values. The climb to the root of a relay tree is a partial function, as the loop
  of the source may run forever; that it returns on every accepted topology is proved. \<open>settle\<close> resumes a call as
  often as it is given random bytes; the delivery theorem states how many are enough.

  \<^bold>\<open>Not modelled.\<close> The Angular components and templates; the connection layer on top of \<open>RTCPeerConnection\<close>
  (\<^verbatim>\<open>webrtc/peer-connection-manager.ts\<close>, ICE, SDP, capture devices, quality sampling), whose behaviour is that of
  the browser; the media agents and their keys; broadcasting; chat and captions; the admission of machine members by the server; breakout
  rooms; file and PDF exports; HTTP, WebSocket and authentication of the server; scripts, native agents and vendored code. JSON objects that bring a
  \<open>toString\<close> field of their own are outside the model of coercion. The manifest lists these parts with the
  reason for each.
\<close>

section \<open>Properties across components\<close>

text \<open>C33. Repeated operations are dropped. Once a poll, notes, diagram, whiteboard or slide service did anything with a delivery,
  every later delivery of an operation with the same id, in whatever room and with whatever else in between, returns
  \<open>false\<close>, changes nothing and sends nothing. Laser pointers of the whiteboard are the exception: each of them is
  processed, but it moves the pointer of its author and nothing else. The whiteboard's history takes in an operation id
  once, be it from a message of its own or from a synchronisation answer: a later message with this id is dropped, and a later
  answer does not add it again. All this is between two resets of the service, and for the whiteboard between two clearings by the
  server's message or the own button, which forget the ids.\<close>

theorem repeated_operations_dropped:
  "repeats_dropped poll_handle poll_drops poll_carries (\<lambda>_. True)
    \<and> repeats_dropped notes_handle notes_drops notes_carries (\<lambda>_. True)
    \<and> repeats_dropped diagram_handle diagram_drops diagram_carries (\<lambda>_. True)
    \<and> repeats_dropped slides_handle slides_drops slides_carries (\<lambda>_. True)
    \<and> repeats_dropped board_handle board_drops board_carries (\<lambda>op. \<not> board_laser op)
    \<and> (\<forall>e s op. board_carries e = Some op \<and> board_laser op \<longrightarrow> (\<exists>lasers. board_handle e s = s\<lparr>bd_remoteLasers := lasers\<rparr>))
    \<and> (\<forall>s e es e' item. board_enters item e s \<longrightarrow>
        (\<forall>op. board_carries e' = Some op \<and> op_id op = op_id item \<longrightarrow> board_drops e' (fold board_handle es (board_handle e s)))
        \<and> (\<forall>item'. board_enters item' e' (fold board_handle es (board_handle e s)) \<longrightarrow> op_id item' \<noteq> op_id item))"
  using poll_replay.repeats_dropped notes_replay.repeats_dropped diagram_replay.repeats_dropped slides_replay.repeats_dropped
    board_replay.repeats_dropped board_laser_moves board_enters_once
  by blast

theorem repeated_operations_dropped_witness:
  "board_enters sample_draw (board_room, sample_answer, [], 0) new_board_service
    \<and> board_drops (board_room, sample_answer, [], 9) (board_handle (board_room, sample_answer, [], 0) new_board_service)"
proof
  let ?e = "(board_room, sample_answer, [], 0) :: board_delivery" and ?e' = "(board_room, sample_answer, [], 9) :: board_delivery"
  show enters: "board_enters sample_draw ?e new_board_service"
    using sample_answer_drawn by (simp add: board_enters_def board_handle_def new_board_service_def)
  then have "\<not> board_drops ?e new_board_service" by (auto simp: board_enters_def board_handle_def board_drops_def)
  moreover have "board_carries ?e = Some sample_sync" "board_carries ?e' = Some sample_sync"
    by (simp_all add: board_carries_def sample_answer_decodes)
  moreover have "\<not> board_laser sample_sync" by (simp add: board_laser_def sample_sync_def)
  moreover have "repeats_dropped board_handle board_drops board_carries (\<lambda>op. \<not> board_laser op)"
    using repeated_operations_dropped by blast
  ultimately have "board_drops ?e' (fold board_handle [] (board_handle ?e new_board_service))"
    unfolding repeats_dropped_def by blast
  then show "board_drops ?e' (board_handle ?e new_board_service)" by simp
qed

text \<open>C35. Operations make the round trip: a poll, notes or whiteboard operation that passes the validation of
  its contract (a synchronisation answer of the whiteboard with the operations it carries included) is
  encoded without an error, and a peer decodes the bytes to the same operation. A valid diagram operation does
  so when its JSON text fits into 260 KiB; a larger one is refused by the encoder.\<close>

theorem collab_operation_roundtrip:
  "(parsePollOperation v = Some p \<and> js_utf8 (poll_json p) \<longrightarrow>
      (\<exists>bs. encodePollOperation p = Inr bs \<and> decodePollBytes bs = Some p))
    \<and> (parseSharedNotesOperation v = Some n \<and> js_utf8 (notes_json n) \<longrightarrow>
      (\<exists>bs. encodeSharedNotesOperation n = Inr bs \<and> decodeSharedNotesBytes bs = Some n))
    \<and> (parseWhiteboardOperation v = Some w \<and> js_utf8 (board_json w) \<longrightarrow>
      (\<exists>bs. encodeWhiteboardOperation w = Inr bs \<and> decodeWhiteboardBytes bs = Some w))
    \<and> (parseDiagramOperation v = Some d \<and> js_utf8 (diagram_json d) \<longrightarrow>
      (if length (stringify (diagram_json d)) \<le> MAX_ENCODED_BYTES
       then \<exists>bs. encodeDiagramOperation d = Inr bs \<and> decodeDiagramBytes bs = Some d
       else encodeDiagramOperation d = Inl ''invalid_diagram_operation''))"
  using poll_operation_roundtrip notes_operation_roundtrip whiteboard_operation_roundtrip
    diagram_operation_roundtrip [of v d] by (simp add: not_le) blast

theorem collab_operation_roundtrip_witness:
  "(\<exists>bs. encodePollOperation sample_vote = Inr bs \<and> decodePollBytes bs = Some sample_vote)
    \<and> (\<exists>bs. encodeSharedNotesOperation sample_note = Inr bs \<and> decodeSharedNotesBytes bs = Some sample_note)
    \<and> (\<exists>bs. encodeWhiteboardOperation sample_sync = Inr bs \<and> decodeWhiteboardBytes bs = Some sample_sync)
    \<and> (\<exists>bs. encodeDiagramOperation sample_lock = Inr bs \<and> decodeDiagramBytes bs = Some sample_lock)"
  using collab_operation_roundtrip [of "poll_json sample_vote" sample_vote sample_note sample_sync sample_lock]
    collab_operation_roundtrip [of "notes_json sample_note" sample_vote sample_note sample_sync sample_lock]
    collab_operation_roundtrip [of "board_json sample_sync" sample_vote sample_note sample_sync sample_lock]
    collab_operation_roundtrip [of "diagram_json sample_lock" sample_vote sample_note sample_sync sample_lock]
    sample_vote_accepted sample_vote_utf8 sample_note_accepted sample_note_utf8 sample_sync_accepted sample_sync_utf8
    sample_lock_accepted sample_lock_utf8 sample_lock_fits
  by simp

end
